(* ===== verification/Go_Prelude.thy ===== *)
theory Go_Prelude
  imports Main "HOL-Library.Word" "HOL-Library.Multiset"
begin

text \<open>
  What every component of the model shares: the widths of the Go integers that matter, Go's
  error values, the observation of a \<open>context.Context\<close>, the functions of package \<open>strings\<close> the
  sources call, and the list lemmas the component proofs use.

  A Go \<open>string\<close> is a sequence of bytes and so is a HOL \<open>string\<close> (one \<open>char\<close> per byte). An
  \<open>int\<close> is 64 bits wide in the source; where no claim depends on it wrapping it is a HOL \<open>int\<close> or
  \<open>nat\<close>, and where the source works on a fixed width (PCM samples, bytes, RTP sequence numbers)
  the model keeps that width as a word.
\<close>

unbundle bit_operations_syntax

named_theorems go_defs \<open>definitions that the simplifier may unfold in component proofs\<close>
named_theorems inv_intros \<open>preservation lemmas of component invariants\<close>

type_synonym i16 = "16 word"
type_synonym u16 = "16 word"
type_synonym u32 = "32 word"
type_synonym byte = "8 word"

text \<open>Instants and durations are nanoseconds; the zero \<open>time.Time\<close> is \<open>None\<close>.\<close>

type_synonym duration = int
type_synonym instant = "int option"

abbreviation millisecond :: duration where "millisecond \<equiv> 1000000"
abbreviation second :: duration where "second \<equiv> 1000000000"

subsection \<open>Errors\<close>

text \<open>
  The sentinel errors the sources compare with have a constructor each; \<open>Msg\<close> is
  \<open>errors.New\<close> or an \<open>fmt.Errorf\<close> without \<open>%w\<close>, \<open>Wrap p e\<close> is \<open>fmt.Errorf(p + "%w", e)\<close>
  and \<open>Joined\<close> is \<open>errors.Join\<close> of the non-nil errors. A nil error is \<open>None\<close>.
\<close>

datatype go_error =
    Canceled
  | DeadlineExceeded
  | Io_EOF
  | Io_ErrClosedPipe
  | Wq_ErrClosed
  | Wq_ErrFull
  | Tg_ErrBusy
  | Tg_ErrClosed
  | Http_MaxBytesError
  | Msg string
  | Wrap string go_error
  | Joined "go_error list"

fun err_is :: "go_error \<Rightarrow> go_error \<Rightarrow> bool" where
  "err_is (Wrap p e) t = (Wrap p e = t \<or> err_is e t)"
| "err_is (Joined es) t = (Joined es = t \<or> list_ex (\<lambda>e. err_is e t) es)"
| "err_is e t = (e = t)"

fun join_lines :: "string list \<Rightarrow> string" where
  "join_lines [] = []"
| "join_lines [x] = x"
| "join_lines (x # xs) = x @ CHR 0x0A # join_lines xs"

fun err_text :: "go_error \<Rightarrow> string" where
  "err_text Canceled = ''context canceled''"
| "err_text DeadlineExceeded = ''context deadline exceeded''"
| "err_text Io_EOF = ''EOF''"
| "err_text Io_ErrClosedPipe = ''io: read/write on closed pipe''"
| "err_text Wq_ErrClosed = ''queue is closed''"
| "err_text Wq_ErrFull = ''queue is full''"
| "err_text Tg_ErrBusy = ''service is busy; retry later''"
| "err_text Tg_ErrClosed = ''service is shutting down''"
| "err_text Http_MaxBytesError = ''http: request body too large''"
| "err_text (Msg s) = s"
| "err_text (Wrap p e) = p @ err_text e"
| "err_text (Joined es) = join_lines (map err_text es)"

lemma err_is_refl [simp]: "err_is e e"
  by (cases e) auto

lemma err_is_wrap [simp]: "err_is e t \<Longrightarrow> err_is (Wrap p e) t"
  by simp

text \<open>
  A context is seen by the code only through \<open>ctx.Err()\<close> at the moments it asks; the model
  passes the observed value: \<open>None\<close> while the context lives, \<open>Some\<close> its error afterwards.
\<close>

type_synonym ctx_err = "go_error option"

type_synonym 'a result = "go_error + 'a"

fun is_ok :: "'a result \<Rightarrow> bool" where
  "is_ok (Inl _) = False"
| "is_ok (Inr _) = True"

subsection \<open>Package strings\<close>

definition has_prefix :: "string \<Rightarrow> string \<Rightarrow> bool" where
  "has_prefix s p = (take (length p) s = p)"

definition has_suffix :: "string \<Rightarrow> string \<Rightarrow> bool" where
  "has_suffix s p = has_prefix (rev s) (rev p)"

fun contains :: "string \<Rightarrow> string \<Rightarrow> bool" where
  "contains [] p = (p = [])"
| "contains (c # s) p = (has_prefix (c # s) p \<or> contains s p)"

text \<open>
  \<open>strings.ToLower\<close> on ASCII letters; bytes of multi-byte runes are kept (the sources lower-case
  header values, host names, file extensions and device names).
\<close>

definition lower_char :: "char \<Rightarrow> char" where
  "lower_char c = (let n = (of_char c :: nat) in if 65 \<le> n \<and> n \<le> 90 then char_of (n + 32) else c)"

definition to_lower :: "string \<Rightarrow> string" where
  "to_lower s = map lower_char s"

definition equal_fold :: "string \<Rightarrow> string \<Rightarrow> bool" where
  "equal_fold a b = (to_lower a = to_lower b)"

text \<open>The UTF-8 encodings of the runes for which \<open>unicode.IsSpace\<close> holds.\<close>

definition utf8_spaces :: "string list" where
  "utf8_spaces =
     [[CHR 0x09], [CHR 0x0A], [CHR 0x0B], [CHR 0x0C], [CHR 0x0D], [CHR 0x20],
      [CHR 0xC2, CHR 0x85], [CHR 0xC2, CHR 0xA0],
      [CHR 0xE1, CHR 0x9A, CHR 0x80],
      [CHR 0xE2, CHR 0x80, CHR 0x80], [CHR 0xE2, CHR 0x80, CHR 0x81],
      [CHR 0xE2, CHR 0x80, CHR 0x82], [CHR 0xE2, CHR 0x80, CHR 0x83],
      [CHR 0xE2, CHR 0x80, CHR 0x84], [CHR 0xE2, CHR 0x80, CHR 0x85],
      [CHR 0xE2, CHR 0x80, CHR 0x86], [CHR 0xE2, CHR 0x80, CHR 0x87],
      [CHR 0xE2, CHR 0x80, CHR 0x88], [CHR 0xE2, CHR 0x80, CHR 0x89],
      [CHR 0xE2, CHR 0x80, CHR 0x8A], [CHR 0xE2, CHR 0x80, CHR 0xA8],
      [CHR 0xE2, CHR 0x80, CHR 0xA9], [CHR 0xE2, CHR 0x80, CHR 0xAF],
      [CHR 0xE2, CHR 0x81, CHR 0x9F], [CHR 0xE3, CHR 0x80, CHR 0x80]]"

fun trim_prefixes :: "string list \<Rightarrow> nat \<Rightarrow> string \<Rightarrow> string" where
  "trim_prefixes ps 0 s = s"
| "trim_prefixes ps (Suc n) s =
     (case find (\<lambda>p. has_prefix s p) ps of
        None \<Rightarrow> s
      | Some p \<Rightarrow> trim_prefixes ps n (drop (length p) s))"

text \<open>Every round drops at least one byte, so the length of the string is enough fuel.\<close>

definition trim_space :: "string \<Rightarrow> string" where
  "trim_space s =
     (let l = trim_prefixes utf8_spaces (length s) s
      in rev (trim_prefixes (map rev utf8_spaces) (length l) (rev l)))"

definition trim_right :: "char \<Rightarrow> string \<Rightarrow> string" where
  "trim_right c s = rev (dropWhile (\<lambda>x. x = c) (rev s))"

definition trim_char :: "char \<Rightarrow> string \<Rightarrow> string" where
  "trim_char c s = trim_right c (dropWhile (\<lambda>x. x = c) s)"

definition is_blank :: "string \<Rightarrow> bool" where
  "is_blank s = (trim_space s = [])"

lemma is_blank_Nil [simp]: "is_blank []"
  by (simp add: is_blank_def trim_space_def)

text \<open>A string with a byte that occurs in no space is not blank.\<close>

lemma trim_prefixes_keeps:
  "\<forall>p \<in> set ps. c \<notin> set p \<Longrightarrow> c \<in> set s \<Longrightarrow> c \<in> set (trim_prefixes ps n s)"
proof (induction ps n s rule: trim_prefixes.induct)
  case (2 ps n s)
  show ?case
  proof (cases "find (\<lambda>p. has_prefix s p) ps")
    case (Some p)
    then have p: "p \<in> set ps" "has_prefix s p" by (auto simp: find_Some_iff)
    then have "s = p @ drop (length p) s" unfolding has_prefix_def by (metis append_take_drop_id)
    then have "c \<in> set (drop (length p) s)" using 2(2,3) p(1) by (metis Un_iff set_append)
    then show ?thesis using 2 Some by simp
  qed (use 2 in simp)
qed simp

lemma not_blank:
  assumes "c \<in> set s" and "\<forall>p \<in> set utf8_spaces. c \<notin> set p"
  shows "\<not> is_blank s"
proof -
  let ?l = "trim_prefixes utf8_spaces (length s) s"
  have "c \<in> set ?l" using trim_prefixes_keeps [OF assms(2,1)] .
  then have "c \<in> set (rev ?l)" by simp
  moreover have "\<forall>p \<in> set (map rev utf8_spaces). c \<notin> set p" using assms(2) by auto
  ultimately have "c \<in> set (trim_prefixes (map rev utf8_spaces) (length ?l) (rev ?l))"
    using trim_prefixes_keeps by blast
  then have "c \<in> set (trim_space s)" by (simp add: trim_space_def Let_def)
  then show ?thesis by (metis empty_iff empty_set is_blank_def)
qed

lemma has_prefix_Nil [simp]: "has_prefix s []"
  by (simp add: has_prefix_def)

lemma has_prefix_append [simp]: "has_prefix (p @ s) p"
  by (simp add: has_prefix_def)

lemma has_prefix_length: "has_prefix s p \<Longrightarrow> length p \<le> length s"
  unfolding has_prefix_def by (metis length_take min.absorb_iff1 min.commute)

lemma has_prefixD: "has_prefix s p \<Longrightarrow> s = p @ drop (length p) s"
  unfolding has_prefix_def by (metis append_take_drop_id)

text \<open>The verb \<open>%q\<close> on a string of ASCII and valid UTF-8: what is printed needs no escape but the
  quote, the backslash and the control characters.\<close>

definition hex_digit :: "nat \<Rightarrow> char" where
  "hex_digit n = (if n < 10 then char_of (48 + n) else char_of (87 + n))"

definition quote_char :: "char \<Rightarrow> string" where
  "quote_char c =
     (let n = (of_char c :: nat) in
      if n = 34 \<or> n = 92 then [CHR 0x5C, c]
      else if n = 7 then [CHR 0x5C, CHR ''a''] else if n = 8 then [CHR 0x5C, CHR ''b'']
      else if n = 12 then [CHR 0x5C, CHR ''f''] else if n = 10 then [CHR 0x5C, CHR ''n'']
      else if n = 13 then [CHR 0x5C, CHR ''r''] else if n = 9 then [CHR 0x5C, CHR ''t'']
      else if n = 11 then [CHR 0x5C, CHR ''v'']
      else if n < 32 \<or> n = 127 then [CHR 0x5C, CHR ''x'', hex_digit (n div 16), hex_digit (n mod 16)]
      else [c])"

definition go_quote :: "string \<Rightarrow> string" where
  "go_quote s = CHR 0x22 # concat (map quote_char s) @ [CHR 0x22]"

subsection \<open>Decimal text of integers (the verb \<open>%d\<close>)\<close>

fun show_nat :: "nat \<Rightarrow> string" where
  "show_nat n = (if n < 10 then [char_of (48 + n)] else show_nat (n div 10) @ [char_of (48 + n mod 10)])"

declare show_nat.simps [simp del]

definition show_int :: "int \<Rightarrow> string" where
  "show_int i = (if i < 0 then CHR ''-'' # show_nat (nat (- i)) else show_nat (nat i))"

subsection \<open>Integer division\<close>

text \<open>Go's \<open>/\<close> and \<open>%\<close> truncate towards zero; the divisor is checked where it may be 0.\<close>

definition go_div :: "int \<Rightarrow> int \<Rightarrow> int" where
  "go_div a b = sgn a * sgn b * (\<bar>a\<bar> div \<bar>b\<bar>)"

definition go_mod :: "int \<Rightarrow> int \<Rightarrow> int" where
  "go_mod a b = a - b * go_div a b"

lemma go_div_nonneg [simp]: "0 \<le> a \<Longrightarrow> 0 < b \<Longrightarrow> go_div a b = a div b"
  by (cases "a = 0") (simp_all add: go_div_def)

lemma go_mod_nonneg [simp]: "0 \<le> a \<Longrightarrow> 0 < b \<Longrightarrow> go_mod a b = a mod b"
  by (simp add: go_mod_def minus_mult_div_eq_mod)

subsection \<open>Lists\<close>

definition remove_at :: "nat \<Rightarrow> 'a list \<Rightarrow> 'a list" where
  "remove_at i xs = take i xs @ drop (Suc i) xs"

lemma length_remove_at [simp]: "i < length xs \<Longrightarrow> length (remove_at i xs) = length xs - 1"
  by (simp add: remove_at_def)

lemma mset_remove_at: "i < length xs \<Longrightarrow> add_mset (xs ! i) (mset (remove_at i xs)) = mset xs"
proof -
  assume i: "i < length xs"
  have "mset xs = mset (take i xs @ xs ! i # drop (Suc i) xs)"
    using id_take_nth_drop [OF i] by simp
  then show ?thesis by (simp add: remove_at_def)
qed

lemma set_remove_at_subset: "set (remove_at i xs) \<subseteq> set xs"
  unfolding remove_at_def by (auto dest: in_set_takeD in_set_dropD)

text \<open>Keeping the last \<open>n\<close> elements, as the sources do with \<open>xs[len(xs)-n:]\<close>.\<close>

definition last_n :: "nat \<Rightarrow> 'a list \<Rightarrow> 'a list" where
  "last_n n xs = drop (length xs - n) xs"

lemma length_last_n [simp]: "length (last_n n xs) = min n (length xs)"
  by (simp add: last_n_def min_def)

lemma last_n_all [simp]: "length xs \<le> n \<Longrightarrow> last_n n xs = xs"
  by (simp add: last_n_def)

lemma set_last_n: "set (last_n n xs) \<subseteq> set xs"
  by (simp add: last_n_def set_drop_subset)

subsection \<open>Reachable states of a machine with an invariant\<close>

text \<open>
  Every component that keeps state behind a mutex is a step relation on its state; each step is
  one critical section. A component states its initial states, its steps and an invariant, and
  the locale gives the invariant of every reachable state.
\<close>

inductive reach :: "('s \<Rightarrow> bool) \<Rightarrow> ('s \<Rightarrow> 's \<Rightarrow> bool) \<Rightarrow> 's \<Rightarrow> bool"
  for init :: "'s \<Rightarrow> bool" and step :: "'s \<Rightarrow> 's \<Rightarrow> bool" where
  reach_init: "init s \<Longrightarrow> reach init step s"
| reach_step: "reach init step s \<Longrightarrow> step s t \<Longrightarrow> reach init step t"

locale machine =
  fixes init :: "'s \<Rightarrow> bool"
    and step :: "'s \<Rightarrow> 's \<Rightarrow> bool"
    and inv :: "'s \<Rightarrow> bool"
  assumes inv_init: "init s \<Longrightarrow> inv s"
    and inv_step: "inv s \<Longrightarrow> step s t \<Longrightarrow> inv t"
begin

lemma reach_inv: "reach init step s \<Longrightarrow> inv s"
  by (induction rule: reach.induct) (blast intro: inv_init inv_step)+

lemma steps_inv: "step\<^sup>*\<^sup>* s t \<Longrightarrow> inv s \<Longrightarrow> inv t"
  by (induction rule: rtranclp_induct) (blast intro: inv_step)+

end

end
