(* ===== verification/Workqueue.thy ===== *)
theory Workqueue
  imports Go_Prelude
begin

text \<open>
  The bounded priority queue of the model workers (internal/workqueue/queue.go). One mutex guards
  the queue, so every method is one function of its state. Contexts are named by values of type
  \<open>'c\<close>, and \<open>cerr c\<close> is what \<open>c.Err()\<close> answers when the method runs.

  The theory also states, as a locale, what a client of a priority queue relies on: popping takes
  out the first of the elements of greatest priority. A worker that serves such a queue until it
  is empty serves the elements in stable priority order.
\<close>

subsection \<open>The interface of a stable priority queue\<close>

fun serve :: "('q \<Rightarrow> ('e \<times> 'q) option) \<Rightarrow> nat \<Rightarrow> 'q \<Rightarrow> 'e list" where
  "serve pop 0 q = []"
| "serve pop (Suc n) q = (case pop q of None \<Rightarrow> [] | Some (e, q') \<Rightarrow> e # serve pop n q')"

lemma foldr_insort_above:
  "\<forall>x \<in> set xs. f e < f x \<Longrightarrow>
   foldr (insort_key f) xs (e # ys) = e # foldr (insort_key f) xs (ys :: 'a list)"
  for f :: "'a \<Rightarrow> 'k::linorder"
  by (induction xs) auto

lemma sort_key_first:
  fixes f :: "'a \<Rightarrow> 'k::linorder"
  assumes "\<forall>x \<in> set xs. f e < f x" and "\<forall>y \<in> set ys. f e \<le> f y"
  shows "sort_key f (xs @ e # ys) = e # sort_key f (xs @ ys)"
proof -
  have "insort_key f e (sort_key f ys) = e # sort_key f ys"
    using assms(2) by (intro insort_is_Cons) simp
  then show ?thesis using foldr_insort_above [OF assms(1)] by (simp add: sort_key_def)
qed

locale stable_queue =
  fixes pop :: "'q \<Rightarrow> ('e \<times> 'q) option"
    and items :: "'q \<Rightarrow> 'e list"
    and prio :: "'e \<Rightarrow> int"
    and ok :: "'q \<Rightarrow> bool"
  assumes pop_None: "ok q \<Longrightarrow> pop q = None \<longleftrightarrow> items q = []"
    and pop_Some: "ok q \<Longrightarrow> pop q = Some (e, q') \<Longrightarrow>
      ok q' \<and> (\<exists>xs ys. items q = xs @ e # ys \<and> items q' = xs @ ys \<and>
                (\<forall>x \<in> set xs. prio x < prio e) \<and> (\<forall>y \<in> set ys. prio y \<le> prio e))"
begin

lemma pop_sort:
  assumes "ok q" and "pop q = Some (e, q')"
  shows "sort_key (\<lambda>x. - prio x) (items q) = e # sort_key (\<lambda>x. - prio x) (items q')"
proof -
  obtain xs ys where "items q = xs @ e # ys" "items q' = xs @ ys"
      "\<forall>x \<in> set xs. prio x < prio e" "\<forall>y \<in> set ys. prio y \<le> prio e"
    using pop_Some [OF assms] by blast
  then show ?thesis using sort_key_first [of xs "\<lambda>x. - prio x" e ys] by simp
qed

lemma pop_length: "ok q \<Longrightarrow> pop q = Some (e, q') \<Longrightarrow> length (items q) = Suc (length (items q'))"
  using pop_Some by fastforce

lemma serve_sorted:
  "ok q \<Longrightarrow> length (items q) \<le> n \<Longrightarrow> serve pop n q = sort_key (\<lambda>x. - prio x) (items q)"
proof (induction n arbitrary: q)
  case 0
  then show ?case by simp
next
  case (Suc n)
  show ?case
  proof (cases "pop q")
    case None
    then show ?thesis using pop_None [OF Suc.prems(1)] by simp
  next
    case (Some p)
    obtain e q' where p: "p = (e, q')" by (cases p)
    have "ok q'" "length (items q') \<le> n"
      using pop_Some [OF Suc.prems(1)] pop_length [OF Suc.prems(1)] Some p Suc.prems(2) by auto
    then show ?thesis using Suc.IH pop_sort [OF Suc.prems(1)] Some p by simp
  qed
qed

lemma pop_max: "ok q \<Longrightarrow> pop q = Some (e, q') \<Longrightarrow> x \<in> set (items q) \<Longrightarrow> prio x \<le> prio e"
  using pop_Some by fastforce

end

subsection \<open>queue.go\<close>

record ('c, 'a) wq_entry =
  we_ctx :: 'c
  we_value :: 'a
  we_priority :: int

record ('c, 'a) wqueue =
  wq_entries :: "('c, 'a) wq_entry list"
  wq_capacity :: int
  wq_closed :: bool

definition wq_New :: "int \<Rightarrow> ('c, 'a) wqueue" where
  "wq_New capacity = \<lparr>wq_entries = [], wq_capacity = capacity, wq_closed = False\<rparr>"

definition wq_Push :: "('c \<Rightarrow> ctx_err) \<Rightarrow> 'c \<Rightarrow> 'a \<Rightarrow> int \<Rightarrow> ('c, 'a) wqueue \<Rightarrow> go_error option \<times> ('c, 'a) wqueue" where
  "wq_Push cerr ctx v priority q =
     (case cerr ctx of
        Some err \<Rightarrow> (Some err, q)
      | None \<Rightarrow>
          if wq_closed q then (Some Wq_ErrClosed, q)
          else let live = filter (\<lambda>e. cerr (we_ctx e) = None) (wq_entries q);
                   q' = q\<lparr>wq_entries := live\<rparr>
               in if wq_capacity q \<le> int (length live) then (Some Wq_ErrFull, q')
                  else (None, q'\<lparr>wq_entries := live @ [\<lparr>we_ctx = ctx, we_value = v, we_priority = priority\<rparr>]\<rparr>))"

text \<open>The scan for the best entry, from index \<open>i\<close> with the best index so far.\<close>

function wq_best :: "('c, 'a) wq_entry list \<Rightarrow> nat \<Rightarrow> nat \<Rightarrow> nat" where
  "wq_best es best i =
     (if i < length es
      then wq_best es (if we_priority (es ! best) < we_priority (es ! i) then i else best) (Suc i)
      else best)"
  by pat_completeness auto
termination
  by (relation "measure (\<lambda>(es, best, i). length es - i)") auto

declare wq_best.simps [simp del]

text \<open>\<open>Pop\<close> blocks on an empty open queue, answers \<open>false\<close> on a closed one, or takes an entry.\<close>

datatype ('c, 'a) wq_popped = Pop_blocks | Pop_closed | Popped "('c, 'a) wq_entry" "('c, 'a) wqueue"

definition wq_Pop :: "('c, 'a) wqueue \<Rightarrow> ('c, 'a) wq_popped" where
  "wq_Pop q =
     (if wq_entries q = [] \<and> \<not> wq_closed q then Pop_blocks
      else if wq_closed q then Pop_closed
      else let best = wq_best (wq_entries q) 0 1
           in Popped (wq_entries q ! best) (q\<lparr>wq_entries := remove_at best (wq_entries q)\<rparr>))"

definition wq_Close :: "('c, 'a) wqueue \<Rightarrow> ('c, 'a) wqueue" where
  "wq_Close q = q\<lparr>wq_closed := True, wq_entries := []\<rparr>"

subsection \<open>The best entry is the first of greatest priority\<close>

lemma wq_best_spec:
  assumes "best < i" and "i \<le> length es"
    and "\<forall>j < best. we_priority (es ! j) < we_priority (es ! best)"
    and "\<forall>j < i. we_priority (es ! j) \<le> we_priority (es ! best)"
  shows "wq_best es best i < length es \<and>
         (\<forall>j < wq_best es best i. we_priority (es ! j) < we_priority (es ! wq_best es best i)) \<and>
         (\<forall>j < length es. we_priority (es ! j) \<le> we_priority (es ! wq_best es best i))"
  using assms
proof (induction es best i rule: wq_best.induct)
  case (1 es best i)
  show ?case
  proof (cases "i < length es")
    case False
    then show ?thesis using 1(2-) by (subst (1 2 3 4) wq_best.simps) auto
  next
    case True
    let ?b = "if we_priority (es ! best) < we_priority (es ! i) then i else best"
    have "wq_best es best i = wq_best es ?b (Suc i)" using True by (subst wq_best.simps) simp
    moreover have "?b < Suc i" "Suc i \<le> length es"
        "\<forall>j < ?b. we_priority (es ! j) < we_priority (es ! ?b)"
        "\<forall>j < Suc i. we_priority (es ! j) \<le> we_priority (es ! ?b)"
      using 1(2-) True by (auto simp: less_Suc_eq intro: order_le_less_trans)
    ultimately show ?thesis using "1.IH" [OF True] by simp
  qed
qed

definition wq_take :: "('c, 'a) wqueue \<Rightarrow> (('c, 'a) wq_entry \<times> ('c, 'a) wqueue) option" where
  "wq_take q = (case wq_Pop q of Popped e q' \<Rightarrow> Some (e, q') | _ \<Rightarrow> None)"

definition wq_open :: "('c, 'a) wqueue \<Rightarrow> bool" where
  "wq_open q \<longleftrightarrow> \<not> wq_closed q"

lemma wq_Pop_Popped:
  assumes "wq_Pop q = Popped e q'"
  shows "\<not> wq_closed q \<and> wq_closed q' = wq_closed q \<and> wq_capacity q' = wq_capacity q \<and>
    (\<exists>xs ys. wq_entries q = xs @ e # ys \<and> wq_entries q' = xs @ ys \<and>
       (\<forall>x \<in> set xs. we_priority x < we_priority e) \<and> (\<forall>y \<in> set ys. we_priority y \<le> we_priority e))"
proof -
  let ?es = "wq_entries q" and ?b = "wq_best (wq_entries q) 0 1"
  have ne: "?es \<noteq> []" "\<not> wq_closed q" "e = ?es ! ?b" "q' = q\<lparr>wq_entries := remove_at ?b ?es\<rparr>"
    using assms by (auto simp: wq_Pop_def Let_def split: if_splits)
  have b: "?b < length ?es" "\<forall>j < ?b. we_priority (?es ! j) < we_priority (?es ! ?b)"
      "\<forall>j < length ?es. we_priority (?es ! j) \<le> we_priority (?es ! ?b)"
    using wq_best_spec [of 0 1 ?es] ne(1) by (auto simp: Suc_le_eq)
  have "?es = take ?b ?es @ e # drop (Suc ?b) ?es" using id_take_nth_drop [OF b(1)] ne(3) by simp
  moreover have "\<forall>x \<in> set (take ?b ?es). we_priority x < we_priority e"
    using b ne(3) by (auto simp: in_set_conv_nth)
  moreover have "\<forall>y \<in> set (drop (Suc ?b) ?es). we_priority y \<le> we_priority e"
    using b ne(3) by (auto simp: in_set_conv_nth)
  ultimately show ?thesis using ne by (auto simp: remove_at_def)
qed

interpretation wq: stable_queue wq_take wq_entries we_priority wq_open
proof unfold_locales
  fix q :: "('a, 'b) wqueue"
  assume "wq_open q"
  then show "wq_take q = None \<longleftrightarrow> wq_entries q = []"
    by (auto simp: wq_take_def wq_open_def wq_Pop_def Let_def)
next
  fix q q' :: "('a, 'b) wqueue" and e
  assume "wq_open q" and "wq_take q = Some (e, q')"
  then have "wq_Pop q = Popped e q'" by (auto simp: wq_take_def split: wq_popped.splits)
  from wq_Pop_Popped [OF this]
  show "wq_open q' \<and> (\<exists>xs ys. wq_entries q = xs @ e # ys \<and> wq_entries q' = xs @ ys \<and>
      (\<forall>x \<in> set xs. we_priority x < we_priority e) \<and> (\<forall>y \<in> set ys. we_priority y \<le> we_priority e))"
    by (auto simp: wq_open_def)
qed

subsection \<open>Admission\<close>

text \<open>The queue never holds more than its capacity, and nothing once it is closed.\<close>

definition wq_inv :: "('c, 'a) wqueue \<Rightarrow> bool" where
  "wq_inv q \<longleftrightarrow> int (length (wq_entries q)) \<le> max 0 (wq_capacity q) \<and> (wq_closed q \<longrightarrow> wq_entries q = [])"

inductive wq_step :: "('c, 'a) wqueue \<Rightarrow> ('c, 'a) wqueue \<Rightarrow> bool" where
  step_push: "wq_step q (snd (wq_Push cerr ctx v p q))"
| step_pop: "wq_Pop q = Popped e q' \<Longrightarrow> wq_step q q'"
| step_close: "wq_step q (wq_Close q)"

lemma wq_Push_inv [inv_intros]: "wq_inv q \<Longrightarrow> wq_inv (snd (wq_Push cerr ctx v p q))"
proof -
  assume inv: "wq_inv q"
  let ?live = "filter (\<lambda>e. cerr (we_ctx e) = None) (wq_entries q)"
  have "int (length ?live) \<le> int (length (wq_entries q))" by simp
  also have "\<dots> \<le> max 0 (wq_capacity q)" using inv by (simp add: wq_inv_def)
  finally show ?thesis using inv
    by (auto simp: wq_inv_def wq_Push_def Let_def split: option.splits)
qed

lemma wq_Pop_inv [inv_intros]: "wq_inv q \<Longrightarrow> wq_Pop q = Popped e q' \<Longrightarrow> wq_inv q'"
  using wq_Pop_Popped [of q e q'] by (auto simp: wq_inv_def)

lemma wq_Close_inv [inv_intros]: "wq_inv (wq_Close q)"
  by (simp add: wq_inv_def wq_Close_def)

lemma wq_step_inv: "wq_inv s \<Longrightarrow> wq_step s t \<Longrightarrow> wq_inv t"
  by (erule wq_step.cases) (auto intro: inv_intros)

interpretation wq_machine: machine "\<lambda>q. \<exists>n. q = wq_New n" wq_step wq_inv
proof unfold_locales
  show "wq_inv q" if "\<exists>n. q = wq_New n" for q :: "('a, 'b) wqueue"
    using that by (auto simp: wq_inv_def wq_New_def)
qed (rule wq_step_inv)

subsection \<open>Properties\<close>

text \<open>C21: A worker that empties the queue serves the jobs by priority and, within a priority, in the order in
  which they were pushed: it runs the stable sort of what was queued.\<close>

theorem workqueue_serves_by_priority:
  assumes "\<not> wq_closed q"
  shows "serve wq_take (length (wq_entries q)) q = sort_key (\<lambda>e. - we_priority e) (wq_entries q)"
  using assms by (intro wq.serve_sorted) (simp_all add: wq_open_def)

definition sample_queue :: "(nat, string) wqueue" where
  "sample_queue =
     (let push = \<lambda>v p q. snd (wq_Push (\<lambda>_. None) 0 v p q)
      in push ''late'' 1 (push ''low'' 0 (push ''high'' 1 (wq_New 8))))"

theorem workqueue_serves_by_priority_witness:
  "map we_value (serve wq_take 3 sample_queue) = [''high'', ''late'', ''low'']"
proof -
  have "\<not> wq_closed sample_queue" "length (wq_entries sample_queue) = 3"
    "map we_value (sort_key (\<lambda>e. - we_priority e) (wq_entries sample_queue)) = [''high'', ''late'', ''low'']"
    by (simp_all add: sample_queue_def wq_Push_def wq_New_def Let_def)
  then show ?thesis using workqueue_serves_by_priority [of sample_queue] by simp
qed

text \<open>A reachable queue never holds more jobs than its capacity, and none once it is closed; a push on a
  closed queue or with a cancelled context is refused and admits nothing.\<close>

theorem workqueue_bounded:
  assumes "reach (\<lambda>q. q = wq_New n) wq_step q"
  shows "int (length (wq_entries q)) \<le> max 0 (wq_capacity q) \<and> (wq_closed q \<longrightarrow> wq_entries q = []) \<and>
    (wq_closed q \<or> cerr ctx \<noteq> None \<longrightarrow> fst (wq_Push cerr ctx v p q) \<noteq> None \<and> snd (wq_Push cerr ctx v p q) = q)"
proof -
  have "wq_inv q" using assms
  proof (induction rule: reach.induct)
    case (reach_init s)
    then show ?case by (simp add: wq_inv_def wq_New_def)
  next
  qed (rule wq_step_inv)
  then show ?thesis by (auto simp: wq_inv_def wq_Push_def split: option.splits)
qed

theorem workqueue_bounded_witness:
  "length (wq_entries (snd (wq_Push (\<lambda>_. None) (0 :: nat) ''job'' 0 (wq_New 8)))) \<le> 8"
proof -
  let ?q = "snd (wq_Push (\<lambda>_. None) (0 :: nat) ''job'' 0 (wq_New 8))"
  have "reach (\<lambda>q. q = wq_New 8) wq_step ?q"
    by (rule reach_step, rule reach_init, rule refl, rule step_push)
  from workqueue_bounded [OF this] show ?thesis by (simp add: wq_Push_def wq_New_def)
qed

end
