(* ===== verification/Go_Heap.thy ===== *)
theory Go_Heap
  imports Go_Prelude
begin

text \<open>
  Go's package \<open>container/heap\<close>, as the functions \<open>up\<close>, \<open>down\<close>, \<open>Push\<close>, \<open>Pop\<close>, \<open>Remove\<close> over the
  operations of its \<open>heap.Interface\<close> (\<open>Len\<close>, \<open>Less\<close>, \<open>Swap\<close> and the client's own \<open>Push\<close>, \<open>Pop\<close>).
  The locale states what the package asks of these operations and gives what it promises.
\<close>

function heap_up :: "('h \<Rightarrow> nat \<Rightarrow> nat \<Rightarrow> bool) \<Rightarrow> ('h \<Rightarrow> nat \<Rightarrow> nat \<Rightarrow> 'h) \<Rightarrow> 'h \<Rightarrow> nat \<Rightarrow> 'h" where
  "heap_up lss swap h j =
     (if (j - 1) div 2 = j \<or> \<not> lss h j ((j - 1) div 2) then h
      else heap_up lss swap (swap h ((j - 1) div 2) j) ((j - 1) div 2))"
  by pat_completeness auto
termination
  by (relation "measure (\<lambda>(lss, swap, h, j). j)") auto

text \<open>The child that \<open>down\<close> compares with: the right one when it exists and is the lesser.\<close>

definition heap_child :: "('h \<Rightarrow> nat \<Rightarrow> nat \<Rightarrow> bool) \<Rightarrow> 'h \<Rightarrow> nat \<Rightarrow> nat \<Rightarrow> nat" where
  "heap_child lss h i n =
     (if 2 * i + 2 < n \<and> lss h (2 * i + 2) (2 * i + 1) then 2 * i + 2 else 2 * i + 1)"

function heap_down :: "('h \<Rightarrow> nat \<Rightarrow> nat \<Rightarrow> bool) \<Rightarrow> ('h \<Rightarrow> nat \<Rightarrow> nat \<Rightarrow> 'h) \<Rightarrow> 'h \<Rightarrow> nat \<Rightarrow> nat \<Rightarrow> 'h \<times> nat" where
  "heap_down lss swap h i n =
     (if n \<le> 2 * i + 1 \<or> \<not> lss h (heap_child lss h i n) i then (h, i)
      else heap_down lss swap (swap h i (heap_child lss h i n)) (heap_child lss h i n) n)"
  by pat_completeness auto
termination
  by (relation "measure (\<lambda>(lss, swap, h, i, n). n - i)") (auto simp: heap_child_def)

declare heap_up.simps [simp del] heap_down.simps [simp del]

text \<open>The parts of \<open>heap.Push\<close>, \<open>heap.Pop\<close> and \<open>heap.Remove\<close> around the client's \<open>Push\<close> and \<open>Pop\<close>.\<close>

definition heap_fix_push :: "('h \<Rightarrow> nat \<Rightarrow> nat \<Rightarrow> bool) \<Rightarrow> ('h \<Rightarrow> nat \<Rightarrow> nat \<Rightarrow> 'h) \<Rightarrow> nat \<Rightarrow> 'h \<Rightarrow> 'h" where
  "heap_fix_push lss swap len h = heap_up lss swap h (len - 1)"

definition heap_fix_pop :: "('h \<Rightarrow> nat \<Rightarrow> nat \<Rightarrow> bool) \<Rightarrow> ('h \<Rightarrow> nat \<Rightarrow> nat \<Rightarrow> 'h) \<Rightarrow> nat \<Rightarrow> 'h \<Rightarrow> 'h" where
  "heap_fix_pop lss swap len h = fst (heap_down lss swap (swap h 0 (len - 1)) 0 (len - 1))"

definition heap_fix_remove :: "('h \<Rightarrow> nat \<Rightarrow> nat \<Rightarrow> bool) \<Rightarrow> ('h \<Rightarrow> nat \<Rightarrow> nat \<Rightarrow> 'h) \<Rightarrow> nat \<Rightarrow> nat \<Rightarrow> 'h \<Rightarrow> 'h" where
  "heap_fix_remove lss swap len i h =
     (let n = len - 1 in
      if n = i then h
      else let (h', k) = heap_down lss swap (swap h i n) i n
           in if i < k then h' else heap_up lss swap h' i)"

subsection \<open>Heap order\<close>

definition parent :: "nat \<Rightarrow> nat" where
  "parent k = (k - 1) div 2"

definition heap_upto :: "nat \<Rightarrow> 'k::linorder list \<Rightarrow> bool" where
  "heap_upto n ks \<longleftrightarrow> (\<forall>k. 0 < k \<and> k < n \<longrightarrow> ks ! parent k \<le> ks ! k)"

text \<open>Heap order but between \<open>j\<close> and its parent, and its parent still bounds the children of \<open>j\<close>.\<close>

definition heap_but :: "nat \<Rightarrow> nat \<Rightarrow> 'k::linorder list \<Rightarrow> bool" where
  "heap_but n j ks \<longleftrightarrow>
     (\<forall>k. 0 < k \<and> k < n \<and> k \<noteq> j \<longrightarrow> ks ! parent k \<le> ks ! k) \<and>
     (\<forall>k. 0 < k \<and> k < n \<and> parent k = j \<and> 0 < j \<longrightarrow> ks ! parent j \<le> ks ! k)"

text \<open>Nothing is known of \<open>ks ! i\<close>.\<close>

definition heap_hole :: "nat \<Rightarrow> nat \<Rightarrow> 'k::linorder list \<Rightarrow> bool" where
  "heap_hole n i ks \<longleftrightarrow>
     (\<forall>k. 0 < k \<and> k < n \<and> k \<noteq> i \<and> parent k \<noteq> i \<longrightarrow> ks ! parent k \<le> ks ! k) \<and>
     (\<forall>k. 0 < k \<and> k < n \<and> parent k = i \<and> 0 < i \<longrightarrow> ks ! parent i \<le> ks ! k)"

lemma parent_less: "0 < k \<Longrightarrow> parent k < k"
  by (auto simp: parent_def)

lemma parent_eq_iff: "0 < k \<Longrightarrow> parent k = i \<longleftrightarrow> k = 2 * i + 1 \<or> k = 2 * i + 2"
  by (auto simp: parent_def)

lemma parent_0 [simp]: "parent 0 = 0"
  by (simp add: parent_def)

lemma heap_root_least: "heap_upto n ks \<Longrightarrow> k < n \<Longrightarrow> ks ! 0 \<le> ks ! k"
proof (induction k rule: less_induct)
  case (less k)
  show ?case
  proof (cases "k = 0")
    case False
    then have "ks ! 0 \<le> ks ! parent k" using less parent_less [of k] by simp
    also have "\<dots> \<le> ks ! k" using less.prems False by (simp add: heap_upto_def)
    finally show ?thesis .
  qed simp
qed

abbreviation swapped :: "'a list \<Rightarrow> nat \<Rightarrow> nat \<Rightarrow> 'a list" where
  "swapped ks i j \<equiv> ks[i := ks ! j, j := ks ! i]"

lemma mset_swapped [simp]: "i < length ks \<Longrightarrow> j < length ks \<Longrightarrow> mset (swapped ks i j) = mset ks"
  by (simp add: mset_swap)

lemma heap_but_0: "heap_but n 0 ks \<longleftrightarrow> heap_upto n ks"
  by (auto simp: heap_but_def heap_upto_def)

lemma heap_but_step:
  assumes "heap_but n j ks" and "0 < j" and "j < n" and "n \<le> length ks" and "ks ! j < ks ! parent j"
  shows "heap_but n (parent j) (swapped ks (parent j) j)"
proof -
  let ?p = "parent j" and ?s = "swapped ks (parent j) j"
  have p: "?p < j" "?p < length ks" "j < length ks" using assms parent_less [of j] by auto
  have nth: "?s ! k = (if k = j then ks ! ?p else if k = ?p then ks ! j else ks ! k)" if "k < n" for k
    using that p assms(4) by (auto simp: nth_list_update)
  have le: "ks ! parent k \<le> ks ! k" if "0 < k" "k < n" "k \<noteq> j" for k
    using assms(1) that by (simp add: heap_but_def)
  have gc: "ks ! ?p \<le> ks ! k" if "0 < k" "k < n" "parent k = j" for k
    using assms(1,2) that by (simp add: heap_but_def)
  have pk: "parent k < n" if "k < n" for k using that parent_less [of k] by (cases "k = 0") auto
  have 1: "?s ! parent k \<le> ?s ! k" if k: "0 < k" "k < n" "k \<noteq> ?p" for k
  proof (cases "k = j")
    case True
    then show ?thesis using nth k p pk [of j] assms(3,5) by simp
  next
    case False
    consider "parent k = j" | "parent k = ?p" | "parent k \<noteq> j" "parent k \<noteq> ?p" by blast
    then show ?thesis
    proof cases
      case 1
      then show ?thesis using nth [of k] nth [of j] k False gc [of k] assms(3) by simp
    next
      case 2
      have "ks ! j < ks ! ?p" by fact
      also have "\<dots> \<le> ks ! k" using le [of k] k False 2 by simp
      finally show ?thesis using nth [of k] nth [of ?p] k False p 2 assms(3) by simp
    next
      case 3
      then show ?thesis using nth [of k] nth [of "parent k"] pk k False le [of k] by simp
    qed
  qed
  have 2: "?s ! parent ?p \<le> ?s ! k" if k: "0 < k" "k < n" "parent k = ?p" "0 < ?p" for k
  proof -
    have pp: "parent ?p < ?p" using parent_less k(4) by blast
    have up: "ks ! parent ?p \<le> ks ! ?p" using le [of ?p] k(4) p assms(3) by simp
    show ?thesis
    proof (cases "k = j")
      case True
      then show ?thesis using nth [of j] nth [of "parent ?p"] pp p assms(3) up by simp
    next
      case False
      have "k \<noteq> ?p" using k parent_less [of k] by auto
      moreover have "ks ! ?p \<le> ks ! k" using le [of k] k False by simp
      ultimately show ?thesis using nth [of k] nth [of "parent ?p"] False k pp p assms(3) up by simp
    qed
  qed
  show ?thesis unfolding heap_but_def using 1 2 by blast
qed

lemma heap_hole_stop:
  assumes "heap_hole n i ks" and "\<And>k. 0 < k \<Longrightarrow> k < n \<Longrightarrow> parent k = i \<Longrightarrow> ks ! i \<le> ks ! k"
  shows "heap_but n i ks"
  using assms unfolding heap_hole_def heap_but_def by metis

lemma heap_hole_step:
  assumes hole: "heap_hole n i ks" and c: "0 < c" "c < n" "parent c = i" and n: "n \<le> length ks"
    and lt: "ks ! c < ks ! i" and least: "\<And>k. 0 < k \<Longrightarrow> k < n \<Longrightarrow> parent k = i \<Longrightarrow> ks ! c \<le> ks ! k"
  shows "heap_hole n c (swapped ks i c) \<and> swapped ks i c ! i \<le> swapped ks i c ! c \<and>
    (0 < i \<longrightarrow> swapped ks i c ! parent i \<le> swapped ks i c ! i)"
proof -
  let ?s = "swapped ks i c"
  have i: "i < c" using c parent_less by blast
  have nth: "?s ! k = (if k = c then ks ! i else if k = i then ks ! c else ks ! k)" if "k < n" for k
    using that i c n by (auto simp: nth_list_update)
  have pk: "parent k < n" if "k < n" for k using that parent_less [of k] by (cases "k = 0") auto
  have le: "ks ! parent k \<le> ks ! k" if "0 < k" "k < n" "k \<noteq> i" "parent k \<noteq> i" for k
    using hole that by (simp add: heap_hole_def)
  have gc: "ks ! parent i \<le> ks ! k" if "0 < k" "k < n" "parent k = i" "0 < i" for k
    using hole that by (simp add: heap_hole_def)
  have up: "?s ! parent i \<le> ?s ! i" if "0 < i"
    using that nth [of i] nth [of "parent i"] parent_less [of i] gc [of c] i c by simp
  have 1: "?s ! parent k \<le> ?s ! k" if k: "0 < k" "k < n" "k \<noteq> c" "parent k \<noteq> c" for k
  proof (cases "k = i")
    case True
    then show ?thesis using up k by simp
  next
    case False
    show ?thesis
    proof (cases "parent k = i")
      case True
      then show ?thesis using nth [of k] nth [of i] k False least [of k] i c by simp
    next
      case f: False
      then show ?thesis using nth [of k] nth [of "parent k"] pk [of k] k False le [of k] by simp
    qed
  qed
  have 2: "?s ! parent c \<le> ?s ! k" if k: "0 < k" "k < n" "parent k = c" for k
  proof -
    have "k \<noteq> c" "k \<noteq> i" using k parent_less [of k] i by auto
    moreover have "ks ! c \<le> ks ! k" using le [of k] k i \<open>k \<noteq> i\<close> by simp
    ultimately show ?thesis using nth [of k] nth [of i] k i c by simp
  qed
  show ?thesis using 1 2 up lt nth [of i] nth [of c] i c unfolding heap_hole_def by auto
qed

subsection \<open>The interface\<close>

locale heap_interface =
  fixes lss :: "'h \<Rightarrow> nat \<Rightarrow> nat \<Rightarrow> bool"
    and swap :: "'h \<Rightarrow> nat \<Rightarrow> nat \<Rightarrow> 'h"
    and keys :: "'h \<Rightarrow> 'k::linorder list"
    and ok :: "'h \<Rightarrow> bool"
  assumes less_iff: "i < length (keys h) \<Longrightarrow> j < length (keys h) \<Longrightarrow> lss h i j \<longleftrightarrow> keys h ! i < keys h ! j"
    and keys_swap: "i < length (keys h) \<Longrightarrow> j < length (keys h) \<Longrightarrow> keys (swap h i j) = swapped (keys h) i j"
    and ok_swap: "i < length (keys h) \<Longrightarrow> j < length (keys h) \<Longrightarrow> ok h \<Longrightarrow> ok (swap h i j)"
begin

lemma length_keys_swap [simp]:
  "i < length (keys h) \<Longrightarrow> j < length (keys h) \<Longrightarrow> length (keys (swap h i j)) = length (keys h)"
  by (simp add: keys_swap)

lemma heap_up_correct:
  assumes "heap_but n j (keys h)" and "j < n" and "n \<le> length (keys h)"
  shows "heap_upto n (keys (heap_up lss swap h j)) \<and>
    mset (keys (heap_up lss swap h j)) = mset (keys h) \<and>
    drop n (keys (heap_up lss swap h j)) = drop n (keys h) \<and> (ok h \<longrightarrow> ok (heap_up lss swap h j))"
  using assms
proof (induction j arbitrary: h rule: less_induct)
  case (less j)
  let ?p = "parent j"
  show ?case
  proof (cases "j = 0 \<or> \<not> lss h j ?p")
    case True
    have stop: "heap_up lss swap h j = h"
      using True unfolding parent_def by (subst heap_up.simps) auto
    have "heap_upto n (keys h)"
    proof (cases "j = 0")
      case True
      then show ?thesis using less.prems(1) by (simp add: heap_but_0)
    next
      case False
      then have "keys h ! ?p \<le> keys h ! j"
        using True less_iff [of j h ?p] parent_less [of j] less.prems(2,3) by simp
      then show ?thesis using less.prems(1) unfolding heap_but_def heap_upto_def by blast
    qed
    then show ?thesis by (simp add: stop)
  next
    case False
    then have j: "0 < j" "?p < j" "lss h j ?p" using parent_less by auto
    have ij: "?p < length (keys h)" "j < length (keys h)" using j less.prems by auto
    have eq: "heap_up lss swap h j = heap_up lss swap (swap h ?p j) ?p"
      using j unfolding parent_def by (subst heap_up.simps) auto
    have "keys h ! j < keys h ! ?p" using less_iff [OF ij(2,1)] j(3) by simp
    then have "heap_but n ?p (keys (swap h ?p j))"
      using heap_but_step [OF less.prems(1) j(1) less.prems(2,3)] ij by (simp add: keys_swap)
    then show ?thesis
      using less.IH [OF j(2), of "swap h ?p j"] less.prems(2,3) j(2) ij ok_swap [OF ij] unfolding eq
      by (simp add: keys_swap)
  qed
qed

lemma children_of: "0 < k \<Longrightarrow> parent k = i \<Longrightarrow> k = 2 * i + 1 \<or> k = 2 * i + 2"
  using parent_eq_iff by blast

lemma heap_child_least:
  assumes "2 * i + 1 < n" and "n \<le> length (keys h)"
  shows "0 < heap_child lss h i n \<and> heap_child lss h i n < n \<and> parent (heap_child lss h i n) = i \<and>
    (\<forall>k. 0 < k \<and> k < n \<and> parent k = i \<longrightarrow> keys h ! heap_child lss h i n \<le> keys h ! k)"
proof (cases "2 * i + 2 < n \<and> lss h (2 * i + 2) (2 * i + 1)")
  case True
  then have "keys h ! (2 * i + 2) < keys h ! (2 * i + 1)"
    using less_iff [of "2 * i + 2" h "2 * i + 1"] assms by simp
  then show ?thesis
    using True by (auto simp: heap_child_def parent_def dest!: children_of [unfolded parent_def])
next
  case False
  then have "2 * i + 2 < n \<Longrightarrow> keys h ! (2 * i + 1) \<le> keys h ! (2 * i + 2)"
    using less_iff [of "2 * i + 2" h "2 * i + 1"] assms by (simp add: not_less)
  moreover have "heap_child lss h i n = 2 * i + 1" using False by (auto simp: heap_child_def)
  ultimately show ?thesis
    using assms by (auto simp: parent_def dest!: children_of [unfolded parent_def])
qed

lemma heap_down_correct:
  assumes "heap_hole n i (keys h)" and "n \<le> length (keys h)"
  shows "(case heap_down lss swap h i n of (h', k) \<Rightarrow>
    i \<le> k \<and> (if i < k \<or> i = 0 \<or> n \<le> i \<or> keys h ! parent i \<le> keys h ! i then heap_upto n (keys h') else heap_but n i (keys h')) \<and>
    mset (keys h') = mset (keys h) \<and> drop n (keys h') = drop n (keys h) \<and> (ok h \<longrightarrow> ok h'))"
  using assms
proof (induction "n - i" arbitrary: i h rule: less_induct)
  case less
  let ?c = "heap_child lss h i n"
  show ?case
  proof (cases "n \<le> 2 * i + 1 \<or> \<not> lss h ?c i")
    case True
    have stop: "heap_down lss swap h i n = (h, i)" using True by (subst heap_down.simps) simp
    have but: "heap_but n i (keys h)"
    proof (rule heap_hole_stop [OF less.prems(1)])
      fix k assume k: "0 < k" "k < n" "parent k = i"
      then have n: "2 * i + 1 < n" by (auto simp: parent_eq_iff)
      note c = heap_child_least [OF n less.prems(2)]
      have "\<not> lss h ?c i" using True n by simp
      then have "keys h ! i \<le> keys h ! ?c" using less_iff [of ?c h i] c n less.prems(2) by auto
      also have "\<dots> \<le> keys h ! k" using c k by blast
      finally show "keys h ! i \<le> keys h ! k" .
    qed
    have "heap_upto n (keys h)" if "i = 0 \<or> n \<le> i \<or> keys h ! parent i \<le> keys h ! i"
    proof (unfold heap_upto_def, intro allI impI)
      fix k assume "0 < k \<and> k < n"
      then show "keys h ! parent k \<le> keys h ! k"
        using that but by (cases "k = i") (auto simp: heap_but_def)
    qed
    then show ?thesis using but by (simp add: stop)
  next
    case False
    then have n: "2 * i + 1 < n" and lt: "lss h ?c i" by auto
    note c = heap_child_least [OF n less.prems(2)]
    have ic: "i < ?c" "i < length (keys h)" "?c < length (keys h)"
      using c parent_less [of ?c] less.prems(2) by auto
    have eq: "heap_down lss swap h i n = heap_down lss swap (swap h i ?c) ?c n"
      using False by (subst heap_down.simps) simp
    have key: "keys h ! ?c < keys h ! i" using less_iff [of ?c h i] ic lt by simp
    have hole: "heap_hole n ?c (keys (swap h i ?c))"
        "keys (swap h i ?c) ! i \<le> keys (swap h i ?c) ! ?c"
      using heap_hole_step [of n i "keys h" ?c] less.prems c key ic by (auto simp: keys_swap)
    have "n - ?c < n - i" using ic(1) conjunct1 [OF conjunct2 [OF c]] by linarith
    from less.hyps [OF this hole(1)]
    have IH: "case heap_down lss swap (swap h i ?c) ?c n of (h', k) \<Rightarrow>
        ?c \<le> k \<and> heap_upto n (keys h') \<and> mset (keys h') = mset (keys (swap h i ?c)) \<and>
        drop n (keys h') = drop n (keys (swap h i ?c)) \<and> (ok (swap h i ?c) \<longrightarrow> ok h')"
      using less.prems(2) hole(2) ic c by auto
    have "drop n (keys (swap h i ?c)) = drop n (keys h)" using ic c by (simp add: keys_swap)
    moreover have "mset (keys (swap h i ?c)) = mset (keys h)" using ic by (simp add: keys_swap)
    ultimately show ?thesis using IH ok_swap [OF ic(2,3)] ic(1) unfolding eq by (auto split: prod.splits)
  qed
qed

lemma heap_but_of_heap: "heap_upto n (ks :: 'k list) \<Longrightarrow> heap_but n j ks"
proof -
  assume h: "heap_upto n ks"
  have "ks ! parent j \<le> ks ! k" if k: "0 < k" "k < n" "parent k = j" "0 < j" for k
  proof -
    have "j < n" using parent_less [OF k(1)] k by simp
    then have "ks ! parent j \<le> ks ! j" using h k(4) by (simp add: heap_upto_def)
    also have "\<dots> \<le> ks ! k" using h k by (auto simp: heap_upto_def)
    finally show ?thesis .
  qed
  then show ?thesis using h by (auto simp: heap_but_def heap_upto_def)
qed

lemma heap_hole_swapped:
  assumes "heap_upto (Suc n) (ks :: 'k list)" and "i < n" and "n < length ks"
  shows "heap_hole n i (swapped ks i n)"
proof -
  have nth: "swapped ks i n ! k = ks ! k" if "k < n" "k \<noteq> i" for k
    using that assms(2,3) by (simp add: nth_list_update)
  have pk: "parent k < k" if "0 < k" for k using that by (rule parent_less)
  have 1: "ks ! parent k \<le> ks ! k" if "0 < k" "k < n" for k using that assms(1) by (simp add: heap_upto_def)
  have ne: "k \<noteq> parent k" if "0 < k" for k using pk [OF that] by simp
  have 2: "swapped ks i n ! parent k \<le> swapped ks i n ! k"
    if "0 < k" "k < n" "k \<noteq> i" "parent k \<noteq> i" for k
  proof -
    have "parent k < n" using pk [of k] that by simp
    then show ?thesis using nth that 1 by simp
  qed
  have 3: "swapped ks i n ! parent i \<le> swapped ks i n ! k"
    if k: "0 < k" "k < n" "parent k = i" "0 < i" for k
  proof -
    have "ks ! parent i \<le> ks ! k" using 1 [of i] 1 [of k] k assms(2) by simp
    moreover have "parent i < n" "parent i \<noteq> i" "k \<noteq> i" using pk [of i] ne [of k] k assms(2) by auto
    ultimately show ?thesis using nth k by simp
  qed
  show ?thesis unfolding heap_hole_def using 2 3 by blast
qed

lemma heap_fix_push_correct:
  assumes "keys h = ks @ [x]" and "heap_upto (length ks) ks" and "ok h"
  shows "heap_upto (length (keys h)) (keys (heap_fix_push lss swap (length (keys h)) h)) \<and>
    mset (keys (heap_fix_push lss swap (length (keys h)) h)) = mset (keys h) \<and>
    ok (heap_fix_push lss swap (length (keys h)) h)"
proof -
  let ?n = "length ks"
  have "parent k < ?n \<and> parent k \<noteq> ?n" if "0 < k" "k < Suc ?n" for k using parent_less [of k] that by simp
  then have "heap_but (Suc ?n) ?n (keys h)"
    using assms(2) unfolding heap_but_def heap_upto_def assms(1)
    by (auto simp: nth_append less_Suc_eq)
  from heap_up_correct [OF this] show ?thesis
    using assms(1,3) by (simp add: heap_fix_push_def)
qed

lemma heap_fix_remove_correct:
  assumes "heap_upto (length (keys h)) (keys h)" and "i < length (keys h)" and "ok h"
    and "h' = heap_fix_remove lss swap (length (keys h)) i h"
  shows "heap_upto (length (keys h) - 1) (keys h') \<and> mset (keys h') = mset (keys h) \<and>
    length (keys h') = length (keys h) \<and> last (keys h') = keys h ! i \<and> ok h'"
proof -
  let ?n = "length (keys h) - 1"
  have len: "length (keys h) = Suc ?n" using assms(2) by simp
  show ?thesis
  proof (cases "?n = i")
    case True
    then have "h' = h" using assms(4) by (simp add: heap_fix_remove_def)
    moreover have "last (keys h) = keys h ! i" using True assms(2) by (metis last_conv_nth length_0_conv not_less0)
    moreover have "heap_upto ?n (keys h)" using assms(1) by (auto simp: heap_upto_def)
    ultimately show ?thesis using assms(3) by simp
  next
    case False
    then have i: "i < ?n" and n: "?n < length (keys h)" using assms(2) by auto
    let ?s = "swap h i ?n"
    have ks: "keys ?s = swapped (keys h) i ?n" using i n by (intro keys_swap) auto
    have oks: "ok ?s" using i n assms(3) by (intro ok_swap) auto
    have "heap_hole ?n i (keys ?s)" unfolding ks using heap_hole_swapped [of ?n "keys h" i] assms(1) i n len by simp
    note down = heap_down_correct [OF this]
    obtain d k where d: "heap_down lss swap ?s i ?n = (d, k)" by (cases "heap_down lss swap ?s i ?n")
    have lens: "?n \<le> length (keys ?s)" using ks n by simp
    have up: "i < k \<Longrightarrow> heap_upto ?n (keys d)" and but: "heap_upto ?n (keys d) \<or> heap_but ?n i (keys d)"
      and rest: "mset (keys d) = mset (keys ?s)" "drop ?n (keys d) = drop ?n (keys ?s)" "ok d"
      using down [OF lens] oks unfolding d by (auto split: if_splits)
    have but: "heap_but ?n i (keys d)" using but heap_but_of_heap by blast
    have lend: "length (keys d) = length (keys h)" using rest(1) ks by (metis length_list_update mset_eq_length)
    define u where "u = (if i < k then d else heap_up lss swap d i)"
    have u: "heap_upto ?n (keys u) \<and> mset (keys u) = mset (keys d) \<and> drop ?n (keys u) = drop ?n (keys d) \<and> ok u"
      using up but heap_up_correct [of ?n i d] i lend rest(3) unfolding u_def by auto
    have h': "h' = u" using assms(4) False d by (simp add: heap_fix_remove_def u_def Let_def)
    have ms: "mset (keys u) = mset (keys h)" using u rest(1) ks i n by simp
    have lenu: "length (keys u) = length (keys h)" using ms by (rule mset_eq_length)
    have "drop ?n (keys u) = drop ?n (swapped (keys h) i ?n)" using u rest(2) ks by simp
    then have "keys u ! ?n = swapped (keys h) i ?n ! ?n"
      using lenu n by (metis (no_types, lifting) Cons_nth_drop_Suc length_list_update list.inject)
    then have "last (keys u) = keys h ! i"
      using lenu n len by (metis length_greater_0_conv last_conv_nth length_list_update less_nat_zero_code nth_list_update_eq list.size(3))
    then show ?thesis using u ms lenu h' by simp
  qed
qed

lemma heap_fix_pop_is_remove:
  assumes "0 < length (keys h)"
  shows "heap_fix_pop lss swap (length (keys h)) h =
    (if length (keys h) = 1 then swap h 0 0 else heap_fix_remove lss swap (length (keys h)) 0 h)"
proof -
  have "heap_down lss swap h' 0 0 = (h', 0)" for h' by (subst heap_down.simps) simp
  moreover have "heap_up lss swap h' 0 = h'" for h' by (subst heap_up.simps) simp
  ultimately show ?thesis using assms
    by (cases "keys h"; cases "tl (keys h)")
       (auto simp: heap_fix_pop_def heap_fix_remove_def Let_def split: prod.splits)
qed

lemma heap_fix_pop_correct:
  assumes "heap_upto (length (keys h)) (keys h)" and "0 < length (keys h)" and "ok h"
    and "h' = heap_fix_pop lss swap (length (keys h)) h"
  shows "heap_upto (length (keys h) - 1) (keys h') \<and> mset (keys h') = mset (keys h) \<and>
    length (keys h') = length (keys h) \<and> last (keys h') = keys h ! 0 \<and> ok h'"
proof (cases "length (keys h) = 1")
  case True
  then obtain k where k: "keys h = [k]" by (cases "keys h") auto
  have "keys (swap h 0 0) = [k]" "ok (swap h 0 0)"
    using keys_swap [of 0 h 0] ok_swap [of 0 h 0] assms(3) k by auto
  then show ?thesis using assms(4) True k heap_fix_pop_is_remove [OF assms(2)] by (simp add: heap_upto_def)
next
  case False
  then show ?thesis using heap_fix_remove_correct [of h 0 h'] assms heap_fix_pop_is_remove by simp
qed

end

end
