(* ===== verification/Node_Queue.thy ===== *)
theory Node_Queue
  imports Workqueue Go_Heap
begin

text \<open>
  The queue of turns on one node's audio (internal/brain/queue.go). A waiter is identified by its
  sequence number, the order of arrival, which is unique for the life of a queue (the 64-bit
  counter is a \<open>nat\<close>: it does not wrap within 2^64 turns). \<open>acquire\<close> runs as a first critical
  section, up to its return or to \<open>cond.Wait\<close>, and then one more iteration of its loop whenever
  the condition variable wakes it. The condition variable is part of the state: the waiters parked
  in \<open>Wait\<close>, and the ones a \<open>Broadcast\<close> has woken that have not run yet.
\<close>

subsection \<open>The order of turns\<close>

datatype turn_key = Turn_key (tk_priority: int) (tk_seq: nat)

instantiation turn_key :: linorder
begin

definition less_eq_turn_key :: "turn_key \<Rightarrow> turn_key \<Rightarrow> bool" where
  "less_eq_turn_key a b \<longleftrightarrow>
     tk_priority b < tk_priority a \<or> tk_priority a = tk_priority b \<and> tk_seq a \<le> tk_seq b"

definition less_turn_key :: "turn_key \<Rightarrow> turn_key \<Rightarrow> bool" where
  "less_turn_key a b \<longleftrightarrow>
     tk_priority b < tk_priority a \<or> tk_priority a = tk_priority b \<and> tk_seq a < tk_seq b"

instance
proof
  fix a b c :: turn_key
  show "(a < b) = (a \<le> b \<and> \<not> b \<le> a)" by (auto simp: less_eq_turn_key_def less_turn_key_def)
  show "a \<le> a" by (simp add: less_eq_turn_key_def)
  show "a \<le> b \<Longrightarrow> b \<le> c \<Longrightarrow> a \<le> c" by (auto simp: less_eq_turn_key_def)
  show "a \<le> b \<Longrightarrow> b \<le> a \<Longrightarrow> a = b" by (cases a; cases b) (auto simp: less_eq_turn_key_def)
  show "a \<le> b \<or> b \<le> a" by (auto simp: less_eq_turn_key_def)
qed

end

subsection \<open>waiterPQ, the client of container/heap\<close>

record waiter =
  wt_priority :: int
  wt_seq :: nat
  wt_index :: int

definition pq_Less :: "waiter list \<Rightarrow> nat \<Rightarrow> nat \<Rightarrow> bool" where
  "pq_Less pq i j =
     (if wt_priority (pq ! i) \<noteq> wt_priority (pq ! j) then wt_priority (pq ! j) < wt_priority (pq ! i)
      else wt_seq (pq ! i) < wt_seq (pq ! j))"

definition pq_Swap :: "waiter list \<Rightarrow> nat \<Rightarrow> nat \<Rightarrow> waiter list" where
  "pq_Swap pq i j = pq[i := (pq ! j)\<lparr>wt_index := int i\<rparr>, j := (pq ! i)\<lparr>wt_index := int j\<rparr>]"

definition pq_Push :: "waiter \<Rightarrow> waiter list \<Rightarrow> waiter list" where
  "pq_Push w pq = pq @ [w\<lparr>wt_index := int (length pq)\<rparr>]"

definition pq_Pop :: "waiter list \<Rightarrow> waiter \<times> waiter list" where
  "pq_Pop pq = ((last pq)\<lparr>wt_index := -1\<rparr>, butlast pq)"

text \<open>\<open>heap.Push\<close>, \<open>heap.Pop\<close> and \<open>heap.Remove\<close> on a \<open>waiterPQ\<close>.\<close>

definition pq_heap_Push :: "waiter \<Rightarrow> waiter list \<Rightarrow> waiter list" where
  "pq_heap_Push w pq = heap_fix_push pq_Less pq_Swap (Suc (length pq)) (pq_Push w pq)"

definition pq_heap_Pop :: "waiter list \<Rightarrow> waiter \<times> waiter list" where
  "pq_heap_Pop pq = pq_Pop (heap_fix_pop pq_Less pq_Swap (length pq) pq)"

definition pq_heap_Remove :: "nat \<Rightarrow> waiter list \<Rightarrow> waiter \<times> waiter list" where
  "pq_heap_Remove i pq = pq_Pop (heap_fix_remove pq_Less pq_Swap (length pq) i pq)"

definition waiter_key :: "waiter \<Rightarrow> turn_key" where
  "waiter_key w = Turn_key (wt_priority w) (wt_seq w)"

abbreviation pq_keys :: "waiter list \<Rightarrow> turn_key list" where
  "pq_keys pq \<equiv> map waiter_key pq"

definition pq_indexed :: "waiter list \<Rightarrow> bool" where
  "pq_indexed pq \<longleftrightarrow> (\<forall>i < length pq. wt_index (pq ! i) = int i)"

definition pq_ok :: "waiter list \<Rightarrow> bool" where
  "pq_ok pq \<longleftrightarrow> pq_indexed pq \<and> heap_upto (length pq) (pq_keys pq)"

lemma waiter_key_index [simp]: "waiter_key (w\<lparr>wt_index := i\<rparr>) = waiter_key w"
  by (simp add: waiter_key_def)

interpretation pq: heap_interface pq_Less pq_Swap pq_keys pq_indexed
proof unfold_locales
  fix i j :: nat and pq :: "waiter list"
  assume ij: "i < length (pq_keys pq)" "j < length (pq_keys pq)"
  then show "pq_Less pq i j \<longleftrightarrow> pq_keys pq ! i < pq_keys pq ! j"
    by (auto simp: pq_Less_def waiter_key_def less_turn_key_def)
  show "pq_keys (pq_Swap pq i j) = swapped (pq_keys pq) i j"
    using ij by (simp add: pq_Swap_def map_update)
  show "pq_indexed (pq_Swap pq i j)" if "pq_indexed pq"
    using ij that by (auto simp: pq_indexed_def pq_Swap_def nth_list_update)
qed

lemma pq_Pop_correct:
  assumes "pq_indexed h" and "heap_upto (length h - 1) (pq_keys h)" and "h \<noteq> []" and "pq_Pop h = (w, pq')"
  shows "pq_ok pq' \<and> waiter_key w = last (pq_keys h) \<and> wt_index w = -1 \<and>
    add_mset (waiter_key w) (mset (pq_keys pq')) = mset (pq_keys h)"
proof -
  have h: "h = pq' @ [last h]" "w = (last h)\<lparr>wt_index := -1\<rparr>"
    using assms(3,4) by (auto simp: pq_Pop_def)
  have "pq_indexed pq'" using assms(1) h(1) unfolding pq_indexed_def
    by (metis length_append_singleton less_Suc_eq nth_append)
  moreover have "heap_upto (length pq') (pq_keys pq')"
  proof -
    have "length h - 1 = length pq'" "pq_keys h = pq_keys pq' @ [waiter_key (last h)]"
      using h(1) by (metis diff_Suc_1 length_append_singleton) (metis h(1) list.map(1,2) map_append)
    then have "heap_upto (length pq') (pq_keys pq' @ [waiter_key (last h)])" using assms(2) by simp
    then show ?thesis unfolding heap_upto_def
      by (metis (no_types, lifting) length_map nth_append order_less_trans parent_less)
  qed
  moreover have "mset (pq_keys h) = add_mset (waiter_key (last h)) (mset (pq_keys pq'))"
    by (subst h(1)) simp
  ultimately show ?thesis using h(2) assms(3) by (simp add: pq_ok_def last_map)
qed

lemma pq_heap_Push_correct:
  assumes "pq_ok pq"
  shows "pq_ok (pq_heap_Push w pq) \<and>
    mset (pq_keys (pq_heap_Push w pq)) = add_mset (waiter_key w) (mset (pq_keys pq))"
proof -
  let ?h = "pq_Push w pq"
  have "pq_keys ?h = pq_keys pq @ [waiter_key w]" "pq_indexed ?h"
    using assms by (auto simp: pq_Push_def pq_ok_def pq_indexed_def nth_append less_Suc_eq)
  from pq.heap_fix_push_correct [OF this(1) _ this(2)] show ?thesis
    using assms mset_eq_length [of "pq_keys (pq_heap_Push w pq)" "pq_keys ?h"]
    by (simp add: pq_ok_def pq_heap_Push_def pq_Push_def)
qed

lemma pq_heap_Remove_correct:
  assumes "pq_ok pq" and "i < length pq" and "pq_heap_Remove i pq = (w, pq')"
  shows "pq_ok pq' \<and> waiter_key w = waiter_key (pq ! i) \<and> wt_index w = -1 \<and>
    add_mset (waiter_key w) (mset (pq_keys pq')) = mset (pq_keys pq)"
proof -
  let ?h = "heap_fix_remove pq_Less pq_Swap (length pq) i pq"
  have 1: "heap_upto (length pq - 1) (pq_keys ?h)" "mset (pq_keys ?h) = mset (pq_keys pq)"
      "length ?h = length pq" "last (pq_keys ?h) = pq_keys pq ! i" "pq_indexed ?h"
    using pq.heap_fix_remove_correct [of pq i ?h] assms(1,2) by (auto simp: pq_ok_def)
  have "?h \<noteq> []" using 1(3) assms(2) by auto
  from pq_Pop_correct [OF 1(5) _ this] show ?thesis
    using 1 assms(2,3) by (auto simp: pq_heap_Remove_def)
qed

lemma pq_heap_Pop_correct:
  assumes "pq_ok pq" and "pq \<noteq> []" and "pq_heap_Pop pq = (w, pq')"
  shows "pq_ok pq' \<and> waiter_key w = waiter_key (pq ! 0) \<and> wt_index w = -1 \<and>
    add_mset (waiter_key w) (mset (pq_keys pq')) = mset (pq_keys pq)"
proof -
  let ?h = "heap_fix_pop pq_Less pq_Swap (length pq) pq"
  have 1: "heap_upto (length pq - 1) (pq_keys ?h)" "mset (pq_keys ?h) = mset (pq_keys pq)"
      "length ?h = length pq" "last (pq_keys ?h) = pq_keys pq ! 0" "pq_indexed ?h"
    using pq.heap_fix_pop_correct [of pq ?h] assms(1,2) by (auto simp: pq_ok_def)
  have "?h \<noteq> []" using 1(3) assms(2) by auto
  from pq_Pop_correct [OF 1(5) _ this] show ?thesis
    using 1 assms(2,3) by (auto simp: pq_heap_Pop_def)
qed

subsection \<open>nodeQueue\<close>

text \<open>
  \<open>nq_parked\<close> and \<open>nq_woken\<close> are the condition variable; \<open>nq_owners\<close> are the turns whose
  \<open>release\<close> function has not run (each is good for one release, its \<open>sync.Once\<close>).
\<close>

record node_queue =
  nq_pq :: "waiter list"
  nq_seq :: nat
  nq_busy :: bool
  nq_closed :: bool
  nq_parked :: "nat list"
  nq_woken :: "nat list"
  nq_owners :: "nat list"

definition newNodeQueue :: node_queue where
  "newNodeQueue = \<lparr>nq_pq = [], nq_seq = 0, nq_busy = False, nq_closed = False,
     nq_parked = [], nq_woken = [], nq_owners = []\<rparr>"

definition nq_broadcast :: "node_queue \<Rightarrow> node_queue" where
  "nq_broadcast q = q\<lparr>nq_woken := nq_woken q @ nq_parked q, nq_parked := []\<rparr>"

text \<open>The waiter's \<open>index\<close> field: its place in the heap, or -1 (here \<open>None\<close>) when it was taken out.\<close>

definition nq_index :: "nat \<Rightarrow> node_queue \<Rightarrow> nat option" where
  "nq_index s q = map_option (\<lambda>w. nat (wt_index w)) (find (\<lambda>w. wt_seq w = s) (nq_pq q))"

datatype nq_outcome = Nq_error go_error | Nq_owned nat | Nq_parked nat

definition nq_loop :: "ctx_err \<Rightarrow> nat \<Rightarrow> node_queue \<Rightarrow> nq_outcome \<times> node_queue" where
  "nq_loop cerr s q =
     (if cerr \<noteq> None \<or> nq_closed q
      then (Nq_error (case cerr of Some e \<Rightarrow> e | None \<Rightarrow> Msg ''node is closed''),
            (case nq_index s q of
               Some i \<Rightarrow> nq_broadcast (q\<lparr>nq_pq := snd (pq_heap_Remove i (nq_pq q))\<rparr>)
             | None \<Rightarrow> q))
      else if \<not> nq_busy q \<and> nq_pq q \<noteq> [] \<and> wt_seq (nq_pq q ! 0) = s
      then (Nq_owned s,
            q\<lparr>nq_pq := snd (pq_heap_Pop (nq_pq q)), nq_busy := True, nq_owners := s # nq_owners q\<rparr>)
      else (Nq_parked s, q\<lparr>nq_parked := nq_parked q @ [s]\<rparr>))"

definition nq_acquire :: "ctx_err \<Rightarrow> int \<Rightarrow> node_queue \<Rightarrow> nq_outcome \<times> node_queue" where
  "nq_acquire cerr priority q =
     (if nq_closed q then (Nq_error (Msg ''node is closed''), q)
      else if 32 \<le> length (nq_pq q) then (Nq_error (Msg ''node turn queue is full''), q)
      else let w = \<lparr>wt_priority = priority, wt_seq = nq_seq q, wt_index = 0\<rparr>
           in nq_loop cerr (nq_seq q)
                (q\<lparr>nq_seq := nq_seq q + 1, nq_pq := pq_heap_Push w (nq_pq q)\<rparr>))"

text \<open>A woken waiter takes the mutex again and runs its loop.\<close>

definition nq_wake :: "ctx_err \<Rightarrow> nat \<Rightarrow> node_queue \<Rightarrow> nq_outcome \<times> node_queue" where
  "nq_wake cerr s q = nq_loop cerr s (q\<lparr>nq_woken := removeAll s (nq_woken q)\<rparr>)"

definition nq_release :: "nat \<Rightarrow> node_queue \<Rightarrow> node_queue" where
  "nq_release s q =
     (if s \<in> set (nq_owners q)
      then nq_broadcast (q\<lparr>nq_busy := False, nq_owners := removeAll s (nq_owners q)\<rparr>)
      else q)"

definition nq_close :: "node_queue \<Rightarrow> node_queue" where
  "nq_close q = nq_broadcast (q\<lparr>nq_closed := True\<rparr>)"

inductive nq_step :: "node_queue \<Rightarrow> node_queue \<Rightarrow> bool" where
  nq_enters: "nq_step q (snd (nq_acquire cerr priority q))"
| nq_runs: "s \<in> set (nq_woken q) \<Longrightarrow> nq_step q (snd (nq_wake cerr s q))"
| nq_ctx_done: "nq_step q (nq_broadcast q)"
| nq_releases: "nq_step q (nq_release s q)"
| nq_closes: "nq_step q (nq_close q)"

subsection \<open>The invariant of the queue\<close>

abbreviation nq_seqs :: "node_queue \<Rightarrow> nat list" where
  "nq_seqs q \<equiv> map wt_seq (nq_pq q)"

text \<open>
  \<open>nq_base\<close> is what holds even while one waiter \<open>s\<close> runs its loop; \<open>nq_inv\<close> adds that every waiter
  is parked or woken and that the waiter whose turn it is cannot be left asleep.
\<close>

definition nq_base :: "node_queue \<Rightarrow> bool" where
  "nq_base q \<longleftrightarrow> pq_ok (nq_pq q) \<and> distinct (nq_seqs q) \<and> length (nq_pq q) \<le> 32 \<and>
     (\<forall>s \<in> set (nq_seqs q) \<union> set (nq_owners q). s < nq_seq q) \<and>
     set (nq_owners q) \<inter> set (nq_seqs q) = {} \<and>
     (if nq_busy q then \<exists>s. nq_owners q = [s] else nq_owners q = [])"

definition nq_waiting :: "nat set \<Rightarrow> node_queue \<Rightarrow> bool" where
  "nq_waiting run q \<longleftrightarrow>
     set (nq_parked q) \<union> set (nq_woken q) \<union> run = set (nq_seqs q) \<and>
     set (nq_parked q) \<inter> set (nq_woken q) = {} \<and> run \<inter> (set (nq_parked q) \<union> set (nq_woken q)) = {} \<and>
     (nq_closed q \<longrightarrow> nq_parked q = []) \<and>
     (\<not> nq_busy q \<and> nq_pq q \<noteq> [] \<longrightarrow> wt_seq (nq_pq q ! 0) \<in> set (nq_woken q) \<union> run)"

definition nq_inv :: "node_queue \<Rightarrow> bool" where
  "nq_inv q \<longleftrightarrow> nq_base q \<and> nq_waiting {} q"

lemma nq_seqs_keys: "nq_seqs q = map tk_seq (pq_keys (nq_pq q))"
  by (simp add: waiter_key_def comp_def)

lemma seqs_taken:
  assumes "add_mset (waiter_key w) (mset (pq_keys pq')) = mset (pq_keys pq)"
  shows "add_mset (wt_seq w) (mset (map wt_seq pq')) = mset (map wt_seq pq)"
proof -
  have "tk_seq \<circ> waiter_key = wt_seq" by (auto simp: waiter_key_def)
  then show ?thesis using arg_cong [OF assms, of "image_mset tk_seq"]
    by (simp add: waiter_key_def flip: mset_map)
qed

lemma taken_facts:
  assumes "add_mset (waiter_key w) (mset (pq_keys pq')) = mset (pq_keys pq)" and "distinct (map wt_seq pq)"
  shows "distinct (map wt_seq pq')" and "set (map wt_seq pq) = insert (wt_seq w) (set (map wt_seq pq'))"
    and "wt_seq w \<notin> set (map wt_seq pq')" and "length pq = Suc (length pq')"
proof -
  have m: "mset (wt_seq w # map wt_seq pq') = mset (map wt_seq pq)" using seqs_taken [OF assms(1)] by simp
  show "set (map wt_seq pq) = insert (wt_seq w) (set (map wt_seq pq'))"
    using m by (metis list.simps(15) set_mset_mset)
  have "distinct (wt_seq w # map wt_seq pq')" using assms(2) m by (metis mset_eq_imp_distinct_iff)
  then show "distinct (map wt_seq pq')" "wt_seq w \<notin> set (map wt_seq pq')" by auto
  show "length pq = Suc (length pq')" using mset_eq_length [OF m] by simp
qed

lemma nq_index_found:
  assumes "pq_ok (nq_pq q)" and "s \<in> set (nq_seqs q)"
  shows "\<exists>i < length (nq_pq q). nq_index s q = Some i \<and> wt_seq (nq_pq q ! i) = s"
proof -
  obtain w where w: "find (\<lambda>w. wt_seq w = s) (nq_pq q) = Some w"
    using assms(2) by (cases "find (\<lambda>w. wt_seq w = s) (nq_pq q)") (auto simp: find_None_iff)
  then obtain i where i: "i < length (nq_pq q)" "wt_seq w = s" "w = nq_pq q ! i"
    by (auto simp: find_Some_iff)
  then have "wt_index w = int i" using assms(1) by (simp add: pq_ok_def pq_indexed_def)
  then show ?thesis using w i by (auto simp: nq_index_def)
qed

lemma nq_head_in: "nq_pq q \<noteq> [] \<Longrightarrow> wt_seq (nq_pq q ! 0) \<in> set (nq_seqs q)"
  by (cases "nq_pq q") auto

lemma nq_broadcast_inv [inv_intros]: "nq_inv q \<Longrightarrow> nq_inv (nq_broadcast q)"
  using nq_head_in [of q] by (auto simp: nq_inv_def nq_base_def nq_waiting_def nq_broadcast_def)

lemma nq_loop_failed:
  assumes base: "nq_base q" and waiting: "nq_waiting {s} q" and err: "cerr \<noteq> None \<or> nq_closed q"
  shows "nq_inv (snd (nq_loop cerr s q)) \<and> s \<notin> set (nq_seqs (snd (nq_loop cerr s q))) \<and>
    (\<exists>e. fst (nq_loop cerr s q) = Nq_error e)"
proof -
  have s: "s \<in> set (nq_seqs q)" using waiting by (auto simp: nq_waiting_def)
  obtain i where i: "i < length (nq_pq q)" "nq_index s q = Some i" "wt_seq (nq_pq q ! i) = s"
    using nq_index_found [OF _ s] base by (auto simp: nq_base_def)
  obtain w pq' where r: "pq_heap_Remove i (nq_pq q) = (w, pq')" by force
  note rem = pq_heap_Remove_correct [OF _ i(1) r]
  have ok: "pq_ok pq'" "wt_seq w = s"
    and taken: "add_mset (waiter_key w) (mset (pq_keys pq')) = mset (pq_keys (nq_pq q))"
    using rem base i(3) by (auto simp: nq_base_def waiter_key_def)
  note t = taken_facts [OF taken]
  have q': "snd (nq_loop cerr s q) = nq_broadcast (q\<lparr>nq_pq := pq'\<rparr>)"
    using err i(2) r by (auto simp: nq_loop_def)
  have dist: "distinct (nq_seqs q)" using base by (simp add: nq_base_def)
  have seqs: "set (nq_seqs q) = insert s (set (map wt_seq pq'))" "s \<notin> set (map wt_seq pq')"
    using t(2,3) [OF dist] ok(2) by auto
  have "nq_base (q\<lparr>nq_pq := pq'\<rparr>)"
    using base ok t(1,4) [OF dist] seqs by (auto simp: nq_base_def)
  moreover have "pq' \<noteq> [] \<Longrightarrow> wt_seq (pq' ! 0) \<in> set (map wt_seq pq')" by (cases pq') auto
  moreover have "set (nq_parked q) \<union> set (nq_woken q) = set (map wt_seq pq')"
    using waiting seqs unfolding nq_waiting_def by blast
  ultimately have "nq_inv (nq_broadcast (q\<lparr>nq_pq := pq'\<rparr>))"
    using waiting by (auto simp: nq_inv_def nq_base_def nq_waiting_def nq_broadcast_def)
  then show ?thesis using q' seqs(2) err by (auto simp: nq_loop_def nq_broadcast_def)
qed

lemma nq_loop_owns:
  assumes base: "nq_base q" and waiting: "nq_waiting {s} q" and free: "\<not> nq_busy q"
    and head: "nq_pq q \<noteq> []" "wt_seq (nq_pq q ! 0) = s"
    and q': "q' = q\<lparr>nq_pq := snd (pq_heap_Pop (nq_pq q)), nq_busy := True, nq_owners := s # nq_owners q\<rparr>"
  shows "nq_inv q'"
proof -
  obtain w pq' where r: "pq_heap_Pop (nq_pq q) = (w, pq')" by force
  note pop = pq_heap_Pop_correct [OF _ head(1) r]
  have ok: "pq_ok pq'" "wt_seq w = s"
    and taken: "add_mset (waiter_key w) (mset (pq_keys pq')) = mset (pq_keys (nq_pq q))"
    using pop base head(2) by (auto simp: nq_base_def waiter_key_def)
  note t = taken_facts [OF taken]
  have dist: "distinct (nq_seqs q)" using base by (simp add: nq_base_def)
  have seqs: "set (nq_seqs q) = insert s (set (map wt_seq pq'))" "s \<notin> set (map wt_seq pq')"
    using t(2,3) [OF dist] ok(2) by auto
  have "nq_base q'"
    using base free ok t(1,4) [OF dist] seqs r by (auto simp: nq_base_def q')
  moreover have "set (nq_parked q) \<union> set (nq_woken q) = set (map wt_seq pq')"
    using waiting seqs unfolding nq_waiting_def by blast
  ultimately show ?thesis
    using waiting r by (auto simp: nq_inv_def nq_waiting_def q')
qed

lemma nq_loop_inv:
  assumes "nq_base q" and "nq_waiting {s} q"
  shows "nq_inv (snd (nq_loop cerr s q))"
proof (cases "cerr \<noteq> None \<or> nq_closed q")
  case True
  then show ?thesis using nq_loop_failed assms by blast
next
  case open': False
  show ?thesis
  proof (cases "\<not> nq_busy q \<and> nq_pq q \<noteq> [] \<and> wt_seq (nq_pq q ! 0) = s")
    case True
    then show ?thesis using nq_loop_owns [OF assms] open' by (simp add: nq_loop_def)
  next
    case False
    then have "snd (nq_loop cerr s q) = q\<lparr>nq_parked := nq_parked q @ [s]\<rparr>"
      using open' by (auto simp: nq_loop_def)
    then show ?thesis using assms False open'
      by (auto simp: nq_inv_def nq_base_def nq_waiting_def)
  qed
qed

text \<open>The queue with a waiter that has been pushed and has not yet run its loop.\<close>

definition arriving :: "int \<Rightarrow> node_queue \<Rightarrow> waiter" where
  "arriving priority q = \<lparr>wt_priority = priority, wt_seq = nq_seq q, wt_index = 0\<rparr>"

definition nq_arrived :: "int \<Rightarrow> node_queue \<Rightarrow> node_queue" where
  "nq_arrived priority q = q\<lparr>nq_seq := nq_seq q + 1, nq_pq := pq_heap_Push (arriving priority q) (nq_pq q)\<rparr>"

lemma nq_acquire_cases:
  "nq_acquire cerr priority q =
     (if nq_closed q then (Nq_error (Msg ''node is closed''), q)
      else if 32 \<le> length (nq_pq q) then (Nq_error (Msg ''node turn queue is full''), q)
      else nq_loop cerr (nq_seq q) (nq_arrived priority q))"
  by (simp add: nq_acquire_def nq_arrived_def arriving_def Let_def)

lemma nq_arrived_inv:
  assumes "nq_inv q" and "\<not> nq_closed q" and "length (nq_pq q) < 32"
  shows "nq_base (nq_arrived priority q)" and "nq_waiting {nq_seq q} (nq_arrived priority q)"
proof -
  define w where "w = arriving priority q"
  let ?pq = "pq_heap_Push w (nq_pq q)"
  define q1 where "q1 = nq_arrived priority q"
  note defs = q1_def w_def nq_arrived_def arriving_def
  have push: "pq_ok ?pq" "mset (pq_keys ?pq) = add_mset (waiter_key w) (mset (pq_keys (nq_pq q)))"
    using pq_heap_Push_correct [of "nq_pq q" w] assms(1) by (auto simp: nq_inv_def nq_base_def)
  have fresh: "nq_seq q \<notin> set (nq_seqs q)" using assms by (auto simp: nq_inv_def nq_base_def)
  have m: "mset (map wt_seq ?pq) = mset (nq_seq q # nq_seqs q)"
    using seqs_taken [OF push(2) [symmetric]] by (simp add: defs)
  have d: "distinct (map wt_seq ?pq)" "set (map wt_seq ?pq) = insert (nq_seq q) (set (nq_seqs q))"
      "length ?pq = Suc (length (nq_pq q))"
    using mset_eq_imp_distinct_iff [OF m] mset_eq_setD [OF m] mset_eq_length [OF m] fresh assms
    by (auto simp: nq_inv_def nq_base_def)
  have "nq_base q1" using assms push(1) d
    by (auto simp: nq_inv_def nq_base_def defs less_Suc_eq)
  then show "nq_base (nq_arrived priority q)" by (simp only: q1_def)
  have "nq_waiting {nq_seq q} q1"
  proof -
    have "?pq \<noteq> []" using d(3) by auto
    have "wt_seq (?pq ! 0) \<in> insert (nq_seq q) (set (nq_woken q))" if free: "\<not> nq_busy q"
    proof (rule ccontr)
      assume contra: "\<not> ?thesis"
      have "waiter_key (?pq ! 0) \<in># mset (pq_keys ?pq)" using \<open>?pq \<noteq> []\<close> by (cases ?pq) auto
      then have "waiter_key (?pq ! 0) \<in># add_mset (waiter_key w) (mset (pq_keys (nq_pq q)))"
        unfolding push(2) .
      moreover have "waiter_key (?pq ! 0) \<noteq> waiter_key w" using contra by (auto simp: waiter_key_def defs)
      ultimately have "waiter_key (?pq ! 0) \<in> set (pq_keys (nq_pq q))" by simp
      then obtain k where k: "k < length (nq_pq q)" "waiter_key (nq_pq q ! k) = waiter_key (?pq ! 0)"
        by (auto simp: in_set_conv_nth)
      have ne: "nq_pq q \<noteq> []" using k(1) by auto
      have old: "waiter_key (nq_pq q ! 0) \<le> waiter_key (nq_pq q ! k)"
        using heap_root_least [of "length (nq_pq q)" "pq_keys (nq_pq q)" k] k(1) ne assms
        by (simp add: nq_inv_def nq_base_def pq_ok_def)
      have "waiter_key (nq_pq q ! 0) \<in># mset (pq_keys ?pq)" using push(2) ne by (cases "nq_pq q") auto
      then obtain j where j: "j < length ?pq" "waiter_key (?pq ! j) = waiter_key (nq_pq q ! 0)"
        by (auto simp: in_set_conv_nth)
      have "waiter_key (?pq ! 0) \<le> waiter_key (?pq ! j)"
        using heap_root_least [of "length ?pq" "pq_keys ?pq" j] j(1) push(1) \<open>?pq \<noteq> []\<close>
        by (simp add: pq_ok_def)
      then have "waiter_key (?pq ! 0) = waiter_key (nq_pq q ! 0)" using old k(2) j(2) by simp
      then have "wt_seq (?pq ! 0) = wt_seq (nq_pq q ! 0)" by (simp add: waiter_key_def)
      then show False using contra free ne assms by (auto simp: nq_inv_def nq_waiting_def)
    qed
    then show ?thesis using d fresh assms by (auto simp: nq_inv_def nq_waiting_def defs)
  qed
  then show "nq_waiting {nq_seq q} (nq_arrived priority q)" by (simp only: q1_def)
qed

lemma nq_acquire_inv [inv_intros]: "nq_inv q \<Longrightarrow> nq_inv (snd (nq_acquire cerr priority q))"
  using nq_loop_inv [OF nq_arrived_inv] by (simp add: nq_acquire_cases)

lemma nq_wake_inv [inv_intros]:
  assumes "nq_inv q" and "s \<in> set (nq_woken q)"
  shows "nq_inv (snd (nq_wake cerr s q))"
proof -
  let ?q = "q\<lparr>nq_woken := removeAll s (nq_woken q)\<rparr>"
  have "nq_base ?q" using assms(1) by (simp add: nq_inv_def nq_base_def)
  moreover have "nq_waiting {s} ?q" using assms by (auto simp: nq_inv_def nq_waiting_def)
  ultimately show ?thesis unfolding nq_wake_def by (rule nq_loop_inv)
qed

lemma nq_release_inv [inv_intros]: "nq_inv q \<Longrightarrow> nq_inv (nq_release s q)"
  using nq_head_in [of q]
  by (auto simp: nq_inv_def nq_base_def nq_waiting_def nq_release_def nq_broadcast_def split: if_splits)

lemma nq_close_inv [inv_intros]: "nq_inv q \<Longrightarrow> nq_inv (nq_close q)"
  using nq_head_in [of q]
  by (auto simp: nq_inv_def nq_base_def nq_waiting_def nq_close_def nq_broadcast_def)

interpretation nq_machine: machine "\<lambda>q. q = newNodeQueue" nq_step nq_inv
proof unfold_locales
  show "nq_inv q" if "q = newNodeQueue" for q
    using that by (simp add: nq_inv_def nq_base_def nq_waiting_def newNodeQueue_def pq_ok_def
        pq_indexed_def heap_upto_def)
  show "nq_inv t" if "nq_inv s" "nq_step s t" for s t
    using that(2,1) by cases (auto intro: inv_intros)
qed

subsection \<open>Turns are granted in stable priority order\<close>

definition nq_take :: "node_queue \<Rightarrow> (turn_key \<times> node_queue) option" where
  "nq_take q =
     (if nq_pq q = [] then None
      else case pq_heap_Pop (nq_pq q) of (w, pq') \<Rightarrow> Some (waiter_key w, q\<lparr>nq_pq := pq'\<rparr>))"

definition nq_turns :: "node_queue \<Rightarrow> turn_key list" where
  "nq_turns q = sort_key tk_seq (pq_keys (nq_pq q))"

definition nq_ordered :: "node_queue \<Rightarrow> bool" where
  "nq_ordered q \<longleftrightarrow> pq_ok (nq_pq q) \<and> distinct (nq_seqs q)"

lemma sort_key_taken:
  fixes f :: "'a \<Rightarrow> nat"
  assumes "mset (e # ks') = mset ks" and "distinct (map f ks)"
  shows "\<exists>xs ys. sort_key f ks = xs @ e # ys \<and> sort_key f ks' = xs @ ys \<and>
    (\<forall>x \<in> set xs. f x < f e) \<and> (\<forall>y \<in> set ys. f e < f y)"
proof -
  have "e \<in># mset ks" unfolding assms(1) [symmetric] by simp
  then have "e \<in> set (sort_key f ks)" by simp
  then obtain xs ys where s: "sort_key f ks = xs @ e # ys" by (meson split_list)
  have "mset (map f (sort_key f ks)) = mset (map f ks)" by simp
  then have "distinct (map f (sort_key f ks))" using assms(2) by (metis mset_eq_imp_distinct_iff)
  then have d: "distinct (map f (xs @ e # ys))" unfolding s .
  have so: "sorted (map f (xs @ e # ys))" using sorted_sort_key [of f ks] unfolding s .
  have m: "mset ks' = mset (xs @ ys)"
    using assms(1) arg_cong [OF s, of mset] by simp
  have "distinct (map f (xs @ ys))" using d by auto
  then have "inj_on f (set (xs @ ys))" by (metis distinct_map)
  then have inj: "inj_on f (set ks')" unfolding mset_eq_setD [OF m] .
  have "sorted (map f (xs @ ys))" using so by (auto simp: sorted_append)
  then have "sort_key f ks' = xs @ ys" using sort_key_inj_key_eq [OF m inj] by simp
  moreover have "\<forall>x \<in> set xs. f x \<le> f e" "\<forall>y \<in> set ys. f e \<le> f y"
    using so by (auto simp: sorted_append)
  moreover have "f e \<notin> f ` set xs" "f e \<notin> f ` set ys" using d by auto
  ultimately have "\<forall>x \<in> set xs. f x < f e" "\<forall>y \<in> set ys. f e < f y" "sort_key f ks' = xs @ ys"
    by (metis imageI le_neq_implies_less)+
  then show ?thesis using s by blast
qed

lemma nq_head_least:
  assumes "pq_ok pq" and "k \<in> set (pq_keys pq)"
  shows "waiter_key (pq ! 0) \<le> k"
proof -
  obtain i where i: "i < length pq" "k = waiter_key (pq ! i)" using assms(2) by (auto simp: in_set_conv_nth)
  then have "0 < length pq" by linarith
  then show ?thesis using heap_root_least [of "length pq" "pq_keys pq" i] assms(1) i by (simp add: pq_ok_def)
qed

lemma turn_key_less_prio: "a \<le> b \<Longrightarrow> tk_seq b < tk_seq a \<Longrightarrow> tk_priority b < tk_priority a"
  by (auto simp: less_eq_turn_key_def)

lemma turn_key_le_prio: "a \<le> b \<Longrightarrow> tk_priority b \<le> tk_priority (a :: turn_key)"
  by (auto simp: less_eq_turn_key_def)

interpretation nq: stable_queue nq_take nq_turns tk_priority nq_ordered
proof unfold_locales
  fix q :: node_queue
  have "nq_turns q = [] \<longleftrightarrow> nq_pq q = []"
    using set_empty [of "nq_turns q"] by (simp add: nq_turns_def)
  then show "nq_take q = None \<longleftrightarrow> nq_turns q = []" by (simp add: nq_take_def split: prod.splits)
next
  fix q q' :: node_queue and e
  assume ok: "nq_ordered q" and take': "nq_take q = Some (e, q')"
  obtain w pq' where r: "pq_heap_Pop (nq_pq q) = (w, pq')" by force
  have ne: "nq_pq q \<noteq> []" and e: "e = waiter_key w" and q': "q' = q\<lparr>nq_pq := pq'\<rparr>"
    using take' r by (auto simp: nq_take_def split: if_splits)
  have pop: "pq_ok pq'" "e = waiter_key (nq_pq q ! 0)"
      "add_mset (waiter_key w) (mset (pq_keys pq')) = mset (pq_keys (nq_pq q))"
    using pq_heap_Pop_correct [OF _ ne r] ok e by (auto simp: nq_ordered_def)
  have d: "distinct (map tk_seq (pq_keys (nq_pq q)))"
    using ok nq_seqs_keys [of q] by (simp add: nq_ordered_def)
  have "mset (e # pq_keys pq') = mset (pq_keys (nq_pq q))" using pop(3) e by simp
  from sort_key_taken [OF this d] obtain xs ys where
    s: "nq_turns q = xs @ e # ys" "nq_turns q' = xs @ ys"
      "\<forall>x \<in> set xs. tk_seq x < tk_seq e" "\<forall>y \<in> set ys. tk_seq e < tk_seq y"
    unfolding nq_turns_def q' by auto
  have "set (nq_turns q) = set (pq_keys (nq_pq q))" by (simp add: nq_turns_def)
  then have "e \<le> x" if "x \<in> set xs \<union> set ys" for x
    using nq_head_least [of "nq_pq q" x] ok pop(2) s(1) that by (auto simp: nq_ordered_def)
  then have "\<forall>x \<in> set xs. tk_priority x < tk_priority e" "\<forall>y \<in> set ys. tk_priority y \<le> tk_priority e"
    using s(3) turn_key_less_prio turn_key_le_prio by blast+
  moreover have "nq_ordered q'"
    using ok pop(1) taken_facts(1) [OF pop(3)] by (simp add: nq_ordered_def q')
  ultimately show "nq_ordered q' \<and> (\<exists>xs ys. nq_turns q = xs @ e # ys \<and> nq_turns q' = xs @ ys \<and>
      (\<forall>x \<in> set xs. tk_priority x < tk_priority e) \<and> (\<forall>y \<in> set ys. tk_priority y \<le> tk_priority e))"
    using s(1,2) by blast
qed

lemma nq_inv_ordered: "nq_inv q \<Longrightarrow> nq_ordered q"
  by (simp add: nq_inv_def nq_base_def nq_ordered_def)

subsection \<open>What the queue promises\<close>

abbreviation nq_reachable :: "node_queue \<Rightarrow> bool" where
  "nq_reachable \<equiv> reach (\<lambda>q. q = newNodeQueue) nq_step"

lemma nq_reach_enter: "nq_reachable q \<Longrightarrow> nq_reachable (snd (nq_acquire cerr p q))"
  by (erule reach_step) (rule nq_enters)

lemma nq_reach_release: "nq_reachable q \<Longrightarrow> nq_reachable (nq_release s q)"
  by (erule reach_step) (rule nq_releases)

text \<open>C1: At every moment at most one turn owns a node's audio, the queue is marked busy exactly while
  one does, no more than 32 turns wait, and the heap is ordered with right index fields.\<close>

theorem nq_one_owner:
  assumes "nq_reachable q"
  shows "length (nq_owners q) \<le> 1 \<and> (nq_busy q \<longleftrightarrow> nq_owners q \<noteq> []) \<and> length (nq_pq q) \<le> 32 \<and> pq_ok (nq_pq q)"
  using nq_machine.reach_inv [OF assms] by (auto simp: nq_inv_def nq_base_def split: if_splits)

theorem nq_one_owner_witness:
  "nq_owners (snd (nq_acquire None 5 (snd (nq_acquire None 0 newNodeQueue)))) = [0] \<and>
   nq_busy (snd (nq_acquire None 5 (snd (nq_acquire None 0 newNodeQueue))))"
proof -
  let ?q = "snd (nq_acquire None 5 (snd (nq_acquire None 0 newNodeQueue)))"
  have "nq_reachable ?q" by (intro nq_reach_enter reach_init refl)
  from nq_one_owner [OF this] have "nq_busy ?q \<longleftrightarrow> nq_owners ?q \<noteq> []" by blast
  moreover have "nq_owners ?q = [0]" by code_simp
  ultimately show ?thesis by simp
qed

subsection \<open>Waiters and their contexts\<close>

text \<open>
  The queue with what its waiters wait under: the error of a waiter's context once it has ended, and the callbacks of
  \<open>context.AfterFunc\<close> that are due, which take the mutex and broadcast. The callback is registered before the loop looks
  at the context for the first time; a waiter that has returned may leave a callback behind.
\<close>

record ctx_queue =
  cq_queue :: node_queue
  cq_err :: "nat \<Rightarrow> ctx_err"
  cq_due :: "nat set"

definition cq_new :: ctx_queue where
  "cq_new = \<lparr>cq_queue = newNodeQueue, cq_err = (\<lambda>_. None), cq_due = {}\<rparr>"

definition cq_acquire :: "ctx_err \<Rightarrow> int \<Rightarrow> ctx_queue \<Rightarrow> ctx_queue" where
  "cq_acquire cerr priority w =
     w\<lparr>cq_queue := snd (nq_acquire cerr priority (cq_queue w)), cq_err := (cq_err w)(nq_seq (cq_queue w) := cerr)\<rparr>"

definition cq_ctx_done :: "nat \<Rightarrow> go_error \<Rightarrow> ctx_queue \<Rightarrow> ctx_queue" where
  "cq_ctx_done s e w =
     w\<lparr>cq_err := (cq_err w)(s := Some e), cq_due := (if s \<in> set (nq_seqs (cq_queue w)) then insert s (cq_due w) else cq_due w)\<rparr>"

definition cq_callback :: "nat \<Rightarrow> ctx_queue \<Rightarrow> ctx_queue" where
  "cq_callback s w = w\<lparr>cq_queue := nq_broadcast (cq_queue w), cq_due := cq_due w - {s}\<rparr>"

definition cq_runs :: "nat \<Rightarrow> ctx_queue \<Rightarrow> nq_outcome" where
  "cq_runs s w = fst (nq_wake (cq_err w s) s (cq_queue w))"

definition cq_ran :: "nat \<Rightarrow> ctx_queue \<Rightarrow> ctx_queue" where
  "cq_ran s w = w\<lparr>cq_queue := snd (nq_wake (cq_err w s) s (cq_queue w))\<rparr>"

inductive cq_step :: "ctx_queue \<Rightarrow> ctx_queue \<Rightarrow> bool" where
  cq_enters: "cq_step w (cq_acquire cerr priority w)"
| cq_ends: "cq_err w s = None \<Longrightarrow> s < nq_seq (cq_queue w) \<Longrightarrow> cq_step w (cq_ctx_done s e w)"
| cq_calls_back: "s \<in> cq_due w \<Longrightarrow> cq_step w (cq_callback s w)"
| cq_wakes: "s \<in> set (nq_woken (cq_queue w)) \<Longrightarrow> cq_step w (cq_ran s w)"
| cq_releases: "cq_step w (w\<lparr>cq_queue := nq_release s (cq_queue w)\<rparr>)"
| cq_closes: "cq_step w (w\<lparr>cq_queue := nq_close (cq_queue w)\<rparr>)"

inductive_cases cq_stepE: "cq_step w w'"

text \<open>A waiter whose context has ended stays parked only until its callback runs.\<close>

definition cq_inv :: "ctx_queue \<Rightarrow> bool" where
  "cq_inv w \<longleftrightarrow> nq_inv (cq_queue w) \<and> (\<forall>s \<in> set (nq_parked (cq_queue w)). cq_err w s \<noteq> None \<longrightarrow> s \<in> cq_due w)"

lemma nq_loop_parks:
  "set (nq_parked (snd (nq_loop cerr s q))) \<subseteq> set (nq_parked q) \<union> (if cerr = None then {s} else {})"
  by (auto simp: nq_loop_def nq_broadcast_def split: option.splits)

lemma cq_acquire_inv:
  assumes "cq_inv w"
  shows "cq_inv (cq_acquire cerr priority w)"
proof -
  let ?q = "cq_queue w"
  have inv: "nq_inv ?q" using assms by (simp add: cq_inv_def)
  have "set (nq_parked ?q) \<subseteq> set (nq_seqs ?q)" using inv by (auto simp: nq_inv_def nq_waiting_def)
  then have old: "s \<noteq> nq_seq ?q" if "s \<in> set (nq_parked ?q)" for s using inv that by (auto simp: nq_inv_def nq_base_def)
  have "set (nq_parked (snd (nq_acquire cerr priority ?q))) \<subseteq> set (nq_parked ?q) \<union> (if cerr = None then {nq_seq ?q} else {})"
    using nq_loop_parks [of cerr "nq_seq ?q" "nq_arrived priority ?q"]
    by (auto simp: nq_acquire_cases nq_arrived_def split: if_splits)
  then have "s \<in> cq_due w" if "s \<in> set (nq_parked (snd (nq_acquire cerr priority ?q)))" "((cq_err w)(nq_seq ?q := cerr)) s \<noteq> None" for s
    using that assms old by (auto simp: cq_inv_def split: if_splits)
  then show ?thesis using nq_acquire_inv [OF inv] by (auto simp: cq_inv_def cq_acquire_def simp del: fun_upd_apply)
qed

lemma cq_step_inv: "cq_inv w \<Longrightarrow> cq_step w w' \<Longrightarrow> cq_inv w'"
proof (erule cq_stepE, goal_cases)
  case (1 cerr priority)
  then show ?case using cq_acquire_inv by simp
next
  case (2 s e)
  then have "set (nq_parked (cq_queue w)) \<subseteq> set (nq_seqs (cq_queue w))" by (auto simp: cq_inv_def nq_inv_def nq_waiting_def)
  then show ?case using 2 by (auto simp: cq_inv_def cq_ctx_done_def)
next
  case (3 s)
  then show ?case using nq_broadcast_inv [of "cq_queue w"] by (simp add: cq_inv_def cq_callback_def) (simp add: nq_broadcast_def)
next
  case (4 s)
  then have "s \<in> cq_due w \<or> cq_err w s = None \<or> s \<notin> set (nq_parked (snd (nq_wake (cq_err w s) s (cq_queue w))))"
    using nq_loop_parks [of "cq_err w s" s "(cq_queue w)\<lparr>nq_woken := removeAll s (nq_woken (cq_queue w))\<rparr>"]
    by (auto simp: nq_wake_def cq_inv_def split: if_splits)
  then show ?case using 4 nq_wake_inv [of "cq_queue w" s "cq_err w s"]
      nq_loop_parks [of "cq_err w s" s "(cq_queue w)\<lparr>nq_woken := removeAll s (nq_woken (cq_queue w))\<rparr>"]
    by (auto simp: cq_inv_def cq_ran_def nq_wake_def split: if_splits)
next
  case (5 s)
  then show ?case using nq_release_inv [of "cq_queue w" s] by (auto simp: cq_inv_def nq_release_def nq_broadcast_def)
next
  case 6
  then show ?case using nq_close_inv [of "cq_queue w"] by (auto simp: cq_inv_def nq_close_def nq_broadcast_def)
qed

interpretation cq_machine: machine "\<lambda>w. w = cq_new" cq_step cq_inv
proof unfold_locales
  show "cq_inv w" if "w = cq_new" for w
    using that nq_machine.inv_init by (simp add: cq_inv_def cq_new_def newNodeQueue_def)
qed (rule cq_step_inv)

lemma cq_reach_enter: "reach (\<lambda>w. w = cq_new) cq_step w \<Longrightarrow> reach (\<lambda>w. w = cq_new) cq_step (cq_acquire cerr p w)"
  by (erule reach_step) (rule cq_enters)

text \<open>C2: No wake-up is lost, whatever a waiter waits for. Whenever the node is free and turns wait, the first of them by
  priority and arrival is awake, and it owns the node as soon as it runs, unless it must give up. A waiter that must give
  up, because the queue was closed or its context has ended, is awake too, or the callback of its context is due, which
  wakes every waiter; and as soon as it runs it leaves the queue with an error.\<close>

theorem nq_no_lost_wakeup:
  assumes "reach (\<lambda>w. w = cq_new) cq_step w"
  shows "(\<not> nq_busy (cq_queue w) \<and> nq_pq (cq_queue w) \<noteq> [] \<longrightarrow>
      (\<exists>v \<in> set (nq_pq (cq_queue w)). wt_seq v \<in> set (nq_woken (cq_queue w)) \<and>
        (\<forall>u \<in> set (nq_pq (cq_queue w)). waiter_key v \<le> waiter_key u) \<and>
        (\<not> nq_closed (cq_queue w) \<and> cq_err w (wt_seq v) = None \<longrightarrow> cq_runs (wt_seq v) w = Nq_owned (wt_seq v)))) \<and>
    (\<forall>v \<in> set (nq_pq (cq_queue w)). nq_closed (cq_queue w) \<or> cq_err w (wt_seq v) \<noteq> None \<longrightarrow>
      (wt_seq v \<in> set (nq_woken (cq_queue w)) \<or>
        \<not> nq_closed (cq_queue w) \<and> wt_seq v \<in> cq_due w \<and> wt_seq v \<in> set (nq_woken (cq_queue (cq_callback (wt_seq v) w)))) \<and>
      (\<exists>e. cq_runs (wt_seq v) w = Nq_error e) \<and> wt_seq v \<notin> set (nq_seqs (cq_queue (cq_ran (wt_seq v) w))))"
proof (intro conjI impI ballI; (elim conjE)?)
  let ?q = "cq_queue w"
  have cinv: "cq_inv w" by (rule cq_machine.reach_inv [OF assms])
  then have inv: "nq_inv ?q" by (simp add: cq_inv_def)
  {
    assume free: "\<not> nq_busy ?q" "nq_pq ?q \<noteq> []"
    let ?v = "nq_pq ?q ! 0"
    have "?v \<in> set (nq_pq ?q)" using free(2) by simp
    moreover have "wt_seq ?v \<in> set (nq_woken ?q)" using inv free by (auto simp: nq_inv_def nq_waiting_def)
    moreover have "\<forall>u \<in> set (nq_pq ?q). waiter_key ?v \<le> waiter_key u"
      using nq_head_least [of "nq_pq ?q"] inv by (simp add: nq_inv_def nq_base_def)
    moreover have "\<not> nq_closed ?q \<and> cq_err w (wt_seq ?v) = None \<longrightarrow> cq_runs (wt_seq ?v) w = Nq_owned (wt_seq ?v)"
      using free by (simp add: cq_runs_def nq_wake_def nq_loop_def)
    ultimately show "\<exists>v \<in> set (nq_pq ?q). wt_seq v \<in> set (nq_woken ?q) \<and> (\<forall>u \<in> set (nq_pq ?q). waiter_key v \<le> waiter_key u) \<and>
        (\<not> nq_closed ?q \<and> cq_err w (wt_seq v) = None \<longrightarrow> cq_runs (wt_seq v) w = Nq_owned (wt_seq v))" by blast
  }
  fix v
  assume v: "v \<in> set (nq_pq ?q)" and gives_up: "nq_closed ?q \<or> cq_err w (wt_seq v) \<noteq> None"
  have awake: "wt_seq v \<in> set (nq_parked ?q) \<union> set (nq_woken ?q)" using inv v by (auto simp: nq_inv_def nq_waiting_def)
  then show "wt_seq v \<in> set (nq_woken ?q) \<or>
      \<not> nq_closed ?q \<and> wt_seq v \<in> cq_due w \<and> wt_seq v \<in> set (nq_woken (cq_queue (cq_callback (wt_seq v) w)))"
    using gives_up cinv inv by (auto simp: cq_inv_def nq_inv_def nq_waiting_def cq_callback_def nq_broadcast_def)
  let ?q1 = "?q\<lparr>nq_woken := removeAll (wt_seq v) (nq_woken ?q), nq_parked := removeAll (wt_seq v) (nq_parked ?q)\<rparr>"
  have left: "(\<exists>e. fst (nq_loop c (wt_seq v) q1) = Nq_error e) \<and> wt_seq v \<notin> set (nq_seqs (snd (nq_loop c (wt_seq v) q1)))"
    if "nq_pq q1 = nq_pq ?q" "nq_closed q1 = nq_closed ?q" "c = cq_err w (wt_seq v)" for q1 c
  proof -
    obtain i u pq' where i: "i < length (nq_pq ?q)" "nq_index (wt_seq v) ?q = Some i" "wt_seq (nq_pq ?q ! i) = wt_seq v"
      and r: "pq_heap_Remove i (nq_pq ?q) = (u, pq')"
      using nq_index_found [of ?q "wt_seq v"] inv v by (auto simp: nq_inv_def nq_base_def) (metis surj_pair)
    have "add_mset (waiter_key u) (mset (pq_keys pq')) = mset (pq_keys (nq_pq ?q))" "wt_seq u = wt_seq v"
      using pq_heap_Remove_correct [OF _ i(1) r] inv i(3) by (auto simp: nq_inv_def nq_base_def waiter_key_def)
    then have "wt_seq v \<notin> set (map wt_seq pq')" using taken_facts(3) inv by (metis nq_base_def nq_inv_def)
    moreover have "nq_index (wt_seq v) q1 = Some i" using i(2) that(1) by (simp add: nq_index_def)
    ultimately show ?thesis using r gives_up that by (auto simp: nq_loop_def nq_broadcast_def)
  qed
  show "\<exists>e. cq_runs (wt_seq v) w = Nq_error e" "wt_seq v \<notin> set (nq_seqs (cq_queue (cq_ran (wt_seq v) w)))"
    using left [of "?q\<lparr>nq_woken := removeAll (wt_seq v) (nq_woken ?q)\<rparr>"] by (auto simp: cq_runs_def cq_ran_def nq_wake_def)
qed

text \<open>Two turns behind an owner; the queue is closed: the second waiter is awake and gives up.\<close>

theorem nq_no_lost_wakeup_witness:
  "2 \<in> set (nq_woken (nq_close (snd (nq_acquire None 7 (snd (nq_acquire None 5 (snd (nq_acquire None 0 newNodeQueue)))))))) \<and>
   nq_busy (nq_close (snd (nq_acquire None 7 (snd (nq_acquire None 5 (snd (nq_acquire None 0 newNodeQueue)))))))"
proof -
  let ?three = "cq_acquire None 7 (cq_acquire None 5 (cq_acquire None 0 cq_new))"
  let ?w = "?three\<lparr>cq_queue := nq_close (cq_queue ?three)\<rparr>"
  have w0: "reach (\<lambda>w. w = cq_new) cq_step ?three"
    by (rule cq_reach_enter)+ (rule reach_init, rule refl)
  have r: "reach (\<lambda>w. w = cq_new) cq_step ?w"
    by (rule reach_step [OF w0], rule cq_closes)
  have q: "cq_queue ?w = nq_close (snd (nq_acquire None 7 (snd (nq_acquire None 5 (snd (nq_acquire None 0 newNodeQueue))))))"
    by (simp add: cq_acquire_def cq_new_def)
  have "\<exists>v \<in> set (nq_pq (cq_queue ?w)). wt_seq v = 2" "nq_closed (cq_queue ?w)" "nq_busy (cq_queue ?w)"
    unfolding q by code_simp+
  then have "2 \<in> set (nq_woken (cq_queue ?w))" using nq_no_lost_wakeup [OF r] by metis
  then show ?thesis using \<open>nq_busy (cq_queue ?w)\<close> unfolding q by simp
qed

subsection \<open>The order of the grants\<close>

text \<open>What a queue promises to grant: highest priority first, turns of equal priority in the order of their arrival.\<close>

definition nq_order :: "node_queue \<Rightarrow> turn_key list" where
  "nq_order q = sort_key (\<lambda>k. - tk_priority k) (sort_key tk_seq (pq_keys (nq_pq q)))"

text \<open>
  The turns the loop of \<open>acquire\<close> grants while no other turn arrives or gives up, over every order in which releases
  happen and woken waiters run.
\<close>

inductive nq_grants :: "node_queue \<Rightarrow> turn_key list \<Rightarrow> node_queue \<Rightarrow> bool" where
  ng_start: "nq_grants q [] q"
| ng_owns: "nq_grants q g q1 \<Longrightarrow> s \<in> set (nq_woken q1) \<Longrightarrow> nq_wake None s q1 = (Nq_owned t, q2) \<Longrightarrow>
    w \<in> set (nq_pq q1) \<Longrightarrow> wt_seq w = t \<Longrightarrow> nq_grants q (g @ [waiter_key w]) q2"
| ng_parks: "nq_grants q g q1 \<Longrightarrow> s \<in> set (nq_woken q1) \<Longrightarrow> nq_wake None s q1 = (Nq_parked t, q2) \<Longrightarrow> nq_grants q g q2"
| ng_releases: "nq_grants q g q1 \<Longrightarrow> nq_grants q g (nq_release s q1)"
| ng_broadcasts: "nq_grants q g q1 \<Longrightarrow> nq_grants q g (nq_broadcast q1)"

lemma nq_order_take:
  assumes "nq_inv q" and "nq_pq q \<noteq> []"
  shows "nq_order q = waiter_key (nq_pq q ! 0) # nq_order (q\<lparr>nq_pq := snd (pq_heap_Pop (nq_pq q))\<rparr>)"
proof -
  obtain w pq' where r: "pq_heap_Pop (nq_pq q) = (w, pq')" by force
  let ?q' = "q\<lparr>nq_pq := pq'\<rparr>"
  have ord: "nq_ordered q" by (rule nq_inv_ordered [OF assms(1)])
  have pop: "pq_ok pq'" "waiter_key w = waiter_key (nq_pq q ! 0)"
      "add_mset (waiter_key w) (mset (pq_keys pq')) = mset (pq_keys (nq_pq q))"
    using pq_heap_Pop_correct [OF _ assms(2) r] ord by (auto simp: nq_ordered_def)
  have "nq_ordered ?q'" using pop(1) taken_facts(1) [OF pop(3)] ord by (simp add: nq_ordered_def)
  then have "serve nq_take (length pq') ?q' = nq_order ?q'" using nq.serve_sorted [of ?q'] by (simp add: nq_order_def nq_turns_def)
  moreover have "serve nq_take (length (nq_pq q)) q = nq_order q"
    using nq.serve_sorted [OF ord] by (simp add: nq_order_def nq_turns_def)
  moreover have "nq_take q = Some (waiter_key w, ?q')" using assms(2) r by (simp add: nq_take_def)
  moreover have "length (nq_pq q) = Suc (length pq')" using taken_facts(4) [OF pop(3)] ord by (simp add: nq_ordered_def)
  ultimately show ?thesis using pop(2) r by simp
qed

lemma nq_order_same: "nq_pq q' = nq_pq q \<Longrightarrow> nq_order q' = nq_order q"
  by (simp add: nq_order_def)

text \<open>A turn is granted by the loop only to the first of the waiting turns, and only while the node is free.\<close>

lemma nq_loop_grant:
  assumes "fst (nq_loop cerr s q) = Nq_owned t"
  shows "t = s \<and> cerr = None \<and> \<not> nq_closed q \<and> \<not> nq_busy q \<and> nq_pq q \<noteq> [] \<and> wt_seq (nq_pq q ! 0) = s \<and>
    nq_pq (snd (nq_loop cerr s q)) = snd (pq_heap_Pop (nq_pq q))"
  using assms by (auto simp: nq_loop_def split: if_splits)

lemma nq_grants_order:
  assumes "nq_grants q g q'" and "nq_inv q"
  shows "nq_inv q' \<and> nq_order q = g @ nq_order q'"
  using assms
proof (induction rule: nq_grants.induct)
  case (ng_owns q g q1 s t q2 w)
  then have inv: "nq_inv q1" "nq_order q = g @ nq_order q1" by auto
  let ?q = "q1\<lparr>nq_woken := removeAll s (nq_woken q1)\<rparr>"
  have l: "nq_loop None s ?q = (Nq_owned t, q2)" using ng_owns(3) by (simp add: nq_wake_def)
  then have g: "nq_pq q1 \<noteq> []" "wt_seq (nq_pq q1 ! 0) = t" "nq_pq q2 = snd (pq_heap_Pop (nq_pq q1))"
    using nq_loop_grant [of None s ?q t] by auto
  have "distinct (nq_seqs q1)" using inv(1) by (simp add: nq_inv_def nq_base_def)
  moreover have "nq_pq q1 ! 0 \<in> set (nq_pq q1)" using g(1) by simp
  ultimately have "w = nq_pq q1 ! 0" using ng_owns(4,5) g(2) by (metis (mono_tags) distinct_map inj_onD)
  moreover have "nq_order q1 = waiter_key (nq_pq q1 ! 0) # nq_order q2"
    using nq_order_take [OF inv(1) g(1)] nq_order_same [of q2 "q1\<lparr>nq_pq := snd (pq_heap_Pop (nq_pq q1))\<rparr>"] g(3) by simp
  moreover have "nq_inv q2" using nq_wake_inv [OF inv(1) ng_owns(2), of None] ng_owns(3) by simp
  ultimately show ?case using inv(2) by simp
next
  case (ng_parks q g q1 s t q2)
  then have "nq_pq q2 = nq_pq q1" by (auto simp: nq_wake_def nq_loop_def split: if_splits)
  then show ?case using ng_parks nq_wake_inv [of q1 s None] nq_order_same [of q2 q1] by simp
next
  case (ng_releases q g q1 s)
  then show ?case using nq_release_inv [of q1 s] nq_order_same [of "nq_release s q1" q1] by (simp add: nq_release_def nq_broadcast_def)
next
  case (ng_broadcasts q g q1)
  then show ?case using nq_broadcast_inv [of q1] nq_order_same [of "nq_broadcast q1" q1] by (simp add: nq_broadcast_def)
qed simp

lemma nq_grants_trans: "nq_grants q2 h q3 \<Longrightarrow> nq_grants q1 g q2 \<Longrightarrow> nq_grants q1 (g @ h) q3"
proof (induction rule: nq_grants.induct)
  case (ng_owns q h q4 s t q5 w)
  then have "nq_grants q1 ((g @ h) @ [waiter_key w]) q5" by (intro nq_grants.ng_owns [where s = s and t = t]) auto
  then show ?case by simp
qed (auto intro: nq_grants.intros)

lemma nq_grants_all: "nq_inv q \<Longrightarrow> \<not> nq_closed q \<Longrightarrow> \<exists>q'. nq_grants q (nq_order q) q'"
proof (induction "length (nq_pq q)" arbitrary: q)
  case 0
  then show ?case using ng_start [of q] by (auto simp: nq_order_def)
next
  case (Suc n)
  have ne: "nq_pq q \<noteq> []" using Suc.hyps(2) by auto
  have "\<exists>q1. nq_grants q [] q1 \<and> \<not> nq_busy q1 \<and> nq_pq q1 = nq_pq q \<and> \<not> nq_closed q1"
  proof (cases "nq_busy q")
    case True
    then obtain s where "nq_owners q = [s]" using Suc.prems(1) by (auto simp: nq_inv_def nq_base_def)
    then have "\<not> nq_busy (nq_release s q)" "nq_pq (nq_release s q) = nq_pq q" "\<not> nq_closed (nq_release s q)"
      using Suc.prems(2) by (simp_all add: nq_release_def nq_broadcast_def)
    then show ?thesis using ng_releases [OF ng_start] by blast
  qed (use ng_start Suc.prems in blast)
  then obtain q1 where q1: "nq_grants q [] q1" "\<not> nq_busy q1" "nq_pq q1 = nq_pq q" "\<not> nq_closed q1" by blast
  have inv: "nq_inv q1" using nq_grants_order [OF q1(1) Suc.prems(1)] by simp
  let ?s = "wt_seq (nq_pq q1 ! 0)"
  have woken: "?s \<in> set (nq_woken q1)" using inv q1 ne by (auto simp: nq_inv_def nq_waiting_def)
  obtain q2 where q2: "nq_wake None ?s q1 = (Nq_owned ?s, q2)" "nq_pq q2 = snd (pq_heap_Pop (nq_pq q1))" "\<not> nq_closed q2"
    using q1 ne by (simp add: nq_wake_def nq_loop_def)
  have g: "nq_grants q [waiter_key (nq_pq q1 ! 0)] q2"
    using ng_owns [OF q1(1) woken q2(1), of "nq_pq q1 ! 0"] q1(3) ne by simp
  have inv2: "nq_inv q2" using nq_grants_order [OF g Suc.prems(1)] by simp
  have ord: "nq_order q = waiter_key (nq_pq q1 ! 0) # nq_order q2" using nq_grants_order [OF g Suc.prems(1)] by simp
  have "length (nq_pq q2) = n"
    using arg_cong [OF ord, of length] Suc.hyps(2) by (simp add: nq_order_def)
  then obtain q' where "nq_grants q2 (nq_order q2) q'" using Suc.hyps(1) [of q2] inv2 q2(3) by blast
  then show ?case using nq_grants_trans [OF _ g] ord by fastforce
qed

text \<open>C3: Turns are granted in the order the queue promises. The loop of \<open>acquire\<close> grants a turn only to the waiter with the
  highest priority and among these the earliest, and a newcomer only when it comes before all who wait. While no other turn
  arrives or gives up, the turns granted are a beginning of the stable sort by priority of those that wait, in whatever
  order releases happen and woken waiters run, and all of them can be granted.\<close>

theorem nq_priority_order:
  assumes "nq_reachable q"
  shows "(\<forall>cerr s t. s \<in> set (nq_woken q) \<and> fst (nq_wake cerr s q) = Nq_owned t \<longrightarrow>
      t = s \<and> (\<exists>w \<in> set (nq_pq q). wt_seq w = s \<and> (\<forall>v \<in> set (nq_pq q). waiter_key w \<le> waiter_key v))) \<and>
    (\<forall>cerr priority t. fst (nq_acquire cerr priority q) = Nq_owned t \<longrightarrow>
      t = nq_seq q \<and> (\<forall>v \<in> set (nq_pq q). wt_priority v < priority)) \<and>
    (\<forall>g q'. nq_grants q g q' \<longrightarrow>
      sort_key (\<lambda>k. - tk_priority k) (sort_key tk_seq (pq_keys (nq_pq q))) =
        g @ sort_key (\<lambda>k. - tk_priority k) (sort_key tk_seq (pq_keys (nq_pq q')))) \<and>
    (\<not> nq_closed q \<longrightarrow> (\<exists>q'. nq_grants q (sort_key (\<lambda>k. - tk_priority k) (sort_key tk_seq (pq_keys (nq_pq q)))) q'))"
proof -
  have inv: "nq_inv q" by (rule nq_machine.reach_inv [OF assms])
  have woken: "t = s \<and> (\<exists>w \<in> set (nq_pq q). wt_seq w = s \<and> (\<forall>v \<in> set (nq_pq q). waiter_key w \<le> waiter_key v))"
    if "fst (nq_wake cerr s q) = Nq_owned t" for cerr s t
  proof -
    have "t = s" "nq_pq q \<noteq> []" "wt_seq (nq_pq q ! 0) = s"
      using nq_loop_grant [of cerr s "q\<lparr>nq_woken := removeAll s (nq_woken q)\<rparr>" t] that by (auto simp: nq_wake_def)
    moreover have "\<forall>v \<in> set (nq_pq q). waiter_key (nq_pq q ! 0) \<le> waiter_key v"
      using nq_head_least [of "nq_pq q"] inv by (simp add: nq_inv_def nq_base_def)
    ultimately show ?thesis by (intro conjI bexI [of _ "nq_pq q ! 0"]) auto
  qed
  have arrived: "t = nq_seq q \<and> (\<forall>v \<in> set (nq_pq q). wt_priority v < priority)"
    if "fst (nq_acquire cerr priority q) = Nq_owned t" for cerr priority t
  proof -
    have open': "\<not> nq_closed q" "length (nq_pq q) < 32" and o: "fst (nq_loop cerr (nq_seq q) (nq_arrived priority q)) = Nq_owned t"
      using that by (auto simp: nq_acquire_cases split: if_splits)
    let ?pq = "nq_pq (nq_arrived priority q)"
    have g: "t = nq_seq q" "?pq \<noteq> []" "wt_seq (?pq ! 0) = nq_seq q" using nq_loop_grant [OF o] by auto
    have base: "pq_ok ?pq" "pq_ok (nq_pq q)" "\<forall>s \<in> set (nq_seqs q). s < nq_seq q"
      using nq_arrived_inv(1) [OF inv open'] inv by (auto simp: nq_inv_def nq_base_def)
    have keys: "mset (pq_keys ?pq) = add_mset (waiter_key (arriving priority q)) (mset (pq_keys (nq_pq q)))"
      using pq_heap_Push_correct [OF base(2)] by (simp add: nq_arrived_def)
    have "wt_priority v < priority" if "v \<in> set (nq_pq q)" for v
    proof -
      have "waiter_key v \<in># mset (pq_keys ?pq)" unfolding keys using that by simp
      then have le: "waiter_key (?pq ! 0) \<le> waiter_key v" using nq_head_least [OF base(1)] by simp
      have "waiter_key (?pq ! 0) \<in># mset (pq_keys ?pq)" using g(2) by simp
      then have "waiter_key (?pq ! 0) = waiter_key (arriving priority q) \<or> waiter_key (?pq ! 0) \<in> set (pq_keys (nq_pq q))"
        unfolding keys by auto
      moreover have "waiter_key (?pq ! 0) \<notin> set (pq_keys (nq_pq q))"
        using g(3) base(3) by (auto simp: waiter_key_def)
      ultimately have "waiter_key (?pq ! 0) = Turn_key priority (nq_seq q)" by (simp add: waiter_key_def arriving_def)
      moreover have "wt_seq v < nq_seq q" using base(3) that by auto
      ultimately show ?thesis using le by (auto simp: less_eq_turn_key_def waiter_key_def)
    qed
    then show ?thesis using g(1) by blast
  qed
  have runs: "nq_order q = g @ nq_order q'" if "nq_grants q g q'" for g q' using nq_grants_order [OF that inv] by blast
  show ?thesis using woken arrived runs nq_grants_all [OF inv] unfolding nq_order_def by blast
qed

theorem nq_priority_order_witness:
  "\<exists>q'. nq_grants (foldl (\<lambda>q p. snd (nq_acquire None p q)) newNodeQueue [0, 1, 7, 1])
     [Turn_key 7 2, Turn_key 1 1, Turn_key 1 3] q'"
proof -
  let ?q = "snd (nq_acquire None 1 (snd (nq_acquire None 7 (snd (nq_acquire None 1
              (snd (nq_acquire None 0 newNodeQueue)))))))"
  have "nq_reachable ?q" by (intro nq_reach_enter reach_init refl)
  from nq_priority_order [OF this]
  have "\<not> nq_closed ?q \<longrightarrow> (\<exists>q'. nq_grants ?q (sort_key (\<lambda>k. - tk_priority k) (sort_key tk_seq (pq_keys (nq_pq ?q)))) q')" by blast
  moreover have "\<not> nq_closed ?q" by code_simp
  moreover have "sort_key (\<lambda>k. - tk_priority k) (sort_key tk_seq (pq_keys (nq_pq ?q))) =
      [Turn_key 7 2, Turn_key 1 1, Turn_key 1 3]" by code_simp
  ultimately show ?thesis by simp
qed

end
