(* ===== verification/Go_Float.thy ===== *)
theory Go_Float
  imports Go_Prelude Complex_Main "HOL-Library.Log_Nat"
begin

text \<open>
  Go's \<open>float32\<close> and \<open>float64\<close>: IEEE 754 binary formats with rounding to nearest, ties to even.
  A finite value is the rational number it denotes (the two zeros are one value, which no
  comparison of the sources can tell apart); the operations compute exactly and round to the
  format, overflow to an infinity, and propagate NaN.
\<close>

datatype go_float = Fin rat | PInf | NInf | NaN

text \<open>A format: precision in bits, least and greatest exponent of a normal number.\<close>

type_synonym float_format = "nat \<times> int \<times> int"

definition float32 :: float_format where "float32 = (24, - 126, 127)"
definition float64 :: float_format where "float64 = (53, - 1022, 1023)"

type_synonym f32 = go_float
type_synonym f64 = go_float

subsection \<open>Rounding\<close>

text \<open>The binary exponent of a positive rational: \<open>2 powi ilog x \<le> x < 2 powi (ilog x + 1)\<close>.\<close>

definition ilog :: "rat \<Rightarrow> int" where
  "ilog x = (case quotient_of x of (n, d) \<Rightarrow>
     let k = bitlen n - bitlen d in if (2::rat) powi k \<le> x then k else k - 1)"

definition round_even :: "rat \<Rightarrow> int" where
  "round_even m =
     (let f = \<lfloor>m\<rfloor>; r = m - of_int f
      in if r < 1 / 2 then f else if 1 / 2 < r then f + 1 else if even f then f else f + 1)"

definition quantum :: "float_format \<Rightarrow> rat \<Rightarrow> int" where
  "quantum fmt x = (case fmt of (p, emin, emax) \<Rightarrow> max (ilog x) emin - int p + 1)"

definition round_pos :: "float_format \<Rightarrow> rat \<Rightarrow> rat" where
  "round_pos fmt x = of_int (round_even (x / 2 powi quantum fmt x)) * 2 powi quantum fmt x"

definition fround :: "float_format \<Rightarrow> rat \<Rightarrow> go_float" where
  "fround fmt x =
     (if x = 0 then Fin 0
      else let y = round_pos fmt \<bar>x\<bar>
           in if 2 powi (snd (snd fmt) + 1) \<le> y then (if x < 0 then NInf else PInf)
              else Fin (if x < 0 then - y else y))"

subsection \<open>Operations\<close>

fun f_neg :: "go_float \<Rightarrow> go_float" where
  "f_neg (Fin a) = Fin (- a)"
| "f_neg PInf = NInf"
| "f_neg NInf = PInf"
| "f_neg NaN = NaN"

fun f_add :: "float_format \<Rightarrow> go_float \<Rightarrow> go_float \<Rightarrow> go_float" where
  "f_add fmt (Fin a) (Fin b) = fround fmt (a + b)"
| "f_add fmt NaN b = NaN"
| "f_add fmt a NaN = NaN"
| "f_add fmt PInf NInf = NaN"
| "f_add fmt NInf PInf = NaN"
| "f_add fmt PInf b = PInf"
| "f_add fmt NInf b = NInf"
| "f_add fmt (Fin a) b = b"

definition f_sub :: "float_format \<Rightarrow> go_float \<Rightarrow> go_float \<Rightarrow> go_float" where
  "f_sub fmt a b = f_add fmt a (f_neg b)"

text \<open>The sign of a value, with 0 for zero and NaN.\<close>

fun f_sgn :: "go_float \<Rightarrow> rat" where
  "f_sgn (Fin a) = sgn a"
| "f_sgn PInf = 1"
| "f_sgn NInf = - 1"
| "f_sgn NaN = 0"

definition f_inf :: "rat \<Rightarrow> go_float" where
  "f_inf s = (if s = 0 then NaN else if s < 0 then NInf else PInf)"

fun f_mul :: "float_format \<Rightarrow> go_float \<Rightarrow> go_float \<Rightarrow> go_float" where
  "f_mul fmt (Fin a) (Fin b) = fround fmt (a * b)"
| "f_mul fmt NaN b = NaN"
| "f_mul fmt a NaN = NaN"
| "f_mul fmt a b = f_inf (f_sgn a * f_sgn b)"

fun f_div :: "float_format \<Rightarrow> go_float \<Rightarrow> go_float \<Rightarrow> go_float" where
  "f_div fmt (Fin a) (Fin b) = (if b = 0 then f_inf (sgn a) else fround fmt (a / b))"
| "f_div fmt NaN b = NaN"
| "f_div fmt a NaN = NaN"
| "f_div fmt (Fin a) b = Fin 0"
| "f_div fmt a (Fin b) = f_inf (f_sgn a * (if b = 0 then 1 else sgn b))"
| "f_div fmt a b = NaN"

fun f_lt :: "go_float \<Rightarrow> go_float \<Rightarrow> bool" where
  "f_lt (Fin a) (Fin b) = (a < b)"
| "f_lt (Fin a) PInf = True"
| "f_lt NInf (Fin b) = True"
| "f_lt NInf PInf = True"
| "f_lt a b = False"

fun f_le :: "go_float \<Rightarrow> go_float \<Rightarrow> bool" where
  "f_le (Fin a) (Fin b) = (a \<le> b)"
| "f_le NaN b = False"
| "f_le a NaN = False"
| "f_le NInf b = True"
| "f_le a PInf = True"
| "f_le a b = False"

fun f_eq :: "go_float \<Rightarrow> go_float \<Rightarrow> bool" where
  "f_eq NaN b = False"
| "f_eq a b = (a = b)"

fun f_is_nan :: "go_float \<Rightarrow> bool" where
  "f_is_nan NaN = True"
| "f_is_nan a = False"

fun f_is_inf :: "go_float \<Rightarrow> bool" where
  "f_is_inf PInf = True"
| "f_is_inf NInf = True"
| "f_is_inf a = False"

definition f_of_int :: "float_format \<Rightarrow> int \<Rightarrow> go_float" where
  "f_of_int fmt i = fround fmt (of_int i)"

text \<open>Conversion between the formats.\<close>

fun f_conv :: "float_format \<Rightarrow> go_float \<Rightarrow> go_float" where
  "f_conv fmt (Fin a) = fround fmt a"
| "f_conv fmt a = a"

text \<open>
  A conversion of a float to an integer truncates towards zero. Outside the range of the integer
  type Go leaves the value to the implementation; the model keeps the low bits of the truncated
  value, and 0 for NaN and the infinities, as the amd64 compiler's 32-bit conversion does for the
  16-bit samples of the sources.
\<close>

definition trunc :: "rat \<Rightarrow> int" where
  "trunc x = (if x < 0 then - \<lfloor>- x\<rfloor> else \<lfloor>x\<rfloor>)"

fun f_to_int :: "go_float \<Rightarrow> int" where
  "f_to_int (Fin a) = trunc a"
| "f_to_int a = 0"

subsection \<open>Facts about rounding\<close>

lemma trunc_of_int [simp]: "trunc (of_int i) = i"
proof -
  have "\<lfloor>- (of_int i :: rat)\<rfloor> = - i"
    by (metis floor_of_int of_int_minus)
  then show ?thesis by (simp add: trunc_def)
qed

lemma trunc_le: "x \<le> of_int b \<Longrightarrow> trunc x \<le> b"
proof (cases "x < 0")
  case True
  assume "x \<le> of_int b"
  then have "of_int (- b) \<le> - x" by simp
  then have "- b \<le> \<lfloor>- x\<rfloor>" by (rule le_floor_iff [THEN iffD2])
  with True show ?thesis by (simp add: trunc_def)
next
  case False
  assume "x \<le> of_int b"
  then have "\<lfloor>x\<rfloor> \<le> b" by (metis floor_mono floor_of_int)
  with False show ?thesis by (simp add: trunc_def)
qed

lemma trunc_ge: "of_int a \<le> x \<Longrightarrow> a \<le> trunc x"
proof (cases "x < 0")
  case True
  assume "of_int a \<le> x"
  then have "- x \<le> of_int (- a)" by simp
  then have "\<lfloor>- x\<rfloor> \<le> - a" by (metis floor_mono floor_of_int)
  with True show ?thesis by (simp add: trunc_def)
next
  case False
  assume "of_int a \<le> x"
  with False show ?thesis by (simp add: trunc_def le_floor_iff)
qed

lemma round_even_near:
  assumes "\<bar>m - of_int i\<bar> < 1 / 2"
  shows "round_even m = i"
proof (cases "of_int i \<le> m")
  case True
  with assms have "\<lfloor>m\<rfloor> = i" by (simp add: floor_eq_iff abs_if split: if_splits)
  with True assms show ?thesis by (simp add: round_even_def abs_if split: if_splits)
next
  case False
  with assms have "m < of_int i" "of_int i - 1 / 2 < m" by (simp_all add: abs_if split: if_splits)
  then have "\<lfloor>m\<rfloor> = i - 1" by (simp add: floor_eq_iff)
  with \<open>of_int i - 1 / 2 < m\<close> show ?thesis by (simp add: round_even_def Let_def)
qed

lemma round_even_of_int [simp]: "round_even (of_int i) = i"
  by (rule round_even_near) simp

lemma round_even_error: "\<bar>of_int (round_even m) - m\<bar> \<le> 1 / 2"
proof -
  have lo: "of_int \<lfloor>m\<rfloor> \<le> m" and hi: "m < of_int \<lfloor>m\<rfloor> + 1" by linarith+
  consider "m - of_int \<lfloor>m\<rfloor> < 1 / 2" | "1 / 2 < m - of_int \<lfloor>m\<rfloor>" | "m - of_int \<lfloor>m\<rfloor> = 1 / 2"
    by linarith
  then show ?thesis
  proof cases
    case 1 then show ?thesis using lo by (simp add: round_even_def Let_def)
  next
    case 2 then show ?thesis using hi by (simp add: round_even_def Let_def abs_if)
  next
    case 3 then show ?thesis by (simp add: round_even_def Let_def abs_if)
  qed
qed

lemma bitlen_bounds_rat:
  assumes "0 < (n::int)"
  shows "(2::rat) powi (bitlen n - 1) \<le> of_int n" and "of_int n < (2::rat) powi bitlen n"
proof -
  have b: "2 ^ nat (bitlen n - 1) \<le> n \<and> n < 2 ^ nat (bitlen n)"
    using assms by (rule bitlen_bounds)
  have "bitlen n \<noteq> 0" using assms by (simp add: bitlen_eq_zero_iff)
  then have pos: "1 \<le> bitlen n" using bitlen_nonneg [of n] by linarith
  have "(2::rat) powi (bitlen n - 1) = of_int (2 ^ nat (bitlen n - 1))"
    using pos by (simp add: power_int_def)
  also have "\<dots> \<le> of_int n" using b by (simp only: of_int_le_iff)
  finally show "(2::rat) powi (bitlen n - 1) \<le> of_int n" .
  have "of_int n < (of_int (2 ^ nat (bitlen n)) :: rat)" using b by (simp only: of_int_less_iff)
  also have "\<dots> = (2::rat) powi bitlen n" using pos by (simp add: power_int_def)
  finally show "of_int n < (2::rat) powi bitlen n" .
qed

lemma powi2_less_iff: "(2::rat) powi a < 2 powi b \<longleftrightarrow> a < b"
proof
  assume "(2::rat) powi a < 2 powi b"
  then show "a < b" using power_int_increasing [of b a "2::rat"] by force
qed (simp add: power_int_strict_increasing)

lemma ilog_bounds:
  assumes "0 < x"
  shows "2 powi ilog x \<le> x" and "x < 2 powi (ilog x + 1)"
proof -
  obtain n d where nd: "quotient_of x = (n, d)" by (cases "quotient_of x")
  have d: "0 < d" using nd by (rule quotient_of_denom_pos)
  have x: "x = of_int n / of_int d" using nd by (rule quotient_of_div)
  with assms d have n: "0 < n" by (simp add: zero_less_divide_iff)
  let ?k = "bitlen n - bitlen d"
  have dpos: "0 < (of_int d :: rat)" using d by simp
  have "x < 2 powi bitlen n / 2 powi (bitlen d - 1)"
    unfolding x using bitlen_bounds_rat [OF n] bitlen_bounds_rat [OF d] n dpos
    by (intro frac_less) auto
  also have "\<dots> = 2 powi (?k + 1)"
    by (simp add: power_int_diff [symmetric] algebra_simps)
  finally have hi: "x < 2 powi (?k + 1)" .
  have "2 powi (?k - 1) = 2 powi (bitlen n - 1) / (2::rat) powi bitlen d"
    by (simp add: power_int_diff [symmetric] algebra_simps)
  also have "\<dots> \<le> x"
    unfolding x using bitlen_bounds_rat [OF n] bitlen_bounds_rat [OF d] n dpos
    by (intro frac_le) auto
  finally have lo: "2 powi (?k - 1) \<le> x" .
  have e: "ilog x = (if 2 powi ?k \<le> x then ?k else ?k - 1)"
    by (simp add: ilog_def nd Let_def)
  show "2 powi ilog x \<le> x" using lo e by auto
  show "x < 2 powi (ilog x + 1)" using hi e by auto
qed

lemma ilog_eq:
  assumes "2 powi e \<le> x" and "x < 2 powi (e + 1)"
  shows "ilog x = e"
proof -
  have pos: "0 < x" using assms(1) by (rule less_le_trans [rotated]) simp
  note b = ilog_bounds [OF pos]
  have "2 powi e < (2::rat) powi (ilog x + 1)" using assms(1) b(2) by linarith
  then have 1: "e < ilog x + 1" by (simp only: powi2_less_iff)
  have "2 powi ilog x < (2::rat) powi (e + 1)" using assms(2) b(1) by linarith
  then have 2: "ilog x < e + 1" by (simp only: powi2_less_iff)
  from 1 2 show ?thesis by linarith
qed

lemma round_pos_absorb:
  assumes "\<bar>x - of_int k * 2 powi quantum fmt x\<bar> < 2 powi quantum fmt x / 2"
  shows "round_pos fmt x = of_int k * 2 powi quantum fmt x"
proof -
  let ?u = "(2::rat) powi quantum fmt x"
  have u: "0 < ?u" by simp
  have "x / ?u - of_int k = (x - of_int k * ?u) / ?u" by (simp add: diff_divide_distrib)
  then have "\<bar>x / ?u - of_int k\<bar> = \<bar>x - of_int k * ?u\<bar> / ?u" using abs_div_pos [OF u, of "x - of_int k * ?u"] by simp
  also have "\<dots> < 1 / 2" using assms by (subst pos_divide_less_eq [OF u]) linarith
  finally show ?thesis by (simp add: round_pos_def round_even_near)
qed

lemma round_pos_error: "\<bar>round_pos fmt x - x\<bar> \<le> 2 powi quantum fmt x / 2"
proof -
  let ?u = "(2::rat) powi quantum fmt x"
  have u: "0 < ?u" by simp
  have "round_pos fmt x - x = (of_int (round_even (x / ?u)) - x / ?u) * ?u"
    by (simp add: round_pos_def left_diff_distrib)
  then have "\<bar>round_pos fmt x - x\<bar> = \<bar>of_int (round_even (x / ?u)) - x / ?u\<bar> * ?u"
    using u by (simp add: abs_mult)
  also have "\<dots> \<le> 1 / 2 * ?u" using u round_even_error by (intro mult_right_mono) auto
  finally show ?thesis by simp
qed

lemma round_pos_exact:
  "x = of_int k * 2 powi quantum fmt x \<Longrightarrow> round_pos fmt x = x"
  using round_pos_absorb [of x k fmt] by simp

end
