(* ===== verification/Pcm.thy ===== *)
theory Pcm
  imports Go_Float
begin

text \<open>
  The sample primitives of package \<open>audio\<close>: conversion between \<open>float32\<close> and PCM16
  (convert.go), output gain (gain.go), linear resampling of a whole clip (resample.go) and the
  G.711 mu-law codec (mulaw.go). A PCM16 sample is a 16-bit word read as two's complement.
\<close>

subsection \<open>convert.go\<close>

definition clamp16 :: "go_float \<Rightarrow> go_float" where
  "clamp16 v = (if f_lt (Fin 32767) v then Fin 32767
                else if f_lt v (Fin (- 32768)) then Fin (- 32768) else v)"

definition floatToInt16 :: "f32 \<Rightarrow> i16" where
  "floatToInt16 s = word_of_int (f_to_int (clamp16 (f_mul float32 s (Fin 32767))))"

definition FloatToPCM16 :: "f32 list \<Rightarrow> i16 list" where
  "FloatToPCM16 samples = map floatToInt16 samples"

definition int16ToFloat :: "i16 \<Rightarrow> f32" where
  "int16ToFloat s = f_div float32 (f_of_int float32 (sint s)) (Fin 32767)"

definition PCM16ToFloat :: "i16 list \<Rightarrow> f32 list" where
  "PCM16ToFloat samples = map int16ToFloat samples"

subsection \<open>gain.go\<close>

text \<open>\<open>math.Pow(10, x)\<close> is the parameter \<open>pow10\<close>.\<close>

definition gain_sample :: "f64 \<Rightarrow> i16 \<Rightarrow> i16" where
  "gain_sample factor val =
     word_of_int (f_to_int (clamp16 (f_mul float64 (f_of_int float64 (sint val)) factor)))"

definition ApplyGainPCM16 :: "(f64 \<Rightarrow> f64) \<Rightarrow> i16 list \<Rightarrow> f32 \<Rightarrow> i16 list" where
  "ApplyGainPCM16 pow10 samples gainDb =
     (if f_eq gainDb (Fin 0) then samples
      else map (gain_sample (pow10 (f_div float64 (f_conv float64 gainDb) (Fin 20)))) samples)"

subsection \<open>resample.go\<close>

text \<open>
  \<open>None\<close> is a run-time panic: the division by a zero source rate, or \<open>make\<close> with a negative
  length. The loop body is one function of the index \<open>i\<close>.
\<close>

definition resample_len :: "nat \<Rightarrow> int \<Rightarrow> int \<Rightarrow> int option" where
  "resample_len n srcRate dstRate =
     (if srcRate = 0 then None
      else let outLen = go_div (int n * dstRate) srcRate in if outLen < 0 then None else Some outLen)"

definition resample_pos :: "int \<Rightarrow> int \<Rightarrow> nat \<Rightarrow> f64" where
  "resample_pos srcRate dstRate i =
     f_mul float64 (f_of_int float64 (int i))
       (f_div float64 (f_of_int float64 srcRate) (f_of_int float64 dstRate))"

definition ResampleInt16_at :: "i16 list \<Rightarrow> int \<Rightarrow> int \<Rightarrow> nat \<Rightarrow> i16" where
  "ResampleInt16_at samples srcRate dstRate i =
     (let pos = resample_pos srcRate dstRate i;
          idx = f_to_int pos;
          frac = f_sub float64 pos (f_of_int float64 idx)
      in if idx + 1 < int (length samples)
         then let s0 = f_of_int float64 (sint (samples ! nat idx));
                  s1 = f_of_int float64 (sint (samples ! nat (idx + 1)))
              in word_of_int (f_to_int
                   (f_add float64 (f_mul float64 s0 (f_sub float64 (Fin 1) frac)) (f_mul float64 s1 frac)))
         else if idx < int (length samples) then samples ! nat idx
         else 0)"

definition ResampleInt16 :: "i16 list \<Rightarrow> int \<Rightarrow> int \<Rightarrow> i16 list option" where
  "ResampleInt16 samples srcRate dstRate =
     (if srcRate = dstRate \<or> samples = [] then Some samples
      else case resample_len (length samples) srcRate dstRate of
        None \<Rightarrow> None
      | Some outLen \<Rightarrow> Some (map (ResampleInt16_at samples srcRate dstRate) [0..<nat outLen]))"

definition ResampleFloat32_at :: "f32 list \<Rightarrow> int \<Rightarrow> int \<Rightarrow> nat \<Rightarrow> f32" where
  "ResampleFloat32_at samples srcRate dstRate i =
     (let pos = resample_pos srcRate dstRate i;
          idx = f_to_int pos;
          frac = f_conv float32 (f_sub float64 pos (f_of_int float64 idx))
      in if idx + 1 < int (length samples)
         then f_add float32
                (f_mul float32 (samples ! nat idx) (f_sub float32 (Fin 1) frac))
                (f_mul float32 (samples ! nat (idx + 1)) frac)
         else if idx < int (length samples) then samples ! nat idx
         else Fin 0)"

definition ResampleFloat32 :: "f32 list \<Rightarrow> int \<Rightarrow> int \<Rightarrow> f32 list option" where
  "ResampleFloat32 samples srcRate dstRate =
     (if srcRate = dstRate \<or> samples = [] then Some samples
      else case resample_len (length samples) srcRate dstRate of
        None \<Rightarrow> None
      | Some outLen \<Rightarrow> Some (map (ResampleFloat32_at samples srcRate dstRate) [0..<nat outLen]))"

subsection \<open>mulaw.go\<close>

text \<open>
  The search for the exponent: the mask starts at \<open>0x4000\<close> and moves right while the sample has
  no bit under it and the exponent is positive.
\<close>

fun mulaw_exponent :: "i16 \<Rightarrow> i16 \<Rightarrow> nat \<Rightarrow> nat" where
  "mulaw_exponent sample msk 0 = 0"
| "mulaw_exponent sample msk (Suc e) =
     (if sample AND msk = 0 then mulaw_exponent sample (signed_drop_bit 1 msk) e else Suc e)"

definition EncodeMuLaw :: "i16 \<Rightarrow> byte" where
  "EncodeMuLaw sample0 =
     (let (sample1, sign) = (if sample0 <s 0 then (- sample0, 0x80) else (sample0, 0 :: i16));
          sample2 = (if 32635 <s sample1 then 32635 else sample1);
          sample3 = sample2 + 132;
          exponent = mulaw_exponent sample3 0x4000 7;
          mantissa = signed_drop_bit (exponent + 3) sample3 AND 0x0F;
          muVal = (ucast (sign OR push_bit 4 (word_of_nat exponent) OR mantissa) :: byte)
      in NOT muVal)"

definition DecodeMuLaw :: "byte \<Rightarrow> i16" where
  "DecodeMuLaw muVal0 =
     (let muVal = NOT muVal0;
          sign = muVal AND 0x80;
          exponent = drop_bit 4 muVal AND 0x07;
          mantissa = muVal AND 0x0F;
          sample = (push_bit (unat exponent) (push_bit 3 (ucast mantissa) + 132) :: 32 word)
      in if sign \<noteq> 0 then ucast (132 - sample) else ucast (sample - 132))"

definition EncodePCM16ToMuLaw :: "i16 list \<Rightarrow> int \<Rightarrow> byte list option" where
  "EncodePCM16ToMuLaw pcm16 sourceRate =
     map_option (map EncodeMuLaw) (ResampleInt16 pcm16 sourceRate 8000)"

definition DecodeMuLawToFloat :: "byte list \<Rightarrow> f32 list" where
  "DecodeMuLawToFloat data =
     map (\<lambda>b. f_div float32 (f_of_int float32 (sint (DecodeMuLaw b))) (Fin 32767)) data"

subsection \<open>Lengths and rates\<close>

lemma length_FloatToPCM16 [simp]: "length (FloatToPCM16 xs) = length xs"
  by (simp add: FloatToPCM16_def)

lemma length_PCM16ToFloat [simp]: "length (PCM16ToFloat xs) = length xs"
  by (simp add: PCM16ToFloat_def)

lemma length_ApplyGainPCM16 [simp]: "length (ApplyGainPCM16 p xs g) = length xs"
  by (simp add: ApplyGainPCM16_def)

lemma ResampleInt16_same [simp]: "ResampleInt16 xs r r = Some xs"
  by (simp add: ResampleInt16_def)

lemma ResampleFloat32_same [simp]: "ResampleFloat32 xs r r = Some xs"
  by (simp add: ResampleFloat32_def)

lemma resample_len_pos:
  assumes "0 < srcRate" and "0 < dstRate"
  shows "resample_len n srcRate dstRate = Some (int n * dstRate div srcRate)"
  using assms by (simp add: resample_len_def Let_def div_int_pos_iff not_less pos_imp_zdiv_nonneg_iff)

lemma ResampleInt16_length:
  assumes "0 < srcRate" and "0 < dstRate"
  shows "\<exists>ys. ResampleInt16 xs srcRate dstRate = Some ys \<and>
              length ys = nat (int (length xs) * dstRate div srcRate)"
  using assms by (auto simp: ResampleInt16_def resample_len_pos)

subsection \<open>A sample survives the way to float32 and back\<close>

text \<open>
  In the format \<open>float32\<close> the quantum of a number of exponent \<open>k\<close> is \<open>2 powi (k - 23)\<close> in the
  normal range. With \<open>P = 2 powi k\<close> all the bounds below are linear in \<open>P\<close>.
\<close>

lemma quantum32:
  assumes "2 powi k \<le> x" and "x < 2 * 2 powi k" and "- 126 \<le> k"
  shows "quantum float32 x = k - 23"
proof -
  have "ilog x = k" using assms(1,2) by (intro ilog_eq) (simp_all add: power_int_add_1)
  with assms(3) show ?thesis by (simp add: quantum_def float32_def)
qed

lemma powi2_scale:
  "(2::rat) powi (k - 15) = 2 powi k / 32768" "(2::rat) powi (k - 38) = 2 powi k / 274877906944"
  "(2::rat) powi (k - 23) = 2 powi k / 8388608" "(2::rat) powi (k - 24) = 2 powi k / 16777216"
  "(2::rat) powi (k - 1) = 2 powi k / 2"
  by (simp_all add: power_int_diff)

lemma nat_scale:
  assumes "0 \<le> k" and "k \<le> c"
  shows "\<exists>m. (of_int n :: rat) = of_int m * 2 powi (k - c)"
proof -
  have "(2::rat) powi (c - k) * 2 powi (k - c) = 1"
    by (metis add.right_neutral add_diff_cancel_left' diff_add_cancel power_int_0_right power_int_add
        uminus_add_conv_diff zero_neq_numeral add_diff_eq diff_self)
  moreover have "(2::rat) powi (c - k) = of_int (2 ^ nat (c - k))"
    using assms by (simp add: power_int_def)
  ultimately have "(of_int n :: rat) = of_int (n * 2 ^ nat (c - k)) * 2 powi (k - c)"
    by (simp add: mult.assoc)
  then show ?thesis by blast
qed

lemma int_exponent:
  assumes "1 \<le> (n::int)" and "n < 65536"
  obtains k where "0 \<le> k" and "k \<le> 15" and "(2::rat) powi k \<le> of_int n" and "of_int n < (2::rat) * 2 powi k"
proof -
  have pos: "0 < (of_int n :: rat)" using assms by simp
  note b = ilog_bounds [OF pos]
  have "(2::rat) powi (ilog (of_int n) + 1) = 2 * 2 powi ilog (of_int n)" by (simp add: power_int_add_1)
  moreover have "0 \<le> ilog (of_int n)"
  proof (rule ccontr)
    assume "\<not> 0 \<le> ilog (of_int n)"
    then have "ilog (of_int n) + 1 \<le> 0" by simp
    then have "(2::rat) powi (ilog (of_int n) + 1) \<le> 2 powi 0" by (intro power_int_increasing) auto
    with b(2) have "(of_int n :: rat) < of_int 1" by simp
    then show False using assms(1) by (simp only: of_int_less_iff)
  qed
  moreover have "ilog (of_int n) \<le> 15"
  proof (rule ccontr)
    assume "\<not> ilog (of_int n) \<le> 15"
    then have "(2::rat) powi 16 \<le> 2 powi ilog (of_int n)" by (intro power_int_increasing) auto
    moreover have "(of_int n :: rat) < of_int 65536" using assms(2) by (simp only: of_int_less_iff)
    ultimately show False using b(1) by simp
  qed
  ultimately show ?thesis using b that [of "ilog (of_int n)"] by simp
qed

lemma round32_int:
  assumes "1 \<le> n" and "n < 65536"
  shows "round_pos float32 (of_int n) = of_int n"
proof -
  obtain k where k: "0 \<le> k" "k \<le> 15" "(2::rat) powi k \<le> of_int n" "of_int n < (2::rat) * 2 powi k"
    using assms by (rule int_exponent)
  have q: "quantum float32 (of_int n) = k - 23" using k by (intro quantum32) auto
  obtain m where "(of_int n :: rat) = of_int m * 2 powi (k - 23)" using nat_scale [of k 23 n] k by auto
  with q show ?thesis by (intro round_pos_exact [of _ m]) simp
qed

lemma round32_pow_over_32767:
  assumes "0 \<le> k"
  shows "round_pos float32 (2 powi k / 32767) = 8388864 * 2 powi (k - 38)"
proof -
  let ?P = "(2::rat) powi k"
  have P: "0 < ?P" by simp
  have q: "quantum float32 (?P / 32767) = k - 38"
    using quantum32 [of "k - 15" "?P / 32767"] assms P by (simp add: powi2_scale)
  have "\<bar>?P / 32767 - of_int 8388864 * 2 powi (k - 38)\<bar> < 2 powi (k - 38) / 2"
    using P by (simp add: powi2_scale abs_less_iff)
  then show ?thesis using round_pos_absorb [of "?P / 32767" 8388864 float32] q by simp
qed

text \<open>A power of two: the quotient is one of a fixed pattern, and the product is absorbed by the rounding.\<close>

lemma round32_div_mul_pow:
  assumes k: "0 \<le> k" "k \<le> 15" and n: "of_int n = (2::rat) powi k"
  shows "round_pos float32 (round_pos float32 (of_int n / 32767) * 32767) = of_int n"
proof -
  let ?P = "(2::rat) powi k" and ?r = "round_pos float32 (of_int n / 32767 :: rat)"
  let ?y = "?r * 32767"
  have P: "0 < ?P" by simp
  have r: "?r = 8388864 * 2 powi (k - 38)" using round32_pow_over_32767 [OF k(1)] n by simp
  have y: "?y = ?P * 1073741823 / 1073741824" unfolding r powi2_scale by simp
  have "quantum float32 ?y = (k - 1) - 23"
    using P k unfolding y by (intro quantum32) (simp_all add: powi2_scale)
  moreover obtain m where "(of_int n :: rat) = of_int m * 2 powi (k - 24)"
    using nat_scale [of k 24 n] k by auto
  moreover have "?y - of_int n = - (?P / 1073741824)" unfolding y using n by simp
  then have "\<bar>?y - of_int n\<bar> < 2 powi (k - 24) / 2"
    using P unfolding powi2_scale by simp
  ultimately show ?thesis using round_pos_absorb [of ?y m float32] by simp
qed

text \<open>Between two powers of two: the error of the quotient, scaled up, is below half a unit of the product.\<close>

lemma round32_div_mul_mid:
  fixes n :: int and k :: int
  defines "P \<equiv> (2::rat) powi k"
  assumes k: "0 \<le> k" "k \<le> 15" and P4: "P \<le> 16384" and lo: "P \<le> of_int n"
    and n1: "P + 1 \<le> of_int n" and n2: "of_int n \<le> 2 * P - 1" and x2: "of_int n / 32767 < 2 * (P / 32768)"
  shows "round_pos float32 (round_pos float32 (of_int n / 32767) * 32767) = of_int n"
proof -
  let ?x = "(of_int n :: rat) / 32767"
  let ?r = "round_pos float32 ?x"
  let ?y = "?r * 32767"
  have P: "0 < P" by (simp add: P_def)
  have q: "quantum float32 ?x = k - 38"
    using quantum32 [of "k - 15" ?x] x2 lo k unfolding P_def by (simp add: powi2_scale)
  have "\<bar>?r - ?x\<bar> \<le> 2 powi (k - 38) / 2" using round_pos_error [of float32 ?x] q by simp
  moreover have "\<bar>?r * 32767 - of_int n\<bar> = \<bar>?r - ?x\<bar> * 32767"
    using abs_mult [of "?r - ?x" 32767] by (simp add: left_diff_distrib)
  ultimately have r: "\<bar>?r * 32767 - of_int n\<bar> \<le> P * 32767 / 549755813888"
    unfolding powi2_scale P_def by linarith
  have "\<bar>?y - of_int n\<bar> < 1" using r P4 P by linarith
  then have "P \<le> ?y" "?y < 2 * P" using n1 n2 by linarith+
  then have "quantum float32 ?y = k - 23" using k unfolding P_def by (intro quantum32) simp_all
  moreover obtain m where "(of_int n :: rat) = of_int m * 2 powi (k - 23)"
    using nat_scale [of k 23 n] k by auto
  moreover have "\<bar>?y - of_int n\<bar> < 2 powi (k - 23) / 2"
    using r P unfolding powi2_scale P_def by linarith
  ultimately show ?thesis using round_pos_absorb [of ?y m float32] by simp
qed

lemma round32_div_mul:
  assumes "1 \<le> n" and "n \<le> 32768"
  shows "round_pos float32 (round_pos float32 (of_int n / 32767) * 32767) = of_int n"
proof -
  obtain k where k: "0 \<le> k" "k \<le> 15" and lo: "(2::rat) powi k \<le> of_int n"
    and hi: "of_int n < (2::rat) * 2 powi k"
    using assms by (auto intro: int_exponent [of n])
  let ?P = "(2::rat) powi k" and ?x = "(of_int n :: rat) / 32767"
  define p :: int where "p = 2 ^ nat k"
  have Pp: "?P = of_int p" using k by (simp add: power_int_def p_def)
  have "(of_int n :: rat) < of_int (2 * p)" using hi Pp by simp
  then have pn: "p \<le> n" "n < 2 * p" "1 \<le> p"
    using lo unfolding Pp by (simp_all only: of_int_le_iff of_int_less_iff)
  have p_le: "p \<le> 16384 \<or> p = 32768"
  proof (cases "k = 15")
    case False
    with k have "nat k \<le> 14" by simp
    then have "p \<le> 2 ^ 14" unfolding p_def by (intro power_increasing) auto
    then show ?thesis by simp
  qed (simp add: p_def)
  consider (top) "n = 32767" | (pow) "n = p" | (mid) "n \<le> 32766" "p + 1 \<le> n" "p \<le> 16384"
    using pn p_le assms(2) by linarith
  then show ?thesis
  proof cases
    case top
    have "?x = 1" using top by simp
    moreover have "round_pos float32 1 = 1" using round32_int [of 1] by simp
    ultimately show ?thesis using top round32_int [of 32767] by simp
  next
    case pow
    then show ?thesis using Pp by (intro round32_div_mul_pow [OF k]) simp
  next
    case mid
    have "(of_int (p + 1) :: rat) \<le> of_int n" using mid(2) by (simp only: of_int_le_iff)
    then have n1: "?P + 1 \<le> of_int n" using Pp by simp
    have "(of_int n :: rat) \<le> of_int (2 * p - 1)" using pn(2) by (simp only: of_int_le_iff)
    then have n2: "of_int n \<le> 2 * ?P - 1" using Pp by simp
    have "32768 * n < 32767 * (2 * p)" using mid pn by linarith
    then have "(of_int (32768 * n) :: rat) < of_int (32767 * (2 * p))" by (simp only: of_int_less_iff)
    then have x2: "?x < 2 * (?P / 32768)" using Pp by simp
    have "(of_int p :: rat) \<le> of_int 16384" using mid(3) by (simp only: of_int_le_iff)
    then show ?thesis using Pp by (intro round32_div_mul_mid [OF k _ lo n1 n2 x2]) simp
  qed
qed

text \<open>The finite values that occur are far below the overflow threshold of \<open>float32\<close>.\<close>

lemma fround32_pos:
  "0 < x \<Longrightarrow> round_pos float32 x < 2 powi 128 \<Longrightarrow> fround float32 x = Fin (round_pos float32 x)"
  by (simp add: fround_def float32_def Let_def)

lemma fround_minus:
  "fround fmt (- x) = f_neg (fround fmt x)"
  by (simp add: fround_def Let_def)

lemma fround32_int:
  assumes "\<bar>n\<bar> < 65536"
  shows "fround float32 (of_int n) = Fin (of_int n)"
proof -
  have pos: "fround float32 (of_int m) = Fin (of_int m)" if "1 \<le> m" "m < 65536" for m
  proof -
    have "(of_int m :: rat) < of_int 65536" using that(2) by (simp only: of_int_less_iff)
    then have "(of_int m :: rat) < 2 powi 128" by simp
    then show ?thesis using that round32_int [OF that] by (simp add: fround32_pos)
  qed
  consider "n = 0" | "1 \<le> n" | "1 \<le> - n" by linarith
  then show ?thesis
  proof cases
    case 1 then show ?thesis by (simp add: fround_def)
  next
    case 2 then show ?thesis using pos assms by simp
  next
    case 3
    then have "fround float32 (of_int (- n)) = Fin (of_int (- n))" using pos [of "- n"] assms by simp
    then show ?thesis using fround_minus [of float32 "of_int (- n)"] by simp
  qed
qed

lemma fround32_div_mul:
  assumes "1 \<le> n" and "n \<le> 32768"
  shows "f_mul float32 (fround float32 (of_int n / 32767)) (Fin 32767) = Fin (of_int n)"
proof -
  have n: "(of_int n :: rat) \<le> of_int 32768" "(1::rat) \<le> of_int n"
    using assms by (simp_all only: of_int_le_iff of_int_1_le_iff)
  have e: "\<bar>round_pos float32 (of_int n / 32767) - of_int n / 32767\<bar> \<le> 1"
  proof -
    let ?x = "(of_int n :: rat) / 32767"
    have "ilog ?x \<le> 1"
    proof (rule ccontr)
      assume "\<not> ilog ?x \<le> 1"
      then have "(2::rat) powi 2 \<le> 2 powi ilog ?x" by (intro power_int_increasing) auto
      moreover have "2 powi ilog ?x \<le> ?x" using n by (intro ilog_bounds) simp
      ultimately show False using n by simp
    qed
    then have "quantum float32 ?x \<le> 1" by (simp add: quantum_def float32_def)
    then have "(2::rat) powi quantum float32 ?x \<le> 2 powi 1" by (intro power_int_increasing) auto
    then show ?thesis using round_pos_error [of float32 ?x] by simp
  qed
  then have "round_pos float32 (of_int n / 32767) < 2 powi 128" using n by (simp add: abs_le_iff)
  then have r: "fround float32 (of_int n / 32767) = Fin (round_pos float32 (of_int n / 32767))"
    using n by (intro fround32_pos) simp_all
  have v: "round_pos float32 (round_pos float32 (of_int n / 32767) * 32767) = of_int n"
    using assms by (rule round32_div_mul)
  have "0 < round_pos float32 (of_int n / 32767)"
  proof (rule ccontr)
    assume "\<not> ?thesis"
    then have "round_pos float32 (of_int n / 32767) \<le> 0" by simp
    moreover have "0 \<le> round_pos float32 (of_int n / 32767)"
    proof -
      have "0 \<le> round_even (of_int n / 32767 / 2 powi quantum float32 (of_int n / 32767))"
        using n by (simp add: round_even_def Let_def)
      then show ?thesis by (simp add: round_pos_def)
    qed
    ultimately have "round_pos float32 (of_int n / 32767) = 0" by simp
    then have "of_int n = round_pos float32 (0 :: rat)" using v by simp
    then show False using n by (simp add: round_pos_def round_even_def)
  qed
  then show ?thesis unfolding r using v n by (simp add: fround32_pos)
qed

lemma int_float32_round_trip:
  assumes "- 32768 \<le> n" and "n \<le> 32767"
  shows "f_mul float32 (f_div float32 (f_of_int float32 n) (Fin 32767)) (Fin 32767) = Fin (of_int n)"
proof -
  have i: "f_div float32 (f_of_int float32 n) (Fin 32767) = fround float32 (of_int n / 32767)"
    using assms by (simp add: f_of_int_def fround32_int)
  consider "1 \<le> n" | "n = 0" | "1 \<le> - n" by linarith
  then show ?thesis
  proof cases
    case 1
    then show ?thesis unfolding i using assms by (intro fround32_div_mul) simp_all
  next
    case 2
    then show ?thesis unfolding i by (simp add: fround_def)
  next
    case 3
    have neg: "f_mul float32 (f_neg a) (Fin 32767) = f_neg (f_mul float32 a (Fin 32767))" for a
      by (cases a) (simp_all add: fround_minus [symmetric] f_inf_def)
    have "fround float32 (of_int n / 32767) = f_neg (fround float32 (of_int (- n) / 32767))"
      by (simp add: fround_minus [symmetric])
    moreover have "f_mul float32 (fround float32 (of_int (- n) / 32767)) (Fin 32767) = Fin (of_int (- n))"
      using 3 assms by (intro fround32_div_mul) simp_all
    ultimately show ?thesis unfolding i using neg by simp
  qed
qed

lemma clamp16_int:
  assumes "- 32768 \<le> n" and "n \<le> 32767"
  shows "clamp16 (Fin (of_int n)) = Fin (of_int n)"
proof -
  have "(of_int n :: rat) \<le> of_int 32767" "of_int (- 32768) \<le> (of_int n :: rat)"
    using assms by (simp_all only: of_int_le_iff)
  then show ?thesis by (simp add: clamp16_def)
qed

lemma sint16_range: "- 32768 \<le> sint (s :: i16)" "sint (s :: i16) \<le> 32767"
  using sint_range_size [of s] by (simp_all add: word_size)

lemma floatToInt16_int16ToFloat: "floatToInt16 (int16ToFloat s) = s"
proof -
  have "f_mul float32 (int16ToFloat s) (Fin 32767) = Fin (of_int (sint s))"
    unfolding int16ToFloat_def using sint16_range by (rule int_float32_round_trip)
  then have "floatToInt16 (int16ToFloat s) = word_of_int (f_to_int (Fin (of_int (sint s))))"
    using clamp16_int [OF sint16_range, of s] by (simp only: floatToInt16_def)
  also have "\<dots> = s" by (simp only: f_to_int.simps trunc_of_int scast_eq [symmetric] scast_id)
  finally show ?thesis .
qed

lemma clamp16_trunc_range:
  "- 32768 \<le> f_to_int (clamp16 v) \<and> f_to_int (clamp16 v) \<le> 32767"
proof (cases v)
  case (Fin x)
  have c: "clamp16 (Fin x) = Fin (max (- 32768) (min 32767 x))" by (simp add: clamp16_def max_def min_def)
  show ?thesis unfolding Fin c by (auto intro!: trunc_le trunc_ge)
qed (simp_all add: clamp16_def trunc_def)

lemma sint_word_of_int16: "- 32768 \<le> i \<Longrightarrow> i \<le> 32767 \<Longrightarrow> sint (word_of_int i :: i16) = i"
  by (simp add: sint_sbintrunc' signed_take_bit_int_eq_self)

subsection \<open>Round trips\<close>

text \<open>16-bit samples survive the conversion to float32 and back, every one of the 65536 values.\<close>

theorem pcm_float_round_trip: "FloatToPCM16 (PCM16ToFloat xs) = xs"
proof -
  have "map (floatToInt16 \<circ> int16ToFloat) xs = xs"
    by (rule map_idI) (simp add: floatToInt16_int16ToFloat)
  then show ?thesis by (simp add: FloatToPCM16_def PCM16ToFloat_def)
qed

lemma mulaw_all_bytes:
  "list_all (\<lambda>n. let b = word_of_nat n in EncodeMuLaw (DecodeMuLaw b) = (if b = 0x7F then 0xFF else b)) [0..<256]"
  by code_simp

lemma byte_cases:
  assumes "list_all (\<lambda>n. P (word_of_nat n)) [0..<256]"
  shows "P (b :: byte)"
proof -
  have "unat b \<in> set [0..<256]" using unsigned_less [of b] by simp
  moreover have "\<forall>n \<in> set [0..<256]. P (word_of_nat n)" using assms by (simp only: list_all_iff)
  ultimately have "P (word_of_nat (unat b))" by blast
  then show ?thesis by simp
qed

lemma mulaw_min: "DecodeMuLaw (EncodeMuLaw (- 32768)) = 0"
  by code_simp

text \<open>C24: Every mu-law byte is the code of the sample it stands for, the byte of negative zero aside, which
  becomes the one of positive zero. The most negative sample is not clipped: its negation wraps, and it is
  encoded as silence.\<close>

theorem mulaw_round_trip:
  "EncodeMuLaw (DecodeMuLaw b) = (if b = 0x7F then 0xFF else b) \<and> DecodeMuLaw (EncodeMuLaw (- 32768)) = 0"
  using byte_cases [of "\<lambda>b. EncodeMuLaw (DecodeMuLaw b) = (if b = 0x7F then 0xFF else b)" b]
    mulaw_all_bytes mulaw_min by (simp add: Let_def)

end
