(* ===== verification/Audio_Source.thy ===== *)
theory Audio_Source
  imports Pcm
begin

text \<open>
  The pull-based source of PCM audio every player reads from (\<open>PCM16Source\<close> in
  internal/audionode/audionode.go), its contract as a locale, the sources that wrap other sources
  (\<open>SliceSource\<close>, \<open>promptSource\<close> of internal/ask/prompt.go, \<open>gainSource\<close> of internal/brain/brain.go)
  and two consumers (\<open>Stub\<close> of internal/audionode/stub.go, \<open>readAllSamples\<close> of
  internal/brain/brain.go). A consumer sees its context as the sequence of the answers of
  \<open>ctx.Err()\<close>, one per turn of its loop.
\<close>

type_synonym 's reader = "ctx_err \<Rightarrow> int \<Rightarrow> 's \<Rightarrow> (i16 list \<times> go_error option) \<times> 's"

text \<open>
  \<open>rest s\<close> is the audio the source still has to give. A read with a live context gives a non-empty
  part of it, or its end; a read with a dead context gives nothing and takes nothing.
\<close>

locale pcm_source =
  fixes read :: "'s reader"
    and rest :: "'s \<Rightarrow> i16 list"
    and ok :: "'s \<Rightarrow> bool"
  assumes read_live: "ok s \<Longrightarrow> 0 < n \<Longrightarrow> read None n s = ((c, e), s') \<Longrightarrow>
      ok s' \<and> rest s = c @ rest s' \<and> int (length c) \<le> n \<and>
      (e = None \<and> c \<noteq> [] \<or> e = Some Io_EOF \<and> rest s' = [])"
    and read_dead: "ok s \<Longrightarrow> err \<noteq> Io_EOF \<Longrightarrow> read (Some err) n s = (([], Some err), s)"
begin

lemma read_shrinks:
  assumes "ok s" and "0 < n" and "read None n s = ((c, None), s')"
  shows "length (rest s') < length (rest s)"
  using read_live [OF assms] by auto

end

subsection \<open>SliceSource\<close>

record slice_source =
  ss_samples :: "i16 list"
  ss_rate :: int
  ss_offset :: nat

definition NewSliceSource :: "i16 list \<Rightarrow> int \<Rightarrow> slice_source" where
  "NewSliceSource samples rate = \<lparr>ss_samples = samples, ss_rate = rate, ss_offset = 0\<rparr>"

definition slice_ReadPCM16 :: "slice_source reader" where
  "slice_ReadPCM16 cerr n s =
     (case cerr of
        Some err \<Rightarrow> (([], Some err), s)
      | None \<Rightarrow>
          if n \<le> 0 then (([], Some (Msg ''chunk size must be positive'')), s)
          else if ss_offset s = length (ss_samples s) then (([], Some Io_EOF), s)
          else let end' = min (length (ss_samples s)) (ss_offset s + nat n)
               in ((drop (ss_offset s) (take end' (ss_samples s)), None), s\<lparr>ss_offset := end'\<rparr>))"

definition slice_rest :: "slice_source \<Rightarrow> i16 list" where
  "slice_rest s = drop (ss_offset s) (ss_samples s)"

definition slice_ok :: "slice_source \<Rightarrow> bool" where
  "slice_ok s \<longleftrightarrow> ss_offset s \<le> length (ss_samples s)"

lemma slice_step:
  assumes "i \<le> j" and "j \<le> length xs"
  shows "drop i xs = drop i (take j xs) @ drop j xs"
proof -
  have "drop i xs = drop i (take j xs @ drop j xs)" by simp
  also have "\<dots> = drop i (take j xs) @ drop j xs" using assms by (simp only: drop_append) simp
  finally show ?thesis .
qed

interpretation slice: pcm_source slice_ReadPCM16 slice_rest slice_ok
proof unfold_locales
  fix s s' :: slice_source and n :: int and c e
  assume ok: "slice_ok s" and n: "0 < n" and r: "slice_ReadPCM16 None n s = ((c, e), s')"
  show "slice_ok s' \<and> slice_rest s = c @ slice_rest s' \<and> int (length c) \<le> n \<and>
      (e = None \<and> c \<noteq> [] \<or> e = Some Io_EOF \<and> slice_rest s' = [])"
  proof (cases "ss_offset s = length (ss_samples s)")
    case True
    then show ?thesis using ok n r by (auto simp: slice_ReadPCM16_def slice_rest_def)
  next
    case False
    then have lt: "ss_offset s < length (ss_samples s)" using ok by (simp add: slice_ok_def)
    let ?e = "min (length (ss_samples s)) (ss_offset s + nat n)"
    have le: "ss_offset s < ?e" "?e \<le> length (ss_samples s)" using lt n by simp_all
    have r: "c = drop (ss_offset s) (take ?e (ss_samples s))" "e = None" "s' = s\<lparr>ss_offset := ?e\<rparr>"
      using r n False by (auto simp: slice_ReadPCM16_def Let_def)
    have len: "length c = ?e - ss_offset s" unfolding r(1) by simp
    have "slice_rest s = c @ slice_rest s'"
      unfolding slice_rest_def r(1,3) using slice_step [of "ss_offset s" ?e "ss_samples s"] le by simp
    moreover have "c \<noteq> []" "int (length c) \<le> n" using len le n by auto
    moreover have "slice_ok s'" using r(3) by (simp add: slice_ok_def)
    ultimately show ?thesis using r(2) by blast
  qed
next
  show "slice_ReadPCM16 (Some err) n s = (([], Some err), s)" for err n s
    by (simp add: slice_ReadPCM16_def)
qed

subsection \<open>gainSource\<close>

definition gain_ReadPCM16 :: "(f64 \<Rightarrow> f64) \<Rightarrow> f32 \<Rightarrow> 's reader \<Rightarrow> 's reader" where
  "gain_ReadPCM16 pow10 gainDb read cerr n s =
     (case read cerr n s of
        ((chunk, e), s') \<Rightarrow> ((if chunk \<noteq> [] then ApplyGainPCM16 pow10 chunk gainDb else chunk, e), s'))"

lemma ApplyGainPCM16_Nil [simp]: "ApplyGainPCM16 pow10 [] g = []"
  by (simp add: ApplyGainPCM16_def)

lemma ApplyGainPCM16_append:
  "ApplyGainPCM16 pow10 (xs @ ys) g = ApplyGainPCM16 pow10 xs g @ ApplyGainPCM16 pow10 ys g"
  by (simp add: ApplyGainPCM16_def)

lemma ApplyGainPCM16_eq_Nil [simp]: "ApplyGainPCM16 pow10 xs g = [] \<longleftrightarrow> xs = []"
  by (simp add: ApplyGainPCM16_def)

text \<open>A source behind a gain is a source again.\<close>

locale gained_source = pcm_source +
  fixes pow10 :: "f64 \<Rightarrow> f64" and gainDb :: f32
begin

lemma gain_source:
  "pcm_source (gain_ReadPCM16 pow10 gainDb read) (\<lambda>s. ApplyGainPCM16 pow10 (rest s) gainDb) ok"
proof unfold_locales
  fix s s' and n :: int and c e
  assume ok: "ok s" and n: "0 < n" and r: "gain_ReadPCM16 pow10 gainDb read None n s = ((c, e), s')"
  obtain c0 where c0: "read None n s = ((c0, e), s')" "c = ApplyGainPCM16 pow10 c0 gainDb"
    using r by (auto simp: gain_ReadPCM16_def split: prod.splits if_splits)
  then show "ok s' \<and> ApplyGainPCM16 pow10 (rest s) gainDb = c @ ApplyGainPCM16 pow10 (rest s') gainDb \<and>
      int (length c) \<le> n \<and> (e = None \<and> c \<noteq> [] \<or> e = Some Io_EOF \<and> ApplyGainPCM16 pow10 (rest s') gainDb = [])"
    using read_live [OF ok n c0(1)] by (auto simp: ApplyGainPCM16_append)
qed (simp add: gain_ReadPCM16_def read_dead)

end

sublocale gained_source \<subseteq> gain: pcm_source "gain_ReadPCM16 pow10 gainDb read"
  "\<lambda>s. ApplyGainPCM16 pow10 (rest s) gainDb" ok
  by (rule gain_source)

interpretation gained_slice: gained_source slice_ReadPCM16 slice_rest slice_ok pow10 gainDb
  for pow10 :: "f64 \<Rightarrow> f64" and gainDb :: f32
  by unfold_locales

subsection \<open>promptSource\<close>

record 's prompt_source =
  ps_prompt :: 's
  ps_tail :: slice_source
  ps_ended :: bool

definition prompt_ReadPCM16 :: "'s reader \<Rightarrow> 's prompt_source reader" where
  "prompt_ReadPCM16 read cerr n s =
     (let tail = (\<lambda>s. case slice_ReadPCM16 cerr n (ps_tail s) of (r, t) \<Rightarrow> (r, s\<lparr>ps_tail := t\<rparr>))
      in if \<not> ps_ended s then
           (case read cerr n (ps_prompt s) of
              ((pcm, e), p) \<Rightarrow>
                if e \<noteq> Some Io_EOF then ((pcm, e), s\<lparr>ps_prompt := p\<rparr>)
                else if pcm \<noteq> [] then ((pcm, None), s\<lparr>ps_prompt := p, ps_ended := True\<rparr>)
                else tail (s\<lparr>ps_prompt := p, ps_ended := True\<rparr>))
         else tail s)"

definition prompt_rest :: "('s \<Rightarrow> i16 list) \<Rightarrow> 's prompt_source \<Rightarrow> i16 list" where
  "prompt_rest rest s = (if ps_ended s then [] else rest (ps_prompt s)) @ slice_rest (ps_tail s)"

definition prompt_ok :: "('s \<Rightarrow> bool) \<Rightarrow> 's prompt_source \<Rightarrow> bool" where
  "prompt_ok ok s \<longleftrightarrow> ok (ps_prompt s) \<and> slice_ok (ps_tail s)"

text \<open>A prompt followed by a clip is a source of the one and then of the other.\<close>

locale prompted_source = pcm_source
begin

lemma prompt_source: "pcm_source (prompt_ReadPCM16 read) (prompt_rest rest) (prompt_ok ok)"
proof unfold_locales
  fix s s' and n :: int and c e
  assume ok: "prompt_ok ok s" and n: "0 < n" and r: "prompt_ReadPCM16 read None n s = ((c, e), s')"
  obtain c1 e1 t where t: "slice_ReadPCM16 None n (ps_tail s) = ((c1, e1), t)" by (metis surj_pair)
  have ot: "slice_ok (ps_tail s)" using ok by (simp add: prompt_ok_def)
  note tail = slice.read_live [OF ot n t]
  obtain c0 e0 p where p: "read None n (ps_prompt s) = ((c0, e0), p)" by (metis surj_pair)
  have op: "ok (ps_prompt s)" using ok by (simp add: prompt_ok_def)
  note main = read_live [OF op n p]
  show "prompt_ok ok s' \<and> prompt_rest rest s = c @ prompt_rest rest s' \<and> int (length c) \<le> n \<and>
      (e = None \<and> c \<noteq> [] \<or> e = Some Io_EOF \<and> prompt_rest rest s' = [])"
  proof (cases "ps_ended s")
    case True
    then have "(c, e) = (c1, e1)" "s' = s\<lparr>ps_tail := t\<rparr>" using r t by (auto simp: prompt_ReadPCM16_def Let_def)
    then show ?thesis using tail True op by (auto simp: prompt_ok_def prompt_rest_def)
  next
    case False
    consider (more) "e0 = None" | (last) "e0 = Some Io_EOF" "c0 \<noteq> []" | (tail) "e0 = Some Io_EOF" "c0 = []"
      using main by auto
    then show ?thesis
    proof cases
      case more
      then have "(c, e) = (c0, e0)" "s' = s\<lparr>ps_prompt := p\<rparr>" using r p False by (auto simp: prompt_ReadPCM16_def)
      then show ?thesis using main ot False more by (auto simp: prompt_ok_def prompt_rest_def)
    next
      case last
      then have "(c, e) = (c0, None)" "s' = s\<lparr>ps_prompt := p, ps_ended := True\<rparr>"
        using r p False by (auto simp: prompt_ReadPCM16_def)
      then show ?thesis using main ot False last by (auto simp: prompt_ok_def prompt_rest_def)
    next
      case tail
      then have "(c, e) = (c1, e1)" "s' = s\<lparr>ps_prompt := p, ps_ended := True, ps_tail := t\<rparr>"
        using r p t False by (auto simp: prompt_ReadPCM16_def Let_def)
      then show ?thesis using main \<open>slice_ok t \<and> _\<close> False tail
        by (auto simp: prompt_ok_def prompt_rest_def)
    qed
  qed
next
  show "prompt_ReadPCM16 read (Some err) n s = (([], Some err), s)"
    if "prompt_ok ok s" "err \<noteq> Io_EOF" for err n s
    using that read_dead [of "ps_prompt s" err n]
    by (auto simp: prompt_ReadPCM16_def prompt_ok_def slice_ReadPCM16_def Let_def)
qed

end

sublocale prompted_source \<subseteq> prompted: pcm_source "prompt_ReadPCM16 read" "prompt_rest rest" "prompt_ok ok"
  by (rule prompt_source)

interpretation prompted_slice: prompted_source slice_ReadPCM16 slice_rest slice_ok
  by unfold_locales

subsection \<open>Consumers\<close>

text \<open>
  \<open>ctx i\<close> is what the context answers in turn \<open>i\<close> of the loop. A loop whose source never ends does
  not return, which is the value \<open>None\<close>.
\<close>

partial_function (option) readAllSamples_loop ::
    "'s reader \<Rightarrow> (nat \<Rightarrow> ctx_err) \<Rightarrow> nat \<Rightarrow> i16 list \<Rightarrow> 's \<Rightarrow> (i16 list result \<times> 's) option" where
  "readAllSamples_loop read ctx i samples s =
     (case read (ctx i) 1024 s of
        ((chunk, e), s') \<Rightarrow>
          if e = Some Io_EOF then Some (Inr (samples @ chunk), s')
          else if e \<noteq> None then Some (Inl (the e), s')
          else readAllSamples_loop read ctx (Suc i) (samples @ chunk) s')"

definition readAllSamples :: "'s reader \<Rightarrow> ('s \<Rightarrow> int) \<Rightarrow> (nat \<Rightarrow> ctx_err) \<Rightarrow> 's \<Rightarrow> ((i16 list \<times> int) result \<times> 's) option" where
  "readAllSamples read rate ctx s =
     (case readAllSamples_loop read ctx 0 [] s of
        None \<Rightarrow> None
      | Some (Inl err, s') \<Rightarrow> Some (Inl err, s')
      | Some (Inr samples, s') \<Rightarrow> Some (Inr (samples, rate s'), s'))"

record audio_stub =
  sb_Played :: "i16 list list"
  sb_Connected :: bool
  sb_Closed :: bool
  sb_onAudio :: bool

definition stub_Connect :: "audio_stub \<Rightarrow> audio_stub" where
  "stub_Connect s = s\<lparr>sb_Connected := True\<rparr>"

definition stub_Play :: "i16 list \<Rightarrow> audio_stub \<Rightarrow> audio_stub" where
  "stub_Play pcm s = s\<lparr>sb_Played := sb_Played s @ [pcm]\<rparr>"

partial_function (option) stub_drain ::
    "'s reader \<Rightarrow> (nat \<Rightarrow> ctx_err) \<Rightarrow> nat \<Rightarrow> i16 list \<Rightarrow> 's \<Rightarrow> (i16 list result \<times> 's) option" where
  "stub_drain read ctx i buf s =
     (if ctx i \<noteq> None then Some (Inl (the (ctx i)), s)
      else case read (ctx i) 1024 s of
        ((chunk, e), s') \<Rightarrow>
          if e = Some Io_EOF then Some (Inr (buf @ chunk), s')
          else if e \<noteq> None then Some (Inl (the e), s')
          else stub_drain read ctx (Suc i) (buf @ chunk) s')"

definition stub_PlayStream ::
    "'s reader \<Rightarrow> (nat \<Rightarrow> ctx_err) \<Rightarrow> 's \<Rightarrow> audio_stub \<Rightarrow> (go_error option \<times> audio_stub \<times> 's) option" where
  "stub_PlayStream read ctx src s =
     (case stub_drain read ctx 0 [] src of
        None \<Rightarrow> None
      | Some (Inl err, src') \<Rightarrow> Some (Some err, s, src')
      | Some (Inr buf, src') \<Rightarrow> Some (None, s\<lparr>sb_Played := sb_Played s @ [buf]\<rparr>, src'))"

definition stub_OnAudio :: "audio_stub \<Rightarrow> audio_stub" where
  "stub_OnAudio s = s\<lparr>sb_onAudio := True\<rparr>"

definition stub_Close :: "audio_stub \<Rightarrow> audio_stub" where
  "stub_Close s = s\<lparr>sb_Closed := True\<rparr>"

text \<open>\<open>Emit\<close> calls the callback it finds, none once the stub is closed: the calls it makes.\<close>

definition stub_Emit :: "f32 list \<Rightarrow> audio_stub \<Rightarrow> f32 list list" where
  "stub_Emit samples s = (if sb_onAudio s \<and> \<not> sb_Closed s then [samples] else [])"

text \<open>Draining a source that keeps the contract always ends, and gives all of it unless cancelled.\<close>

context pcm_source begin

lemma drain_ends:
  assumes "ok s" and "\<forall>i. ctx i \<noteq> Some Io_EOF"
  shows "\<exists>r s'. stub_drain read ctx i buf s = Some (r, s') \<and>
    (case r of Inl err \<Rightarrow> \<exists>j \<ge> i. ctx j = Some err | Inr out \<Rightarrow> out = buf @ rest s)"
  using assms(1)
proof (induction "length (rest s)" arbitrary: i buf s rule: less_induct)
  case less
  show ?case
  proof (cases "ctx i")
    case (Some err)
    then show ?thesis by (subst stub_drain.simps) auto
  next
    case None
    obtain c e s1 where r: "read None 1024 s = ((c, e), s1)" by (metis surj_pair)
    note l = read_live [OF less.prems _ r]
    show ?thesis
    proof (cases e)
      case (Some err)
      then show ?thesis using None r l by (subst stub_drain.simps) auto
    next
      case e: None
      then have "length (rest s1) < length (rest s)" "ok s1" using l by auto
      from less.hyps [OF this, of "Suc i" "buf @ c"] obtain r' s' where
        "stub_drain read ctx (Suc i) (buf @ c) s1 = Some (r', s')"
        "case r' of Inl err \<Rightarrow> \<exists>j \<ge> Suc i. ctx j = Some err | Inr out \<Rightarrow> out = (buf @ c) @ rest s1" by blast
      moreover from this(2) have "case r' of Inl err \<Rightarrow> \<exists>j \<ge> i. ctx j = Some err | Inr out \<Rightarrow> out = buf @ rest s"
        using l by (auto split: sum.splits intro: Suc_leD)
      moreover have "stub_drain read ctx i buf s = stub_drain read ctx (Suc i) (buf @ c) s1"
        using None r e by (subst stub_drain.simps) simp
      ultimately show ?thesis by auto
    qed
  qed
qed

lemma readAll_ends:
  assumes "ok s" and "\<forall>i. ctx i \<noteq> Some Io_EOF"
  shows "\<exists>r s'. readAllSamples_loop read ctx i buf s = Some (r, s') \<and>
    (case r of Inl err \<Rightarrow> \<exists>j \<ge> i. ctx j = Some err | Inr out \<Rightarrow> out = buf @ rest s)"
  using assms(1)
proof (induction "length (rest s)" arbitrary: i buf s rule: less_induct)
  case less
  show ?case
  proof (cases "ctx i")
    case (Some err)
    then have "read (ctx i) 1024 s = (([], Some err), s)" "err \<noteq> Io_EOF"
      using read_dead [OF less.prems, of err] assms(2) by auto
    then show ?thesis using Some by (subst readAllSamples_loop.simps) auto
  next
    case None
    obtain c e s1 where r: "read None 1024 s = ((c, e), s1)" by (metis surj_pair)
    note l = read_live [OF less.prems _ r]
    show ?thesis
    proof (cases e)
      case (Some err)
      then show ?thesis using None r l by (subst readAllSamples_loop.simps) auto
    next
      case e: None
      then have "length (rest s1) < length (rest s)" "ok s1" using l by auto
      from less.hyps [OF this, of "Suc i" "buf @ c"] obtain r' s' where
        "readAllSamples_loop read ctx (Suc i) (buf @ c) s1 = Some (r', s')"
        "case r' of Inl err \<Rightarrow> \<exists>j \<ge> Suc i. ctx j = Some err | Inr out \<Rightarrow> out = (buf @ c) @ rest s1" by blast
      moreover from this(2) have "case r' of Inl err \<Rightarrow> \<exists>j \<ge> i. ctx j = Some err | Inr out \<Rightarrow> out = buf @ rest s"
        using l by (auto split: sum.splits intro: Suc_leD)
      moreover have "readAllSamples_loop read ctx i buf s = readAllSamples_loop read ctx (Suc i) (buf @ c) s1"
        using None r e by (subst readAllSamples_loop.simps) simp
      ultimately show ?thesis by auto
    qed
  qed
qed

end

interpretation gained_prompt: gained_source "prompt_ReadPCM16 slice_ReadPCM16" "prompt_rest slice_rest"
    "prompt_ok slice_ok" pow10 gainDb
  for pow10 :: "f64 \<Rightarrow> f64" and gainDb :: f32
  by (intro gained_source.intro prompted_slice.prompt_source)

text \<open>An ask prompt is heard whole: reading a prompt with a chime appended to it through the node's
  gain until EOF always ends, and unless the context was cancelled on the way it gives the prompt's
  samples followed by the chime's, with the gain applied to each, whatever the chunk boundaries.\<close>

theorem prompt_playback_complete:
  assumes "\<forall>i. ctx i \<noteq> Some Io_EOF"
    and "src = \<lparr>ps_prompt = NewSliceSource prompt rate, ps_tail = NewSliceSource chime rate, ps_ended = False\<rparr>"
  shows "\<exists>e s' src'.
    stub_PlayStream (gain_ReadPCM16 pow10 g (prompt_ReadPCM16 slice_ReadPCM16)) ctx src s = Some (e, s', src') \<and>
    (case e of Some err \<Rightarrow> s' = s \<and> (\<exists>i. ctx i = Some err)
     | None \<Rightarrow> sb_Played s' = sb_Played s @ [ApplyGainPCM16 pow10 (prompt @ chime) g])"
proof -
  let ?read = "gain_ReadPCM16 pow10 g (prompt_ReadPCM16 slice_ReadPCM16)"
  have ok: "prompt_ok slice_ok src" "prompt_rest slice_rest src = prompt @ chime"
    by (simp_all add: prompt_ok_def slice_ok_def prompt_rest_def slice_rest_def NewSliceSource_def assms(2))
  obtain r src' where "stub_drain ?read ctx 0 [] src = Some (r, src')"
      "case r of Inl err \<Rightarrow> \<exists>j \<ge> 0. ctx j = Some err | Inr out \<Rightarrow> out = ApplyGainPCM16 pow10 (prompt @ chime) g"
    using gained_prompt.gain.drain_ends [OF ok(1) assms(1), of pow10 g 0 "[]"] unfolding ok(2) append_Nil by blast
  then show ?thesis by (cases r) (auto simp: stub_PlayStream_def)
qed

theorem prompt_playback_complete_witness:
  "\<exists>e s' src'. stub_PlayStream (gain_ReadPCM16 (\<lambda>x. x) (Fin 0) (prompt_ReadPCM16 slice_ReadPCM16)) (\<lambda>_. None)
      \<lparr>ps_prompt = NewSliceSource [1, 2] 24000, ps_tail = NewSliceSource [3] 24000, ps_ended = False\<rparr>
      \<lparr>sb_Played = [], sb_Connected = True, sb_Closed = False, sb_onAudio = False\<rparr> = Some (e, s', src') \<and>
    sb_Played s' = [[1, 2, 3]]"
proof -
  let ?s = "\<lparr>sb_Played = [], sb_Connected = True, sb_Closed = False, sb_onAudio = False\<rparr>"
  obtain e s' src' where "stub_PlayStream (gain_ReadPCM16 (\<lambda>x. x) (Fin 0) (prompt_ReadPCM16 slice_ReadPCM16)) (\<lambda>_. None)
      \<lparr>ps_prompt = NewSliceSource [1, 2] 24000, ps_tail = NewSliceSource [3] 24000, ps_ended = False\<rparr> ?s = Some (e, s', src')"
      "case e of Some err \<Rightarrow> s' = ?s \<and> (\<exists>i. (\<lambda>_::nat. None) i = Some err)
       | None \<Rightarrow> sb_Played s' = sb_Played ?s @ [ApplyGainPCM16 (\<lambda>x. x) ([1, 2] @ [3]) (Fin 0)]"
    using prompt_playback_complete [of "\<lambda>_. None" _ "[1, 2]" 24000 "[3]" "\<lambda>x. x" "Fin 0" ?s, OF _ refl] by blast
  then show ?thesis by (auto simp: ApplyGainPCM16_def split: option.splits)
qed

end
