(* ===== verification/Audio_Stream.thy ===== *)
theory Audio_Stream
  imports Audio_Source "HOL-Library.Sublist"
begin

text \<open>
  The two audio streams of the synthesizer (internal/ai/speech.go): a recording that is read from the
  cache, and the stream between the synthesis worker, which pushes, and the player, which reads. Each
  pass of a loop between two waits on the condition variable is one function. The condition variable is
  part of the stream: a side that waits is parked, and runs again only after a broadcast.
\<close>

subsection \<open>vitsAudioStream\<close>

record vits_stream =
  vs_rate :: int
  vs_samples :: "f32 list"
  vs_offset :: nat

definition vits_ReadPCM16 :: "vits_stream reader" where
  "vits_ReadPCM16 cerr n s =
     (case cerr of
        Some err \<Rightarrow> (([], Some err), s)
      | None \<Rightarrow>
          if n \<le> 0 then (([], Some (Msg ''chunk size must be positive'')), s)
          else if length (vs_samples s) \<le> vs_offset s then (([], Some Io_EOF), s)
          else let end' = min (length (vs_samples s)) (vs_offset s + nat n)
               in ((FloatToPCM16 (drop (vs_offset s) (take end' (vs_samples s))), None), s\<lparr>vs_offset := end'\<rparr>))"

definition vits_rest :: "vits_stream \<Rightarrow> i16 list" where
  "vits_rest s = FloatToPCM16 (drop (vs_offset s) (vs_samples s))"

lemma FloatToPCM16_append [simp]: "FloatToPCM16 (a @ b) = FloatToPCM16 a @ FloatToPCM16 b"
  by (simp add: FloatToPCM16_def)

lemma FloatToPCM16_Nil [simp]: "FloatToPCM16 [] = []" "FloatToPCM16 a = [] \<longleftrightarrow> a = []"
  by (simp_all add: FloatToPCM16_def)

interpretation vits: pcm_source vits_ReadPCM16 vits_rest "\<lambda>_. True"
proof unfold_locales
  fix s s' :: vits_stream and n :: int and c e
  assume n: "0 < n" and r: "vits_ReadPCM16 None n s = ((c, e), s')"
  show "True \<and> vits_rest s = c @ vits_rest s' \<and> int (length c) \<le> n \<and>
      (e = None \<and> c \<noteq> [] \<or> e = Some Io_EOF \<and> vits_rest s' = [])"
  proof (cases "length (vs_samples s) \<le> vs_offset s")
    case True
    then show ?thesis using n r by (auto simp: vits_ReadPCM16_def vits_rest_def)
  next
    case False
    let ?e = "min (length (vs_samples s)) (vs_offset s + nat n)"
    have le: "vs_offset s < ?e" "?e \<le> length (vs_samples s)" using False n by simp_all
    have r: "c = FloatToPCM16 (drop (vs_offset s) (take ?e (vs_samples s)))" "e = None" "s' = s\<lparr>vs_offset := ?e\<rparr>"
      using r n False by (auto simp: vits_ReadPCM16_def Let_def)
    have len: "length c = ?e - vs_offset s" unfolding r(1) by simp
    have "vits_rest s = c @ vits_rest s'"
      unfolding vits_rest_def r(1,3) using slice_step [of "vs_offset s" ?e "vs_samples s"] le
      by (simp flip: FloatToPCM16_append)
    moreover have "c \<noteq> []" "int (length c) \<le> n" using len le n by auto
    ultimately show ?thesis using r(2) by blast
  qed
next
  show "vits_ReadPCM16 (Some err) n s = (([], Some err), s)" for err n s
    by (simp add: vits_ReadPCM16_def)
qed

subsection \<open>streamingAudioStream\<close>

abbreviation max_audio_seconds :: int where "max_audio_seconds \<equiv> 120"

datatype stream_side = Pusher | Reader

record audio_stream =
  as_rate :: int
  as_buf :: "i16 list"
  as_done :: bool
  as_err :: "go_error option"
  as_total :: int
  as_parked :: "stream_side set"

definition newStreamingAudioStream :: "int \<Rightarrow> audio_stream" where
  "newStreamingAudioStream rate = \<lparr>as_rate = rate, as_buf = [], as_done = False, as_err = None, as_total = 0, as_parked = {}\<rparr>"

definition as_broadcast :: "audio_stream \<Rightarrow> audio_stream" where
  "as_broadcast s = s\<lparr>as_parked := {}\<rparr>"

definition as_waits :: "stream_side \<Rightarrow> audio_stream \<Rightarrow> audio_stream" where
  "as_waits x s = s\<lparr>as_parked := insert x (as_parked s)\<rparr>"

text \<open>\<open>push\<close> up to its loop.\<close>

definition as_push_begin :: "f32 list \<Rightarrow> audio_stream \<Rightarrow> go_error option \<times> audio_stream" where
  "as_push_begin samples s =
     (if as_rate s * max_audio_seconds < as_total s + int (length samples)
      then (let err = Msg ''generated audio exceeds maximum duration''
            in (Some err, as_broadcast (s\<lparr>as_done := True, as_err := Some err\<rparr>)))
      else (None, s\<lparr>as_total := as_total s + int (length samples)\<rparr>))"

datatype pushed = Push_waits audio_stream | Push_fails go_error | Push_moves "f32 list" audio_stream

definition as_push_turn :: "ctx_err \<Rightarrow> f32 list \<Rightarrow> audio_stream \<Rightarrow> pushed" where
  "as_push_turn cerr samples s =
     (let capacity = as_rate s * 2 in
      if capacity \<le> int (length (as_buf s)) \<and> cerr = None \<and> \<not> as_done s then Push_waits (as_waits Pusher s)
      else case cerr of
        Some err \<Rightarrow> Push_fails err
      | None \<Rightarrow>
          if as_done s then Push_fails Io_ErrClosedPipe
          else let n = nat (min (int (length samples)) (capacity - int (length (as_buf s))))
               in Push_moves (drop n samples) (as_broadcast (s\<lparr>as_buf := as_buf s @ FloatToPCM16 (take n samples)\<rparr>)))"

definition as_finish :: "go_error option \<Rightarrow> audio_stream \<Rightarrow> audio_stream" where
  "as_finish err s = as_broadcast (if \<not> as_done s then s\<lparr>as_done := True, as_err := err\<rparr> else s)"

datatype as_read = Read_waits audio_stream | Read_gives "i16 list" "go_error option" audio_stream

definition as_ReadPCM16 :: "ctx_err \<Rightarrow> int \<Rightarrow> audio_stream \<Rightarrow> as_read" where
  "as_ReadPCM16 cerr n s =
     (if n \<le> 0 then Read_gives [] (Some (Msg ''chunk size must be positive'')) s
      else if as_buf s = [] \<and> \<not> as_done s \<and> cerr = None then Read_waits (as_waits Reader s)
      else case cerr of
        Some err \<Rightarrow> Read_gives [] (Some err) s
      | None \<Rightarrow>
          if as_buf s = []
          then Read_gives [] (Some (case as_err s of Some e \<Rightarrow> e | None \<Rightarrow> Io_EOF)) s
          else let k = nat (min n (int (length (as_buf s))))
               in Read_gives (take k (as_buf s)) None (as_broadcast (s\<lparr>as_buf := drop k (as_buf s)\<rparr>)))"

text \<open>What the stream is told once the generation of \<open>prepareStream\<close> has returned.\<close>

definition gen_ends :: "ctx_err \<Rightarrow> (f32 list \<times> int) option \<Rightarrow> audio_stream \<Rightarrow> audio_stream" where
  "gen_ends cerr generated s =
     (case cerr of
        Some err \<Rightarrow> as_finish (Some err) s
      | None \<Rightarrow> if generated = None then as_finish (Some (Msg ''failed to generate speech audio'')) s else as_finish None s)"

lemma as_broadcast_simps [simp]:
  "as_rate (as_broadcast s) = as_rate s" "as_buf (as_broadcast s) = as_buf s" "as_done (as_broadcast s) = as_done s"
  "as_err (as_broadcast s) = as_err s" "as_total (as_broadcast s) = as_total s" "as_parked (as_broadcast s) = {}"
  "as_rate (as_waits x s) = as_rate s" "as_buf (as_waits x s) = as_buf s" "as_done (as_waits x s) = as_done s"
  "as_err (as_waits x s) = as_err s" "as_total (as_waits x s) = as_total s" "as_parked (as_waits x s) = insert x (as_parked s)"
  by (simp_all add: as_broadcast_def as_waits_def)

subsection \<open>Producer and consumer\<close>

text \<open>
  One worker pushes the chunks of an utterance in order and stops at the first push that fails, since
  the generation callback then answers false, and after the generation it finishes the stream; one
  player reads. \<open>sr_pending\<close> is what is left of the running push, \<open>sr_pushed\<close> all that was admitted, \<open>sr_read\<close> all that
  was read; \<open>sr_reading\<close> is the chunk size of the running read. The contexts of the two sides end at any time;
  \<open>sr_due\<close> are the callbacks of \<open>context.AfterFunc\<close> that are due, which take the mutex and broadcast. A side that
  is parked takes no step of its own.
\<close>

record stream_run =
  sr_stream :: audio_stream
  sr_pending :: "f32 list"
  sr_failed :: bool
  sr_ended :: bool
  sr_reading :: "int option"
  sr_push_ctx :: ctx_err
  sr_read_ctx :: ctx_err
  sr_due :: "stream_side set"
  sr_pushed :: "f32 list"
  sr_read :: "i16 list"

definition sr_start :: "int \<Rightarrow> stream_run" where
  "sr_start rate = \<lparr>sr_stream = newStreamingAudioStream rate, sr_pending = [], sr_failed = False, sr_ended = False,
     sr_reading = None, sr_push_ctx = None, sr_read_ctx = None, sr_due = {}, sr_pushed = [], sr_read = []\<rparr>"

inductive sr_step :: "stream_run \<Rightarrow> stream_run \<Rightarrow> bool" where
  sr_push: "sr_pending r = [] \<Longrightarrow> \<not> sr_failed r \<Longrightarrow> \<not> sr_ended r \<Longrightarrow>
    as_push_begin samples (sr_stream r) = (None, s) \<Longrightarrow>
    sr_step r (r\<lparr>sr_stream := s, sr_pending := samples, sr_pushed := sr_pushed r @ samples\<rparr>)"
| sr_push_over: "sr_pending r = [] \<Longrightarrow> \<not> sr_failed r \<Longrightarrow> \<not> sr_ended r \<Longrightarrow>
    as_push_begin samples (sr_stream r) = (Some e, s) \<Longrightarrow>
    sr_step r (r\<lparr>sr_stream := s, sr_failed := True\<rparr>)"
| sr_moves: "sr_pending r \<noteq> [] \<Longrightarrow> Pusher \<notin> as_parked (sr_stream r) \<Longrightarrow>
    as_push_turn (sr_push_ctx r) (sr_pending r) (sr_stream r) = Push_moves rest s \<Longrightarrow>
    sr_step r (r\<lparr>sr_stream := s, sr_pending := rest\<rparr>)"
| sr_push_parks: "sr_pending r \<noteq> [] \<Longrightarrow> Pusher \<notin> as_parked (sr_stream r) \<Longrightarrow>
    as_push_turn (sr_push_ctx r) (sr_pending r) (sr_stream r) = Push_waits s \<Longrightarrow> sr_step r (r\<lparr>sr_stream := s\<rparr>)"
| sr_fails: "sr_pending r \<noteq> [] \<Longrightarrow> Pusher \<notin> as_parked (sr_stream r) \<Longrightarrow>
    as_push_turn (sr_push_ctx r) (sr_pending r) (sr_stream r) = Push_fails e \<Longrightarrow>
    sr_step r (r\<lparr>sr_pending := [], sr_failed := True\<rparr>)"
| sr_finishes: "sr_pending r = [] \<Longrightarrow> \<not> sr_ended r \<Longrightarrow>
    sr_step r (r\<lparr>sr_stream := gen_ends (sr_push_ctx r) generated (sr_stream r), sr_ended := True\<rparr>)"
| sr_reads: "sr_reading r = None \<Longrightarrow> c \<in> {None, Some Canceled, Some DeadlineExceeded} \<Longrightarrow>
    sr_step r (r\<lparr>sr_reading := Some n, sr_read_ctx := c\<rparr>)"
| sr_given: "sr_reading r = Some n \<Longrightarrow> Reader \<notin> as_parked (sr_stream r) \<Longrightarrow>
    as_ReadPCM16 (sr_read_ctx r) n (sr_stream r) = Read_gives chunk e s \<Longrightarrow>
    sr_step r (r\<lparr>sr_stream := s, sr_reading := None, sr_read := sr_read r @ chunk\<rparr>)"
| sr_read_parks: "sr_reading r = Some n \<Longrightarrow> Reader \<notin> as_parked (sr_stream r) \<Longrightarrow>
    as_ReadPCM16 (sr_read_ctx r) n (sr_stream r) = Read_waits s \<Longrightarrow> sr_step r (r\<lparr>sr_stream := s\<rparr>)"
| sr_push_ctx_ends: "sr_push_ctx r = None \<Longrightarrow> e \<in> {Canceled, DeadlineExceeded} \<Longrightarrow>
    sr_step r (r\<lparr>sr_push_ctx := Some e, sr_due := (if sr_pending r = [] then sr_due r else insert Pusher (sr_due r))\<rparr>)"
| sr_read_ctx_ends: "sr_read_ctx r = None \<Longrightarrow> e \<in> {Canceled, DeadlineExceeded} \<Longrightarrow>
    sr_step r (r\<lparr>sr_read_ctx := Some e, sr_due := (if sr_reading r = None then sr_due r else insert Reader (sr_due r))\<rparr>)"
| sr_calls_back: "x \<in> sr_due r \<Longrightarrow> sr_step r (r\<lparr>sr_stream := as_broadcast (sr_stream r), sr_due := sr_due r - {x}\<rparr>)"

inductive_cases sr_stepE: "sr_step r r'"

definition sr_inv :: "int \<Rightarrow> stream_run \<Rightarrow> bool" where
  "sr_inv rate r \<longleftrightarrow>
     as_rate (sr_stream r) = rate \<and> int (length (as_buf (sr_stream r))) \<le> max 0 (2 * rate) \<and>
     as_total (sr_stream r) = int (length (sr_pushed r)) \<and> int (length (sr_pushed r)) \<le> max 0 (120 * rate) \<and>
     (sr_pending r \<noteq> [] \<longrightarrow> 0 < rate \<and> \<not> sr_failed r \<and> \<not> as_done (sr_stream r)) \<and>
     (sr_ended r \<longrightarrow> as_done (sr_stream r)) \<and> (as_done (sr_stream r) \<longrightarrow> sr_ended r \<or> sr_failed r) \<and>
     (sr_failed r \<longrightarrow> as_done (sr_stream r) \<or> sr_push_ctx r \<noteq> None) \<and>
     (as_done (sr_stream r) \<and> as_err (sr_stream r) = None \<longrightarrow> \<not> sr_failed r) \<and>
     prefix (sr_read r @ as_buf (sr_stream r)) (FloatToPCM16 (sr_pushed r)) \<and>
     (\<not> sr_failed r \<longrightarrow>
        sr_read r @ as_buf (sr_stream r) @ FloatToPCM16 (sr_pending r) = FloatToPCM16 (sr_pushed r)) \<and>
     as_err (sr_stream r) \<noteq> Some Io_EOF \<and> sr_push_ctx r \<noteq> Some Io_EOF \<and> sr_read_ctx r \<noteq> Some Io_EOF"

definition sr_parked_inv :: "stream_run \<Rightarrow> bool" where
  "sr_parked_inv r \<longleftrightarrow>
     (Pusher \<in> as_parked (sr_stream r) \<longrightarrow> sr_pending r \<noteq> [] \<and> 2 * as_rate (sr_stream r) \<le> int (length (as_buf (sr_stream r))) \<and>
        \<not> as_done (sr_stream r) \<and> (sr_push_ctx r = None \<or> Pusher \<in> sr_due r)) \<and>
     (Reader \<in> as_parked (sr_stream r) \<longrightarrow> (\<exists>n > 0. sr_reading r = Some n) \<and> as_buf (sr_stream r) = [] \<and>
        \<not> as_done (sr_stream r) \<and> (sr_read_ctx r = None \<or> Reader \<in> sr_due r))"

lemma as_push_turn_moves:
  assumes "as_push_turn cerr samples s = Push_moves rest s'" and "samples \<noteq> []"
  shows "cerr = None \<and> \<not> as_done s \<and> (\<exists>moved. samples = moved @ rest \<and> moved \<noteq> [] \<and>
    s' = as_broadcast (s\<lparr>as_buf := as_buf s @ FloatToPCM16 moved\<rparr>) \<and> int (length (as_buf s')) \<le> 2 * as_rate s)"
proof -
  let ?n = "nat (min (int (length samples)) (as_rate s * 2 - int (length (as_buf s))))"
  have c: "cerr = None" "\<not> as_done s" "int (length (as_buf s)) < as_rate s * 2"
      "rest = drop ?n samples" "s' = as_broadcast (s\<lparr>as_buf := as_buf s @ FloatToPCM16 (take ?n samples)\<rparr>)"
    using assms(1) by (auto simp: as_push_turn_def Let_def split: if_splits option.splits)
  have "0 < int (length samples)" using assms(2) by simp
  moreover have "0 < as_rate s * 2 - int (length (as_buf s))" using c(3) by simp
  ultimately have "0 < ?n" by (metis min_less_iff_conj zero_less_nat_eq)
  then have "take ?n samples \<noteq> []" using assms(2) by (metis take_eq_Nil less_numeral_extra(3))
  moreover have "samples = take ?n samples @ rest" using c(4) by simp
  moreover have "int (length (as_buf s')) \<le> 2 * as_rate s" using c(3,5) by simp
  ultimately show ?thesis using c(1,2,5) by blast
qed

lemma as_push_turn_waits:
  "as_push_turn cerr samples s = Push_waits s' \<Longrightarrow>
     s' = as_waits Pusher s \<and> 2 * as_rate s \<le> int (length (as_buf s)) \<and> cerr = None \<and> \<not> as_done s"
  by (auto simp: as_push_turn_def Let_def split: if_splits option.splits)

lemma as_push_turn_fails: "as_push_turn cerr samples s = Push_fails e \<Longrightarrow> cerr \<noteq> None \<or> as_done s"
  by (auto simp: as_push_turn_def Let_def split: if_splits option.splits)

lemma as_read_gives:
  assumes "as_ReadPCM16 cerr n s = Read_gives chunk e s'"
  shows "(s' = s \<and> chunk = [] \<or> s' = as_broadcast (s\<lparr>as_buf := as_buf s'\<rparr>)) \<and> as_buf s = chunk @ as_buf s'"
  using assms by (auto simp: as_ReadPCM16_def as_broadcast_def Let_def split: if_splits option.splits)

lemma as_read_waits:
  "as_ReadPCM16 cerr n s = Read_waits s' \<Longrightarrow> s' = as_waits Reader s \<and> 0 < n \<and> as_buf s = [] \<and> \<not> as_done s \<and> cerr = None"
  by (auto simp: as_ReadPCM16_def Let_def split: if_splits option.splits)

lemma sr_push_inv:
  assumes "sr_inv rate r" and "sr_pending r = []" "\<not> sr_failed r" "\<not> sr_ended r" and "as_push_begin samples (sr_stream r) = (None, s)"
  shows "sr_inv rate (r\<lparr>sr_stream := s, sr_pending := samples, sr_pushed := sr_pushed r @ samples\<rparr>)"
proof -
  have s: "s = (sr_stream r)\<lparr>as_total := as_total (sr_stream r) + int (length samples)\<rparr>"
      "as_total (sr_stream r) + int (length samples) \<le> as_rate (sr_stream r) * 120"
    using assms(5) by (auto simp: as_push_begin_def Let_def split: if_splits)
  have "0 < rate" if "samples \<noteq> []" using s(2) assms(1) that by (cases samples) (auto simp: sr_inv_def)
  moreover have "int (length (sr_pushed r)) + int (length samples) \<le> max 0 (120 * rate)"
    using s(2) assms(1) by (auto simp: sr_inv_def)
  moreover have "prefix (sr_read r @ as_buf (sr_stream r)) (FloatToPCM16 (sr_pushed r) @ FloatToPCM16 samples)"
    using assms(1) by (auto simp: sr_inv_def intro: prefix_prefix)
  ultimately show ?thesis using assms(1-4) unfolding s(1) by (auto simp: sr_inv_def)
qed

lemma sr_moves_inv:
  assumes inv: "sr_inv rate r" and ne: "sr_pending r \<noteq> []"
    and m: "as_push_turn cerr (sr_pending r) (sr_stream r) = Push_moves rest s"
  shows "sr_inv rate (r\<lparr>sr_stream := s, sr_pending := rest\<rparr>)"
proof -
  from as_push_turn_moves [OF m ne] obtain moved where mv: "sr_pending r = moved @ rest"
      "s = as_broadcast ((sr_stream r)\<lparr>as_buf := as_buf (sr_stream r) @ FloatToPCM16 moved\<rparr>)"
      "int (length (as_buf s)) \<le> 2 * as_rate (sr_stream r)" "\<not> as_done (sr_stream r)"
    by blast
  have e: "sr_read r @ as_buf (sr_stream r) @ FloatToPCM16 moved @ FloatToPCM16 rest = FloatToPCM16 (sr_pushed r)"
    using inv ne mv(1) by (auto simp: sr_inv_def)
  then have "prefix (sr_read r @ as_buf (sr_stream r) @ FloatToPCM16 moved) (FloatToPCM16 (sr_pushed r))"
    by (metis append_assoc prefixI)
  then show ?thesis using inv ne mv e by (auto simp: sr_inv_def)
qed

lemma sr_step_inv: "sr_inv rate r \<and> sr_parked_inv r \<Longrightarrow> sr_step r r' \<Longrightarrow> sr_inv rate r' \<and> sr_parked_inv r'"
proof (erule sr_stepE, goal_cases)
  case (1 samples s)
  then have "sr_inv rate r'" using sr_push_inv [of rate r samples s] by simp
  moreover have "s = (sr_stream r)\<lparr>as_total := as_total (sr_stream r) + int (length samples)\<rparr>"
    using 1 by (auto simp: as_push_begin_def Let_def split: if_splits)
  ultimately show ?case using 1 by (simp add: sr_parked_inv_def)
next
  case (2 samples e s)
  then show ?case by (auto simp: sr_inv_def sr_parked_inv_def as_push_begin_def Let_def split: if_splits)
next
  case (3 rest s)
  then have "sr_inv rate r'" using sr_moves_inv [of rate r "sr_push_ctx r" rest s] by simp
  moreover have "as_parked s = {}" using as_push_turn_moves [OF 3(5,3)] by auto
  ultimately show ?case using 3 by (simp add: sr_parked_inv_def)
next
  case (4 s)
  note w = as_push_turn_waits [OF 4(5)]
  show ?case using 4 w by (auto simp: sr_inv_def sr_parked_inv_def)
next
  case (5 e)
  note f = as_push_turn_fails [OF 5(5)]
  show ?case using 5 f by (auto simp: sr_inv_def sr_parked_inv_def)
next
  case (6 generated)
  then show ?case by (auto simp: sr_inv_def sr_parked_inv_def gen_ends_def as_finish_def split: option.splits)
next
  case (7 c n)
  then show ?case by (auto simp: sr_inv_def sr_parked_inv_def)
next
  case (8 n chunk e s)
  consider "s = sr_stream r" "chunk = []" | b where "s = as_broadcast ((sr_stream r)\<lparr>as_buf := b\<rparr>)" "as_buf (sr_stream r) = chunk @ b"
    using as_read_gives [OF 8(5)] by metis
  then show ?case using 8(1-4) by cases (auto simp: sr_inv_def sr_parked_inv_def)
next
  case (9 n s)
  note w = as_read_waits [OF 9(5)]
  show ?case using 9 w by (auto simp: sr_inv_def sr_parked_inv_def)
qed (auto simp: sr_inv_def sr_parked_inv_def)

interpretation stream_machine: machine "\<lambda>r. r = sr_start rate" sr_step "\<lambda>r. sr_inv rate r \<and> sr_parked_inv r" for rate
proof unfold_locales
  show "sr_inv rate r \<and> sr_parked_inv r" if "r = sr_start rate" for r
    using that by (simp add: sr_inv_def sr_parked_inv_def sr_start_def newStreamingAudioStream_def)
qed (rule sr_step_inv)

text \<open>C25: The player is given the utterance in order and nothing else: what it has read and what is buffered is a
  prefix of what was pushed; at most two seconds are buffered and two minutes admitted; and EOF is answered only when
  the whole utterance has been read. No side sleeps through what it waits for: a parked worker has a full buffer before it
  and a parked player an empty one, on a stream that is not finished, while the context of the sleeper lives or the
  callback that wakes it is due; while the player is parked the generation has not ended; and the two are never parked
  at once.\<close>

theorem stream_delivers:
  assumes "reach (\<lambda>r. r = sr_start rate) sr_step r"
  shows "prefix (sr_read r @ as_buf (sr_stream r)) (FloatToPCM16 (sr_pushed r)) \<and>
    int (length (as_buf (sr_stream r))) \<le> max 0 (2 * rate) \<and> int (length (sr_pushed r)) \<le> max 0 (120 * rate) \<and>
    (\<forall>n s. as_ReadPCM16 (sr_read_ctx r) n (sr_stream r) = Read_gives [] (Some Io_EOF) s \<longrightarrow> sr_read r = FloatToPCM16 (sr_pushed r)) \<and>
    (Pusher \<in> as_parked (sr_stream r) \<longrightarrow> 2 * rate \<le> int (length (as_buf (sr_stream r))) \<and> \<not> as_done (sr_stream r) \<and>
       (sr_push_ctx r = None \<or> Pusher \<in> sr_due r)) \<and>
    (Reader \<in> as_parked (sr_stream r) \<longrightarrow> as_buf (sr_stream r) = [] \<and> \<not> as_done (sr_stream r) \<and> \<not> sr_ended r \<and>
       (sr_read_ctx r = None \<or> Reader \<in> sr_due r)) \<and>
    \<not> (Pusher \<in> as_parked (sr_stream r) \<and> Reader \<in> as_parked (sr_stream r))"
proof -
  have inv: "sr_inv rate r" "sr_parked_inv r" using stream_machine.reach_inv [OF assms] by auto
  have eof: "sr_read r = FloatToPCM16 (sr_pushed r)"
    if "as_ReadPCM16 (sr_read_ctx r) m (sr_stream r) = Read_gives [] (Some Io_EOF) s" for m s
  proof -
    have "as_buf (sr_stream r) = []" "as_done (sr_stream r)" "as_err (sr_stream r) = None"
      using that inv(1) by (auto simp: as_ReadPCM16_def sr_inv_def Let_def split: if_splits option.splits)
    then show ?thesis using inv(1) by (auto simp: sr_inv_def)
  qed
  show ?thesis using inv eof by (auto simp: sr_inv_def sr_parked_inv_def)
qed

text \<open>Three samples on a stream that holds two: the worker has pushed two and is parked.\<close>

theorem stream_delivers_witness:
  "\<exists>r :: stream_run. sr_pushed r = [Fin 0, Fin 1, Fin 0] \<and> Pusher \<in> as_parked (sr_stream r) \<and> length (as_buf (sr_stream r)) = 2 \<and>
     prefix (sr_read r @ as_buf (sr_stream r)) (FloatToPCM16 (sr_pushed r))"
proof -
  let ?xs = "[Fin 0, Fin 1, Fin 0] :: f32 list" and ?new = "newStreamingAudioStream 1" and ?b = "FloatToPCM16 [Fin 0, Fin 1]"
  define ra where "ra = (sr_start 1)\<lparr>sr_stream := ?new\<lparr>as_total := 3\<rparr>, sr_pending := ?xs, sr_pushed := ?xs\<rparr>"
  define rb where "rb = ra\<lparr>sr_stream := ?new\<lparr>as_total := 3, as_buf := ?b\<rparr>, sr_pending := [Fin 0]\<rparr>"
  define rc where "rc = rb\<lparr>sr_stream := ?new\<lparr>as_total := 3, as_buf := ?b, as_parked := {Pusher}\<rparr>\<rparr>"
  note states = ra_def rb_def rc_def sr_start_def newStreamingAudioStream_def
  have b: "length ?b = 2" by (simp add: FloatToPCM16_def)
  have "sr_step (sr_start 1) ra"
    using sr_push [of "sr_start 1" ?xs "?new\<lparr>as_total := 3\<rparr>"] by (simp add: as_push_begin_def states)
  then have ra: "reach (\<lambda>r. r = sr_start 1) sr_step ra" by (rule reach_step [OF reach_init, rotated]) simp
  have "sr_step ra rb"
    using sr_moves [of ra "[Fin 0]" "?new\<lparr>as_total := 3, as_buf := ?b\<rparr>"]
    by (simp add: as_push_turn_def states as_broadcast_def numeral_2_eq_2)
  with ra have rb: "reach (\<lambda>r. r = sr_start 1) sr_step rb" by (rule reach_step)
  have "sr_step rb rc"
    using sr_push_parks [of rb "?new\<lparr>as_total := 3, as_buf := ?b, as_parked := {Pusher}\<rparr>"] b
    by (simp add: as_push_turn_def states as_waits_def)
  with rb have rc: "reach (\<lambda>r. r = sr_start 1) sr_step rc" by (rule reach_step)
  have ok: "prefix (sr_read rc @ as_buf (sr_stream rc)) (FloatToPCM16 (sr_pushed rc))" using stream_delivers [OF rc] by blast
  have "sr_pushed rc = ?xs" "Pusher \<in> as_parked (sr_stream rc)" "as_buf (sr_stream rc) = ?b" by (simp_all add: states)
  then show ?thesis using ok b by metis
qed

end
