(* ===== verification/Taskgroup.thy ===== *)
theory Taskgroup
  imports Go_Prelude
begin

text \<open>
  Bounded work that is joined before resources are freed (internal/taskgroup/group.go). A group
  hands out tokens: \<open>Start\<close> reserves one, its \<open>finish\<close> function gives it back once. The body of
  \<open>finish\<close> releases the slot under the mutex and tells the \<open>WaitGroup\<close> afterwards, so a token is
  running, then released, then done, and each of the two is a step of its own.
\<close>

datatype tg_phase = Tg_running | Tg_released | Tg_done

record tg_token =
  tk_phase :: tg_phase
  tk_cancelled :: bool

record task_group =
  tg_ctx :: ctx_err
  tg_closed :: bool
  tg_active :: int
  tg_limit :: int
  tg_wg :: int
  tg_tokens :: "tg_token list"

definition tg_New :: "ctx_err \<Rightarrow> int \<Rightarrow> task_group" where
  "tg_New parent limit =
     \<lparr>tg_ctx = parent, tg_closed = False, tg_active = 0, tg_limit = limit, tg_wg = 0, tg_tokens = []\<rparr>"

text \<open>A token is named by the order in which it was handed out.\<close>

definition tg_Start :: "ctx_err \<Rightarrow> task_group \<Rightarrow> nat result \<times> task_group" where
  "tg_Start parent g =
     (if tg_closed g \<or> tg_ctx g \<noteq> None then (Inl Tg_ErrClosed, g)
      else case parent of
        Some err \<Rightarrow> (Inl err, g)
      | None \<Rightarrow>
          if tg_limit g \<le> tg_active g then (Inl Tg_ErrBusy, g)
          else (Inr (length (tg_tokens g)),
                g\<lparr>tg_active := tg_active g + 1, tg_wg := tg_wg g + 1,
                  tg_tokens := tg_tokens g @ [\<lparr>tk_phase = Tg_running, tk_cancelled = False\<rparr>]\<rparr>))"

text \<open>The two halves of \<open>finish\<close>: a second call finds the \<open>sync.Once\<close> used and does nothing.\<close>

definition tg_finish_release :: "nat \<Rightarrow> task_group \<Rightarrow> task_group" where
  "tg_finish_release i g =
     (if i < length (tg_tokens g) \<and> tk_phase (tg_tokens g ! i) = Tg_running
      then g\<lparr>tg_active := tg_active g - 1,
             tg_tokens := (tg_tokens g)[i := \<lparr>tk_phase = Tg_released, tk_cancelled = True\<rparr>]\<rparr>
      else g)"

definition tg_finish_done :: "nat \<Rightarrow> task_group \<Rightarrow> task_group" where
  "tg_finish_done i g =
     (if i < length (tg_tokens g) \<and> tk_phase (tg_tokens g ! i) = Tg_released
      then g\<lparr>tg_wg := tg_wg g - 1,
             tg_tokens := (tg_tokens g)[i := (tg_tokens g ! i)\<lparr>tk_phase := Tg_done\<rparr>]\<rparr>
      else g)"

definition tg_finish :: "nat \<Rightarrow> task_group \<Rightarrow> task_group" where
  "tg_finish i g = tg_finish_done i (tg_finish_release i g)"

definition tg_Go :: "task_group \<Rightarrow> nat result \<times> task_group" where
  "tg_Go g = tg_Start (tg_ctx g) g"

text \<open>\<open>context.AfterFunc\<close> links every running token to the life of the group.\<close>

definition tg_after_func :: "nat \<Rightarrow> task_group \<Rightarrow> task_group" where
  "tg_after_func i g =
     (if i < length (tg_tokens g) \<and> tg_ctx g \<noteq> None \<and> tk_phase (tg_tokens g ! i) = Tg_running
      then g\<lparr>tg_tokens := (tg_tokens g)[i := (tg_tokens g ! i)\<lparr>tk_cancelled := True\<rparr>]\<rparr>
      else g)"

definition tg_cancel :: "go_error \<Rightarrow> task_group \<Rightarrow> task_group" where
  "tg_cancel e g = (case tg_ctx g of None \<Rightarrow> g\<lparr>tg_ctx := Some e\<rparr> | Some _ \<Rightarrow> g)"

text \<open>\<open>Close\<close> up to its \<open>wg.Wait\<close>, and the condition under which \<open>Wait\<close> returns.\<close>

definition tg_Close :: "task_group \<Rightarrow> task_group" where
  "tg_Close g = tg_cancel Canceled (g\<lparr>tg_closed := True\<rparr>)"

definition tg_joined :: "task_group \<Rightarrow> bool" where
  "tg_joined g \<longleftrightarrow> tg_wg g = 0"

inductive tg_step :: "task_group \<Rightarrow> task_group \<Rightarrow> bool" where
  tg_start: "tg_step g (snd (tg_Start parent g))"
| tg_go: "tg_step g (snd (tg_Go g))"
| tg_release: "tg_step g (tg_finish_release i g)"
| tg_done: "tg_step g (tg_finish_done i g)"
| tg_linked: "tg_step g (tg_after_func i g)"
| tg_parent_cancelled: "tg_step g (tg_cancel e g)"
| tg_close: "tg_step g (tg_Close g)"

subsection \<open>Accounting\<close>

abbreviation tg_in_phase :: "tg_phase set \<Rightarrow> task_group \<Rightarrow> nat" where
  "tg_in_phase ps g \<equiv> length (filter (\<lambda>t. tk_phase t \<in> ps) (tg_tokens g))"

definition tg_inv :: "task_group \<Rightarrow> bool" where
  "tg_inv g \<longleftrightarrow>
     tg_active g = int (tg_in_phase {Tg_running} g) \<and>
     tg_wg g = int (tg_in_phase {Tg_running, Tg_released} g) \<and>
     tg_active g \<le> max 0 (tg_limit g) \<and>
     (tg_closed g \<longrightarrow> tg_ctx g \<noteq> None)"

lemma length_filter_update:
  assumes "i < length xs"
  shows "int (length (filter P (xs[i := y]))) =
    int (length (filter P xs)) + (if P y then 1 else 0) - (if P (xs ! i) then 1 else 0)"
proof -
  have "length (filter P xs) =
      length (filter P (take i xs @ xs ! i # drop (Suc i) xs))"
    using id_take_nth_drop [OF assms] by simp
  then show ?thesis using assms by (simp add: upd_conv_take_nth_drop)
qed

lemma tg_Start_refused: "tg_Start p g = (Inl e, g') \<Longrightarrow> g' = g"
  by (auto simp: tg_Start_def split: if_splits option.splits)

lemma tg_Start_inv [inv_intros]: "tg_inv g \<Longrightarrow> tg_inv (snd (tg_Start p g))"
  by (auto simp: tg_Start_def tg_inv_def split: option.splits)

lemma tg_Go_inv [inv_intros]: "tg_inv g \<Longrightarrow> tg_inv (snd (tg_Go g))"
  by (simp add: tg_Go_def tg_Start_inv)

lemma tg_release_inv [inv_intros]: "tg_inv g \<Longrightarrow> tg_inv (tg_finish_release i g)"
  by (auto simp: tg_finish_release_def tg_inv_def length_filter_update)

lemma tg_done_inv [inv_intros]: "tg_inv g \<Longrightarrow> tg_inv (tg_finish_done i g)"
  by (auto simp: tg_finish_done_def tg_inv_def length_filter_update)

lemma tg_after_func_inv [inv_intros]: "tg_inv g \<Longrightarrow> tg_inv (tg_after_func i g)"
  by (auto simp: tg_after_func_def tg_inv_def length_filter_update)

lemma tg_cancel_inv [inv_intros]: "tg_inv g \<Longrightarrow> tg_inv (tg_cancel e g)"
  by (auto simp: tg_cancel_def tg_inv_def split: option.splits)

lemma tg_Close_inv [inv_intros]: "tg_inv g \<Longrightarrow> tg_inv (tg_Close g)"
  by (auto simp: tg_Close_def tg_cancel_def tg_inv_def split: option.splits)

lemma tg_step_inv: "tg_inv g \<Longrightarrow> tg_step g g' \<Longrightarrow> tg_inv g'"
  by (erule tg_step.cases) (auto intro: inv_intros)

interpretation tg_machine: machine "\<lambda>g. \<exists>p n. g = tg_New p n" tg_step tg_inv
proof unfold_locales
  show "tg_inv g" if "\<exists>p n. g = tg_New p n" for g
    using that by (auto simp: tg_New_def tg_inv_def)
qed (rule tg_step_inv)

lemma tg_joined_iff:
  assumes "tg_inv g"
  shows "tg_joined g \<longleftrightarrow> (\<forall>t \<in> set (tg_tokens g). tk_phase t = Tg_done)"
proof -
  have "tg_joined g \<longleftrightarrow> filter (\<lambda>t. tk_phase t \<in> {Tg_running, Tg_released}) (tg_tokens g) = []"
    using assms by (simp add: tg_joined_def tg_inv_def)
  also have "\<dots> \<longleftrightarrow> (\<forall>t \<in> set (tg_tokens g). tk_phase t = Tg_done)"
    by (auto simp: filter_empty_conv) (metis tg_phase.exhaust)
  finally show ?thesis .
qed

subsection \<open>Once closed, a group only winds down\<close>

lemma tg_step_closed:
  assumes "tg_step g g'" and "tg_closed g"
  shows "tg_closed g' \<and> length (tg_tokens g') = length (tg_tokens g) \<and>
    (tg_joined g \<and> tg_inv g \<longrightarrow> g' = g\<lparr>tg_ctx := tg_ctx g'\<rparr>)"
proof -
  have fin: "i < length (tg_tokens g) \<Longrightarrow> tk_phase (tg_tokens g ! i) = Tg_done"
    if "tg_joined g" "tg_inv g" for i
    using that tg_joined_iff [of g] by auto
  show ?thesis using assms
    by (cases rule: tg_step.cases)
       (auto simp: tg_Start_def tg_Go_def tg_finish_release_def tg_finish_done_def tg_after_func_def
          tg_Close_def tg_cancel_def dest: fin split: option.splits)
qed

lemma tg_steps_closed:
  assumes "tg_step\<^sup>*\<^sup>* g g'" and "tg_closed g" and "tg_inv g" and "tg_joined g"
  shows "tg_closed g' \<and> tg_inv g' \<and> tg_joined g' \<and> tg_tokens g' = tg_tokens g"
  using assms
proof (induction rule: rtranclp_induct)
  case base
  then show ?case by simp
next
  case (step y z)
  then have y: "tg_closed y" "tg_inv y" "tg_joined y" "tg_tokens y = tg_tokens g" by auto
  have "z = y\<lparr>tg_ctx := tg_ctx z\<rparr>" "tg_closed z" using tg_step_closed [OF step(2) y(1)] y by auto
  moreover from this(1) have "tg_tokens z = tg_tokens y" "tg_wg z = tg_wg y"
    by (metis (no_types, lifting) task_group.ext_inject task_group.surjective task_group.update_convs(1))+
  ultimately show ?case using y tg_step_inv [OF y(2) step(2)] by (simp add: tg_joined_def)
qed

lemma tg_finish_once: "tg_finish i (tg_finish i g) = tg_finish i g"
  by (cases "tk_phase (tg_tokens g ! i)")
     (auto simp: tg_finish_def tg_finish_release_def tg_finish_done_def)

subsection \<open>Properties\<close>

text \<open>C20: A group never runs more tasks than its limit, and its count is the number of tasks that run. Once it
  is closed and Close has returned, every task it ever started has ended, and no step starts another.\<close>

theorem taskgroup_close_is_final:
  assumes "reach (\<lambda>g. g = tg_New parent limit) tg_step g"
  shows "tg_active g = int (length (filter (\<lambda>t. tk_phase t = Tg_running) (tg_tokens g))) \<and>
    tg_active g \<le> max 0 (tg_limit g) \<and>
    (tg_closed g \<and> tg_joined g \<longrightarrow>
      (\<forall>g'. tg_step\<^sup>*\<^sup>* g g' \<longrightarrow> tg_tokens g' = tg_tokens g \<and> (\<forall>t \<in> set (tg_tokens g'). tk_phase t = Tg_done)))"
proof -
  have inv: "tg_inv g" using assms
  proof (induction rule: reach.induct)
    case (reach_init s)
    then show ?case by (simp add: tg_inv_def tg_New_def)
  qed (rule tg_step_inv)
  have final: "tg_tokens g' = tg_tokens g \<and> (\<forall>t \<in> set (tg_tokens g'). tk_phase t = Tg_done)"
    if "tg_closed g" "tg_joined g" "tg_step\<^sup>*\<^sup>* g g'" for g'
    using tg_steps_closed [OF that(3,1) inv that(2)] tg_joined_iff [OF inv] that(2) by simp
  have "tg_active g = int (length (filter (\<lambda>t. tk_phase t = Tg_running) (tg_tokens g)))" "tg_active g \<le> max 0 (tg_limit g)"
    using inv unfolding tg_inv_def by simp_all
  then show ?thesis using final by blast
qed

text \<open>One task, Close, the end of the task.\<close>

definition sample_group :: task_group where
  "sample_group = tg_finish_done 0 (tg_finish_release 0 (tg_Close (snd (tg_Start None (tg_New None 1)))))"

theorem taskgroup_close_is_final_witness:
  "tg_closed sample_group \<and> tg_joined sample_group \<and>
   list_all (\<lambda>t. tk_phase t = Tg_done) (tg_tokens (snd (tg_Go sample_group)))"
proof -
  let ?i = "\<lambda>g. g = tg_New None 1"
  have "reach ?i tg_step (tg_New None 1)" by (rule reach_init) simp
  then have "reach ?i tg_step (snd (tg_Start None (tg_New None 1)))" by (rule reach_step) (rule tg_start)
  then have "reach ?i tg_step (tg_Close (snd (tg_Start None (tg_New None 1))))" by (rule reach_step) (rule tg_close)
  then have "reach ?i tg_step (tg_finish_release 0 (tg_Close (snd (tg_Start None (tg_New None 1)))))"
    by (rule reach_step) (rule tg_release)
  then have "reach ?i tg_step sample_group" unfolding sample_group_def by (rule reach_step) (rule tg_done)
  from taskgroup_close_is_final [OF this] have
    "tg_closed sample_group \<and> tg_joined sample_group \<longrightarrow>
       (\<forall>g'. tg_step\<^sup>*\<^sup>* sample_group g' \<longrightarrow> (\<forall>t \<in> set (tg_tokens g'). tk_phase t = Tg_done))" by blast
  moreover have "tg_closed sample_group \<and> tg_joined sample_group" by code_simp
  moreover have "tg_step\<^sup>*\<^sup>* sample_group (snd (tg_Go sample_group))" by (rule r_into_rtranclp) (rule tg_go)
  ultimately show ?thesis unfolding list_all_iff by blast
qed

end
