(* ===== verification/Contracts.thy ===== *)
theory Contracts
  imports Node_Queue Audio_Stream Taskgroup
begin

text \<open>
  What three concurrent components promise, as small state machines of their own, and that the components refine them: the
  turn queue is a lock with priorities, the stream between synthesis and player a pipe, the task group a counting
  semaphore that can be closed. A simulation takes every step of the code's model to steps of the abstract machine, so
  whatever holds of the abstract machine holds of the code.
\<close>

locale simulation = machine init step inv for init :: "'s \<Rightarrow> bool" and step :: "'s \<Rightarrow> 's \<Rightarrow> bool" and inv :: "'s \<Rightarrow> bool" +
  fixes ainit :: "'a \<Rightarrow> bool" and astep :: "'a \<Rightarrow> 'a \<Rightarrow> bool" and view :: "'s \<Rightarrow> 'a"
  assumes view_init: "init s \<Longrightarrow> ainit (view s)"
    and view_step: "inv s \<Longrightarrow> step s t \<Longrightarrow> astep\<^sup>*\<^sup>* (view s) (view t)"
begin

lemma reach_more: "reach ainit astep a \<Longrightarrow> astep\<^sup>*\<^sup>* a b \<Longrightarrow> reach ainit astep b"
  by (rotate_tac, induction rule: rtranclp_induct) (auto intro: reach_step)

lemma reach_view: "reach init step s \<Longrightarrow> reach ainit astep (view s)"
proof (induction rule: reach.induct)
  case (reach_step s t)
  then show ?case using reach_more view_step [OF reach_inv [OF reach_step.hyps(1)]] by blast
qed (simp add: view_init reach_init)

text \<open>What the abstract machine never violates the code never violates.\<close>

lemma view_safe: "(\<And>a. reach ainit astep a \<Longrightarrow> P a) \<Longrightarrow> reach init step s \<Longrightarrow> P (view s)"
  using reach_view by blast

end

subsection \<open>The turn queue is a lock with priorities\<close>

text \<open>Who waits is a set of keys; there is no heap, no condition variable, and nobody sleeps or wakes.\<close>

record turn_lock =
  tl_next :: nat
  tl_waiting :: "turn_key set"
  tl_owner :: "nat option"
  tl_closed :: bool

inductive tl_step :: "turn_lock \<Rightarrow> turn_lock \<Rightarrow> bool" where
  tl_arrives: "\<not> tl_closed l \<Longrightarrow> card (tl_waiting l) < 32 \<Longrightarrow>
    tl_step l (l\<lparr>tl_next := tl_next l + 1, tl_waiting := insert (Turn_key priority (tl_next l)) (tl_waiting l)\<rparr>)"
| tl_grants: "\<not> tl_closed l \<Longrightarrow> tl_owner l = None \<Longrightarrow> k \<in> tl_waiting l \<Longrightarrow> (\<forall>j \<in> tl_waiting l. k \<le> j) \<Longrightarrow>
    tl_step l (l\<lparr>tl_waiting := tl_waiting l - {k}, tl_owner := Some (tk_seq k)\<rparr>)"
| tl_gives_up: "k \<in> tl_waiting l \<Longrightarrow> tl_step l (l\<lparr>tl_waiting := tl_waiting l - {k}\<rparr>)"
| tl_returns: "tl_owner l = Some s \<Longrightarrow> tl_step l (l\<lparr>tl_owner := None\<rparr>)"
| tl_closes: "tl_step l (l\<lparr>tl_closed := True\<rparr>)"

definition tl_New :: turn_lock where
  "tl_New = \<lparr>tl_next = 0, tl_waiting = {}, tl_owner = None, tl_closed = False\<rparr>"

definition lock_view :: "node_queue \<Rightarrow> turn_lock" where
  "lock_view q = \<lparr>tl_next = nq_seq q, tl_waiting = set (pq_keys (nq_pq q)),
     tl_owner = (case nq_owners q of [] \<Rightarrow> None | s # _ \<Rightarrow> Some s), tl_closed = nq_closed q\<rparr>"

lemma lock_view_broadcast [simp]: "lock_view (nq_broadcast q) = lock_view q"
  by (simp add: lock_view_def nq_broadcast_def)

lemma keys_taken:
  assumes "add_mset (waiter_key w) (mset (pq_keys pq')) = mset (pq_keys pq)" and "distinct (map wt_seq pq)"
  shows "set (pq_keys pq') = set (pq_keys pq) - {waiter_key w}"
proof -
  have "waiter_key w \<notin> set (pq_keys pq')"
    using taken_facts(3) [OF assms] by (auto simp: waiter_key_def)
  moreover have "set (pq_keys pq) = insert (waiter_key w) (set (pq_keys pq'))"
    using arg_cong [OF assms(1), of set_mset] by simp
  ultimately show ?thesis by auto
qed

text \<open>One run of the loop: nothing, a grant to the least key, or a waiter that gives up.\<close>

lemma nq_loop_view:
  assumes base: "nq_base q" and waiting: "nq_waiting {s} q"
  shows "tl_step\<^sup>=\<^sup>= (lock_view q) (lock_view (snd (nq_loop cerr s q)))"
proof (cases "cerr \<noteq> None \<or> nq_closed q")
  case True
  have s: "s \<in> set (nq_seqs q)" using waiting by (auto simp: nq_waiting_def)
  obtain i where i: "i < length (nq_pq q)" "nq_index s q = Some i"
    using nq_index_found [OF _ s] base by (auto simp: nq_base_def)
  obtain w pq' where r: "pq_heap_Remove i (nq_pq q) = (w, pq')" by force
  have rem: "waiter_key w = waiter_key (nq_pq q ! i)" "add_mset (waiter_key w) (mset (pq_keys pq')) = mset (pq_keys (nq_pq q))"
    using pq_heap_Remove_correct [OF _ i(1) r] base by (auto simp: nq_base_def)
  have "lock_view (snd (nq_loop cerr s q)) = (lock_view q)\<lparr>tl_waiting := tl_waiting (lock_view q) - {waiter_key w}\<rparr>"
    using True i(2) r keys_taken [OF rem(2)] base by (auto simp: nq_loop_def lock_view_def nq_broadcast_def nq_base_def)
  moreover have "waiter_key w \<in> tl_waiting (lock_view q)" using rem(1) i(1) by (simp add: lock_view_def)
  ultimately show ?thesis using tl_gives_up [of "waiter_key w" "lock_view q"] by simp
next
  case open': False
  show ?thesis
  proof (cases "\<not> nq_busy q \<and> nq_pq q \<noteq> [] \<and> wt_seq (nq_pq q ! 0) = s")
    case True
    obtain w pq' where r: "pq_heap_Pop (nq_pq q) = (w, pq')" by force
    have pop: "waiter_key w = waiter_key (nq_pq q ! 0)" "add_mset (waiter_key w) (mset (pq_keys pq')) = mset (pq_keys (nq_pq q))"
      using pq_heap_Pop_correct [OF _ _ r] True base by (auto simp: nq_base_def)
    have head: "waiter_key w \<in> tl_waiting (lock_view q)" "tk_seq (waiter_key w) = s"
      using pop(1) True by (auto simp: lock_view_def waiter_key_def)
    have least: "\<forall>j \<in> tl_waiting (lock_view q). waiter_key w \<le> j"
      using heap_root_least [of "length (nq_pq q)" "pq_keys (nq_pq q)"] base True pop(1)
      by (auto simp: lock_view_def nq_base_def pq_ok_def in_set_conv_nth)
    have "tl_step (lock_view q) ((lock_view q)\<lparr>tl_waiting := tl_waiting (lock_view q) - {waiter_key w}, tl_owner := Some (tk_seq (waiter_key w))\<rparr>)"
      by (rule tl_grants [OF _ _ head(1) least]) (use open' True base in \<open>simp_all add: lock_view_def nq_base_def\<close>)
    moreover have "lock_view (snd (nq_loop cerr s q)) =
        (lock_view q)\<lparr>tl_waiting := tl_waiting (lock_view q) - {waiter_key w}, tl_owner := Some (tk_seq (waiter_key w))\<rparr>"
      using open' True r keys_taken [OF pop(2)] base head(2) by (simp add: nq_loop_def lock_view_def nq_base_def)
    ultimately show ?thesis by simp
  next
    case False
    then have "lock_view (snd (nq_loop cerr s q)) = lock_view q" using open' by (auto simp: nq_loop_def lock_view_def)
    then show ?thesis by simp
  qed
qed

lemma nq_arrived_view:
  assumes "nq_inv q" and "\<not> nq_closed q" and "length (nq_pq q) < 32"
  shows "tl_step (lock_view q) (lock_view (nq_arrived priority q))"
proof -
  have "mset (pq_keys (pq_heap_Push (arriving priority q) (nq_pq q))) = add_mset (waiter_key (arriving priority q)) (mset (pq_keys (nq_pq q)))"
    using pq_heap_Push_correct assms(1) by (simp add: nq_inv_def nq_base_def)
  then have "set (pq_keys (pq_heap_Push (arriving priority q) (nq_pq q))) = insert (waiter_key (arriving priority q)) (set (pq_keys (nq_pq q)))"
    by (metis set_mset_add_mset_insert set_mset_mset)
  moreover have "waiter_key (arriving priority q) = Turn_key priority (nq_seq q)" by (simp add: arriving_def waiter_key_def)
  ultimately have "lock_view (nq_arrived priority q) =
      (lock_view q)\<lparr>tl_next := tl_next (lock_view q) + 1, tl_waiting := insert (Turn_key priority (tl_next (lock_view q))) (tl_waiting (lock_view q))\<rparr>"
    by (simp add: lock_view_def nq_arrived_def del: set_map)
  moreover have "card (tl_waiting (lock_view q)) < 32"
    using assms(3) card_length [of "pq_keys (nq_pq q)"] by (simp add: lock_view_def)
  ultimately show ?thesis using tl_arrives [of "lock_view q" priority] assms(2) by (simp add: lock_view_def)
qed

lemma nq_step_view: "nq_inv q \<Longrightarrow> nq_step q q' \<Longrightarrow> tl_step\<^sup>*\<^sup>* (lock_view q) (lock_view q')"
proof (erule nq_step.cases, goal_cases)
  case (1 q0 cerr priority)
  show ?case
  proof (cases "nq_closed q \<or> 32 \<le> length (nq_pq q)")
    case True
    then show ?thesis using 1 by (auto simp: nq_acquire_cases)
  next
    case False
    then have "tl_step (lock_view q) (lock_view (nq_arrived priority q))"
        "tl_step\<^sup>=\<^sup>= (lock_view (nq_arrived priority q)) (lock_view (snd (nq_loop cerr (nq_seq q) (nq_arrived priority q))))"
      using 1 nq_arrived_view nq_loop_view [OF nq_arrived_inv] by simp_all
    then show ?thesis using 1 False by (auto simp: nq_acquire_cases)
  qed
next
  case (2 s q0 cerr)
  let ?q = "q\<lparr>nq_woken := removeAll s (nq_woken q)\<rparr>"
  have "nq_base ?q" "nq_waiting {s} ?q" using 2 by (auto simp: nq_inv_def nq_base_def nq_waiting_def)
  from nq_loop_view [OF this, of cerr] have "tl_step\<^sup>=\<^sup>= (lock_view q) (lock_view q')"
    using 2 by (simp add: nq_wake_def lock_view_def)
  then show ?case by auto
next
  case (4 q0 s)
  then show ?case using tl_returns [of "lock_view q" s]
    by (cases "s \<in> set (nq_owners q)")
      (auto simp: nq_release_def lock_view_def nq_broadcast_def nq_inv_def nq_base_def split: if_splits)
next
  case (5 q0)
  then show ?case using tl_closes [of "lock_view q"] by (simp add: nq_close_def lock_view_def nq_broadcast_def r_into_rtranclp)
qed simp

interpretation turn_queue: simulation "\<lambda>q. q = newNodeQueue" nq_step nq_inv "\<lambda>l. l = tl_New" tl_step lock_view
proof
  show "lock_view q = tl_New" if "q = newNodeQueue" for q
    using that by (simp add: lock_view_def tl_New_def newNodeQueue_def)
qed (rule nq_step_view)

text \<open>The lock itself: a bounded number of waiters, all with keys of their own, and the owner is not one of them.\<close>

definition tl_inv :: "turn_lock \<Rightarrow> bool" where
  "tl_inv l \<longleftrightarrow> finite (tl_waiting l) \<and> card (tl_waiting l) \<le> 32 \<and> inj_on tk_seq (tl_waiting l) \<and>
     (\<forall>k \<in> tl_waiting l. tk_seq k < tl_next l) \<and>
     (\<forall>s. tl_owner l = Some s \<longrightarrow> s < tl_next l \<and> s \<notin> tk_seq ` tl_waiting l)"

lemma tl_step_inv:
  assumes "tl_inv l" and "tl_step l l'"
  shows "tl_inv l'"
  using assms(2)
proof cases
  case (tl_arrives priority)
  have "tl_next l \<notin> tk_seq ` tl_waiting l" using assms(1) by (auto simp: tl_inv_def)
  then show ?thesis using assms(1) tl_arrives by (auto simp: tl_inv_def card_insert_if less_Suc_eq)
next
  case (tl_grants k)
  have "inj_on tk_seq (insert k (tl_waiting l - {k}))" using assms(1) tl_grants by (simp add: tl_inv_def insert_absorb)
  then show ?thesis using assms(1) tl_grants
    by (auto simp: tl_inv_def card_Diff_singleton_if inj_on_insert intro: inj_on_diff)
next
  case (tl_gives_up k)
  have "inj_on tk_seq (tl_waiting l - {k})" using assms(1) by (auto simp: tl_inv_def intro: inj_on_diff)
  then show ?thesis using assms(1) tl_gives_up by (auto simp: tl_inv_def card_Diff_singleton_if)
qed (use assms(1) in \<open>auto simp: tl_inv_def\<close>)

interpretation lock_machine: machine "\<lambda>l. l = tl_New" tl_step tl_inv
proof
  show "tl_inv l" if "l = tl_New" for l using that by (simp add: tl_inv_def tl_New_def)
qed (rule tl_step_inv)

text \<open>What \<open>acquire\<close> and a woken waiter answer, on the lock.\<close>

lemma nq_loop_outcome:
  assumes "nq_base q" and "nq_waiting {s} q"
  shows "(fst (nq_loop cerr s q) = Nq_owned s' \<longrightarrow>
      s' = s \<and> tl_owner (lock_view q) = None \<and> tl_owner (lock_view (snd (nq_loop cerr s q))) = Some s) \<and>
    (\<forall>e. fst (nq_loop cerr s q) = Nq_error e \<longrightarrow> tl_owner (lock_view (snd (nq_loop cerr s q))) = tl_owner (lock_view q))"
  using assms(1) by (auto simp: nq_loop_def lock_view_def nq_base_def nq_broadcast_def split: option.splits if_splits)

text \<open>C4: The turn queue of a node, with its heap, its condition variable and the waiters that are asleep, refines a lock
  with priorities: every step of the code is a sequence of steps of the lock, which grants a turn only when nobody owns
  it, only while it is open, and only to the least key that waits, so to the highest priority and within it to the
  first to arrive. What \<open>acquire\<close> answers is what the lock did: an owned turn is one the lock granted in that call.\<close>

theorem turn_queue_refines_lock:
  assumes "reach (\<lambda>q. q = newNodeQueue) nq_step q" and "nq_step q q'"
  shows "reach (\<lambda>l. l = tl_New) tl_step (lock_view q) \<and> tl_step\<^sup>*\<^sup>* (lock_view q) (lock_view q') \<and>
    card (tl_waiting (lock_view q)) \<le> 32 \<and>
    (\<forall>s. tl_owner (lock_view q) = Some s \<longrightarrow> s \<notin> tk_seq ` tl_waiting (lock_view q)) \<and>
    (\<forall>cerr priority s. fst (nq_acquire cerr priority q) = Nq_owned s \<longrightarrow>
       tl_owner (lock_view q) = None \<and> tl_owner (lock_view (snd (nq_acquire cerr priority q))) = Some s)"
proof -
  have inv: "nq_inv q" by (rule nq_machine.reach_inv [OF assms(1)])
  have lock: "reach (\<lambda>l. l = tl_New) tl_step (lock_view q)" by (rule turn_queue.reach_view [OF assms(1)])
  have owned: "tl_owner (lock_view q) = None \<and> tl_owner (lock_view (snd (nq_acquire cerr priority q))) = Some s"
    if "fst (nq_acquire cerr priority q) = Nq_owned s" for cerr priority s
  proof -
    have free: "\<not> nq_closed q" "length (nq_pq q) < 32"
      and o: "fst (nq_loop cerr (nq_seq q) (nq_arrived priority q)) = Nq_owned s"
      using that by (auto simp: nq_acquire_cases split: if_splits)
    have "tl_owner (lock_view (nq_arrived priority q)) = tl_owner (lock_view q)" by (simp add: lock_view_def nq_arrived_def)
    then show ?thesis using nq_loop_outcome [OF nq_arrived_inv [OF inv free], of cerr priority s] o free
      by (simp add: nq_acquire_cases)
  qed
  have "tl_inv (lock_view q)" by (rule lock_machine.reach_inv [OF lock])
  then show ?thesis using lock owned turn_queue.view_step [OF inv assms(2)] by (simp add: tl_inv_def)
qed

text \<open>The first to ask owns the node.\<close>

theorem turn_queue_refines_lock_witness:
  "fst (nq_acquire None 10 newNodeQueue) = Nq_owned 0 \<and> tl_owner (lock_view (snd (nq_acquire None 10 newNodeQueue))) = Some 0 \<and>
   tl_step\<^sup>*\<^sup>* (lock_view newNodeQueue) (lock_view (snd (nq_acquire None 10 newNodeQueue)))"
proof -
  have "reach (\<lambda>q. q = newNodeQueue) nq_step newNodeQueue" by (rule reach_init) simp
  note t = turn_queue_refines_lock [OF this nq_enters [of _ None 10]]
  have o: "fst (nq_acquire None 10 newNodeQueue) = Nq_owned 0" by code_simp
  show ?thesis using t o by blast
qed

subsection \<open>The synthesis stream is a pipe\<close>

text \<open>A bounded first-in first-out buffer of samples that can be closed; \<open>pp_written\<close> and \<open>pp_taken\<close> are its history.\<close>

record pipe =
  pp_capacity :: int
  pp_held :: "i16 list"
  pp_written :: "i16 list"
  pp_taken :: "i16 list"
  pp_closed :: bool

inductive pp_step :: "pipe \<Rightarrow> pipe \<Rightarrow> bool" where
  pp_writes: "\<not> pp_closed p \<Longrightarrow> int (length (pp_held p @ xs)) \<le> pp_capacity p \<Longrightarrow>
    pp_step p (p\<lparr>pp_held := pp_held p @ xs, pp_written := pp_written p @ xs\<rparr>)"
| pp_takes: "pp_held p = xs @ rest \<Longrightarrow> pp_step p (p\<lparr>pp_held := rest, pp_taken := pp_taken p @ xs\<rparr>)"
| pp_closes: "pp_step p (p\<lparr>pp_closed := True\<rparr>)"

definition pp_New :: "int \<Rightarrow> pipe" where
  "pp_New capacity = \<lparr>pp_capacity = capacity, pp_held = [], pp_written = [], pp_taken = [], pp_closed = False\<rparr>"

definition pipe_view :: "stream_run \<Rightarrow> pipe" where
  "pipe_view r = \<lparr>pp_capacity = 2 * as_rate (sr_stream r), pp_held = as_buf (sr_stream r),
     pp_written = sr_read r @ as_buf (sr_stream r), pp_taken = sr_read r, pp_closed = as_done (sr_stream r)\<rparr>"

lemma sr_step_view: "sr_inv rate r \<Longrightarrow> sr_step r r' \<Longrightarrow> pp_step\<^sup>=\<^sup>= (pipe_view r) (pipe_view r')"
proof (erule sr_stepE, goal_cases)
  case (1 samples s)
  then show ?case by (auto simp: pipe_view_def as_push_begin_def Let_def split: if_splits)
next
  case (2 samples e s)
  then show ?case using pp_closes [of "pipe_view r"] by (auto simp: pipe_view_def as_push_begin_def Let_def split: if_splits)
next
  case (3 rest s)
  then obtain moved where m: "s = as_broadcast ((sr_stream r)\<lparr>as_buf := as_buf (sr_stream r) @ FloatToPCM16 moved\<rparr>)"
      "\<not> as_done (sr_stream r)" "int (length (as_buf s)) \<le> 2 * as_rate (sr_stream r)"
    using as_push_turn_moves by blast
  then show ?case using 3 pp_writes [of "pipe_view r" "FloatToPCM16 moved"] by (simp add: pipe_view_def)
next
  case (4 s)
  then show ?case using as_push_turn_waits [OF 4(5)] by (simp add: pipe_view_def)
next
  case (6 generated)
  then show ?case using pp_closes [of "pipe_view r"]
    by (auto simp: pipe_view_def gen_ends_def as_finish_def split: option.splits)
next
  case (8 n chunk e s)
  consider "s = sr_stream r" "chunk = []" | b where "s = as_broadcast ((sr_stream r)\<lparr>as_buf := b\<rparr>)" "as_buf (sr_stream r) = chunk @ b"
    using as_read_gives [OF 8(5)] by metis
  then show ?case
  proof cases
    case 1
    then show ?thesis using 8(2) by (simp add: pipe_view_def)
  next
    case (2 b)
    then show ?thesis using 8(2) pp_takes [of "pipe_view r" chunk b] by (simp add: pipe_view_def)
  qed
next
  case (9 n s)
  then show ?case using as_read_waits [OF 9(5)] by (simp add: pipe_view_def)
qed (simp_all add: pipe_view_def)

interpretation synthesis_stream:
  simulation "\<lambda>r. r = sr_start rate" sr_step "\<lambda>r. sr_inv rate r \<and> sr_parked_inv r" "\<lambda>p. p = pp_New (2 * rate)" pp_step pipe_view for rate
proof
  show "pipe_view r = pp_New (2 * rate)" if "r = sr_start rate" for r
    using that by (simp add: pipe_view_def pp_New_def sr_start_def newStreamingAudioStream_def)
  show "pp_step\<^sup>*\<^sup>* (pipe_view r) (pipe_view r')" if "sr_inv rate r \<and> sr_parked_inv r" "sr_step r r'" for r r'
    using sr_step_view [OF conjunct1 [OF that(1)] that(2)] by auto
qed

text \<open>A pipe gives back what was written, in order, and loses nothing.\<close>

lemma pipe_conserves: "reach (\<lambda>p. p = pp_New c) pp_step p \<Longrightarrow> pp_written p = pp_taken p @ pp_held p"
proof (induction rule: reach.induct)
  case (reach_step p p')
  from reach_step(2) show ?case using reach_step(3) by cases auto
qed (simp add: pp_New_def)

lemma stream_is_pipe:
  assumes "reach (\<lambda>r. r = sr_start rate) sr_step r"
  shows "reach (\<lambda>p. p = pp_New (2 * rate)) pp_step (pipe_view r)"
  by (rule synthesis_stream.reach_view [OF assms])

subsection \<open>The task group is a semaphore\<close>

record semaphore =
  sm_limit :: int
  sm_held :: int
  sm_closed :: bool

inductive sm_step :: "semaphore \<Rightarrow> semaphore \<Rightarrow> bool" where
  sm_takes: "\<not> sm_closed m \<Longrightarrow> sm_held m < sm_limit m \<Longrightarrow> sm_step m (m\<lparr>sm_held := sm_held m + 1\<rparr>)"
| sm_gives: "0 < sm_held m \<Longrightarrow> sm_step m (m\<lparr>sm_held := sm_held m - 1\<rparr>)"
| sm_closes: "sm_step m (m\<lparr>sm_closed := True\<rparr>)"

definition sm_view :: "task_group \<Rightarrow> semaphore" where
  "sm_view g = \<lparr>sm_limit = tg_limit g, sm_held = tg_active g, sm_closed = tg_closed g\<rparr>"

lemma tg_Start_view: "sm_step\<^sup>=\<^sup>= (sm_view g) (sm_view (snd (tg_Start p g)))"
  using sm_takes [of "sm_view g"] by (auto simp: tg_Start_def sm_view_def split: option.splits)

lemma tg_release_view:
  assumes "tg_inv g"
  shows "sm_step\<^sup>=\<^sup>= (sm_view g) (sm_view (tg_finish_release i g))"
proof (cases "i < length (tg_tokens g) \<and> tk_phase (tg_tokens g ! i) = Tg_running")
  case True
  then have "tg_in_phase {Tg_running} g \<noteq> 0" by (auto simp: filter_empty_conv)
  then have "0 < tg_active g" using assms by (simp add: tg_inv_def)
  then show ?thesis using True sm_gives [of "sm_view g"] by (simp add: tg_finish_release_def sm_view_def)
qed (auto simp: tg_finish_release_def)

lemma tg_step_view: "tg_inv g \<Longrightarrow> tg_step g g' \<Longrightarrow> sm_step\<^sup>=\<^sup>= (sm_view g) (sm_view g')"
proof (erule tg_step.cases, goal_cases)
  case (1 g0 parent)
  then show ?case using tg_Start_view by simp
next
  case (2 g0)
  then show ?case using tg_Start_view by (simp add: tg_Go_def)
next
  case (3 g0 i)
  then show ?case using tg_release_view by simp
next
  case (7 g0)
  then show ?case using sm_closes [of "sm_view g"] by (auto simp: tg_Close_def tg_cancel_def sm_view_def split: option.splits)
qed (auto simp: tg_finish_done_def tg_after_func_def tg_cancel_def sm_view_def split: option.splits)

interpretation task_semaphore:
  simulation "\<lambda>g. \<exists>p n. g = tg_New p n" tg_step tg_inv "\<lambda>m. sm_held m = 0 \<and> \<not> sm_closed m" sm_step sm_view
proof
  show "sm_held (sm_view g) = 0 \<and> \<not> sm_closed (sm_view g)" if "\<exists>p n. g = tg_New p n" for g
    using that by (auto simp: sm_view_def tg_New_def)
  show "sm_step\<^sup>*\<^sup>* (sm_view g) (sm_view g')" if "tg_inv g" "tg_step g g'" for g g'
    using tg_step_view [OF that] by auto
qed

end
