(* ===== verification/Paths.thy ===== *)
theory Paths
  imports Go_Prelude
begin

text \<open>
  The lexical functions of Go's \<open>path/filepath\<close> on Unix that the sources call: \<open>Clean\<close>, \<open>IsAbs\<close>,
  \<open>Join\<close>, \<open>Rel\<close>, \<open>Ext\<close>. A path is split at its slashes; \<open>Clean\<close> keeps a stack of components.
\<close>

fun split_on :: "char \<Rightarrow> string \<Rightarrow> string list" where
  "split_on d [] = [[]]"
| "split_on d (c # s) =
     (if c = d then [] # split_on d s
      else case split_on d s of [] \<Rightarrow> [[c]] | w # ws \<Rightarrow> (c # w) # ws)"

fun join_with :: "char \<Rightarrow> string list \<Rightarrow> string" where
  "join_with d [] = []"
| "join_with d [w] = w"
| "join_with d (w # ws) = w @ d # join_with d ws"

abbreviation slash :: char where "slash \<equiv> CHR ''/''"

fun clean_comps :: "bool \<Rightarrow> string list \<Rightarrow> string list \<Rightarrow> string list" where
  "clean_comps rooted acc [] = rev acc"
| "clean_comps rooted acc (c # cs) =
     (if c = [] \<or> c = ''.'' then clean_comps rooted acc cs
      else if c = ''..'' then
        (case acc of
           a # as \<Rightarrow> if a = ''..'' then clean_comps rooted (''..'' # acc) cs else clean_comps rooted as cs
         | [] \<Rightarrow> if rooted then clean_comps rooted [] cs else clean_comps rooted [''..''] cs)
      else clean_comps rooted (c # acc) cs)"

definition path_IsAbs :: "string \<Rightarrow> bool" where
  "path_IsAbs s = has_prefix s ''/''"

definition path_comps :: "string \<Rightarrow> string list" where
  "path_comps s = clean_comps (path_IsAbs s) [] (split_on slash s)"

definition path_of :: "bool \<Rightarrow> string list \<Rightarrow> string" where
  "path_of rooted cs =
     (if rooted then slash # join_with slash cs else if cs = [] then ''.'' else join_with slash cs)"

definition path_Clean :: "string \<Rightarrow> string" where
  "path_Clean s = path_of (path_IsAbs s) (path_comps s)"

definition path_Join :: "string list \<Rightarrow> string" where
  "path_Join elems =
     (case filter (\<lambda>e. e \<noteq> []) elems of [] \<Rightarrow> [] | es \<Rightarrow> path_Clean (join_with slash es))"

text \<open>\<open>Rel\<close>: the components left of both paths after their common prefix.\<close>

fun strip_common :: "'a list \<Rightarrow> 'a list \<Rightarrow> 'a list \<times> 'a list" where
  "strip_common (a # as) (b # bs) = (if a = b then strip_common as bs else (a # as, b # bs))"
| "strip_common as bs = (as, bs)"

definition path_Rel :: "string \<Rightarrow> string \<Rightarrow> string option" where
  "path_Rel base target =
     (if path_IsAbs base \<noteq> path_IsAbs target then None
      else case strip_common (path_comps base) (path_comps target) of
        (b, t) \<Rightarrow>
          if b \<noteq> [] \<and> hd b = ''..'' then None
          else Some (path_of False (replicate (length b) ''..'' @ t)))"

text \<open>The extension: from the last dot of the last component.\<close>

definition path_Ext :: "string \<Rightarrow> string" where
  "path_Ext s =
     (let tail = takeWhile (\<lambda>c. c \<noteq> slash) (rev s)
      in if CHR ''.'' \<in> set tail then rev (takeWhile (\<lambda>c. c \<noteq> CHR ''.'') tail @ ''.'') else [])"

subsection \<open>Clean paths\<close>

definition comp_ok :: "string \<Rightarrow> bool" where
  "comp_ok c \<longleftrightarrow> c \<noteq> [] \<and> c \<noteq> ''.'' \<and> slash \<notin> set c"

lemma split_on_no: "d \<notin> set w \<Longrightarrow> split_on d w = [w]"
  by (induction w) auto

lemma split_on_ne [simp]: "split_on d s \<noteq> []"
  by (induction s) (auto split: list.splits)

lemma split_on_append: "d \<notin> set w \<Longrightarrow> split_on d (w @ d # s) = w # split_on d s"
  by (induction w) auto

lemma split_on_parts: "w \<in> set (split_on d s) \<Longrightarrow> d \<notin> set w"
  by (induction s arbitrary: w) (auto split: if_splits list.splits)

lemma split_join: "ws \<noteq> [] \<Longrightarrow> \<forall>w \<in> set ws. d \<notin> set w \<Longrightarrow> split_on d (join_with d ws) = ws"
  by (induction d ws rule: join_with.induct) (auto simp: split_on_no split_on_append)

lemma clean_comps_ok:
  "\<forall>c \<in> set cs. slash \<notin> set c \<Longrightarrow> \<forall>a \<in> set acc. comp_ok a \<Longrightarrow> \<forall>c \<in> set (clean_comps r acc cs). comp_ok c"
proof (induction cs arbitrary: acc)
  case (Cons c cs)
  have up: "comp_ok ''..''" by (simp add: comp_ok_def)
  have acc: "\<forall>a \<in> set (tl acc). comp_ok a" using Cons.prems(2) by (cases acc) auto
  have cs: "\<forall>c \<in> set cs. slash \<notin> set c" using Cons.prems(1) by simp
  show ?case
  proof (cases "c = [] \<or> c = ''.''")
    case True
    then show ?thesis using Cons.IH [OF cs Cons.prems(2)] by simp
  next
    case f: False
    show ?thesis
    proof (cases "c = ''..''")
      case True
      show ?thesis
      proof (cases acc)
        case Nil
        have "\<forall>c \<in> set (clean_comps r [] cs). comp_ok c" by (rule Cons.IH [OF cs]) simp
        moreover have "\<forall>c \<in> set (clean_comps r [''..''] cs). comp_ok c" by (rule Cons.IH [OF cs]) (simp add: up)
        ultimately show ?thesis using True Nil by (cases r) simp_all
      next
        case acc': (Cons a as)
        have "\<forall>c \<in> set (clean_comps r (''..'' # acc) cs). comp_ok c"
          by (rule Cons.IH [OF cs]) (use Cons.prems(2) up in simp)
        moreover have "\<forall>c \<in> set (clean_comps r as cs). comp_ok c"
          by (rule Cons.IH [OF cs]) (use acc acc' in simp)
        ultimately show ?thesis using True acc' by (cases "a = ''..''") simp_all
      qed
    next
      case False
      then have "comp_ok c" using f Cons.prems(1) by (simp add: comp_ok_def)
      then have "\<forall>d \<in> set (c # acc). comp_ok d" using Cons.prems(2) by simp
      from Cons.IH [OF cs this] show ?thesis using f False by simp
    qed
  qed
qed simp

lemma path_comps_ok: "\<forall>c \<in> set (path_comps s). comp_ok c"
  unfolding path_comps_def using split_on_parts by (intro clean_comps_ok) auto

lemma clean_comps_rooted_no_up:
  "''..'' \<notin> set acc \<Longrightarrow> ''..'' \<notin> set (clean_comps True acc cs)"
  by (induction True acc cs rule: clean_comps.induct) (auto split: list.splits if_splits)

lemma path_comps_no_up: "path_IsAbs s \<Longrightarrow> ''..'' \<notin> set (path_comps s)"
  by (simp add: path_comps_def clean_comps_rooted_no_up)

lemma clean_comps_id:
  "\<forall>c \<in> set cs. comp_ok c \<and> c \<noteq> ''..'' \<Longrightarrow> clean_comps r acc cs = rev acc @ cs"
  by (induction cs arbitrary: acc) (auto simp: comp_ok_def)

lemma path_comps_of_rooted:
  assumes "\<forall>c \<in> set cs. comp_ok c \<and> c \<noteq> ''..''"
  shows "path_IsAbs (path_of True cs) \<and> path_comps (path_of True cs) = cs"
proof -
  have abs: "path_IsAbs (path_of True cs)" by (simp add: path_of_def path_IsAbs_def has_prefix_def)
  have "split_on slash (path_of True cs) = [] # split_on slash (join_with slash cs)"
    by (simp add: path_of_def)
  moreover have "clean_comps True [] (split_on slash (join_with slash cs)) = cs"
  proof (cases "cs = []")
    case False
    then have "split_on slash (join_with slash cs) = cs" using assms by (intro split_join) (auto simp: comp_ok_def)
    then show ?thesis using clean_comps_id [OF assms] by simp
  qed simp
  ultimately show ?thesis using abs by (simp add: path_comps_def)
qed

text \<open>\<open>Clean\<close> of an absolute path is absolute and has the components of the path, none of them \<open>..\<close>.\<close>

lemma path_Clean_abs:
  assumes "path_IsAbs s"
  shows "path_IsAbs (path_Clean s) \<and> path_comps (path_Clean s) = path_comps s"
proof -
  have "\<forall>c \<in> set (path_comps s). comp_ok c \<and> c \<noteq> ''..''"
    using path_comps_ok [of s] path_comps_no_up [OF assms] by auto
  from path_comps_of_rooted [OF this] show ?thesis by (simp add: path_Clean_def assms)
qed

lemma path_Clean_idem: "path_IsAbs s \<Longrightarrow> path_Clean (path_Clean s) = path_Clean s"
  using path_Clean_abs [of s] by (simp add: path_Clean_def)

lemma strip_common_spec:
  "strip_common as bs = (as', bs') \<Longrightarrow> \<exists>p. as = p @ as' \<and> bs = p @ bs'"
proof (induction as bs rule: strip_common.induct)
  case (1 a as b bs)
  then show ?case by (auto split: if_splits intro: exI [of _ "a # _"])
qed auto

lemma path_of_rel_up:
  assumes "n \<noteq> 0"
  shows "path_of False (replicate n ''..'' @ t) = ''..'' \<or> has_prefix (path_of False (replicate n ''..'' @ t)) ''../''"
proof -
  obtain m where n: "n = Suc m" using assms by (cases n) auto
  show ?thesis
  proof (cases "replicate m ''..'' @ t")
    case Nil
    then show ?thesis by (simp add: n path_of_def)
  next
    case (Cons c cs)
    then have "path_of False (replicate n ''..'' @ t) = ''../'' @ join_with slash (c # cs)"
      by (simp add: n path_of_def)
    then show ?thesis by (metis has_prefix_append)
  qed
qed

lemma path_of_rel_down:
  assumes "\<forall>c \<in> set t. comp_ok c \<and> c \<noteq> ''..''"
  shows "path_of False t \<noteq> ''..'' \<and> \<not> has_prefix (path_of False t) ''../''"
proof (cases t)
  case Nil
  then show ?thesis by (simp add: path_of_def has_prefix_def)
next
  case (Cons c cs)
  have c: "c \<noteq> []" "c \<noteq> ''..''" "slash \<notin> set c" using assms Cons by (auto simp: comp_ok_def)
  have hd: "split_on slash (path_of False t) = t"
  proof -
    have "path_of False t = join_with slash t" by (simp add: path_of_def Cons)
    moreover have "split_on slash (join_with slash t) = t"
      by (rule split_join) (use assms Cons in \<open>auto simp: comp_ok_def\<close>)
    ultimately show ?thesis by simp
  qed
  show ?thesis
  proof (intro conjI notI)
    assume "path_of False t = ''..''"
    then have "t = [''..'']" using hd by (simp add: split_on_no)
    then show False using c Cons by simp
  next
    assume "has_prefix (path_of False t) ''../''"
    then obtain r where "path_of False t = ''../'' @ r" using has_prefixD by blast
    then have "t = ''..'' # split_on slash r" using hd split_on_append [of slash "''..''" r] by simp
    then show False using c Cons by simp
  qed
qed

text \<open>For absolute paths the test of \<open>Rel\<close>'s answer is the test of being inside.\<close>

lemma path_Rel_inside:
  assumes "path_IsAbs base" and "path_IsAbs target"
  shows "\<exists>rel. path_Rel base target = Some rel \<and>
    ((rel = ''..'' \<or> has_prefix rel ''../'') \<longleftrightarrow> \<not> (\<exists>t. path_comps target = path_comps base @ t))"
proof -
  obtain b t where bt: "strip_common (path_comps base) (path_comps target) = (b, t)" by force
  from strip_common_spec [OF this] obtain p where p: "path_comps base = p @ b" "path_comps target = p @ t" by blast
  have up: "''..'' \<notin> set (path_comps base)" using path_comps_no_up assms by blast
  then have "\<not> (b \<noteq> [] \<and> hd b = ''..'')" using p(1) by (cases b) auto
  then have r: "path_Rel base target = Some (path_of False (replicate (length b) ''..'' @ t))"
    using assms bt by (simp add: path_Rel_def)
  show ?thesis
  proof (cases "b = []")
    case True
    have "\<forall>c \<in> set t. comp_ok c \<and> c \<noteq> ''..''"
      using path_comps_ok [of target] path_comps_no_up [OF assms(2)] p(2) by auto
    then show ?thesis using r True p path_of_rel_down by auto
  next
    case False
    have no: "\<nexists>u. path_comps target = path_comps base @ u"
    proof
      assume "\<exists>u. path_comps target = path_comps base @ u"
      then obtain u where "p @ t = p @ b @ u" using p by auto
      then have "strip_common (p @ b) (p @ b @ u) = (b, b @ u)" using bt p by simp
      moreover have "strip_common (as @ []) (as @ u) = ([], u)" for as :: "string list"
        by (induction as) (cases u; auto)+
      from this [of "p @ b"] have "strip_common (p @ b) (p @ b @ u) = ([], u)" by simp
      ultimately show False using False by simp
    qed
    then show ?thesis using r path_of_rel_up [of "length b" t] False by auto
  qed
qed

end
