(* ===== verification/Config.thy ===== *)
theory Config
  imports Go_Float Paths
begin

text \<open>
  The configuration and its validation (internal/config/config.go). The records follow the structs
  field by field. What \<open>url.Parse\<close> and \<open>os.Stat\<close> answer, and the decoding of the YAML document, are
  parameters. A Go map is visited in any order; where the code reports the first offender the model
  visits the entries in the order of the source text, and no claim depends on which is reported.
\<close>

record security_config =
  sc_AuthToken :: string
  sc_AllowedOrigins :: "string list"

record vad_config =
  vc_SileroOnnxPath :: string
  vc_Threshold :: f32
  vc_MinSilenceDurationMs :: int

record asr_config =
  ac_Engine :: string
  ac_Language :: string
  ac_Encoder :: string
  ac_Decoder :: string
  ac_Tokens :: string

record speaker_id_config =
  si_Model :: string
  si_EmbeddingsDir :: string
  si_MinAudioDurationSeconds :: f32
  si_ConfidenceThreshold :: f32
  si_ChallengeFailedPrompt :: string
  si_ChallengeInitPrompt :: string
  si_ChallengePrompts :: "string list"

record mqtt_config =
  mq_Enabled :: bool
  mq_Broker :: string
  mq_ClientID :: string
  mq_Username :: string
  mq_Password :: string
  mq_TopicPrefix :: string
  mq_QoS :: int
  mq_AutoReconnect :: bool

record cache_config =
  cc_Enabled :: bool
  cc_Dir :: string
  cc_PreGenerate :: "string list"

record tts_config =
  tc_Engine :: string
  tc_ModelDir :: string
  tc_Model :: string
  tc_Tokens :: string
  tc_DataDir :: string
  tc_Sid :: int
  tc_NumSteps :: int
  tc_Speed :: f32
  tc_Lang :: string
  tc_CacheConfig :: cache_config

record models_config =
  mc_VAD :: vad_config
  mc_ASR :: asr_config
  mc_SpeakerID :: speaker_id_config
  mc_TTS :: tts_config

record diagnostics_config =
  dc_Enabled :: bool
  dc_RecordingDir :: string

record audio_config =
  au_InputDeviceIndex :: string
  au_OutputDeviceIndex :: string
  au_SampleRate :: int
  au_Gain :: f32

record ice_server =
  ic_URLs :: "string list"
  ic_Username :: string
  ic_Credential :: string

record rtc_stream_config =
  rs_ICEServers :: "ice_server list option"
  rs_ApiURL :: string
  rs_StreamName :: string
  rs_OutputGainDb :: f32
  rs_TalkbackStream :: string
  rs_TalkbackInStream :: string
  rs_EchoCancellation :: bool

record kws_config =
  kw_Enabled :: bool
  kw_Encoder :: string
  kw_Decoder :: string
  kw_Joiner :: string
  kw_Tokens :: string
  kw_KeywordsFile :: string
  kw_Threshold :: f32
  kw_AutoAsk :: bool
  kw_AutoAskBargeIn :: bool
  kw_AutoAskTimeoutSeconds :: f64
  kw_AutoAskCaptureDelaySeconds :: f64
  kw_PostSpeechSilenceSeconds :: f64
  kw_AutoAskRecord :: bool
  kw_Priority :: int
  kw_WakeResponses :: "string list"
  kw_NumThreads :: int

record node_config =
  nc_Diagnostics :: diagnostics_config
  nc_NodeID :: string
  nc_Type :: string
  nc_Audio :: audio_config
  nc_RTCStream :: rtc_stream_config
  nc_KWS :: kws_config

record app_config =
  cf_GlobalNumThreads :: int
  cf_Models :: models_config
  cf_MQTT :: mqtt_config
  cf_Security :: security_config
  cf_Nodes :: "node_config list"

text \<open>What the code looks at in a parsed URL.\<close>

record go_url =
  ur_Scheme :: string
  ur_Host :: string
  ur_RawQuery :: string
  ur_Fragment :: string
  ur_Hostname :: string

subsection \<open>Accessors with defaults\<close>

definition GetKWSNumThreads :: "node_config \<Rightarrow> int \<Rightarrow> int" where
  "GetKWSNumThreads n d = (if 0 < kw_NumThreads (nc_KWS n) then kw_NumThreads (nc_KWS n) else d)"

definition GetAutoAskTimeoutSeconds :: "node_config \<Rightarrow> f64 \<Rightarrow> f64" where
  "GetAutoAskTimeoutSeconds n d =
     (if f_lt (Fin 0) (kw_AutoAskTimeoutSeconds (nc_KWS n)) then kw_AutoAskTimeoutSeconds (nc_KWS n) else d)"

definition GetAutoAskCaptureDelaySeconds :: "node_config \<Rightarrow> f64 \<Rightarrow> f64" where
  "GetAutoAskCaptureDelaySeconds n d =
     (if f_lt (kw_AutoAskCaptureDelaySeconds (nc_KWS n)) (Fin 0) then d
      else kw_AutoAskCaptureDelaySeconds (nc_KWS n))"

definition GetPostSpeechSilenceSeconds :: "node_config \<Rightarrow> f64 \<Rightarrow> f64" where
  "GetPostSpeechSilenceSeconds n d =
     (if f_lt (Fin 0) (kw_PostSpeechSilenceSeconds (nc_KWS n)) then kw_PostSpeechSilenceSeconds (nc_KWS n) else d)"

subsection \<open>normalizeAndValidate\<close>

definition validNumber :: "f64 \<Rightarrow> f64 \<Rightarrow> f64 \<Rightarrow> bool" where
  "validNumber v lo hi \<longleftrightarrow> \<not> f_is_nan v \<and> \<not> f_is_inf v \<and> f_le lo v \<and> f_le v hi"

text \<open>The decimal constants of the source, as \<open>float64\<close> values.\<close>

abbreviation f64_0_01 :: f64 where "f64_0_01 \<equiv> fround float64 (1 / 100)"
abbreviation f64_0_1 :: f64 where "f64_0_1 \<equiv> fround float64 (1 / 10)"

definition required_paths :: "models_config \<Rightarrow> (string \<times> string) list" where
  "required_paths m =
     [(''models.asr.encoder'', ac_Encoder (mc_ASR m)), (''models.asr.decoder'', ac_Decoder (mc_ASR m)),
      (''models.asr.tokens'', ac_Tokens (mc_ASR m)), (''models.vad.silero_onnx_path'', vc_SileroOnnxPath (mc_VAD m)),
      (''models.speaker_id.model'', si_Model (mc_SpeakerID m))] @
     (if tc_Engine (mc_TTS m) = ''supertonic'' then [(''models.tts.model_dir'', tc_ModelDir (mc_TTS m))]
      else [(''models.tts.model'', tc_Model (mc_TTS m)), (''models.tts.tokens'', tc_Tokens (mc_TTS m)),
            (''models.tts.data_dir'', tc_DataDir (mc_TTS m))])"

definition normalize_vad :: "vad_config \<Rightarrow> vad_config result" where
  "normalize_vad v0 =
     (let v1 = (if f_eq (vc_Threshold v0) (Fin 0) then v0\<lparr>vc_Threshold := Fin (1 / 2)\<rparr> else v0)
      in if \<not> validNumber (vc_Threshold v1) f64_0_01 (Fin 1) then Inl (Msg ''VAD threshold must be in (0,1]'')
         else
           let v2 = (if vc_MinSilenceDurationMs v1 = 0 then v1\<lparr>vc_MinSilenceDurationMs := 700\<rparr> else v1)
           in if vc_MinSilenceDurationMs v2 < 1 \<or> 20000 < vc_MinSilenceDurationMs v2
              then Inl (Msg ''VAD silence duration must be in [1,20000] ms'') else Inr v2)"

definition normalize_tts :: "tts_config \<Rightarrow> tts_config result" where
  "normalize_tts t0 =
     (let t = (if f_eq (tc_Speed t0) (Fin 0) then t0\<lparr>tc_Speed := Fin 1\<rparr> else t0)
      in if \<not> validNumber (tc_Speed t) f64_0_1 (Fin 10) \<or> tc_Sid t < 0 \<or> tc_NumSteps t < 0 \<or> 100 < tc_NumSteps t
         then Inl (Msg ''invalid TTS speed, speaker or step count'')
         else if cc_Enabled (tc_CacheConfig t) \<and> cc_Dir (tc_CacheConfig t) = []
         then Inl (Msg ''TTS cache directory is required when caching is enabled'') else Inr t)"

definition normalize_models :: "models_config \<Rightarrow> models_config result" where
  "normalize_models m =
     (let asr = mc_ASR m; tts = mc_TTS m; sp = mc_SpeakerID m in
      if ac_Engine asr \<noteq> ''whisper'' \<and> ac_Engine asr \<noteq> ''moonshine''
      then Inl (Msg ''models.asr.engine must be whisper or moonshine'')
      else
        let asr = (if ac_Language asr = [] then asr\<lparr>ac_Language := ''es''\<rparr> else asr) in
        if tc_Engine tts \<noteq> ''vits'' \<and> tc_Engine tts \<noteq> ''supertonic''
        then Inl (Msg ''models.tts.engine must be vits or supertonic'')
        else case find (\<lambda>(name, path). is_blank path) (required_paths m) of
          Some (name, path) \<Rightarrow> Inl (Msg (name @ '' is required''))
        | None \<Rightarrow>
            (case normalize_vad (mc_VAD m) of
               Inl e \<Rightarrow> Inl e
             | Inr vad \<Rightarrow>
                 if \<not> validNumber (si_ConfidenceThreshold sp) (Fin 0) (Fin 1) \<or>
                    \<not> validNumber (si_MinAudioDurationSeconds sp) (Fin 0) (Fin 120)
                 then Inl (Msg ''invalid speaker confidence or duration'')
                 else case normalize_tts tts of
                   Inl e \<Rightarrow> Inl e
                 | Inr tts' \<Rightarrow>
                     if list_ex (\<lambda>t. 4000 < length t) (cc_PreGenerate (tc_CacheConfig tts') @ si_ChallengePrompts sp)
                     then Inl (Msg ''configured phrase exceeds 4000 bytes'')
                     else Inr (m\<lparr>mc_ASR := asr, mc_VAD := vad, mc_TTS := tts'\<rparr>)))"

definition validate_mqtt :: "(string \<Rightarrow> go_url option) \<Rightarrow> mqtt_config \<Rightarrow> unit result" where
  "validate_mqtt url_parse q =
     (if mq_QoS q < 0 \<or> 2 < mq_QoS q then Inl (Msg ''mqtt.qos must be in [0,2]'')
      else if mq_Enabled q \<and>
        (case url_parse (mq_Broker q) of
           None \<Rightarrow> True
         | Some u \<Rightarrow> ur_Host u = [] \<or> ur_Scheme u \<notin> {''tcp'', ''ssl'', ''ws'', ''wss''})
      then Inl (Msg ''invalid MQTT broker URL'') else Inr ())"

definition normalize_audio :: "string \<Rightarrow> audio_config \<Rightarrow> audio_config result" where
  "normalize_audio nodeID a0 =
     (let a1 = (if au_SampleRate a0 = 0 then a0\<lparr>au_SampleRate := 16000\<rparr> else a0)
      in if au_SampleRate a1 \<noteq> 16000 then Inl (Msg (''node '' @ nodeID @ '': capture sample_rate must be 16000''))
         else
           let a2 = (if f_eq (au_Gain a1) (Fin 0) then a1\<lparr>au_Gain := Fin 1\<rparr> else a1)
           in if \<not> validNumber (au_Gain a2) f64_0_01 (Fin 100)
              then Inl (Msg (''node '' @ nodeID @ '': invalid capture gain'')) else Inr a2)"

definition validate_rtc :: "(string \<Rightarrow> go_url option) \<Rightarrow> string \<Rightarrow> rtc_stream_config \<Rightarrow> unit result" where
  "validate_rtc url_parse nodeID r =
     (if (case url_parse (rs_ApiURL r) of
            None \<Rightarrow> True
          | Some u \<Rightarrow> ur_Host u = [] \<or> ur_Scheme u \<notin> {''http'', ''https''} \<or> ur_RawQuery u \<noteq> [] \<or> ur_Fragment u \<noteq> [])
      then Inl (Msg (''node '' @ nodeID @ '': invalid go2rtc API URL''))
      else if rs_StreamName r = [] then Inl (Msg (''node '' @ nodeID @ '': stream_name is required''))
      else Inr ())"

definition check_kws :: "int \<Rightarrow> string \<Rightarrow> kws_config \<Rightarrow> go_error option" where
  "check_kws threads nodeID k =
     (if kw_Enabled k \<and> \<not> validNumber (kw_Threshold k) f64_0_01 (Fin 1)
      then Some (Msg (''node '' @ nodeID @ '': invalid KWS threshold''))
      else if kw_NumThreads k < 0 \<or> threads < kw_NumThreads k
      then Some (Msg (''node '' @ nodeID @ '': KWS threads exceed global thread budget''))
      else if \<not> validNumber (kw_AutoAskTimeoutSeconds k) (Fin 0) (Fin 120) \<or>
              \<not> validNumber (kw_PostSpeechSilenceSeconds k) (Fin 0) (Fin 20) \<or>
              \<not> validNumber (kw_AutoAskCaptureDelaySeconds k) (Fin (- 1)) (Fin 20)
      then Some (Msg (''node '' @ nodeID @ '': invalid ask duration''))
      else if list_ex (\<lambda>t. 4000 < length t) (kw_WakeResponses k)
      then Some (Msg (''node '' @ nodeID @ '': wake response exceeds 4000 bytes''))
      else None)"

definition kws_paths_missing :: "kws_config \<Rightarrow> bool" where
  "kws_paths_missing k \<longleftrightarrow>
     kw_Encoder k = [] \<or> kw_Decoder k = [] \<or> kw_Joiner k = [] \<or> kw_Tokens k = [] \<or> kw_KeywordsFile k = []"

definition normalize_kws :: "int \<Rightarrow> string \<Rightarrow> kws_config \<Rightarrow> kws_config result" where
  "normalize_kws threads nodeID k0 =
     (if kw_Enabled k0 \<and> kws_paths_missing k0
      then Inl (Msg (''node '' @ nodeID @ '': all KWS model paths are required''))
      else
        let k = (if kw_Enabled k0 \<and> f_eq (kw_Threshold k0) (Fin 0) then k0\<lparr>kw_Threshold := Fin (1 / 4)\<rparr> else k0)
        in case check_kws threads nodeID k of Some e \<Rightarrow> Inl e | None \<Rightarrow> Inr k)"

text \<open>The body of the loop over the nodes, for one node whose ID is not yet known to be new.\<close>

definition normalize_node ::
    "(string \<Rightarrow> go_url option) \<Rightarrow> int \<Rightarrow> string list \<Rightarrow> node_config \<Rightarrow> node_config result" where
  "normalize_node url_parse threads ids n =
     (if is_blank (nc_NodeID n) \<or> nc_NodeID n = ''all'' \<or> nc_NodeID n \<in> set ids
      then Inl (Msg (''node IDs must be unique, nonempty and cannot be all: '' @ go_quote (nc_NodeID n)))
      else if nc_Type n \<noteq> ''local'' \<and> nc_Type n \<noteq> ''rtc_stream''
      then Inl (Msg (''unsupported node type '' @ go_quote (nc_Type n)))
      else case
        (if nc_Type n = ''local'' then normalize_audio (nc_NodeID n) (nc_Audio n)
         else case validate_rtc url_parse (nc_NodeID n) (nc_RTCStream n) of
           Inl e \<Rightarrow> Inl e | Inr _ \<Rightarrow> Inr (nc_Audio n)) of
        Inl e \<Rightarrow> Inl e
      | Inr a \<Rightarrow>
          if \<not> validNumber (rs_OutputGainDb (nc_RTCStream n)) (Fin (- 60)) (Fin 30)
          then Inl (Msg (''node '' @ nc_NodeID n @ '': invalid output gain''))
          else case normalize_kws threads (nc_NodeID n) (nc_KWS n) of
            Inl e \<Rightarrow> Inl e
          | Inr k \<Rightarrow> Inr (n\<lparr>nc_Audio := a, nc_KWS := k\<rparr>))"

fun normalize_nodes ::
    "(string \<Rightarrow> go_url option) \<Rightarrow> int \<Rightarrow> string list \<Rightarrow> node_config list \<Rightarrow> node_config list result" where
  "normalize_nodes url_parse threads ids [] = Inr []"
| "normalize_nodes url_parse threads ids (n # ns) =
     (case normalize_node url_parse threads ids n of
        Inl e \<Rightarrow> Inl e
      | Inr n' \<Rightarrow>
          (case normalize_nodes url_parse threads (nc_NodeID n # ids) ns of
             Inl e \<Rightarrow> Inl e
           | Inr ns' \<Rightarrow> Inr (n' # ns')))"

definition normalizeAndValidate :: "(string \<Rightarrow> go_url option) \<Rightarrow> app_config \<Rightarrow> app_config result" where
  "normalizeAndValidate url_parse c0 =
     (let c = (if cf_GlobalNumThreads c0 = 0 then c0\<lparr>cf_GlobalNumThreads := 4\<rparr> else c0)
      in if cf_GlobalNumThreads c < 1 \<or> 256 < cf_GlobalNumThreads c
         then Inl (Msg ''global_num_threads must be in [1,256]'')
         else case normalize_models (cf_Models c) of
           Inl e \<Rightarrow> Inl e
         | Inr m \<Rightarrow>
             (case validate_mqtt url_parse (cf_MQTT c) of
                Inl e \<Rightarrow> Inl e
              | Inr _ \<Rightarrow>
                  (case normalize_nodes url_parse (cf_GlobalNumThreads c) [] (cf_Nodes c) of
                     Inl e \<Rightarrow> Inl e
                   | Inr ns \<Rightarrow> Inr (c\<lparr>cf_Models := m, cf_Nodes := ns\<rparr>))))"

text \<open>
  \<open>LoadConfig\<close>: the file, the strict decoding of its first document and what decoding a second one
  answers are parameters.
\<close>

definition LoadConfig ::
    "(string \<Rightarrow> go_url option) \<Rightarrow> (string \<Rightarrow> 'd result) \<Rightarrow> ('d \<Rightarrow> app_config result) \<Rightarrow> ('d \<Rightarrow> go_error option) \<Rightarrow>
     string \<Rightarrow> app_config result" where
  "LoadConfig url_parse read_file decode decode_next path =
     (case read_file path of
        Inl e \<Rightarrow> Inl e
      | Inr data \<Rightarrow>
          (case decode data of
             Inl e \<Rightarrow> Inl e
           | Inr cfg \<Rightarrow>
               if decode_next data \<noteq> Some Io_EOF then Inl (Msg ''configuration must contain one YAML document'')
               else normalizeAndValidate url_parse cfg))"

subsection \<open>ValidateModelFiles\<close>

datatype file_kind = Regular_file | Directory | Other_file

text \<open>Which model families a channel mode needs: ASR, TTS, speaker, VAD, KWS.\<close>

definition mode_needs :: "string \<Rightarrow> (bool \<times> bool \<times> bool \<times> bool \<times> bool) option" where
  "mode_needs mode =
     (if mode = ''webrtc'' then Some (True, True, True, True, True)
      else if mode = ''demo'' then Some (True, True, True, False, False)
      else if mode = ''asr-file'' then Some (True, False, False, False, False)
      else if mode = ''wake-file'' then Some (False, False, False, False, True)
      else if mode = ''wake-file-vad'' then Some (False, False, False, True, True)
      else if mode = ''rtc-say'' then Some (False, True, False, False, False)
      else if mode = ''rtc-record'' \<or> mode = ''rtc-loopback'' then Some (False, False, False, False, False)
      else None)"

definition model_files :: "bool \<times> bool \<times> bool \<times> bool \<times> bool \<Rightarrow> string \<Rightarrow> string \<Rightarrow> app_config \<Rightarrow> string list" where
  "model_files needs mode nodeID c =
     (case needs of (asr, tts, speaker, vad, kws) \<Rightarrow>
        let m = cf_Models c in
        (if asr then [ac_Encoder (mc_ASR m), ac_Decoder (mc_ASR m), ac_Tokens (mc_ASR m)] else []) @
        (if speaker then [si_Model (mc_SpeakerID m)] else []) @
        (if vad then [vc_SileroOnnxPath (mc_VAD m)] else []) @
        (if tts \<and> tc_Engine (mc_TTS m) = ''supertonic'' then
           map (\<lambda>name. path_Join [tc_ModelDir (mc_TTS m), name])
             [''duration_predictor.int8.onnx'', ''text_encoder.int8.onnx'', ''vector_estimator.int8.onnx'',
              ''vocoder.int8.onnx'', ''tts.json'', ''unicode_indexer.bin'', ''voice.bin'']
         else if tts then [tc_Model (mc_TTS m), tc_Tokens (mc_TTS m)] else []) @
        concat (map (\<lambda>n. if kws \<and> kw_Enabled (nc_KWS n) \<and> (mode = ''webrtc'' \<or> nc_NodeID n = nodeID)
          then [kw_Encoder (nc_KWS n), kw_Decoder (nc_KWS n), kw_Joiner (nc_KWS n), kw_Tokens (nc_KWS n),
                kw_KeywordsFile (nc_KWS n)] else []) (cf_Nodes c)))"

definition model_dirs :: "bool \<times> bool \<times> bool \<times> bool \<times> bool \<Rightarrow> app_config \<Rightarrow> string list" where
  "model_dirs needs c =
     (case needs of (asr, tts, speaker, vad, kws) \<Rightarrow>
        if tts \<and> tc_Engine (mc_TTS (cf_Models c)) \<noteq> ''supertonic'' then [tc_DataDir (mc_TTS (cf_Models c))] else [])"

fun check_files :: "(string \<Rightarrow> file_kind result) \<Rightarrow> string list \<Rightarrow> go_error option" where
  "check_files stat [] = None"
| "check_files stat (p # ps) =
     (case stat p of
        Inl e \<Rightarrow> Some (Wrap (''model file '' @ p @ '': '') e)
      | Inr k \<Rightarrow> if k \<noteq> Regular_file then Some (Msg (''model path '' @ p @ '' must be a regular file''))
                  else check_files stat ps)"

fun check_dirs :: "(string \<Rightarrow> file_kind result) \<Rightarrow> string list \<Rightarrow> go_error option" where
  "check_dirs stat [] = None"
| "check_dirs stat (p # ps) =
     (case stat p of
        Inl e \<Rightarrow> Some e
      | Inr k \<Rightarrow> if k \<noteq> Directory then Some (Msg (''model path '' @ p @ '' must be a directory''))
                  else check_dirs stat ps)"

definition ValidateModelFiles ::
    "(string \<Rightarrow> file_kind result) \<Rightarrow> string \<Rightarrow> string \<Rightarrow> app_config \<Rightarrow> go_error option" where
  "ValidateModelFiles stat mode nodeID c =
     (case mode_needs mode of
        None \<Rightarrow> Some (Msg (''unsupported channel mode '' @ go_quote mode))
      | Some needs \<Rightarrow>
          (case check_files stat (model_files needs mode nodeID c) of
             Some e \<Rightarrow> Some e
           | None \<Rightarrow> check_dirs stat (model_dirs needs c)))"

subsection \<open>What a validated configuration satisfies\<close>

definition in_range :: "rat \<Rightarrow> rat \<Rightarrow> go_float \<Rightarrow> bool" where
  "in_range lo hi v \<longleftrightarrow> (\<exists>q. v = Fin q \<and> lo \<le> q \<and> q \<le> hi)"

lemma in_range_Fin [simp]: "in_range lo hi (Fin q) \<longleftrightarrow> lo \<le> q \<and> q \<le> hi"
  by (simp add: in_range_def)

lemma validNumber_Fin: "validNumber v (Fin lo) (Fin hi) \<longleftrightarrow> in_range lo hi v"
  by (cases v) (auto simp: validNumber_def in_range_def)

lemma f64_0_01_val: "f64_0_01 = Fin (5764607523034235 / 576460752303423488)" by code_simp

lemma f64_0_1_val: "f64_0_1 = Fin (3602879701896397 / 36028797018963968)" by code_simp

lemma in_range_mono: "in_range lo hi v \<Longrightarrow> lo' \<le> lo \<Longrightarrow> in_range lo' hi v"
  by (auto simp: in_range_def)

definition node_valid :: "(string \<Rightarrow> go_url option) \<Rightarrow> int \<Rightarrow> node_config \<Rightarrow> bool" where
  "node_valid url_parse threads n \<longleftrightarrow>
     \<not> is_blank (nc_NodeID n) \<and> nc_NodeID n \<noteq> ''all'' \<and>
     (nc_Type n = ''local'' \<and> au_SampleRate (nc_Audio n) = 16000 \<and> in_range (1 / 100) 100 (au_Gain (nc_Audio n)) \<or>
      nc_Type n = ''rtc_stream'' \<and> rs_StreamName (nc_RTCStream n) \<noteq> [] \<and>
        (\<exists>u. url_parse (rs_ApiURL (nc_RTCStream n)) = Some u \<and> ur_Host u \<noteq> [] \<and>
             ur_Scheme u \<in> {''http'', ''https''} \<and> ur_RawQuery u = [] \<and> ur_Fragment u = [])) \<and>
     in_range (- 60) 30 (rs_OutputGainDb (nc_RTCStream n)) \<and>
     (kw_Enabled (nc_KWS n) \<longrightarrow> in_range (1 / 100) 1 (kw_Threshold (nc_KWS n)) \<and>
       kw_Encoder (nc_KWS n) \<noteq> [] \<and> kw_Decoder (nc_KWS n) \<noteq> [] \<and> kw_Joiner (nc_KWS n) \<noteq> [] \<and>
       kw_Tokens (nc_KWS n) \<noteq> [] \<and> kw_KeywordsFile (nc_KWS n) \<noteq> []) \<and>
     0 \<le> kw_NumThreads (nc_KWS n) \<and> kw_NumThreads (nc_KWS n) \<le> threads \<and>
     in_range 0 120 (kw_AutoAskTimeoutSeconds (nc_KWS n)) \<and>
     in_range 0 20 (kw_PostSpeechSilenceSeconds (nc_KWS n)) \<and>
     in_range (- 1) 20 (kw_AutoAskCaptureDelaySeconds (nc_KWS n)) \<and>
     (\<forall>t \<in> set (kw_WakeResponses (nc_KWS n)). length t \<le> 4000)"

definition models_valid :: "models_config \<Rightarrow> bool" where
  "models_valid m \<longleftrightarrow>
     ac_Engine (mc_ASR m) \<in> {''whisper'', ''moonshine''} \<and> ac_Language (mc_ASR m) \<noteq> [] \<and>
     tc_Engine (mc_TTS m) \<in> {''vits'', ''supertonic''} \<and>
     \<not> is_blank (ac_Encoder (mc_ASR m)) \<and> \<not> is_blank (ac_Decoder (mc_ASR m)) \<and> \<not> is_blank (ac_Tokens (mc_ASR m)) \<and>
     \<not> is_blank (vc_SileroOnnxPath (mc_VAD m)) \<and> \<not> is_blank (si_Model (mc_SpeakerID m)) \<and>
     (tc_Engine (mc_TTS m) = ''supertonic'' \<longrightarrow> \<not> is_blank (tc_ModelDir (mc_TTS m))) \<and>
     (tc_Engine (mc_TTS m) = ''vits'' \<longrightarrow> \<not> is_blank (tc_Model (mc_TTS m)) \<and> \<not> is_blank (tc_Tokens (mc_TTS m)) \<and>
       \<not> is_blank (tc_DataDir (mc_TTS m))) \<and>
     in_range (1 / 100) 1 (vc_Threshold (mc_VAD m)) \<and>
     1 \<le> vc_MinSilenceDurationMs (mc_VAD m) \<and> vc_MinSilenceDurationMs (mc_VAD m) \<le> 20000 \<and>
     in_range 0 1 (si_ConfidenceThreshold (mc_SpeakerID m)) \<and>
     in_range 0 120 (si_MinAudioDurationSeconds (mc_SpeakerID m)) \<and>
     in_range (1 / 10) 10 (tc_Speed (mc_TTS m)) \<and> 0 \<le> tc_Sid (mc_TTS m) \<and>
     0 \<le> tc_NumSteps (mc_TTS m) \<and> tc_NumSteps (mc_TTS m) \<le> 100 \<and>
     (cc_Enabled (tc_CacheConfig (mc_TTS m)) \<longrightarrow> cc_Dir (tc_CacheConfig (mc_TTS m)) \<noteq> []) \<and>
     (\<forall>t \<in> set (cc_PreGenerate (tc_CacheConfig (mc_TTS m))) \<union> set (si_ChallengePrompts (mc_SpeakerID m)). length t \<le> 4000)"

definition config_valid :: "(string \<Rightarrow> go_url option) \<Rightarrow> app_config \<Rightarrow> bool" where
  "config_valid url_parse c \<longleftrightarrow>
     1 \<le> cf_GlobalNumThreads c \<and> cf_GlobalNumThreads c \<le> 256 \<and> models_valid (cf_Models c) \<and>
     0 \<le> mq_QoS (cf_MQTT c) \<and> mq_QoS (cf_MQTT c) \<le> 2 \<and>
     (mq_Enabled (cf_MQTT c) \<longrightarrow>
       (\<exists>u. url_parse (mq_Broker (cf_MQTT c)) = Some u \<and> ur_Host u \<noteq> [] \<and>
            ur_Scheme u \<in> {''tcp'', ''ssl'', ''ws'', ''wss''})) \<and>
     distinct (map nc_NodeID (cf_Nodes c)) \<and>
     (\<forall>n \<in> set (cf_Nodes c). node_valid url_parse (cf_GlobalNumThreads c) n)"

lemma normalize_vad_valid:
  assumes "normalize_vad v = Inr v'"
  shows "in_range (1 / 100) 1 (vc_Threshold v') \<and> 1 \<le> vc_MinSilenceDurationMs v' \<and>
    vc_MinSilenceDurationMs v' \<le> 20000 \<and> vc_SileroOnnxPath v' = vc_SileroOnnxPath v \<and> normalize_vad v' = Inr v'"
proof -
  have "in_range (1 / 100) 1 x" if "validNumber x f64_0_01 (Fin 1)" for x
    using that unfolding f64_0_01_val validNumber_Fin by (rule in_range_mono) simp
  moreover have "validNumber (vc_Threshold v') f64_0_01 (Fin 1) \<and> 1 \<le> vc_MinSilenceDurationMs v' \<and>
      vc_MinSilenceDurationMs v' \<le> 20000 \<and> vc_SileroOnnxPath v' = vc_SileroOnnxPath v"
    using assms by (auto simp: normalize_vad_def Let_def split: if_splits)
  moreover from this have "\<not> f_eq (vc_Threshold v') (Fin 0)"
    unfolding f64_0_01_val by (cases "vc_Threshold v'") (auto simp: validNumber_def)
  ultimately show ?thesis by (simp add: normalize_vad_def)
qed

lemma normalize_tts_valid:
  assumes "normalize_tts t = Inr t'"
  shows "in_range (1 / 10) 10 (tc_Speed t') \<and> 0 \<le> tc_Sid t' \<and> 0 \<le> tc_NumSteps t' \<and> tc_NumSteps t' \<le> 100 \<and>
    (cc_Enabled (tc_CacheConfig t') \<longrightarrow> cc_Dir (tc_CacheConfig t') \<noteq> []) \<and> tc_Engine t' = tc_Engine t \<and>
    tc_ModelDir t' = tc_ModelDir t \<and> tc_Model t' = tc_Model t \<and> tc_Tokens t' = tc_Tokens t \<and>
    tc_DataDir t' = tc_DataDir t \<and> tc_CacheConfig t' = tc_CacheConfig t \<and> normalize_tts t' = Inr t'"
proof -
  have "in_range (1 / 10) 10 x" if "validNumber x f64_0_1 (Fin 10)" for x
    using that unfolding f64_0_1_val validNumber_Fin by (rule in_range_mono) simp
  moreover have v: "validNumber (tc_Speed t') f64_0_1 (Fin 10) \<and> 0 \<le> tc_Sid t' \<and> 0 \<le> tc_NumSteps t' \<and> tc_NumSteps t' \<le> 100 \<and>
    (cc_Enabled (tc_CacheConfig t') \<longrightarrow> cc_Dir (tc_CacheConfig t') \<noteq> []) \<and> tc_Engine t' = tc_Engine t \<and>
    tc_ModelDir t' = tc_ModelDir t \<and> tc_Model t' = tc_Model t \<and> tc_Tokens t' = tc_Tokens t \<and>
    tc_DataDir t' = tc_DataDir t \<and> tc_CacheConfig t' = tc_CacheConfig t"
    using assms by (auto simp: normalize_tts_def Let_def split: if_splits)
  moreover have "\<not> f_eq (tc_Speed t') (Fin 0)"
    using v unfolding f64_0_1_val by (cases "tc_Speed t'") (auto simp: validNumber_def)
  ultimately show ?thesis by (auto simp: normalize_tts_def not_less)
qed

lemma normalize_models_valid:
  assumes "normalize_models m = Inr m'"
  shows "models_valid m' \<and> normalize_models m' = Inr m'"
proof -
  define asr where "asr = (if ac_Language (mc_ASR m) = [] then (mc_ASR m)\<lparr>ac_Language := ''es''\<rparr> else mc_ASR m)"
  obtain vad tts where vad: "normalize_vad (mc_VAD m) = Inr vad" and tts: "normalize_tts (mc_TTS m) = Inr tts"
    and m': "m' = m\<lparr>mc_ASR := asr, mc_VAD := vad, mc_TTS := tts\<rparr>"
    and eng: "ac_Engine (mc_ASR m) = ''whisper'' \<or> ac_Engine (mc_ASR m) = ''moonshine''"
      "tc_Engine (mc_TTS m) = ''vits'' \<or> tc_Engine (mc_TTS m) = ''supertonic''"
    and paths: "find (\<lambda>(name, path). is_blank path) (required_paths m) = None"
    and sp: "validNumber (si_ConfidenceThreshold (mc_SpeakerID m)) (Fin 0) (Fin 1)"
      "validNumber (si_MinAudioDurationSeconds (mc_SpeakerID m)) (Fin 0) (Fin 120)"
    and phrases: "\<not> list_ex (\<lambda>t. 4000 < length t) (cc_PreGenerate (tc_CacheConfig tts) @ si_ChallengePrompts (mc_SpeakerID m))"
    using assms unfolding normalize_models_def Let_def asr_def
    by (auto split: if_splits sum.splits option.splits prod.splits)
  note v = normalize_vad_valid [OF vad] and t = normalize_tts_valid [OF tts]
  have asr: "ac_Language asr \<noteq> []" "ac_Engine asr = ac_Engine (mc_ASR m)" "ac_Encoder asr = ac_Encoder (mc_ASR m)"
      "ac_Decoder asr = ac_Decoder (mc_ASR m)" "ac_Tokens asr = ac_Tokens (mc_ASR m)"
    by (simp_all add: asr_def)
  have req: "required_paths m' = required_paths m" using asr t v by (simp add: required_paths_def m')
  have "\<forall>p \<in> set (required_paths m'). \<not> is_blank (snd p)"
    using paths unfolding req by (auto simp: find_None_iff)
  then have given: "\<not> is_blank (ac_Encoder (mc_ASR m'))" "\<not> is_blank (ac_Decoder (mc_ASR m'))" "\<not> is_blank (ac_Tokens (mc_ASR m'))"
      "\<not> is_blank (vc_SileroOnnxPath (mc_VAD m'))" "\<not> is_blank (si_Model (mc_SpeakerID m'))"
      "if tc_Engine (mc_TTS m') = ''supertonic'' then \<not> is_blank (tc_ModelDir (mc_TTS m'))
       else \<not> is_blank (tc_Model (mc_TTS m')) \<and> \<not> is_blank (tc_Tokens (mc_TTS m')) \<and> \<not> is_blank (tc_DataDir (mc_TTS m'))"
    by (simp_all add: required_paths_def split: if_splits)
  have cache: "cc_Enabled (tc_CacheConfig (mc_TTS m')) \<longrightarrow> cc_Dir (tc_CacheConfig (mc_TTS m')) \<noteq> []"
    using t m' by (metis models_config.select_convs(4) models_config.surjective models_config.update_convs(4))
  have engine: "tc_Engine (mc_TTS m') = ''supertonic'' \<longrightarrow> \<not> is_blank (tc_ModelDir (mc_TTS m'))"
      "tc_Engine (mc_TTS m') = ''vits'' \<longrightarrow> \<not> is_blank (tc_Model (mc_TTS m')) \<and> \<not> is_blank (tc_Tokens (mc_TTS m')) \<and>
        \<not> is_blank (tc_DataDir (mc_TTS m'))"
    using given(6) by (auto split: if_splits)
  have "ac_Engine (mc_ASR m') \<in> {''whisper'', ''moonshine''}" "tc_Engine (mc_TTS m') \<in> {''vits'', ''supertonic''}"
    using eng asr t by (simp_all add: m')
  moreover have "\<forall>t \<in> set (cc_PreGenerate (tc_CacheConfig (mc_TTS m'))) \<union> set (si_ChallengePrompts (mc_SpeakerID m')). length t \<le> 4000"
    using phrases by (auto simp: m' list_ex_iff not_less)
  ultimately have "models_valid m'"
    unfolding models_valid_def using given(1-5) engine cache v t asr(1) sp
    by (intro conjI; (assumption | simp add: m' validNumber_Fin))
  moreover have "normalize_models m' = Inr m'"
    unfolding normalize_models_def Let_def req
    using v t asr eng sp paths phrases by (simp add: m')
  ultimately show ?thesis by blast
qed

lemma normalize_audio_valid:
  assumes "normalize_audio i a = Inr a'"
  shows "au_SampleRate a' = 16000 \<and> in_range (1 / 100) 100 (au_Gain a') \<and> normalize_audio i a' = Inr a'"
proof -
  have "in_range (1 / 100) 100 x" if "validNumber x f64_0_01 (Fin 100)" for x
    using that unfolding f64_0_01_val validNumber_Fin by (rule in_range_mono) simp
  moreover have "au_SampleRate a' = 16000 \<and> validNumber (au_Gain a') f64_0_01 (Fin 100)"
    using assms by (auto simp: normalize_audio_def Let_def split: if_splits)
  moreover from this have "\<not> f_eq (au_Gain a') (Fin 0)"
    unfolding f64_0_01_val by (cases "au_Gain a'") (auto simp: validNumber_def)
  ultimately show ?thesis by (simp add: normalize_audio_def)
qed

lemma normalize_kws_valid:
  assumes "normalize_kws th i k = Inr k'"
  shows "(kw_Enabled k' \<longrightarrow> in_range (1 / 100) 1 (kw_Threshold k')) \<and> \<not> (kw_Enabled k' \<and> kws_paths_missing k') \<and>
    0 \<le> kw_NumThreads k' \<and> kw_NumThreads k' \<le> th \<and>
    in_range 0 120 (kw_AutoAskTimeoutSeconds k') \<and> in_range 0 20 (kw_PostSpeechSilenceSeconds k') \<and>
    in_range (- 1) 20 (kw_AutoAskCaptureDelaySeconds k') \<and> (\<forall>t \<in> set (kw_WakeResponses k'). length t \<le> 4000) \<and>
    normalize_kws th i k' = Inr k'"
proof -
  have r: "in_range (1 / 100) 1 x" if "validNumber x f64_0_01 (Fin 1)" for x
    using that unfolding f64_0_01_val validNumber_Fin by (rule in_range_mono) simp
  define d where "d = (if kw_Enabled k \<and> f_eq (kw_Threshold k) (Fin 0) then k\<lparr>kw_Threshold := Fin (1 / 4)\<rparr> else k)"
  have k: "k' = d" "check_kws th i k' = None" "\<not> (kw_Enabled k \<and> kws_paths_missing k)"
    using assms unfolding normalize_kws_def Let_def d_def [symmetric] by (auto split: if_splits option.splits)
  have c: "(kw_Enabled k' \<longrightarrow> validNumber (kw_Threshold k') f64_0_01 (Fin 1)) \<and> 0 \<le> kw_NumThreads k' \<and> kw_NumThreads k' \<le> th \<and>
      validNumber (kw_AutoAskTimeoutSeconds k') (Fin 0) (Fin 120) \<and>
      validNumber (kw_PostSpeechSilenceSeconds k') (Fin 0) (Fin 20) \<and>
      validNumber (kw_AutoAskCaptureDelaySeconds k') (Fin (- 1)) (Fin 20) \<and>
      (\<forall>t \<in> set (kw_WakeResponses k'). length t \<le> 4000)"
    using k(2) by (auto simp: check_kws_def list_ex_iff not_less split: if_splits)
  have "\<not> (kw_Enabled k' \<and> f_eq (kw_Threshold k') (Fin 0))"
    using c unfolding f64_0_01_val by (cases "kw_Threshold k'") (auto simp: validNumber_def)
  moreover have p: "\<not> (kw_Enabled k' \<and> kws_paths_missing k')"
    using k(1,3) by (auto simp: d_def kws_paths_missing_def)
  ultimately have "normalize_kws th i k' = Inr k'" using k(2) by (auto simp: normalize_kws_def)
  then show ?thesis using c r p by (simp add: validNumber_Fin)
qed

lemma normalize_node_valid:
  assumes "normalize_node url_parse th ids n = Inr n'"
  shows "node_valid url_parse th n' \<and> nc_NodeID n' = nc_NodeID n \<and> nc_NodeID n \<notin> set ids \<and>
    normalize_node url_parse th ids n' = Inr n'"
proof -
  obtain a k where n': "n' = n\<lparr>nc_Audio := a, nc_KWS := k\<rparr>"
    and a: "if nc_Type n = ''local'' then normalize_audio (nc_NodeID n) (nc_Audio n) = Inr a
            else nc_Type n = ''rtc_stream'' \<and> validate_rtc url_parse (nc_NodeID n) (nc_RTCStream n) = Inr () \<and> a = nc_Audio n"
    and k: "normalize_kws th (nc_NodeID n) (nc_KWS n) = Inr k"
    and i: "\<not> is_blank (nc_NodeID n)" "nc_NodeID n \<noteq> ''all''" "nc_NodeID n \<notin> set ids"
    and g: "validNumber (rs_OutputGainDb (nc_RTCStream n)) (Fin (- 60)) (Fin 30)"
    using assms unfolding normalize_node_def by (auto split: if_splits sum.splits)
  have rtc: "rs_StreamName (nc_RTCStream n) \<noteq> [] \<and>
        (\<exists>u. url_parse (rs_ApiURL (nc_RTCStream n)) = Some u \<and> ur_Host u \<noteq> [] \<and>
             ur_Scheme u \<in> {''http'', ''https''} \<and> ur_RawQuery u = [] \<and> ur_Fragment u = [])"
    if "validate_rtc url_parse (nc_NodeID n) (nc_RTCStream n) = Inr ()"
    using that by (auto simp: validate_rtc_def split: if_splits option.splits)
  note kv = normalize_kws_valid [OF k]
  have "node_valid url_parse th n'"
  proof (cases "nc_Type n = ''local''")
    case True
    then show ?thesis using normalize_audio_valid [of "nc_NodeID n" "nc_Audio n" a] a i g kv
      by (auto simp: node_valid_def n' validNumber_Fin kws_paths_missing_def)
  next
    case False
    then show ?thesis using a i g kv rtc by (auto simp: node_valid_def n' validNumber_Fin kws_paths_missing_def)
  qed
  moreover have "normalize_node url_parse th ids n' = Inr n'"
  proof (cases "nc_Type n = ''local''")
    case True
    then show ?thesis using normalize_audio_valid [of "nc_NodeID n" "nc_Audio n" a] a i g kv
      by (simp add: normalize_node_def n')
  next
    case False
    then show ?thesis using a i g kv by (simp add: normalize_node_def n')
  qed
  ultimately show ?thesis using i by (simp add: n')
qed

lemma normalize_nodes_valid:
  "normalize_nodes url_parse th ids ns = Inr ns' \<Longrightarrow>
   (\<forall>n \<in> set ns'. node_valid url_parse th n) \<and> map nc_NodeID ns' = map nc_NodeID ns \<and>
   distinct (map nc_NodeID ns) \<and> set (map nc_NodeID ns) \<inter> set ids = {} \<and>
   normalize_nodes url_parse th ids ns' = Inr ns'"
proof (induction ns arbitrary: ids ns')
  case (Cons n ns)
  obtain n' ms where n': "normalize_node url_parse th ids n = Inr n'"
    and ms: "normalize_nodes url_parse th (nc_NodeID n # ids) ns = Inr ms" and ns': "ns' = n' # ms"
    using Cons.prems by (auto split: sum.splits)
  show ?case using Cons.IH [OF ms] normalize_node_valid [OF n'] by (auto simp: ns')
qed simp

lemma normalizeAndValidate_cases:
  assumes "normalizeAndValidate url_parse c = Inr c'"
  obtains d m ns where "d = (if cf_GlobalNumThreads c = 0 then c\<lparr>cf_GlobalNumThreads := 4\<rparr> else c)"
    and "1 \<le> cf_GlobalNumThreads d" "cf_GlobalNumThreads d \<le> 256"
    and "normalize_models (cf_Models d) = Inr m" and "validate_mqtt url_parse (cf_MQTT d) = Inr ()"
    and "normalize_nodes url_parse (cf_GlobalNumThreads d) [] (cf_Nodes d) = Inr ns"
    and "c' = d\<lparr>cf_Models := m, cf_Nodes := ns\<rparr>"
  using assms unfolding normalizeAndValidate_def Let_def
  by (auto simp: not_less split: if_splits sum.splits)

text \<open>A small configuration, with one local node and the defaults left to be filled in.\<close>

definition sample_config :: app_config where
  "sample_config = \<lparr>cf_GlobalNumThreads = 0,
     cf_Models = \<lparr>
       mc_VAD = \<lparr>vc_SileroOnnxPath = ''vad.onnx'', vc_Threshold = Fin 0, vc_MinSilenceDurationMs = 0\<rparr>,
       mc_ASR = \<lparr>ac_Engine = ''whisper'', ac_Language = [], ac_Encoder = ''e'', ac_Decoder = ''d'', ac_Tokens = ''t''\<rparr>,
       mc_SpeakerID = \<lparr>si_Model = ''spk'', si_EmbeddingsDir = ''emb'', si_MinAudioDurationSeconds = Fin 1,
         si_ConfidenceThreshold = Fin (1 / 2), si_ChallengeFailedPrompt = [], si_ChallengeInitPrompt = [],
         si_ChallengePrompts = []\<rparr>,
       mc_TTS = \<lparr>tc_Engine = ''supertonic'', tc_ModelDir = ''dir'', tc_Model = [], tc_Tokens = [], tc_DataDir = [],
         tc_Sid = 0, tc_NumSteps = 5, tc_Speed = Fin 0, tc_Lang = ''es'',
         tc_CacheConfig = \<lparr>cc_Enabled = False, cc_Dir = [], cc_PreGenerate = []\<rparr>\<rparr>\<rparr>,
     cf_MQTT = \<lparr>mq_Enabled = False, mq_Broker = [], mq_ClientID = [], mq_Username = [], mq_Password = [],
       mq_TopicPrefix = [], mq_QoS = 1, mq_AutoReconnect = True\<rparr>,
     cf_Security = \<lparr>sc_AuthToken = [], sc_AllowedOrigins = []\<rparr>,
     cf_Nodes = [\<lparr>
       nc_Diagnostics = \<lparr>dc_Enabled = False, dc_RecordingDir = []\<rparr>,
       nc_NodeID = ''kitchen'', nc_Type = ''local'',
       nc_Audio = \<lparr>au_InputDeviceIndex = [], au_OutputDeviceIndex = [], au_SampleRate = 0, au_Gain = Fin 0\<rparr>,
       nc_RTCStream = \<lparr>rs_ICEServers = None, rs_ApiURL = [], rs_StreamName = [], rs_OutputGainDb = Fin 0,
         rs_TalkbackStream = [], rs_TalkbackInStream = [], rs_EchoCancellation = False\<rparr>,
       nc_KWS = \<lparr>kw_Enabled = True, kw_Encoder = ''e'', kw_Decoder = ''d'', kw_Joiner = ''j'', kw_Tokens = ''t'',
         kw_KeywordsFile = ''k'', kw_Threshold = Fin 0, kw_AutoAsk = True, kw_AutoAskBargeIn = False,
         kw_AutoAskTimeoutSeconds = Fin 0, kw_AutoAskCaptureDelaySeconds = Fin 0, kw_PostSpeechSilenceSeconds = Fin 0,
         kw_AutoAskRecord = False, kw_Priority = 0, kw_WakeResponses = [''si''], kw_NumThreads = 0\<rparr>\<rparr>]\<rparr>"

definition sample_accepted :: app_config where
  "sample_accepted = (case normalizeAndValidate (\<lambda>_. None) sample_config of Inr c \<Rightarrow> c | Inl _ \<Rightarrow> sample_config)"

lemma sample_config_accepted: "normalizeAndValidate (\<lambda>_. None) sample_config = Inr sample_accepted"
proof -
  have b: "\<not> is_blank ''vad.onnx''" "\<not> is_blank ''e''" "\<not> is_blank ''d''" "\<not> is_blank ''t''" "\<not> is_blank ''spk''"
    "\<not> is_blank ''dir''" "\<not> is_blank ''kitchen''"
    by (rule not_blank, (rule list.set_intros(1)), simp add: utf8_spaces_def)+
  have vad: "is_ok (normalize_vad (mc_VAD (cf_Models sample_config)))"
    unfolding normalize_vad_def f64_0_01_val f64_0_1_val validNumber_Fin by (simp add: sample_config_def)
  have tts: "is_ok (normalize_tts (mc_TTS (cf_Models sample_config)))"
    unfolding normalize_tts_def f64_0_01_val f64_0_1_val validNumber_Fin by (simp add: sample_config_def)
  obtain vad' where vad': "normalize_vad (mc_VAD (cf_Models sample_config)) = Inr vad'"
    using vad by (cases "normalize_vad (mc_VAD (cf_Models sample_config))") simp_all
  obtain tts' where tts': "normalize_tts (mc_TTS (cf_Models sample_config)) = Inr tts'"
    using tts by (cases "normalize_tts (mc_TTS (cf_Models sample_config))") simp_all
  have c: "tc_CacheConfig tts' = tc_CacheConfig (mc_TTS (cf_Models sample_config))"
    using normalize_tts_valid [OF tts'] by simp
  have "is_ok (normalize_models (cf_Models sample_config))"
    unfolding normalize_models_def Let_def vad' tts'
    using b c by (simp add: sample_config_def required_paths_def validNumber_Fin)
  moreover have "is_ok (validate_mqtt (\<lambda>_. None) (cf_MQTT sample_config))"
    by (simp add: validate_mqtt_def sample_config_def)
  moreover have audio: "is_ok (normalize_audio ''kitchen'' (nc_Audio (hd (cf_Nodes sample_config))))"
    unfolding normalize_audio_def f64_0_01_val f64_0_1_val validNumber_Fin by (simp add: sample_config_def)
  have kws: "is_ok (normalize_kws 4 ''kitchen'' (nc_KWS (hd (cf_Nodes sample_config))))"
    unfolding normalize_kws_def check_kws_def kws_paths_missing_def f64_0_01_val f64_0_1_val validNumber_Fin by (simp add: sample_config_def)
  have "is_ok (normalize_nodes (\<lambda>_. None) 4 [] (cf_Nodes sample_config))"
    using audio kws b by (auto simp: normalize_node_def sample_config_def validNumber_def split: sum.splits)
  moreover have "cf_GlobalNumThreads sample_config = 0" by (simp add: sample_config_def)
  ultimately have "is_ok (normalizeAndValidate (\<lambda>_. None) sample_config)"
    by (auto simp: normalizeAndValidate_def Let_def split: sum.splits)
  then show ?thesis unfolding sample_accepted_def
    by (cases "normalizeAndValidate (\<lambda>_. None) sample_config") simp_all
qed

text \<open>C7: A configuration that is accepted satisfies everything the rest of the program relies on: node
  IDs are unique, not blank and not "all", every node is a local one that captures at 16 kHz or a
  WebRTC one with an http(s) API URL and a stream name, and all numbers (thread counts, thresholds,
  gains, speeds, durations, QoS) are finite and within the bounds the source names. The model paths its engines need are
  given, an enabled cache has a directory, an enabled keyword spotter has all its files, an enabled MQTT client has a
  broker URL of a scheme it speaks with a host, and no phrase to be spoken exceeds 4000 bytes.\<close>

theorem config_accepted_valid:
  assumes "normalizeAndValidate url_parse c = Inr c'"
  shows "config_valid url_parse c'"
proof (rule normalizeAndValidate_cases [OF assms])
  fix d m ns
  assume d: "1 \<le> cf_GlobalNumThreads d" "cf_GlobalNumThreads d \<le> 256"
    and m: "normalize_models (cf_Models d) = Inr m" and q: "validate_mqtt url_parse (cf_MQTT d) = Inr ()"
    and ns: "normalize_nodes url_parse (cf_GlobalNumThreads d) [] (cf_Nodes d) = Inr ns"
    and c': "c' = d\<lparr>cf_Models := m, cf_Nodes := ns\<rparr>"
  show ?thesis using d normalize_models_valid [OF m] normalize_nodes_valid [OF ns] q
    by (auto simp: config_valid_def c' validate_mqtt_def split: if_splits option.splits)
qed

theorem config_accepted_valid_witness: "config_valid (\<lambda>_. None) sample_accepted"
  by (rule config_accepted_valid [OF sample_config_accepted])

text \<open>Normalisation is idempotent: validating an accepted configuration again accepts it and changes
  nothing.\<close>

theorem config_normalize_idempotent:
  assumes "normalizeAndValidate url_parse c = Inr c'"
  shows "normalizeAndValidate url_parse c' = Inr c'"
proof (rule normalizeAndValidate_cases [OF assms])
  fix d m ns
  assume d: "1 \<le> cf_GlobalNumThreads d" "cf_GlobalNumThreads d \<le> 256"
    and m: "normalize_models (cf_Models d) = Inr m" and q: "validate_mqtt url_parse (cf_MQTT d) = Inr ()"
    and ns: "normalize_nodes url_parse (cf_GlobalNumThreads d) [] (cf_Nodes d) = Inr ns"
    and c': "c' = d\<lparr>cf_Models := m, cf_Nodes := ns\<rparr>"
  show ?thesis using d normalize_models_valid [OF m] normalize_nodes_valid [OF ns] q
    by (simp add: normalizeAndValidate_def c')
qed

theorem config_normalize_idempotent_witness:
  "normalizeAndValidate (\<lambda>_. None) sample_accepted = Inr sample_accepted"
  using config_normalize_idempotent [OF sample_config_accepted] .

text \<open>An unset capture delay disables the delay: the accessor answers 0 and never the default it is
  given, which it uses only for a negative value.\<close>

theorem capture_delay_unset:
  "kw_AutoAskCaptureDelaySeconds (nc_KWS n) = Fin 0 \<Longrightarrow> GetAutoAskCaptureDelaySeconds n d = Fin 0"
  by (simp add: GetAutoAskCaptureDelaySeconds_def)

theorem capture_delay_unset_witness:
  "GetAutoAskCaptureDelaySeconds (hd (cf_Nodes sample_config)) (Fin (3 / 2)) = Fin 0"
  by (rule capture_delay_unset) (simp add: sample_config_def)

end
