(* ===== verification/Httpsec.thy ===== *)
theory Httpsec
  imports Config
begin

text \<open>
  The guards of the HTTP and WebSocket interfaces (internal/httpsec/httpsec.go): which browser
  origins may open a socket, which requests carry the token, and how a JSON body is read.
  \<open>url.Parse\<close>, \<open>net.ParseIP\<close>, \<open>net.SplitHostPort\<close> and the JSON decoder are parameters.
\<close>

text \<open>A request: \<open>hr_Header\<close> and \<open>hr_Query\<close> answer the empty string for what is not there.\<close>

record http_request =
  hr_Method :: string
  hr_Path :: string
  hr_Host :: string
  hr_Header :: "string \<Rightarrow> string"
  hr_Query :: "string \<Rightarrow> string"
  hr_Body :: string
  hr_ctx :: ctx_err

record net_env =
  ne_url_parse :: "string \<Rightarrow> go_url option"
  ne_parse_ip :: "string \<Rightarrow> byte list option"
  ne_split_host_port :: "string \<Rightarrow> (string \<times> string) option"

subsection \<open>Origins\<close>

text \<open>\<open>IP.To4\<close> and \<open>IP.IsLoopback\<close> of an address of 4 or 16 bytes, as \<open>net.ParseIP\<close> gives it.\<close>

definition v4_prefix :: "byte list" where
  "v4_prefix = replicate 10 0 @ [255, 255]"

definition ip_To4 :: "byte list \<Rightarrow> byte list option" where
  "ip_To4 ip =
     (if length ip = 4 then Some ip
      else if length ip = 16 \<and> take 12 ip = v4_prefix then Some (drop 12 ip) else None)"

definition ip_IsLoopback :: "byte list \<Rightarrow> bool" where
  "ip_IsLoopback ip = (case ip_To4 ip of Some ip4 \<Rightarrow> ip4 ! 0 = 127 | None \<Rightarrow> ip = replicate 15 0 @ [1])"

definition isLoopback :: "net_env \<Rightarrow> string \<Rightarrow> bool" where
  "isLoopback ne host =
     (if host = ''localhost'' then True
      else case ne_parse_ip ne host of Some ip \<Rightarrow> ip_IsLoopback ip | None \<Rightarrow> False)"

lemma ip_loopback:
  "ip_IsLoopback ip \<longleftrightarrow> ip = replicate 15 0 @ [1] \<or>
     (\<exists>b c d. ip = [127, b, c, d] \<or> ip = replicate 10 0 @ [255, 255] @ [127, b, c, d])"
proof -
  have four: "ip4 ! 0 = 127 \<longleftrightarrow> (\<exists>b c d. ip4 = [127, b, c, d])" if "length ip4 = 4" for ip4 :: "byte list"
    using that by (auto simp: length_Suc_conv numeral_eq_Suc)
  consider (v4) "length ip = 4" | (mapped) ip4 where "ip = v4_prefix @ ip4" "length ip4 = 4"
    | (v6) "length ip \<noteq> 4" "\<not> (length ip = 16 \<and> take 12 ip = v4_prefix)"
  proof (cases "length ip = 16 \<and> take 12 ip = v4_prefix")
    case True
    then have "ip = v4_prefix @ drop 12 ip" "length (drop 12 ip) = 4" by (metis append_take_drop_id, simp)
    then show thesis using that(2) by blast
  qed (use that in blast)
  then show ?thesis
  proof cases
    case v4
    then show ?thesis using four [of ip] by (auto simp: ip_IsLoopback_def ip_To4_def)
  next
    case (mapped ip4)
    have "(replicate 15 0 @ [1 :: byte]) ! 10 \<noteq> (v4_prefix @ ip4) ! 10" by (simp add: v4_prefix_def nth_append)
    then have "replicate 15 0 @ [1] \<noteq> v4_prefix @ ip4" by metis
    moreover have "v4_prefix @ ip4 \<noteq> [127, b, c, d]" for b c d
    proof
      assume "v4_prefix @ ip4 = [127, b, c, d]"
      then have "length (v4_prefix @ ip4) = length [127, b, c, d]" by (rule arg_cong)
      then show False by (simp add: v4_prefix_def)
    qed
    ultimately show ?thesis using mapped four [of ip4]
      by (auto simp: ip_IsLoopback_def ip_To4_def v4_prefix_def)
  next
    case v6
    then show ?thesis by (auto simp: ip_IsLoopback_def ip_To4_def v4_prefix_def)
  qed
qed

lemma isLoopback_iff:
  "isLoopback ne host \<longleftrightarrow> host = ''localhost'' \<or>
     (\<exists>ip. ne_parse_ip ne host = Some ip \<and>
        (ip = replicate 15 0 @ [1] \<or>
         (\<exists>b c d. ip = [127, b, c, d] \<or> ip = replicate 10 0 @ [255, 255] @ [127, b, c, d])))"
  unfolding isLoopback_def using ip_loopback by (auto split: option.split)

definition origin_key :: "string \<Rightarrow> string" where
  "origin_key o' = to_lower (trim_right (CHR ''/'') o')"

text \<open>The loop over the configured origins: whether any is allowed, and the set of keys.\<close>

fun origin_scan :: "string list \<Rightarrow> bool \<times> string set \<Rightarrow> bool \<times> string set" where
  "origin_scan [] s = s"
| "origin_scan (o' # os) (any, keys) =
     (let o1 = trim_space o'
      in if o1 = ''*'' then origin_scan os (True, keys)
         else if o1 \<noteq> [] then origin_scan os (any, insert (origin_key o1) keys)
         else origin_scan os (any, keys))"

definition OriginChecker :: "net_env \<Rightarrow> string list \<Rightarrow> http_request \<Rightarrow> bool" where
  "OriginChecker ne allowed =
     (case origin_scan allowed (False, {}) of (allowAny, keys) \<Rightarrow>
        \<lambda>r. if allowAny then True
            else let origin = hr_Header r ''Origin''
                 in if origin = [] then True
                    else if origin_key origin \<in> keys then True
                    else case ne_url_parse ne origin of
                      None \<Rightarrow> False
                    | Some u \<Rightarrow>
                        if keys = {}
                        then isLoopback ne (ur_Hostname u) \<or>
                             equal_fold (ur_Hostname u)
                               (case ne_split_host_port ne (hr_Host r) of Some (h, p) \<Rightarrow> h | None \<Rightarrow> hr_Host r)
                        else False)"

lemma origin_scan_spec:
  "origin_scan os (any, keys) =
     (any \<or> (\<exists>o' \<in> set os. trim_space o' = ''*''),
      keys \<union> {origin_key (trim_space o') | o'. o' \<in> set os \<and> trim_space o' \<noteq> ''*'' \<and> trim_space o' \<noteq> []})"
proof (induction os arbitrary: any keys)
  case (Cons a os)
  show ?case by (cases "trim_space a = ''*''"; cases "trim_space a = []") (auto simp: Cons.IH Let_def)
qed simp

subsection \<open>The token\<close>

definition Token :: "http_request \<Rightarrow> string" where
  "Token r =
     (let auth = hr_Header r ''Authorization'';
          rest = (let t = hr_Header r ''X-Auth-Token'' in if t \<noteq> [] then t else hr_Query r ''token'')
      in if auth \<noteq> [] \<and> has_prefix (to_lower auth) ''bearer ''
         then trim_space (drop (length ''bearer '') auth) else rest)"

text \<open>\<open>subtle.ConstantTimeCompare\<close>: every byte is looked at, differences are accumulated.\<close>

definition ConstantTimeCompare :: "string \<Rightarrow> string \<Rightarrow> int" where
  "ConstantTimeCompare x y =
     (if length x \<noteq> length y then 0
      else if foldl (\<lambda>v (a, b). v OR (of_char a XOR of_char b)) (0 :: byte) (zip x y) = 0 then 1 else 0)"

definition TokenValid :: "http_request \<Rightarrow> string \<Rightarrow> bool" where
  "TokenValid r expected =
     (if expected = [] then True
      else let got = Token r in if got = [] then False else ConstantTimeCompare got expected = 1)"

text \<open>What a handler answers; a JSON value is kept as the value that is encoded.\<close>

datatype 'v http_reply = Http_error nat string | Http_json nat 'v | Http_empty nat | Http_file string | Http_socket

definition RequireToken :: "string \<Rightarrow> (http_request \<Rightarrow> 'r) \<Rightarrow> (nat \<Rightarrow> string \<Rightarrow> 'r) \<Rightarrow> http_request \<Rightarrow> 'r" where
  "RequireToken expected handler reject r =
     (if \<not> TokenValid r expected then reject 401 ''unauthorized'' else handler r)"

lemma or_accumulates: "foldl (\<lambda>v (a, b). v OR (f a XOR f b)) v xs = (0 :: byte) \<longleftrightarrow> v = 0 \<and> (\<forall>(a, b) \<in> set xs. f a = f b)"
proof (induction xs arbitrary: v)
  case (Cons p xs)
  obtain a b where p: "p = (a, b)" by (cases p)
  have "v OR (f a XOR f b) = 0 \<longleftrightarrow> v = 0 \<and> f a = f b"
  proof
    assume z: "v OR (f a XOR f b) = 0"
    have bits: "\<not> bit v n" "bit (f a) n = bit (f b) n" for n
      using z bit_or_iff [of v "f a XOR f b" n] bit_xor_iff [of "f a" "f b" n] by auto
    then show "v = 0 \<and> f a = f b" by (auto intro!: bit_eqI)
  qed simp
  then show ?case by (auto simp: p Cons.IH)
qed simp

lemma ConstantTimeCompare_eq: "ConstantTimeCompare x y = 1 \<longleftrightarrow> x = y"
proof (cases "length x = length y")
  case True
  have inj: "(of_char a :: byte) = of_char b \<longleftrightarrow> a = b" for a b
  proof
    assume e: "(of_char a :: byte) = of_char b"
    have u: "unat (of_char c :: byte) = of_char c" for c
    proof -
      have "(of_char c :: byte) = word_of_nat (of_char c)" by (rule of_nat_of_char [symmetric])
      then show ?thesis using nat_of_char_less_256 [of c] by (simp only: unat_of_nat) simp
    qed
    from e have "(of_char a :: nat) = of_char b" using u by metis
    then show "a = b" by simp
  qed simp
  have "(\<forall>(a, b) \<in> set (zip x y). (of_char a :: byte) = of_char b) \<longleftrightarrow> x = y"
    unfolding inj using True by (induction x y rule: list_induct2) auto
  then show ?thesis using True or_accumulates [of of_char 0 "zip x y"] by (simp add: ConstantTimeCompare_def)
qed (auto simp: ConstantTimeCompare_def)

subsection \<open>Bodies\<close>

abbreviation MaxBodyBytes :: nat where "MaxBodyBytes \<equiv> 8388608"

text \<open>
  A reader is the bytes that can still be read and whether reading on then fails with the limit
  error instead of EOF. The JSON decoder is a parameter: \<open>js_decode\<close> reads one value with unknown fields
  refused, \<open>js_any\<close> the next value of any kind.
\<close>

type_synonym body_reader = "string \<times> bool"

definition MaxBytesReader :: "nat \<Rightarrow> string \<Rightarrow> body_reader" where
  "MaxBytesReader n b = (take n b, n < length b)"

record 'v json_decoder =
  js_decode :: "body_reader \<Rightarrow> ('v \<times> body_reader) result"
  js_any :: "body_reader \<Rightarrow> body_reader result"

definition json_single :: "'v json_decoder \<Rightarrow> body_reader \<Rightarrow> 'v result" where
  "json_single js r =
     (case js_decode js r of
        Inl e \<Rightarrow> Inl e
      | Inr (v, r') \<Rightarrow>
          (case js_any js r' of
             Inr _ \<Rightarrow> Inl (Msg ''multiple JSON values'')
           | Inl e \<Rightarrow> if e = Io_EOF then Inr v else Inl e))"

definition DecodeJSON :: "'v json_decoder \<Rightarrow> http_request \<Rightarrow> (nat \<times> string) + 'v" where
  "DecodeJSON js r =
     (case json_single js (MaxBytesReader MaxBodyBytes (hr_Body r)) of
        Inr v \<Rightarrow> Inr v
      | Inl err \<Rightarrow>
          Inl (if err_is err Http_MaxBytesError then 413 else 400, ''invalid JSON payload: '' @ err_text err))"

subsection \<open>Properties\<close>

text \<open>C19: A socket is opened for a browser origin only by one of the four rules: a wildcard is configured, the
  origin is in the configured list (case and trailing slashes aside), or no origin is configured at all and its host is
  that of the server itself or a loopback one, which is the name \<open>localhost\<close> or the literal of an address in
  127.0.0.0/8 (also as a mapped IPv6 address) or of ::1, and no other. A request without origin is no browser request.\<close>

theorem origin_rules:
  "OriginChecker ne allowed r \<longleftrightarrow>
     (\<exists>o' \<in> set allowed. trim_space o' = ''*'') \<or> hr_Header r ''Origin'' = [] \<or>
     (\<exists>o' \<in> set allowed. trim_space o' \<noteq> [] \<and> trim_space o' \<noteq> ''*'' \<and>
        equal_fold (trim_right (CHR ''/'') (trim_space o')) (trim_right (CHR ''/'') (hr_Header r ''Origin''))) \<or>
     set (map trim_space allowed) \<subseteq> {[]} \<and>
     (\<exists>u. ne_url_parse ne (hr_Header r ''Origin'') = Some u \<and>
        ((ur_Hostname u = ''localhost'' \<or>
          (\<exists>ip. ne_parse_ip ne (ur_Hostname u) = Some ip \<and>
             (ip = replicate 15 0 @ [1] \<or>
              (\<exists>b c d. ip = [127, b, c, d] \<or> ip = replicate 10 0 @ [255, 255] @ [127, b, c, d])))) \<or>
         equal_fold (ur_Hostname u)
           (case ne_split_host_port ne (hr_Host r) of Some (h, p) \<Rightarrow> h | None \<Rightarrow> hr_Host r)))"
proof -
  let ?keys = "{origin_key (trim_space o') | o'. o' \<in> set allowed \<and> trim_space o' \<noteq> ''*'' \<and> trim_space o' \<noteq> []}"
  let ?any = "\<exists>o' \<in> set allowed. trim_space o' = ''*''" and ?o = "hr_Header r ''Origin''"
  have scan: "origin_scan allowed (False, {}) = (?any, ?keys)" by (simp add: origin_scan_spec)
  have none: "?keys = {} \<longleftrightarrow> set (map trim_space allowed) \<subseteq> {[]}" if "\<not> ?any" using that by auto
  have member: "origin_key ?o \<in> ?keys \<longleftrightarrow> (\<exists>o' \<in> set allowed. trim_space o' \<noteq> [] \<and> trim_space o' \<noteq> ''*'' \<and>
      equal_fold (trim_right (CHR ''/'') (trim_space o')) (trim_right (CHR ''/'') ?o))"
    unfolding mem_Collect_eq origin_key_def equal_fold_def by (metis (no_types, lifting))
  consider ?any | "\<not> ?any" "?o = []" | "\<not> ?any" "?o \<noteq> []" "origin_key ?o \<in> ?keys"
    | "\<not> ?any" "?o \<noteq> []" "origin_key ?o \<notin> ?keys" by blast
  then show ?thesis
  proof cases
    case 3
    then show ?thesis using member by (simp add: OriginChecker_def scan Let_def)
  next
    case 4
    then have "\<not> (\<exists>o' \<in> set allowed. trim_space o' \<noteq> [] \<and> trim_space o' \<noteq> ''*'' \<and>
      equal_fold (trim_right (CHR ''/'') (trim_space o')) (trim_right (CHR ''/'') ?o))" using member by blast
    moreover have "OriginChecker ne allowed r \<longleftrightarrow> ?keys = {} \<and> (\<exists>u. ne_url_parse ne ?o = Some u \<and>
        (isLoopback ne (ur_Hostname u) \<or> equal_fold (ur_Hostname u)
           (case ne_split_host_port ne (hr_Host r) of Some (h, p) \<Rightarrow> h | None \<Rightarrow> hr_Host r)))"
      unfolding OriginChecker_def scan Let_def using 4
      by (simp only: case_prod_conv if_False refl split: option.split) (simp split: option.split)
    ultimately show ?thesis using none [OF 4(1)] 4(1,2) unfolding isLoopback_iff [symmetric] by blast
  qed (simp_all add: OriginChecker_def scan Let_def)
qed

text \<open>A site whose host is an address of a private network.\<close>

definition sample_net :: net_env where
  "sample_net = \<lparr>ne_url_parse = (\<lambda>_. Some \<lparr>ur_Scheme = ''https'', ur_Host = ''10.0.0.7'', ur_RawQuery = [],
       ur_Fragment = [], ur_Hostname = ''10.0.0.7''\<rparr>),
     ne_parse_ip = (\<lambda>h. if h = ''10.0.0.7'' then Some (replicate 10 0 @ [255, 255, 10, 0, 0, 7]) else None),
     ne_split_host_port = (\<lambda>h. Some (''gocalis.local'', ''8080''))\<rparr>"

definition sample_request :: "string \<Rightarrow> http_request" where
  "sample_request origin = \<lparr>hr_Method = ''GET'', hr_Path = ''/api/events'', hr_Host = ''gocalis.local:8080'',
     hr_Header = (\<lambda>k. if k = ''Origin'' then origin else []), hr_Query = (\<lambda>_. []), hr_Body = [], hr_ctx = None\<rparr>"

theorem origin_rules_witness:
  "\<not> OriginChecker sample_net [] (sample_request ''https://10.0.0.7'')"
proof -
  have "\<not> isLoopback sample_net ''10.0.0.7''" by code_simp
  then show ?thesis unfolding origin_rules isLoopback_iff [symmetric]
    by (simp add: sample_net_def sample_request_def equal_fold_def to_lower_def lower_char_def)
qed

text \<open>With a token configured, a guarded handler runs exactly for the requests that carry it, byte for byte,
  and every other request is answered 401 and goes no further.\<close>

theorem token_guard:
  "RequireToken expected handler reject r =
     (if expected = [] \<or> Token r = expected then handler r else reject 401 ''unauthorized'')"
  by (auto simp: RequireToken_def TokenValid_def Let_def ConstantTimeCompare_eq)

text \<open>A body is accepted only as a whole: it holds one value, nothing after it, and at most 8 MiB. This rests on
  the decoder passing on the error of its reader and saying EOF only where the reader did.\<close>

theorem json_body_bounded:
  assumes "\<And>rd v rd'. js_decode js rd = Inr (v, rd') \<Longrightarrow> snd rd' = snd rd"
    and "\<And>rd. js_any js rd = Inl Io_EOF \<Longrightarrow> \<not> snd rd"
    and "DecodeJSON js r = Inr v"
  shows "length (hr_Body r) \<le> 8388608 \<and>
    (\<exists>rest. js_decode js (hr_Body r, False) = Inr (v, rest) \<and> js_any js rest = Inl Io_EOF)"
proof -
  let ?rd = "MaxBytesReader MaxBodyBytes (hr_Body r)"
  obtain rd' where d: "js_decode js ?rd = Inr (v, rd')" "js_any js rd' = Inl Io_EOF"
    using assms(3) by (auto simp: DecodeJSON_def json_single_def split: sum.splits if_splits)
  then have "\<not> snd ?rd" using assms(1,2) by metis
  then have len: "length (hr_Body r) \<le> 8388608" by (simp add: MaxBytesReader_def)
  then have "?rd = (hr_Body r, False)" by (simp add: MaxBytesReader_def)
  then show ?thesis using d len by auto
qed

text \<open>A decoder of values that are single digits.\<close>

definition digit_json :: "nat json_decoder" where
  "digit_json = \<lparr>
     js_decode = (\<lambda>(b, lim). case b of [] \<Rightarrow> Inl (if lim then Http_MaxBytesError else Io_EOF)
        | c # b' \<Rightarrow> if of_char c \<in> {48..57 :: nat} then Inr (of_char c - 48, (b', lim)) else Inl (Msg ''invalid character'')),
     js_any = (\<lambda>(b, lim). case b of [] \<Rightarrow> Inl (if lim then Http_MaxBytesError else Io_EOF) | c # b' \<Rightarrow> Inr (b', lim))\<rparr>"

theorem json_body_bounded_witness:
  "\<exists>rest. js_decode digit_json (''7'', False) = Inr (7, rest) \<and> js_any digit_json rest = Inl Io_EOF"
proof -
  let ?r = "(sample_request [])\<lparr>hr_Body := ''7''\<rparr>"
  have "DecodeJSON digit_json ?r = Inr 7"
    by (simp add: DecodeJSON_def json_single_def digit_json_def MaxBytesReader_def)
  then show ?thesis
    using json_body_bounded [of digit_json ?r 7]
    by (auto simp: digit_json_def split: list.splits if_splits prod.splits)
qed

end
