(* ===== verification/Node_State.thy ===== *)
theory Node_State
  imports Go_Prelude "HOL-Library.Sublist"
begin

text \<open>
  The state of a physical node and the ordered delivery of its changes (internal/node/node.go).
  \<open>SetState\<close> changes the state and then, still holding \<open>stateMutex\<close>, waits for room in the queue of
  transitions, so it is two steps: the first leaves the transition in \<open>pn_setting\<close>, which also says
  that \<open>stateMutex\<close> is taken; the second enqueues it. The dispatcher goroutine takes a transition and
  then calls every registered callback with it. \<open>pn_events\<close> records these calls, by the position of
  the callback in the list of registrations, \<open>pn_delivered\<close> the transitions whose callbacks were
  called.
\<close>

datatype node_state = StateIdle | StateSpeaking | StateListening | StateProcessing | StateChallenging

fun node_state_text :: "node_state \<Rightarrow> string" where
  "node_state_text StateIdle = ''IDLE''"
| "node_state_text StateSpeaking = ''SPEAKING''"
| "node_state_text StateListening = ''LISTENING''"
| "node_state_text StateProcessing = ''PROCESSING''"
| "node_state_text StateChallenging = ''CHALLENGING''"

record state_transition =
  st_old :: node_state
  st_new :: node_state

record 'cb physical_node =
  pn_state :: node_state
  pn_setting :: "state_transition option"
  pn_callbacks :: "'cb list"
  pn_queue :: "state_transition list"
  pn_closed :: bool
  pn_current :: "state_transition option"
  pn_done :: bool
  pn_events :: "(nat \<times> state_transition) list"
  pn_delivered :: "state_transition list"

definition NewPhysicalNode :: "'cb physical_node" where
  "NewPhysicalNode = \<lparr>pn_state = StateIdle, pn_setting = None, pn_callbacks = [], pn_queue = [],
     pn_closed = False, pn_current = None, pn_done = False, pn_events = [], pn_delivered = []\<rparr>"

text \<open>\<open>GetState\<close> waits for \<open>stateMutex\<close>.\<close>

definition pn_GetState :: "'cb physical_node \<Rightarrow> node_state option" where
  "pn_GetState n = (if pn_setting n = None then Some (pn_state n) else None)"

definition pn_SetState :: "node_state \<Rightarrow> 'cb physical_node \<Rightarrow> 'cb physical_node" where
  "pn_SetState s n =
     (if pn_state n = s then n
      else n\<lparr>pn_state := s, pn_setting := Some \<lparr>st_old = pn_state n, st_new = s\<rparr>\<rparr>)"

definition pn_may_enqueue :: "'cb physical_node \<Rightarrow> bool" where
  "pn_may_enqueue n \<longleftrightarrow> \<not> (64 \<le> length (pn_queue n) \<and> \<not> pn_closed n)"

definition pn_enqueue :: "state_transition \<Rightarrow> 'cb physical_node \<Rightarrow> 'cb physical_node" where
  "pn_enqueue t n =
     n\<lparr>pn_queue := (if \<not> pn_closed n then pn_queue n @ [t] else pn_queue n), pn_setting := None\<rparr>"

text \<open>One turn of \<open>dispatchLoop\<close>: wait, return, or take the first transition; then call the callbacks.\<close>

datatype 'n dispatched = Dispatch_waits | Dispatch_returns 'n | Dispatch_takes state_transition 'n

definition pn_dispatch :: "'cb physical_node \<Rightarrow> 'cb physical_node dispatched" where
  "pn_dispatch n =
     (if pn_queue n = [] \<and> \<not> pn_closed n then Dispatch_waits
      else case pn_queue n of
        [] \<Rightarrow> Dispatch_returns (n\<lparr>pn_done := True\<rparr>)
      | t # ts \<Rightarrow> Dispatch_takes t (n\<lparr>pn_queue := ts, pn_current := Some t\<rparr>))"

definition pn_call :: "state_transition \<Rightarrow> 'cb physical_node \<Rightarrow> 'cb physical_node" where
  "pn_call t n =
     n\<lparr>pn_events := pn_events n @ map (\<lambda>i. (i, t)) [0..<length (pn_callbacks n)],
       pn_delivered := pn_delivered n @ [t], pn_current := None\<rparr>"

definition pn_OnStateChanged :: "'cb \<Rightarrow> 'cb physical_node \<Rightarrow> 'cb physical_node" where
  "pn_OnStateChanged cb n = n\<lparr>pn_callbacks := pn_callbacks n @ [cb]\<rparr>"

definition pn_Close :: "'cb physical_node \<Rightarrow> 'cb physical_node" where
  "pn_Close n = n\<lparr>pn_closed := True\<rparr>"

inductive pn_step :: "'cb physical_node \<Rightarrow> 'cb physical_node \<Rightarrow> bool" where
  pn_sets: "pn_setting n = None \<Longrightarrow> pn_step n (pn_SetState s n)"
| pn_enqueues: "pn_setting n = Some t \<Longrightarrow> pn_may_enqueue n \<Longrightarrow> pn_step n (pn_enqueue t n)"
| pn_takes: "\<not> pn_done n \<Longrightarrow> pn_current n = None \<Longrightarrow> pn_dispatch n = Dispatch_takes t n' \<Longrightarrow> pn_step n n'"
| pn_returns: "\<not> pn_done n \<Longrightarrow> pn_current n = None \<Longrightarrow> pn_dispatch n = Dispatch_returns n' \<Longrightarrow> pn_step n n'"
| pn_calls: "pn_current n = Some t \<Longrightarrow> pn_step n (pn_call t n)"
| pn_registers: "pn_step n (pn_OnStateChanged cb n)"
| pn_closes: "pn_step n (pn_Close n)"

inductive_cases pn_stepE: "pn_step n n'"

subsection \<open>Transitions form a chain\<close>

fun chain :: "node_state \<Rightarrow> state_transition list \<Rightarrow> node_state \<Rightarrow> bool" where
  "chain a [] b = (a = b)"
| "chain a (t # ts) b = (st_old t = a \<and> st_new t \<noteq> a \<and> chain (st_new t) ts b)"

lemma chain_append: "chain a (xs @ ys) c \<longleftrightarrow> (\<exists>b. chain a xs b \<and> chain b ys c)"
  by (induction xs arbitrary: a) auto

abbreviation opt_list :: "'a option \<Rightarrow> 'a list" where
  "opt_list x \<equiv> (case x of None \<Rightarrow> [] | Some a \<Rightarrow> [a])"

definition pn_log :: "'cb physical_node \<Rightarrow> state_transition list" where
  "pn_log n = pn_delivered n @ opt_list (pn_current n) @ pn_queue n"

text \<open>The transitions the \<open>i\<close>-th callback was called with, in order.\<close>

definition pn_seen :: "nat \<Rightarrow> 'cb physical_node \<Rightarrow> state_transition list" where
  "pn_seen i n = map snd (filter (\<lambda>e. fst e = i) (pn_events n))"

definition pn_inv :: "'cb physical_node \<Rightarrow> bool" where
  "pn_inv n \<longleftrightarrow>
     (\<exists>b. chain StateIdle (pn_log n) b \<and> (\<not> pn_closed n \<longrightarrow> chain b (opt_list (pn_setting n)) (pn_state n))) \<and>
     length (pn_queue n) \<le> 64 \<and>
     (pn_done n \<longrightarrow> pn_closed n \<and> pn_queue n = [] \<and> pn_current n = None) \<and>
     (\<forall>i. suffix (pn_seen i n) (pn_delivered n) \<and> (length (pn_callbacks n) \<le> i \<longrightarrow> pn_seen i n = []))"

lemma pn_seen_call:
  "pn_seen i (pn_call t n) = pn_seen i n @ (if i < length (pn_callbacks n) then [t] else [])"
proof -
  have "map snd (filter (\<lambda>e. fst e = i) (map (\<lambda>j. (j, t)) [0..<k])) = (if i < k then [t] else [])" for k
    by (induction k) auto
  then show ?thesis by (simp add: pn_seen_def pn_call_def)
qed

lemma pn_seen_eq: "pn_events n' = pn_events n \<Longrightarrow> pn_seen i n' = pn_seen i n"
  by (simp add: pn_seen_def)

lemma pn_SetState_inv [inv_intros]: "pn_setting n = None \<Longrightarrow> pn_inv n \<Longrightarrow> pn_inv (pn_SetState s n)"
  by (auto simp: pn_inv_def pn_SetState_def pn_log_def pn_seen_def)

lemma pn_enqueue_inv [inv_intros]:
  "pn_setting n = Some t \<Longrightarrow> pn_may_enqueue n \<Longrightarrow> pn_inv n \<Longrightarrow> pn_inv (pn_enqueue t n)"
  by (auto simp: pn_inv_def pn_enqueue_def pn_log_def pn_seen_def pn_may_enqueue_def chain_append not_le)

lemma pn_takes_inv [inv_intros]:
  "pn_inv n \<Longrightarrow> pn_current n = None \<Longrightarrow> pn_dispatch n = Dispatch_takes t n' \<Longrightarrow> pn_inv n'"
  by (auto simp: pn_inv_def pn_dispatch_def pn_log_def pn_seen_def split: if_splits list.splits)

lemma pn_returns_inv [inv_intros]:
  "pn_inv n \<Longrightarrow> pn_current n = None \<Longrightarrow> pn_dispatch n = Dispatch_returns n' \<Longrightarrow> pn_inv n'"
  by (auto simp: pn_inv_def pn_dispatch_def pn_log_def pn_seen_def split: if_splits list.splits)

lemma pn_call_inv [inv_intros]: "pn_current n = Some t \<Longrightarrow> pn_inv n \<Longrightarrow> pn_inv (pn_call t n)"
  proof -
  assume c: "pn_current n = Some t" and inv: "pn_inv n"
  have "suffix (pn_seen i (pn_call t n)) (pn_delivered n @ [t])" for i
    using inv by (auto simp: pn_inv_def pn_seen_call)
  moreover have "pn_seen i (pn_call t n) = []" if "length (pn_callbacks n) \<le> i" for i
    using inv that by (auto simp: pn_inv_def pn_seen_call)
  ultimately show ?thesis using c inv by (auto simp: pn_inv_def pn_log_def pn_call_def)
qed

lemma pn_OnStateChanged_inv [inv_intros]: "pn_inv n \<Longrightarrow> pn_inv (pn_OnStateChanged cb n)"
  by (simp add: pn_inv_def pn_OnStateChanged_def pn_log_def pn_seen_def)

lemma pn_Close_inv [inv_intros]: "pn_inv n \<Longrightarrow> pn_inv (pn_Close n)"
  by (auto simp: pn_inv_def pn_Close_def pn_log_def pn_seen_def)

interpretation pn_machine: machine "\<lambda>n. n = NewPhysicalNode" pn_step pn_inv
proof unfold_locales
  show "pn_inv n" if "n = NewPhysicalNode" for n :: "'a physical_node"
    using that by (simp add: pn_inv_def NewPhysicalNode_def pn_log_def pn_seen_def)
  show "pn_inv t" if "pn_inv s" "pn_step s t" for s t :: "'a physical_node"
    using that(2,1) by (cases rule: pn_step.cases) (auto intro: inv_intros)
qed

abbreviation pn_reachable :: "'cb physical_node \<Rightarrow> bool" where
  "pn_reachable \<equiv> reach (\<lambda>n. n = NewPhysicalNode) pn_step"

text \<open>However SetState, the dispatcher and Close interleave, the transitions delivered, in delivery and
  queued form one chain from IDLE in which every change starts where the one before ended, and while
  the node is open the chain leads to its current state. The queue stays within 64, every callback has
  seen the delivered transitions since its registration once and in order, and when the dispatcher
  has returned nothing is left undelivered.\<close>

theorem node_transitions_chain:
  assumes "pn_reachable n"
  shows "(\<exists>b. chain StateIdle (pn_log n) b \<and>
      (\<not> pn_closed n \<longrightarrow> chain b (opt_list (pn_setting n)) (pn_state n))) \<and> length (pn_queue n) \<le> 64 \<and>
    suffix (pn_seen i n) (pn_delivered n) \<and> (pn_done n \<longrightarrow> pn_log n = pn_delivered n)"
  using pn_machine.reach_inv [OF assms] by (auto simp: pn_inv_def pn_log_def)

theorem node_transitions_chain_witness:
  "\<exists>b. chain StateIdle (pn_log (pn_SetState StateSpeaking (NewPhysicalNode :: nat physical_node))) b"
proof -
  have "pn_reachable (pn_SetState StateSpeaking (NewPhysicalNode :: nat physical_node))"
    by (rule reach_step, rule reach_init, rule refl, rule pn_sets) (simp add: NewPhysicalNode_def)
  from node_transitions_chain [OF this] show ?thesis by blast
qed

end
