(* ===== verification/Turn_Effects.thy ===== *)
theory Turn_Effects
  imports Audio_Source Node_State
begin

text \<open>
  What the orchestration code does to the outside, as a trace of effects. Brain, ask engine and
  executor drive a node's audio only within a turn, from the grant of the node's queue to its
  release; the trace of every operation is checked against that discipline.
\<close>

datatype turn_effect =
    Ef_acquire string int
  | Ef_release string
  | Ef_state string node_state
  | Ef_play string "i16 list" int
  | Ef_stream string "i16 list"
  | Ef_reset_capture string
  | Ef_synthesize string int
  | Ef_session_add string
  | Ef_session_remove string
  | Ef_wait duration
  | Ef_endpoint duration duration
  | Ef_record "f32 list"
  | Ef_transcribe "f32 list" int
  | Ef_identify "f32 list"

text \<open>
  \<open>turn_ok own t\<close>: starting with the turns on the nodes \<open>own\<close> granted, the trace acts on a node only
  within a turn on it, takes no node it already has, and ends with every turn released.
\<close>

fun turn_ok :: "string list \<Rightarrow> turn_effect list \<Rightarrow> bool" where
  "turn_ok own [] = (own = [])"
| "turn_ok own (Ef_acquire n p # t) = (n \<notin> set own \<and> turn_ok (n # own) t)"
| "turn_ok own (Ef_release n # t) = (n \<in> set own \<and> turn_ok (remove1 n own) t)"
| "turn_ok own (Ef_state n s # t) = (n \<in> set own \<and> turn_ok own t)"
| "turn_ok own (Ef_play n pcm r # t) = (n \<in> set own \<and> turn_ok own t)"
| "turn_ok own (Ef_stream n pcm # t) = (n \<in> set own \<and> turn_ok own t)"
| "turn_ok own (Ef_reset_capture n # t) = (n \<in> set own \<and> turn_ok own t)"
| "turn_ok own (Ef_synthesize s p # t) = turn_ok own t"
| "turn_ok own (Ef_session_add n # t) = (n \<in> set own \<and> turn_ok own t)"
| "turn_ok own (Ef_session_remove n # t) = (n \<in> set own \<and> turn_ok own t)"
| "turn_ok own (Ef_wait d # t) = turn_ok own t"
| "turn_ok own (Ef_endpoint d d' # t) = turn_ok own t"
| "turn_ok own (Ef_record c # t) = turn_ok own t"
| "turn_ok own (Ef_transcribe c p # t) = turn_ok own t"
| "turn_ok own (Ef_identify c # t) = turn_ok own t"

text \<open>Effects that keep the set of turns: those on node \<open>n\<close>, and those on no node.\<close>

fun on_node :: "string \<Rightarrow> turn_effect \<Rightarrow> bool" where
  "on_node n (Ef_acquire m p) = False"
| "on_node n (Ef_release m) = False"
| "on_node n (Ef_state m s) = (m = n)"
| "on_node n (Ef_play m pcm r) = (m = n)"
| "on_node n (Ef_stream m pcm) = (m = n)"
| "on_node n (Ef_reset_capture m) = (m = n)"
| "on_node n (Ef_session_add m) = (m = n)"
| "on_node n (Ef_session_remove m) = (m = n)"
| "on_node n e = True"

lemma turn_ok_on_node: "\<forall>e \<in> set t. on_node n e \<Longrightarrow> n \<in> set own \<Longrightarrow> turn_ok own (t @ u) = turn_ok own u"
proof (induction t)
  case (Cons e t)
  then show ?case by (cases e) auto
qed simp

text \<open>A turn: grant, work within it, release.\<close>

lemma turn_ok_turn: "\<forall>e \<in> set t. on_node n e \<Longrightarrow> turn_ok [] (Ef_acquire n p # t @ [Ef_release n])"
  by (simp add: turn_ok_on_node)

text \<open>The state the node is left in.\<close>

fun last_state :: "string \<Rightarrow> turn_effect list \<Rightarrow> node_state \<Rightarrow> node_state" where
  "last_state n [] s = s"
| "last_state n (Ef_state m s' # t) s = last_state n t (if m = n then s' else s)"
| "last_state n (e # t) s = last_state n t s"

lemma last_state_append [simp]: "last_state n (t @ u) s = last_state n u (last_state n t s)"
proof (induction t arbitrary: s)
  case (Cons e t)
  then show ?case by (cases e) auto
qed simp

end
