(* ===== verification/Session.thy ===== *)
theory Session
  imports Go_Float
begin

text \<open>
  One voice interaction turn (internal/session/session.go) and the registry that fans microphone
  audio out to the active turns of a node (internal/session/registry.go). Every method holds the
  session's mutex, so it is a function of the session. The barge-in channel has room for one
  signal: the model counts what is in it, and a send that cannot proceed (nil or full channel)
  would block while the mutex is held, which is an outcome of its own, as is the panic of slicing
  with a negative bound.
\<close>

datatype session_state = Session_Prompting | Session_Listening | Session_Processing | Session_Done

record session =
  se_ID :: string
  se_NodeID :: string
  se_state :: session_state
  se_captureActive :: bool
  se_captured :: "f32 list"
  se_preRoll :: "f32 list"
  se_speechStarted :: instant
  se_lastSpeech :: instant
  se_barged :: bool
  se_bargeArmed :: bool
  se_bargeCh :: "nat option"

definition session_New :: "string \<Rightarrow> string \<Rightarrow> session" where
  "session_New id' nodeID = \<lparr>se_ID = id', se_NodeID = nodeID, se_state = Session_Prompting,
     se_captureActive = False, se_captured = [], se_preRoll = [], se_speechStarted = None,
     se_lastSpeech = None, se_barged = False, se_bargeArmed = False, se_bargeCh = None\<rparr>"

definition session_setState :: "session_state \<Rightarrow> session \<Rightarrow> session" where
  "session_setState st s = s\<lparr>se_state := st\<rparr>"

definition session_ToListening :: "session \<Rightarrow> session" where
  "session_ToListening = session_setState Session_Listening"

definition session_ToProcessing :: "session \<Rightarrow> session" where
  "session_ToProcessing = session_setState Session_Processing"

definition session_ToDone :: "session \<Rightarrow> session" where
  "session_ToDone = session_setState Session_Done"

definition session_ArmBargeIn :: "session \<Rightarrow> session" where
  "session_ArmBargeIn s = s\<lparr>se_bargeCh := Some 0, se_bargeArmed := True, se_barged := False\<rparr>"

definition session_DisarmBargeIn :: "session \<Rightarrow> bool \<times> session" where
  "session_DisarmBargeIn s = (se_barged s, s\<lparr>se_bargeArmed := False, se_bargeCh := None\<rparr>)"

definition session_StartCapture :: "session \<Rightarrow> session" where
  "session_StartCapture s = s\<lparr>se_captureActive := True, se_captured := [], se_preRoll := [],
     se_speechStarted := None, se_lastSpeech := None\<rparr>"

definition session_StopCapture :: "session \<Rightarrow> f32 list \<times> session" where
  "session_StopCapture s = (se_captured s, s\<lparr>se_captureActive := False\<rparr>)"

definition session_CapturedCount :: "session \<Rightarrow> nat" where
  "session_CapturedCount s = length (se_captured s)"

definition session_SpeechActivity :: "session \<Rightarrow> instant \<times> instant" where
  "session_SpeechActivity s = (se_speechStarted s, se_lastSpeech s)"

text \<open>The barge-in signal is received by the turn that armed it.\<close>

definition session_recv_barge :: "session \<Rightarrow> session" where
  "session_recv_barge s = s\<lparr>se_bargeCh := map_option (\<lambda>n. n - 1) (se_bargeCh s)\<rparr>"

abbreviation pre_roll_limit :: nat where "pre_roll_limit \<equiv> 4000"
abbreviation capture_limit :: nat where "capture_limit \<equiv> 1920000"

datatype fed = Fed session | Feed_blocks | Feed_panics

text \<open>The second half of \<open>FeedPCM\<close>: accumulation while capture is active.\<close>

definition session_accumulate :: "int \<Rightarrow> f32 list \<Rightarrow> bool \<Rightarrow> session \<Rightarrow> fed" where
  "session_accumulate now samples speech s =
     (if \<not> se_captureActive s then Fed s
      else
        let s1 = (if speech
                  then (if se_speechStarted s = None
                        then s\<lparr>se_speechStarted := Some now, se_captured := se_captured s @ se_preRoll s,
                               se_preRoll := []\<rparr>
                        else s)\<lparr>se_lastSpeech := Some now\<rparr>
                  else s)
        in if se_speechStarted s1 = None
           then Fed (let pre = se_preRoll s1 @ samples
                     in s1\<lparr>se_preRoll := if pre_roll_limit < length pre then last_n pre_roll_limit pre else pre\<rparr>)
           else
             let remaining = int capture_limit - int (length (se_captured s1))
             in if remaining < int (length samples)
                then (if remaining < 0 then Feed_panics
                      else Fed (s1\<lparr>se_captured := se_captured s1 @ take (nat remaining) samples\<rparr>))
                else Fed (s1\<lparr>se_captured := se_captured s1 @ samples\<rparr>))"

definition session_FeedPCM :: "int \<Rightarrow> f32 list \<Rightarrow> bool \<Rightarrow> session \<Rightarrow> fed" where
  "session_FeedPCM now samples speech s =
     (if samples = [] then Fed s
      else if speech \<and> se_bargeArmed s \<and> \<not> se_barged s
      then (case se_bargeCh s of
              Some 0 \<Rightarrow> session_accumulate now samples speech
                (s\<lparr>se_barged := True, se_captureActive := True, se_captured := [],
                   se_state := Session_Listening, se_bargeCh := Some 1\<rparr>)
            | _ \<Rightarrow> Feed_blocks)
      else session_accumulate now samples speech s)"

definition session_Feed :: "int \<Rightarrow> f32 list \<Rightarrow> session \<Rightarrow> fed" where
  "session_Feed now samples s = session_FeedPCM now samples True s"

subsection \<open>Bounds, and no method blocks or panics\<close>

definition session_inv :: "session \<Rightarrow> bool" where
  "session_inv s \<longleftrightarrow> length (se_captured s) \<le> capture_limit \<and> length (se_preRoll s) \<le> pre_roll_limit \<and>
     (se_speechStarted s = None \<longrightarrow> se_captured s = []) \<and>
     (se_speechStarted s \<noteq> None \<longrightarrow> se_preRoll s = []) \<and>
     (se_bargeArmed s \<and> \<not> se_barged s \<longrightarrow> se_bargeCh s = Some 0)"

inductive session_step :: "session \<Rightarrow> session \<Rightarrow> bool" where
  se_sets: "session_step s (session_setState st s)"
| se_arms: "session_step s (session_ArmBargeIn s)"
| se_disarms: "session_step s (snd (session_DisarmBargeIn s))"
| se_starts: "session_step s (session_StartCapture s)"
| se_stops: "session_step s (snd (session_StopCapture s))"
| se_receives: "se_bargeCh s = Some (Suc n) \<Longrightarrow> session_step s (session_recv_barge s)"
| se_feeds: "session_FeedPCM now samples speech s = Fed s' \<Longrightarrow> session_step s s'"

lemma session_accumulate_inv:
  assumes "session_inv s"
  shows "\<exists>s'. session_accumulate now samples speech s = Fed s' \<and> session_inv s'"
  using assms by (cases "se_speechStarted s"; cases speech)
    (auto simp: session_accumulate_def session_inv_def Let_def)

lemma session_FeedPCM_inv:
  assumes "session_inv s"
  shows "\<exists>s'. session_FeedPCM now samples speech s = Fed s' \<and> session_inv s'"
proof -
  let ?s = "s\<lparr>se_barged := True, se_captureActive := True, se_captured := [],
              se_state := Session_Listening, se_bargeCh := Some 1\<rparr>"
  have "session_inv ?s" using assms by (auto simp: session_inv_def)
  then show ?thesis
    using session_accumulate_inv [of s] session_accumulate_inv [of ?s] assms
    by (auto simp: session_FeedPCM_def session_inv_def split: option.splits nat.splits)
qed

lemma session_step_inv: "session_inv s \<Longrightarrow> session_step s s' \<Longrightarrow> session_inv s'"
proof (erule session_step.cases)
  show "session_inv s \<Longrightarrow> s = t \<Longrightarrow> s' = t' \<Longrightarrow> session_FeedPCM now samples speech t = Fed t' \<Longrightarrow> session_inv s'"
    for now samples speech t t'
    using session_FeedPCM_inv [of s now samples speech] by auto
qed (auto simp: session_inv_def session_setState_def session_ArmBargeIn_def session_DisarmBargeIn_def
    session_StartCapture_def session_StopCapture_def session_recv_barge_def)

interpretation session_machine: machine "\<lambda>s. \<exists>i n. s = session_New i n" session_step session_inv
proof unfold_locales
  show "session_inv s" if "\<exists>i n. s = session_New i n" for s
    using that by (auto simp: session_inv_def session_New_def)
qed (rule session_step_inv)

abbreviation session_reachable :: "session \<Rightarrow> bool" where
  "session_reachable \<equiv> reach (\<lambda>s. \<exists>i n. s = session_New i n) session_step"

text \<open>In every reachable session at most 120 s of audio are captured and at most 250 ms of pre-roll
  kept, and FeedPCM neither blocks on the barge-in channel nor panics.\<close>

theorem session_bounded:
  assumes "session_reachable s"
  shows "length (se_captured s) \<le> 120 * 16000 \<and> length (se_preRoll s) \<le> 16000 div 4 \<and>
    (\<exists>s'. session_FeedPCM now samples speech s = Fed s')"
  using session_machine.reach_inv [OF assms] session_FeedPCM_inv [of s now samples speech]
  by (auto simp: session_inv_def)

theorem session_bounded_witness:
  "\<exists>s'. session_FeedPCM 7 [Fin 0] True (session_ArmBargeIn (session_New ''a'' ''n'')) = Fed s'"
proof -
  have "session_reachable (session_ArmBargeIn (session_New ''a'' ''n''))"
    by (rule reach_step, rule reach_init) (auto intro: se_arms)
  from session_bounded [OF this] show ?thesis by blast
qed

subsection \<open>What a capture holds\<close>

type_synonym frame = "f32 list \<times> bool"

fun feed_frames :: "(int \<times> frame) list \<Rightarrow> session \<Rightarrow> fed" where
  "feed_frames [] s = Fed s"
| "feed_frames ((now, samples, speech) # fs) s =
     (case session_FeedPCM now samples speech s of Fed s' \<Rightarrow> feed_frames fs s' | r \<Rightarrow> r)"

text \<open>
  What a capture promises of the frames it was fed: from the first frame with speech on everything
  is kept, pauses included, preceded by the last quarter of a second before it, cut at two minutes.
\<close>

definition frame_pre :: "(int \<times> frame) list \<Rightarrow> f32 list" where
  "frame_pre fs = concat (map (fst \<circ> snd) (takeWhile (\<lambda>f. \<not> snd (snd f)) fs))"

definition frame_post :: "(int \<times> frame) list \<Rightarrow> f32 list" where
  "frame_post fs = concat (map (fst \<circ> snd) (dropWhile (\<lambda>f. \<not> snd (snd f)) fs))"

definition capture_spec :: "(int \<times> frame) list \<Rightarrow> f32 list" where
  "capture_spec fs =
     (let fs' = filter (\<lambda>f. fst (snd f) \<noteq> []) fs
      in if frame_post fs' = [] then []
         else take capture_limit (last_n pre_roll_limit (frame_pre fs') @ frame_post fs'))"

definition unarmed :: "session \<Rightarrow> bool" where
  "unarmed s \<longleftrightarrow> \<not> (se_bargeArmed s \<and> \<not> se_barged s)"

lemma last_n_append_last_n: "last_n n (last_n n a @ b) = last_n n (a @ b)"
proof (cases "n \<le> length a")
  case True
  then show ?thesis by (auto simp: last_n_def add.commute)
qed (simp add: last_n_def)

lemma take_remaining:
  "length c \<le> l \<Longrightarrow> take l (c @ x) =
     (if int l - int (length c) < int (length x) then c @ take (nat (int l - int (length c))) x else c @ x)"
  by (auto simp: nat_diff_distrib')

lemma session_accumulate_started:
  assumes "length (se_captured s) \<le> capture_limit" and "se_captureActive s" and "se_speechStarted s \<noteq> None"
  shows "session_accumulate now samples speech s =
    Fed ((if speech then s\<lparr>se_lastSpeech := Some now\<rparr> else s)\<lparr>se_captured := take capture_limit (se_captured s @ samples)\<rparr>)"
  using assms unfolding take_remaining [OF assms(1)]
  by (auto simp: session_accumulate_def Let_def)

lemma feed_started:
  assumes "session_inv s" and "se_captureActive s" and "se_speechStarted s \<noteq> None" and "unarmed s"
  shows "\<exists>s'. feed_frames fs s = Fed s' \<and> se_captured s' = take capture_limit (se_captured s @ concat (map (fst \<circ> snd) fs))"
  using assms
proof (induction fs arbitrary: s)
  case Nil
  then show ?case by (simp add: session_inv_def)
next
  case (Cons f fs)
  obtain now samples speech where f: "f = (now, samples, speech)" by (cases f) auto
  show ?case
  proof (cases "samples = []")
    case True
    then have "session_FeedPCM now samples speech s = Fed s" by (simp add: session_FeedPCM_def)
    then show ?thesis using Cons.IH [OF Cons.prems] True f by simp
  next
    case False
    define s1 where "s1 = (if speech then s\<lparr>se_lastSpeech := Some now\<rparr> else s)"
    define s2 where "s2 = s1\<lparr>se_captured := take capture_limit (se_captured s @ samples)\<rparr>"
    have "session_FeedPCM now samples speech s = Fed s2"
      using Cons.prems False session_accumulate_started [of s] unfolding s1_def s2_def
      by (auto simp: session_FeedPCM_def unarmed_def session_inv_def)
    moreover have "session_inv s2" "se_captureActive s2" "se_speechStarted s2 \<noteq> None" "unarmed s2"
      using Cons.prems by (auto simp: s2_def s1_def session_inv_def unarmed_def)
    from Cons.IH [OF this] obtain s' where s': "feed_frames fs s2 = Fed s'"
        "se_captured s' = take capture_limit (se_captured s2 @ concat (map (fst \<circ> snd) fs))"
      by blast
    have "se_captured s' = take capture_limit (se_captured s @ concat (map (fst \<circ> snd) (f # fs)))"
      unfolding s'(2) by (simp add: s2_def f take_append min_def)
    moreover have "feed_frames (f # fs) s = Fed s'" using calculation(1) f s'(1) by simp
    ultimately show ?thesis by blast
  qed
qed

text \<open>Before the first speech only the pre-roll changes.\<close>

lemma session_accumulate_waiting:
  assumes "se_captureActive s" and "se_speechStarted s = None"
  shows "session_accumulate now samples False s =
    Fed (s\<lparr>se_preRoll := last_n pre_roll_limit (se_preRoll s @ samples)\<rparr>)"
  using assms by (simp add: session_accumulate_def Let_def)

lemma session_accumulate_onset:
  assumes "session_inv s" and "se_captureActive s" and "se_speechStarted s = None"
  shows "session_accumulate now samples True s =
    Fed (s\<lparr>se_speechStarted := Some now, se_lastSpeech := Some now, se_preRoll := [],
           se_captured := take capture_limit (se_preRoll s @ samples)\<rparr>)"
proof -
  have "length (se_preRoll s) \<le> capture_limit" "se_captured s = []"
    using assms by (auto simp: session_inv_def)
  then show ?thesis
    using assms(2,3) unfolding take_remaining [OF \<open>length (se_preRoll s) \<le> capture_limit\<close>, of samples]
    by (simp add: session_accumulate_def Let_def)
qed

lemma feed_waiting:
  assumes "session_inv s" and "se_captureActive s" and "se_speechStarted s = None" and "unarmed s"
    and "\<forall>f \<in> set fs. fst (snd f) \<noteq> []"
  shows "\<exists>s'. feed_frames fs s = Fed s' \<and> se_captured s' =
    (if frame_post fs = [] then []
     else take capture_limit (last_n pre_roll_limit (se_preRoll s @ frame_pre fs) @ frame_post fs))"
  using assms
proof (induction fs arbitrary: s)
  case Nil
  then show ?case by (simp add: session_inv_def frame_post_def)
next
  case (Cons f fs)
  obtain now samples speech where f: "f = (now, samples, speech)" by (cases f) auto
  have ne: "samples \<noteq> []" using Cons.prems(5) f by simp
  have feed: "session_FeedPCM now samples speech s = session_accumulate now samples speech s"
    using ne Cons.prems(4) by (auto simp: session_FeedPCM_def unarmed_def)
  show ?case
  proof (cases speech)
    case False
    let ?s1 = "s\<lparr>se_preRoll := last_n pre_roll_limit (se_preRoll s @ samples)\<rparr>"
    have "session_inv ?s1" "se_captureActive ?s1" "se_speechStarted ?s1 = None" "unarmed ?s1"
      using Cons.prems by (auto simp: session_inv_def unarmed_def)
    from Cons.IH [OF this] obtain s' where s': "feed_frames fs ?s1 = Fed s'" "se_captured s' =
        (if frame_post fs = [] then []
         else take capture_limit (last_n pre_roll_limit (se_preRoll ?s1 @ frame_pre fs) @ frame_post fs))"
      using Cons.prems(5) by auto
    have "frame_pre (f # fs) = samples @ frame_pre fs" "frame_post (f # fs) = frame_post fs"
      using False f by (auto simp: frame_pre_def frame_post_def)
    then show ?thesis
      using s' f feed False session_accumulate_waiting [OF Cons.prems(2,3), of now samples]
      by (simp add: last_n_append_last_n del: length_last_n)
  next
    case True
    let ?s1 = "s\<lparr>se_speechStarted := Some now, se_lastSpeech := Some now, se_preRoll := [],
           se_captured := take capture_limit (se_preRoll s @ samples)\<rparr>"
    have "session_inv ?s1" "se_captureActive ?s1" "se_speechStarted ?s1 \<noteq> None" "unarmed ?s1"
      using Cons.prems by (auto simp: session_inv_def unarmed_def)
    from feed_started [OF this, of fs] obtain s' where s': "feed_frames fs ?s1 = Fed s'"
        "se_captured s' = take capture_limit (se_captured ?s1 @ concat (map (fst \<circ> snd) fs))"
      by blast
    have post: "frame_pre (f # fs) = []" "frame_post (f # fs) = samples @ concat (map (fst \<circ> snd) fs)"
      using True f by (auto simp: frame_pre_def frame_post_def)
    have "last_n pre_roll_limit (se_preRoll s) = se_preRoll s" using Cons.prems(1) by (simp add: session_inv_def)
    then have "se_captured s' = take capture_limit (last_n pre_roll_limit (se_preRoll s @ frame_pre (f # fs)) @ frame_post (f # fs))"
      unfolding s'(2) post by (simp add: take_append min_def)
    then show ?thesis
      using s'(1) f feed True ne post(2) session_accumulate_onset [OF Cons.prems(1-3), of now samples] by simp
  qed
qed

lemma feed_nonempty: "feed_frames fs s = feed_frames (filter (\<lambda>f. fst (snd f) \<noteq> []) fs) s"
proof (induction fs arbitrary: s)
  case (Cons f fs)
  obtain now samples speech where f: "f = (now, samples, speech)" by (cases f) auto
  show ?case
  proof (cases "samples = []")
    case True
    then have "session_FeedPCM now samples speech s = Fed s" by (simp add: session_FeedPCM_def)
    then show ?thesis using Cons.IH f True by simp
  next
    case False
    then show ?thesis using Cons.IH f by (simp split: fed.splits)
  qed
qed simp

lemma session_capture_holds_spec:
  assumes "session_inv s" and "unarmed s"
  shows "\<exists>s'. feed_frames fs (session_StartCapture s) = Fed s' \<and> fst (session_StopCapture s') = capture_spec fs"
proof -
  let ?fs = "filter (\<lambda>f. fst (snd f) \<noteq> []) fs" and ?s = "session_StartCapture s"
  have "session_inv ?s" "se_captureActive ?s" "se_speechStarted ?s = None" "unarmed ?s"
    using assms by (auto simp: session_inv_def session_StartCapture_def unarmed_def)
  from feed_waiting [OF this, of ?fs] obtain s' where "feed_frames ?fs ?s = Fed s'" "se_captured s' =
      (if frame_post ?fs = [] then []
       else take capture_limit (last_n pre_roll_limit (se_preRoll ?s @ frame_pre ?fs) @ frame_post ?fs))"
    by auto
  then show ?thesis using feed_nonempty [of fs ?s]
    by (simp add: capture_spec_def session_StopCapture_def session_StartCapture_def Let_def)
qed

text \<open>Frames keep the invariant, whoever feeds them, and a session that is not armed stays so.\<close>

lemma feed_frames_inv: "session_inv s \<Longrightarrow> \<exists>s'. feed_frames fs s = Fed s' \<and> session_inv s'"
proof (induction fs arbitrary: s)
  case (Cons f fs)
  obtain now samples speech where f: "f = (now, samples, speech)" by (cases f) auto
  from session_FeedPCM_inv [OF Cons.prems, of now samples speech] obtain s1
    where "session_FeedPCM now samples speech s = Fed s1" "session_inv s1" by blast
  then show ?case using Cons.IH [of s1] f by simp
qed simp

lemma session_accumulate_armed:
  "session_accumulate now samples speech s = Fed s' \<Longrightarrow> se_bargeArmed s' = se_bargeArmed s \<and> se_barged s' = se_barged s"
  by (cases "se_speechStarted s"; cases speech)
    (auto simp: session_accumulate_def Let_def split: if_splits)

lemma feed_frames_unarmed:
  "\<not> se_bargeArmed s \<Longrightarrow> feed_frames fs s = Fed s' \<Longrightarrow> \<not> se_bargeArmed s' \<and> se_barged s' = se_barged s"
proof (induction fs arbitrary: s)
  case (Cons f fs)
  obtain now samples speech where f: "f = (now, samples, speech)" by (cases f) auto
  obtain s1 where s1: "session_FeedPCM now samples speech s = Fed s1" "feed_frames fs s1 = Fed s'"
    using Cons.prems(2) f by (auto split: fed.splits)
  have "\<not> se_bargeArmed s1 \<and> se_barged s1 = se_barged s"
    using s1(1) Cons.prems(1) session_accumulate_armed [of now samples speech s s1]
    by (auto simp: session_FeedPCM_def split: if_splits)
  then show ?case using Cons.IH s1(2) by metis
qed simp

text \<open>C5: After StartCapture the turn holds, whatever the frames fed to it, exactly the audio from the
  first frame with speech on, pauses included, preceded by the last 4000 samples before it and cut at
  1920000 samples; nothing when no speech came.\<close>

theorem session_capture_correct:
  assumes "session_inv s" and "unarmed s"
  shows "\<exists>s'. feed_frames fs (session_StartCapture s) = Fed s' \<and> fst (session_StopCapture s') = capture_spec fs"
  by (rule session_capture_holds_spec [OF assms])

theorem session_capture_correct_witness:
  "\<exists>s'. feed_frames [(1, [Fin 1], False), (2, [Fin 2], True), (3, [Fin 3], False)]
      (session_StartCapture (session_New ''a'' ''n'')) = Fed s' \<and>
    fst (session_StopCapture s') = [Fin 1, Fin 2, Fin 3]"
proof -
  let ?s = "session_New ''a'' ''n''" and ?fs = "[(1, [Fin 1], False), (2, [Fin 2], True), (3, [Fin 3], False)]"
  have "session_inv ?s" "unarmed ?s" by (simp_all add: session_inv_def session_New_def unarmed_def)
  from session_capture_correct [OF this, of ?fs] show ?thesis
    by (simp add: capture_spec_def frame_post_def frame_pre_def)
qed

end
