(* ===== verification/Registry.thy ===== *)
theory Registry
  imports Session "HOL-Library.AList"
begin

text \<open>
  The registry of active turns (internal/session/registry.go). Sessions are shared by pointer with
  the turn that created them, so they live in a store and the registry holds addresses. A Go map is
  an association list with distinct keys; the order in which a \<open>range\<close> visits it is the order of the
  list, about which no claim relies on anything.
\<close>

type_synonym session_addr = nat
type_synonym session_store = "session_addr \<Rightarrow> session"

type_synonym registry = "(string \<times> (string \<times> session_addr) list) list"

definition NewRegistry :: registry where
  "NewRegistry = []"

definition registry_node :: "string \<Rightarrow> registry \<Rightarrow> (string \<times> session_addr) list" where
  "registry_node nodeID r = (case map_of r nodeID of None \<Rightarrow> [] | Some m \<Rightarrow> m)"

definition registry_Add :: "session_store \<Rightarrow> session_addr \<Rightarrow> registry \<Rightarrow> registry" where
  "registry_Add h a r =
     AList.update (se_NodeID (h a)) (AList.update (se_ID (h a)) a (registry_node (se_NodeID (h a)) r)) r"

definition registry_Remove :: "session_store \<Rightarrow> session_addr \<Rightarrow> registry \<Rightarrow> registry" where
  "registry_Remove h a r =
     (case map_of r (se_NodeID (h a)) of
        None \<Rightarrow> r
      | Some m \<Rightarrow>
          let m' = AList.delete (se_ID (h a)) m
          in if m' = [] then AList.delete (se_NodeID (h a)) r else AList.update (se_NodeID (h a)) m' r)"

definition registry_ActiveCount :: "string \<Rightarrow> registry \<Rightarrow> nat" where
  "registry_ActiveCount nodeID r = length (registry_node nodeID r)"

text \<open>The clock is read once per session; \<open>None\<close> is a feed that did not come back.\<close>

fun feed_sessions :: "(session_addr \<Rightarrow> int) \<Rightarrow> f32 list \<Rightarrow> bool \<Rightarrow> session_addr list \<Rightarrow> session_store \<Rightarrow> session_store option" where
  "feed_sessions clock samples speech [] h = Some h"
| "feed_sessions clock samples speech (a # as) h =
     (case session_FeedPCM (clock a) samples speech (h a) of
        Fed s' \<Rightarrow> feed_sessions clock samples speech as (h(a := s'))
      | _ \<Rightarrow> None)"

definition registry_FeedPCM ::
  "(session_addr \<Rightarrow> int) \<Rightarrow> string \<Rightarrow> f32 list \<Rightarrow> bool \<Rightarrow> registry \<Rightarrow> session_store \<Rightarrow> session_store option" where
  "registry_FeedPCM clock nodeID samples speech r h =
     feed_sessions clock samples speech (map snd (registry_node nodeID r)) h"

definition registry_Feed ::
  "(session_addr \<Rightarrow> int) \<Rightarrow> string \<Rightarrow> f32 list \<Rightarrow> registry \<Rightarrow> session_store \<Rightarrow> session_store option" where
  "registry_Feed clock nodeID samples r h =
     feed_sessions clock samples True (map snd (registry_node nodeID r)) h"

subsection \<open>Well-formed registries\<close>

definition entry_ok :: "session_store \<Rightarrow> string \<times> (string \<times> session_addr) list \<Rightarrow> bool" where
  "entry_ok h e \<longleftrightarrow> snd e \<noteq> [] \<and> distinct (map fst (snd e)) \<and>
     (\<forall>(i, a) \<in> set (snd e). se_ID (h a) = i \<and> se_NodeID (h a) = fst e)"

definition registry_ok :: "session_store \<Rightarrow> registry \<Rightarrow> bool" where
  "registry_ok h r \<longleftrightarrow> distinct (map fst r) \<and> (\<forall>e \<in> set r. entry_ok h e)"

lemma registry_ok_node:
  assumes "registry_ok h r"
  shows "distinct (map fst (registry_node n r)) \<and>
    (\<forall>(i, a) \<in> set (registry_node n r). se_ID (h a) = i \<and> se_NodeID (h a) = n)"
proof (cases "map_of r n")
  case (Some m)
  then have "(n, m) \<in> set r" by (rule map_of_SomeD)
  then have "entry_ok h (n, m)" using assms by (auto simp: registry_ok_def)
  then show ?thesis using Some by (auto simp: entry_ok_def registry_node_def)
qed (simp add: registry_node_def)

lemma registry_node_Add:
  "registry_node n (registry_Add h a r) =
     (if n = se_NodeID (h a) then AList.update (se_ID (h a)) a (registry_node n r) else registry_node n r)"
  by (simp add: registry_node_def registry_Add_def update_conv')

lemma registry_node_Remove:
  shows "registry_node n (registry_Remove h a r) =
    (if n = se_NodeID (h a) then AList.delete (se_ID (h a)) (registry_node n r) else registry_node n r)"
proof (cases "map_of r (se_NodeID (h a))")
  case None
  then show ?thesis by (simp add: registry_node_def registry_Remove_def)
next
  case (Some m)
  then show ?thesis
    by (cases "AList.delete (se_ID (h a)) m = []")
       (simp_all add: registry_node_def registry_Remove_def update_conv' delete_conv')
qed

lemma set_delete_pairs: "set (AList.delete k m) = {e \<in> set m. fst e \<noteq> k}"
  by (auto simp: AList.delete_eq)

lemma set_update_subset: "set (AList.update k v m) \<subseteq> insert (k, v) (set m)"
  by (induction m) auto

lemma registry_ok_update:
  assumes "registry_ok h r" and "entry_ok h (n, m)"
  shows "registry_ok h (AList.update n m r)"
  using assms set_update_subset [of n m r] by (auto simp: registry_ok_def distinct_update)

lemma registry_ok_delete: "registry_ok h r \<Longrightarrow> registry_ok h (AList.delete n r)"
  by (auto simp: registry_ok_def distinct_delete set_delete_pairs)

lemma registry_Add_ok [inv_intros]:
  assumes "registry_ok h r"
  shows "registry_ok h (registry_Add h a r)"
proof -
  let ?m = "AList.update (se_ID (h a)) a (registry_node (se_NodeID (h a)) r)"
  note node = registry_ok_node [OF assms, of "se_NodeID (h a)"]
  have "distinct (map fst ?m)" using conjunct1 [OF node] by (rule distinct_update)
  moreover have "\<forall>(i, b) \<in> set ?m. se_ID (h b) = i \<and> se_NodeID (h b) = se_NodeID (h a)"
    using set_update_subset [of "se_ID (h a)" a "registry_node (se_NodeID (h a)) r"] node by auto
  ultimately have "entry_ok h (se_NodeID (h a), ?m)" by (simp add: entry_ok_def)
  then show ?thesis using registry_ok_update [OF assms] by (simp add: registry_Add_def)
qed

lemma registry_Remove_ok [inv_intros]:
  assumes "registry_ok h r"
  shows "registry_ok h (registry_Remove h a r)"
proof (cases "map_of r (se_NodeID (h a))")
  case None
  then show ?thesis using assms by (simp add: registry_Remove_def)
next
  case (Some m)
  let ?m = "AList.delete (se_ID (h a)) m"
  have "entry_ok h (se_NodeID (h a), m)" using map_of_SomeD [OF Some] assms by (auto simp: registry_ok_def)
  then have "?m \<noteq> [] \<Longrightarrow> entry_ok h (se_NodeID (h a), ?m)"
    using distinct_delete [of m] by (auto simp: entry_ok_def set_delete_pairs)
  then show ?thesis
    using Some registry_ok_update [OF assms] registry_ok_delete [OF assms]
    by (simp add: registry_Remove_def Let_def)
qed

lemma FeedPCM_ids:
  "session_FeedPCM now samples speech s = Fed s' \<Longrightarrow> se_ID s' = se_ID s \<and> se_NodeID s' = se_NodeID s"
  by (auto simp: session_FeedPCM_def session_accumulate_def Let_def split: if_splits option.splits nat.splits)

lemma feed_sessions_spec:
  assumes "distinct as" and "\<forall>a \<in> set as. session_inv (h a)"
  shows "\<exists>h'. feed_sessions clock samples speech as h = Some h' \<and>
    (\<forall>b. if b \<in> set as then session_FeedPCM (clock b) samples speech (h b) = Fed (h' b) else h' b = h b)"
  using assms
proof (induction as arbitrary: h)
  case (Cons a as)
  obtain s' where s': "session_FeedPCM (clock a) samples speech (h a) = Fed s'"
    using session_FeedPCM_inv [of "h a" "clock a" samples speech] Cons.prems(2) by auto
  have "\<forall>b \<in> set as. session_inv ((h(a := s')) b)" "distinct as" using Cons.prems by auto
  from Cons.IH [OF this(2,1)] obtain h' where
    h': "feed_sessions clock samples speech as (h(a := s')) = Some h'"
      "\<forall>b. if b \<in> set as then session_FeedPCM (clock b) samples speech ((h(a := s')) b) = Fed (h' b)
           else h' b = (h(a := s')) b" by blast
  have "feed_sessions clock samples speech (a # as) h = Some h'" using s' h'(1) by simp
  moreover have "if b \<in> set (a # as) then session_FeedPCM (clock b) samples speech (h b) = Fed (h' b) else h' b = h b" for b
    using h'(2) [rule_format, of b] s' Cons.prems(1) by (cases "b = a") auto
  ultimately show ?case by blast
qed simp

lemma registry_addresses_distinct:
  assumes "registry_ok h r"
  shows "distinct (map snd (registry_node n r))"
proof -
  note node = registry_ok_node [OF assms, of n]
  have "e = (se_ID (h (snd e)), snd e)" if "e \<in> set (registry_node n r)" for e
    using node that by (cases e) auto
  then have "inj_on snd (set (registry_node n r))" by (metis inj_onI)
  moreover have "distinct (registry_node n r)" using node by (simp add: distinct_map)
  ultimately show ?thesis by (simp add: distinct_map)
qed

text \<open>Microphone audio of a node reaches every active turn of that node exactly once and no other
  session changes; in particular not one that was removed.\<close>

theorem registry_fan_out:
  assumes "registry_ok h r" and "\<forall>a. session_inv (h a)"
  shows "\<exists>h'. registry_FeedPCM clock n samples speech r h = Some h' \<and>
    (\<forall>b. if b \<in> snd ` set (registry_node n r) then session_FeedPCM (clock b) samples speech (h b) = Fed (h' b)
         else h' b = h b) \<and> registry_ok h' r \<and>
    (\<forall>a. a \<notin> snd ` set (registry_node n (registry_Remove h a r)))"
proof -
  let ?as = "map snd (registry_node n r)"
  from feed_sessions_spec [OF registry_addresses_distinct [OF assms(1), of n], of h clock samples speech] assms(2)
  obtain h' where h': "registry_FeedPCM clock n samples speech r h = Some h'"
      "\<forall>b. if b \<in> set ?as then session_FeedPCM (clock b) samples speech (h b) = Fed (h' b) else h' b = h b"
    unfolding registry_FeedPCM_def by blast
  have "se_ID (h' b) = se_ID (h b) \<and> se_NodeID (h' b) = se_NodeID (h b)" for b
    using h'(2) FeedPCM_ids by metis
  then have "registry_ok h' r" using assms(1) by (simp add: registry_ok_def entry_ok_def)
  moreover have "a \<notin> snd ` set (registry_node n (registry_Remove h a r))" for a
  proof
    assume "a \<in> snd ` set (registry_node n (registry_Remove h a r))"
    then obtain i where "(i, a) \<in> set (registry_node n (registry_Remove h a r))" by auto
    then show False using registry_ok_node [OF assms(1), of n]
      by (cases "n = se_NodeID (h a)") (auto simp: registry_node_Remove set_delete_pairs)
  qed
  ultimately show ?thesis using h' by auto
qed

theorem registry_fan_out_witness:
  "\<exists>h'. registry_FeedPCM (\<lambda>_. 5) ''n'' [Fin 1] True
      (registry_Add (\<lambda>_. session_New ''a'' ''n'') 0 NewRegistry) (\<lambda>_. session_New ''a'' ''n'') = Some h'"
proof -
  let ?h = "\<lambda>_ :: nat. session_New ''a'' ''n''"
  have "registry_ok ?h (registry_Add ?h 0 NewRegistry)"
    by (rule registry_Add_ok) (simp add: registry_ok_def NewRegistry_def)
  moreover have "\<forall>a. session_inv (?h a)" by (simp add: session_inv_def session_New_def)
  ultimately show ?thesis using registry_fan_out [of ?h "registry_Add ?h 0 NewRegistry"] by blast
qed

end
