(* ===== verification/Brain.thy ===== *)
theory Brain
  imports Turn_Effects Node_Queue Registry Config "HOL-Library.List_Lexorder" "HOL-Library.Char_ord"
begin

text \<open>
  The central orchestrator (internal/brain/brain.go): the table of nodes, and the operations that
  speak or play on one node or on all. Node handles are shared by pointer and live in a store. What
  the node's queue, the TTS engine and the audio endpoint answer is an environment; the operations
  give their error and the trace of what they did.
\<close>

abbreviation MaxAudioSeconds :: int where "MaxAudioSeconds \<equiv> 120"
abbreviation MaxTextBytes :: nat where "MaxTextBytes \<equiv> 4000"

record node_handle =
  nh_NodeID :: string
  nh_Type :: string
  nh_State :: node_state
  nh_Config :: node_config
  nh_has_diagnostics :: bool
  nh_queue :: "node_queue option"

record node_info =
  ni_NodeID :: string
  ni_Type :: string
  ni_State :: string
  ni_Diagnostics :: bool

type_synonym handle_addr = nat
type_synonym handle_store = "handle_addr \<Rightarrow> node_handle"

record brain =
  br_nodes :: "(string \<times> handle_addr) list"
  br_sessions :: registry

definition brain_New :: brain where
  "brain_New = \<lparr>br_nodes = [], br_sessions = NewRegistry\<rparr>"

definition brain_RegisterNode :: "string \<Rightarrow> handle_addr \<Rightarrow> brain \<times> handle_store \<Rightarrow> brain \<times> handle_store" where
  "brain_RegisterNode nodeID a s =
     (case s of (b, h) \<Rightarrow>
        (b\<lparr>br_nodes := AList.update nodeID a (br_nodes b)\<rparr>,
         if nh_queue (h a) = None then h(a := (h a)\<lparr>nh_queue := Some newNodeQueue\<rparr>) else h))"

definition brain_UnregisterNode :: "string \<Rightarrow> brain \<times> handle_store \<Rightarrow> brain \<times> handle_store" where
  "brain_UnregisterNode nodeID s =
     (case s of (b, h) \<Rightarrow>
        (b\<lparr>br_nodes := AList.delete nodeID (br_nodes b)\<rparr>,
         (case map_of (br_nodes b) nodeID of
            None \<Rightarrow> h
          | Some a \<Rightarrow> h(a := (h a)\<lparr>nh_queue := map_option nq_close (nh_queue (h a))\<rparr>))))"

definition brain_GetNodeHandle :: "string \<Rightarrow> brain \<Rightarrow> handle_addr option" where
  "brain_GetNodeHandle nodeID b = map_of (br_nodes b) nodeID"

definition brain_NodeCount :: "brain \<Rightarrow> nat" where
  "brain_NodeCount b = length (br_nodes b)"

definition brain_ListNodes :: "brain \<times> handle_store \<Rightarrow> node_info list" where
  "brain_ListNodes s =
     (case s of (b, h) \<Rightarrow>
        sort_key ni_NodeID
          (map (\<lambda>(i, a). \<lparr>ni_NodeID = nh_NodeID (h a), ni_Type = nh_Type (h a),
                          ni_State = node_state_text (nh_State (h a)),
                          ni_Diagnostics = nh_has_diagnostics (h a) \<and> dc_Enabled (nc_Diagnostics (nh_Config (h a)))\<rparr>)
            (br_nodes b)))"

definition brain_snapshotHandles :: "brain \<Rightarrow> handle_addr list" where
  "brain_snapshotHandles b = map snd (br_nodes b)"

definition brain_FeedAudio :: "(session_addr \<Rightarrow> int) \<Rightarrow> string \<Rightarrow> f32 list \<Rightarrow> brain \<Rightarrow> session_store \<Rightarrow> session_store option" where
  "brain_FeedAudio clock nodeID samples b h = registry_Feed clock nodeID samples (br_sessions b) h"

subsection \<open>The environment of a turn\<close>

text \<open>
  \<open>en_acquire\<close>: what \<open>queue.acquire\<close> answers in the end (the grant is \<open>None\<close>); \<open>en_synth\<close>: what
  \<open>SynthesizeToStream\<close> answers, the stream standing for the samples it gives until EOF and for its
  rate; \<open>en_read\<close>: an error that ends reading it all; \<open>en_play\<close>, \<open>en_stream\<close>: what the endpoint
  answers to \<open>Play\<close> and \<open>PlayStream\<close>; \<open>en_pow10\<close>: \<open>math.Pow(10, x)\<close>.
\<close>

record turn_env =
  en_acquire :: "string \<Rightarrow> int \<Rightarrow> go_error option"
  en_synth :: "string \<Rightarrow> (i16 list \<times> int) result"
  en_read :: "string \<Rightarrow> go_error option"
  en_play :: "string \<Rightarrow> i16 list \<Rightarrow> go_error option"
  en_stream :: "string \<Rightarrow> i16 list \<Rightarrow> go_error option"
  en_pow10 :: "f64 \<Rightarrow> f64"

definition node_gain :: "turn_env \<Rightarrow> node_handle \<Rightarrow> i16 list \<Rightarrow> i16 list" where
  "node_gain env h pcm =
     (if f_eq (rs_OutputGainDb (nc_RTCStream (nh_Config h))) (Fin 0) then pcm
      else ApplyGainPCM16 (en_pow10 env) pcm (rs_OutputGainDb (nc_RTCStream (nh_Config h))))"

definition not_registered :: "string \<Rightarrow> go_error" where
  "not_registered nodeID = Msg (''node '' @ [CHR 0x27] @ nodeID @ [CHR 0x27] @ '' not registered'')"

subsection \<open>Speaking and playing on one node\<close>

text \<open>
  The streamed source is the stream behind the gain: by the contract of sources it gives the gained
  samples. The state changes that follow an error are those of the code.
\<close>

definition speakToHandle :: "turn_env \<Rightarrow> string \<Rightarrow> node_handle \<Rightarrow> string \<Rightarrow> int \<Rightarrow> go_error option \<times> turn_effect list" where
  "speakToHandle env n h text priority =
     (if is_blank text then (None, [])
      else case en_synth env text of
        Inl err \<Rightarrow> (Some (Wrap ''TTS synthesis failed: '' err),
                    [Ef_state n StateProcessing, Ef_synthesize text priority, Ef_state n StateIdle])
      | Inr (pcm, rate) \<Rightarrow>
          (map_option (Wrap ''failed to stream audio: '') (en_stream env n (node_gain env h pcm)),
           [Ef_state n StateProcessing, Ef_synthesize text priority, Ef_state n StateSpeaking,
            Ef_stream n (node_gain env h pcm), Ef_state n StateIdle]))"

definition playSamplesToHandle :: "turn_env \<Rightarrow> string \<Rightarrow> node_handle \<Rightarrow> i16 list \<Rightarrow> int \<Rightarrow> go_error option \<times> turn_effect list" where
  "playSamplesToHandle env n h base rate =
     (if base = [] then (None, [])
      else
        (map_option (Wrap ''failed to play audio: '') (en_play env n (node_gain env h base)),
         [Ef_state n StateProcessing, Ef_state n StateSpeaking, Ef_play n (node_gain env h base) rate,
          Ef_state n StateIdle]))"

text \<open>Work under the node's queue: the release is deferred, so it is last on every path.\<close>

definition with_turn :: "turn_env \<Rightarrow> string \<Rightarrow> int \<Rightarrow> go_error option \<times> turn_effect list \<Rightarrow> go_error option \<times> turn_effect list" where
  "with_turn env n priority work =
     (case en_acquire env n priority of
        Some err \<Rightarrow> (Some err, [])
      | None \<Rightarrow> (fst work, Ef_acquire n priority # snd work @ [Ef_release n]))"

definition brain_Speak :: "turn_env \<Rightarrow> brain \<times> handle_store \<Rightarrow> string \<Rightarrow> string \<Rightarrow> int \<Rightarrow> go_error option \<times> turn_effect list" where
  "brain_Speak env s nodeID text priority =
     (case map_of (br_nodes (fst s)) nodeID of
        None \<Rightarrow> (Some (not_registered nodeID), [])
      | Some a \<Rightarrow>
          if is_blank text then (None, [])
          else with_turn env (nh_NodeID (snd s a)) priority
                 (speakToHandle env (nh_NodeID (snd s a)) (snd s a) text priority))"

definition brain_PlaySamples :: "turn_env \<Rightarrow> brain \<times> handle_store \<Rightarrow> string \<Rightarrow> i16 list \<Rightarrow> int \<Rightarrow> int \<Rightarrow> go_error option \<times> turn_effect list" where
  "brain_PlaySamples env s nodeID pcm rate priority =
     (case map_of (br_nodes (fst s)) nodeID of
        None \<Rightarrow> (Some (not_registered nodeID), [])
      | Some a \<Rightarrow>
          if rate \<le> 0 \<or> 192000 < rate \<or> rate * MaxAudioSeconds < int (length pcm)
          then (Some (Msg ''invalid audio rate or duration''), [])
          else if pcm = [] then (None, [])
          else with_turn env (nh_NodeID (snd s a)) priority
                 (playSamplesToHandle env (nh_NodeID (snd s a)) (snd s a) pcm rate))"

subsection \<open>All nodes\<close>

text \<open>
  Each node is driven by a goroutine of its own: the traces are those of the goroutines, which run
  concurrently. \<open>errors.Join\<close> drops the nil errors and is nil when all are.
\<close>

definition errors_Join :: "go_error option list \<Rightarrow> go_error option" where
  "errors_Join es = (case List.map_filter (\<lambda>e. e) es of [] \<Rightarrow> None | xs \<Rightarrow> Some (Joined xs))"

definition brain_playAll :: "turn_env \<Rightarrow> handle_store \<Rightarrow> handle_addr list \<Rightarrow> i16 list \<Rightarrow> int \<Rightarrow> int \<Rightarrow> go_error option \<times> turn_effect list list" where
  "brain_playAll env h handles pcm rate priority =
     (let run = (\<lambda>a. with_turn env (nh_NodeID (h a)) priority
                     (playSamplesToHandle env (nh_NodeID (h a)) (h a) pcm rate))
      in (errors_Join (map (\<lambda>a. map_option (Wrap (''node '' @ nh_NodeID (h a) @ '': '')) (fst (run a))) handles),
          map (\<lambda>a. snd (run a)) handles))"

definition brain_PlaySamplesAll :: "turn_env \<Rightarrow> brain \<times> handle_store \<Rightarrow> i16 list \<Rightarrow> int \<Rightarrow> int \<Rightarrow> go_error option \<times> turn_effect list list" where
  "brain_PlaySamplesAll env s pcm rate priority =
     (if pcm = [] then (None, [])
      else let handles = brain_snapshotHandles (fst s)
           in if handles = [] then (Some (Msg ''no nodes registered''), [])
              else brain_playAll env (snd s) handles pcm rate priority)"

definition brain_Synthesize :: "turn_env \<Rightarrow> string \<Rightarrow> int \<Rightarrow> (i16 list \<times> int) result \<times> turn_effect list" where
  "brain_Synthesize env text priority =
     (if is_blank text then (Inr ([], 0), [])
      else (case en_synth env text of
              Inl err \<Rightarrow> Inl (Wrap ''TTS synthesis failed: '' err)
            | Inr (pcm, rate) \<Rightarrow> (case en_read env text of Some err \<Rightarrow> Inl err | None \<Rightarrow> Inr (pcm, rate)),
            [Ef_synthesize text priority]))"

definition brain_SpeakAll :: "turn_env \<Rightarrow> brain \<times> handle_store \<Rightarrow> string \<Rightarrow> int \<Rightarrow> go_error option \<times> turn_effect list list" where
  "brain_SpeakAll env s text priority =
     (if is_blank text then (None, [])
      else let handles = brain_snapshotHandles (fst s)
           in if handles = [] then (Some (Msg ''no nodes registered''), [])
              else case brain_Synthesize env text priority of
                (Inl err, t) \<Rightarrow> (Some err, [t])
              | (Inr (pcm, rate), t) \<Rightarrow>
                  (case brain_playAll env (snd s) handles pcm rate priority of (e, ts) \<Rightarrow> (e, t # ts)))"

subsection \<open>Turns\<close>

text \<open>\<open>AcquireNode\<close> gives the handle, whose \<open>Release\<close> is the queue's.\<close>

definition brain_AcquireNode :: "turn_env \<Rightarrow> brain \<times> handle_store \<Rightarrow> string \<Rightarrow> int \<Rightarrow> node_handle result" where
  "brain_AcquireNode env s nodeID priority =
     (case brain_GetNodeHandle nodeID (fst s) of
        None \<Rightarrow> Inl (not_registered nodeID)
      | Some a \<Rightarrow>
          (case en_acquire env (nh_NodeID (snd s a)) priority of Some err \<Rightarrow> Inl err | None \<Rightarrow> Inr (snd s a)))"

definition turn_Play :: "turn_env \<Rightarrow> ctx_err \<Rightarrow> node_handle \<Rightarrow> i16 list \<Rightarrow> int \<Rightarrow> go_error option \<times> turn_effect list" where
  "turn_Play env cerr h pcm rate =
     (if cerr \<noteq> None then (cerr, [])
      else if rate \<le> 0 then (Some (Msg ''invalid sample rate''), [])
      else (en_play env (nh_NodeID h) (node_gain env h pcm), [Ef_play (nh_NodeID h) (node_gain env h pcm) rate]))"

definition turn_PlayStream :: "turn_env \<Rightarrow> ctx_err \<Rightarrow> node_handle \<Rightarrow> i16 list \<Rightarrow> int \<Rightarrow> go_error option \<times> turn_effect list" where
  "turn_PlayStream env cerr h pcm rate =
     (if cerr \<noteq> None then (cerr, [])
      else if rate \<le> 0 then (Some (Msg ''invalid sample rate''), [])
      else (en_stream env (nh_NodeID h) (node_gain env h pcm), [Ef_stream (nh_NodeID h) (node_gain env h pcm)]))"

subsection \<open>Turn discipline\<close>

lemma speakToHandle_on_node: "\<forall>e \<in> set (snd (speakToHandle env n h text p)). on_node n e"
  by (auto simp: speakToHandle_def split: sum.splits prod.splits)

lemma playSamplesToHandle_on_node: "\<forall>e \<in> set (snd (playSamplesToHandle env n h pcm r)). on_node n e"
  by (auto simp: playSamplesToHandle_def)

lemma with_turn_ok: "\<forall>e \<in> set (snd w). on_node n e \<Longrightarrow> turn_ok [] (snd (with_turn env n p w))"
  by (auto simp: with_turn_def turn_ok_on_node split: option.splits)

lemma speakToHandle_idle: "last_state n (snd (speakToHandle env n h text p)) StateIdle = StateIdle"
  by (auto simp: speakToHandle_def split: sum.splits prod.splits)

lemma playSamplesToHandle_idle: "last_state n (snd (playSamplesToHandle env n h pcm r)) StateIdle = StateIdle"
  by (auto simp: playSamplesToHandle_def)

lemma with_turn_idle:
  "last_state n (snd w) StateIdle = StateIdle \<Longrightarrow> last_state n (snd (with_turn env n p w)) StateIdle = StateIdle"
  by (auto simp: with_turn_def split: option.splits)

lemma playAll_turn_ok:
  "t \<in> set (snd (brain_playAll env h handles pcm rate p)) \<Longrightarrow> turn_ok [] t"
  by (auto simp: brain_playAll_def Let_def intro: with_turn_ok [OF playSamplesToHandle_on_node])

lemma brain_ops_turn_ok:
  "turn_ok [] (snd (brain_Speak env s n text p))"
  "turn_ok [] (snd (brain_PlaySamples env s n pcm rate p))"
  "\<forall>t \<in> set (snd (brain_PlaySamplesAll env s pcm rate p)). turn_ok [] t"
  "\<forall>t \<in> set (snd (brain_SpeakAll env s text p)). turn_ok [] t"
proof -
  show "turn_ok [] (snd (brain_Speak env s n text p))"
    using with_turn_ok speakToHandle_on_node by (auto simp: brain_Speak_def split: option.splits)
  show "turn_ok [] (snd (brain_PlaySamples env s n pcm rate p))"
    using with_turn_ok playSamplesToHandle_on_node by (auto simp: brain_PlaySamples_def split: option.splits)
  show "\<forall>t \<in> set (snd (brain_PlaySamplesAll env s pcm rate p)). turn_ok [] t"
    using playAll_turn_ok by (auto simp: brain_PlaySamplesAll_def Let_def)
  have "turn_ok [] (snd (brain_Synthesize env text p))" by (simp add: brain_Synthesize_def)
  then show "\<forall>t \<in> set (snd (brain_SpeakAll env s text p)). turn_ok [] t"
  proof (cases "brain_Synthesize env text p")
    case (Pair r t)
    then show ?thesis using \<open>turn_ok [] (snd (brain_Synthesize env text p))\<close>
      by (auto simp: brain_SpeakAll_def Let_def split: prod.splits sum.splits)
         (metis playAll_turn_ok snd_conv)
  qed
qed

text \<open>C15: Every way of speaking or playing, on one node or on all, touches a node only within a turn that
  its queue granted, and releases that turn on every path, errors included.\<close>

theorem brain_turn_discipline:
  "turn_ok [] (snd (brain_Speak env s n text p)) \<and>
   turn_ok [] (snd (brain_PlaySamples env s n pcm rate p)) \<and>
   (\<forall>t \<in> set (snd (brain_PlaySamplesAll env s pcm rate p)). turn_ok [] t) \<and>
   (\<forall>t \<in> set (snd (brain_SpeakAll env s text p)). turn_ok [] t)"
  by (intro conjI brain_ops_turn_ok)

text \<open>A broadcast: the recording goes, with each node's gain, to every registered node exactly once.\<close>

lemma playAll_traces:
  "length (snd (brain_playAll env h handles pcm rate p)) = length handles \<and>
   (\<forall>i < length handles. en_acquire env (nh_NodeID (h (handles ! i))) p = None \<longrightarrow> pcm \<noteq> [] \<longrightarrow>
      filter (\<lambda>e. case e of Ef_play _ _ _ \<Rightarrow> True | _ \<Rightarrow> False) (snd (brain_playAll env h handles pcm rate p) ! i) =
      [Ef_play (nh_NodeID (h (handles ! i))) (node_gain env (h (handles ! i)) pcm) rate])"
  by (auto simp: brain_playAll_def Let_def with_turn_def playSamplesToHandle_def)

lemma errors_Join_None: "errors_Join es = None \<longleftrightarrow> (\<forall>e \<in> set es. e = None)"
  by (induction es) (auto simp: errors_Join_def List.map_filter_def split: option.splits list.splits)

text \<open>A broadcast plays the whole recording once on each registered node that grants a turn, with that
  node's own gain, and reports success exactly when every node was granted and played it.\<close>

theorem broadcast_all_nodes:
  assumes "pcm \<noteq> []" and "br_nodes (fst s) \<noteq> []"
  shows "(fst (brain_PlaySamplesAll env s pcm rate p) = None \<longleftrightarrow>
      (\<forall>(i, a) \<in> set (br_nodes (fst s)). en_acquire env (nh_NodeID (snd s a)) p = None \<and>
         en_play env (nh_NodeID (snd s a)) (node_gain env (snd s a) pcm) = None)) \<and>
    length (snd (brain_PlaySamplesAll env s pcm rate p)) = length (br_nodes (fst s)) \<and>
    (\<forall>k < length (br_nodes (fst s)). let h = snd s (snd (br_nodes (fst s) ! k)) in
       en_acquire env (nh_NodeID h) p = None \<longrightarrow>
       filter (\<lambda>e. case e of Ef_play _ _ _ \<Rightarrow> True | _ \<Rightarrow> False) (snd (brain_PlaySamplesAll env s pcm rate p) ! k) =
       [Ef_play (nh_NodeID h) (node_gain env h pcm) rate])"
proof -
  let ?hs = "map snd (br_nodes (fst s))"
  have eq: "brain_PlaySamplesAll env s pcm rate p = brain_playAll env (snd s) ?hs pcm rate p"
    using assms by (simp add: brain_PlaySamplesAll_def brain_snapshotHandles_def)
  have "fst (brain_playAll env (snd s) as pcm rate p) = None \<longleftrightarrow>
      (\<forall>a \<in> set as. en_acquire env (nh_NodeID (snd s a)) p = None \<and>
         en_play env (nh_NodeID (snd s a)) (node_gain env (snd s a) pcm) = None)" for as
    using assms(1) by (auto simp: brain_playAll_def Let_def errors_Join_None with_turn_def
        playSamplesToHandle_def split: option.splits)
  then show ?thesis unfolding eq using playAll_traces [of env "snd s" ?hs pcm rate p] assms(1)
    by (auto simp: Let_def)
qed

text \<open>An environment in which every node grants its turns, plays without error and speaks \<open>pcm\<close>.\<close>

definition sample_env :: "i16 list \<Rightarrow> turn_env" where
  "sample_env pcm = \<lparr>en_acquire = (\<lambda>_ _. None), en_synth = (\<lambda>_. Inr (pcm, 24000)), en_read = (\<lambda>_. None),
     en_play = (\<lambda>_ _. None), en_stream = (\<lambda>_ _. None), en_pow10 = (\<lambda>x. x)\<rparr>"

definition sample_handle :: node_handle where
  "sample_handle = \<lparr>nh_NodeID = ''kitchen'', nh_Type = ''local'', nh_State = StateIdle,
     nh_Config = hd (cf_Nodes sample_config), nh_has_diagnostics = False, nh_queue = None\<rparr>"

theorem brain_turn_discipline_witness:
  "\<exists>t. snd (brain_PlaySamplesAll (sample_env []) (\<lparr>br_nodes = [(''kitchen'', 0)], br_sessions = []\<rparr>, \<lambda>_. sample_handle)
     [1, 2] 16000 0) = [t] \<and> t \<noteq> [] \<and> turn_ok [] t"
proof -
  let ?r = "brain_PlaySamplesAll (sample_env []) (\<lparr>br_nodes = [(''kitchen'', 0)], br_sessions = []\<rparr>, \<lambda>_. sample_handle) [1, 2] 16000 0"
  have "\<exists>t. snd ?r = [t] \<and> t \<noteq> []"
    by (simp add: brain_PlaySamplesAll_def brain_playAll_def brain_snapshotHandles_def Let_def with_turn_def sample_env_def)
  then show ?thesis using brain_turn_discipline [of "sample_env []"
      "(\<lparr>br_nodes = [(''kitchen'', 0)], br_sessions = []\<rparr>, \<lambda>_. sample_handle)" _ _ 0 "[1, 2]" 16000] by auto
qed

theorem broadcast_all_nodes_witness:
  "fst (brain_PlaySamplesAll (sample_env []) (\<lparr>br_nodes = [(''kitchen'', 0)], br_sessions = []\<rparr>, \<lambda>_. sample_handle)
     [1, 2] 16000 0) = None"
  using broadcast_all_nodes [of "[1, 2]" "(\<lparr>br_nodes = [(''kitchen'', 0)], br_sessions = []\<rparr>, \<lambda>_. sample_handle)"
    "sample_env []" 16000 0]
  by (simp add: sample_env_def)

end
