(* ===== verification/Ask.thy ===== *)
theory Ask
  imports Brain
begin

text \<open>
  The ask flow (internal/ask/ask.go and chime.go): prompt with barge-in, capture, transcription,
  speaker verification with a voice challenge. A run is a function of an environment that says what
  the endpoint, the engines, the context and the microphone did: it threads the real session
  through the frames that arrived in each phase and gives the result and the trace of effects.
\<close>

record ask_config =
  ak_ContextID :: string
  ak_NodeID :: string
  ak_TTSText :: string
  ak_BargeIn :: bool
  ak_RequireSpeakerID :: bool
  ak_VADTimeoutSeconds :: f64
  ak_Priority :: int
  ak_CaptureDelaySeconds :: f64
  ak_PostSpeechSilenceSeconds :: f64

record ask_result =
  ar_ContextID :: string
  ar_NodeID :: string
  ar_Status :: string
  ar_Transcription :: string
  ar_Speaker :: string
  ar_ErrorMessage :: string
  ar_Audio :: "f32 list"
  ar_SampleRate :: int

definition ask_duration_ok :: "f64 \<Rightarrow> f64 \<Rightarrow> bool" where
  "ask_duration_ok v m \<longleftrightarrow> \<not> (f_is_nan v \<or> f_is_inf v \<or> f_lt v (Fin 0) \<or> f_lt m v)"

definition ask_Validate :: "ask_config \<Rightarrow> go_error option" where
  "ask_Validate c =
     (if ak_NodeID c = [] \<or> ak_NodeID c = ''all'' then Some (Msg ''ask requires one node_id'')
      else if MaxTextBytes < length (ak_TTSText c) then Some (Msg (''prompt exceeds '' @ show_nat MaxTextBytes @ '' bytes''))
      else if \<not> ask_duration_ok (ak_VADTimeoutSeconds c) (Fin 120) \<or>
              \<not> ask_duration_ok (ak_CaptureDelaySeconds c) (Fin 20) \<or>
              \<not> ask_duration_ok (ak_PostSpeechSilenceSeconds c) (Fin 20)
      then Some (Msg ''invalid ask duration'') else None)"

subsection \<open>Chimes and silence\<close>

datatype chime_kind = Chime_start | Chime_stop

abbreviation chimeSampleRate :: int where "chimeSampleRate \<equiv> 24000"

text \<open>The constant \<open>2*math.Pi\<close> as a \<open>float64\<close>; \<open>math.Cos\<close> and \<open>math.Sin\<close> are parameters.\<close>

definition two_pi :: f64 where
  "two_pi = Fin (884279719003555 / 140737488355328)"

definition chime_sample :: "(f64 \<Rightarrow> f64) \<Rightarrow> (f64 \<Rightarrow> f64) \<Rightarrow> f64 \<Rightarrow> int \<Rightarrow> f64 \<Rightarrow> nat \<Rightarrow> i16" where
  "chime_sample mcos msin sr toneN f i =
     (let fi = f_of_int float64 (int i);
          t = f_div float64 fi sr;
          env = f_mul float64 (Fin (1 / 2))
                  (f_sub float64 (Fin 1) (mcos (f_div float64 (f_mul float64 two_pi fi) (f_of_int float64 (toneN - 1)))));
          v = f_mul float64 (f_mul float64 (fround float64 (3 / 10)) env)
                (msin (f_mul float64 (f_mul float64 two_pi f) t))
      in word_of_int (f_to_int (f_mul float64 v (Fin 32767))))"

definition tone_len :: "int \<Rightarrow> int \<Rightarrow> int" where
  "tone_len rate ms = f_to_int (f_div float64 (f_mul float64 (f_of_int float64 rate) (Fin (of_int ms))) (Fin 1000))"

definition renderChimeAt :: "(f64 \<Rightarrow> f64) \<Rightarrow> (f64 \<Rightarrow> f64) \<Rightarrow> chime_kind \<Rightarrow> int \<Rightarrow> i16 list" where
  "renderChimeAt mcos msin kind rate =
     (let tones = (case kind of Chime_stop \<Rightarrow> [Fin (2637 / 4), Fin (2093 / 4)] | Chime_start \<Rightarrow> [Fin (2093 / 4), Fin (2637 / 4)]);
          toneN = tone_len rate 110; gapN = tone_len rate 15
      in concat (map (\<lambda>f. map (chime_sample mcos msin (f_of_int float64 rate) toneN f) [0..<nat toneN] @
                           replicate (nat gapN) 0) tones))"

definition silencePCMAt :: "int \<Rightarrow> int \<Rightarrow> i16 list" where
  "silencePCMAt rate ms =
     (if rate \<le> 0 \<or> ms \<le> 0 then []
      else let n = go_div (rate * ms) 1000 in if n \<le> 0 then [] else replicate (nat n) 0)"

lemma length_renderChimeAt:
  "length (renderChimeAt mcos msin kind rate) = 2 * (nat (tone_len rate 110) + nat (tone_len rate 15))"
  by (cases kind) (simp_all add: renderChimeAt_def Let_def)

subsection \<open>waitForEndpoint\<close>

text \<open>
  Iteration \<open>k\<close> sees the session's activity, the clock and the context; the value is the iteration in
  which the wait returned. Between iterations the code waits for its 20 ms ticker.
\<close>

definition endpoint_reached :: "int \<Rightarrow> duration \<Rightarrow> duration \<Rightarrow> int \<Rightarrow> instant \<times> instant \<Rightarrow> bool" where
  "endpoint_reached opened onset silence now act =
     (case fst act of
        None \<Rightarrow> onset \<le> now - opened
      | Some started \<Rightarrow>
          (case snd act of None \<Rightarrow> True | Some lst \<Rightarrow> silence \<le> now - lst) \<or>
          MaxAudioSeconds * second \<le> now - started)"

partial_function (option) waitForEndpoint ::
    "(nat \<Rightarrow> instant \<times> instant) \<Rightarrow> (nat \<Rightarrow> int) \<Rightarrow> (nat \<Rightarrow> bool) \<Rightarrow> int \<Rightarrow> duration \<Rightarrow> duration \<Rightarrow> nat \<Rightarrow> nat option" where
  "waitForEndpoint activity now cancelled opened onset silence k =
     (if endpoint_reached opened onset silence (now k) (activity k) then Some k
      else if cancelled k then Some k
      else waitForEndpoint activity now cancelled opened onset silence (Suc k))"

lemma waitForEndpoint_by:
  assumes "k \<le> n" and "endpoint_reached opened onset silence (now n) (activity n)"
  shows "\<exists>m. waitForEndpoint activity now cancelled opened onset silence k = Some m \<and> m \<le> n"
  using assms(1)
proof (induction "n - k" arbitrary: k)
  case 0
  then have "k = n" by simp
  then show ?case using assms(2) by (subst waitForEndpoint.simps) simp
next
  case (Suc d)
  show ?case
  proof (cases "endpoint_reached opened onset silence (now k) (activity k) \<or> cancelled k")
    case True
    then show ?thesis using Suc.prems by (subst waitForEndpoint.simps) auto
  next
    case False
    have "d = n - Suc k" "Suc k \<le> n" using Suc.hyps(2) by auto
    from Suc.hyps(1) [OF this] show ?thesis using False by (subst waitForEndpoint.simps) auto
  qed
qed

lemma waitForEndpoint_result:
  "waitForEndpoint activity now cancelled opened onset silence k = Some m \<Longrightarrow>
   endpoint_reached opened onset silence (now m) (activity m) \<or> cancelled m"
  by (induction rule: waitForEndpoint.raw_induct [rotated 1, consumes 1]) (auto split: if_splits)

text \<open>The wait for the end of a turn always ends: by the onset timeout when nobody speaks, else at the
  latest 120 s after speech started; and it ends early only on the pause it was asked for or on
  cancellation.\<close>

theorem endpoint_wait_ends:
  assumes clock: "\<forall>t. \<exists>k. \<forall>j \<ge> k. t \<le> now j"
    and once: "\<forall>k j st. fst (activity k) = Some st \<longrightarrow> k \<le> j \<longrightarrow> fst (activity j) = Some st"
  shows "\<exists>m. waitForEndpoint activity now cancelled opened onset silence 0 = Some m \<and>
    (cancelled m \<or>
     (case fst (activity m) of
        None \<Rightarrow> opened + onset \<le> now m
      | Some started \<Rightarrow> started + 120 * second \<le> now m \<or>
          (case snd (activity m) of None \<Rightarrow> True | Some lst \<Rightarrow> lst + silence \<le> now m)))"
proof -
  have "\<exists>n. endpoint_reached opened onset silence (now n) (activity n)"
  proof (cases "\<exists>k st. fst (activity k) = Some st")
    case True
    then obtain k st where k: "fst (activity k) = Some st" by blast
    obtain i where i: "\<forall>j \<ge> i. st + MaxAudioSeconds * second \<le> now j" using clock by blast
    have "endpoint_reached opened onset silence (now (max i k)) (activity (max i k))"
      using once [rule_format, OF k, of "max i k"] spec [OF i, of "max i k"] by (simp add: endpoint_reached_def algebra_simps)
    then show ?thesis by blast
  next
    case False
    then have "fst (activity k) = None" for k by (cases "fst (activity k)") auto
    moreover obtain i where "opened + onset \<le> now i" using clock by blast
    ultimately have "endpoint_reached opened onset silence (now i) (activity i)" by (simp add: endpoint_reached_def)
    then show ?thesis by blast
  qed
  then obtain m where m: "waitForEndpoint activity now cancelled opened onset silence 0 = Some m"
    using waitForEndpoint_by [of 0] by blast
  show ?thesis using m waitForEndpoint_result [OF m]
    by (auto simp: endpoint_reached_def split: option.splits)
qed

theorem endpoint_wait_ends_witness:
  "\<exists>m. waitForEndpoint (\<lambda>k. if k < 5 then (None, None) else (Some 100000000, Some 200000000))
      (\<lambda>k. int k * (20 * millisecond)) (\<lambda>_. False) 0 (10 * second) second 0 = Some m"
proof -
  let ?act = "\<lambda>k :: nat. if k < 5 then (None, None) else (Some (100000000 :: int), Some (200000000 :: int))"
  have clock: "\<forall>t. \<exists>k. \<forall>j \<ge> k. t \<le> int j * (20 * millisecond)"
  proof (intro allI exI impI)
    fix t :: int and j assume j: "nat \<bar>t\<bar> \<le> j"
    have "t \<le> int (nat \<bar>t\<bar>)" by simp
    also have "\<dots> \<le> int j" using j by simp
    also have "\<dots> \<le> int j * (20 * millisecond)" by simp
    finally show "t \<le> int j * (20 * millisecond)" .
  qed
  have once: "\<forall>k j st. fst (?act k) = Some st \<longrightarrow> k \<le> j \<longrightarrow> fst (?act j) = Some st"
    by auto
  show ?thesis using endpoint_wait_ends [OF clock once, of "\<lambda>_. False" 0 "10 * second" second] by blast
qed

subsection \<open>The environment of a run\<close>

text \<open>
  \<open>ae_ctx k\<close> is the context as seen at the \<open>k\<close>-th place where the run looks at it: 0 the start of
  prompt playback, 1 after it, 2 the start chime, 3 after the capture, 4 the stop chime, 5 the
  challenge playback, 6 the wait after it, 7 after the second capture, 8 its stop chime, 9 the fail
  prompt. The frames are what the microphone fed to the session in each phase; \<open>ae_barge_seen\<close> says
  whether the goroutine that waits for the barge-in signal won its \<open>select\<close>.
\<close>

record ask_env = turn_env +
  ae_ctx :: "nat \<Rightarrow> ctx_err"
  ae_session_id :: string
  ae_has_reset :: bool
  ae_prompt_frames :: "(int \<times> frame) list"
  ae_barge_seen :: bool
  ae_idle_frames :: "(int \<times> frame) list"
  ae_capture_frames :: "(int \<times> frame) list"
  ae_challenge_idle_frames :: "(int \<times> frame) list"
  ae_challenge_frames :: "(int \<times> frame) list"
  ae_transcribe :: "f32 list \<Rightarrow> string result"
  ae_identify :: "f32 list \<Rightarrow> string result"
  ae_pick :: nat
  ae_cos :: "f64 \<Rightarrow> f64"
  ae_sin :: "f64 \<Rightarrow> f64"

text \<open>Frames that arrive while the run is elsewhere. A feed always returns (\<open>session_FeedPCM_inv\<close>).\<close>

definition hear :: "(int \<times> frame) list \<Rightarrow> session \<Rightarrow> session" where
  "hear fs s = (case feed_frames fs s of Fed s' \<Rightarrow> s' | _ \<Rightarrow> s)"

definition ask_res :: "ask_config \<Rightarrow> string \<Rightarrow> string \<Rightarrow> ask_result" where
  "ask_res c status msg = \<lparr>ar_ContextID = ak_ContextID c, ar_NodeID = ak_NodeID c, ar_Status = status,
     ar_Transcription = [], ar_Speaker = [], ar_ErrorMessage = msg, ar_Audio = [], ar_SampleRate = 0\<rparr>"

abbreviation ask_error :: "ask_config \<Rightarrow> string \<Rightarrow> ask_result" where
  "ask_error c msg \<equiv> ask_res c ''error'' msg"

definition seconds :: "f64 \<Rightarrow> duration" where
  "seconds x = f_to_int (f_mul float64 x (Fin 1000000000))"

definition playChime :: "ask_env \<Rightarrow> nat \<Rightarrow> node_handle \<Rightarrow> chime_kind \<Rightarrow> turn_effect list" where
  "playChime env k h kind =
     snd (turn_Play (turn_env.truncate env) (ae_ctx env k) h
            (renderChimeAt (ae_cos env) (ae_sin env) kind chimeSampleRate) chimeSampleRate)"

subsection \<open>Phase 1: the prompt\<close>

definition ask_tail :: "ask_env \<Rightarrow> node_handle \<Rightarrow> int \<Rightarrow> i16 list" where
  "ask_tail env h rate =
     (let pad = nc_Type (nh_Config h) = ''rtc_stream''
      in (if pad then silencePCMAt rate 80 else []) @ renderChimeAt (ae_cos env) (ae_sin env) Chime_start rate @
         (if pad then silencePCMAt rate 180 else []))"

text \<open>Either the run ends here, or the session goes on with what is known: barged in, chime played.\<close>

definition ask_prompt :: "ask_env \<Rightarrow> ask_config \<Rightarrow> node_handle \<Rightarrow> session \<Rightarrow>
    (ask_result + bool \<times> bool \<times> session) \<times> turn_effect list" where
  "ask_prompt env c h sess =
     (let n = nh_NodeID h in
      if is_blank (ak_TTSText c) then (Inr (False, False, sess), [])
      else case en_synth env (ak_TTSText c) of
        Inl err \<Rightarrow> (Inl (ask_error c (err_text err)), [Ef_synthesize (ak_TTSText c) (ak_Priority c)])
      | Inr (pcm, rate) \<Rightarrow>
          if rate \<le> 0 then (Inr (False, False, sess), [Ef_synthesize (ak_TTSText c) (ak_Priority c)])
          else
            let armed = (if ak_BargeIn c then session_ArmBargeIn sess else sess);
                heard = hear (ae_prompt_frames env) armed;
                (perr, t) = turn_PlayStream (turn_env.truncate env) (ae_ctx env 0) h (pcm @ ask_tail env h rate) rate;
                (barged, sess') = session_DisarmBargeIn heard;
                eff = [Ef_synthesize (ak_TTSText c) (ak_Priority c), Ef_state n StateSpeaking] @ t @
                      (if barged \<and> ae_barge_seen env then [Ef_state n StateListening] else [])
            in case ae_ctx env 1 of
                 Some e \<Rightarrow> (Inl (ask_error c (err_text e)), eff)
               | None \<Rightarrow>
                   (case perr of
                      Some e \<Rightarrow> if barged \<and> err_is e Canceled then (Inr (barged, True, sess'), eff)
                                else (Inl (ask_error c (err_text e)), eff)
                    | None \<Rightarrow> (Inr (barged, True, sess'), eff)))"

subsection \<open>Phase 2: capture\<close>

definition ask_timeout :: "ask_config \<Rightarrow> duration" where
  "ask_timeout c =
     (let t = seconds (ak_VADTimeoutSeconds c) in if t \<le> 0 then 10 * second else t)"

definition ask_silence :: "ask_config \<Rightarrow> node_handle \<Rightarrow> duration" where
  "ask_silence c h =
     seconds (if f_le (ak_PostSpeechSilenceSeconds c) (Fin 0)
              then GetPostSpeechSilenceSeconds (nh_Config h) (Fin (3 / 2)) else ak_PostSpeechSilenceSeconds c)"

definition ask_reset :: "ask_env \<Rightarrow> node_handle \<Rightarrow> turn_effect list" where
  "ask_reset env h = (if ae_has_reset env then [Ef_reset_capture (nh_NodeID h)] else [])"

definition ask_capture :: "ask_env \<Rightarrow> ask_config \<Rightarrow> node_handle \<Rightarrow> bool \<Rightarrow> bool \<Rightarrow> session \<Rightarrow>
    (ask_result + f32 list \<times> session) \<times> turn_effect list" where
  "ask_capture env c h barged chimed sess =
     (let n = nh_NodeID h;
          before = (if barged then []
                    else (if chimed then [] else Ef_state n StateSpeaking # playChime env 2 h Chime_start) @
                         (if f_lt (Fin 0) (ak_CaptureDelaySeconds c) then [Ef_wait (seconds (ak_CaptureDelaySeconds c))] else []));
          idle = session_ToListening (hear (ae_idle_frames env) sess);
          opened = (if barged then idle else session_StartCapture idle);
          (captured, sess') = session_StopCapture (hear (ae_capture_frames env) opened);
          eff = before @ (if barged then [] else ask_reset env h) @ [Ef_state n StateListening, Ef_endpoint (ask_timeout c) (ask_silence c h)]
      in case ae_ctx env 3 of
           Some e \<Rightarrow> (Inl (ask_error c (err_text e)), eff)
         | None \<Rightarrow>
             if captured = []
             then (Inl (ask_res c ''silence_timeout'' []), eff @ playChime env 4 h Chime_stop @ [Ef_state n StateProcessing])
             else (Inr (captured, session_ToProcessing sess'),
                   eff @ playChime env 4 h Chime_stop @ [Ef_state n StateProcessing, Ef_record captured]))"

subsection \<open>Phase 3: speaker verification\<close>

definition playFailPrompt :: "ask_env \<Rightarrow> speaker_id_config \<Rightarrow> ask_config \<Rightarrow> node_handle \<Rightarrow> turn_effect list" where
  "playFailPrompt env sp c h =
     (let text = (if si_ChallengeFailedPrompt sp = [] then ''Acceso denegado.'' else si_ChallengeFailedPrompt sp)
      in case brain_Synthesize (turn_env.truncate env) text (ak_Priority c) of
           (Inl err, t) \<Rightarrow> t
         | (Inr (pcm, rate), t) \<Rightarrow>
             if pcm = [] then t
             else t @ [Ef_state (nh_NodeID h) StateSpeaking] @
                  snd (turn_Play (turn_env.truncate env) (ae_ctx env 9) h pcm rate))"

definition challenge_text :: "speaker_id_config \<Rightarrow> nat \<Rightarrow> string" where
  "challenge_text sp pick =
     (let prompt = si_ChallengePrompts sp ! (pick mod length (si_ChallengePrompts sp))
      in if si_ChallengeInitPrompt sp \<noteq> [] then si_ChallengeInitPrompt sp @ '': '' @ prompt else prompt)"

text \<open>The capture of the challenge answer and its identification.\<close>

definition ask_challenge_answer :: "ask_env \<Rightarrow> speaker_id_config \<Rightarrow> ask_config \<Rightarrow> node_handle \<Rightarrow> session \<Rightarrow>
    (ask_result + string) \<times> turn_effect list" where
  "ask_challenge_answer env sp c h sess =
     (let n = nh_NodeID h;
          opened = session_StartCapture (session_ToListening (hear (ae_challenge_idle_frames env) sess));
          second' = fst (session_StopCapture (hear (ae_challenge_frames env) opened));
          eff = ask_reset env h @ [Ef_state n StateListening, Ef_endpoint (ask_timeout c) (ask_silence c h)]
      in case ae_ctx env 7 of
           Some e \<Rightarrow> (Inl (ask_error c (err_text e)), eff)
         | None \<Rightarrow>
             let eff' = eff @ playChime env 8 h Chime_stop @ [Ef_state n StateProcessing]
             in if second' = []
                then (Inl (ask_res c ''verification_failed'' []), eff' @ playFailPrompt env sp c h)
                else case ae_identify env second' of
                  Inl _ \<Rightarrow> (Inl (ask_res c ''verification_failed'' []), eff' @ Ef_identify second' # playFailPrompt env sp c h)
                | Inr speaker \<Rightarrow>
                    if speaker = []
                    then (Inl (ask_res c ''verification_failed'' []), eff' @ Ef_identify second' # playFailPrompt env sp c h)
                    else (Inr speaker, eff' @ [Ef_identify second']))"

definition ask_challenge :: "ask_env \<Rightarrow> speaker_id_config \<Rightarrow> ask_config \<Rightarrow> node_handle \<Rightarrow> session \<Rightarrow>
    (ask_result + string) \<times> turn_effect list" where
  "ask_challenge env sp c h sess =
     (let n = nh_NodeID h in
      if si_ChallengePrompts sp = []
      then (Inl (ask_error c ''no challenge prompts configured''), [Ef_state n StateChallenging])
      else case brain_Synthesize (turn_env.truncate env) (challenge_text sp (ae_pick env)) (ak_Priority c) of
        (Inl err, t) \<Rightarrow> (Inl (ask_error c (''challenge synthesis failed: '' @ err_text err)), Ef_state n StateChallenging # t)
      | (Inr (pcm, rate), t) \<Rightarrow>
          (case turn_Play (turn_env.truncate env) (ae_ctx env 5) h pcm rate of
             (perr, u) \<Rightarrow>
               let eff = [Ef_state n StateChallenging] @ t @ [Ef_state n StateSpeaking] @ u
               in if perr \<noteq> None \<and> perr \<noteq> Some Canceled
                  then (Inl (ask_error c (''challenge playback failed: '' @ err_text (the perr))), eff)
                  else if ae_ctx env 6 \<noteq> None
                  then (Inl (ask_error c ''context cancelled during challenge''), eff @ [Ef_wait (150 * millisecond)])
                  else (case ask_challenge_answer env sp c h sess of
                          (r, v) \<Rightarrow> (r, eff @ Ef_wait (150 * millisecond) # v))))"

text \<open>The first attempt: the captured speech itself, when it is long enough.\<close>

definition ask_verify :: "ask_env \<Rightarrow> speaker_id_config \<Rightarrow> ask_config \<Rightarrow> node_handle \<Rightarrow> f32 list \<Rightarrow> session \<Rightarrow>
    (ask_result + string) \<times> turn_effect list" where
  "ask_verify env sp c h captured sess =
     (let long = f_le (f_conv float64 (si_MinAudioDurationSeconds sp))
                      (f_div float64 (f_of_int float64 (int (length captured))) (Fin 16000));
          tried = (if long then [Ef_identify captured] else []);
          ok = (if long then (case ae_identify env captured of Inl _ \<Rightarrow> None | Inr s \<Rightarrow> if s = [] then None else Some s) else None)
      in case ok of
           Some speaker \<Rightarrow> (Inr speaker, tried)
         | None \<Rightarrow> (case ask_challenge env sp c h sess of (r, t) \<Rightarrow> (r, tried @ t)))"

subsection \<open>Run\<close>

definition ask_success :: "ask_config \<Rightarrow> string \<Rightarrow> string \<Rightarrow> f32 list \<Rightarrow> ask_result" where
  "ask_success c text speaker captured =
     \<lparr>ar_ContextID = ak_ContextID c, ar_NodeID = ak_NodeID c, ar_Status = ''success'', ar_Transcription = text,
      ar_Speaker = speaker, ar_ErrorMessage = [], ar_Audio = captured, ar_SampleRate = 16000\<rparr>"

definition ask_process :: "ask_env \<Rightarrow> speaker_id_config \<Rightarrow> ask_config \<Rightarrow> node_handle \<Rightarrow> f32 list \<Rightarrow> session \<Rightarrow>
    ask_result \<times> turn_effect list" where
  "ask_process env sp c h captured sess =
     (case ae_transcribe env captured of
        Inl err \<Rightarrow> (ask_error c (''ASR failed: '' @ err_text err), [Ef_transcribe captured (ak_Priority c)])
      | Inr text \<Rightarrow>
          if ak_RequireSpeakerID c
          then (case ask_verify env sp c h captured sess of
                  (Inl r, t) \<Rightarrow> (r, Ef_transcribe captured (ak_Priority c) # t)
                | (Inr speaker, t) \<Rightarrow> (ask_success c text speaker captured, Ef_transcribe captured (ak_Priority c) # t))
          else (ask_success c text [] captured, [Ef_transcribe captured (ak_Priority c)]))"

text \<open>The three phases, each of which may end the run.\<close>

definition ask_flow :: "ask_env \<Rightarrow> speaker_id_config \<Rightarrow> ask_config \<Rightarrow> node_handle \<Rightarrow> session \<Rightarrow> ask_result \<times> turn_effect list" where
  "ask_flow env sp c h sess =
     (case ask_prompt env c h sess of
        (Inl r, t) \<Rightarrow> (r, t)
      | (Inr (barged, chimed, sess1), t) \<Rightarrow>
          (case ask_capture env c h barged chimed sess1 of
             (Inl r, u) \<Rightarrow> (r, t @ u)
           | (Inr (captured, sess2), u) \<Rightarrow>
               (case ask_process env sp c h captured sess2 of (r, v) \<Rightarrow> (r, t @ u @ v))))"

text \<open>The deferred calls run in reverse order: session removed, node idle, turn released.\<close>

definition ask_Run :: "ask_env \<Rightarrow> speaker_id_config \<Rightarrow> brain \<times> handle_store \<Rightarrow> ask_config \<Rightarrow> ask_result \<times> turn_effect list" where
  "ask_Run env sp s c =
     (case ask_Validate c of
        Some err \<Rightarrow> (ask_error c (err_text err), [])
      | None \<Rightarrow>
          (case brain_AcquireNode (turn_env.truncate env) s (ak_NodeID c) (ak_Priority c) of
             Inl err \<Rightarrow> (ask_error c (err_text err), [])
           | Inr h \<Rightarrow>
               let n = nh_NodeID h;
                   sess = session_New ((if ak_ContextID c = [] then ''ask'' else ak_ContextID c) @ ''-'' @ ae_session_id env) (ak_NodeID c)
               in (case ask_flow env sp c h sess of
                     (r, t) \<Rightarrow>
                       (r, [Ef_acquire n (ak_Priority c), Ef_state n StateProcessing, Ef_session_add n] @ t @
                           [Ef_session_remove n, Ef_state n StateIdle, Ef_release n]))))"

subsection \<open>Discipline\<close>

lemma turn_Play_on_node: "\<forall>e \<in> set (snd (turn_Play env ce h pcm rate)). on_node (nh_NodeID h) e"
  by (simp add: turn_Play_def)

lemma turn_PlayStream_on_node: "\<forall>e \<in> set (snd (turn_PlayStream env ce h pcm rate)). on_node (nh_NodeID h) e"
  by (simp add: turn_PlayStream_def)

lemma playChime_on_node: "\<forall>e \<in> set (playChime env k h kind). on_node (nh_NodeID h) e"
  unfolding playChime_def by (rule turn_Play_on_node)

lemma Synthesize_on_node: "\<forall>e \<in> set (snd (brain_Synthesize env tx p)). on_node n e"
  by (simp add: brain_Synthesize_def)

lemma ask_reset_on_node: "\<forall>e \<in> set (ask_reset env h). on_node (nh_NodeID h) e"
  by (simp add: ask_reset_def)

lemma ask_prompt_on_node: "\<forall>e \<in> set (snd (ask_prompt env c h sess)). on_node (nh_NodeID h) e"
proof -
  have "\<forall>e \<in> set t. on_node (nh_NodeID h) e" if "turn_PlayStream (turn_env.truncate env) ce h pcm rate = (r, t)" for ce pcm rate r t
    using turn_PlayStream_on_node [of "turn_env.truncate env" ce h pcm rate] that by simp
  then show ?thesis
    by (auto simp: ask_prompt_def Let_def split: sum.splits prod.splits option.splits)
qed

lemma ask_capture_on_node: "\<forall>e \<in> set (snd (ask_capture env c h barged chimed sess)). on_node (nh_NodeID h) e"
  using playChime_on_node [of env _ h] ask_reset_on_node [of env h]
  by (auto simp: ask_capture_def Let_def split: option.splits prod.splits)

lemma playFailPrompt_on_node: "\<forall>e \<in> set (playFailPrompt env sp c h). on_node (nh_NodeID h) e"
proof -
  let ?tx = "if si_ChallengeFailedPrompt sp = [] then ''Acceso denegado.'' else si_ChallengeFailedPrompt sp"
  obtain r t where rt: "brain_Synthesize (turn_env.truncate env) ?tx (ak_Priority c) = (r, t)" by force
  have t: "\<forall>e \<in> set t. on_node (nh_NodeID h) e"
    using Synthesize_on_node [of "turn_env.truncate env" ?tx "ak_Priority c" "nh_NodeID h"] rt by simp
  have f: "playFailPrompt env sp c h = (case (r, t) of
      (Inl err, t) \<Rightarrow> t
    | (Inr (pcm, rate), t) \<Rightarrow> if pcm = [] then t else t @ [Ef_state (nh_NodeID h) StateSpeaking] @
        snd (turn_Play (turn_env.truncate env) (ae_ctx env 9) h pcm rate))"
    unfolding playFailPrompt_def Let_def rt ..
  show ?thesis unfolding f using t turn_Play_on_node [of "turn_env.truncate env" _ h]
    by (auto split: sum.splits)
qed

lemma ask_challenge_answer_on_node: "\<forall>e \<in> set (snd (ask_challenge_answer env sp c h sess)). on_node (nh_NodeID h) e"
  using playChime_on_node [of env _ h] ask_reset_on_node [of env h] playFailPrompt_on_node [of env sp c h]
  by (auto simp: ask_challenge_answer_def Let_def split: option.splits sum.splits)

lemma ask_challenge_on_node: "\<forall>e \<in> set (snd (ask_challenge env sp c h sess)). on_node (nh_NodeID h) e"
proof -
  have 1: "\<forall>e \<in> set t. on_node (nh_NodeID h) e" if "brain_Synthesize (turn_env.truncate env) tx p = (r, t)" for tx p r t
    using Synthesize_on_node [of "turn_env.truncate env" tx p "nh_NodeID h"] that by simp
  have 2: "\<forall>e \<in> set t. on_node (nh_NodeID h) e" if "turn_Play (turn_env.truncate env) ce h pcm rate = (r, t)" for ce pcm rate r t
    using turn_Play_on_node [of "turn_env.truncate env" ce h pcm rate] that by simp
  have 3: "\<forall>e \<in> set t. on_node (nh_NodeID h) e" if "ask_challenge_answer env sp c h sess = (r, t)" for r t
    using ask_challenge_answer_on_node [of env sp c h sess] that by simp
  show ?thesis using 1 2 3
    by (auto simp: ask_challenge_def Let_def split: prod.splits sum.splits)
qed

lemma ask_verify_on_node: "\<forall>e \<in> set (snd (ask_verify env sp c h captured sess)). on_node (nh_NodeID h) e"
  using ask_challenge_on_node [of env sp c h sess]
  by (auto simp: ask_verify_def Let_def split: prod.splits sum.splits option.splits)

lemma ask_process_on_node: "\<forall>e \<in> set (snd (ask_process env sp c h captured sess)). on_node (nh_NodeID h) e"
  using ask_verify_on_node [of env sp c h captured sess]
  by (auto simp: ask_process_def split: prod.splits sum.splits)

lemma ask_flow_on_node: "\<forall>e \<in> set (snd (ask_flow env sp c h sess)). on_node (nh_NodeID h) e"
proof -
  obtain r1 t1 where 1: "ask_prompt env c h sess = (r1, t1)" by force
  have t1: "\<forall>e \<in> set t1. on_node (nh_NodeID h) e" using ask_prompt_on_node [of env c h sess] 1 by simp
  show ?thesis
  proof (cases r1)
    case (Inl r)
    then show ?thesis using 1 t1 by (simp add: ask_flow_def)
  next
    case (Inr a)
    obtain barged chimed sess1 where a: "a = (barged, chimed, sess1)" by (cases a)
    obtain r2 t2 where 2: "ask_capture env c h barged chimed sess1 = (r2, t2)" by force
    have t2: "\<forall>e \<in> set t2. on_node (nh_NodeID h) e"
      using ask_capture_on_node [of env c h barged chimed sess1] 2 by simp
    have t3: "\<forall>e \<in> set t. on_node (nh_NodeID h) e" if "ask_process env sp c h p s2 = (r, t)" for p s2 r t
      using ask_process_on_node [of env sp c h p s2] that by simp
    show ?thesis using 1 2 t1 t2 t3 Inr a
      by (cases r2) (auto simp: ask_flow_def split: prod.splits)
  qed
qed

lemma ask_Run_cases:
  obtains (invalid) err where "ask_Validate c = Some err" "ask_Run env sp s c = (ask_error c (err_text err), [])"
  | (refused) err where "ask_Validate c = None" "brain_AcquireNode (turn_env.truncate env) s (ak_NodeID c) (ak_Priority c) = Inl err"
      "ask_Run env sp s c = (ask_error c (err_text err), [])"
  | (ran) h sess r t where "ask_Validate c = None" "brain_AcquireNode (turn_env.truncate env) s (ak_NodeID c) (ak_Priority c) = Inr h"
      "sess = session_New ((if ak_ContextID c = [] then ''ask'' else ak_ContextID c) @ ''-'' @ ae_session_id env) (ak_NodeID c)"
      "ask_flow env sp c h sess = (r, t)"
      "ask_Run env sp s c = (r, [Ef_acquire (nh_NodeID h) (ak_Priority c), Ef_state (nh_NodeID h) StateProcessing,
         Ef_session_add (nh_NodeID h)] @ t @ [Ef_session_remove (nh_NodeID h), Ef_state (nh_NodeID h) StateIdle, Ef_release (nh_NodeID h)])"
proof (cases "ask_Validate c")
  case (Some err)
  then show thesis by (intro invalid) (simp_all add: ask_Run_def)
next
  case None
  show thesis
  proof (cases "brain_AcquireNode (turn_env.truncate env) s (ak_NodeID c) (ak_Priority c)")
    case (Inl err)
    with None show thesis by (intro refused) (simp_all add: ask_Run_def)
  next
    case (Inr h)
    let ?sess = "session_New ((if ak_ContextID c = [] then ''ask'' else ak_ContextID c) @ ''-'' @ ae_session_id env) (ak_NodeID c)"
    obtain r t where rt: "ask_flow env sp c h ?sess = (r, t)" by force
    show thesis
      by (rule ran [OF None Inr refl rt]) (simp add: ask_Run_def None Inr rt Let_def del: append.append_Cons)
  qed
qed

lemma ask_Run_turn_ok: "turn_ok [] (snd (ask_Run env sp s c))"
proof (cases rule: ask_Run_cases [of c env sp s])
  case (ran h sess r t)
  have "\<forall>e \<in> set t. on_node (nh_NodeID h) e" using ask_flow_on_node [of env sp c h sess] ran(4) by simp
  then show ?thesis using ran by (simp add: turn_ok_on_node)
qed simp_all

text \<open>C8: An ask run acts on the node only within the turn it was granted. It is silent when the request is
  invalid or the turn is refused; otherwise, whatever fails on the way, its last three effects remove its
  session, leave the node idle and release the turn, in this order.\<close>

theorem ask_turn_discipline:
  "turn_ok [] (snd (ask_Run env sp s c)) \<and>
   (case (ask_Validate c, brain_AcquireNode (turn_env.truncate env) s (ak_NodeID c) (ak_Priority c)) of
      (None, Inr h) \<Rightarrow> \<exists>u. snd (ask_Run env sp s c) =
         u @ [Ef_session_remove (nh_NodeID h), Ef_state (nh_NodeID h) StateIdle, Ef_release (nh_NodeID h)]
    | _ \<Rightarrow> snd (ask_Run env sp s c) = [] \<and> ar_Status (fst (ask_Run env sp s c)) = ''error'')"
proof (cases rule: ask_Run_cases [of c env sp s])
  case (ran h sess r t)
  have "\<forall>e \<in> set t. on_node (nh_NodeID h) e" using ask_flow_on_node [of env sp c h sess] ran(4) by simp
  then show ?thesis using ran by (simp add: turn_ok_on_node)
qed (auto simp: ask_res_def)

subsection \<open>What a successful run vouches for\<close>

lemma hear_inv: "session_inv s \<Longrightarrow> session_inv (hear fs s)"
  using feed_frames_inv [of s fs] by (auto simp: hear_def)

lemma hear_unarmed: "\<not> se_bargeArmed s \<Longrightarrow> \<not> se_bargeArmed (hear fs s) \<and> se_barged (hear fs s) = se_barged s"
  using feed_frames_unarmed [of s fs] by (auto simp: hear_def split: fed.splits)

lemma session_inv_ops:
  assumes "session_inv s"
  shows "session_inv (session_setState st s)" and "session_inv (session_ArmBargeIn s)"
    and "session_inv (snd (session_DisarmBargeIn s))" and "session_inv (session_StartCapture s)"
    and "session_inv (session_ToListening s)"
  using assms by (auto simp: session_inv_def session_setState_def session_ArmBargeIn_def session_DisarmBargeIn_def
      session_StartCapture_def session_ToListening_def)

lemma session_New_ok:
  "session_inv (session_New i n) \<and> \<not> se_bargeArmed (session_New i n) \<and> \<not> se_barged (session_New i n)"
  by (simp add: session_inv_def session_New_def)

text \<open>The samples heard in a list of frames, and the ones a session keeps.\<close>

definition frame_samples :: "(int \<times> frame) list \<Rightarrow> f32 set" where
  "frame_samples fs = set (concat (map (fst \<circ> snd) fs))"

definition session_audio :: "session \<Rightarrow> f32 set" where
  "session_audio s = set (se_captured s) \<union> set (se_preRoll s)"

lemma last_n_subset: "set (last_n n xs) \<subseteq> set xs"
  by (auto simp: last_n_def dest: in_set_dropD)

lemma accumulate_audio: "session_accumulate now samples speech s = Fed s' \<Longrightarrow> session_audio s' \<subseteq> session_audio s \<union> set samples"
  using last_n_subset [of pre_roll_limit "se_preRoll s @ samples"] last_n_subset [of pre_roll_limit samples]
  by (auto simp: session_accumulate_def session_audio_def Let_def split: if_splits dest!: in_set_takeD)

lemma FeedPCM_audio:
  assumes "session_FeedPCM now samples speech s = Fed s'"
  shows "session_audio s' \<subseteq> session_audio s \<union> set samples"
proof -
  let ?s = "s\<lparr>se_barged := True, se_captureActive := True, se_captured := [], se_state := Session_Listening, se_bargeCh := Some 1\<rparr>"
  have "session_audio ?s \<subseteq> session_audio s" by (auto simp: session_audio_def)
  then show ?thesis using assms accumulate_audio [of now samples speech s s'] accumulate_audio [of now samples speech ?s s']
    by (auto simp: session_FeedPCM_def split: if_splits option.splits nat.splits)
qed

lemma feed_frames_audio: "feed_frames fs s = Fed s' \<Longrightarrow> session_audio s' \<subseteq> session_audio s \<union> frame_samples fs"
proof (induction fs arbitrary: s)
  case (Cons f fs)
  obtain now samples speech where f: "f = (now, samples, speech)" by (cases f) auto
  from Cons.prems obtain s1 where s1: "session_FeedPCM now samples speech s = Fed s1" "feed_frames fs s1 = Fed s'"
    unfolding f by (auto split: fed.splits)
  show ?case using Cons.IH [OF s1(2)] FeedPCM_audio [OF s1(1)] by (auto simp: frame_samples_def f)
qed (simp add: frame_samples_def)

lemma hear_audio: "session_audio (hear fs s) \<subseteq> session_audio s \<union> frame_samples fs"
  using feed_frames_audio [of fs s] by (auto simp: hear_def split: fed.splits)

lemma session_audio_ops [simp]:
  "session_audio (session_New i n) = {}" "session_audio (session_setState st s) = session_audio s"
  "session_audio (session_ArmBargeIn s) = session_audio s" "session_audio (snd (session_DisarmBargeIn s)) = session_audio s"
  "session_audio (session_StartCapture s) = {}" "session_audio (session_ToListening s) = session_audio s"
  by (auto simp: session_audio_def session_New_def session_setState_def session_ArmBargeIn_def session_DisarmBargeIn_def
      session_StartCapture_def session_ToListening_def)

text \<open>A capture that is opened now and hears the frames \<open>fs\<close>, on a session that is not armed.\<close>

lemma hear_capture:
  assumes "session_inv s" and "\<not> se_bargeArmed s"
  shows "fst (session_StopCapture (hear fs (session_StartCapture s))) = capture_spec fs"
  using session_capture_holds_spec [OF assms(1), of fs] assms(2) by (auto simp: hear_def unarmed_def)

lemma ask_prompt_result:
  assumes "ask_prompt env c h sess = (r, t)" and "session_inv sess" and "\<not> se_bargeArmed sess" and "\<not> se_barged sess"
  shows "(case r of Inl q \<Rightarrow> ar_Status q = ''error''
    | Inr (barged, chimed, s) \<Rightarrow> session_inv s \<and> \<not> se_bargeArmed s \<and> (barged \<longrightarrow> ak_BargeIn c) \<and>
        session_audio s \<subseteq> session_audio sess \<union> frame_samples (ae_prompt_frames env))"
proof -
  let ?armed = "if ak_BargeIn c then session_ArmBargeIn sess else sess"
  let ?heard = "hear (ae_prompt_frames env) ?armed"
  obtain barged s' where d: "session_DisarmBargeIn ?heard = (barged, s')" by force
  have "session_inv ?armed" using assms(2) session_inv_ops by auto
  then have inv: "session_inv s'" using session_inv_ops(3) [OF hear_inv] d by (metis snd_conv)
  have un: "\<not> se_bargeArmed s'" using d by (auto simp: session_DisarmBargeIn_def Let_def)
  have b: "barged \<longrightarrow> ak_BargeIn c"
    using d assms(3,4) hear_unarmed [of sess "ae_prompt_frames env"]
    by (cases "ak_BargeIn c") (auto simp: session_DisarmBargeIn_def)
  have aud: "session_audio s' \<subseteq> session_audio sess \<union> frame_samples (ae_prompt_frames env)"
    using session_audio_ops(4) [of ?heard] hear_audio [of "ae_prompt_frames env" ?armed] d by (auto split: if_splits)
  have r: "r = fst (ask_prompt env c h sess)" using assms(1) by simp
  show ?thesis
  proof (cases "is_blank (ak_TTSText c) \<or> isl (en_synth env (ak_TTSText c))")
    case True
    then show ?thesis unfolding r using assms(2,3) by (cases "is_blank (ak_TTSText c)") (auto simp: ask_prompt_def ask_res_def isl_def Let_def)
  next
    case False
    then obtain pcm rate where sy: "en_synth env (ak_TTSText c) = Inr (pcm, rate)" by (cases "en_synth env (ak_TTSText c)") auto
    obtain perr u where p: "turn_PlayStream (turn_env.truncate env) (ae_ctx env 0) h (pcm @ ask_tail env h rate) rate = (perr, u)"
      by force
    show ?thesis unfolding r using False sy p d assms(2,3) inv un b aud
      by (simp add: ask_prompt_def ask_res_def Let_def split: option.split)
  qed
qed

lemma ask_capture_result:
  assumes "ask_capture env c h barged chimed sess = (r, t)" and "session_inv sess" and "\<not> se_bargeArmed sess"
  shows "(case r of Inl q \<Rightarrow> ar_Status q \<in> {''error'', ''silence_timeout''}
    | Inr (audio, s) \<Rightarrow> audio \<noteq> [] \<and> length audio \<le> capture_limit \<and>
        (\<not> barged \<longrightarrow> audio = capture_spec (ae_capture_frames env)) \<and> session_inv s \<and> \<not> se_bargeArmed s \<and>
        set audio \<subseteq> session_audio sess \<union> frame_samples (ae_idle_frames env @ ae_capture_frames env))"
proof -
  let ?idle = "session_ToListening (hear (ae_idle_frames env) sess)"
  let ?opened = "if barged then ?idle else session_StartCapture ?idle"
  obtain audio s' where d: "session_StopCapture (hear (ae_capture_frames env) ?opened) = (audio, s')" by force
  have inv: "session_inv ?idle" by (rule session_inv_ops(5) [OF hear_inv [OF assms(2)]])
  have un: "\<not> se_bargeArmed ?idle"
    using hear_unarmed [OF assms(3), of "ae_idle_frames env"]
    by (simp add: session_ToListening_def session_setState_def)
  have "\<not> se_bargeArmed ?opened" using un by (simp add: session_StartCapture_def)
  then have un': "\<not> se_bargeArmed s'" using hear_unarmed [of ?opened "ae_capture_frames env"] d by (auto simp: session_StopCapture_def)
  have sub: "set audio \<subseteq> session_audio sess \<union> frame_samples (ae_idle_frames env @ ae_capture_frames env)"
    using hear_audio [of "ae_capture_frames env" ?opened] hear_audio [of "ae_idle_frames env" sess] d
    by (auto simp: session_StopCapture_def session_audio_def [of "hear _ ?opened"] frame_samples_def split: if_splits)
  have op: "session_inv ?opened" using inv session_inv_ops(4) [OF inv] by simp
  then have inv': "session_inv s'" using hear_inv [of ?opened "ae_capture_frames env"] d
    by (auto simp: session_StopCapture_def session_inv_def)
  from op have len: "length audio \<le> capture_limit"
    using hear_inv [of ?opened "ae_capture_frames env"] d by (auto simp: session_inv_def session_StopCapture_def)
  have spec: "\<not> barged \<longrightarrow> audio = capture_spec (ae_capture_frames env)"
    using hear_capture [OF inv un, of "ae_capture_frames env"] d by auto
  have r: "r = fst (ask_capture env c h barged chimed sess)" using assms(1) by simp
  show ?thesis
  proof (cases "ae_ctx env 3 = None \<and> audio \<noteq> []")
    case True
    moreover have "session_inv (session_ToProcessing s')" "\<not> se_bargeArmed (session_ToProcessing s')"
      using inv' un' session_inv_ops(1) by (auto simp: session_ToProcessing_def session_setState_def)
    ultimately show ?thesis unfolding r using len spec d sub by (simp add: ask_capture_def Let_def)
  next
    case False
    then show ?thesis unfolding r using d by (cases "ae_ctx env 3") (auto simp: ask_capture_def ask_res_def Let_def)
  qed
qed

text \<open>The identification engine was asked about the audio and named the speaker.\<close>

abbreviation identified :: "ask_env \<Rightarrow> string \<Rightarrow> f32 list \<Rightarrow> turn_effect list \<Rightarrow> bool" where
  "identified env who a t \<equiv> who \<noteq> [] \<and> a \<noteq> [] \<and> ae_identify env a = Inr who \<and> Ef_identify a \<in> set t"

abbreviation long_enough :: "speaker_id_config \<Rightarrow> f32 list \<Rightarrow> bool" where
  "long_enough sp a \<equiv>
     f_le (f_conv float64 (si_MinAudioDurationSeconds sp)) (f_div float64 (f_of_int float64 (int (length a))) (Fin 16000))"

text \<open>Who vouches for a speaker: the captured speech, when it is long enough, or the answer to the challenge.\<close>

definition vouched :: "ask_env \<Rightarrow> speaker_id_config \<Rightarrow> node_handle \<Rightarrow> string \<Rightarrow> f32 list \<Rightarrow> turn_effect list \<Rightarrow> bool" where
  "vouched env sp h who audio t \<longleftrightarrow>
     identified env who audio t \<and> long_enough sp audio \<or>
     identified env who (capture_spec (ae_challenge_frames env)) t \<and> Ef_state (nh_NodeID h) StateChallenging \<in> set t"

lemma ask_challenge_answer_result:
  assumes "ask_challenge_answer env sp c h sess = (r, t)" and "session_inv sess" and "\<not> se_bargeArmed sess"
  shows "(case r of Inl q \<Rightarrow> ar_Status q \<in> {''error'', ''verification_failed''}
    | Inr who \<Rightarrow> identified env who (capture_spec (ae_challenge_frames env)) t)"
proof -
  let ?s = "session_ToListening (hear (ae_challenge_idle_frames env) sess)"
  have "session_inv ?s" by (rule session_inv_ops(5) [OF hear_inv [OF assms(2)]])
  moreover have "\<not> se_bargeArmed ?s" using hear_unarmed [OF assms(3)] by (simp add: session_ToListening_def session_setState_def)
  ultimately have a: "fst (session_StopCapture (hear (ae_challenge_frames env) (session_StartCapture ?s))) =
      capture_spec (ae_challenge_frames env)" by (rule hear_capture)
  show ?thesis using assms(1) [symmetric] unfolding ask_challenge_answer_def Let_def a
    by (auto simp: ask_res_def split: option.splits sum.splits if_splits)
qed

lemma ask_challenge_result:
  assumes "ask_challenge env sp c h sess = (r, t)" and "session_inv sess" and "\<not> se_bargeArmed sess"
  shows "(case r of Inl q \<Rightarrow> ar_Status q \<in> {''error'', ''verification_failed''}
    | Inr who \<Rightarrow> identified env who (capture_spec (ae_challenge_frames env)) t \<and>
        Ef_state (nh_NodeID h) StateChallenging \<in> set t)"
proof -
  obtain sr st where s: "brain_Synthesize (turn_env.truncate env) (challenge_text sp (ae_pick env)) (ak_Priority c) = (sr, st)" by force
  obtain ar at' where a: "ask_challenge_answer env sp c h sess = (ar, at')" by force
  note answer = ask_challenge_answer_result [OF a assms(2,3)]
  consider (early) q u where "ask_challenge env sp c h sess = (Inl (ask_error c q), u)"
    | (answered) u where "ask_challenge env sp c h sess = (ar, Ef_state (nh_NodeID h) StateChallenging # u @ at')"
  proof (cases "si_ChallengePrompts sp = [] \<or> isl sr")
    case True
    then have "\<exists>q u. ask_challenge env sp c h sess = (Inl (ask_error c q), u)"
      using s by (auto simp: ask_challenge_def Let_def isl_def)
    then show thesis using that(1) by blast
  next
    case False
    then obtain pcm rate where sr: "sr = Inr (pcm, rate)" by (cases sr) auto
    obtain perr u where p: "turn_Play (turn_env.truncate env) (ae_ctx env 5) h pcm rate = (perr, u)" by force
    show thesis
    proof (cases "perr \<noteq> None \<and> perr \<noteq> Some Canceled \<or> ae_ctx env 6 \<noteq> None")
      case True
      then have "\<exists>q u. ask_challenge env sp c h sess = (Inl (ask_error c q), u)"
        using False s sr p by (auto simp: ask_challenge_def Let_def)
      then show thesis using that(1) by blast
    next
      case no: False
      show thesis using False no s sr p a
        by (intro that(2) [of "st @ [Ef_state (nh_NodeID h) StateSpeaking] @ u @ [Ef_wait (150 * millisecond)]"])
          (auto simp: ask_challenge_def Let_def)
    qed
  qed
  then show ?thesis
  proof cases
    case early
    then show ?thesis using assms(1) by (auto simp: ask_res_def)
  next
    case answered
    then show ?thesis using assms(1) answer by (cases ar) auto
  qed
qed

lemma ask_verify_result:
  assumes "ask_verify env sp c h audio sess = (r, t)" and "audio \<noteq> []" and "session_inv sess" and "\<not> se_bargeArmed sess"
  shows "(case r of Inl q \<Rightarrow> ar_Status q \<in> {''error'', ''verification_failed''} | Inr who \<Rightarrow> vouched env sp h who audio t)"
proof -
  obtain cr ct where c: "ask_challenge env sp c h sess = (cr, ct)" by force
  show ?thesis using assms(1,2) c ask_challenge_result [OF c assms(3,4)]
    by (auto simp: ask_verify_def vouched_def Let_def split: option.splits sum.splits if_splits)
qed

lemma vouched_mono: "vouched env sp h who audio t \<Longrightarrow> set t \<subseteq> set u \<Longrightarrow> vouched env sp h who audio u"
  by (auto simp: vouched_def)

lemma ask_flow_cases:
  assumes "ask_flow env sp c h sess = (r, t)" and "session_inv sess" and "\<not> se_bargeArmed sess" and "\<not> se_barged sess"
  obtains (prompted) "ar_Status r = ''error''"
  | (uncaptured) "ar_Status r \<in> {''error'', ''silence_timeout''}"
  | (processed) audio s2 v where "audio \<noteq> []" "length audio \<le> capture_limit"
      "\<not> ak_BargeIn c \<longrightarrow> audio = capture_spec (ae_capture_frames env)" "session_inv s2" "\<not> se_bargeArmed s2"
      "set audio \<subseteq> session_audio sess \<union> frame_samples (ae_prompt_frames env @ ae_idle_frames env @ ae_capture_frames env)"
      "ask_process env sp c h audio s2 = (r, v)" "set v \<subseteq> set t"
proof -
  obtain r1 t1 where p: "ask_prompt env c h sess = (r1, t1)" by force
  note p' = ask_prompt_result [OF p assms(2-4)]
  show thesis
  proof (cases r1)
    case (Inl q)
    then show thesis using assms(1) p p' prompted by (simp add: ask_flow_def)
  next
    case (Inr a)
    obtain barged chimed s1 where a: "a = (barged, chimed, s1)" by (cases a)
    then have s1: "session_inv s1" "\<not> se_bargeArmed s1" "barged \<longrightarrow> ak_BargeIn c"
        "session_audio s1 \<subseteq> session_audio sess \<union> frame_samples (ae_prompt_frames env)" using p' Inr by auto
    obtain r2 t2 where c: "ask_capture env c h barged chimed s1 = (r2, t2)" by force
    note c' = ask_capture_result [OF c s1(1,2)]
    show thesis
    proof (cases r2)
      case (Inl q)
      then have "r = q" using assms(1) p Inr a c by (simp add: ask_flow_def)
      then show thesis using c' Inl uncaptured by simp
    next
      case Inr2: (Inr b)
      obtain audio s2 where b: "b = (audio, s2)" by (cases b)
      obtain r3 v where v: "ask_process env sp c h audio s2 = (r3, v)" by force
      have "r = r3 \<and> t = t1 @ t2 @ v" using assms(1) p Inr a c Inr2 b v by (simp add: ask_flow_def)
      moreover have "set audio \<subseteq> session_audio sess \<union> frame_samples (ae_prompt_frames env @ ae_idle_frames env @ ae_capture_frames env)"
        using c' Inr2 b s1(4) by (auto simp: frame_samples_def)
      ultimately show thesis using processed [of audio s2 v] c' Inr2 b v s1(3) by auto
    qed
  qed
qed

lemma ask_process_result:
  assumes "ask_process env sp c h audio s = (r, v)" and "audio \<noteq> []" and "session_inv s" and "\<not> se_bargeArmed s"
  shows "ar_Status r \<in> {''error'', ''verification_failed''} \<or>
    (\<exists>tx who. r = ask_success c tx who audio \<and> ae_transcribe env audio = Inr tx \<and>
       (if ak_RequireSpeakerID c then vouched env sp h who audio v else who = []))"
proof -
  obtain vr vt where vr: "ask_verify env sp c h audio s = (vr, vt)" by force
  note verified = ask_verify_result [OF vr assms(2-4)]
  show ?thesis
  proof (cases "isl (ae_transcribe env audio) \<or> ak_RequireSpeakerID c \<and> isl vr")
    case True
    then show ?thesis using assms(1) vr verified
      by (cases "ae_transcribe env audio") (auto simp: ask_process_def ask_res_def isl_def)
  next
    case False
    then obtain tx where tx: "ae_transcribe env audio = Inr tx" by (cases "ae_transcribe env audio") auto
    have "\<exists>who. r = ask_success c tx who audio \<and> (ak_RequireSpeakerID c \<longrightarrow> vr = Inr who \<and> set vt \<subseteq> set v) \<and>
        (\<not> ak_RequireSpeakerID c \<longrightarrow> who = [])"
      using False assms(1) tx vr by (cases vr) (auto simp: ask_process_def split: if_splits)
    then obtain who where who: "r = ask_success c tx who audio" "ak_RequireSpeakerID c \<longrightarrow> vr = Inr who"
        "\<not> ak_RequireSpeakerID c \<longrightarrow> who = []" "ak_RequireSpeakerID c \<longrightarrow> set vt \<subseteq> set v" by blast
    have "ak_RequireSpeakerID c \<longrightarrow> vouched env sp h who audio v"
      using verified who(2,4) vouched_mono by auto
    then show ?thesis using tx who by auto
  qed
qed

lemma ask_Run_result:
  fixes env sp s c
  defines "r \<equiv> fst (ask_Run env sp s c)"
  shows "ar_Status r \<in> {''error'', ''silence_timeout'', ''verification_failed''} \<or>
    (\<exists>audio tx who h. r = ask_success c tx who audio \<and> audio \<noteq> [] \<and> length audio \<le> capture_limit \<and>
       brain_AcquireNode (turn_env.truncate env) s (ak_NodeID c) (ak_Priority c) = Inr h \<and>
       (\<not> ak_BargeIn c \<longrightarrow> audio = capture_spec (ae_capture_frames env)) \<and> ae_transcribe env audio = Inr tx \<and>
       set audio \<subseteq> frame_samples (ae_prompt_frames env @ ae_idle_frames env @ ae_capture_frames env) \<and>
       (if ak_RequireSpeakerID c then vouched env sp h who audio (snd (ask_Run env sp s c)) else who = []))"
proof (cases rule: ask_Run_cases [of c env sp s])
  case (ran h sess r0 t)
  have sess: "session_inv sess" "\<not> se_bargeArmed sess" "\<not> se_barged sess"
    unfolding ran(3) using session_New_ok by auto
  have r: "r = r0" using ran(5) by (simp add: r_def)
  have t: "set t \<subseteq> set (snd (ask_Run env sp s c))" using ran(5) by auto
  show ?thesis
  proof (cases rule: ask_flow_cases [OF ran(4) sess])
    case (3 audio s2 v)
    have aud: "set audio \<subseteq> frame_samples (ae_prompt_frames env @ ae_idle_frames env @ ae_capture_frames env)"
      using 3(6) by (simp add: ran(3))
    show ?thesis
    proof (cases "ar_Status r0 \<in> {''error'', ''verification_failed''}")
      case True
      then show ?thesis by (auto simp: r)
    next
      case False
      then obtain tx who where ok: "r0 = ask_success c tx who audio" "ae_transcribe env audio = Inr tx"
          "if ak_RequireSpeakerID c then vouched env sp h who audio v else who = []"
        using ask_process_result [OF 3(7,1,4,5)] by blast
      have "vouched env sp h who audio (snd (ask_Run env sp s c))" if "ak_RequireSpeakerID c"
        using vouched_mono [of env sp h who audio v] ok(3) that 3(8) t by auto
      then show ?thesis unfolding r using 3(1-3) ok ran(2) aud
        by - (rule disjI2, rule exI [of _ audio], rule exI [of _ tx], rule exI [of _ who], rule exI [of _ h], auto split: if_splits)
    qed
  qed (auto simp: r)
qed (auto simp: r_def ask_res_def)

text \<open>C9: An ask run that requires a speaker succeeds only with the name the identification engine gave for audio heard
  in this run: either for the captured speech that the result carries, when it is at least as long as configured, or
  for the answer to the voice challenge the run made, which is exactly what the capture contract says of the frames heard
  while the challenge was open. The captured speech consists of samples heard during this run, and is exactly what
  the capture contract says when barge-in is off. A run that does not require a speaker never reports one.\<close>

theorem ask_speaker_verified:
  assumes "ar_Status (fst (ask_Run env sp s c)) = ''success''"
  shows "(let r = fst (ask_Run env sp s c); t = snd (ask_Run env sp s c) in
    set (ar_Audio r) \<subseteq> frame_samples (ae_prompt_frames env @ ae_idle_frames env @ ae_capture_frames env) \<and>
    (\<not> ak_BargeIn c \<longrightarrow> ar_Audio r = capture_spec (ae_capture_frames env)) \<and>
    (if ak_RequireSpeakerID c
     then ar_Speaker r \<noteq> [] \<and>
       (ar_Audio r \<noteq> [] \<and> ae_identify env (ar_Audio r) = Inr (ar_Speaker r) \<and> Ef_identify (ar_Audio r) \<in> set t \<and>
          f_le (f_conv float64 (si_MinAudioDurationSeconds sp))
               (f_div float64 (f_of_int float64 (int (length (ar_Audio r)))) (Fin 16000)) \<or>
        (\<exists>a n. a = capture_spec (ae_challenge_frames env) \<and> a \<noteq> [] \<and> ae_identify env a = Inr (ar_Speaker r) \<and>
          Ef_identify a \<in> set t \<and> Ef_state n StateChallenging \<in> set t))
     else ar_Speaker r = []))"
  using ask_Run_result [of env sp s c] assms by (auto simp: ask_success_def vouched_def Let_def)

text \<open>A run that succeeds: no prompt, one frame of speech, an enrolled speaker.\<close>

definition sample_ask_env :: ask_env where
  "sample_ask_env = turn_env.extend (sample_env [])
     \<lparr>ae_ctx = (\<lambda>_. None), ae_session_id = ''1'', ae_has_reset = False, ae_prompt_frames = [], ae_barge_seen = False,
      ae_idle_frames = [], ae_capture_frames = [(1, [Fin 1], True)], ae_challenge_idle_frames = [],
      ae_challenge_frames = [], ae_transcribe = (\<lambda>_. Inr ''hello''), ae_identify = (\<lambda>_. Inr ''eva''), ae_pick = 0,
      ae_cos = (\<lambda>x. x), ae_sin = (\<lambda>x. x)\<rparr>"

definition sample_ask :: ask_config where
  "sample_ask = \<lparr>ak_ContextID = ''c'', ak_NodeID = ''kitchen'', ak_TTSText = [], ak_BargeIn = False,
     ak_RequireSpeakerID = True, ak_VADTimeoutSeconds = Fin 0, ak_Priority = 0, ak_CaptureDelaySeconds = Fin 0,
     ak_PostSpeechSilenceSeconds = Fin 1\<rparr>"

definition sample_speaker_id :: speaker_id_config where
  "sample_speaker_id = (mc_SpeakerID (cf_Models sample_config))\<lparr>si_MinAudioDurationSeconds := Fin 0\<rparr>"

abbreviation sample_brain :: "brain \<times> handle_store" where
  "sample_brain \<equiv> (\<lparr>br_nodes = [(''kitchen'', 0)], br_sessions = []\<rparr>, \<lambda>_. sample_handle)"

lemma sample_long_enough: "f_le (f_conv float64 (Fin 0)) (f_div float64 (f_of_int float64 1) (Fin 16000))"
  by code_simp

lemma sample_ask_run:
  "fst (ask_Run sample_ask_env sample_speaker_id sample_brain sample_ask) =
     ask_success sample_ask ''hello'' ''eva'' [Fin 1]"
proof -
  let ?s = "session_New ''c-1'' ''kitchen''" and ?e = sample_ask_env and ?h = sample_handle
  have p: "ask_prompt ?e sample_ask ?h ?s = (Inr (False, False, ?s), [])"
    by (simp add: ask_prompt_def sample_ask_def is_blank_def trim_space_def Let_def)
  obtain s2 u where c: "ask_capture ?e sample_ask ?h False False ?s = (Inr ([Fin 1], s2), u)"
    by (simp add: ask_capture_def Let_def sample_ask_env_def turn_env.defs hear_def session_New_def session_ToListening_def
        session_setState_def session_StartCapture_def session_StopCapture_def session_FeedPCM_def session_accumulate_def)
  have v: "ask_verify ?e sample_speaker_id sample_ask ?h [Fin 1] s2 = (Inr ''eva'', [Ef_identify [Fin 1]])"
    using sample_long_enough
    by (simp add: ask_verify_def sample_speaker_id_def sample_ask_env_def turn_env.defs Let_def)
  have t: "ae_transcribe ?e [Fin 1] = Inr ''hello''" by (simp add: sample_ask_env_def turn_env.defs)
  have r: "ak_RequireSpeakerID sample_ask" by (simp add: sample_ask_def)
  have flow: "fst (ask_flow ?e sample_speaker_id sample_ask ?h ?s) = ask_success sample_ask ''hello'' ''eva'' [Fin 1]"
    by (simp add: ask_flow_def p c ask_process_def t r v)
  have ok: "ask_Validate sample_ask = None" "ak_ContextID sample_ask = ''c''" "ak_NodeID sample_ask = ''kitchen''"
    by (simp_all add: ask_Validate_def sample_ask_def ask_duration_ok_def)
  have acq: "brain_AcquireNode (turn_env.truncate ?e) sample_brain (ak_NodeID sample_ask) (ak_Priority sample_ask) = Inr ?h"
    by (simp add: brain_AcquireNode_def brain_GetNodeHandle_def sample_ask_def sample_ask_env_def sample_env_def turn_env.defs)
  have i: "ae_session_id ?e = ''1''" by (simp add: sample_ask_env_def turn_env.defs)
  obtain t where "ask_flow ?e sample_speaker_id sample_ask ?h ?s = (ask_success sample_ask ''hello'' ''eva'' [Fin 1], t)"
    using flow by (cases "ask_flow ?e sample_speaker_id sample_ask ?h ?s") simp
  then show ?thesis unfolding ask_Run_def using ok acq i by (simp add: Let_def)
qed

theorem ask_speaker_verified_witness:
  "ae_identify sample_ask_env [Fin 1] = Inr ''eva'' \<and> set [Fin 1] \<subseteq> frame_samples (ae_capture_frames sample_ask_env) \<and>
   Ef_identify [Fin 1] \<in> set (snd (ask_Run sample_ask_env sample_speaker_id sample_brain sample_ask))"
proof -
  have r: "ak_RequireSpeakerID sample_ask" by (simp add: sample_ask_def)
  have frames: "ae_prompt_frames sample_ask_env = []" "ae_idle_frames sample_ask_env = []" "ae_challenge_frames sample_ask_env = []"
    by (simp_all add: sample_ask_env_def turn_env.defs)
  show ?thesis
    using ask_speaker_verified [of sample_ask_env sample_speaker_id sample_brain sample_ask] r
    by (simp add: sample_ask_run ask_success_def frames capture_spec_def frame_post_def)
qed

text \<open>C10: An ask run reports one of its four statuses, and a success carries the captured speech: never empty,
  at most two minutes at 16 kHz, its transcription, and, when barge-in is off, exactly what the capture
  contract says of the frames heard while the microphone was open.\<close>

theorem ask_success_audio:
  "ar_Status (fst (ask_Run env sp s c)) \<in> {''success'', ''error'', ''silence_timeout'', ''verification_failed''} \<and>
   (if ar_Status (fst (ask_Run env sp s c)) = ''success''
    then ar_Audio (fst (ask_Run env sp s c)) \<noteq> [] \<and> length (ar_Audio (fst (ask_Run env sp s c))) \<le> 1920000 \<and>
         ar_SampleRate (fst (ask_Run env sp s c)) = 16000 \<and>
         ae_transcribe env (ar_Audio (fst (ask_Run env sp s c))) = Inr (ar_Transcription (fst (ask_Run env sp s c))) \<and>
         (ak_BargeIn c \<or> ar_Audio (fst (ask_Run env sp s c)) = capture_spec (ae_capture_frames env))
    else True)"
  using ask_Run_result [of env sp s c] by (auto simp: ask_success_def)

end
