(* ===== verification/Wav.thy ===== *)
theory Wav
  imports Pcm
begin

text \<open>
  The WAV codec of package \<open>audio\<close> (wav.go): the canonical 44-byte header writer and the
  chunk-walking reader. A file is a list of bytes; what the file system answers to \<open>writeWAV\<close> is an
  environment.
\<close>

definition ascii :: "string \<Rightarrow> byte list" where
  "ascii s = map (\<lambda>c. of_char c) s"

definition putUint16LE :: "u16 \<Rightarrow> byte list" where
  "putUint16LE v = [ucast v, ucast (drop_bit 8 v)]"

definition putUint32LE :: "u32 \<Rightarrow> byte list" where
  "putUint32LE v = [ucast v, ucast (drop_bit 8 v), ucast (drop_bit 16 v), ucast (drop_bit 24 v)]"

definition uint16LE :: "byte list \<Rightarrow> u16" where
  "uint16LE b = ucast (b ! 0) OR push_bit 8 (ucast (b ! 1))"

definition uint32LE :: "byte list \<Rightarrow> u32" where
  "uint32LE b = ucast (b ! 0) OR push_bit 8 (ucast (b ! 1)) OR push_bit 16 (ucast (b ! 2))
                OR push_bit 24 (ucast (b ! 3))"

text \<open>The bytes \<open>byte(s)\<close> and \<open>byte(s >> 8)\<close> of one sample; the shift is arithmetic.\<close>

definition sample_bytes :: "i16 \<Rightarrow> byte list" where
  "sample_bytes s = [ucast s, ucast (signed_drop_bit 8 s)]"

definition EncodeWAVPCM16 :: "i16 list \<Rightarrow> int \<Rightarrow> byte list" where
  "EncodeWAVPCM16 samples sampleRate =
     (let byteRate = sampleRate * 1 * 16 div 8;
          subChunk2Size = int (length samples) * 1 * 16 div 8;
          chunkSize = 36 + subChunk2Size
      in ascii ''RIFF'' @ putUint32LE (word_of_int chunkSize) @ ascii ''WAVE''
         @ ascii ''fmt '' @ putUint32LE 16 @ putUint16LE 1 @ putUint16LE 1
         @ putUint32LE (word_of_int sampleRate) @ putUint32LE (word_of_int byteRate)
         @ putUint16LE 2 @ putUint16LE 16
         @ ascii ''data'' @ putUint32LE (word_of_int subChunk2Size)
         @ concat (map sample_bytes samples))"

definition EncodeWAVFloat32 :: "f32 list \<Rightarrow> int \<Rightarrow> byte list" where
  "EncodeWAVFloat32 samples sampleRate = EncodeWAVPCM16 (FloatToPCM16 samples) sampleRate"

text \<open>What the chunk walk has seen so far.\<close>

record wav_seen =
  ws_rate :: int
  ws_channels :: int
  ws_bits :: int
  ws_fmt :: bool
  ws_data :: bool
  ws_pcm :: "byte list"

definition wav_start :: wav_seen where
  "wav_start = \<lparr>ws_rate = 0, ws_channels = 0, ws_bits = 0, ws_fmt = False, ws_data = False, ws_pcm = []\<rparr>"

abbreviation slice :: "nat \<Rightarrow> nat \<Rightarrow> 'a list \<Rightarrow> 'a list" where
  "slice off n data \<equiv> take n (drop off data)"

definition wav_size :: "byte list \<Rightarrow> nat \<Rightarrow> nat" where
  "wav_size data off =
     (let sz = unat (uint32LE (slice (off + 4) 4 data)); body = off + 8
      in if length data < body + sz then length data - body else sz)"

definition wav_fmt :: "byte list \<Rightarrow> nat \<Rightarrow> nat \<Rightarrow> wav_seen \<Rightarrow> wav_seen result" where
  "wav_fmt data body sz w =
     (if sz < 16 then Inl (Msg (''fmt chunk too small: '' @ show_nat sz @ '' bytes''))
      else let format = unat (uint16LE (slice body 2 data))
           in if format \<noteq> 1
              then Inl (Msg (''unsupported WAV format '' @ show_nat format @ '' (only PCM)''))
              else Inr (w\<lparr>ws_channels := int (unat (uint16LE (slice (body + 2) 2 data))),
                          ws_rate := int (unat (uint32LE (slice (body + 4) 4 data))),
                          ws_bits := int (unat (uint16LE (slice (body + 14) 2 data))),
                          ws_fmt := True\<rparr>))"

definition wav_chunk :: "byte list \<Rightarrow> nat \<Rightarrow> wav_seen \<Rightarrow> wav_seen result" where
  "wav_chunk data off w =
     (let id = slice off 4 data; sz = wav_size data off; body = off + 8
      in if id = ascii ''fmt '' then wav_fmt data body sz w
         else if id = ascii ''data'' then Inr (w\<lparr>ws_pcm := slice body sz data, ws_data := True\<rparr>)
         else Inr w)"

function wav_walk :: "byte list \<Rightarrow> nat \<Rightarrow> wav_seen \<Rightarrow> wav_seen result" where
  "wav_walk data off w =
     (if off + 8 \<le> length data
      then case wav_chunk data off w of
             Inl e \<Rightarrow> Inl e
           | Inr w' \<Rightarrow> (let sz = wav_size data off
                        in wav_walk data (off + 8 + sz + (if sz mod 2 = 1 then 1 else 0)) w')
      else Inr w)"
  by pat_completeness auto
termination
  by (relation "measure (\<lambda>(data, off, w). length data - off)") auto

declare wav_walk.simps [simp del]

definition wav_samples :: "byte list \<Rightarrow> i16 list" where
  "wav_samples pcm = map (\<lambda>i. uint16LE (slice (2 * i) 2 pcm)) [0..<length pcm div 2]"

definition downmix :: "i16 list \<Rightarrow> int \<Rightarrow> i16 list" where
  "downmix interleaved numChannels =
     (let n = nat numChannels
      in map (\<lambda>f. word_of_int (go_div (sum_list (map sint (slice (f * n) n interleaved))) numChannels))
           [0..<length interleaved div n])"

definition DecodeWAVPCM16 :: "byte list \<Rightarrow> (i16 list \<times> int) result" where
  "DecodeWAVPCM16 data =
     (if length data < 12 then Inl (Msg (''wav too short: '' @ show_nat (length data) @ '' bytes''))
      else if slice 0 4 data \<noteq> ascii ''RIFF'' \<or> slice 8 4 data \<noteq> ascii ''WAVE''
      then Inl (Msg ''not a RIFF/WAVE file'')
      else case wav_walk data 12 wav_start of
        Inl e \<Rightarrow> Inl e
      | Inr w \<Rightarrow>
          if \<not> ws_fmt w then Inl (Msg ''missing fmt chunk'')
          else if \<not> ws_data w then Inl (Msg ''missing data chunk'')
          else if ws_bits w \<noteq> 16
          then Inl (Msg (''unsupported bits per sample '' @ show_int (ws_bits w) @ '' (only 16)''))
          else if ws_channels w < 1
          then Inl (Msg (''invalid channel count '' @ show_int (ws_channels w)))
          else if ws_rate w \<le> 0
          then Inl (Msg (''invalid sample rate '' @ show_int (ws_rate w)))
          else if ws_channels w = 1 then Inr (wav_samples (ws_pcm w), ws_rate w)
          else Inr (downmix (wav_samples (ws_pcm w)) (ws_channels w), ws_rate w))"

subsection \<open>Little-endian fields\<close>

lemma length_putUint16LE [simp]: "length (putUint16LE v) = 2"
  by (simp add: putUint16LE_def)

lemma length_putUint32LE [simp]: "length (putUint32LE v) = 4"
  by (simp add: putUint32LE_def)

lemma length_ascii [simp]: "length (ascii s) = length s"
  by (simp add: ascii_def)

lemma length_sample_bytes [simp]: "length (sample_bytes s) = 2"
  by (simp add: sample_bytes_def)

lemma uint16LE_put [simp]: "uint16LE (putUint16LE v) = v"
  unfolding uint16LE_def putUint16LE_def
  by (rule bit_word_eqI) (auto simp: bit_simps)

lemma uint32LE_put [simp]: "uint32LE (putUint32LE v) = v"
  unfolding uint32LE_def putUint32LE_def
proof (rule bit_word_eqI)
  fix n assume "n < LENGTH(32)"
  then consider "n < 8" | "8 \<le> n" "n < 16" | "16 \<le> n" "n < 24" | "24 \<le> n" "n < 32" by fastforce
  then show "bit (ucast ([ucast v, ucast (drop_bit 8 v), ucast (drop_bit 16 v), ucast (drop_bit 24 v)] ! 0 :: byte)
      OR push_bit 8 (ucast ([ucast v, ucast (drop_bit 8 v), ucast (drop_bit 16 v), ucast (drop_bit 24 v)] ! 1 :: byte))
      OR push_bit 16 (ucast ([ucast v, ucast (drop_bit 8 v), ucast (drop_bit 16 v), ucast (drop_bit 24 v)] ! 2 :: byte))
      OR push_bit 24 (ucast ([ucast v, ucast (drop_bit 8 v), ucast (drop_bit 16 v), ucast (drop_bit 24 v)] ! 3 :: byte))
      :: u32) n = bit v n"
    by cases (auto simp: bit_simps)
qed

lemma uint16LE_sample [simp]: "uint16LE (sample_bytes s) = s"
  unfolding uint16LE_def sample_bytes_def
proof (rule bit_word_eqI)
  fix n assume "n < LENGTH(16)"
  then consider "n < 8" | "8 \<le> n" "n < 16" by fastforce
  then show "bit (ucast ([ucast s, ucast (signed_drop_bit 8 s)] ! 0 :: byte)
      OR push_bit 8 (ucast ([ucast s, ucast (signed_drop_bit 8 s)] ! 1 :: byte)) :: u16) n = bit s n"
    by cases (auto simp: bit_simps)
qed

lemma length_sample_concat [simp]: "length (concat (map sample_bytes xs)) = 2 * length xs"
  by (induction xs) auto

lemma at_sample_concat:
  "i < length xs \<Longrightarrow> slice (2 * i) 2 (concat (map sample_bytes xs)) = sample_bytes (xs ! i)"
proof (induction xs arbitrary: i)
  case (Cons x xs)
  then show ?case by (cases i) auto
qed simp

lemma wav_samples_concat [simp]: "wav_samples (concat (map sample_bytes xs)) = xs"
  by (rule nth_equalityI) (simp_all add: wav_samples_def at_sample_concat)

subsection \<open>Reading back what was written\<close>

lemma EncodeWAVPCM16_length [simp]: "length (EncodeWAVPCM16 xs rate) = 44 + 2 * length xs"
  by (simp add: EncodeWAVPCM16_def Let_def)

lemma wav_tags [simp]:
  "ascii ''fmt '' \<noteq> ascii ''data''" "ascii ''data'' \<noteq> ascii ''fmt ''"
  by (simp_all add: ascii_def)

lemma encoded_slices:
  "slice 12 4 (EncodeWAVPCM16 xs rate) = ascii ''fmt ''"
  "slice 16 4 (EncodeWAVPCM16 xs rate) = putUint32LE 16"
  "slice 20 2 (EncodeWAVPCM16 xs rate) = putUint16LE 1"
  "slice 22 2 (EncodeWAVPCM16 xs rate) = putUint16LE 1"
  "slice 24 4 (EncodeWAVPCM16 xs rate) = putUint32LE (word_of_int rate)"
  "slice 34 2 (EncodeWAVPCM16 xs rate) = putUint16LE 16"
  "slice 36 4 (EncodeWAVPCM16 xs rate) = ascii ''data''"
  "slice 40 4 (EncodeWAVPCM16 xs rate) = putUint32LE (word_of_int (2 * int (length xs)))"
  "slice 44 (2 * length xs) (EncodeWAVPCM16 xs rate) = concat (map sample_bytes xs)"
  by (simp_all add: EncodeWAVPCM16_def Let_def)

lemma encoded_fmt_chunk:
  assumes "0 \<le> rate" and "rate < 2 ^ 32"
  shows "wav_size (EncodeWAVPCM16 xs rate) 12 = 16"
    and "wav_chunk (EncodeWAVPCM16 xs rate) 12 w =
           Inr (w\<lparr>ws_channels := 1, ws_rate := rate, ws_bits := 16, ws_fmt := True\<rparr>)"
proof -
  show size: "wav_size (EncodeWAVPCM16 xs rate) 12 = 16"
    by (simp add: wav_size_def encoded_slices)
  have "uint (word_of_int rate :: u32) = rate"
    using assms by (simp add: uint_word_of_int)
  then have r: "int (unat (word_of_int rate :: u32)) = rate" by simp
  show "wav_chunk (EncodeWAVPCM16 xs rate) 12 w =
           Inr (w\<lparr>ws_channels := 1, ws_rate := rate, ws_bits := 16, ws_fmt := True\<rparr>)"
    using r by (simp add: wav_chunk_def wav_fmt_def size encoded_slices Let_def)
qed

lemma encoded_data_chunk:
  assumes "2 * length xs < 2 ^ 32"
  shows "wav_size (EncodeWAVPCM16 xs rate) 36 = 2 * length xs"
    and "wav_chunk (EncodeWAVPCM16 xs rate) 36 w =
           Inr (w\<lparr>ws_pcm := concat (map sample_bytes xs), ws_data := True\<rparr>)"
proof -
  have "(word_of_int (2 * int (length xs)) :: u32) = word_of_nat (2 * length xs)" by simp
  then have u: "unat (word_of_int (2 * int (length xs)) :: u32) = 2 * length xs"
    using assms by (simp only: unat_of_nat) simp
  show size: "wav_size (EncodeWAVPCM16 xs rate) 36 = 2 * length xs"
    using u by (simp add: wav_size_def encoded_slices)
  show "wav_chunk (EncodeWAVPCM16 xs rate) 36 w =
           Inr (w\<lparr>ws_pcm := concat (map sample_bytes xs), ws_data := True\<rparr>)"
    by (simp add: wav_chunk_def size encoded_slices Let_def)
qed

text \<open>The header fields are 32 bits wide, which bounds the rate and the number of samples.\<close>

lemma DecodeWAV_EncodeWAV:
  assumes "0 < rate" and "rate < 2 ^ 32" and "2 * length xs < 2 ^ 32"
  shows "DecodeWAVPCM16 (EncodeWAVPCM16 xs rate) = Inr (xs, rate)"
proof -
  let ?d = "EncodeWAVPCM16 xs rate"
  note fmt = encoded_fmt_chunk [of rate] and dat = encoded_data_chunk [OF assms(3)]
  have stop: "wav_walk ?d (44 + 2 * length xs) w = Inr w" for w
    by (subst wav_walk.simps) simp
  have walk36: "wav_walk ?d 36 w = Inr (w\<lparr>ws_pcm := concat (map sample_bytes xs), ws_data := True\<rparr>)" for w
    by (subst wav_walk.simps) (simp add: dat stop)
  have walk12: "wav_walk ?d 12 wav_start =
      Inr (wav_start\<lparr>ws_channels := 1, ws_rate := rate, ws_bits := 16, ws_fmt := True,
                    ws_pcm := concat (map sample_bytes xs), ws_data := True\<rparr>)"
    using assms by (subst wav_walk.simps) (simp add: fmt walk36)
  have tags: "slice 0 4 ?d = ascii ''RIFF''" "slice 8 4 ?d = ascii ''WAVE''"
    by (simp_all add: EncodeWAVPCM16_def Let_def)
  show ?thesis using assms tags by (simp add: DecodeWAVPCM16_def walk12)
qed

subsection \<open>Writing a file\<close>

text \<open>\<open>wf_write\<close> is the error of the write that failed and the number of bytes the file holds by then.\<close>

record wav_file_env =
  wf_create :: "go_error option"
  wf_write :: "(go_error \<times> nat) option"
  wf_close :: "go_error option"

text \<open>The error, and what the file holds afterwards; \<open>None\<close> when it was not opened. A close error does not hide another.\<close>

definition writeWAV :: "wav_file_env \<Rightarrow> byte list \<Rightarrow> go_error option \<times> byte list option" where
  "writeWAV env data =
     (case wf_create env of
        Some e \<Rightarrow> (Some e, None)
      | None \<Rightarrow>
          (case wf_write env of
             Some (e, n) \<Rightarrow> (Some e, Some (take n data))
           | None \<Rightarrow> (wf_close env, Some data)))"

definition WriteWAVPCM16 :: "wav_file_env \<Rightarrow> i16 list \<Rightarrow> int \<Rightarrow> go_error option \<times> byte list option" where
  "WriteWAVPCM16 env samples sampleRate = writeWAV env (EncodeWAVPCM16 samples sampleRate)"

definition WriteWAVFloat32 :: "wav_file_env \<Rightarrow> f32 list \<Rightarrow> int \<Rightarrow> go_error option \<times> byte list option" where
  "WriteWAVFloat32 env samples sampleRate = writeWAV env (EncodeWAVFloat32 samples sampleRate)"

text \<open>A write that reports no error left the whole recording, which is read back.\<close>

lemma written_wav_reads:
  assumes "WriteWAVPCM16 env xs rate = (None, file)" and "0 < rate" and "rate < 2 ^ 32" and "2 * length xs < 2 ^ 32"
  shows "\<exists>b. file = Some b \<and> DecodeWAVPCM16 b = Inr (xs, rate)"
  using assms DecodeWAV_EncodeWAV [OF assms(2-4)]
  by (auto simp: WriteWAVPCM16_def writeWAV_def split: option.splits prod.splits)

subsection \<open>The encoded recording decodes to itself\<close>

text \<open>C23: A recording that is encoded and then decoded comes back sample for sample with its rate, as long as
  the rate and the number of bytes fit the 32-bit fields of the header.\<close>

theorem wav_round_trip:
  assumes "0 < rate" and "rate < 2 ^ 32" and "2 * length xs < 2 ^ 32"
  shows "DecodeWAVPCM16 (EncodeWAVPCM16 xs rate) = Inr (xs, rate)"
  using assms by (rule DecodeWAV_EncodeWAV)

theorem wav_round_trip_witness: "DecodeWAVPCM16 (EncodeWAVPCM16 [1, 2, - 3] 16000) = Inr ([1, 2, - 3], 16000)"
  by (rule wav_round_trip) simp_all

end
