(* ===== verification/Protocol.thy ===== *)
theory Protocol
  imports Ask Paths Taskgroup Wav
begin

text \<open>
  Commands (internal/protocol/protocol.go and command.go): the request every transport decodes, its
  validation, the executor that runs it on the brain and the engines, and what it publishes. Engines,
  base64 and the working directory are fields of an environment that extends the one of the ask
  engine. An operation gives the responses it published and the traces of the goroutines it drove.
\<close>

record request =
  rq_Action :: string
  rq_NodeID :: string
  rq_Text :: string
  rq_AudioFile :: string
  rq_Priority :: int
  rq_AudioWavBase64 :: string
  rq_ContextID :: string
  rq_BargeIn :: bool
  rq_RequireSpeakerID :: bool
  rq_OutputFormat :: string
  rq_VADTimeoutSeconds :: f64
  rq_CaptureDelaySeconds :: f64
  rq_PostSpeechSilenceSeconds :: f64

record response =
  rp_Event :: string
  rp_NodeID :: string
  rp_Status :: string
  rp_Text :: string
  rp_AudioWavBase64 :: string
  rp_Speaker :: string
  rp_Keyword :: string
  rp_Message :: string
  rp_AudioFile :: string
  rp_State :: string
  rp_AutoAsk :: bool
  rp_Recording :: string
  rp_SampleRate :: int
  rp_Timestamp :: int

definition empty_response :: response where
  "empty_response = \<lparr>rp_Event = [], rp_NodeID = [], rp_Status = [], rp_Text = [], rp_AudioWavBase64 = [],
     rp_Speaker = [], rp_Keyword = [], rp_Message = [], rp_AudioFile = [], rp_State = [], rp_AutoAsk = False,
     rp_Recording = [], rp_SampleRate = 0, rp_Timestamp = 0\<rparr>"

subsection \<open>Publishers\<close>

text \<open>A publisher is named by a value; publishing to it is the pair of the name and the event.\<close>

record 'p multi_publisher =
  mp_publishers :: "'p list"

definition NewMultiPublisher :: "'p multi_publisher" where
  "NewMultiPublisher = \<lparr>mp_publishers = []\<rparr>"

definition mp_Add :: "'p \<Rightarrow> 'p multi_publisher \<Rightarrow> 'p multi_publisher" where
  "mp_Add p m = m\<lparr>mp_publishers := mp_publishers m @ [p]\<rparr>"

definition mp_Publish :: "response \<Rightarrow> 'p multi_publisher \<Rightarrow> ('p \<times> response) list" where
  "mp_Publish event m = map (\<lambda>p. (p, event)) (mp_publishers m)"

subsection \<open>Validation\<close>

definition req_AskConfig :: "request \<Rightarrow> ask_config" where
  "req_AskConfig r =
     \<lparr>ak_ContextID = rq_ContextID r, ak_NodeID = rq_NodeID r, ak_TTSText = rq_Text r, ak_BargeIn = rq_BargeIn r,
      ak_RequireSpeakerID = rq_RequireSpeakerID r, ak_VADTimeoutSeconds = rq_VADTimeoutSeconds r,
      ak_Priority = rq_Priority r, ak_CaptureDelaySeconds = rq_CaptureDelaySeconds r,
      ak_PostSpeechSilenceSeconds = rq_PostSpeechSilenceSeconds r\<rparr>"

definition req_Validate :: "request \<Rightarrow> go_error option" where
  "req_Validate r =
     (if MaxTextBytes < length (rq_Text r) then Some (Msg (''text exceeds '' @ show_nat MaxTextBytes @ '' bytes''))
      else if 256 < length (rq_ContextID r) \<or> 256 < length (rq_NodeID r) \<or> 4096 < length (rq_AudioFile r)
      then Some (Msg ''request identifier or path is too long'')
      else if rq_OutputFormat r \<noteq> [] \<and> rq_OutputFormat r \<noteq> ''text'' \<and> rq_OutputFormat r \<noteq> ''audio'' \<and>
              rq_OutputFormat r \<noteq> ''both''
      then Some (Msg ''output_format must be text, audio or both'')
      else if rq_Action r = ''tts'' then
        (if rq_NodeID r = [] \<or> is_blank (rq_Text r) then Some (Msg ''tts requires node_id and text'') else None)
      else if rq_Action r = ''play'' then
        (if rq_NodeID r = [] \<or> rq_AudioWavBase64 r = [] then Some (Msg ''play requires node_id and audio_wav_base64'')
         else if 8388608 < length (rq_AudioWavBase64 r) then Some (Msg ''audio payload exceeds 8 MiB'') else None)
      else if rq_Action r = ''asr'' \<or> rq_Action r = ''speaker_id'' then
        (if rq_AudioFile r = [] then Some (Msg ''audio_file is required'') else None)
      else if rq_Action r = ''ask'' then ask_Validate (req_AskConfig r)
      else Some (Msg (''unknown action: '' @ rq_Action r)))"

subsection \<open>Confinement of paths\<close>

record exec_env = ask_env +
  xe_getwd :: "string result"
  xe_base64_decode :: "string \<Rightarrow> byte list result"
  xe_base64_encode :: "byte list \<Rightarrow> string"
  xe_transcribe_file :: "string \<Rightarrow> string result"
  xe_identify_file :: "string \<Rightarrow> string result"

definition path_Abs :: "string result \<Rightarrow> string \<Rightarrow> string result" where
  "path_Abs getwd p =
     (if path_IsAbs p then Inr (path_Clean p)
      else case getwd of Inl e \<Rightarrow> Inl e | Inr wd \<Rightarrow> Inr (path_Join [wd, p]))"

definition resolveAudioFile :: "string result \<Rightarrow> string \<Rightarrow> string \<Rightarrow> string result" where
  "resolveAudioFile getwd AudioBaseDir audioFile =
     (if audioFile = [] then Inl (Msg ''missing 'audio_file' parameter'')
      else let base = (if AudioBaseDir = [] then ''.'' else AudioBaseDir)
           in case path_Abs getwd base of
             Inl err \<Rightarrow> Inl (Wrap ''invalid audio base directory: '' err)
           | Inr baseAbs \<Rightarrow>
               let resolved = path_Clean (if path_IsAbs audioFile then audioFile else path_Join [baseAbs, audioFile])
               in case path_Rel baseAbs resolved of
                    None \<Rightarrow> Inl (Msg ''audio_file path is outside the allowed directory'')
                  | Some rel \<Rightarrow>
                      if rel = ''..'' \<or> has_prefix rel ''../''
                      then Inl (Msg ''audio_file path is outside the allowed directory'')
                      else Inr resolved)"

subsection \<open>Actions\<close>

type_synonym execution = "response list \<times> turn_effect list list"

definition publishError :: "string \<Rightarrow> string \<Rightarrow> execution" where
  "publishError nodeID message =
     ([empty_response\<lparr>rp_Event := ''error'', rp_NodeID := nodeID, rp_Status := ''error'', rp_Message := message\<rparr>], [])"

text \<open>What follows an operation of the brain: its traces, and the error or the response.\<close>

definition after_brain :: "string \<Rightarrow> string \<Rightarrow> go_error option \<times> turn_effect list list \<Rightarrow> execution" where
  "after_brain nodeID event r =
     (case r of
        (Some err, ts) \<Rightarrow> (fst (publishError nodeID (err_text err)), ts)
      | (None, ts) \<Rightarrow> ([empty_response\<lparr>rp_Event := event, rp_NodeID := nodeID, rp_Status := ''success''\<rparr>], ts))"

definition one_node :: "go_error option \<times> turn_effect list \<Rightarrow> go_error option \<times> turn_effect list list" where
  "one_node r = (fst r, [snd r])"

definition executeTTS :: "exec_env \<Rightarrow> brain \<times> handle_store \<Rightarrow> request \<Rightarrow> execution" where
  "executeTTS env s req =
     (if rq_Text req = [] then publishError (rq_NodeID req) ''missing 'text' parameter''
      else if rq_NodeID req = [] then publishError [] ''missing 'node_id' parameter''
      else after_brain (rq_NodeID req) ''tts_completed''
        (if rq_NodeID req = ''all''
         then brain_SpeakAll (turn_env.truncate env) s (rq_Text req) (rq_Priority req)
         else one_node (brain_Speak (turn_env.truncate env) s (rq_NodeID req) (rq_Text req) (rq_Priority req))))"

definition executePlay :: "exec_env \<Rightarrow> brain \<times> handle_store \<Rightarrow> request \<Rightarrow> execution" where
  "executePlay env s req =
     (if rq_NodeID req = [] then publishError [] ''missing 'node_id' parameter''
      else if rq_AudioWavBase64 req = [] then publishError (rq_NodeID req) ''missing 'audio_wav_base64' parameter''
      else case xe_base64_decode env (rq_AudioWavBase64 req) of
        Inl err \<Rightarrow> publishError (rq_NodeID req) (''invalid base64 audio: '' @ err_text err)
      | Inr raw \<Rightarrow>
          (case DecodeWAVPCM16 raw of
             Inl err \<Rightarrow> publishError (rq_NodeID req) (''invalid WAV audio: '' @ err_text err)
           | Inr (pcm, rate) \<Rightarrow>
               after_brain (rq_NodeID req) ''play_completed''
                 (if rq_NodeID req = ''all''
                  then brain_PlaySamplesAll (turn_env.truncate env) s pcm rate (rq_Priority req)
                  else one_node (brain_PlaySamples (turn_env.truncate env) s (rq_NodeID req) pcm rate (rq_Priority req)))))"

definition executeASR :: "exec_env \<Rightarrow> string \<Rightarrow> request \<Rightarrow> execution" where
  "executeASR env base req =
     (case resolveAudioFile (xe_getwd env) base (rq_AudioFile req) of
        Inl err \<Rightarrow> publishError (rq_NodeID req) (err_text err)
      | Inr file \<Rightarrow>
          (case xe_transcribe_file env file of
             Inl err \<Rightarrow> publishError (rq_NodeID req) (''ASR transcription failed: '' @ err_text err)
           | Inr tx \<Rightarrow> ([empty_response\<lparr>rp_Event := ''asr_completed'', rp_NodeID := rq_NodeID req,
                          rp_Status := ''success'', rp_Text := tx\<rparr>], [])))"

definition executeSpeakerID :: "exec_env \<Rightarrow> string \<Rightarrow> request \<Rightarrow> execution" where
  "executeSpeakerID env base req =
     (case resolveAudioFile (xe_getwd env) base (rq_AudioFile req) of
        Inl err \<Rightarrow> publishError (rq_NodeID req) (err_text err)
      | Inr file \<Rightarrow>
          (case xe_identify_file env file of
             Inl err \<Rightarrow> publishError (rq_NodeID req) (''Speaker ID failed: '' @ err_text err)
           | Inr who \<Rightarrow> ([empty_response\<lparr>rp_Event := ''speaker_id_completed'', rp_NodeID := rq_NodeID req,
                           rp_Status := ''success'', rp_Speaker := who\<rparr>], [])))"

definition ask_response :: "exec_env \<Rightarrow> request \<Rightarrow> ask_result \<Rightarrow> response" where
  "ask_response env req result =
     (let resp = empty_response\<lparr>rp_Event := ''ask_completed'', rp_NodeID := rq_NodeID req, rp_Status := ar_Status result,
                   rp_Speaker := ar_Speaker result, rp_Message := ar_ErrorMessage result\<rparr>;
          wav = (if ar_Audio result = [] then rp_AudioWavBase64 resp
                 else xe_base64_encode env (EncodeWAVFloat32 (ar_Audio result) (ar_SampleRate result)))
      in if rq_OutputFormat req = ''audio'' then resp\<lparr>rp_AudioWavBase64 := wav\<rparr>
         else if rq_OutputFormat req = ''text'' then resp\<lparr>rp_Text := ar_Transcription result\<rparr>
         else resp\<lparr>rp_Text := ar_Transcription result, rp_AudioWavBase64 := wav\<rparr>)"

definition executeAsk :: "exec_env \<Rightarrow> speaker_id_config \<Rightarrow> brain \<times> handle_store \<Rightarrow> request \<Rightarrow> execution" where
  "executeAsk env sp s req =
     (if rq_NodeID req = [] then publishError [] ''missing 'node_id' parameter''
      else case ask_Run (ask_env.truncate env) sp s (req_AskConfig req) of
        (result, t) \<Rightarrow> ([ask_response env req result], [t]))"

text \<open>The executor: its base directory, and the brain and configuration it was built with.\<close>

record executor =
  ex_tasks :: task_group
  ex_brain :: "brain \<times> handle_store"
  ex_speaker_cfg :: speaker_id_config
  ex_AudioBaseDir :: string
  ex_submitted :: "(nat \<times> request) list"

definition NewExecutor :: "ctx_err \<Rightarrow> brain \<times> handle_store \<Rightarrow> speaker_id_config \<Rightarrow> executor" where
  "NewExecutor ctx b sp = \<lparr>ex_tasks = tg_New ctx 32, ex_brain = b, ex_speaker_cfg = sp, ex_AudioBaseDir = ''.'', ex_submitted = []\<rparr>"

definition Execute :: "exec_env \<Rightarrow> executor \<Rightarrow> ctx_err \<Rightarrow> request \<Rightarrow> execution" where
  "Execute env e cerr req =
     (case req_Validate req of
        Some err \<Rightarrow> publishError (rq_NodeID req) (err_text err)
      | None \<Rightarrow>
          (case cerr of
             Some err \<Rightarrow> publishError (rq_NodeID req) (err_text err)
           | None \<Rightarrow>
               if rq_Action req = ''tts'' then executeTTS env (ex_brain e) req
               else if rq_Action req = ''asr'' then executeASR env (ex_AudioBaseDir e) req
               else if rq_Action req = ''speaker_id'' then executeSpeakerID env (ex_AudioBaseDir e) req
               else if rq_Action req = ''ask'' then executeAsk env (ex_speaker_cfg e) (ex_brain e) req
               else if rq_Action req = ''play'' then executePlay env (ex_brain e) req
               else publishError (rq_NodeID req) (''unknown action: '' @ rq_Action req)))"

text \<open>
  \<open>Submit\<close>: the task it starts is named by its token, and \<open>ex_submitted\<close> records the request that the task's closure
  holds, the latest last; the task runs \<open>Execute\<close> on that request under a limit of five minutes, and what it
  publishes is \<open>run_submitted\<close>.
\<close>

definition executor_Submit :: "request \<Rightarrow> executor \<Rightarrow> go_error option \<times> executor" where
  "executor_Submit req e =
     (case req_Validate req of
        Some err \<Rightarrow> (Some err, e)
      | None \<Rightarrow>
          (case tg_Go (ex_tasks e) of
             (Inl err, g) \<Rightarrow> (Some err, e\<lparr>ex_tasks := g\<rparr>)
           | (Inr i, g) \<Rightarrow> (None, e\<lparr>ex_tasks := g, ex_submitted := ex_submitted e @ [(i, req)]\<rparr>)))"

definition run_submitted :: "exec_env \<Rightarrow> executor \<Rightarrow> ctx_err \<Rightarrow> nat \<Rightarrow> execution option" where
  "run_submitted env e cerr i = map_option (Execute env e cerr) (map_of (rev (ex_submitted e)) i)"

subsection \<open>Confinement\<close>

lemma path_IsAbs_append [simp]: "path_IsAbs s \<Longrightarrow> path_IsAbs (s @ t)"
  by (cases s) (auto simp: path_IsAbs_def has_prefix_def)

lemma path_Join_abs:
  assumes "path_IsAbs a" and "p \<noteq> []"
  shows "path_IsAbs (path_Join [a, p]) \<and> path_Clean (path_Join [a, p]) = path_Join [a, p]"
proof -
  have "a \<noteq> []" using assms(1) by (auto simp: path_IsAbs_def has_prefix_def)
  then have j: "path_Join [a, p] = path_Clean (a @ slash # p)" using assms(2) by (simp add: path_Join_def)
  have "path_IsAbs (a @ slash # p)" using assms(1) by simp
  then show ?thesis unfolding j using path_Clean_abs path_Clean_idem by blast
qed

lemma path_Abs_abs:
  assumes "\<And>wd. getwd = Inr wd \<Longrightarrow> path_IsAbs wd" and "path_Abs getwd p = Inr b" and "p \<noteq> []"
  shows "path_IsAbs b"
proof (cases "path_IsAbs p")
  case True
  then show ?thesis using assms(2) path_Clean_abs [of p] by (auto simp: path_Abs_def)
next
  case False
  then obtain wd where "getwd = Inr wd" "b = path_Join [wd, p]"
    using assms(2) by (auto simp: path_Abs_def split: sum.splits)
  then show ?thesis using assms(1,3) path_Join_abs by blast
qed

text \<open>C17: The file an ASR or speaker request names is a clean absolute path that lies inside the base directory:
  its components are those of the base followed by more, and none of them is \<open>..\<close>. A path that lies inside is
  never refused. The working directory is rooted, as \<open>os.Getwd\<close> documents; links are not followed.\<close>

theorem audio_file_confined:
  assumes "\<And>wd. getwd = Inr wd \<Longrightarrow> path_IsAbs wd"
    and "path_Abs getwd (if dir = [] then ''.'' else dir) = Inr base" and "f \<noteq> []"
  shows "case resolveAudioFile getwd dir f of
      Inr r \<Rightarrow> path_IsAbs r \<and> path_Clean r = r \<and> ''..'' \<notin> set (path_comps r) \<and> (\<exists>t. path_comps r = path_comps base @ t)
    | Inl _ \<Rightarrow> \<nexists>t. path_comps (if path_IsAbs f then f else path_Join [base, f]) = path_comps base @ t"
proof -
  let ?f = "if path_IsAbs f then f else path_Join [base, f]"
  let ?r = "path_Clean ?f"
  have base: "path_IsAbs base" by (rule path_Abs_abs [OF assms(1,2)]) auto
  have f: "path_IsAbs ?f" using path_Join_abs [OF base assms(3)] by simp
  have r: "path_IsAbs ?r" "path_comps ?r = path_comps ?f" "path_Clean ?r = ?r" "''..'' \<notin> set (path_comps ?r)"
    using path_Clean_abs [OF f] path_Clean_idem [OF f] path_comps_no_up [OF f] by auto
  obtain rel where rel: "path_Rel base ?r = Some rel"
      "(rel = ''..'' \<or> has_prefix rel ''../'') \<longleftrightarrow> \<not> (\<exists>t. path_comps ?r = path_comps base @ t)"
    using path_Rel_inside [OF base r(1)] by blast
  have "resolveAudioFile getwd dir f =
      (if rel = ''..'' \<or> has_prefix rel ''../'' then Inl (Msg ''audio_file path is outside the allowed directory'') else Inr ?r)"
    using assms(2,3) rel(1) by (simp add: resolveAudioFile_def Let_def)
  then show ?thesis using rel(2) r by (cases "rel = ''..'' \<or> has_prefix rel ''../''") simp_all
qed

theorem audio_file_confined_witness:
  "case resolveAudioFile (Inr ''/srv/app'') [] ''../app2/x.wav'' of
     Inr r \<Rightarrow> False
   | Inl _ \<Rightarrow> \<nexists>t. path_comps (path_Join [''/srv/app'', ''../app2/x.wav'']) = path_comps ''/srv/app'' @ t"
proof -
  have a: "path_Abs (Inr ''/srv/app'') ''.'' = Inr ''/srv/app''" by code_simp
  have e: "resolveAudioFile (Inr ''/srv/app'') [] ''../app2/x.wav'' = Inl (Msg ''audio_file path is outside the allowed directory'')"
    by code_simp
  have abs: "path_IsAbs wd" if "(Inr ''/srv/app'' :: string result) = Inr wd" for wd
    using that by (auto simp: path_IsAbs_def has_prefix_def)
  have f: "\<not> path_IsAbs ''../app2/x.wav''" by code_simp
  show ?thesis using audio_file_confined [of "Inr ''/srv/app''" "[]" "''/srv/app''" "''../app2/x.wav''"] abs a e f
    by simp
qed

subsection \<open>One response, and turns only\<close>

definition answers :: "string \<Rightarrow> execution \<Rightarrow> bool" where
  "answers n x \<longleftrightarrow> (\<exists>r. fst x = [r] \<and> rp_NodeID r = n) \<and> (\<forall>t \<in> set (snd x). turn_ok [] t)"

lemma answers_error [simp]: "answers n (publishError n m)"
  by (simp add: answers_def publishError_def)

lemma answers_after_brain:
  assumes "\<forall>t \<in> set (snd r). turn_ok [] t"
  shows "answers n (after_brain n event r)"
proof (cases r)
  case (Pair e ts)
  then show ?thesis using assms by (cases e) (simp_all add: answers_def after_brain_def publishError_def)
qed

lemma one_node_turn_ok [simp]: "(\<forall>t \<in> set (snd (one_node r)). turn_ok [] t) = turn_ok [] (snd r)"
  by (simp add: one_node_def)

lemma answers_actions:
  "answers (rq_NodeID req) (executeTTS env s req)"
  "answers (rq_NodeID req) (executePlay env s req)"
  "answers (rq_NodeID req) (executeASR env base req)"
  "answers (rq_NodeID req) (executeSpeakerID env base req)"
  "answers (rq_NodeID req) (executeAsk env sp s req)"
proof -
  let ?te = "turn_env.truncate env" and ?n = "rq_NodeID req" and ?p = "rq_Priority req"
  have tts: "answers ?n (after_brain ?n ev (if b then brain_SpeakAll ?te s tx ?p else one_node (brain_Speak ?te s ?n tx ?p)))"
    for ev b tx
    using brain_ops_turn_ok(1) brain_ops_turn_ok(4) by (intro answers_after_brain) (cases b; simp)
  have play: "answers ?n (after_brain ?n ev (if b then brain_PlaySamplesAll ?te s pcm rate ?p
      else one_node (brain_PlaySamples ?te s ?n pcm rate ?p)))" for ev b pcm rate
    using brain_ops_turn_ok(2) brain_ops_turn_ok(3) by (intro answers_after_brain) (cases b; simp)
  show "answers ?n (executeTTS env s req)"
    by (cases "rq_Text req = []"; cases "?n = []") (simp_all only: executeTTS_def if_True if_False simp_thms tts answers_error)
  show "answers ?n (executePlay env s req)"
    unfolding executePlay_def using play answers_error [of "[]"]
    by (auto split: sum.splits)
  show "answers ?n (executeASR env base req)"
    by (auto simp: executeASR_def answers_def publishError_def split: sum.splits)
  show "answers ?n (executeSpeakerID env base req)"
    by (auto simp: executeSpeakerID_def answers_def publishError_def split: sum.splits)
  obtain r t where r: "ask_Run (ask_env.truncate env) sp s (req_AskConfig req) = (r, t)" by force
  then have "turn_ok [] t" using ask_Run_turn_ok [of "ask_env.truncate env" sp s "req_AskConfig req"] by simp
  then show "answers ?n (executeAsk env sp s req)"
    using r answers_error [of "[]"] by (auto simp: executeAsk_def answers_def ask_response_def empty_response_def Let_def)
qed

text \<open>C18: Whatever a command asks for and whatever fails, executing it publishes exactly one response, which
  names the node of the request, and every goroutine it starts touches nodes only within granted turns, all of
  which it gives back. A command that is invalid or cancelled drives nothing.\<close>

theorem execute_one_response:
  "(\<exists>r. fst (Execute env e cerr req) = [r] \<and> rp_NodeID r = rq_NodeID req \<and>
      (if req_Validate req = None \<and> cerr = None then True
       else rp_Event r = ''error'' \<and> snd (Execute env e cerr req) = [])) \<and>
   (\<forall>t \<in> set (snd (Execute env e cerr req)). turn_ok [] t)"
proof (cases "req_Validate req = None \<and> cerr = None")
  case False
  then show ?thesis by (auto simp: Execute_def publishError_def split: option.splits)
next
  case True
  have "answers (rq_NodeID req) (Execute env e cerr req)"
    using True answers_actions by (simp add: Execute_def)
  then show ?thesis using True by (auto simp: answers_def)
qed

definition sample_exec_env :: exec_env where
  "sample_exec_env = ask_env.extend sample_ask_env
     \<lparr>xe_getwd = Inr ''/srv/app'', xe_base64_decode = (\<lambda>_. Inl (Msg ''illegal base64 data'')), xe_base64_encode = (\<lambda>_. []),
      xe_transcribe_file = (\<lambda>_. Inr ''hello''), xe_identify_file = (\<lambda>_. Inr ''eva'')\<rparr>"

definition sample_executor :: executor where
  "sample_executor = NewExecutor None sample_brain sample_speaker_id"

definition sample_tts :: request where
  "sample_tts = \<lparr>rq_Action = ''tts'', rq_NodeID = ''kitchen'', rq_Text = ''hi'', rq_AudioFile = [], rq_Priority = 0,
     rq_AudioWavBase64 = [], rq_ContextID = [], rq_BargeIn = False, rq_RequireSpeakerID = False, rq_OutputFormat = [],
     rq_VADTimeoutSeconds = Fin 0, rq_CaptureDelaySeconds = Fin 0, rq_PostSpeechSilenceSeconds = Fin 0\<rparr>"

lemma sample_tts_valid: "req_Validate sample_tts = None"
proof -
  have "\<not> is_blank ''hi''"
    by (rule not_blank, rule list.set_intros(1)) (simp add: utf8_spaces_def)
  then show ?thesis by (simp add: req_Validate_def sample_tts_def)
qed

theorem execute_one_response_witness:
  "\<exists>r. fst (Execute sample_exec_env sample_executor None sample_tts) = [r] \<and> rp_NodeID r = ''kitchen''"
proof -
  have "rq_NodeID sample_tts = ''kitchen''" by (simp add: sample_tts_def)
  then show ?thesis
    using execute_one_response [of sample_exec_env sample_executor None sample_tts] by auto
qed

text \<open>A clip longer than two minutes is refused on one node, but a broadcast makes no such check: sent to all
  nodes the same clip is played on each.\<close>

theorem broadcast_skips_duration_check:
  "brain_PlaySamples (sample_env []) sample_brain ''kitchen'' (replicate 121 0) 1 0 =
     (Some (Msg ''invalid audio rate or duration''), []) \<and>
   brain_PlaySamplesAll (sample_env []) sample_brain (replicate 121 0) 1 0 =
     (None, [[Ef_acquire ''kitchen'' 0, Ef_state ''kitchen'' StateProcessing, Ef_state ''kitchen'' StateSpeaking,
              Ef_play ''kitchen'' (replicate 121 0) 1, Ef_state ''kitchen'' StateIdle, Ef_release ''kitchen'']])"
proof -
  have g: "node_gain (sample_env []) sample_handle pcm = pcm" for pcm
    by (simp add: node_gain_def sample_handle_def sample_config_def)
  have e: "en_acquire (sample_env []) n p = None" "en_play (sample_env []) n pcm = None" for n p pcm
    by (simp_all add: sample_env_def)
  have n: "nh_NodeID sample_handle = ''kitchen''" by (simp add: sample_handle_def)
  have one: "brain_PlaySamples (sample_env []) sample_brain ''kitchen'' (replicate 121 0) 1 0 =
      (Some (Msg ''invalid audio rate or duration''), [])"
    by (simp add: brain_PlaySamples_def)
  have "replicate 121 (0 :: i16) \<noteq> []" by simp
  then have "brain_PlaySamplesAll (sample_env []) sample_brain (replicate 121 0) 1 0 =
      (None, [snd (with_turn (sample_env []) ''kitchen'' 0 (playSamplesToHandle (sample_env []) ''kitchen'' sample_handle (replicate 121 0) 1))])"
    by (simp add: brain_PlaySamplesAll_def brain_snapshotHandles_def brain_playAll_def Let_def with_turn_def
        playSamplesToHandle_def n e errors_Join_def List.map_filter_def)
  then show ?thesis using one
    by (simp add: with_turn_def playSamplesToHandle_def g e)
qed

end
