(* ===== verification/Hub.thy ===== *)
theory Hub
  imports Go_Prelude "HOL-Library.Sublist"
begin

text \<open>
  Delivery of events to WebSocket clients (internal/wshub/hub.go). A client has a bounded queue of
  outgoing messages and a writer goroutine; its socket is a parameter, seen only as the answer of
  each write. A writer is writing, has closed its client and is leaving, or is gone; \<open>hc_sent\<close> records
  what publishers offered to the client and \<open>hc_written\<close> what went out on its socket.
\<close>

abbreviation outbound_capacity :: nat where "outbound_capacity \<equiv> 32"
abbreviation max_clients :: nat where "max_clients \<equiv> 64"

datatype writer_phase = Writing | Leaving | Left

record 'm hub_client =
  hc_out :: "'m list"
  hc_done :: bool
  hc_phase :: writer_phase
  hc_listed :: bool
  hc_sent :: "'m list"
  hc_written :: "'m list"

record 'm hub =
  hub_clients :: "'m hub_client list"
  hub_closed :: bool
  hub_wg :: int

definition hub_New :: "'m hub" where
  "hub_New = \<lparr>hub_clients = [], hub_closed = False, hub_wg = 0\<rparr>"

text \<open>\<open>close(done)\<close> and \<open>conn.Close()\<close> happen together, once.\<close>

definition hc_Close :: "'m hub_client \<Rightarrow> 'm hub_client" where
  "hc_Close c = c\<lparr>hc_done := True\<rparr>"

definition hc_send :: "'m \<Rightarrow> 'm hub_client \<Rightarrow> 'm hub_client" where
  "hc_send data c0 =
     (let c = c0\<lparr>hc_sent := hc_sent c0 @ [data]\<rparr>
      in if hc_done c then c
         else if length (hc_out c) < outbound_capacity then c\<lparr>hc_out := hc_out c @ [data]\<rparr>
         else hc_Close c)"

definition hub_listed :: "'m hub \<Rightarrow> nat" where
  "hub_listed h = length (filter hc_listed (hub_clients h))"

text \<open>\<open>Add\<close> answers nil (and closes the connection) or the new client.\<close>

definition hub_Add :: "'m hub \<Rightarrow> nat option \<times> 'm hub" where
  "hub_Add h =
     (if hub_closed h \<or> max_clients \<le> hub_listed h then (None, h)
      else (Some (length (hub_clients h)),
            h\<lparr>hub_clients := hub_clients h @ [\<lparr>hc_out = [], hc_done = False, hc_phase = Writing,
                hc_listed = True, hc_sent = [], hc_written = []\<rparr>],
              hub_wg := hub_wg h + 1\<rparr>))"

text \<open>
  One turn of \<open>writeLoop\<close>: it sees \<open>done\<close> and leaves, or takes a message and writes it, leaving when
  the write fails. With a closed client and a message queued Go picks either case.
\<close>

definition hc_leave :: "'m hub_client \<Rightarrow> 'm hub_client" where
  "hc_leave c = (hc_Close c)\<lparr>hc_phase := Leaving\<rparr>"

definition hc_write :: "bool \<Rightarrow> 'm hub_client \<Rightarrow> 'm hub_client" where
  "hc_write written c =
     (case hc_out c of
        [] \<Rightarrow> c
      | data # rest \<Rightarrow>
          if written then c\<lparr>hc_out := rest, hc_written := hc_written c @ [data]\<rparr>
          else hc_leave (c\<lparr>hc_out := rest\<rparr>))"

definition hub_unlist :: "nat \<Rightarrow> 'm hub \<Rightarrow> 'm hub" where
  "hub_unlist i h =
     h\<lparr>hub_clients := (hub_clients h)[i := (hub_clients h ! i)\<lparr>hc_phase := Left, hc_listed := False\<rparr>],
       hub_wg := hub_wg h - 1\<rparr>"

text \<open>\<open>json.Marshal\<close> of the value: nothing is sent when it fails.\<close>

definition hub_Publish :: "('v \<Rightarrow> 'm option) \<Rightarrow> 'v \<Rightarrow> 'm hub \<Rightarrow> 'm hub" where
  "hub_Publish marshal value h =
     (case marshal value of
        None \<Rightarrow> h
      | Some data \<Rightarrow>
          h\<lparr>hub_clients := map (\<lambda>c. if hc_listed c then hc_send data c else c) (hub_clients h)\<rparr>)"

definition hc_Send :: "('v \<Rightarrow> 'm option) \<Rightarrow> 'v \<Rightarrow> 'm hub_client \<Rightarrow> 'm hub_client" where
  "hc_Send marshal value c = (case marshal value of None \<Rightarrow> c | Some data \<Rightarrow> hc_send data c)"

text \<open>\<open>Close\<close> up to its \<open>wg.Wait\<close>, which returns when every writer is gone.\<close>

definition hub_Close :: "'m hub \<Rightarrow> 'm hub" where
  "hub_Close h =
     h\<lparr>hub_closed := True,
       hub_clients := map (\<lambda>c. if hc_listed c then hc_Close c else c) (hub_clients h)\<rparr>"

inductive hub_step :: "'m hub \<Rightarrow> 'm hub \<Rightarrow> bool" where
  hub_adds: "hub_step h (snd (hub_Add h))"
| hub_publishes: "hub_step h (hub_Publish marshal (value :: 'm) h)"
| hub_sends: "i < length (hub_clients h) \<Longrightarrow>
    hub_step h (h\<lparr>hub_clients := (hub_clients h)[i := hc_Send marshal (value :: 'm) (hub_clients h ! i)]\<rparr>)"
| hub_client_closes: "i < length (hub_clients h) \<Longrightarrow>
    hub_step h (h\<lparr>hub_clients := (hub_clients h)[i := hc_Close (hub_clients h ! i)]\<rparr>)"
| hub_writer_done: "i < length (hub_clients h) \<Longrightarrow> hc_phase (hub_clients h ! i) = Writing \<Longrightarrow>
    hc_done (hub_clients h ! i) \<Longrightarrow>
    hub_step h (h\<lparr>hub_clients := (hub_clients h)[i := hc_leave (hub_clients h ! i)]\<rparr>)"
| hub_writes: "i < length (hub_clients h) \<Longrightarrow> hc_phase (hub_clients h ! i) = Writing \<Longrightarrow>
    hub_step h (h\<lparr>hub_clients := (hub_clients h)[i := hc_write written (hub_clients h ! i)]\<rparr>)"
| hub_unlists: "i < length (hub_clients h) \<Longrightarrow> hc_phase (hub_clients h ! i) = Leaving \<Longrightarrow>
    hub_step h (hub_unlist i h)"
| hub_closes: "hub_step h (hub_Close h)"

subsection \<open>Order of delivery\<close>

definition hc_inv :: "'m hub_client \<Rightarrow> bool" where
  "hc_inv c \<longleftrightarrow>
     length (hc_out c) \<le> outbound_capacity \<and>
     prefix (hc_written c) (hc_sent c) \<and>
     (hc_phase c = Writing \<longrightarrow> prefix (hc_written c @ hc_out c) (hc_sent c)) \<and>
     (\<not> hc_done c \<longrightarrow> hc_phase c = Writing \<and> hc_written c @ hc_out c = hc_sent c) \<and>
     (hc_listed c \<longleftrightarrow> hc_phase c \<noteq> Left)"

definition hub_inv :: "'m hub \<Rightarrow> bool" where
  "hub_inv h \<longleftrightarrow> (\<forall>c \<in> set (hub_clients h). hc_inv c \<and> (hub_closed h \<longrightarrow> hc_done c)) \<and>
     hub_listed h \<le> max_clients \<and> hub_wg h = int (hub_listed h)"

lemma hc_Close_inv: "hc_inv c \<Longrightarrow> hc_inv (hc_Close c)"
  by (simp add: hc_inv_def hc_Close_def)

lemma hc_send_inv: "hc_inv c \<Longrightarrow> hc_inv (hc_send d c)"
  by (auto simp: hc_inv_def hc_send_def hc_Close_def Let_def)

lemma hc_Send_inv: "hc_inv c \<Longrightarrow> hc_inv (hc_Send m v c)"
  by (simp add: hc_Send_def hc_send_inv split: option.splits)

lemma hc_leave_inv: "hc_inv c \<Longrightarrow> hc_phase c = Writing \<Longrightarrow> hc_inv (hc_leave c)"
  by (simp add: hc_inv_def hc_leave_def hc_Close_def)

lemma hc_write_inv: "hc_inv c \<Longrightarrow> hc_phase c = Writing \<Longrightarrow> hc_inv (hc_write w c)"
proof -
  assume inv: "hc_inv c" and w: "hc_phase c = Writing"
  show ?thesis
  proof (cases "hc_out c")
    case (Cons data rest)
    have "prefix ((hc_written c @ [data]) @ rest) (hc_sent c)" using inv w Cons by (simp add: hc_inv_def)
    then have "prefix (hc_written c @ [data]) (hc_sent c)" by (rule append_prefixD)
    then show ?thesis using inv w Cons by (auto simp: hc_inv_def hc_write_def hc_leave_def hc_Close_def)
  qed (use inv in \<open>simp add: hc_write_def\<close>)
qed

text \<open>What the operations keep: who is listed, who is done.\<close>

lemma hc_frame:
  "hc_listed (hc_Close c) = hc_listed c" "hc_listed (hc_send d c) = hc_listed c"
  "hc_listed (hc_Send m v c) = hc_listed c" "hc_listed (hc_leave c) = hc_listed c"
  "hc_listed (hc_write w c) = hc_listed c" "hc_done c \<Longrightarrow> hc_done (hc_send d c)"
  "hc_done c \<Longrightarrow> hc_done (hc_Send m v c)" "hc_done (hc_Close c)" "hc_done (hc_leave c)"
  "hc_done c \<Longrightarrow> hc_done (hc_write w c)"
  by (auto simp: hc_Close_def hc_send_def hc_Send_def hc_leave_def hc_write_def Let_def
      split: option.splits list.splits)

lemma listed_map:
  "(\<And>c. hc_listed (f c) = hc_listed c) \<Longrightarrow> length (filter hc_listed (map f cs)) = length (filter hc_listed cs)"
  by (induction cs) auto

lemma listed_update:
  assumes "i < length cs"
  shows "int (length (filter hc_listed (cs[i := c]))) =
    int (length (filter hc_listed cs)) + (if hc_listed c then 1 else 0) - (if hc_listed (cs ! i) then 1 else 0)"
proof -
  have "length (filter hc_listed cs) = length (filter hc_listed (take i cs @ cs ! i # drop (Suc i) cs))"
    using id_take_nth_drop [OF assms] by simp
  then show ?thesis using assms by (simp add: upd_conv_take_nth_drop)
qed

lemma hub_update_inv:
  assumes "hub_inv h" and "i < length (hub_clients h)" and "hc_inv c"
    and "hc_listed c = hc_listed (hub_clients h ! i)" and "hc_done (hub_clients h ! i) \<longrightarrow> hc_done c"
  shows "hub_inv (h\<lparr>hub_clients := (hub_clients h)[i := c]\<rparr>)"
proof -
  have i: "hub_clients h ! i \<in> set (hub_clients h)" using assms(2) by simp
  have "int (length (filter hc_listed ((hub_clients h)[i := c]))) = int (length (filter hc_listed (hub_clients h)))"
    using listed_update [OF assms(2), of c] assms(4) by simp
  moreover have "hc_inv d \<and> (hub_closed h \<longrightarrow> hc_done d)" if "d \<in> set ((hub_clients h)[i := c])" for d
    using that set_update_subset_insert [of "hub_clients h" i c] assms(1,3,5) i by (auto simp: hub_inv_def)
  ultimately show ?thesis using assms(1) by (auto simp: hub_inv_def hub_listed_def)
qed

lemma hub_map_inv:
  assumes "hub_inv h" and "\<And>c. hc_inv c \<Longrightarrow> hc_inv (f c)" and "\<And>c. hc_listed (f c) = hc_listed c"
    and "\<And>c. c \<in> set (hub_clients h) \<Longrightarrow> b \<Longrightarrow> hc_done (f c)"
  shows "hub_inv (h\<lparr>hub_clients := map f (hub_clients h), hub_closed := b\<rparr>)"
proof -
  have "length (filter hc_listed (map f (hub_clients h))) = length (filter hc_listed (hub_clients h))"
    using assms(3) by (rule listed_map)
  then show ?thesis using assms(1,2,4) by (auto simp: hub_inv_def hub_listed_def simp del: filter_map)
qed

lemma hub_Publish_inv:
  assumes "hub_inv h"
  shows "hub_inv (hub_Publish marshal v h)"
proof (cases "marshal v")
  case (Some data)
  have "hub_inv (h\<lparr>hub_clients := map (\<lambda>c. if hc_listed c then hc_send data c else c) (hub_clients h),
      hub_closed := hub_closed h\<rparr>)"
    by (rule hub_map_inv [OF assms]) (use assms in \<open>auto simp: hc_send_inv hc_frame hub_inv_def\<close>)
  then show ?thesis using Some by (simp add: hub_Publish_def)
qed (simp add: assms hub_Publish_def)

lemma hub_unlist_inv:
  assumes "hub_inv h" and "i < length (hub_clients h)" and "hc_phase (hub_clients h ! i) = Leaving"
  shows "hub_inv (hub_unlist i h)"
proof -
  let ?c = "hub_clients h ! i"
  have "?c \<in> set (hub_clients h)" using assms by simp
  then have c: "hc_inv ?c" "hub_closed h \<longrightarrow> hc_done ?c" using assms(1) by (auto simp: hub_inv_def)
  then have "hc_listed ?c" using assms by (simp add: hc_inv_def)
  moreover have "hc_inv (?c\<lparr>hc_phase := Left, hc_listed := False\<rparr>)"
    using c assms by (auto simp: hc_inv_def)
  moreover define d where "d = ?c\<lparr>hc_phase := Left, hc_listed := False\<rparr>"
  ultimately have d: "hc_inv d" "hc_done ?c \<longrightarrow> hc_done d" "\<not> hc_listed d" "hc_listed ?c" by auto
  have "int (length (filter hc_listed ((hub_clients h)[i := d]))) = int (hub_listed h) - 1"
    using listed_update [of i "hub_clients h" d] d assms by (simp add: hub_listed_def)
  moreover have "hc_inv e \<and> (hub_closed h \<longrightarrow> hc_done e)" if "e \<in> set ((hub_clients h)[i := d])" for e
    using that set_update_subset_insert [of "hub_clients h" i d] assms(1) d(1,2) c(2) by (auto simp: hub_inv_def)
  moreover have h': "hub_clients (hub_unlist i h) = (hub_clients h)[i := d]" "hub_closed (hub_unlist i h) = hub_closed h"
    "hub_wg (hub_unlist i h) = hub_wg h - 1" by (simp_all add: hub_unlist_def d_def)
  ultimately have n: "int (hub_listed (hub_unlist i h)) = int (hub_listed h) - 1"
    and ok: "\<forall>e \<in> set (hub_clients (hub_unlist i h)). hc_inv e \<and> (hub_closed (hub_unlist i h) \<longrightarrow> hc_done e)"
    by (simp only: hub_listed_def, unfold hub_listed_def h', blast)
  have "hub_listed h \<le> max_clients" "hub_wg h = int (hub_listed h)" using assms(1) by (auto simp: hub_inv_def)
  then have "hub_listed (hub_unlist i h) \<le> max_clients" "hub_wg (hub_unlist i h) = int (hub_listed (hub_unlist i h))"
    using n h'(3) by linarith+
  with ok show ?thesis unfolding hub_inv_def by (intro conjI)
qed

lemma hub_Close_inv:
  assumes "hub_inv h"
  shows "hub_inv (hub_Close h)"
proof -
  have "hc_done c" if "c \<in> set (hub_clients h)" "\<not> hc_listed c" for c
  proof -
    have "hc_inv c" using that(1) assms by (simp add: hub_inv_def)
    then show ?thesis using that(2) unfolding hc_inv_def by (metis writer_phase.distinct(3))
  qed
  then have "hub_inv (h\<lparr>hub_clients := map (\<lambda>c. if hc_listed c then hc_Close c else c) (hub_clients h),
      hub_closed := True\<rparr>)"
    by (intro hub_map_inv [OF assms]) (auto simp: hc_Close_inv hc_frame)
  then show ?thesis unfolding hub_Close_def by (cases h) simp
qed

lemma hub_step_inv:
  assumes "hub_step h h'" and "hub_inv h"
  shows "hub_inv h'"
  using assms
proof (cases rule: hub_step.cases)
  case hub_adds
  then show ?thesis using assms(2)
    by (auto simp: hub_inv_def hub_Add_def hub_listed_def hc_inv_def)
next
  case (hub_sends i marshal v)
  then show ?thesis using hub_update_inv assms(2) hc_Send_inv hc_frame(3,7)
    by (metis hub_inv_def nth_mem)
next
  case (hub_client_closes i)
  then show ?thesis using hub_update_inv assms(2) hc_Close_inv hc_frame(1,8) by (metis hub_inv_def nth_mem)
next
  case (hub_writer_done i)
  then show ?thesis using hub_update_inv assms(2) hc_leave_inv hc_frame(4,9) by (metis hub_inv_def nth_mem)
next
  case (hub_writes i w)
  then show ?thesis using hub_update_inv assms(2) hc_write_inv hc_frame(5,10) by (metis hub_inv_def nth_mem)
qed (simp_all add: hub_Publish_inv hub_unlist_inv hub_Close_inv)

interpretation hub_machine: machine "\<lambda>h. h = hub_New" hub_step hub_inv
proof unfold_locales
  show "hub_inv h" if "h = hub_New" for h :: "'a hub"
    using that by (simp add: hub_inv_def hub_New_def hub_listed_def)
qed (rule hub_step_inv)

abbreviation hub_reachable :: "'m hub \<Rightarrow> bool" where
  "hub_reachable \<equiv> reach (\<lambda>h. h = hub_New) hub_step"

text \<open>C11: A client that is not closed has every message offered to it either written or queued, in
  order; what a client got is always a prefix of what was offered to it, so a slow one is cut off and
  never sees a gap. At most 64 clients are served and each has at most 32 messages queued.\<close>

theorem hub_delivery:
  assumes "hub_reachable h" and "c \<in> set (hub_clients h)"
  shows "prefix (hc_written c) (hc_sent c) \<and> (\<not> hc_done c \<longrightarrow> hc_written c @ hc_out c = hc_sent c) \<and>
    length (hc_out c) \<le> 32 \<and> hub_listed h \<le> 64"
  using hub_machine.reach_inv [OF assms(1)] assms(2) by (auto simp: hub_inv_def hc_inv_def)

lemma hub_reach_Add: "hub_reachable h \<Longrightarrow> hub_reachable (snd (hub_Add h))"
  by (erule reach_step) (rule hub_adds)

lemma hub_reach_Publish: "hub_reachable h \<Longrightarrow> hub_reachable (hub_Publish Some v h)"
  by (erule reach_step) (rule hub_publishes)

theorem hub_delivery_witness:
  "map hc_out (hub_clients (hub_Publish Some (7::nat) (snd (hub_Add hub_New)))) = [[7]] \<and>
   hc_sent (hub_clients (hub_Publish Some (7::nat) (snd (hub_Add hub_New))) ! 0) = [7]"
proof -
  let ?h = "hub_Publish Some (7::nat) (snd (hub_Add hub_New))"
  have r: "hub_reachable ?h" by (intro hub_reach_Publish hub_reach_Add reach_init refl)
  have h: "hub_clients ?h = [\<lparr>hc_out = [7], hc_done = False, hc_phase = Writing, hc_listed = True,
      hc_sent = [7], hc_written = []\<rparr>]" by code_simp
  show ?thesis using hub_delivery [OF r, of "hub_clients ?h ! 0"] unfolding h by simp
qed

text \<open>Close leaves nothing running: no client is added to a closed hub, every client of it is
  closed, and the wait of Close can return only when every writer is gone.\<close>

theorem hub_close_joins:
  assumes "hub_reachable h" and "hub_closed h"
  shows "fst (hub_Add h) = None \<and> (\<forall>c \<in> set (hub_clients h). hc_done c) \<and>
    (hub_wg h = 0 \<longleftrightarrow> (\<forall>c \<in> set (hub_clients h). hc_phase c = Left))"
proof -
  have inv: "hub_inv h" using hub_machine.reach_inv [OF assms(1)] .
  have "hub_wg h = 0 \<longleftrightarrow> filter hc_listed (hub_clients h) = []"
    using inv by (simp add: hub_inv_def hub_listed_def)
  also have "\<dots> \<longleftrightarrow> (\<forall>c \<in> set (hub_clients h). hc_phase c = Left)"
    using inv by (auto simp: filter_empty_conv hub_inv_def hc_inv_def)
  finally show ?thesis using inv assms(2) by (simp add: hub_inv_def hub_Add_def)
qed

theorem hub_close_joins_witness:
  "hub_wg (hub_Close (snd (hub_Add (hub_New :: nat hub)))) = 1 \<and>
   fst (hub_Add (hub_Close (snd (hub_Add (hub_New :: nat hub))))) = None"
proof -
  let ?h = "hub_Close (snd (hub_Add (hub_New :: nat hub)))"
  have r: "hub_reachable ?h"
    by (rule reach_step [where s = "snd (hub_Add hub_New)"]) (intro hub_reach_Add reach_init refl hub_closes)+
  have c: "hub_closed ?h" by (simp add: hub_Close_def)
  show ?thesis using hub_close_joins [OF r c] by (simp add: hub_Close_def hub_Add_def hub_New_def hub_listed_def)
qed

end
