(* ===== verification/Webserver.thy ===== *)
theory Webserver
  imports Httpsec Protocol Hub
begin

text \<open>
  The dashboard and control API (internal/webserver/webserver.go) and the WebSocket command server
  (internal/server/websocket.go). A handler is a function of the server's state and a request; it
  gives the reply, the state after it, the traces of the nodes it drove and the files it wrote. The
  listening sockets, the embedded assets and the JSON codec are parameters.
\<close>

record synthesize_request =
  sq_Text :: string
  sq_Filename :: string
  sq_Priority :: int

record synthesize_response =
  sy_Status :: string
  sy_File :: string
  sy_Filename :: string
  sy_SampleRate :: int
  sy_Samples :: nat
  sy_DurationSeconds :: f64
  sy_AudioWavBase64 :: string
  sy_ErrorMessage :: string

definition synthesize_error :: "string \<Rightarrow> synthesize_response" where
  "synthesize_error msg = \<lparr>sy_Status = ''error'', sy_File = [], sy_Filename = [], sy_SampleRate = 0, sy_Samples = 0,
     sy_DurationSeconds = Fin 0, sy_AudioWavBase64 = [], sy_ErrorMessage = msg\<rparr>"

record web_ask_response =
  wr_ContextID :: string
  wr_NodeID :: string
  wr_Status :: string
  wr_Transcription :: string
  wr_Speaker :: string
  wr_AudioWavBase64 :: string
  wr_ErrorMessage :: string

datatype web_value =
    V_status f64 nat "node_info list"
  | V_nodes "node_info list"
  | V_response response
  | V_synthesize synthesize_response
  | V_ask web_ask_response

record web_env = exec_env +
  wb_net :: net_env
  wb_uptime :: f64
  wb_now :: int
  wb_json_request :: "request json_decoder"
  wb_json_synthesize :: "synthesize_request json_decoder"
  wb_mkdir :: "go_error option"
  wb_write :: "string \<Rightarrow> go_error option"
  wb_reload :: "go_error option"
  wb_upgrade :: "go_error option"
  wb_marshal :: "response \<Rightarrow> string option"
  wb_asset :: "string \<Rightarrow> bool"
  wb_index :: bool

record web_server =
  sv_executor :: executor
  sv_authToken :: string
  sv_allowedOrigins :: "string list"
  sv_hub :: "string hub"

definition NewWebServer :: "executor \<Rightarrow> string \<Rightarrow> string list \<Rightarrow> web_server" where
  "NewWebServer e token origins =
     \<lparr>sv_executor = e, sv_authToken = token, sv_allowedOrigins = origins, sv_hub = hub_New\<rparr>"

record web_outcome =
  oc_reply :: "web_value http_reply"
  oc_cors :: bool
  oc_server :: web_server
  oc_traces :: "turn_effect list list"
  oc_written :: "(string \<times> byte list) list"

type_synonym web_handler = "web_server \<Rightarrow> http_request \<Rightarrow> web_outcome"

definition reply_only :: "web_value http_reply \<Rightarrow> web_server \<Rightarrow> web_outcome" where
  "reply_only x s = \<lparr>oc_reply = x, oc_cors = False, oc_server = s, oc_traces = [], oc_written = []\<rparr>"

subsection \<open>Handlers\<close>

definition withCORS :: "web_handler \<Rightarrow> web_handler" where
  "withCORS handler s r =
     (if hr_Method r = ''OPTIONS'' then (reply_only (Http_empty 204) s)\<lparr>oc_cors := True\<rparr>
      else (handler s r)\<lparr>oc_cors := True\<rparr>)"

definition method_not_allowed :: "web_server \<Rightarrow> web_outcome" where
  "method_not_allowed = reply_only (Http_error 405 ''method not allowed'')"

definition handleStatus :: "web_env \<Rightarrow> web_handler" where
  "handleStatus env s r =
     (if hr_Method r \<noteq> ''GET'' then method_not_allowed s
      else reply_only (Http_json 200 (V_status (wb_uptime env) (brain_NodeCount (fst (ex_brain (sv_executor s))))
             (brain_ListNodes (ex_brain (sv_executor s))))) s)"

definition handleNodes :: "web_env \<Rightarrow> web_handler" where
  "handleNodes env s r =
     (if hr_Method r \<noteq> ''GET'' then method_not_allowed s
      else reply_only (Http_json 200 (V_nodes (brain_ListNodes (ex_brain (sv_executor s))))) s)"

definition accepted_response :: "request \<Rightarrow> response" where
  "accepted_response req =
     empty_response\<lparr>rp_Event := rq_Action req @ ''_accepted'', rp_NodeID := rq_NodeID req, rp_Status := ''accepted''\<rparr>"

definition handleExecute :: "web_env \<Rightarrow> web_handler" where
  "handleExecute env s r =
     (if hr_Method r \<noteq> ''POST'' then method_not_allowed s
      else case DecodeJSON (wb_json_request env) r of
        Inl (code, msg) \<Rightarrow> reply_only (Http_error code msg) s
      | Inr req \<Rightarrow>
          (case executor_Submit req (sv_executor s) of
             (Some err, e) \<Rightarrow>
               reply_only (Http_error (if err_is err Tg_ErrBusy \<or> err_is err Tg_ErrClosed then 503 else 400) (err_text err))
                 (s\<lparr>sv_executor := e\<rparr>)
           | (None, e) \<Rightarrow> reply_only (Http_json 202 (V_response (accepted_response req))) (s\<lparr>sv_executor := e\<rparr>)))"

text \<open>The name of the file a synthesis is written to: every run of unsafe bytes becomes one underscore.\<close>

definition safe_char :: "char \<Rightarrow> bool" where
  "safe_char c \<longleftrightarrow>
     (let n = (of_char c :: nat)
      in 65 \<le> n \<and> n \<le> 90 \<or> 97 \<le> n \<and> n \<le> 122 \<or> 48 \<le> n \<and> n \<le> 57 \<or> c = CHR ''.'' \<or> c = CHR ''_'' \<or> c = CHR ''-'')"

fun safeFilename :: "bool \<Rightarrow> string \<Rightarrow> string" where
  "safeFilename in_run [] = []"
| "safeFilename in_run (c # s) =
     (if safe_char c then c # safeFilename False s
      else if in_run then safeFilename True s else CHR ''_'' # safeFilename True s)"

definition path_Base :: "string \<Rightarrow> string" where
  "path_Base p =
     (if p = [] then ''.''
      else let q = trim_right slash p
           in if q = [] then ''/'' else rev (takeWhile (\<lambda>c. c \<noteq> slash) (rev q)))"

definition trim_set :: "char set \<Rightarrow> string \<Rightarrow> string" where
  "trim_set cs s = rev (dropWhile (\<lambda>c. c \<in> cs) (rev (dropWhile (\<lambda>c. c \<in> cs) s)))"

definition synthesis_name :: "int \<Rightarrow> string \<Rightarrow> string" where
  "synthesis_name now filename =
     (let name0 = trim_set {CHR ''.'', CHR ''_'', CHR ''-''} (safeFilename False (path_Base (trim_space filename)));
          name1 = (if name0 = [] then ''tts_'' @ show_int now else name0)
      in if has_suffix (to_lower name1) ''.wav'' then name1 else name1 @ ''.wav'')"

abbreviation ttsOutputDir :: string where "ttsOutputDir \<equiv> ''models/tts_cache''"

definition handleSynthesize :: "web_env \<Rightarrow> web_handler" where
  "handleSynthesize env s r =
     (if hr_Method r \<noteq> ''POST'' then method_not_allowed s
      else case DecodeJSON (wb_json_synthesize env) r of
        Inl (code, msg) \<Rightarrow> reply_only (Http_error code msg) s
      | Inr req \<Rightarrow>
          if is_blank (sq_Text req) \<or> MaxTextBytes < length (sq_Text req) \<or> 200 < length (sq_Filename req)
          then reply_only (Http_error 400 ''text must contain 1-4000 bytes and filename at most 200 bytes'') s
          else case brain_Synthesize (turn_env.truncate env) (sq_Text req) (sq_Priority req) of
            (Inl err, t) \<Rightarrow> (reply_only (Http_json 200 (V_synthesize (synthesize_error (err_text err)))) s)\<lparr>oc_traces := [t]\<rparr>
          | (Inr (pcm, rate), t) \<Rightarrow>
              let name = synthesis_name (wb_now env) (sq_Filename req);
                  outPath = path_Join [ttsOutputDir, name];
                  wav = EncodeWAVPCM16 pcm rate;
                  fail = (\<lambda>msg. (reply_only (Http_json 200 (V_synthesize (synthesize_error msg))) s)\<lparr>oc_traces := [t]\<rparr>)
              in case wb_mkdir env of
                   Some err \<Rightarrow> fail (''failed to create output dir: '' @ err_text err)
                 | None \<Rightarrow>
                     (case wb_write env outPath of
                        Some err \<Rightarrow> fail (''failed to write WAV: '' @ err_text err)
                      | None \<Rightarrow>
                          (reply_only (Http_json 200 (V_synthesize
                             \<lparr>sy_Status = ''success'',
                              sy_File = (case path_Abs (xe_getwd env) outPath of Inr p \<Rightarrow> p | Inl _ \<Rightarrow> outPath),
                              sy_Filename = name, sy_SampleRate = rate, sy_Samples = length pcm,
                              sy_DurationSeconds =
                                (if 0 < rate then f_div float64 (f_of_int float64 (int (length pcm))) (f_of_int float64 rate)
                                 else Fin 0),
                              sy_AudioWavBase64 = xe_base64_encode env wav, sy_ErrorMessage = []\<rparr>)) s)
                          \<lparr>oc_traces := [t], oc_written := [(outPath, wav)]\<rparr>))"

definition handleAsk :: "web_env \<Rightarrow> web_handler" where
  "handleAsk env s r =
     (if hr_Method r \<noteq> ''POST'' then method_not_allowed s
      else case DecodeJSON (wb_json_request env) r of
        Inl (code, msg) \<Rightarrow> reply_only (Http_error code msg) s
      | Inr req0 \<Rightarrow>
          let req = req0\<lparr>rq_Action := ''ask''\<rparr>
          in case req_Validate req of
               Some err \<Rightarrow> reply_only (Http_error 400 (err_text err)) s
             | None \<Rightarrow>
                 (case ask_Run (ask_env.truncate env) (ex_speaker_cfg (sv_executor s)) (ex_brain (sv_executor s)) (req_AskConfig req) of
                    (result, t) \<Rightarrow>
                      (reply_only (Http_json 200 (V_ask
                         \<lparr>wr_ContextID = rq_ContextID req, wr_NodeID = rq_NodeID req, wr_Status = ar_Status result,
                          wr_Transcription = ar_Transcription result, wr_Speaker = ar_Speaker result,
                          wr_AudioWavBase64 =
                            (if (rq_OutputFormat req = ''audio'' \<or> rq_OutputFormat req = ''both'') \<and> ar_Audio result \<noteq> []
                             then xe_base64_encode env (EncodeWAVFloat32 (ar_Audio result) (ar_SampleRate result)) else []),
                          wr_ErrorMessage = ar_ErrorMessage result\<rparr>)) s)\<lparr>oc_traces := [t]\<rparr>))"

definition handleReloadSpeakers :: "web_env \<Rightarrow> web_handler" where
  "handleReloadSpeakers env s r =
     (if hr_Method r \<noteq> ''POST'' then method_not_allowed s
      else case wb_reload env of
        Some err \<Rightarrow> reply_only (Http_json 200 (V_response
          (empty_response\<lparr>rp_Event := ''reload_speakers_failed'', rp_Status := ''error'', rp_Message := err_text err\<rparr>))) s
      | None \<Rightarrow> reply_only (Http_json 200 (V_response
          (empty_response\<lparr>rp_Event := ''reload_speakers_completed'', rp_Status := ''success''\<rparr>))) s)"

text \<open>\<open>control\<close>: the handler runs inside a slot of the executor's group, which it gives back at the end.\<close>

definition sv_tasks :: "web_server \<Rightarrow> task_group" where
  "sv_tasks s = ex_tasks (sv_executor s)"

definition set_tasks :: "task_group \<Rightarrow> web_server \<Rightarrow> web_server" where
  "set_tasks g s = s\<lparr>sv_executor := (sv_executor s)\<lparr>ex_tasks := g\<rparr>\<rparr>"

definition with_slot :: "web_handler \<Rightarrow> web_handler" where
  "with_slot handler s r =
     (case tg_Start (hr_ctx r) (sv_tasks s) of
        (Inl err, g) \<Rightarrow> reply_only (Http_error 503 (err_text err)) (set_tasks g s)
      | (Inr i, g) \<Rightarrow>
          (let x = handler (set_tasks g s) r
           in x\<lparr>oc_server := set_tasks (tg_finish i (sv_tasks (oc_server x))) (oc_server x)\<rparr>))"

definition guarded :: "web_handler \<Rightarrow> web_handler" where
  "guarded handler s r =
     RequireToken (sv_authToken s) (handler s) (\<lambda>code msg. reply_only (Http_error code msg) s) r"

definition control :: "web_handler \<Rightarrow> web_handler" where
  "control handler = withCORS (guarded (with_slot handler))"

text \<open>
  \<open>handleEvents\<close> up to its read loop: the client that was added is the last one of the hub. The loop ends
  with the first failed read, and then the client is closed. An origin that is refused is answered 403 by
  the upgrader.
\<close>

definition hub_send_to :: "(response \<Rightarrow> string option) \<Rightarrow> nat \<Rightarrow> response \<Rightarrow> string hub \<Rightarrow> string hub" where
  "hub_send_to marshal i v h = h\<lparr>hub_clients := (hub_clients h)[i := hc_Send marshal v (hub_clients h ! i)]\<rparr>"

definition hub_close_client :: "nat \<Rightarrow> string hub \<Rightarrow> string hub" where
  "hub_close_client i h = h\<lparr>hub_clients := (hub_clients h)[i := hc_Close (hub_clients h ! i)]\<rparr>"

definition ws_upgrade :: "web_env \<Rightarrow> web_server \<Rightarrow> http_request \<Rightarrow> web_value http_reply option" where
  "ws_upgrade env s r =
     (if \<not> OriginChecker (wb_net env) (sv_allowedOrigins s) r
      then Some (Http_error 403 ''websocket: request origin not allowed by Upgrader.CheckOrigin'')
      else map_option (\<lambda>e. Http_error 400 (err_text e)) (wb_upgrade env))"

definition handleEvents :: "web_env \<Rightarrow> web_handler" where
  "handleEvents env s r =
     (if \<not> TokenValid r (sv_authToken s) then reply_only (Http_error 401 ''unauthorized'') s
      else case ws_upgrade env s r of
        Some rejected \<Rightarrow> reply_only rejected s
      | None \<Rightarrow>
          (case hub_Add (sv_hub s) of
             (None, h) \<Rightarrow> reply_only Http_socket (s\<lparr>sv_hub := h\<rparr>)
           | (Some i, h) \<Rightarrow>
               reply_only Http_socket (s\<lparr>sv_hub := hub_send_to (wb_marshal env) i
                 (empty_response\<lparr>rp_Event := ''status'', rp_Status := ''running''\<rparr>) h\<rparr>)))"

text \<open>The single-page application: a file of the build, or its index.\<close>

definition handleStatic :: "web_env \<Rightarrow> web_handler" where
  "handleStatic env s r =
     (let p = (if has_prefix (hr_Path r) ''/'' then drop 1 (hr_Path r) else hr_Path r);
          file = (if p = [] then ''index.html'' else p)
      in if wb_asset env file then reply_only (Http_file (hr_Path r)) s
         else if wb_index env then reply_only (Http_file ''/index.html'') s
         else reply_only (Http_error 500 ''index.html not found'') s)"

definition web_serve :: "web_env \<Rightarrow> web_handler" where
  "web_serve env s r =
     (let path = hr_Path r in
      if path = ''/api/status'' then withCORS (handleStatus env) s r
      else if path = ''/api/nodes'' then withCORS (handleNodes env) s r
      else if path = ''/api/execute'' then withCORS (guarded (handleExecute env)) s r
      else if path = ''/api/synthesize'' then control (handleSynthesize env) s r
      else if path = ''/api/ask'' \<or> path = ''/ask'' then control (handleAsk env) s r
      else if path = ''/api/reload-speakers'' then control (handleReloadSpeakers env) s r
      else if path = ''/api/events'' then handleEvents env s r
      else handleStatic env s r)"

definition web_Shutdown :: "web_server \<Rightarrow> web_server" where
  "web_Shutdown s = s\<lparr>sv_hub := hub_Close (sv_hub s)\<rparr>"

definition web_Publish :: "web_env \<Rightarrow> response \<Rightarrow> web_server \<Rightarrow> web_server" where
  "web_Publish env event s = s\<lparr>sv_hub := hub_Publish (wb_marshal env) event (sv_hub s)\<rparr>"

subsection \<open>The WebSocket command server\<close>

text \<open>One message of a connection: what \<open>json.Unmarshal\<close> made of it, the reply, the executor after it.\<close>

definition ws_message :: "request option \<Rightarrow> executor \<Rightarrow> response \<times> executor" where
  "ws_message message e =
     (case message of
        None \<Rightarrow> (empty_response\<lparr>rp_Event := ''error'', rp_Status := ''error'', rp_Message := ''invalid JSON payload''\<rparr>, e)
      | Some req \<Rightarrow>
          (case executor_Submit req e of
             (Some err, e') \<Rightarrow> (empty_response\<lparr>rp_Event := ''error'', rp_NodeID := rq_NodeID req, rp_Status := ''error'',
                                  rp_Message := err_text err\<rparr>, e')
           | (None, e') \<Rightarrow> (accepted_response req, e')))"

text \<open>The read loop over the messages of a connection, whose client has index \<open>i\<close>, until a read fails.\<close>

fun ws_messages :: "web_env \<Rightarrow> nat \<Rightarrow> request option list \<Rightarrow> web_server \<Rightarrow> web_server" where
  "ws_messages env i [] s = s\<lparr>sv_hub := hub_close_client i (sv_hub s)\<rparr>"
| "ws_messages env i (m # ms) s =
     (case ws_message m (sv_executor s) of
        (v, e) \<Rightarrow> ws_messages env i ms (s\<lparr>sv_executor := e, sv_hub := hub_send_to (wb_marshal env) i v (sv_hub s)\<rparr>))"

definition handleConnection :: "web_env \<Rightarrow> request option list \<Rightarrow> web_handler" where
  "handleConnection env messages s r =
     (if \<not> TokenValid r (sv_authToken s) then reply_only (Http_error 401 ''unauthorized'') s
      else case ws_upgrade env s r of
        Some rejected \<Rightarrow> reply_only rejected s
      | None \<Rightarrow>
          (case hub_Add (sv_hub s) of
             (None, h) \<Rightarrow> reply_only Http_socket (s\<lparr>sv_hub := h\<rparr>)
           | (Some i, h) \<Rightarrow> reply_only Http_socket (ws_messages env i messages (s\<lparr>sv_hub := h\<rparr>))))"

subsection \<open>Properties\<close>

lemma guarded_rejects:
  assumes "sv_authToken s \<noteq> []" and "Token r \<noteq> sv_authToken s"
  shows "guarded handler s r = reply_only (Http_error 401 ''unauthorized'') s" and "\<not> TokenValid r (sv_authToken s)"
  using assms by (auto simp: guarded_def RequireToken_def TokenValid_def ConstantTimeCompare_eq Let_def)

definition untouched :: "web_server \<Rightarrow> web_outcome \<Rightarrow> bool" where
  "untouched s x \<longleftrightarrow> oc_server x = s \<and> oc_traces x = [] \<and> oc_written x = []"

lemma untouched_reply [simp]: "untouched s (reply_only x s)"
  by (simp add: untouched_def reply_only_def)

lemma untouched_CORS: "untouched s (handler s r) \<Longrightarrow> untouched s (withCORS handler s r)"
  by (simp add: withCORS_def untouched_def reply_only_def)

text \<open>C16: When a token is configured, a request that does not carry it changes nothing, drives no node and writes no
  file, whatever its route, method and body; on the control routes and the two sockets it is answered 401 (or 204
  to a preflight).\<close>

theorem unauthenticated_is_inert:
  assumes "sv_authToken s \<noteq> []" and "Token r \<noteq> sv_authToken s"
  shows "untouched s (web_serve env s r) \<and> untouched s (handleConnection env messages s r) \<and>
    oc_reply (handleConnection env messages s r) = Http_error 401 ''unauthorized'' \<and>
    (hr_Path r \<in> {''/api/execute'', ''/api/synthesize'', ''/api/ask'', ''/ask'', ''/api/reload-speakers'', ''/api/events''} \<longrightarrow>
       oc_reply (web_serve env s r) \<in> {Http_error 401 ''unauthorized'', Http_empty 204})"
proof (intro conjI impI)
  note reject = guarded_rejects [OF assms]
  have cors: "untouched s (withCORS (guarded handler) s r)" for handler
    by (rule untouched_CORS) (simp add: reject(1))
  have open': "untouched s (withCORS (handleStatus env) s r)" "untouched s (withCORS (handleNodes env) s r)"
    by (auto intro!: untouched_CORS simp: handleStatus_def handleNodes_def method_not_allowed_def)
  have static: "untouched s (handleStatic env s r)" by (simp add: handleStatic_def Let_def)
  have events: "handleEvents env s r = reply_only (Http_error 401 ''unauthorized'') s"
    using reject(2) by (simp add: handleEvents_def)
  show "untouched s (web_serve env s r)"
    unfolding web_serve_def Let_def control_def using cors open' static by (simp add: events)
  have reply: "oc_reply (withCORS (guarded handler) s r) \<in> {Http_error 401 ''unauthorized'', Http_empty 204}" for handler
    by (simp add: withCORS_def reject(1) reply_only_def)
  show "oc_reply (web_serve env s r) \<in> {Http_error 401 ''unauthorized'', Http_empty 204}"
    if "hr_Path r \<in> {''/api/execute'', ''/api/synthesize'', ''/api/ask'', ''/ask'', ''/api/reload-speakers'', ''/api/events''}"
    using that reply unfolding web_serve_def Let_def control_def
    by (auto simp: events reply_only_def)
qed (use guarded_rejects(2) [OF assms] in \<open>simp_all add: handleConnection_def reply_only_def untouched_def\<close>)

definition sample_server :: web_server where
  "sample_server = NewWebServer sample_executor ''secret'' []"

theorem unauthenticated_is_inert_witness:
  "\<forall>env. untouched sample_server (web_serve env sample_server (sample_request ''https://evil.example''))"
proof -
  have "sv_authToken sample_server \<noteq> []" "Token (sample_request ''https://evil.example'') \<noteq> sv_authToken sample_server"
    by (simp_all add: sample_server_def NewWebServer_def Token_def sample_request_def Let_def)
  from unauthenticated_is_inert [OF this] show ?thesis by blast
qed

subsection \<open>Where synthesised audio is written\<close>

lemma safe_chars [simp]:
  "safe_char (CHR ''_'')" "safe_char (CHR ''-'')" "safe_char (CHR ''.'')" "safe_char (CHR ''t'')" "safe_char (CHR ''s'')"
  "safe_char (CHR ''w'')" "safe_char (CHR ''a'')" "safe_char (CHR ''v'')" "\<not> safe_char slash"
  by (simp_all add: safe_char_def Let_def)

lemma safeFilename_safe: "\<forall>c \<in> set (safeFilename b s). safe_char c"
proof (induction s arbitrary: b)
  case (Cons a s)
  then show ?case by (cases "safe_char a"; cases b) simp_all
qed simp

lemma show_nat_safe: "\<forall>c \<in> set (show_nat n). safe_char c"
proof (induction n rule: show_nat.induct)
  case (1 n)
  have digit: "safe_char (char_of (48 + k))" if "k < 10" for k :: nat
    using that by (simp add: safe_char_def Let_def)
  show ?case
  proof (cases "n < 10")
    case True
    then show ?thesis using digit [of n] by (subst show_nat.simps) simp
  next
    case False
    then show ?thesis using 1 [OF False] digit [of "n mod 10"] by (subst show_nat.simps) simp
  qed
qed

lemma show_int_safe: "\<forall>c \<in> set (show_int i). safe_char c"
  using show_nat_safe by (simp add: show_int_def)

lemma trim_set_subset: "set (trim_set cs s) \<subseteq> set s"
  by (auto simp: trim_set_def dest!: set_dropWhileD)

lemma wav_named:
  assumes "\<forall>c \<in> set n. safe_char c"
  defines "m \<equiv> if has_suffix (to_lower n) ''.wav'' then n else n @ ''.wav''"
  shows "(\<forall>c \<in> set m. safe_char c) \<and> has_suffix (to_lower m) ''.wav''"
proof (cases "has_suffix (to_lower n) ''.wav''")
  case True
  then show ?thesis using assms by simp
next
  case False
  have "\<forall>c \<in> set ''.wav''. safe_char c" by simp
  moreover have "has_suffix (to_lower (n @ ''.wav'')) ''.wav''"
    by (simp add: has_suffix_def has_prefix_def to_lower_def lower_char_def Let_def)
  moreover have "m = n @ ''.wav''" using False by (simp add: m_def)
  ultimately show ?thesis using assms(1) by (metis UnE set_append)
qed

lemma synthesis_name_safe:
  "(\<forall>c \<in> set (synthesis_name now f). safe_char c) \<and> has_suffix (to_lower (synthesis_name now f)) ''.wav''"
proof -
  let ?n0 = "trim_set {CHR ''.'', CHR ''_'', CHR ''-''} (safeFilename False (path_Base (trim_space f)))"
  let ?n1 = "if ?n0 = [] then ''tts_'' @ show_int now else ?n0"
  have "\<forall>c \<in> set ?n0. safe_char c" using trim_set_subset safeFilename_safe by blast
  moreover have "\<forall>c \<in> set (''tts_'' @ show_int now). safe_char c"
    using show_int_safe [of now] by simp
  ultimately have "\<forall>c \<in> set ?n1. safe_char c" by (cases "?n0 = []") simp_all
  from wav_named [OF this] show ?thesis unfolding synthesis_name_def Let_def .
qed

lemma safe_comp:
  assumes "\<forall>c \<in> set name. safe_char c" and "has_suffix (to_lower name) ''.wav''"
  shows "comp_ok name \<and> name \<noteq> ''..'' \<and> name \<noteq> []"
proof -
  have "slash \<notin> set name" using assms(1) safe_chars(9) by blast
  moreover have "name \<noteq> []" "name \<noteq> ''.''" "name \<noteq> ''..''"
    using assms(2) by (auto simp: has_suffix_def has_prefix_def to_lower_def lower_char_def)
  ultimately show ?thesis by (simp add: comp_ok_def)
qed

lemma Join_below_cache:
  assumes "comp_ok name" and "name \<noteq> ''..''"
  shows "path_Join [ttsOutputDir, name] = ''models/tts_cache/'' @ name"
proof -
  have ne: "name \<noteq> []" "slash \<notin> set name" using assms(1) by (auto simp: comp_ok_def)
  have dir: "ttsOutputDir @ slash # name = ''models'' @ slash # ''tts_cache'' @ slash # name" by simp
  have sp: "split_on slash (ttsOutputDir @ slash # name) = [''models'', ''tts_cache'', name]"
    unfolding dir using ne by (subst split_on_append, simp, subst split_on_append, simp, subst split_on_no, simp, simp)
  have "clean_comps False [] [''models'', ''tts_cache'', name] = [''models'', ''tts_cache'', name]"
    using clean_comps_id [of "[''models'', ''tts_cache'', name]" False "[]"] assms by (simp add: comp_ok_def)
  then have "path_Clean (ttsOutputDir @ slash # name) = ''models/tts_cache/'' @ name"
    unfolding path_Clean_def path_comps_def sp by (simp add: path_IsAbs_def has_prefix_def path_of_def)
  then show ?thesis using ne by (simp add: path_Join_def)
qed

lemma written_nothing [simp]: "oc_written (reply_only x s) = []"
  by (simp add: reply_only_def)

lemma written_CORS: "p \<in> set (oc_written (withCORS handler s r)) \<Longrightarrow> p \<in> set (oc_written (handler s r))"
  by (auto simp: withCORS_def split: if_splits)

lemma written_guarded: "p \<in> set (oc_written (guarded handler s r)) \<Longrightarrow> p \<in> set (oc_written (handler s r))"
  by (auto simp: guarded_def RequireToken_def split: if_splits)

lemma written_with_slot:
  "p \<in> set (oc_written (with_slot handler s r)) \<Longrightarrow> \<exists>s'. p \<in> set (oc_written (handler s' r))"
  by (auto simp: with_slot_def Let_def split: prod.splits sum.splits)

lemma written_control: "p \<in> set (oc_written (control handler s r)) \<Longrightarrow> \<exists>s'. p \<in> set (oc_written (handler s' r))"
  unfolding control_def using written_CORS written_guarded written_with_slot by metis

lemma written_synthesize:
  assumes "p \<in> set (oc_written (handleSynthesize env s r))"
  shows "\<exists>f. fst p = path_Join [ttsOutputDir, synthesis_name (wb_now env) f]"
  using assms
  by (auto simp: handleSynthesize_def method_not_allowed_def Let_def split: if_splits sum.splits prod.splits option.splits)

lemma serve_writes:
  assumes "p \<in> set (oc_written (web_serve env s r))"
  shows "\<exists>f. fst p = path_Join [ttsOutputDir, synthesis_name (wb_now env) f]"
proof -
  have none: "oc_written (handleAsk env s' r') = []" "oc_written (handleReloadSpeakers env s' r') = []"
    "oc_written (handleExecute env s' r') = []" "oc_written (handleStatus env s' r') = []"
    "oc_written (handleNodes env s' r') = []" "oc_written (handleEvents env s' r') = []"
    "oc_written (handleStatic env s' r') = []" for s' r'
    by (auto simp: handleAsk_def handleReloadSpeakers_def handleExecute_def handleStatus_def handleNodes_def
        handleEvents_def handleStatic_def method_not_allowed_def Let_def split: sum.splits prod.splits option.splits)
  have "\<exists>s'. p \<in> set (oc_written (handleSynthesize env s' r))"
    using assms unfolding web_serve_def Let_def
    by (auto simp: none split: if_splits dest!: written_control written_CORS written_guarded)
  then show ?thesis using written_synthesize by blast
qed

text \<open>No request makes the server write anywhere but in its cache directory: every file written is directly in
  \<open>models/tts_cache\<close>, under a name of letters, digits, dots, underscores and dashes that ends in \<open>.wav\<close>,
  whatever name the client asked for.\<close>

theorem synthesis_confined:
  assumes "p \<in> set (oc_written (web_serve env s r))"
  shows "\<exists>name. fst p = ''models/tts_cache/'' @ name \<and> (\<forall>c \<in> set name. safe_char c) \<and>
    name \<noteq> [] \<and> name \<noteq> ''..'' \<and> has_suffix (to_lower name) ''.wav''"
proof -
  obtain f where f: "fst p = path_Join [ttsOutputDir, synthesis_name (wb_now env) f]"
    using serve_writes [OF assms] by blast
  note safe = synthesis_name_safe [of "wb_now env" f]
  have comp: "comp_ok (synthesis_name (wb_now env) f)" "synthesis_name (wb_now env) f \<noteq> ''..''"
    "synthesis_name (wb_now env) f \<noteq> []"
    using safe_comp [of "synthesis_name (wb_now env) f"] safe by auto
  show ?thesis using f safe comp Join_below_cache [OF comp(1,2)] by auto
qed

text \<open>The name of a file that tries to leave the directory.\<close>

lemma sample_name: "synthesis_name 0 ''../../etc/passwd'' = ''passwd.wav''"
  by code_simp

text \<open>A server without token whose decoder reads any body as one fixed synthesis request.\<close>

definition sample_web_env :: web_env where
  "sample_web_env = exec_env.extend sample_exec_env
     \<lparr>wb_net = sample_net, wb_uptime = Fin 0, wb_now = 7,
      wb_json_request = \<lparr>js_decode = (\<lambda>rd. Inr (sample_tts, rd)), js_any = (\<lambda>rd. Inl Io_EOF)\<rparr>,
      wb_json_synthesize = \<lparr>js_decode = (\<lambda>rd. Inr (\<lparr>sq_Text = ''hi'', sq_Filename = ''../../etc/passwd'', sq_Priority = 0\<rparr>, rd)),
                            js_any = (\<lambda>rd. Inl Io_EOF)\<rparr>,
      wb_mkdir = None, wb_write = (\<lambda>_. None), wb_reload = None, wb_upgrade = None, wb_marshal = (\<lambda>_. Some []),
      wb_asset = (\<lambda>_. False), wb_index = False\<rparr>"

definition sample_post :: "string \<Rightarrow> http_request" where
  "sample_post path = (sample_request [])\<lparr>hr_Method := ''POST'', hr_Path := path\<rparr>"

lemma hi_not_blank: "\<not> is_blank ''hi''"
  by (rule not_blank, rule list.set_intros(1)) (simp add: utf8_spaces_def)

lemma sample_synthesis:
  "oc_written (handleSynthesize sample_web_env s (sample_post path)) =
     [(path_Join [ttsOutputDir, ''passwd.wav''], EncodeWAVPCM16 [] 24000)]"
proof -
  have d: "DecodeJSON (wb_json_synthesize sample_web_env) (sample_post path) =
      Inr \<lparr>sq_Text = ''hi'', sq_Filename = ''../../etc/passwd'', sq_Priority = 0\<rparr>"
    by (simp add: DecodeJSON_def json_single_def sample_web_env_def exec_env.defs)
  have synth: "brain_Synthesize (turn_env.truncate sample_web_env) ''hi'' 0 = (Inr ([], 24000), [Ef_synthesize ''hi'' 0])"
    using hi_not_blank
    by (simp add: brain_Synthesize_def sample_web_env_def sample_exec_env_def sample_ask_env_def sample_env_def
        exec_env.defs ask_env.defs turn_env.defs)
  have n: "synthesis_name (wb_now sample_web_env) ''../../etc/passwd'' = ''passwd.wav''" by code_simp
  have f: "wb_mkdir sample_web_env = None" "wb_write sample_web_env q = None" for q
    by (simp_all add: sample_web_env_def exec_env.defs)
  show ?thesis using hi_not_blank d synth n f
    by (simp add: handleSynthesize_def sample_post_def Let_def)
qed

theorem synthesis_confined_witness:
  "\<exists>p name. p \<in> set (oc_written (web_serve sample_web_env (NewWebServer sample_executor [] []) (sample_post ''/api/synthesize''))) \<and>
     fst p = ''models/tts_cache/'' @ name"
proof -
  let ?s = "NewWebServer sample_executor [] []" and ?r = "sample_post ''/api/synthesize''"
  let ?h = "handleSynthesize sample_web_env"
  have p: "hr_Path ?r = ''/api/synthesize''" "hr_Method ?r \<noteq> ''OPTIONS''" "hr_ctx ?r = None"
    by (simp_all add: sample_post_def sample_request_def)
  obtain i g where t: "tg_Start None (sv_tasks ?s) = (Inr i, g)"
    by (simp add: sv_tasks_def NewWebServer_def sample_executor_def NewExecutor_def tg_New_def tg_Start_def)
  have "oc_written (web_serve sample_web_env ?s ?r) = oc_written (?h (set_tasks g ?s) ?r)"
    using p t by (simp add: web_serve_def control_def withCORS_def guarded_def RequireToken_def TokenValid_def
        NewWebServer_def with_slot_def Let_def)
  then have "(path_Join [ttsOutputDir, ''passwd.wav''], EncodeWAVPCM16 [] 24000) \<in> set (oc_written (web_serve sample_web_env ?s ?r))"
    by (simp add: sample_synthesis)
  from this synthesis_confined [OF this] show ?thesis by (metis fst_conv)
qed

subsection \<open>Slots\<close>

lemma tg_slot_returned:
  assumes "tg_Start p g = (Inr i, g')"
  shows "tg_active (tg_finish i g') = tg_active g \<and> tg_wg (tg_finish i g') = tg_wg g \<and> tg_active g < tg_limit g"
  using assms
  by (auto simp: tg_Start_def tg_finish_def tg_finish_release_def tg_finish_done_def split: if_splits option.splits)

lemma reply_server [simp]: "oc_server (reply_only x s) = s"
  by (simp add: reply_only_def)

lemma handlers_keep_server:
  "oc_server (handleSynthesize env s r) = s" "oc_server (handleAsk env s r) = s"
  "oc_server (handleReloadSpeakers env s r) = s"
  by (auto simp: handleSynthesize_def handleAsk_def handleReloadSpeakers_def method_not_allowed_def Let_def
      split: sum.splits prod.splits option.splits)

lemma sv_tasks_set [simp]: "sv_tasks (set_tasks g s) = g"
  by (simp add: sv_tasks_def set_tasks_def)

lemma control_slot:
  assumes "\<And>s. oc_server (handler s r) = s"
  shows "tg_active (sv_tasks (oc_server (control handler s r))) = tg_active (sv_tasks s)"
proof -
  have "tg_active (sv_tasks (oc_server (with_slot handler s r))) = tg_active (sv_tasks s)"
  proof (cases "tg_Start (hr_ctx r) (sv_tasks s)")
    case (Pair x g)
    then show ?thesis
      using tg_slot_returned [of "hr_ctx r" "sv_tasks s" _ g] tg_Start_refused [of "hr_ctx r" "sv_tasks s" _ g] assms
      by (cases x) (simp_all add: with_slot_def Let_def)
  qed
  then show ?thesis by (simp add: control_def withCORS_def guarded_def RequireToken_def)
qed

text \<open>A synchronous control request holds one of the executor's slots while it runs and always gives it back: the
  number of running tasks after it is the number before it, and with no slot free it is answered 503 and does
  nothing.\<close>

theorem control_request_slot:
  assumes "hr_Path r \<in> {''/api/synthesize'', ''/api/ask'', ''/ask'', ''/api/reload-speakers''}"
  shows "tg_active (sv_tasks (oc_server (web_serve env s r))) = tg_active (sv_tasks s) \<and>
    (if tg_limit (sv_tasks s) \<le> tg_active (sv_tasks s)
     then oc_traces (web_serve env s r) = [] \<and> oc_written (web_serve env s r) = [] \<and>
       oc_reply (web_serve env s r) \<in> {Http_empty 204, Http_error 401 ''unauthorized''} \<union> {Http_error 503 m | m. True}
     else True)"
proof -
  obtain handler where h: "web_serve env s r = control handler s r" "\<And>s. oc_server (handler s r) = s"
    using assms handlers_keep_server by (auto simp: web_serve_def Let_def)
  have "oc_traces (control handler s r) = [] \<and> oc_written (control handler s r) = [] \<and>
       oc_reply (control handler s r) \<in> {Http_empty 204, Http_error 401 ''unauthorized''} \<union> {Http_error 503 m | m. True}"
    if "tg_limit (sv_tasks s) \<le> tg_active (sv_tasks s)"
  proof -
    have "\<exists>e. tg_Start (hr_ctx r) (sv_tasks s) = (Inl e, sv_tasks s)"
      using that by (cases "hr_ctx r") (auto simp: tg_Start_def)
    then obtain e where "tg_Start (hr_ctx r) (sv_tasks s) = (Inl e, sv_tasks s)" ..
    then show ?thesis
      by (simp add: control_def withCORS_def guarded_def RequireToken_def with_slot_def reply_only_def)
  qed
  then show ?thesis using control_slot [of handler r s] h by simp
qed

theorem control_request_slot_witness:
  "\<forall>env. tg_active (sv_tasks (oc_server (web_serve env sample_server (sample_post ''/ask'')))) = 0"
proof
  fix env
  have "hr_Path (sample_post ''/ask'') = ''/ask''" by (simp add: sample_post_def)
  then show "tg_active (sv_tasks (oc_server (web_serve env sample_server (sample_post ''/ask'')))) = 0"
    using control_request_slot [of "sample_post ''/ask''" env sample_server]
    by (simp add: sample_server_def NewWebServer_def sv_tasks_def sample_executor_def NewExecutor_def tg_New_def)
qed

end
