(* ===== verification/Server_Life.thy ===== *)
theory Server_Life
  imports Hub
begin

text \<open>
  Start and shutdown of the two servers (internal/server/websocket.go, internal/webserver/webserver.go), which do the same:
  \<open>Start\<close> makes an \<open>http.Server\<close>, registers it under a mutex and listens; \<open>Shutdown\<close> closes the hub and then shuts the
  registered server down. \<open>http.Server\<close> is its documented contract: once shut down it refuses to listen and serves no more.
\<close>

datatype http_server = Hs_made | Hs_serving | Hs_shut

text \<open>\<open>lf_shut\<close> and \<open>lf_early\<close> record that \<open>Shutdown\<close> returned, and that it found no server.\<close>

record 'm server_life =
  lf_httpSrv :: "http_server option"
  lf_hub :: "'m hub"
  lf_shut :: bool
  lf_early :: bool

definition life_New :: "'m server_life" where
  "life_New = \<lparr>lf_httpSrv = None, lf_hub = hub_New, lf_shut = False, lf_early = False\<rparr>"

definition start_registers :: "'m server_life \<Rightarrow> 'm server_life" where
  "start_registers s = s\<lparr>lf_httpSrv := Some Hs_made\<rparr>"

text \<open>\<open>ListenAndServe\<close>: its error when it returns at once, or the serving state.\<close>

definition start_listens :: "go_error option \<Rightarrow> 'm server_life \<Rightarrow> go_error option \<times> 'm server_life" where
  "start_listens listen s =
     (if lf_httpSrv s = Some Hs_shut then (Some (Msg ''http: Server closed''), s)
      else case listen of Some e \<Rightarrow> (Some e, s) | None \<Rightarrow> (None, s\<lparr>lf_httpSrv := Some Hs_serving\<rparr>))"

definition server_Shutdown :: "'m server_life \<Rightarrow> 'm server_life" where
  "server_Shutdown s =
     (let s1 = s\<lparr>lf_hub := hub_Close (lf_hub s), lf_shut := True\<rparr>
      in case lf_httpSrv s1 of
           None \<Rightarrow> s1\<lparr>lf_early := True\<rparr>
         | Some _ \<Rightarrow> s1\<lparr>lf_httpSrv := Some Hs_shut\<rparr>)"

text \<open>One goroutine calls \<open>Start\<close>, once; connections come and go in the hub.\<close>

inductive life_step :: "'m server_life \<Rightarrow> 'm server_life \<Rightarrow> bool" where
  life_registers: "lf_httpSrv s = None \<Longrightarrow> life_step s (start_registers s)"
| life_listens: "lf_httpSrv s = Some Hs_made \<Longrightarrow> life_step s (snd (start_listens listen s))"
| life_shutdown: "life_step s (server_Shutdown s)"
| life_hub: "hub_step (lf_hub s) h \<Longrightarrow> life_step s (s\<lparr>lf_hub := h\<rparr>)"

inductive_cases life_stepE: "life_step s t"

definition life_inv :: "'m server_life \<Rightarrow> bool" where
  "life_inv s \<longleftrightarrow> (lf_shut s \<longrightarrow> hub_closed (lf_hub s) \<and> (\<not> lf_early s \<longrightarrow> lf_httpSrv s = Some Hs_shut)) \<and> hub_inv (lf_hub s)"

lemma hub_step_closed: "hub_step h h' \<Longrightarrow> hub_closed h \<Longrightarrow> hub_closed h'"
  by (induction rule: hub_step.induct) (auto simp: hub_Add_def hub_Publish_def hub_Close_def hub_unlist_def split: option.splits if_splits)

lemma hub_Close_closed [simp]: "hub_closed (hub_Close h)"
  by (simp add: hub_Close_def)

lemma life_step_inv: "life_inv s \<Longrightarrow> life_step s t \<Longrightarrow> life_inv t"
proof (erule life_stepE, goal_cases)
  case 3
  then show ?case by (cases "lf_httpSrv s") (auto simp: life_inv_def server_Shutdown_def hub_Close_inv)
next
  case (4 h)
  then show ?case by (auto simp: life_inv_def hub_step_closed intro: hub_machine.inv_step)
qed (auto simp: life_inv_def start_registers_def start_listens_def split: option.splits if_splits)

interpretation life_machine: machine "\<lambda>s. s = life_New" life_step life_inv
proof
  show "life_inv s" if "s = life_New" for s :: "'a server_life"
    using hub_machine.inv_init [OF refl] by (simp add: that life_New_def life_inv_def)
qed (rule life_step_inv)

text \<open>
  After \<open>Shutdown\<close> has returned no socket is accepted any more; and unless it ran before \<open>Start\<close> had registered its
  server, nothing is served and a \<open>Start\<close> that is on its way fails.
\<close>

theorem shutdown_is_final:
  assumes "reach (\<lambda>s. s = life_New) life_step s" and "lf_shut s"
  shows "hub_Add (lf_hub s) = (None, lf_hub s) \<and>
    (\<not> lf_early s \<longrightarrow> lf_httpSrv s = Some Hs_shut \<and> start_listens listen s = (Some (Msg ''http: Server closed''), s))"
  using life_machine.reach_inv [OF assms(1)] assms(2) by (simp add: life_inv_def hub_Add_def start_listens_def)

text \<open>A \<open>Shutdown\<close> that comes first finds nothing, and the server starts afterwards.\<close>

lemma early_shutdown_serves:
  "\<exists>s :: unit server_life. reach (\<lambda>s. s = life_New) life_step s \<and> lf_shut s \<and> lf_httpSrv s = Some Hs_serving"
proof -
  let ?s = "start_registers (server_Shutdown life_New) :: unit server_life"
  have "reach (\<lambda>s. s = life_New) life_step (life_New :: unit server_life)" by (rule reach_init) simp
  then have "reach (\<lambda>s. s = life_New) life_step (server_Shutdown life_New :: unit server_life)"
    by (rule reach_step) (rule life_shutdown)
  then have "reach (\<lambda>s. s = life_New) life_step ?s"
    by (rule reach_step) (rule life_registers, simp add: server_Shutdown_def life_New_def)
  then have "reach (\<lambda>s. s = life_New) life_step (snd (start_listens None ?s))"
    by (rule reach_step) (rule life_listens, simp add: start_registers_def)
  then show ?thesis by (intro exI [of _ "snd (start_listens None ?s)"]) (simp add: start_listens_def start_registers_def server_Shutdown_def life_New_def)
qed

end
