(* ===== verification/Jitter.thy ===== *)
theory Jitter
  imports Go_Prelude "HOL-Library.AList"
begin

text \<open>
  The reordering window in front of the audio decoder (internal/webrtc/jitter.go). Sequence numbers
  are 16-bit words, compared by serial arithmetic as the code does. The map of pending packets is an
  association list with distinct keys.
\<close>

record 'p packet_window =
  jw_initialized :: bool
  jw_next :: u16
  jw_pending :: "(u16 \<times> 'p) list"
  jw_waiting :: instant
  jw_lost :: nat
  jw_reordered :: nat
  jw_rejected :: nat

definition jw_zero :: "'p packet_window" where
  "jw_zero = \<lparr>jw_initialized = False, jw_next = 0, jw_pending = [], jw_waiting = None,
     jw_lost = 0, jw_reordered = 0, jw_rejected = 0\<rparr>"

text \<open>The distance from \<open>next\<close> to the nearest pending packet, 65535 when there is none.\<close>

definition jw_distance :: "'p packet_window \<Rightarrow> u16" where
  "jw_distance w = fold (\<lambda>(s, _) d. if s - jw_next w < d then s - jw_next w else d) (jw_pending w) 65535"

lemma fold_min_le:
  fixes d :: u16
  shows "fold (\<lambda>(s, _) d. if s - n < d then s - n else d) ps d \<le> d \<and>
    (\<forall>(s, p) \<in> set ps. fold (\<lambda>(s, _) d. if s - n < d then s - n else d) ps d \<le> s - n)"
proof (induction ps arbitrary: d)
  case (Cons x ps)
  obtain s p where x: "x = (s, p)" by (cases x)
  show ?case using Cons.IH [of "if s - n < d then s - n else d"] unfolding x
    by (auto split: if_splits)
qed simp

lemma fold_min_in:
  fixes d :: u16
  shows "fold (\<lambda>(s, _) d. if s - n < d then s - n else d) ps d \<in> insert d ((\<lambda>(s, p). s - n) ` set ps)"
proof (induction ps arbitrary: d)
  case (Cons x ps)
  obtain s p where x: "x = (s, p)" by (cases x)
  show ?case using Cons.IH [of "if s - n < d then s - n else d"] unfolding x
    by (auto split: if_splits)
qed simp

lemma jw_distance_le: "(s, p) \<in> set (jw_pending w) \<Longrightarrow> jw_distance w \<le> s - jw_next w"
  using fold_min_le [of "jw_next w" "jw_pending w" 65535] unfolding jw_distance_def by blast

lemma jw_distance_in:
  assumes "jw_pending w \<noteq> []"
  shows "\<exists>p. (jw_next w + jw_distance w, p) \<in> set (jw_pending w)"
proof -
  obtain s p ps where ps: "jw_pending w = (s, p) # ps" using assms by (cases "jw_pending w") auto
  have top: "s - jw_next w \<le> 65535" proof -
    have "(65535 :: u16) = - 1" by simp
    then show ?thesis using word_n1_ge by (simp only:)
  qed
  have "jw_distance w \<in> (\<lambda>(s, p). s - jw_next w) ` set (jw_pending w)"
  proof (cases "s - jw_next w < 65535")
    case True
    then show ?thesis using fold_min_in [of "jw_next w" ps "s - jw_next w"] ps by (auto simp: jw_distance_def)
  next
    case False
    then have "65535 = s - jw_next w" using top by simp
    then show ?thesis using fold_min_in [of "jw_next w" ps 65535] ps False by (auto simp: jw_distance_def)
  qed
  then show ?thesis by force
qed

lemma jw_jump_found:
  assumes "jw_pending w \<noteq> []"
  shows "\<exists>p. map_of (jw_pending w) (jw_next w + jw_distance w) = Some p"
proof (rule ccontr)
  assume "\<not> ?thesis"
  then have "jw_next w + jw_distance w \<notin> fst ` set (jw_pending w)" by (simp add: map_of_eq_None_iff)
  then show False using jw_distance_in [OF assms] by (metis fst_conv image_eqI)
qed

lemma length_delete_less: "map_of ps k = Some p \<Longrightarrow> length (AList.delete k ps) < length ps"
  by (induction ps) (auto simp: AList.delete_eq le_imp_less_Suc split: if_splits)

function jw_drain :: "int \<Rightarrow> bool \<Rightarrow> 'p packet_window \<Rightarrow> (u16 \<times> 'p) list \<times> 'p packet_window" where
  "jw_drain now force w =
     (if jw_pending w = [] then ([], w)
      else case map_of (jw_pending w) (jw_next w) of
        Some p \<Rightarrow>
          (let (out, w') = jw_drain now force
             (w\<lparr>jw_pending := AList.delete (jw_next w) (jw_pending w), jw_next := jw_next w + 1, jw_waiting := None\<rparr>)
           in ((jw_next w, p) # out, w'))
      | None \<Rightarrow>
          let since = (case jw_waiting w of None \<Rightarrow> now | Some t \<Rightarrow> t)
          in if \<not> force \<and> now - since < 40 * millisecond
             then ([], w\<lparr>jw_waiting := Some since\<rparr>)
             else jw_drain now False
               (w\<lparr>jw_lost := jw_lost w + unat (jw_distance w), jw_next := jw_next w + jw_distance w,
                  jw_waiting := None\<rparr>))"
  by pat_completeness auto
termination
proof (relation "measure (\<lambda>(now, force, w). 2 * length (jw_pending w) +
    (if map_of (jw_pending w) (jw_next w) = None then 1 else 0))", goal_cases)
  case (2 now force w since)
  then show ?case using jw_jump_found [OF 2(1)] by auto
next
  case (3 now force w p)
  then show ?case using length_delete_less [OF 3(2)] by auto
qed simp

declare jw_drain.simps [simp del]

definition jw_push :: "u16 \<Rightarrow> 'p \<Rightarrow> int \<Rightarrow> 'p packet_window \<Rightarrow> (u16 \<times> 'p) list \<times> 'p packet_window" where
  "jw_push s p now w0 =
     (let w = (if \<not> jw_initialized w0 then w0\<lparr>jw_initialized := True, jw_next := s, jw_pending := []\<rparr> else w0);
          delta = sint (s - jw_next w)
      in if delta < 0 \<or> map_of (jw_pending w) s \<noteq> None
         then ([], w\<lparr>jw_rejected := jw_rejected w + 1\<rparr>)
         else
           let w1 = w\<lparr>jw_reordered := jw_reordered w + (if 0 < delta then 1 else 0),
                      jw_pending := (s, p) # jw_pending w\<rparr>
           in jw_drain now (4 \<le> length (jw_pending w1)) w1)"

subsection \<open>What a run of the window releases\<close>

text \<open>
  \<open>serial_from n out\<close>: every packet of \<open>out\<close> is ahead of the one expected by less than half of the
  number space, the first expected being \<open>n\<close>; \<open>serial_end\<close> is the number expected after \<open>out\<close>, and
  \<open>serial_gaps\<close> the count of numbers skipped.
\<close>

fun serial_from :: "u16 \<Rightarrow> (u16 \<times> 'p) list \<Rightarrow> bool" where
  "serial_from n [] = True"
| "serial_from n ((s, p) # ps) = (s - n < 0x8000 \<and> serial_from (s + 1) ps)"

fun serial_end :: "u16 \<Rightarrow> (u16 \<times> 'p) list \<Rightarrow> u16" where
  "serial_end n [] = n"
| "serial_end n ((s, p) # ps) = serial_end (s + 1) ps"

fun serial_gaps :: "u16 \<Rightarrow> (u16 \<times> 'p) list \<Rightarrow> nat" where
  "serial_gaps n [] = 0"
| "serial_gaps n ((s, p) # ps) = unat (s - n) + serial_gaps (s + 1) ps"

lemma serial_append [simp]:
  "serial_from n (xs @ ys) \<longleftrightarrow> serial_from n xs \<and> serial_from (serial_end n xs) ys"
  "serial_end n (xs @ ys) = serial_end (serial_end n xs) ys"
  "serial_gaps n (xs @ ys) = serial_gaps n xs + serial_gaps (serial_end n xs) ys"
  by (induction n xs rule: serial_from.induct) auto

definition jw_ok :: "'p packet_window \<Rightarrow> bool" where
  "jw_ok w \<longleftrightarrow> distinct (map fst (jw_pending w)) \<and> (\<forall>s \<in> fst ` set (jw_pending w). s - jw_next w < 0x8000)"

lemma jw_ok_advance:
  assumes "jw_ok w" and "\<forall>s \<in> fst ` set ps. d \<le> s - jw_next w" and "set ps \<subseteq> set (jw_pending w)"
    and "s \<in> fst ` set ps"
  shows "s - (jw_next w + d) < 0x8000"
proof -
  have 1: "s - jw_next w < 0x8000" "d \<le> s - jw_next w" using assms by (auto simp: jw_ok_def)
  have "s - (jw_next w + d) = (s - jw_next w) - d" by (rule diff_diff_eq [symmetric])
  also have "\<dots> \<le> s - jw_next w" using 1(2) by (rule word_sub_le)
  finally show ?thesis using 1(1) by (rule order_le_less_trans)
qed

lemma jw_drain_jump:
  assumes "jw_pending w \<noteq> []"
    and "w' = w\<lparr>jw_lost := l, jw_next := jw_next w + jw_distance w, jw_waiting := None\<rparr>"
  obtains p where "map_of (jw_pending w') (jw_next w') = Some p"
    and "jw_ok w \<Longrightarrow> jw_ok w' \<and> jw_distance w < 0x8000"
proof -
  obtain p where p: "map_of (jw_pending w') (jw_next w') = Some p"
    using jw_jump_found [OF assms(1)] assms(2) by auto
  have "jw_ok w'" "jw_distance w < 0x8000" if ok: "jw_ok w"
  proof -
    have d: "\<forall>s \<in> fst ` set (jw_pending w). jw_distance w \<le> s - jw_next w" using jw_distance_le by force
    show "jw_ok w'" using ok jw_ok_advance [OF ok d] assms(2) by (auto simp: jw_ok_def)
    obtain q where "(jw_next w + jw_distance w, q) \<in> set (jw_pending w)" using jw_distance_in [OF assms(1)] by blast
    then have "(jw_next w + jw_distance w) - jw_next w < 0x8000" using ok by (force simp: jw_ok_def)
    then show "jw_distance w < 0x8000" by simp
  qed
  then show ?thesis using that p by blast
qed

text \<open>One drain: what comes out, in what order, and what is left.\<close>

definition jw_released :: "'p packet_window \<Rightarrow> (u16 \<times> 'p) list \<Rightarrow> 'p packet_window \<Rightarrow> bool" where
  "jw_released w out w' \<longleftrightarrow>
     jw_ok w' \<and> serial_from (jw_next w) out \<and> jw_next w' = serial_end (jw_next w) out \<and>
     jw_lost w' = jw_lost w + serial_gaps (jw_next w) out \<and>
     mset out + mset (jw_pending w') = mset (jw_pending w) \<and>
     jw_initialized w' = jw_initialized w \<and> jw_rejected w' = jw_rejected w"

lemma mset_delete:
  "distinct (map fst ps) \<Longrightarrow> map_of ps k = Some p \<Longrightarrow> add_mset (k, p) (mset (AList.delete k ps)) = mset ps"
proof (induction ps)
  case (Cons x ps)
  show ?case
  proof (cases "fst x = k")
    case True
    then have "AList.delete k ps = ps" using Cons.prems(1) by (intro delete_id) auto
    then show ?thesis using True Cons.prems(2) by (cases x) (auto simp: AList.delete_eq)
  next
    case False
    then show ?thesis using Cons by (cases x) (auto simp: AList.delete_eq)
  qed
qed simp

lemma jw_ok_take:
  assumes "jw_ok w" and "map_of (jw_pending w) (jw_next w) = Some p"
    and "w' = w\<lparr>jw_pending := AList.delete (jw_next w) (jw_pending w), jw_next := jw_next w + 1, jw_waiting := None\<rparr>"
  shows "jw_ok w'"
proof -
  let ?ps = "AList.delete (jw_next w) (jw_pending w)"
  have sub: "set ?ps \<subseteq> set (jw_pending w)" "\<forall>s \<in> fst ` set ?ps. s \<noteq> jw_next w"
    by (auto simp: AList.delete_eq)
  have "\<forall>s \<in> fst ` set ?ps. 1 \<le> s - jw_next w"
  proof
    fix s assume "s \<in> fst ` set ?ps"
    then have "s - jw_next w \<noteq> 0" using sub(2) by auto
    then show "1 \<le> s - jw_next w" by (simp add: word_le_nat_alt unat_gt_0 Suc_le_eq flip: word_neq_0_conv)
  qed
  then have "\<forall>s \<in> fst ` set ?ps. s - (jw_next w + 1) < 0x8000"
    using jw_ok_advance [OF assms(1) _ sub(1)] by blast
  then show ?thesis using assms(1,3) distinct_delete by (auto simp: jw_ok_def)
qed

lemma jw_drain_released:
  "jw_drain now force w = (out, w') \<Longrightarrow> jw_ok w \<Longrightarrow> jw_released w out w'"
proof (induction now force w arbitrary: out w' rule: jw_drain.induct)
  case (1 now force w)
  show ?case
  proof (cases "jw_pending w = []")
    case True
    then show ?thesis using 1(3,4) by (subst (asm) jw_drain.simps) (simp add: jw_released_def)
  next
    case ne: False
    show ?thesis
    proof (cases "map_of (jw_pending w) (jw_next w)")
      case (Some p)
      define v where "v = w\<lparr>jw_pending := AList.delete (jw_next w) (jw_pending w), jw_next := jw_next w + 1, jw_waiting := None\<rparr>"
      obtain out' where out': "jw_drain now force v = (out', w')" "out = (jw_next w, p) # out'"
        using 1(3) ne Some unfolding v_def by (subst (asm) jw_drain.simps) (auto split: prod.splits)
      have "jw_released v out' w'"
        using "1.IH"(2) [OF ne Some] out'(1) jw_ok_take [OF 1(4) Some v_def] unfolding v_def by blast
      then show ?thesis
        using mset_delete [OF _ Some] 1(4) by (auto simp: jw_released_def v_def out'(2) jw_ok_def)
    next
      case None
      define since where "since = (case jw_waiting w of None \<Rightarrow> now | Some t \<Rightarrow> t)"
      define v where "v = w\<lparr>jw_lost := jw_lost w + unat (jw_distance w), jw_next := jw_next w + jw_distance w, jw_waiting := None\<rparr>"
      show ?thesis
      proof (cases "\<not> force \<and> now - since < 40 * millisecond")
        case True
        then have "out = [] \<and> w' = w\<lparr>jw_waiting := Some since\<rparr>"
          using 1(3) ne None unfolding since_def by (subst (asm) jw_drain.simps) (auto simp: Let_def)
        then show ?thesis using 1(4) by (simp add: jw_released_def jw_ok_def)
      next
        case False
        then have d: "jw_drain now False v = (out, w')"
          using 1(3) ne None unfolding since_def v_def by (subst (asm) jw_drain.simps) (auto simp: Let_def)
        obtain p where p: "map_of (jw_pending v) (jw_next v) = Some p" and
          ok: "jw_ok v" "jw_distance w < 0x8000"
          using jw_drain_jump [OF ne v_def] 1(4) by metis
        have rel: "jw_released v out w'"
          using "1.IH"(1) [OF ne None since_def] False d ok(1) unfolding v_def by blast
        have "jw_pending v \<noteq> []" using ne by (simp add: v_def)
        then obtain out' where "out = (jw_next v, p) # out'"
          using d p by (subst (asm) jw_drain.simps) (auto split: prod.splits)
        then show ?thesis using rel ok(2) by (auto simp: jw_released_def v_def)
      qed
    qed
  qed
qed

lemma jw_drain_progress:
  assumes "jw_pending w \<noteq> []" and "force \<or> map_of (jw_pending w) (jw_next w) \<noteq> None"
  shows "fst (jw_drain now force w) \<noteq> []"
proof (cases "map_of (jw_pending w) (jw_next w)")
  case (Some p)
  then show ?thesis using assms(1) by (subst jw_drain.simps) (auto split: prod.splits)
next
  case None
  let ?v = "w\<lparr>jw_lost := jw_lost w + unat (jw_distance w), jw_next := jw_next w + jw_distance w, jw_waiting := None\<rparr>"
  obtain p where p: "map_of (jw_pending ?v) (jw_next ?v) = Some p" using jw_jump_found [OF assms(1)] by auto
  have "jw_drain now force w = jw_drain now False ?v"
    using assms None by (subst jw_drain.simps) (auto simp: Let_def)
  moreover have "fst (jw_drain now False ?v) \<noteq> []"
    using assms(1) p by (subst jw_drain.simps) (auto split: prod.splits)
  ultimately show ?thesis by simp
qed

subsection \<open>Runs\<close>

datatype 'p jw_event = Jw_push u16 'p int | Jw_drain int bool

fun jw_handle :: "'p jw_event \<Rightarrow> 'p packet_window \<Rightarrow> (u16 \<times> 'p) list \<times> 'p packet_window" where
  "jw_handle (Jw_push s p now) w = jw_push s p now w"
| "jw_handle (Jw_drain now force) w = jw_drain now force w"

fun jw_run :: "'p jw_event list \<Rightarrow> 'p packet_window \<Rightarrow> (u16 \<times> 'p) list \<times> 'p packet_window" where
  "jw_run [] w = ([], w)"
| "jw_run (e # es) w =
     (let (out, w1) = jw_handle e w; (out', w2) = jw_run es w1 in (out @ out', w2))"

fun jw_pushed :: "'p jw_event list \<Rightarrow> (u16 \<times> 'p) list" where
  "jw_pushed [] = []"
| "jw_pushed (Jw_push s p now # es) = (s, p) # jw_pushed es"
| "jw_pushed (Jw_drain now force # es) = jw_pushed es"

definition jw_inv :: "'p packet_window \<Rightarrow> bool" where
  "jw_inv w \<longleftrightarrow> jw_ok w \<and> length (jw_pending w) \<le> 3"

text \<open>From an initialised window on, an event keeps the accounts.\<close>

definition jw_accounts :: "(u16 \<times> 'p) list \<Rightarrow> 'p packet_window \<Rightarrow> (u16 \<times> 'p) list \<Rightarrow> 'p packet_window \<Rightarrow> bool" where
  "jw_accounts pushed w out w' \<longleftrightarrow>
     jw_inv w' \<and> jw_initialized w' \<and>
     serial_from (jw_next w) out \<and> jw_next w' = serial_end (jw_next w) out \<and>
     jw_lost w' = jw_lost w + serial_gaps (jw_next w) out \<and>
     (\<exists>rejected. size rejected + jw_rejected w = jw_rejected w' \<and>
        mset pushed + mset (jw_pending w) = mset out + mset (jw_pending w') + rejected)"

lemma sint_nonneg_iff: "\<not> sint (d :: u16) < 0 \<longleftrightarrow> d < 0x8000"
proof -
  have u: "0 \<le> uint d" "uint d < 65536" using uint_lt2p [of d] by simp_all
  have "sint d < 0 \<longleftrightarrow> bit (uint d) 15" by (simp add: sint_uint signed_take_bit_negative_iff)
  also have "\<dots> \<longleftrightarrow> odd (uint d div 32768)" by (simp add: bit_iff_odd)
  also have "\<dots> \<longleftrightarrow> 32768 \<le> uint d"
  proof -
    have "uint d div 32768 = (if 32768 \<le> uint d then 1 else 0)" using u by auto
    then show ?thesis by auto
  qed
  also have "\<dots> \<longleftrightarrow> \<not> d < 0x8000" by (simp add: word_less_def not_less)
  finally show ?thesis by simp
qed

lemma jw_push_accounts:
  assumes "jw_inv w" and "jw_initialized w" and "jw_push s p now w = (out, w')"
  shows "jw_accounts [(s, p)] w out w'"
proof (cases "sint (s - jw_next w) < 0 \<or> map_of (jw_pending w) s \<noteq> None")
  case True
  then have "out = [] \<and> w' = w\<lparr>jw_rejected := jw_rejected w + 1\<rparr>"
    using assms(2,3) by (auto simp: jw_push_def Let_def)
  then show ?thesis using assms(1,2)
    by (auto simp: jw_accounts_def jw_inv_def jw_ok_def intro!: exI [of _ "{#(s, p)#}"])
next
  case False
  define w1 where "w1 = w\<lparr>jw_reordered := jw_reordered w + (if 0 < sint (s - jw_next w) then 1 else 0),
                      jw_pending := (s, p) # jw_pending w\<rparr>"
  have d: "jw_drain now (4 \<le> length (jw_pending w1)) w1 = (out, w')"
    using False assms(2,3) by (auto simp: jw_push_def w1_def Let_def)
  have "s - jw_next w < 0x8000" "s \<notin> fst ` set (jw_pending w)"
    using False sint_nonneg_iff [of "s - jw_next w"] by (auto simp: map_of_eq_None_iff)
  then have "jw_ok w1" using assms(1) by (auto simp: jw_inv_def jw_ok_def w1_def)
  from jw_drain_released [OF d this] have rel: "jw_released w1 out w'" .
  have m: "mset out + mset (jw_pending w') = add_mset (s, p) (mset (jw_pending w))"
    using rel by (simp add: jw_released_def w1_def)
  have "length (jw_pending w') \<le> 3"
  proof -
    have len: "length out + length (jw_pending w') = Suc (length (jw_pending w))"
      using arg_cong [OF m, of size] by simp
    show ?thesis
    proof (cases "4 \<le> length (jw_pending w1)")
      case True
      then have "out \<noteq> []" using jw_drain_progress [of w1 True now] d by (auto simp: w1_def)
      then show ?thesis using len assms(1) by (cases out) (auto simp: jw_inv_def)
    next
      case False
      then show ?thesis using len by (simp add: w1_def)
    qed
  qed
  then show ?thesis using rel m assms(2)
    by (auto simp: jw_accounts_def jw_released_def jw_inv_def w1_def intro!: exI [of _ "{#}"])
qed

lemma jw_drain_accounts:
  assumes "jw_inv w" and "jw_initialized w" and "jw_drain now force w = (out, w')"
  shows "jw_accounts [] w out w'"
proof -
  have rel: "jw_released w out w'" using jw_drain_released [OF assms(3)] assms(1) by (simp add: jw_inv_def)
  have m: "mset out + mset (jw_pending w') = mset (jw_pending w)" using rel by (simp add: jw_released_def)
  have "length (jw_pending w') \<le> 3" using arg_cong [OF m, of size] assms(1) by (simp add: jw_inv_def)
  then show ?thesis using rel m assms(2)
    by (auto simp: jw_accounts_def jw_released_def jw_inv_def intro!: exI [of _ "{#}"])
qed

lemma jw_run_accounts:
  "jw_inv w \<Longrightarrow> jw_initialized w \<Longrightarrow> jw_run es w = (out, w') \<Longrightarrow> jw_accounts (jw_pushed es) w out w'"
proof (induction es arbitrary: w out)
  case Nil
  then show ?case by (auto simp: jw_accounts_def)
next
  case (Cons e es)
  obtain out1 w1 out2 where e: "jw_handle e w = (out1, w1)" and r: "jw_run es w1 = (out2, w')"
    and out: "out = out1 @ out2"
    using Cons.prems(3) by (auto split: prod.splits)
  define es1 where "es1 = jw_pushed [e]"
  have 1: "jw_accounts es1 w out1 w1"
    using e jw_push_accounts [OF Cons.prems(1,2)] jw_drain_accounts [OF Cons.prems(1,2)]
    by (cases e) (auto simp: es1_def)
  have "jw_inv w1" "jw_initialized w1" using 1 by (auto simp: jw_accounts_def)
  from Cons.IH [OF this r] have 2: "jw_accounts (jw_pushed es) w1 out2 w'" .
  obtain r1 where r1: "size r1 + jw_rejected w = jw_rejected w1"
      "mset es1 + mset (jw_pending w) = mset out1 + mset (jw_pending w1) + r1"
    using 1 by (auto simp: jw_accounts_def)
  obtain r2 where r2: "size r2 + jw_rejected w1 = jw_rejected w'"
      "mset (jw_pushed es) + mset (jw_pending w1) = mset out2 + mset (jw_pending w') + r2"
    using 2 by (auto simp: jw_accounts_def)
  have p: "jw_pushed (e # es) = es1 @ jw_pushed es" by (cases e) (auto simp: es1_def)
  have "mset (jw_pushed (e # es)) + mset (jw_pending w) =
      mset (out1 @ out2) + mset (jw_pending w') + (r1 + r2)"
    using r1(2) r2(2) unfolding p by (simp add: union_ac) (metis (no_types, lifting) union_assoc union_commute)
  then have "\<exists>rejected. size rejected + jw_rejected w = jw_rejected w' \<and>
      mset (jw_pushed (e # es)) + mset (jw_pending w) = mset (out1 @ out2) + mset (jw_pending w') + rejected"
    using r1(1) r2(1) by (intro exI [of _ "r1 + r2"]) simp
  then show ?case using 1 2 unfolding out by (simp add: jw_accounts_def)
qed

text \<open>The first push initialises the window at its sequence number.\<close>

lemma jw_run_first:
  "jw_run (Jw_push s p now # es) jw_zero =
   jw_run (Jw_push s p now # es) (jw_zero\<lparr>jw_initialized := True, jw_next := s\<rparr>)"
  by (simp add: jw_push_def jw_zero_def Let_def)

text \<open>C6: Whatever packets arrive and timers fire, the window releases packets in serial order, each ahead
  of the one expected by less than half the number space; it counts exactly the numbers it skipped as
  lost, keeps at most three packets back, and every packet pushed is released once, still pending, or
  counted as rejected.\<close>

theorem jitter_window_correct:
  assumes "jw_run (Jw_push s p now # es) jw_zero = (out, w)"
  shows "serial_from s out \<and> jw_next w = serial_end s out \<and> jw_lost w = serial_gaps s out \<and>
    length (jw_pending w) \<le> 3 \<and>
    (\<exists>rejected. size rejected = jw_rejected w \<and>
       mset (jw_pushed (Jw_push s p now # es)) = mset out + mset (jw_pending w) + rejected)"
proof -
  let ?w0 = "jw_zero\<lparr>jw_initialized := True, jw_next := s\<rparr>"
  have "jw_inv ?w0" "jw_initialized ?w0" by (simp_all add: jw_inv_def jw_ok_def jw_zero_def)
  from jw_run_accounts [OF this assms [unfolded jw_run_first]] show ?thesis
    by (simp add: jw_accounts_def jw_inv_def jw_zero_def)
qed

theorem jitter_window_correct_witness:
  "jw_run [Jw_push 65535 ''a'' 0, Jw_push 1 ''c'' 1, Jw_push 0 ''b'' 2, Jw_push 65535 ''d'' 3] jw_zero =
     ([(65535, ''a''), (0, ''b''), (1, ''c'')],
      \<lparr>jw_initialized = True, jw_next = 2, jw_pending = [], jw_waiting = None,
       jw_lost = 0, jw_reordered = 1, jw_rejected = 1\<rparr>) \<and>
   serial_from 65535 [(65535 :: u16, ''a''), (0, ''b''), (1, ''c'')]"
proof -
  have r: "jw_run [Jw_push 65535 ''a'' 0, Jw_push 1 ''c'' 1, Jw_push 0 ''b'' 2, Jw_push 65535 ''d'' 3] jw_zero =
     ([(65535, ''a''), (0, ''b''), (1, ''c'')],
      \<lparr>jw_initialized = True, jw_next = 2, jw_pending = [], jw_waiting = None,
       jw_lost = 0, jw_reordered = 1, jw_rejected = 1\<rparr>)"
    by code_simp
  show ?thesis using jitter_window_correct [OF r] r by blast
qed

text \<open>In-order traffic is not delayed: with nothing pending, a packet with the expected number comes
  out of the push that brought it.\<close>

theorem jitter_in_order:
  assumes "jw_initialized w" and "jw_pending w = []" and "s = jw_next w"
  shows "jw_push s p now w = ([(s, p)], w\<lparr>jw_next := s + 1, jw_waiting := None\<rparr>)"
  using assms by (simp add: jw_push_def Let_def) (simp add: jw_drain.simps AList.delete_eq)

theorem jitter_in_order_witness:
  "fst (jw_push 7 ''a'' 0 (jw_zero\<lparr>jw_initialized := True, jw_next := 7\<rparr>)) = [(7, ''a'')]"
  using jitter_in_order [of "jw_zero\<lparr>jw_initialized := True, jw_next := 7\<rparr>" 7 "''a''" 0]
  by (simp add: jw_zero_def)

end
