(* ===== verification/Job_Engine.thy ===== *)
theory Job_Engine
  imports Workqueue
begin

text \<open>
  What the recogniser and the synthesizer of internal/ai/speech.go share: a queue of jobs served by one
  worker goroutine, a result channel of capacity one per call, a context that \<open>Close\<close> cancels, and a
  native object that is deleted once the worker has left. Every mutex section, channel operation or
  context operation is one step; the contexts of the callers are numbered and may be cancelled at any
  time. \<open>je_calls\<close> lists the admitted calls: the context, the job and what its result channel holds.
\<close>

datatype 'j je_worker = Worker_waits | Worker_runs nat 'j nat | Worker_streams nat 'j | Worker_left

datatype je_closing = Close_never | Close_cancelled | Close_waits | Close_done

record ('j, 'r) je_call =
  jc_ctx :: nat
  jc_job :: 'j
  jc_result :: "(go_error + 'r) option"

record ('j, 'r) job_engine =
  je_pq :: "(nat, 'j \<times> nat) wqueue"
  je_ctx :: ctx_err
  je_worker :: "'j je_worker"
  je_native :: bool
  je_closing :: je_closing
  je_calls :: "('j, 'r) je_call list"
  je_ctxs :: "nat \<Rightarrow> ctx_err"

definition je_New :: "int \<Rightarrow> ('j, 'r) job_engine" where
  "je_New queued = \<lparr>je_pq = wq_New queued, je_ctx = None, je_worker = Worker_waits, je_native = True,
     je_closing = Close_never, je_calls = [], je_ctxs = (\<lambda>_. None)\<rparr>"

text \<open>A push with a fresh result channel: the error, or the channel.\<close>

definition je_submit :: "nat \<Rightarrow> 'j \<Rightarrow> int \<Rightarrow> ('j, 'r) job_engine \<Rightarrow> nat result \<times> ('j, 'r) job_engine" where
  "je_submit c j priority e =
     (let k = length (je_calls e) in
      case wq_Push (je_ctxs e) c (j, k) priority (je_pq e) of
        (Some err, q) \<Rightarrow> (Inl err, e\<lparr>je_pq := q\<rparr>)
      | (None, q) \<Rightarrow>
          (Inr k, e\<lparr>je_pq := q, je_calls := je_calls e @ [\<lparr>jc_ctx = c, jc_job = j, jc_result = None\<rparr>]\<rparr>))"

definition je_answer :: "nat \<Rightarrow> go_error + 'r \<Rightarrow> ('j, 'r) job_engine \<Rightarrow> ('j, 'r) job_engine" where
  "je_answer k r e = e\<lparr>je_calls := (je_calls e)[k := (je_calls e ! k)\<lparr>jc_result := Some r\<rparr>]\<rparr>"

text \<open>The head of the worker loop: \<open>None\<close> while \<open>Pop\<close> blocks.\<close>

definition je_take :: "('j, 'r) job_engine \<Rightarrow> ('j, 'r) job_engine option" where
  "je_take e =
     (case wq_Pop (je_pq e) of
        Pop_blocks \<Rightarrow> None
      | Pop_closed \<Rightarrow> Some (e\<lparr>je_worker := Worker_left\<rparr>)
      | Popped x q \<Rightarrow>
          let (j, k) = we_value x; e' = e\<lparr>je_pq := q\<rparr> in
          case je_ctxs e (we_ctx x) of
            Some err \<Rightarrow> Some (je_answer k (Inl err) e')
          | None \<Rightarrow>
              if je_ctx e \<noteq> None then Some (e'\<lparr>je_worker := Worker_left\<rparr>)
              else Some (e'\<lparr>je_worker := Worker_runs (we_ctx x) j k\<rparr>))"

text \<open>
  What a caller may get from its \<open>select\<close>: every case that is ready. The empty list means that it
  waits.
\<close>

definition je_select :: "nat \<Rightarrow> nat \<Rightarrow> ('j, 'r) job_engine \<Rightarrow> (go_error + 'r) list" where
  "je_select c k e =
     (case je_ctxs e c of Some err \<Rightarrow> [Inl err] | None \<Rightarrow> []) @
     (if je_ctx e \<noteq> None then [Inl Wq_ErrClosed] else []) @
     (case jc_result (je_calls e ! k) of Some r \<Rightarrow> [r] | None \<Rightarrow> [])"

text \<open>\<open>Close\<close>, run once: cancel, close the queue, wait for the worker and delete the native object.\<close>

definition je_cancel :: "('j, 'r) job_engine \<Rightarrow> ('j, 'r) job_engine" where
  "je_cancel e = (if je_closing e = Close_never then e\<lparr>je_closing := Close_cancelled, je_ctx := Some Canceled\<rparr> else e)"

definition je_close_queue :: "('j, 'r) job_engine \<Rightarrow> ('j, 'r) job_engine" where
  "je_close_queue e =
     (if je_closing e = Close_cancelled then e\<lparr>je_closing := Close_waits, je_pq := wq_Close (je_pq e)\<rparr> else e)"

definition je_delete :: "('j, 'r) job_engine \<Rightarrow> ('j, 'r) job_engine" where
  "je_delete e =
     (if je_closing e = Close_waits \<and> je_worker e = Worker_left
      then e\<lparr>je_closing := Close_done, je_native := False\<rparr> else e)"

definition je_cancel_call :: "nat \<Rightarrow> go_error \<Rightarrow> ('j, 'r) job_engine \<Rightarrow> ('j, 'r) job_engine" where
  "je_cancel_call c err e = (if je_ctxs e c = None then e\<lparr>je_ctxs := (je_ctxs e)(c := Some err)\<rparr> else e)"

text \<open>
  The machine. \<open>run alive j r\<close>: running job \<open>j\<close> may give \<open>r\<close>; \<open>alive\<close> says that the native object is
  not deleted, \<open>stream j\<close> that the job goes on after its answer.
\<close>

inductive je_step ::
  "('j \<Rightarrow> bool) \<Rightarrow> (bool \<Rightarrow> 'j \<Rightarrow> go_error + 'r \<Rightarrow> bool) \<Rightarrow> ('j, 'r) job_engine \<Rightarrow> ('j, 'r) job_engine \<Rightarrow> bool"
  for stream :: "'j \<Rightarrow> bool" and run :: "bool \<Rightarrow> 'j \<Rightarrow> go_error + 'r \<Rightarrow> bool" where
  je_submits: "je_step stream run e (snd (je_submit c j p e))"
| je_takes: "je_worker e = Worker_waits \<Longrightarrow> je_take e = Some e' \<Longrightarrow> je_step stream run e e'"
| je_runs: "je_worker e = Worker_runs c j k \<Longrightarrow> run (je_native e) j r \<Longrightarrow> \<not> (stream j \<and> is_ok r) \<Longrightarrow>
    je_step stream run e ((je_answer k r e)\<lparr>je_worker := Worker_waits\<rparr>)"
| je_streams: "je_worker e = Worker_runs c j k \<Longrightarrow> run (je_native e) j (Inr r) \<Longrightarrow> stream j \<Longrightarrow>
    je_step stream run e ((je_answer k (Inr r) e)\<lparr>je_worker := Worker_streams c j\<rparr>)"
| je_streamed: "je_worker e = Worker_streams c j \<Longrightarrow> je_step stream run e (e\<lparr>je_worker := Worker_waits\<rparr>)"
| je_cancels: "je_step stream run e (je_cancel e)"
| je_closes: "je_step stream run e (je_close_queue e)"
| je_deletes: "je_step stream run e (je_delete e)"
| je_call_cancelled: "je_step stream run e (je_cancel_call c err e)"

inductive_cases je_stepE: "je_step stream run e e'"

subsection \<open>The invariant\<close>

definition je_queued :: "('j, 'r) job_engine \<Rightarrow> nat list" where
  "je_queued e = map (snd \<circ> we_value) (wq_entries (je_pq e))"

fun je_running :: "'j je_worker \<Rightarrow> nat list" where
  "je_running (Worker_runs c j k) = [k]"
| "je_running _ = []"

text \<open>The call of channel \<open>k\<close> is on its way: its context and job are those of the queue or the worker.\<close>

definition je_call_ok :: "('j \<Rightarrow> go_error + 'r \<Rightarrow> bool) \<Rightarrow> ('j, 'r) job_engine \<Rightarrow> nat \<Rightarrow> bool" where
  "je_call_ok good e k =
     (let call = je_calls e ! k in
      case jc_result call of
        Some r \<Rightarrow> good (jc_job call) r \<or> (\<exists>err. r = Inl err \<and> je_ctxs e (jc_ctx call) = Some err)
      | None \<Rightarrow> k \<in> set (je_queued e) \<union> set (je_running (je_worker e)) \<or> je_ctxs e (jc_ctx call) \<noteq> None \<or> je_ctx e \<noteq> None)"

definition je_calls_ok :: "('j \<Rightarrow> go_error + 'r \<Rightarrow> bool) \<Rightarrow> ('j, 'r) job_engine \<Rightarrow> bool" where
  "je_calls_ok good e \<longleftrightarrow>
     distinct (je_queued e @ je_running (je_worker e)) \<and>
     (\<forall>k \<in> set (je_queued e) \<union> set (je_running (je_worker e)).
        k < length (je_calls e) \<and> jc_result (je_calls e ! k) = None) \<and>
     (\<forall>x \<in> set (wq_entries (je_pq e)). case we_value x of (j, k) \<Rightarrow>
        jc_job (je_calls e ! k) = j \<and> jc_ctx (je_calls e ! k) = we_ctx x) \<and>
     (\<forall>c j k. je_worker e = Worker_runs c j k \<longrightarrow> jc_job (je_calls e ! k) = j \<and> jc_ctx (je_calls e ! k) = c) \<and>
     (\<forall>k < length (je_calls e). je_call_ok good e k)"

definition je_life_ok :: "('j, 'r) job_engine \<Rightarrow> bool" where
  "je_life_ok e \<longleftrightarrow>
     wq_inv (je_pq e) \<and>
     (je_ctx e \<noteq> None \<longleftrightarrow> je_closing e \<noteq> Close_never) \<and>
     (wq_closed (je_pq e) \<longleftrightarrow> je_closing e \<in> {Close_waits, Close_done}) \<and>
     (je_worker e = Worker_left \<longrightarrow> je_ctx e \<noteq> None) \<and>
     (je_native e \<longleftrightarrow> je_closing e \<noteq> Close_done) \<and>
     (je_closing e = Close_done \<longrightarrow> je_worker e = Worker_left)"

lemma wq_Pop_closed: "wq_Pop q = Pop_closed \<longleftrightarrow> wq_closed q"
  by (simp add: wq_Pop_def Let_def)

text \<open>What a pass of the worker loop does, with its queue lemmas applied once.\<close>

lemma je_take_cases:
  assumes "je_take e = Some e'"
  obtains (closed) "wq_closed (je_pq e)" "e' = e\<lparr>je_worker := Worker_left\<rparr>"
  | (dead) c j k p q err where "wq_Pop (je_pq e) = Popped \<lparr>we_ctx = c, we_value = (j, k), we_priority = p\<rparr> q"
      "je_ctxs e c = Some err" "e' = je_answer k (Inl err) (e\<lparr>je_pq := q\<rparr>)"
  | (left) c j k p q where "wq_Pop (je_pq e) = Popped \<lparr>we_ctx = c, we_value = (j, k), we_priority = p\<rparr> q"
      "je_ctx e \<noteq> None" "e' = e\<lparr>je_pq := q, je_worker := Worker_left\<rparr>"
  | (runs) c j k p q where "wq_Pop (je_pq e) = Popped \<lparr>we_ctx = c, we_value = (j, k), we_priority = p\<rparr> q"
      "je_ctxs e c = None" "je_ctx e = None" "e' = e\<lparr>je_pq := q, je_worker := Worker_runs c j k\<rparr>"
proof (cases "wq_Pop (je_pq e)")
  case Pop_blocks
  then show ?thesis using assms by (simp add: je_take_def)
next
  case Pop_closed
  then have "wq_closed (je_pq e)" "e' = e\<lparr>je_worker := Worker_left\<rparr>"
    using assms wq_Pop_closed by (auto simp: je_take_def)
  then show ?thesis by (rule closed)
next
  case (Popped x q)
  obtain c j k p where x: "x = \<lparr>we_ctx = c, we_value = (j, k), we_priority = p\<rparr>"
    by (metis old.prod.exhaust wq_entry.cases)
  show ?thesis
  proof (cases "je_ctxs e c")
    case None
    then show ?thesis using assms Popped x left runs by (auto simp: je_take_def Let_def split: if_splits)
  next
    case (Some err)
    then show ?thesis using assms Popped x dead by (auto simp: je_take_def Let_def)
  qed
qed

lemma je_life_take:
  assumes life: "je_life_ok e" and "je_worker e = Worker_waits" and "je_take e = Some e'"
  shows "je_life_ok e'"
proof -
  have pop: "wq_inv q \<and> wq_closed q = wq_closed (je_pq e)" if "wq_Pop (je_pq e) = Popped x q" for x q
    using life that wq_Pop_inv wq_Pop_Popped unfolding je_life_ok_def by blast
  show ?thesis using assms(3)
  proof (cases rule: je_take_cases)
    case closed
    then show ?thesis using life by (auto simp: je_life_ok_def)
  next
    case (dead c j k p q err)
    then show ?thesis using life assms(2) pop by (auto simp: je_life_ok_def je_answer_def)
  next
    case (left c j k p q)
    then show ?thesis using life assms(2) pop by (auto simp: je_life_ok_def)
  next
    case (runs c j k p q)
    then show ?thesis using life assms(2) pop by (auto simp: je_life_ok_def)
  qed
qed

lemma je_life_step: "je_life_ok e \<Longrightarrow> je_step stream run e e' \<Longrightarrow> je_life_ok e'"
proof (erule je_step.cases, goal_cases)
  case (1 e0 c j p)
  have "wq_closed (snd (wq_Push f c v p q)) = wq_closed q" for f c v p and q :: "(nat, 'a \<times> nat) wqueue"
    by (auto simp: wq_Push_def Let_def split: option.splits)
  then show ?case using 1 wq_Push_inv [of "je_pq e" "je_ctxs e" c "(j, length (je_calls e))" p]
    by (auto simp: je_submit_def Let_def je_life_ok_def split: prod.splits option.splits) (metis snd_conv)+
next
  case (2 e0 e1)
  then show ?case using je_life_take by blast
qed (auto simp: je_life_ok_def je_answer_def je_cancel_def je_close_queue_def je_delete_def je_cancel_call_def
       wq_Close_def wq_inv_def split: if_splits)

subsection \<open>Every call is on its way or answered\<close>

lemma je_answer_ok:
  assumes ok: "je_calls_ok good e" and k: "je_running (je_worker e) = [k]"
    and r: "good (jc_job (je_calls e ! k)) r \<or> (\<exists>err. r = Inl err \<and> je_ctxs e (jc_ctx (je_calls e ! k)) = Some err)"
    and w: "je_running w = []" "\<forall>c j k. w \<noteq> Worker_runs c j k"
  shows "je_calls_ok good ((je_answer k r e)\<lparr>je_worker := w\<rparr>)"
proof -
  have b: "k < length (je_calls e)" "k \<notin> set (je_queued e)" "distinct (je_queued e)"
    using ok k by (auto simp: je_calls_ok_def)
  have q: "je_queued ((je_answer k r e)\<lparr>je_worker := w\<rparr>) = je_queued e"
    by (simp add: je_queued_def je_answer_def)
  have entries: "snd (we_value x) \<noteq> k" if "x \<in> set (wq_entries (je_pq e))" for x
    using b(2) that by (force simp: je_queued_def)
  show ?thesis unfolding je_calls_ok_def q
  proof (intro conjI allI impI ballI)
    fix x assume x: "x \<in> set (wq_entries (je_pq ((je_answer k r e)\<lparr>je_worker := w\<rparr>)))"
    then show "case we_value x of (j, k') \<Rightarrow>
        jc_job (je_calls ((je_answer k r e)\<lparr>je_worker := w\<rparr>) ! k') = j \<and>
        jc_ctx (je_calls ((je_answer k r e)\<lparr>je_worker := w\<rparr>) ! k') = we_ctx x"
      using ok entries [of x] by (force simp: je_calls_ok_def je_answer_def)
  next
    fix i assume "i < length (je_calls ((je_answer k r e)\<lparr>je_worker := w\<rparr>))"
    then have "je_call_ok good e i" using ok by (auto simp: je_calls_ok_def je_answer_def)
    then show "je_call_ok good ((je_answer k r e)\<lparr>je_worker := w\<rparr>) i"
      using k w r b(1) by (cases "i = k")
        (auto simp: je_call_ok_def je_answer_def je_queued_def Let_def split: option.splits)
  qed (use b w ok k in \<open>auto simp: je_calls_ok_def je_answer_def nth_list_update\<close>)
qed

lemma je_pop_calls:
  assumes ok: "je_calls_ok good e" and w: "je_running (je_worker e) = []"
    and pop: "wq_Pop (je_pq e) = Popped \<lparr>we_ctx = c, we_value = (j, k), we_priority = p\<rparr> q"
  shows "je_calls_ok good (e\<lparr>je_pq := q, je_worker := Worker_runs c j k\<rparr>)"
proof -
  obtain xs ys where q: "wq_entries (je_pq e) = xs @ \<lparr>we_ctx = c, we_value = (j, k), we_priority = p\<rparr> # ys"
      "wq_entries q = xs @ ys"
    using wq_Pop_Popped [OF pop] by blast
  let ?e = "e\<lparr>je_pq := q, je_worker := Worker_runs c j k\<rparr>"
  have set: "set (je_queued ?e) \<union> {k} = set (je_queued e)" by (auto simp: je_queued_def q)
  have "jc_job (je_calls e ! k) = j \<and> jc_ctx (je_calls e ! k) = c"
    using ok q by (auto simp: je_calls_ok_def)
  moreover have "je_call_ok good ?e i" if "i < length (je_calls e)" for i
    using that ok w set by (auto simp: je_calls_ok_def je_call_ok_def Let_def split: option.splits)
  moreover have "distinct (je_queued ?e @ [k])"
    using ok w by (auto simp: je_calls_ok_def je_queued_def q)
  ultimately show ?thesis using ok w set by (auto simp: je_calls_ok_def q)
qed

lemma wq_Push_cases:
  assumes "wq_Push cerr c v p q = (r, q')"
  obtains (same) "q' = q" "r \<noteq> None"
  | (full) "wq_entries q' = filter (\<lambda>x. cerr (we_ctx x) = None) (wq_entries q)" "r \<noteq> None"
  | (admitted) "r = None" "cerr c = None"
      "wq_entries q' = filter (\<lambda>x. cerr (we_ctx x) = None) (wq_entries q) @ [\<lparr>we_ctx = c, we_value = v, we_priority = p\<rparr>]"
proof (cases "cerr c")
  case None
  then show ?thesis using assms same full admitted by (auto simp: wq_Push_def Let_def split: if_splits)
next
  case (Some err)
  then have "wq_Push cerr c v p q = (Some err, q)" by (simp add: wq_Push_def)
  then have "q' = q" "r \<noteq> None" using assms by auto
  then show ?thesis by (rule same)
qed

lemma je_prune_calls:
  assumes ok: "je_calls_ok good e" and q: "wq_entries q = filter (\<lambda>x. je_ctxs e (we_ctx x) = None) (wq_entries (je_pq e))"
  shows "je_calls_ok good (e\<lparr>je_pq := q\<rparr>)"
proof -
  have sub: "set (je_queued (e\<lparr>je_pq := q\<rparr>)) \<subseteq> set (je_queued e)" by (auto simp: je_queued_def q)
  have "distinct (je_queued (e\<lparr>je_pq := q\<rparr>) @ je_running (je_worker e))"
    using ok sub unfolding je_calls_ok_def by (auto simp: je_queued_def q distinct_map_filter)
  moreover have "je_call_ok good (e\<lparr>je_pq := q\<rparr>) i" if i: "i < length (je_calls e)" for i
  proof -
    have "i \<in> set (je_queued (e\<lparr>je_pq := q\<rparr>))" if queued: "i \<in> set (je_queued e)" and live: "je_ctxs e (jc_ctx (je_calls e ! i)) = None"
    proof -
      obtain x where x: "x \<in> set (wq_entries (je_pq e))" "snd (we_value x) = i" using queued by (auto simp: je_queued_def)
      then have "we_ctx x = jc_ctx (je_calls e ! i)" using ok by (force simp: je_calls_ok_def)
      then show ?thesis using x live by (force simp: je_queued_def q)
    qed
    moreover have "je_call_ok good e i" using ok i by (auto simp: je_calls_ok_def)
    ultimately show ?thesis by (auto simp: je_call_ok_def Let_def split: option.splits)
  qed
  ultimately show ?thesis using ok sub by (auto simp: je_calls_ok_def q)
qed

lemma je_append_calls:
  assumes ok: "je_calls_ok good e"
    and q: "wq_entries q = wq_entries (je_pq e) @ [\<lparr>we_ctx = c, we_value = (j, length (je_calls e)), we_priority = p\<rparr>]"
  shows "je_calls_ok good (e\<lparr>je_pq := q, je_calls := je_calls e @ [\<lparr>jc_ctx = c, jc_job = j, jc_result = None\<rparr>]\<rparr>)"
    (is "je_calls_ok good ?e")
proof -
  have queued: "je_queued ?e = je_queued e @ [length (je_calls e)]" by (simp add: je_queued_def q)
  have old: "k < length (je_calls e)" if "k \<in> set (je_queued e) \<union> set (je_running (je_worker e))" for k
    using ok that by (auto simp: je_calls_ok_def)
  have old2: "k < Suc (length (je_calls e))" if "k \<in> set (je_queued e) \<union> set (je_running (je_worker e))" for k
    using old [OF that] by simp
  have "je_call_ok good ?e i" if "i < Suc (length (je_calls e))" for i
  proof (cases "i = length (je_calls e)")
    case True
    then show ?thesis by (simp add: je_call_ok_def queued)
  next
    case False
    then have "je_call_ok good e i" "i < length (je_calls e)" using that ok by (auto simp: je_calls_ok_def)
    then show ?thesis by (auto simp: je_call_ok_def queued nth_append Let_def split: option.splits)
  qed
  moreover have "distinct (je_queued ?e @ je_running (je_worker e))"
    using ok old by (auto simp: je_calls_ok_def queued)
  moreover have "case we_value x of (j, k) \<Rightarrow> jc_job (je_calls ?e ! k) = j \<and> jc_ctx (je_calls ?e ! k) = we_ctx x"
    if x: "x \<in> set (wq_entries q)" for x
  proof (cases "x \<in> set (wq_entries (je_pq e))")
    case True
    then have "snd (we_value x) < length (je_calls e)" by (intro old) (auto simp: je_queued_def)
    then show ?thesis using True ok by (force simp: je_calls_ok_def nth_append)
  next
    case False
    then show ?thesis using x by (auto simp: q)
  qed
  ultimately show ?thesis using ok old old2 by (auto simp: je_calls_ok_def queued nth_append)
qed

lemma je_submit_calls:
  assumes ok: "je_calls_ok good e"
  shows "je_calls_ok good (snd (je_submit c j p e))"
proof -
  let ?k = "length (je_calls e)" and ?live = "filter (\<lambda>x. je_ctxs e (we_ctx x) = None) (wq_entries (je_pq e))"
  obtain r q where push: "wq_Push (je_ctxs e) c (j, ?k) p (je_pq e) = (r, q)" by fastforce
  then show ?thesis
  proof (cases rule: wq_Push_cases)
    case same
    then show ?thesis using ok push by (auto simp: je_submit_def)
  next
    case full
    then show ?thesis using je_prune_calls [OF ok full(1)] push by (auto simp: je_submit_def)
  next
    case admitted
    let ?e = "e\<lparr>je_pq := (je_pq e)\<lparr>wq_entries := ?live\<rparr>\<rparr>"
    have "je_calls_ok good ?e" by (rule je_prune_calls [OF ok]) simp
    from je_append_calls [OF this, of q c j p] show ?thesis using admitted push by (simp add: je_submit_def)
  qed
qed

lemma je_calls_mono:
  assumes "je_calls_ok good e" and "je_pq e' = je_pq e" and "je_calls e' = je_calls e"
    and "je_worker e' = je_worker e \<or> je_running (je_worker e) = [] \<and> je_running (je_worker e') = []"
    and "\<forall>c err. je_ctxs e c = Some err \<longrightarrow> je_ctxs e' c = Some err" and "je_ctx e \<noteq> None \<longrightarrow> je_ctx e' \<noteq> None"
  shows "je_calls_ok good e'"
proof -
  have run: "je_running (je_worker e') = je_running (je_worker e)" using assms(4) by auto
  have "je_call_ok good e' k" if "je_call_ok good e k" for k
    using that assms(2,3,5,6) unfolding je_call_ok_def je_queued_def run Let_def
    by (auto split: option.splits)
  moreover have "je_worker e = Worker_runs c j k" if "je_worker e' = Worker_runs c j k" for c j k
    using assms(4) that by auto
  ultimately show ?thesis using assms(1,2,3) unfolding je_calls_ok_def je_queued_def run by auto
qed

text \<open>Once the engine is closed, calls may be dropped: their callers see the closed context.\<close>

lemma je_drop_calls:
  assumes ok: "je_calls_ok good e" and closed: "je_ctx e' \<noteq> None" and "je_calls e' = je_calls e" and "je_ctxs e' = je_ctxs e"
    and "wq_entries (je_pq e') = wq_entries (je_pq e) \<or> wq_entries (je_pq e') = []"
    and "je_worker e' = je_worker e \<or> je_worker e' = Worker_left"
  shows "je_calls_ok good e'"
proof -
  have sub: "set (je_queued e') \<subseteq> set (je_queued e)" "set (je_running (je_worker e')) \<subseteq> set (je_running (je_worker e))"
    using assms(5,6) by (auto simp: je_queued_def)
  have "distinct (je_queued e' @ je_running (je_worker e'))"
    using assms(5,6) ok unfolding je_calls_ok_def je_queued_def by (elim disjE) simp_all
  moreover have "je_call_ok good e' k" if "je_call_ok good e k" for k
    using that closed assms(3,4) by (auto simp: je_call_ok_def Let_def split: option.splits)
  moreover have "je_worker e = Worker_runs c j k" if "je_worker e' = Worker_runs c j k" for c j k
    using assms(6) that by auto
  moreover have "x \<in> set (wq_entries (je_pq e))" if "x \<in> set (wq_entries (je_pq e'))" for x
    using assms(5) that by auto
  ultimately show ?thesis using ok sub unfolding je_calls_ok_def assms(3) by (intro conjI) auto
qed

lemma je_take_calls:
  assumes ok: "je_calls_ok good e" and waits: "je_worker e = Worker_waits" and take: "je_take e = Some e'"
  shows "je_calls_ok good e'"
proof -
  have w: "je_running (je_worker e) = []" using waits by simp
  from take show ?thesis
  proof (cases rule: je_take_cases)
    case closed
    then show ?thesis using ok w by (intro je_calls_mono [OF ok]) auto
  next
    case (dead c j k p q err)
    let ?e = "e\<lparr>je_pq := q, je_worker := Worker_runs c j k\<rparr>"
    have runs: "je_calls_ok good ?e" by (rule je_pop_calls [OF ok w dead(1)])
    then have "jc_ctx (je_calls e ! k) = c" by (simp add: je_calls_ok_def)
    then have "je_calls_ok good ((je_answer k (Inl err) ?e)\<lparr>je_worker := Worker_waits\<rparr>)"
      using dead(2) by (intro je_answer_ok [OF runs]) auto
    then show ?thesis by (rule je_calls_mono) (use dead(3) waits in \<open>auto simp: je_answer_def\<close>)
  next
    case (left c j k p q)
    have "je_calls_ok good (e\<lparr>je_pq := q, je_worker := Worker_runs c j k\<rparr>)" using je_pop_calls [OF ok w left(1)] .
    then show ?thesis by (rule je_drop_calls) (use left in auto)
  next
    case (runs c j k p q)
    then show ?thesis using je_pop_calls [OF ok w runs(1)] by simp
  qed
qed

lemma je_calls_step:
  assumes ok: "je_calls_ok good e" and life: "je_life_ok e" and step: "je_step stream run e e'"
    and good: "\<And>j r. run True j r \<Longrightarrow> good j r"
  shows "je_calls_ok good e'"
  using step
proof cases
  case (je_submits c j p)
  then show ?thesis using je_submit_calls [OF ok] by simp
next
  case je_takes
  then show ?thesis by (rule je_take_calls [OF ok])
next
  case (je_runs c j k r)
  have "je_native e" using life je_runs by (auto simp: je_life_ok_def)
  moreover have "jc_job (je_calls e ! k) = j" using ok je_runs by (simp add: je_calls_ok_def)
  ultimately show ?thesis using je_runs good by (auto intro: je_answer_ok [OF ok])
next
  case (je_streams c j k r)
  have "je_native e" using life je_streams by (auto simp: je_life_ok_def)
  moreover have "jc_job (je_calls e ! k) = j" using ok je_streams by (simp add: je_calls_ok_def)
  ultimately show ?thesis using je_streams good by (auto intro: je_answer_ok [OF ok])
next
  case (je_streamed c j)
  then show ?thesis by (intro je_calls_mono [OF ok]) auto
next
  case je_cancels
  then show ?thesis by (intro je_calls_mono [OF ok]) (auto simp: je_cancel_def)
next
  case je_closes
  have "je_ctx e \<noteq> None" if "je_closing e = Close_cancelled" using that life by (auto simp: je_life_ok_def)
  then show ?thesis using je_closes ok by (auto simp: je_close_queue_def wq_Close_def intro: je_drop_calls [OF ok])
next
  case je_deletes
  then show ?thesis by (intro je_calls_mono [OF ok]) (auto simp: je_delete_def)
next
  case (je_call_cancelled c err)
  then show ?thesis by (intro je_calls_mono [OF ok]) (auto simp: je_cancel_call_def)
qed

definition je_inv :: "('j \<Rightarrow> go_error + 'r \<Rightarrow> bool) \<Rightarrow> ('j, 'r) job_engine \<Rightarrow> bool" where
  "je_inv good e \<longleftrightarrow> je_life_ok e \<and> je_calls_ok good e"

text \<open>The results of a job engine whose native object is there.\<close>

interpretation engine: machine "\<lambda>e. e = je_New n" "je_step stream run" "je_inv (run True)" for n stream run
proof unfold_locales
  show "je_inv (run True) e" if "e = je_New n" for e
    using that by (auto simp: je_inv_def je_New_def je_life_ok_def je_calls_ok_def je_queued_def wq_New_def wq_inv_def)
  show "je_inv (run True) e'" if "je_inv (run True) e" "je_step stream run e e'" for e e'
    using that je_life_step je_calls_step unfolding je_inv_def by blast
qed

lemma je_step_capacity: "je_step stream run e e' \<Longrightarrow> wq_capacity (je_pq e') = wq_capacity (je_pq e)"
proof (erule je_step.cases, goal_cases)
  case (1 e0 c j p)
  then show ?case by (auto simp: je_submit_def wq_Push_def Let_def split: option.splits)
next
  case (2 e0 e1)
  have "wq_capacity q = wq_capacity (je_pq e)" if "wq_Pop (je_pq e) = Popped x q" for x q
    using wq_Pop_Popped [OF that] by simp
  moreover have "je_take e = Some e'" using 2 by simp
  ultimately show ?case by (elim je_take_cases) (simp_all add: je_answer_def)
qed (auto simp: je_answer_def je_cancel_def je_close_queue_def je_delete_def je_cancel_call_def wq_Close_def)

lemma je_reach_capacity: "reach (\<lambda>e. e = je_New n) (je_step stream run) e \<Longrightarrow> wq_capacity (je_pq e) = n"
  by (induction rule: reach.induct) (auto simp: je_New_def wq_New_def dest: je_step_capacity)

text \<open>
  A caller that finds nothing ready in its \<open>select\<close> has a call that is queued or being served, by a
  worker that can go on.
\<close>

lemma je_select_waits:
  assumes inv: "je_inv good e" and k: "k < length (je_calls e)" and "je_select (jc_ctx (je_calls e ! k)) k e = []"
  shows "je_ctx e = None \<and> je_native e \<and> k \<in> set (je_queued e) \<union> set (je_running (je_worker e)) \<and>
    (je_worker e = Worker_waits \<longrightarrow> je_take e \<noteq> None)"
proof -
  have open': "je_ctx e = None" "je_ctxs e (jc_ctx (je_calls e ! k)) = None" "jc_result (je_calls e ! k) = None"
    using assms(3) by (auto simp: je_select_def split: option.splits if_splits)
  have "je_call_ok good e k" using inv k by (auto simp: je_inv_def je_calls_ok_def)
  then have on_way: "k \<in> set (je_queued e) \<union> set (je_running (je_worker e))"
    using open' by (simp add: je_call_ok_def)
  have life: "je_closing e = Close_never" "je_native e" using inv open'(1) by (auto simp: je_inv_def je_life_ok_def)
  have "je_take e \<noteq> None" if "je_worker e = Worker_waits"
  proof -
    have "wq_entries (je_pq e) \<noteq> []" using on_way that by (auto simp: je_queued_def)
    then have "wq_Pop (je_pq e) \<noteq> Pop_blocks" by (simp add: wq_Pop_def Let_def)
    then show ?thesis by (auto simp: je_take_def Let_def split: wq_popped.splits option.splits prod.splits)
  qed
  then show ?thesis using open'(1) life(2) on_way by blast
qed

text \<open>What a caller can get: the error of its own context, that the engine is closed, or the result of its job.\<close>

lemma je_select_gives:
  assumes inv: "je_inv good e" and k: "k < length (je_calls e)" and r: "r \<in> set (je_select (jc_ctx (je_calls e ! k)) k e)"
  shows "(\<exists>err. je_ctxs e (jc_ctx (je_calls e ! k)) = Some err \<and> r = Inl err) \<or> r = Inl Wq_ErrClosed \<and> je_ctx e \<noteq> None \<or>
    good (jc_job (je_calls e ! k)) r"
proof -
  have "je_call_ok good e k" using inv k by (auto simp: je_inv_def je_calls_ok_def)
  then show ?thesis using r by (auto simp: je_select_def je_call_ok_def Let_def split: option.splits if_splits)
qed

end
