(* ===== verification/Speech.thy ===== *)
theory Speech
  imports Job_Engine Audio_Stream Config
begin

text \<open>
  Recognition and synthesis (internal/ai/speech.go). The sherpa objects are parameters: whether they
  could be created, what a decode or a generation gives. The functions that wait for their job are split
  at the \<open>select\<close>: the part up to the push is a function here, the \<open>select\<close> is \<open>je_select\<close>, and what the
  worker does with a job is \<open>asr_run\<close> and \<open>tts_run\<close>, the parameters of the machine of \<open>Job_Engine\<close>.
\<close>

definition maxQueuedJobs :: int where "maxQueuedJobs = 32"
abbreviation max_text_bytes :: nat where "max_text_bytes \<equiv> 4000"

subsection \<open>Files\<close>

text \<open>A file as \<open>os.Stat\<close> and \<open>sherpa.ReadWave\<close> see it; a path may be out of reach for another reason.\<close>

record wave_file =
  wf_regular :: bool
  wf_size :: int
  wf_wave :: "(f32 list \<times> int) option"

record file_store =
  fs_files :: "string \<Rightarrow> wave_file option"
  fs_denied :: "string \<Rightarrow> go_error option"

definition os_ErrNotExist :: go_error where "os_ErrNotExist = Msg ''file does not exist''"

definition fs_stat :: "file_store \<Rightarrow> string \<Rightarrow> wave_file result" where
  "fs_stat fs p =
     (case fs_denied fs p of
        Some e \<Rightarrow> Inl e
      | None \<Rightarrow> case fs_files fs p of None \<Rightarrow> Inl os_ErrNotExist | Some f \<Rightarrow> Inr f)"

text \<open>\<open>os.IsNotExist\<close> on what \<open>os.Stat\<close> answers.\<close>

definition fs_missing :: "file_store \<Rightarrow> string \<Rightarrow> bool" where
  "fs_missing fs p \<longleftrightarrow> fs_denied fs p = None \<and> fs_files fs p = None"

definition validateAudioFile :: "file_store \<Rightarrow> ctx_err \<Rightarrow> string \<Rightarrow> go_error option" where
  "validateAudioFile fs cerr path =
     (case cerr of
        Some err \<Rightarrow> Some err
      | None \<Rightarrow>
          case fs_stat fs path of
            Inl err \<Rightarrow> Some err
          | Inr info \<Rightarrow>
              if \<not> wf_regular info \<or> wf_size info > 24 * 2 ^ 20
              then Some (Msg ''audio file must be regular and at most 24 MiB'') else None)"

definition validateText :: "ctx_err \<Rightarrow> string \<Rightarrow> go_error option" where
  "validateText cerr s =
     (case cerr of
        Some err \<Rightarrow> Some err
      | None \<Rightarrow> if max_text_bytes < length s then Some (Msg ''text exceeds maximum length'') else None)"

definition read_wave :: "file_store \<Rightarrow> string \<Rightarrow> (f32 list \<times> int) option" where
  "read_wave fs path = (case fs_stat fs path of Inl _ \<Rightarrow> None | Inr f \<Rightarrow> wf_wave f)"

text \<open>\<open>copyFile\<close> opens the source first, then creates the destination.\<close>

definition copyFile :: "file_store \<Rightarrow> string \<Rightarrow> string \<Rightarrow> go_error option \<times> file_store" where
  "copyFile fs src dst =
     (case fs_stat fs src of
        Inl err \<Rightarrow> (Some err, fs)
      | Inr f \<Rightarrow>
          case fs_denied fs dst of
            Some err \<Rightarrow> (Some err, fs)
          | None \<Rightarrow> (None, fs\<lparr>fs_files := (fs_files fs)(dst \<mapsto> f)\<rparr>))"

subsection \<open>The recogniser\<close>

record recognizer_config =
  rc_SampleRate :: int
  rc_FeatureDim :: int
  rc_Tokens :: string
  rc_NumThreads :: int
  rc_Provider :: string
  rc_DecodingMethod :: string
  rc_Moonshine :: "string \<times> string"
  rc_Whisper :: "string \<times> string \<times> string \<times> string"

definition asr_recognizer_config :: "asr_config \<Rightarrow> int \<Rightarrow> recognizer_config" where
  "asr_recognizer_config cfg numThreads =
     (let c = \<lparr>rc_SampleRate = 16000, rc_FeatureDim = 80, rc_Tokens = ac_Tokens cfg, rc_NumThreads = numThreads,
                rc_Provider = ''cpu'', rc_DecodingMethod = ''greedy_search'', rc_Moonshine = ([], []), rc_Whisper = ([], [], [], [])\<rparr>
      in if ac_Engine cfg = ''moonshine'' then c\<lparr>rc_Moonshine := (ac_Encoder cfg, ac_Decoder cfg)\<rparr>
         else c\<lparr>rc_Whisper := (ac_Encoder cfg, ac_Decoder cfg, ac_Language cfg, ''transcribe'')\<rparr>)"

text \<open>What the native recogniser does: \<open>an_stream\<close> says whether \<open>NewOfflineStream\<close> gives a stream.\<close>

record asr_native =
  an_stream :: bool
  an_decode :: "f32 list \<Rightarrow> string option"

type_synonym transcriber = "(f32 list, string) job_engine"

definition NewTranscriber :: "(recognizer_config \<Rightarrow> bool) \<Rightarrow> asr_config \<Rightarrow> int \<Rightarrow> transcriber result" where
  "NewTranscriber recognizer cfg numThreads =
     (if ac_Engine cfg \<noteq> ''whisper'' \<and> ac_Engine cfg \<noteq> ''moonshine''
      then Inl (Msg (''unsupported ASR engine '' @ go_quote (ac_Engine cfg)))
      else if \<not> recognizer (asr_recognizer_config cfg numThreads)
      then Inl (Msg ''failed to initialize offline recognizer'')
      else Inr (je_New maxQueuedJobs))"

definition decodeSync :: "asr_native \<Rightarrow> bool \<Rightarrow> f32 list \<Rightarrow> string result" where
  "decodeSync an alive samples =
     (if \<not> alive then Inl (Msg ''ASR recognizer unavailable'')
      else if \<not> an_stream an then Inl (Msg ''failed to create ASR stream'')
      else case an_decode an samples of
             None \<Rightarrow> Inl (Msg ''ASR recognizer unavailable'')
           | Some s \<Rightarrow> Inr s)"

definition asr_run :: "asr_native \<Rightarrow> bool \<Rightarrow> f32 list \<Rightarrow> string result \<Rightarrow> bool" where
  "asr_run an alive samples r \<longleftrightarrow> r = decodeSync an alive samples"

datatype submitted = Call_panics | Call_fails go_error | Call_waits nat

definition submitted_of :: "nat result \<times> ('j, 'r) job_engine \<Rightarrow> submitted \<times> ('j, 'r) job_engine" where
  "submitted_of x = (case fst x of Inl err \<Rightarrow> Call_fails err | Inr k \<Rightarrow> Call_waits k, snd x)"

definition TranscribeSamples :: "nat \<Rightarrow> f32 list \<Rightarrow> int \<Rightarrow> int \<Rightarrow> transcriber \<Rightarrow> submitted \<times> transcriber" where
  "TranscribeSamples c samples sampleRate priority t =
     (if sampleRate \<le> 0 \<or> sampleRate > 192000 then (Call_fails (Msg ''invalid sample rate''), t)
      else if int (length samples) > sampleRate * max_audio_seconds
      then (Call_fails (Msg ''audio exceeds maximum duration''), t)
      else case je_ctxs t c of
        Some err \<Rightarrow> (Call_fails err, t)
      | None \<Rightarrow>
          case (if sampleRate \<noteq> 16000 then ResampleFloat32 samples sampleRate 16000 else Some samples) of
            None \<Rightarrow> (Call_panics, t)
          | Some converted \<Rightarrow> submitted_of (je_submit c converted priority t))"

definition TranscribeFile :: "file_store \<Rightarrow> nat \<Rightarrow> string \<Rightarrow> int \<Rightarrow> transcriber \<Rightarrow> submitted \<times> transcriber" where
  "TranscribeFile fs c filePath priority t =
     (case validateAudioFile fs (je_ctxs t c) filePath of
        Some err \<Rightarrow> (Call_fails err, t)
      | None \<Rightarrow>
          case read_wave fs filePath of
            None \<Rightarrow> (Call_fails (Msg ''failed to read WAV file''), t)
          | Some (samples, rate) \<Rightarrow> TranscribeSamples c samples rate priority t)"

subsection \<open>The live transcription stream\<close>

text \<open>
  The accumulated samples of a \<open>whisperStream\<close>; \<open>Close\<close> sets them to nil and \<open>Reset\<close> to length 0. The
  result of a stream without samples is the empty text at once, here \<open>None\<close>.
\<close>

definition whisper_AcceptAudio :: "f32 list \<Rightarrow> f32 list \<Rightarrow> f32 list" where
  "whisper_AcceptAudio samples kept =
     (let remaining = 16000 * max_audio_seconds - int (length kept)
      in kept @ (if remaining < int (length samples) then take (nat remaining) samples else samples))"

definition whisper_Result :: "nat \<Rightarrow> int \<Rightarrow> f32 list \<Rightarrow> transcriber \<Rightarrow> (submitted \<times> transcriber) option" where
  "whisper_Result c priority kept t =
     (if kept = [] then None else Some (TranscribeSamples c kept 16000 priority t))"

definition whisper_Reset :: "f32 list \<Rightarrow> f32 list" where "whisper_Reset kept = []"
definition whisper_Close :: "f32 list \<Rightarrow> f32 list" where "whisper_Close kept = []"

subsection \<open>The synthesizer\<close>

text \<open>A JSON string as \<open>encoding/json\<close> writes it, for text that is valid UTF-8 without U+2028 and U+2029.\<close>

definition json_char :: "char \<Rightarrow> string" where
  "json_char c =
     (let n = (of_char c :: nat); hex = (\<lambda>m. [CHR 0x5C, CHR ''u'', CHR ''0'', CHR ''0'', hex_digit (m div 16), hex_digit (m mod 16)]) in
      if n = 34 \<or> n = 92 then [CHR 0x5C, c]
      else if n = 8 then [CHR 0x5C, CHR ''b''] else if n = 12 then [CHR 0x5C, CHR ''f'']
      else if n = 10 then [CHR 0x5C, CHR ''n''] else if n = 13 then [CHR 0x5C, CHR ''r'']
      else if n = 9 then [CHR 0x5C, CHR ''t'']
      else if n < 32 \<or> n = 60 \<or> n = 62 \<or> n = 38 then hex n
      else [c])"

definition json_string :: "string \<Rightarrow> string" where
  "json_string s = CHR 0x22 # concat (map json_char s) @ [CHR 0x22]"

record gen_config =
  gc_Speed :: f32
  gc_Sid :: int
  gc_NumSteps :: int
  gc_Extra :: string

text \<open>The silence scale is the constant 0.2.\<close>

definition genConfig :: "tts_config \<Rightarrow> gen_config" where
  "genConfig cfg =
     \<lparr>gc_Speed = (if f_le (tc_Speed cfg) (Fin 0) then Fin 1 else tc_Speed cfg), gc_Sid = tc_Sid cfg,
      gc_NumSteps = tc_NumSteps cfg,
      gc_Extra = (if tc_Lang cfg \<noteq> [] then CHR ''{'' # json_string ''lang'' @ CHR '':'' # json_string (tc_Lang cfg) @ ''}'' else [])\<rparr>"

text \<open>
  The native engine: its rate, the chunks a generation hands to the callback, the audio it returns when
  the callback was called so many times, and what \<open>Save\<close> leaves on disk. \<open>tn_hash\<close> is \<open>sha256.Sum256\<close>
  and \<open>tn_voice\<close> the JSON text of the voice configuration.
\<close>

record tts_native =
  tn_rate :: int
  tn_chunks :: "string \<Rightarrow> gen_config \<Rightarrow> f32 list list"
  tn_audio :: "string \<Rightarrow> gen_config \<Rightarrow> nat \<Rightarrow> (f32 list \<times> int) option"
  tn_save :: "string \<Rightarrow> f32 list \<times> int \<Rightarrow> wave_file option"
  tn_hash :: "string \<Rightarrow> byte list"
  tn_voice :: "tts_config \<Rightarrow> string"

definition hex_string :: "byte list \<Rightarrow> string" where
  "hex_string bs = concat (map (\<lambda>b. [hex_digit (unat b div 16), hex_digit (unat b mod 16)]) bs)"

definition no_cache :: cache_config where
  "no_cache = \<lparr>cc_Enabled = False, cc_Dir = [], cc_PreGenerate = []\<rparr>"

definition cacheFilename :: "tts_native \<Rightarrow> tts_config \<Rightarrow> string \<Rightarrow> string" where
  "cacheFilename tn cfg s = hex_string (tn_hash tn (tn_voice tn (cfg\<lparr>tc_CacheConfig := no_cache\<rparr>) @ s)) @ ''.wav''"

text \<open>
  The generation callback: the running total and the number of calls. \<open>obs i\<close> is what the context
  answers at call \<open>i\<close>; a call that answers false is the last.
\<close>

fun file_callbacks :: "(nat \<Rightarrow> ctx_err) \<Rightarrow> int \<Rightarrow> f32 list list \<Rightarrow> nat \<Rightarrow> int \<Rightarrow> int \<times> nat" where
  "file_callbacks obs limit [] i heard = (heard, i)"
| "file_callbacks obs limit (c # cs) i heard =
     (let heard' = heard + int (length c) in
      if obs i = None \<and> heard' \<le> limit then file_callbacks obs limit cs (Suc i) heard' else (heard', Suc i))"

text \<open>\<open>first\<close> and \<open>final\<close> are the observations of the context before and after the generation.\<close>

definition synthesizeToFileSync ::
  "tts_native \<Rightarrow> tts_config \<Rightarrow> bool \<Rightarrow> ctx_err \<Rightarrow> (nat \<Rightarrow> ctx_err) \<Rightarrow> ctx_err \<Rightarrow> string \<Rightarrow> string \<Rightarrow> file_store \<Rightarrow> go_error option \<times> file_store" where
  "synthesizeToFileSync tn cfg alive first obs final s outputPath fs =
     (if \<not> alive then (Some (Msg ''TTS engine is closed''), fs)
      else case first of
        Some err \<Rightarrow> (Some err, fs)
      | None \<Rightarrow>
          let gc = genConfig cfg; limit = tn_rate tn * max_audio_seconds;
              (heard, calls) = file_callbacks obs limit (tn_chunks tn s gc) 0 0 in
          case final of
            Some err \<Rightarrow> (Some err, fs)
          | None \<Rightarrow>
              if limit < heard then (Some (Msg ''generated audio exceeds maximum duration''), fs)
              else case tn_audio tn s gc calls of
                None \<Rightarrow> (Some (Msg ''failed to generate speech audio''), fs)
              | Some (samples, rate) \<Rightarrow>
                  if rate * max_audio_seconds < int (length samples)
                  then (Some (Msg ''generated audio exceeds maximum duration''), fs)
                  else case tn_save tn outputPath (samples, rate) of
                    None \<Rightarrow> (Some (Msg ''failed to save WAV file''), fs)
                  | Some f \<Rightarrow> (None, fs\<lparr>fs_files := (fs_files fs)(outputPath \<mapsto> f)\<rparr>))"

text \<open>
  \<open>prepareStream\<close>: the generation that fills the stream, push by push, and ends it (\<open>gen_ends\<close>) is the producer of
  \<open>sr_step\<close>.
\<close>

definition prepareStream :: "tts_native \<Rightarrow> bool \<Rightarrow> audio_stream result" where
  "prepareStream tn alive =
     (if \<not> alive then Inl (Msg ''TTS engine is closed'') else Inr (newStreamingAudioStream (tn_rate tn)))"

record tts_job =
  tj_text :: string
  tj_outputPath :: string
  tj_isStream :: bool

text \<open>An answer to a stream job is the new stream, one to a file job is what its run left on disk.\<close>

datatype tts_result = Tts_stream audio_stream | Tts_file file_store

type_synonym synthesizer = "(tts_job, tts_result) job_engine"

definition tts_run :: "tts_native \<Rightarrow> tts_config \<Rightarrow> bool \<Rightarrow> tts_job \<Rightarrow> tts_result result \<Rightarrow> bool" where
  "tts_run tn cfg alive j r =
     (if tj_isStream j then r = (case prepareStream tn alive of Inl err \<Rightarrow> Inl err | Inr s \<Rightarrow> Inr (Tts_stream s))
      else \<exists>first obs final fs. r =
        (case synthesizeToFileSync tn cfg alive first obs final (tj_text j) (tj_outputPath j) fs of
           (Some err, _) \<Rightarrow> Inl err | (None, fs') \<Rightarrow> Inr (Tts_file fs')))"

definition cached :: "tts_native \<Rightarrow> tts_config \<Rightarrow> file_store \<Rightarrow> string \<Rightarrow> string option" where
  "cached tn cfg fs s =
     (let cc = tc_CacheConfig cfg; cacheFile = path_Join [cc_Dir cc, cacheFilename tn cfg s] in
      if cc_Enabled cc \<and> cc_Dir cc \<noteq> [] then (case fs_stat fs cacheFile of Inr _ \<Rightarrow> Some cacheFile | Inl _ \<Rightarrow> None)
      else None)"

datatype 'a synthesis = Synth_fails go_error | Synth_done 'a | Synth_waits nat

definition synth_of :: "nat result \<times> synthesizer \<Rightarrow> 'a synthesis \<times> synthesizer" where
  "synth_of x = (case fst x of Inl err \<Rightarrow> Synth_fails err | Inr k \<Rightarrow> Synth_waits k, snd x)"

definition SynthesizeToFile ::
  "tts_native \<Rightarrow> tts_config \<Rightarrow> file_store \<Rightarrow> nat \<Rightarrow> string \<Rightarrow> string \<Rightarrow> int \<Rightarrow> synthesizer \<Rightarrow> file_store synthesis \<times> synthesizer" where
  "SynthesizeToFile tn cfg fs c s outputPath priority t =
     (case validateText (je_ctxs t c) s of
        Some err \<Rightarrow> (Synth_fails err, t)
      | None \<Rightarrow>
          if je_ctx t \<noteq> None then (Synth_fails Wq_ErrClosed, t)
          else case cached tn cfg fs s of
            Some cacheFile \<Rightarrow>
              (case copyFile fs cacheFile outputPath of
                 (Some err, _) \<Rightarrow> Synth_fails err | (None, fs') \<Rightarrow> Synth_done fs', t)
          | None \<Rightarrow> synth_of (je_submit c \<lparr>tj_text = s, tj_outputPath = outputPath, tj_isStream = False\<rparr> priority t))"

definition readWavToStream :: "file_store \<Rightarrow> ctx_err \<Rightarrow> string \<Rightarrow> vits_stream result" where
  "readWavToStream fs cerr filePath =
     (case validateAudioFile fs cerr filePath of
        Some err \<Rightarrow> Inl err
      | None \<Rightarrow>
          case read_wave fs filePath of
            None \<Rightarrow> Inl (Msg (''failed to read cached WAV file: '' @ filePath))
          | Some (samples, rate) \<Rightarrow> Inr \<lparr>vs_rate = rate, vs_samples = samples, vs_offset = 0\<rparr>)"

definition SynthesizeToStream ::
  "tts_native \<Rightarrow> tts_config \<Rightarrow> file_store \<Rightarrow> nat \<Rightarrow> string \<Rightarrow> int \<Rightarrow> synthesizer \<Rightarrow> vits_stream synthesis \<times> synthesizer" where
  "SynthesizeToStream tn cfg fs c s priority t =
     (case validateText (je_ctxs t c) s of
        Some err \<Rightarrow> (Synth_fails err, t)
      | None \<Rightarrow>
          if je_ctx t \<noteq> None then (Synth_fails Wq_ErrClosed, t)
          else case cached tn cfg fs s of
            Some cacheFile \<Rightarrow>
              (case readWavToStream fs (je_ctxs t c) cacheFile of Inl err \<Rightarrow> Synth_fails err | Inr v \<Rightarrow> Synth_done v, t)
          | None \<Rightarrow> synth_of (je_submit c \<lparr>tj_text = s, tj_outputPath = [], tj_isStream = True\<rparr> priority t))"

subsection \<open>Starting the synthesizer\<close>

record offline_tts_config =
  oc_NumThreads :: int
  oc_Provider :: string
  oc_MaxNumSentences :: int
  oc_Supertonic :: "string list"
  oc_Vits :: "string list"

text \<open>The scales of a VITS voice are the constants 0.667, 0.8 and 1.\<close>

definition tts_engine_config :: "tts_config \<Rightarrow> int \<Rightarrow> offline_tts_config" where
  "tts_engine_config cfg numThreads =
     (let c = \<lparr>oc_NumThreads = numThreads, oc_Provider = ''cpu'', oc_MaxNumSentences = 1, oc_Supertonic = [], oc_Vits = []\<rparr>;
          model = (\<lambda>name. tc_ModelDir cfg @ name)
      in if tc_Engine cfg = ''supertonic''
         then c\<lparr>oc_Supertonic := [model ''/duration_predictor.int8.onnx'', model ''/text_encoder.int8.onnx'',
                 model ''/vector_estimator.int8.onnx'', model ''/vocoder.int8.onnx'', model ''/tts.json'',
                 model ''/unicode_indexer.bin'', model ''/voice.bin'']\<rparr>
         else c\<lparr>oc_Vits := [tc_Model cfg, tc_Tokens cfg, tc_DataDir cfg]\<rparr>)"

text \<open>The worker is not running yet and nobody has cancelled the new context.\<close>

fun pregenerate :: "tts_native \<Rightarrow> tts_config \<Rightarrow> string list \<Rightarrow> file_store \<Rightarrow> file_store" where
  "pregenerate tn cfg [] fs = fs"
| "pregenerate tn cfg (phrase # phrases) fs =
     (let cacheFile = path_Join [cc_Dir (tc_CacheConfig cfg), cacheFilename tn cfg phrase] in
      pregenerate tn cfg phrases
        (if fs_missing fs cacheFile
         then snd (synthesizeToFileSync tn cfg True None (\<lambda>_. None) None phrase cacheFile fs) else fs))"

definition NewSynthesizer ::
  "(offline_tts_config \<Rightarrow> bool) \<Rightarrow> (string \<Rightarrow> go_error option) \<Rightarrow> tts_native \<Rightarrow> tts_config \<Rightarrow> int \<Rightarrow> file_store \<Rightarrow>
   synthesizer result \<times> file_store" where
  "NewSynthesizer engine mkdirAll tn cfg numThreads fs =
     (if tc_Engine cfg \<noteq> ''vits'' \<and> tc_Engine cfg \<noteq> ''supertonic''
      then (Inl (Msg (''unsupported TTS engine '' @ go_quote (tc_Engine cfg))), fs)
      else if \<not> engine (tts_engine_config cfg numThreads)
      then (Inl (Msg ''failed to initialize offline TTS engine''), fs)
      else (Inr (je_New maxQueuedJobs),
            if cc_Enabled (tc_CacheConfig cfg) \<and> mkdirAll (cc_Dir (tc_CacheConfig cfg)) = None
            then pregenerate tn cfg (cc_PreGenerate (tc_CacheConfig cfg)) fs else fs))"

subsection \<open>Bounds\<close>

lemma file_callbacks_bound:
  "file_callbacks obs limit cs i heard = (total', n) \<Longrightarrow> total' \<le> limit \<Longrightarrow> \<forall>k. obs k = None \<Longrightarrow>
     total' = heard + int (length (concat cs)) \<and> n = i + length cs"
  by (induction obs limit cs i heard rule: file_callbacks.induct) (auto simp: Let_def split: if_splits)

lemma synthesizeToFileSync_cases:
  assumes "synthesizeToFileSync tn cfg alive first obs final s p fs = (err, fs')"
  shows "err \<noteq> None \<and> fs' = fs \<or>
    (err = None \<and> alive \<and> first = None \<and> final = None \<and>
      (\<exists>samples rate f heard calls. file_callbacks obs (tn_rate tn * max_audio_seconds) (tn_chunks tn s (genConfig cfg)) 0 0 = (heard, calls) \<and>
         heard \<le> tn_rate tn * max_audio_seconds \<and>
         tn_audio tn s (genConfig cfg) calls = Some (samples, rate) \<and> int (length samples) \<le> rate * max_audio_seconds \<and>
         tn_save tn p (samples, rate) = Some f \<and> fs' = fs\<lparr>fs_files := (fs_files fs)(p \<mapsto> f)\<rparr>))"
  using assms by (auto simp: synthesizeToFileSync_def Let_def not_less split: if_splits option.splits prod.splits)

lemma TranscribeSamples_cases:
  assumes "TranscribeSamples c samples rate p t = (r, t')"
  shows "r \<noteq> Call_panics \<and> (t' = t \<or> (\<exists>xs. t' = snd (je_submit c xs p t))) \<and>
    (\<forall>k. r = Call_waits k \<longrightarrow> 0 < rate \<and> rate \<le> 192000 \<and> int (length samples) \<le> rate * max_audio_seconds \<and>
       k = length (je_calls t) \<and> (\<exists>xs. jc_job (je_calls t' ! k) = xs \<and> k < length (je_calls t') \<and> jc_ctx (je_calls t' ! k) = c \<and>
         int (length xs) = (if rate = 16000 then int (length samples) else int (length samples) * 16000 div rate)))"
proof (cases "rate \<le> 0 \<or> rate > 192000 \<or> int (length samples) > rate * max_audio_seconds \<or> je_ctxs t c \<noteq> None")
  case True
  then show ?thesis using assms by (auto simp: TranscribeSamples_def split: if_splits)
next
  case False
  then have rate: "0 < rate" "rate \<le> 192000" "int (length samples) \<le> rate * max_audio_seconds" "je_ctxs t c = None" by auto
  have "\<exists>xs. (if rate \<noteq> 16000 then ResampleFloat32 samples rate 16000 else Some samples) = Some xs \<and>
      int (length xs) = (if rate = 16000 then int (length samples) else int (length samples) * 16000 div rate)"
    using rate(1) resample_len_pos [OF rate(1), of 16000 "length samples"]
    by (cases "rate = 16000"; cases "samples = []") (simp_all add: ResampleFloat32_def pos_imp_zdiv_nonneg_iff)
  then obtain xs where xs: "(if rate \<noteq> 16000 then ResampleFloat32 samples rate 16000 else Some samples) = Some xs"
      "int (length xs) = (if rate = 16000 then int (length samples) else int (length samples) * 16000 div rate)"
    by blast
  have r: "(r, t') = submitted_of (je_submit c xs p t)"
    using assms rate unfolding TranscribeSamples_def xs(1) by simp
  have t': "t' = snd (je_submit c xs p t)" and res: "r = (case fst (je_submit c xs p t) of Inl err \<Rightarrow> Call_fails err | Inr k \<Rightarrow> Call_waits k)"
    using r by (simp_all add: submitted_of_def)
  have waits: "k = length (je_calls t) \<and> je_calls t' = je_calls t @ [\<lparr>jc_ctx = c, jc_job = xs, jc_result = None\<rparr>]" if "r = Call_waits k" for k
    using that unfolding res t' by (auto simp: je_submit_def Let_def split: option.splits prod.splits sum.splits)
  show ?thesis
  proof (intro conjI allI impI)
    show "r \<noteq> Call_panics" unfolding res by (simp split: sum.splits)
    show "t' = t \<or> (\<exists>xs. t' = snd (je_submit c xs p t))" using t' by blast
  next
    fix k assume "r = Call_waits k"
    from waits [OF this] have k: "k = length (je_calls t)" "je_calls t' ! k = \<lparr>jc_ctx = c, jc_job = xs, jc_result = None\<rparr>"
        "k < length (je_calls t')"
      by (simp_all add: nth_append)
    show "k = length (je_calls t)" by (rule k(1))
    show "\<exists>ys. jc_job (je_calls t' ! k) = ys \<and> k < length (je_calls t') \<and> jc_ctx (je_calls t' ! k) = c \<and>
        int (length ys) = (if rate = 16000 then int (length samples) else int (length samples) * 16000 div rate)"
      using xs(2) k(2,3) by simp
  qed (use rate in auto)
qed

text \<open>The generation before the worker starts: what it adds, and that it takes nothing away.\<close>

abbreviation cache_file :: "tts_native \<Rightarrow> tts_config \<Rightarrow> string \<Rightarrow> string" where
  "cache_file tn cfg phrase \<equiv> path_Join [cc_Dir (tc_CacheConfig cfg), cacheFilename tn cfg phrase]"

abbreviation generates :: "tts_native \<Rightarrow> tts_config \<Rightarrow> string \<Rightarrow> string \<Rightarrow> file_store \<Rightarrow> go_error option \<times> file_store" where
  "generates tn cfg phrase p fs \<equiv> synthesizeToFileSync tn cfg True None (\<lambda>_. None) None phrase p fs"

lemma generates_same_error: "fst (generates tn cfg phrase p fs) = fst (generates tn cfg phrase p fs')"
  by (simp add: synthesizeToFileSync_def Let_def split: option.splits prod.splits)

lemma generates_spec:
  "snd (generates tn cfg phrase p fs) = fs \<and> fst (generates tn cfg phrase p fs) \<noteq> None \<or>
   fst (generates tn cfg phrase p fs) = None \<and>
   (\<exists>samples rate f. int (length samples) \<le> rate * max_audio_seconds \<and> tn_save tn p (samples, rate) = Some f \<and>
      snd (generates tn cfg phrase p fs) = fs\<lparr>fs_files := (fs_files fs)(p \<mapsto> f)\<rparr>)"
  using synthesizeToFileSync_cases [of tn cfg True None "\<lambda>_. None" None phrase p fs
      "fst (generates tn cfg phrase p fs)" "snd (generates tn cfg phrase p fs)"] by auto

lemma generates_denied [simp]: "fs_denied (snd (generates tn cfg phrase p fs)) = fs_denied fs"
  using generates_spec [of tn cfg phrase p fs] by auto

lemma pregenerate_denied [simp]: "fs_denied (pregenerate tn cfg ps fs) = fs_denied fs"
  by (induction tn cfg ps fs rule: pregenerate.induct) (simp_all add: Let_def)

lemma pregenerate_changes:
  "fs_files (pregenerate tn cfg ps fs) q \<noteq> fs_files fs q \<Longrightarrow>
     q \<in> cache_file tn cfg ` set ps \<and> fs_files fs q = None \<and>
     (\<exists>samples rate. int (length samples) \<le> rate * max_audio_seconds \<and>
        fs_files (pregenerate tn cfg ps fs) q = tn_save tn q (samples, rate))"
proof (induction tn cfg ps fs rule: pregenerate.induct)
  case (2 tn cfg phrase phrases fs)
  let ?f = "cache_file tn cfg phrase"
  let ?fs = "if fs_missing fs ?f then snd (generates tn cfg phrase ?f fs) else fs"
  have fs': "pregenerate tn cfg (phrase # phrases) fs = pregenerate tn cfg phrases ?fs" by (simp add: Let_def)
  have one: "q = ?f \<and> fs_files fs q = None \<and>
      (\<exists>samples rate. int (length samples) \<le> rate * max_audio_seconds \<and> fs_files ?fs q = tn_save tn q (samples, rate))"
    if "fs_files ?fs q \<noteq> fs_files fs q"
  proof -
    have miss: "fs_missing fs ?f" using that by (auto split: if_splits)
    have "snd (generates tn cfg phrase ?f fs) \<noteq> fs" using that miss by auto
    then obtain samples rate f where g: "int (length samples) \<le> rate * max_audio_seconds" "tn_save tn ?f (samples, rate) = Some f"
        "snd (generates tn cfg phrase ?f fs) = fs\<lparr>fs_files := (fs_files fs)(?f \<mapsto> f)\<rparr>"
      using generates_spec [of tn cfg phrase ?f fs] by blast
    then have g: "int (length samples) \<le> rate * max_audio_seconds" "tn_save tn ?f (samples, rate) = Some f"
        "?fs = fs\<lparr>fs_files := (fs_files fs)(?f \<mapsto> f)\<rparr>" using miss by simp_all
    then have "q = ?f" using that by (auto split: if_splits)
    moreover have "fs_files fs ?f = None" using miss by (simp add: fs_missing_def)
    moreover have "fs_files ?fs ?f = tn_save tn ?f (samples, rate)" unfolding g(3) using g(2) by simp
    ultimately show ?thesis using g(1) by blast
  qed
  show ?case
  proof (cases "fs_files (pregenerate tn cfg phrases ?fs) q = fs_files ?fs q")
    case True
    have "q = ?f \<and> fs_files fs q = None \<and>
        (\<exists>samples rate. int (length samples) \<le> rate * max_audio_seconds \<and> fs_files ?fs q = tn_save tn q (samples, rate))"
      by (rule one) (metis 2(2) True fs')
    then show ?thesis unfolding fs' True list.set image_insert by blast
  next
    case False
    have "fs_files ?fs q = None" using "2.IH" [OF refl False] by blast
    then have "fs_files fs q = None" using one by (metis)
    then show ?thesis using "2.IH" [OF refl False] unfolding fs' by auto
  qed
qed simp

lemma pregenerate_keeps: "fs_files fs q = Some f \<Longrightarrow> fs_files (pregenerate tn cfg ps fs) q = Some f"
  using pregenerate_changes [of tn cfg ps fs q] by fastforce

lemma pregenerate_makes:
  "phrase \<in> set ps \<Longrightarrow> fs_denied fs (cache_file tn cfg phrase) = None \<Longrightarrow>
     fst (generates tn cfg phrase (cache_file tn cfg phrase) fs0) = None \<Longrightarrow>
     fs_files (pregenerate tn cfg ps fs) (cache_file tn cfg phrase) \<noteq> None"
proof (induction tn cfg ps fs rule: pregenerate.induct)
  case (2 tn cfg p ps fs)
  let ?f = "cache_file tn cfg p"
  let ?fs = "if fs_missing fs ?f then snd (generates tn cfg p ?f fs) else fs"
  have fs': "pregenerate tn cfg (p # ps) fs = pregenerate tn cfg ps ?fs" by (simp add: Let_def)
  show ?case
  proof (cases "phrase = p")
    case True
    have "fst (generates tn cfg p ?f fs) = None"
      using 2(4) True generates_same_error [of tn cfg p ?f fs fs0] by simp
    then obtain f where "fs_files (snd (generates tn cfg p ?f fs)) ?f = Some f"
      using generates_spec [of tn cfg p ?f fs] by auto
    then have "\<exists>f. fs_files ?fs ?f = Some f"
      using 2(3) True by (cases "fs_files fs ?f") (auto simp: fs_missing_def)
    then show ?thesis using pregenerate_keeps True unfolding fs' by blast
  next
    case False
    then show ?thesis using "2.IH" [OF refl] 2(2-4) unfolding fs' by auto
  qed
qed simp

text \<open>Starting the synthesizer with its cache enabled synthesizes the configured phrases. Every phrase
  that can be generated and saved is then served from the cache, without a job, as a file and as a stream;
  the only files that change are cache files that did not exist, and each holds at most 120 s of audio.\<close>

theorem cache_serves_pregenerated:
  assumes "NewSynthesizer engine mkdirAll tn cfg n fs = (Inr t, fs')"
    and "cc_Enabled (tc_CacheConfig cfg)" "cc_Dir (tc_CacheConfig cfg) \<noteq> []" "mkdirAll (cc_Dir (tc_CacheConfig cfg)) = None"
    and "phrase \<in> set (cc_PreGenerate (tc_CacheConfig cfg))" "length phrase \<le> 4000"
    and "fs_denied fs (cache_file tn cfg phrase) = None" "fst (generates tn cfg phrase (cache_file tn cfg phrase) fs) = None"
  shows "je_calls t = [] \<and>
    SynthesizeToFile tn cfg fs' c phrase out p t =
      (case copyFile fs' (cache_file tn cfg phrase) out of (Some err, _) \<Rightarrow> Synth_fails err | (None, copied) \<Rightarrow> Synth_done copied, t) \<and>
    SynthesizeToStream tn cfg fs' c phrase p t =
      (case readWavToStream fs' None (cache_file tn cfg phrase) of Inl err \<Rightarrow> Synth_fails err | Inr v \<Rightarrow> Synth_done v, t) \<and>
    (\<forall>q. fs_files fs' q = fs_files fs q \<or>
       fs_files fs q = None \<and> q \<in> cache_file tn cfg ` set (cc_PreGenerate (tc_CacheConfig cfg)) \<and>
       (\<exists>samples rate. int (length samples) \<le> rate * max_audio_seconds \<and> fs_files fs' q = tn_save tn q (samples, rate)))"
proof -
  have t: "t = je_New maxQueuedJobs" and fs': "fs' = pregenerate tn cfg (cc_PreGenerate (tc_CacheConfig cfg)) fs"
    using assms(1,2,4) by (auto simp: NewSynthesizer_def split: if_splits)
  obtain f where "fs_files fs' (cache_file tn cfg phrase) = Some f"
    using pregenerate_makes [OF assms(5,7,8)] unfolding fs' by blast
  then have "cached tn cfg fs' phrase = Some (cache_file tn cfg phrase)"
    using assms(2,3,7) by (simp add: cached_def fs_stat_def fs' Let_def)
  then show ?thesis
    using assms(6) pregenerate_changes [of tn cfg "cc_PreGenerate (tc_CacheConfig cfg)" fs]
    by (auto simp: t je_New_def SynthesizeToFile_def SynthesizeToStream_def validateText_def fs')
qed

definition sample_tts :: tts_native where
  "sample_tts = \<lparr>tn_rate = 16000, tn_chunks = (\<lambda>_ _. [[Fin 0]]), tn_audio = (\<lambda>_ _ _. Some ([Fin 0], 16000)),
     tn_save = (\<lambda>_ w. Some \<lparr>wf_regular = True, wf_size = 46, wf_wave = Some w\<rparr>),
     tn_hash = (\<lambda>s. [of_nat (length s)]), tn_voice = (\<lambda>_. [])\<rparr>"

definition sample_voice :: tts_config where
  "sample_voice = \<lparr>tc_Engine = ''vits'', tc_ModelDir = [], tc_Model = ''m'', tc_Tokens = ''t'', tc_DataDir = ''d'', tc_Sid = 0,
     tc_NumSteps = 0, tc_Speed = Fin 1, tc_Lang = [],
     tc_CacheConfig = \<lparr>cc_Enabled = True, cc_Dir = ''c'', cc_PreGenerate = [''yes'']\<rparr>\<rparr>"

definition empty_store :: file_store where
  "empty_store = \<lparr>fs_files = (\<lambda>_. None), fs_denied = (\<lambda>_. None)\<rparr>"

lemma sample_generates: "fst (generates sample_tts sample_voice ''yes'' p fs) = None"
  by (simp add: synthesizeToFileSync_def sample_tts_def Let_def)

theorem cache_serves_pregenerated_witness:
  "\<exists>fs'. fst (SynthesizeToStream sample_tts sample_voice fs' 0 ''yes'' 0 (je_New 32)) =
      (case readWavToStream fs' None (cache_file sample_tts sample_voice ''yes'') of Inl err \<Rightarrow> Synth_fails err | Inr v \<Rightarrow> Synth_done v)"
proof -
  let ?fs' = "snd (NewSynthesizer (\<lambda>_. True) (\<lambda>_. None) sample_tts sample_voice 1 empty_store)"
  have new: "NewSynthesizer (\<lambda>_. True) (\<lambda>_. None) sample_tts sample_voice 1 empty_store = (Inr (je_New 32), ?fs')"
    by (simp add: NewSynthesizer_def sample_voice_def maxQueuedJobs_def)
  have "fst (SynthesizeToStream sample_tts sample_voice ?fs' 0 ''yes'' 0 (je_New 32)) =
      (case readWavToStream ?fs' None (cache_file sample_tts sample_voice ''yes'') of Inl err \<Rightarrow> Synth_fails err | Inr v \<Rightarrow> Synth_done v)"
    using cache_serves_pregenerated [OF new, of "''yes''" 0 "[]" 0] sample_generates
    by (simp add: sample_voice_def empty_store_def)
  then show ?thesis by (rule exI [of _ ?fs'])
qed

text \<open>C26: Every admitted transcription is answered or on its way: what its caller can get is the error of its
  own context, that the transcriber is closed, or the decoding of its samples with a recogniser that is
  there; a caller that has to wait has a job that is queued or being decoded by a worker that can go on.
  The recogniser is deleted only once the worker has left, and at most 32 jobs wait.\<close>

theorem transcription_answered:
  assumes "reach (\<lambda>t. t = je_New maxQueuedJobs) (je_step (\<lambda>_. False) (asr_run an)) t" and "k < length (je_calls t)"
  shows "(\<forall>r. r \<in> set (je_select (jc_ctx (je_calls t ! k)) k t) \<longrightarrow>
      (\<exists>err. je_ctxs t (jc_ctx (je_calls t ! k)) = Some err \<and> r = Inl err) \<or> r = Inl Wq_ErrClosed \<and> je_ctx t \<noteq> None \<or>
      r = decodeSync an True (jc_job (je_calls t ! k))) \<and>
    (je_select (jc_ctx (je_calls t ! k)) k t = [] \<longrightarrow>
      je_native t \<and> k \<in> set (je_queued t) \<union> set (je_running (je_worker t)) \<and> (je_worker t = Worker_waits \<longrightarrow> je_take t \<noteq> None)) \<and>
    (\<not> je_native t \<longrightarrow> je_worker t = Worker_left) \<and> length (je_queued t) \<le> 32"
proof -
  have inv: "je_inv (asr_run an True) t" using engine.reach_inv [OF assms(1)] .
  have life: "je_life_ok t" using inv by (simp add: je_inv_def)
  then have "\<not> je_native t \<longrightarrow> je_worker t = Worker_left" "length (je_queued t) \<le> 32"
    using je_reach_capacity [OF assms(1)] by (auto simp: je_life_ok_def wq_inv_def je_queued_def maxQueuedJobs_def)
  then show ?thesis
    using je_select_waits [OF inv assms(2)] je_select_gives [OF inv assms(2)] by (auto simp: asr_run_def)
qed

definition sample_asr :: asr_native where
  "sample_asr = \<lparr>an_stream = True, an_decode = (\<lambda>xs. Some (if xs = [] then [] else ''hello''))\<rparr>"

theorem transcription_answered_witness:
  "je_select 0 0 (snd (TranscribeSamples 0 [Fin 0, Fin 1] 16000 0 (je_New 32))) = [] \<and>
   (\<exists>t :: transcriber. set (je_select 0 0 t) = {Inr ''hello''} \<and> length (je_calls t) = 1 \<and> je_native t)"
proof -
  let ?step = "je_step (\<lambda>_. False) (asr_run sample_asr)"
  let ?c = "\<lparr>jc_ctx = 0, jc_job = [Fin 0, Fin 1], jc_result = None\<rparr> :: (f32 list, string) je_call"
  let ?t0 = "je_New maxQueuedJobs :: transcriber"
  let ?t1 = "snd (je_submit 0 [Fin 0, Fin 1] 0 ?t0)"
  let ?t2 = "?t0\<lparr>je_calls := [?c], je_worker := Worker_runs 0 [Fin 0, Fin 1] 0\<rparr>"
  let ?t3 = "(je_answer 0 (Inr ''hello'') ?t2)\<lparr>je_worker := Worker_waits\<rparr>"
  have r0: "reach (\<lambda>t. t = je_New maxQueuedJobs) ?step ?t1"
    by (rule reach_step, rule reach_init, rule refl, rule je_submits)
  have "je_take ?t1 = Some ?t2" "je_worker ?t1 = Worker_waits"
    by (simp_all add: je_take_def je_submit_def je_New_def wq_New_def wq_Push_def wq_Pop_def wq_best.simps remove_at_def maxQueuedJobs_def Let_def)
  then have r1: "reach (\<lambda>t. t = je_New maxQueuedJobs) ?step ?t2" by (intro reach_step [OF r0] je_takes)
  have "asr_run sample_asr (je_native ?t2) [Fin 0, Fin 1] (Inr ''hello'')"
    by (simp add: asr_run_def decodeSync_def sample_asr_def je_New_def)
  then have "?step ?t2 ?t3" by (intro je_runs) simp_all
  then have r2: "reach (\<lambda>t. t = je_New maxQueuedJobs) ?step ?t3" by (rule reach_step [OF r1])
  have "\<not> je_native ?t3 \<longrightarrow> je_worker ?t3 = Worker_left"
    using transcription_answered [OF r2, of 0] by (simp add: je_answer_def)
  then have alive: "je_native ?t3" by simp
  have got: "set (je_select 0 0 ?t3) = {Inr ''hello''}" "length (je_calls ?t3) = 1"
    by (simp_all add: je_select_def je_answer_def je_New_def)
  have waits: "je_select 0 0 (snd (TranscribeSamples 0 [Fin 0, Fin 1] 16000 0 (je_New 32))) = []"
    by (simp add: TranscribeSamples_def submitted_of_def je_submit_def je_select_def je_New_def wq_New_def wq_Push_def Let_def)
  show ?thesis by (intro conjI exI [of _ ?t3]) (fact waits got alive)+
qed

end
