(* ===== verification/Native.thy ===== *)
theory Native
  imports Go_Prelude
begin

text \<open>
  The life of the objects of the sherpa library that the sources create and delete. The library is not
  modelled: a handle is a number, and the ghost state \<open>native\<close> records which handles are live and whether
  a call ever touched a handle that is not.
\<close>

record native =
  nt_next :: nat
  nt_live :: "nat set"
  nt_ok :: bool

definition nt_New :: "native \<Rightarrow> nat \<times> native" where
  "nt_New n = (nt_next n, n\<lparr>nt_next := nt_next n + 1, nt_live := insert (nt_next n) (nt_live n)\<rparr>)"

definition nt_use :: "nat \<Rightarrow> native \<Rightarrow> native" where
  "nt_use h n = n\<lparr>nt_ok := nt_ok n \<and> h \<in> nt_live n\<rparr>"

definition nt_delete :: "nat \<Rightarrow> native \<Rightarrow> native" where
  "nt_delete h n = n\<lparr>nt_ok := nt_ok n \<and> h \<in> nt_live n, nt_live := nt_live n - {h}\<rparr>"

definition nt_start :: native where
  "nt_start = \<lparr>nt_next = 0, nt_live = {}, nt_ok = True\<rparr>"

text \<open>The handles held are exactly the live ones, each held once, all were handed out, and no call was wrong.\<close>

definition nt_holds :: "nat multiset \<Rightarrow> native \<Rightarrow> bool" where
  "nt_holds hs n \<longleftrightarrow> nt_ok n \<and> nt_live n = set_mset hs \<and> (\<forall>h \<in># hs. count hs h = 1 \<and> h < nt_next n)"

lemma nt_holds_start [simp]: "nt_holds {#} nt_start"
  by (simp add: nt_holds_def nt_start_def)

lemma nt_holds_New: "nt_holds hs n \<Longrightarrow> nt_New n = (h, n') \<Longrightarrow> nt_holds (add_mset h hs) n'"
  by (auto simp: nt_holds_def nt_New_def less_Suc_eq not_in_iff [symmetric])

lemma nt_use_held: "nt_holds hs n \<Longrightarrow> h \<in># hs \<Longrightarrow> nt_use h n = n"
  by (simp add: nt_holds_def nt_use_def)

lemma nt_holds_delete: "nt_holds (add_mset h hs) n \<Longrightarrow> nt_holds hs (nt_delete h n)"
  by (auto simp: nt_holds_def nt_delete_def not_in_iff [symmetric] split: if_splits)

lemma nt_replace: "nt_holds (add_mset h hs) n \<Longrightarrow> nt_New (nt_delete h n) = (h', n') \<Longrightarrow> nt_holds (add_mset h' hs) n'"
  using nt_holds_New nt_holds_delete by blast

end
