(* ===== verification/Speaker.thy ===== *)
theory Speaker
  imports Native Config
begin

text \<open>
  Speaker identification (internal/ai/speaker.go). The embedding extractor, the manager of the profiles and
  the streams are native objects; every operation returns the state of the library with its result.
\<close>

text \<open>
  \<open>sn_embed\<close>: the embedding of a finished recording, \<open>None\<close> when the extractor is not ready for it;
  \<open>sn_live\<close>: the same for a stream that is still open. A manager's content is opaque.
\<close>

record ('e, 'm) speaker_native =
  sn_embed :: "int \<Rightarrow> f32 list \<Rightarrow> 'e option"
  sn_live :: "f32 list \<Rightarrow> 'e option"
  sn_empty :: 'm
  sn_register :: "string \<Rightarrow> 'e \<Rightarrow> 'm \<Rightarrow> 'm option"
  sn_search :: "'e \<Rightarrow> f32 \<Rightarrow> 'm \<Rightarrow> string"
  sn_read :: "string \<Rightarrow> (f32 list \<times> int) option"

record 'm speaker_identifier =
  sp_extractor :: "nat option"
  sp_manager :: "(nat \<times> 'm) option"
  sp_cfg :: speaker_id_config

record speaker_stream =
  ss_stream :: "(nat \<times> f32 list) option"
  ss_count :: int

abbreviation id_closed :: go_error where "id_closed \<equiv> Msg ''speaker identifier is closed''"

definition extractEmbedding ::
  "('e, 'm) speaker_native \<Rightarrow> nat \<Rightarrow> int \<Rightarrow> f32 list \<Rightarrow> native \<Rightarrow> 'e result \<times> native" where
  "extractEmbedding sn ex rate samples nt =
     (let (h, nt) = nt_New (nt_use ex nt); nt = nt_use ex (nt_use h nt) in
      (case sn_embed sn rate samples of
         None \<Rightarrow> Inl (Msg (''audio too short to extract speaker fingerprint (samples: '' @ show_int (int (length samples)) @ '')''))
       | Some e \<Rightarrow> Inr e, nt_delete h nt))"

text \<open>What \<open>filepath.WalkDir\<close> hands to its function, in order; an error ends the walk.\<close>

datatype walked = Walk_error go_error | Walk_dir string | Walk_file string

definition profile_name :: "string \<Rightarrow> string" where
  "profile_name path =
     (let base = rev (takeWhile (\<lambda>c. c \<noteq> slash) (rev path)) in take (length base - length (path_Ext base)) base)"

fun load_profiles ::
  "('e, 'm) speaker_native \<Rightarrow> nat \<Rightarrow> nat \<Rightarrow> walked list \<Rightarrow> 'm \<Rightarrow> native \<Rightarrow> go_error option \<times> 'm \<times> native" where
  "load_profiles sn ex mgr [] m nt = (None, m, nt)"
| "load_profiles sn ex mgr (Walk_error err # ws) m nt = (Some err, m, nt)"
| "load_profiles sn ex mgr (Walk_dir p # ws) m nt = load_profiles sn ex mgr ws m nt"
| "load_profiles sn ex mgr (Walk_file p # ws) m nt =
     (if to_lower (path_Ext p) \<noteq> ''.wav'' then load_profiles sn ex mgr ws m nt
      else case sn_read sn p of
        None \<Rightarrow> load_profiles sn ex mgr ws m nt
      | Some (samples, rate) \<Rightarrow>
          case extractEmbedding sn ex rate samples nt of
            (Inl err, nt) \<Rightarrow> load_profiles sn ex mgr ws m nt
          | (Inr e, nt) \<Rightarrow>
              load_profiles sn ex mgr ws
                (case sn_register sn (profile_name p) e m of None \<Rightarrow> m | Some m' \<Rightarrow> m') (nt_use mgr nt))"

text \<open>\<open>extractor\<close> and \<open>manager\<close>: whether the library could create them.\<close>

definition NewSpeakerIdentifier ::
  "('e, 'm) speaker_native \<Rightarrow> bool \<Rightarrow> bool \<Rightarrow> walked list \<Rightarrow> speaker_id_config \<Rightarrow> native \<Rightarrow> 'm speaker_identifier result \<times> native" where
  "NewSpeakerIdentifier sn extractor manager walk cfg nt =
     (if \<not> extractor then (Inl (Msg ''failed to initialize SpeakerEmbeddingExtractor''), nt)
      else let (ex, nt) = nt_New nt; nt = nt_use ex nt in
        if \<not> manager then (Inl (Msg ''failed to initialize SpeakerEmbeddingManager''), nt_delete ex nt)
        else let (mgr, nt) = nt_New nt;
                 (err, m, nt) = (if si_EmbeddingsDir cfg \<noteq> [] then load_profiles sn ex mgr walk (sn_empty sn) nt
                                 else (None, sn_empty sn, nt))
             in (Inr \<lparr>sp_extractor = Some ex, sp_manager = Some (mgr, m), sp_cfg = cfg\<rparr>, nt))"

definition IdentifySamples ::
  "('e, 'm) speaker_native \<Rightarrow> f32 list \<Rightarrow> int \<Rightarrow> 'm speaker_identifier \<Rightarrow> native \<Rightarrow> string result \<times> native" where
  "IdentifySamples sn samples rate s nt =
     (case (sp_extractor s, sp_manager s) of
        (Some ex, Some (mgr, m)) \<Rightarrow>
          (case extractEmbedding sn ex rate samples nt of
             (Inl err, nt) \<Rightarrow> (Inl err, nt)
           | (Inr e, nt) \<Rightarrow> (Inr (sn_search sn e (si_ConfidenceThreshold (sp_cfg s)) m), nt_use mgr nt))
      | _ \<Rightarrow> (Inl id_closed, nt))"

definition IdentifyFile ::
  "('e, 'm) speaker_native \<Rightarrow> string \<Rightarrow> 'm speaker_identifier \<Rightarrow> native \<Rightarrow> string result \<times> native" where
  "IdentifyFile sn filePath s nt =
     (case sn_read sn filePath of
        None \<Rightarrow> (Inl (Msg ''failed to read WAV file''), nt)
      | Some (samples, rate) \<Rightarrow> IdentifySamples sn samples rate s nt)"

definition speaker_CreateStream :: "'m speaker_identifier \<Rightarrow> native \<Rightarrow> speaker_stream result \<times> native" where
  "speaker_CreateStream s nt =
     (case sp_extractor s of
        None \<Rightarrow> (Inl id_closed, nt)
      | Some ex \<Rightarrow> let (h, nt) = nt_New (nt_use ex nt) in (Inr \<lparr>ss_stream = Some (h, []), ss_count = 0\<rparr>, nt))"

definition ReloadSpeakers ::
  "('e, 'm) speaker_native \<Rightarrow> bool \<Rightarrow> walked list \<Rightarrow> 'm speaker_identifier \<Rightarrow> native \<Rightarrow>
   go_error option \<times> 'm speaker_identifier \<times> native" where
  "ReloadSpeakers sn manager walk s nt =
     (case sp_extractor s of
        None \<Rightarrow> (Some id_closed, s, nt)
      | Some ex \<Rightarrow>
          let nt = nt_use ex nt in
          if \<not> manager then (Some (Msg ''failed to initialize new SpeakerEmbeddingManager during reload''), s, nt)
          else let (mgr, nt) = nt_New nt in
            case (if si_EmbeddingsDir (sp_cfg s) \<noteq> [] then load_profiles sn ex mgr walk (sn_empty sn) nt
                  else (None, sn_empty sn, nt)) of
              (Some err, m, nt) \<Rightarrow> (Some err, s, nt_delete mgr nt)
            | (None, m, nt) \<Rightarrow>
                (None, s\<lparr>sp_manager := Some (mgr, m)\<rparr>,
                 case sp_manager s of None \<Rightarrow> nt | Some (old, _) \<Rightarrow> nt_delete old nt))"

definition speaker_Close :: "'m speaker_identifier \<Rightarrow> native \<Rightarrow> 'm speaker_identifier \<times> native" where
  "speaker_Close s nt =
     (let nt = (case sp_extractor s of None \<Rightarrow> nt | Some ex \<Rightarrow> nt_delete ex nt);
          nt = (case sp_manager s of None \<Rightarrow> nt | Some (mgr, _) \<Rightarrow> nt_delete mgr nt)
      in (s\<lparr>sp_extractor := None, sp_manager := None\<rparr>, nt))"

subsection \<open>The live stream\<close>

definition min_samples :: "speaker_id_config \<Rightarrow> int" where
  "min_samples cfg = f_to_int (f_mul float32 (si_MinAudioDurationSeconds cfg) (Fin 16000))"

text \<open>The name that is announced, if any, and the new states.\<close>

definition speaker_AcceptAudio ::
  "('e, 'm) speaker_native \<Rightarrow> f32 list \<Rightarrow> 'm speaker_identifier \<Rightarrow> speaker_stream \<Rightarrow> native \<Rightarrow>
   string option \<times> speaker_stream \<times> native" where
  "speaker_AcceptAudio sn samples s ss nt =
     (case (ss_stream ss, sp_extractor s, sp_manager s) of
        (Some (h, heard), Some ex, Some (mgr, m)) \<Rightarrow>
          let heard = heard @ samples; nt = nt_use h nt; count = ss_count ss + int (length samples) in
          if min_samples (sp_cfg s) \<le> count
          then (case sn_live sn heard of
                  None \<Rightarrow> (None, ss\<lparr>ss_stream := Some (h, heard), ss_count := count\<rparr>, nt_use h (nt_use ex nt))
                | Some e \<Rightarrow>
                    let nt = nt_use mgr (nt_use h (nt_use ex nt));
                        speaker = sn_search sn e (si_ConfidenceThreshold (sp_cfg s)) m;
                        (h', nt) = nt_New (nt_use ex (nt_delete h nt))
                    in (if speaker \<noteq> [] then Some speaker else None, \<lparr>ss_stream = Some (h', []), ss_count = 0\<rparr>, nt))
          else (None, ss\<lparr>ss_stream := Some (h, heard), ss_count := count\<rparr>, nt)
      | _ \<Rightarrow> (None, ss, nt))"

definition speaker_stream_Reset :: "'m speaker_identifier \<Rightarrow> speaker_stream \<Rightarrow> native \<Rightarrow> speaker_stream \<times> native" where
  "speaker_stream_Reset s ss nt =
     (case sp_extractor s of
        None \<Rightarrow> (ss, nt)
      | Some ex \<Rightarrow>
          case ss_stream ss of
            None \<Rightarrow> (ss\<lparr>ss_count := 0\<rparr>, nt)
          | Some (h, _) \<Rightarrow>
              let (h', nt) = nt_New (nt_use ex (nt_delete h nt)) in (\<lparr>ss_stream = Some (h', []), ss_count = 0\<rparr>, nt))"

definition speaker_stream_Close :: "speaker_stream \<Rightarrow> native \<Rightarrow> speaker_stream \<times> native" where
  "speaker_stream_Close ss nt =
     (case ss_stream ss of None \<Rightarrow> (ss, nt) | Some (h, _) \<Rightarrow> (ss\<lparr>ss_stream := None\<rparr>, nt_delete h nt))"

subsection \<open>The identifier and its streams\<close>

text \<open>One identifier and the streams it created; every operation holds the identifier's mutex, or that of
  the stream when it only deletes the stream.\<close>

record 'm speaker_world =
  sw_native :: native
  sw_id :: "'m speaker_identifier"
  sw_streams :: "speaker_stream list"

inductive sw_step :: "('e, 'm) speaker_native \<Rightarrow> 'm speaker_world \<Rightarrow> 'm speaker_world \<Rightarrow> bool" for sn :: "('e, 'm) speaker_native" where
  sw_identifies: "IdentifySamples sn samples rate (sw_id w) (sw_native w) = (r, nt) \<Longrightarrow> sw_step sn w (w\<lparr>sw_native := nt\<rparr>)"
| sw_creates: "speaker_CreateStream (sw_id w) (sw_native w) = (Inr ss, nt) \<Longrightarrow>
    sw_step sn w (w\<lparr>sw_native := nt, sw_streams := sw_streams w @ [ss]\<rparr>)"
| sw_reloads: "ReloadSpeakers sn ok walk (sw_id w) (sw_native w) = (r, s, nt) \<Longrightarrow> sw_step sn w (w\<lparr>sw_native := nt, sw_id := s\<rparr>)"
| sw_closes: "speaker_Close (sw_id w) (sw_native w) = (s, nt) \<Longrightarrow> sw_step sn w (w\<lparr>sw_native := nt, sw_id := s\<rparr>)"
| sw_accepts: "i < length (sw_streams w) \<Longrightarrow> speaker_AcceptAudio sn samples (sw_id w) (sw_streams w ! i) (sw_native w) = (r, ss, nt) \<Longrightarrow>
    sw_step sn w (w\<lparr>sw_native := nt, sw_streams := (sw_streams w)[i := ss]\<rparr>)"
| sw_resets: "i < length (sw_streams w) \<Longrightarrow> speaker_stream_Reset (sw_id w) (sw_streams w ! i) (sw_native w) = (ss, nt) \<Longrightarrow>
    sw_step sn w (w\<lparr>sw_native := nt, sw_streams := (sw_streams w)[i := ss]\<rparr>)"
| sw_stream_closes: "i < length (sw_streams w) \<Longrightarrow> speaker_stream_Close (sw_streams w ! i) (sw_native w) = (ss, nt) \<Longrightarrow>
    sw_step sn w (w\<lparr>sw_native := nt, sw_streams := (sw_streams w)[i := ss]\<rparr>)"

definition id_handles :: "'m speaker_identifier \<Rightarrow> nat multiset" where
  "id_handles s =
     (case sp_extractor s of None \<Rightarrow> {#} | Some ex \<Rightarrow> {#ex#}) + (case sp_manager s of None \<Rightarrow> {#} | Some (mgr, _) \<Rightarrow> {#mgr#})"

definition ss_handles :: "speaker_stream \<Rightarrow> nat multiset" where
  "ss_handles ss = (case ss_stream ss of None \<Rightarrow> {#} | Some (h, _) \<Rightarrow> {#h#})"

definition streams_handles :: "speaker_stream list \<Rightarrow> nat multiset" where
  "streams_handles sss = sum_list (map ss_handles sss)"

definition sw_inv :: "'m speaker_world \<Rightarrow> bool" where
  "sw_inv w \<longleftrightarrow> nt_holds (id_handles (sw_id w) + streams_handles (sw_streams w)) (sw_native w)"

lemma streams_handles_update:
  assumes "i < length sss"
  shows "\<exists>rest. streams_handles sss = ss_handles (sss ! i) + rest \<and> streams_handles (sss[i := ss]) = ss_handles ss + rest"
proof -
  let ?rest = "sum_list (map ss_handles (take i sss)) + sum_list (map ss_handles (drop (Suc i) sss))"
  have "streams_handles sss = ss_handles (sss ! i) + ?rest" using assms
    by (subst id_take_nth_drop [OF assms]) (simp add: streams_handles_def ac_simps)
  moreover have "streams_handles (sss[i := ss]) = ss_handles ss + ?rest"
    using assms by (simp add: streams_handles_def upd_conv_take_nth_drop ac_simps)
  ultimately show ?thesis by blast
qed

lemma extractEmbedding_holds:
  assumes "nt_holds hs nt" and "ex \<in># hs" and "extractEmbedding sn ex rate samples nt = (r, nt')"
  shows "nt_holds hs nt'"
proof -
  obtain h n where new: "nt_New nt = (h, n)" by fastforce
  have n: "nt_holds (add_mset h hs) n" using nt_holds_New [OF assms(1) new] .
  have "nt' = nt_delete h n"
    using assms(3) nt_use_held [OF assms(1,2)] nt_use_held [OF n, of h] nt_use_held [OF n, of ex] assms(2)
    by (simp add: extractEmbedding_def new)
  then show ?thesis using nt_holds_delete [OF n] by simp
qed

lemma load_profiles_holds:
  "nt_holds hs nt \<Longrightarrow> ex \<in># hs \<Longrightarrow> mgr \<in># hs \<Longrightarrow> load_profiles sn ex mgr ws m nt = (r, m', nt') \<Longrightarrow> nt_holds hs nt'"
proof (induction sn ex mgr ws m nt rule: load_profiles.induct)
  case (4 sn ex mgr p ws m nt)
  show ?case
  proof (cases "to_lower (path_Ext p) = ''.wav'' \<and> sn_read sn p \<noteq> None")
    case False
    then have "to_lower (path_Ext p) \<noteq> ''.wav'' \<or> sn_read sn p = None" by blast
    then show ?thesis using 4 by (elim disjE) (simp_all split: if_splits)
  next
    case True
    then obtain samples rate where w: "sn_read sn p = Some (samples, rate)" by fastforce
    obtain e n where x: "extractEmbedding sn ex rate samples nt = (e, n)" by fastforce
    have n: "nt_holds hs n" using extractEmbedding_holds [OF 4(5,6) x] .
    show ?thesis
    proof (cases e)
      case (Inl err)
      then show ?thesis using 4 True w x n by auto
    next
      case (Inr emb)
      then show ?thesis using 4 True w x n nt_use_held [OF n] by auto
    qed
  qed
qed auto

lemma IdentifySamples_holds:
  assumes "nt_holds (id_handles s + hs) nt" and "IdentifySamples sn samples rate s nt = (r, nt')"
  shows "nt_holds (id_handles s + hs) nt'"
proof (cases "sp_extractor s = None \<or> sp_manager s = None")
  case True
  then show ?thesis using assms by (auto simp: IdentifySamples_def split: option.splits)
next
  case False
  then obtain ex mgr m where s: "sp_extractor s = Some ex" "sp_manager s = Some (mgr, m)" by fastforce
  obtain e n where x: "extractEmbedding sn ex rate samples nt = (e, n)" by fastforce
  have n: "nt_holds (id_handles s + hs) n" using extractEmbedding_holds [OF assms(1) _ x] s by (simp add: id_handles_def)
  have "nt_use mgr n = n" using nt_use_held [OF n] s by (simp add: id_handles_def)
  then have "nt' = n" using assms(2) s x by (auto simp: IdentifySamples_def split: sum.splits)
  then show ?thesis using n by simp
qed

lemma speaker_CreateStream_holds:
  assumes "nt_holds (id_handles s + hs) nt" and "speaker_CreateStream s nt = (Inr ss, nt')"
  shows "nt_holds (id_handles s + (ss_handles ss + hs)) nt'"
proof -
  obtain ex where ex: "sp_extractor s = Some ex" using assms(2) by (auto simp: speaker_CreateStream_def split: option.splits)
  obtain h n where new: "nt_New nt = (h, n)" by fastforce
  have "nt_use ex nt = nt" using nt_use_held [OF assms(1)] ex by (simp add: id_handles_def)
  then have "ss = \<lparr>ss_stream = Some (h, []), ss_count = 0\<rparr>" "nt' = n"
    using assms(2) ex new by (auto simp: speaker_CreateStream_def)
  then show ?thesis using nt_holds_New [OF assms(1) new] by (simp add: ss_handles_def)
qed

lemma ReloadSpeakers_holds:
  assumes nt: "nt_holds (id_handles s + hs) nt" and r: "ReloadSpeakers sn ok walk s nt = (err, s', nt')"
  shows "nt_holds (id_handles s' + hs) nt'"
proof (cases "sp_extractor s")
  case None
  then show ?thesis using assms by (simp add: ReloadSpeakers_def)
next
  case (Some ex)
  have use_ex: "nt_use ex nt = nt" using nt_use_held [OF nt] Some by (simp add: id_handles_def)
  obtain mgr n where new: "nt_New nt = (mgr, n)" by fastforce
  have n: "nt_holds (add_mset mgr (id_handles s + hs)) n" using nt_holds_New [OF nt new] .
  obtain e m n2 where load: "(if si_EmbeddingsDir (sp_cfg s) \<noteq> [] then load_profiles sn ex mgr walk (sn_empty sn) n
                  else (None, sn_empty sn, n)) = (e, m, n2)" using prod_cases3 by blast
  have n2: "nt_holds (add_mset mgr (id_handles s + hs)) n2"
    using load load_profiles_holds [OF n, of ex mgr] Some n by (auto simp: id_handles_def split: if_splits)
  show ?thesis
  proof (cases "ok \<and> e = None")
    case False
    then show ?thesis using r nt Some use_ex new load n2 nt_holds_delete [OF n2]
      by (auto simp: ReloadSpeakers_def split: if_splits option.splits)
  next
    case True
    then have s': "s' = s\<lparr>sp_manager := Some (mgr, m)\<rparr>" "nt' = (case sp_manager s of None \<Rightarrow> n2 | Some (old, _) \<Rightarrow> nt_delete old n2)"
      using r Some use_ex new load by (auto simp: ReloadSpeakers_def)
    show ?thesis
    proof (cases "sp_manager s")
      case None
      then show ?thesis using n2 Some s' by (simp add: id_handles_def)
    next
      case (Some old)
      then have "nt_holds (add_mset (fst old) (add_mset ex (add_mset mgr hs))) n2"
        using n2 \<open>sp_extractor s = Some ex\<close> by (simp add: id_handles_def add_mset_commute split: prod.splits)
      from nt_holds_delete [OF this] show ?thesis
        using Some \<open>sp_extractor s = Some ex\<close> s' by (simp add: id_handles_def add_mset_commute split: prod.splits)
    qed
  qed
qed

lemma speaker_Close_holds:
  assumes "nt_holds (id_handles s + hs) nt" and "speaker_Close s nt = (s', nt')"
  shows "nt_holds (id_handles s' + hs) nt' \<and> id_handles s' = {#}"
  using assms nt_holds_delete
  by (cases "sp_extractor s"; cases "sp_manager s")
     (auto simp: speaker_Close_def id_handles_def add_mset_commute Let_def split: prod.splits)

lemma speaker_AcceptAudio_holds:
  assumes nt: "nt_holds (id_handles s + (ss_handles ss + hs)) nt" and r: "speaker_AcceptAudio sn samples s ss nt = (said, ss', nt')"
  shows "nt_holds (id_handles s + (ss_handles ss' + hs)) nt'"
proof (cases "ss_stream ss = None \<or> sp_extractor s = None \<or> sp_manager s = None")
  case True
  then show ?thesis using nt r by (auto simp: speaker_AcceptAudio_def split: option.splits)
next
  case False
  then obtain h heard ex mgr m where e: "ss_stream ss = Some (h, heard)" "sp_extractor s = Some ex" "sp_manager s = Some (mgr, m)"
    by fastforce
  have held: "nt_use h nt = nt" "nt_use ex nt = nt" "nt_use mgr nt = nt"
    using nt_use_held [OF nt] e by (simp_all add: id_handles_def ss_handles_def)
  have "nt_holds (add_mset h (id_handles s + hs)) nt" using nt e(1) by (simp add: ss_handles_def)
  from nt_holds_delete [OF this] have n: "nt_holds (id_handles s + hs) (nt_delete h nt)" .
  have use: "nt_use ex (nt_delete h nt) = nt_delete h nt" using nt_use_held [OF n] e by (simp add: id_handles_def)
  obtain h' n' where new: "nt_New (nt_delete h nt) = (h', n')" by fastforce
  have n': "nt_holds (add_mset h' (id_handles s + hs)) n'" using nt_holds_New [OF n new] .
  show ?thesis using r nt n' e held use new
    by (auto simp: speaker_AcceptAudio_def ss_handles_def Let_def split: if_splits option.splits)
qed

lemma speaker_stream_Reset_holds:
  assumes nt: "nt_holds (id_handles s + (ss_handles ss + hs)) nt" and r: "speaker_stream_Reset s ss nt = (ss', nt')"
  shows "nt_holds (id_handles s + (ss_handles ss' + hs)) nt'"
proof (cases "ss_stream ss = None \<or> sp_extractor s = None")
  case True
  then show ?thesis using nt r by (auto simp: speaker_stream_Reset_def ss_handles_def split: option.splits)
next
  case False
  then obtain h heard ex where e: "ss_stream ss = Some (h, heard)" "sp_extractor s = Some ex" by auto
  have "nt_holds (add_mset h (id_handles s + hs)) nt" using nt e(1) by (simp add: ss_handles_def)
  from nt_holds_delete [OF this] have n: "nt_holds (id_handles s + hs) (nt_delete h nt)" .
  have use: "nt_use ex (nt_delete h nt) = nt_delete h nt" using nt_use_held [OF n] e by (simp add: id_handles_def)
  obtain h' n' where new: "nt_New (nt_delete h nt) = (h', n')" by fastforce
  show ?thesis using r e use new nt_holds_New [OF n new] by (auto simp: speaker_stream_Reset_def ss_handles_def)
qed

lemma speaker_stream_Close_holds:
  assumes "nt_holds (id_handles s + (ss_handles ss + hs)) nt" and "speaker_stream_Close ss nt = (ss', nt')"
  shows "nt_holds (id_handles s + (ss_handles ss' + hs)) nt'"
  using assms nt_holds_delete by (auto simp: speaker_stream_Close_def ss_handles_def split: option.splits)

lemma sw_update_inv:
  assumes inv: "sw_inv w" and i: "i < length (sw_streams w)"
    and step: "\<And>hs. nt_holds (id_handles (sw_id w) + (ss_handles (sw_streams w ! i) + hs)) (sw_native w) \<Longrightarrow>
      nt_holds (id_handles (sw_id w) + (ss_handles ss + hs)) nt"
  shows "sw_inv (w\<lparr>sw_native := nt, sw_streams := (sw_streams w)[i := ss]\<rparr>)"
proof -
  obtain rest where "streams_handles (sw_streams w) = ss_handles (sw_streams w ! i) + rest"
      "streams_handles ((sw_streams w)[i := ss]) = ss_handles ss + rest"
    using streams_handles_update [OF i] by blast
  then show ?thesis using inv step [of rest] by (simp add: sw_inv_def)
qed

lemma sw_step_inv: "sw_inv w \<Longrightarrow> sw_step sn w w' \<Longrightarrow> sw_inv w'"
proof (erule sw_step.cases, goal_cases)
  case (1 samples rate w0 r nt)
  then show ?case using IdentifySamples_holds by (auto simp: sw_inv_def)
next
  case (2 w0 ss nt)
  then have w: "nt_holds (id_handles (sw_id w) + streams_handles (sw_streams w)) (sw_native w)"
      "speaker_CreateStream (sw_id w) (sw_native w) = (Inr ss, nt)" by (auto simp: sw_inv_def)
  have "streams_handles (sw_streams w @ [ss]) = ss_handles ss + streams_handles (sw_streams w)"
    by (simp add: streams_handles_def)
  then show ?case using 2 speaker_CreateStream_holds [OF w] by (auto simp: sw_inv_def)
next
  case (3 ok walk w0 r s nt)
  then show ?case using ReloadSpeakers_holds by (auto simp: sw_inv_def)
next
  case (4 w0 s nt)
  then show ?case using speaker_Close_holds [THEN conjunct1] by (auto simp: sw_inv_def)
next
  case (5 i w0 samples r ss nt)
  then show ?case using speaker_AcceptAudio_holds sw_update_inv by metis
next
  case (6 i w0 ss nt)
  then show ?case using speaker_stream_Reset_holds sw_update_inv by metis
next
  case (7 i w0 ss nt)
  then show ?case using speaker_stream_Close_holds sw_update_inv by metis
qed

definition speaker_start :: "('e, 'm) speaker_native \<Rightarrow> 'm speaker_world \<Rightarrow> bool" where
  "speaker_start sn w \<longleftrightarrow> sw_streams w = [] \<and>
     (\<exists>walk cfg. NewSpeakerIdentifier sn True True walk cfg nt_start = (Inr (sw_id w), sw_native w))"

lemma NewSpeakerIdentifier_holds:
  assumes "NewSpeakerIdentifier sn extractor manager walk cfg nt_start = (r, nt)"
  shows "nt_holds (case r of Inl _ \<Rightarrow> {#} | Inr s \<Rightarrow> id_handles s) nt"
proof -
  obtain ex n where ex: "nt_New nt_start = (ex, n)" by fastforce
  have n: "nt_holds {#ex#} n" using nt_holds_New [OF nt_holds_start ex] by simp
  have use: "nt_use ex n = n" using nt_use_held [OF n] by simp
  obtain mgr n2 where mgr: "nt_New n = (mgr, n2)" by fastforce
  have n2: "nt_holds {#mgr, ex#} n2" using nt_holds_New [OF n mgr] .
  obtain err m n3 where load: "(if si_EmbeddingsDir cfg \<noteq> [] then load_profiles sn ex mgr walk (sn_empty sn) n2
      else (None, sn_empty sn, n2)) = (err, m, n3)" using prod_cases3 by blast
  have "nt_holds {#mgr, ex#} n3" using load load_profiles_holds [OF n2, of ex mgr] n2 by (auto split: if_splits)
  then show ?thesis using assms nt_holds_delete [OF n] ex use mgr load
    by (auto simp: NewSpeakerIdentifier_def id_handles_def add_mset_commute split: if_splits)
qed

interpretation speaker_machine: machine "speaker_start sn" "sw_step sn" sw_inv for sn
proof unfold_locales
  show "sw_inv w" if "speaker_start sn w" for w
    using that NewSpeakerIdentifier_holds [of sn True True _ _ "Inr (sw_id w)" "sw_native w"]
    by (auto simp: speaker_start_def sw_inv_def streams_handles_def)
qed (rule sw_step_inv)

text \<open>C27: In every state the speaker identifier and its streams can reach, through identifications, hot
  reloads, live streams and closing in any order, no native object was used or deleted after its deletion,
  and the objects that are alive are exactly those still referred to: once the identifier and every stream
  are closed nothing is left.\<close>

theorem speaker_objects_safe:
  assumes "reach (speaker_start sn) (sw_step sn) w"
  shows "nt_ok (sw_native w) \<and> nt_live (sw_native w) = set_mset (id_handles (sw_id w) + streams_handles (sw_streams w)) \<and>
    (fst (speaker_Close (sw_id w) (sw_native w)) = sw_id w \<and> list_all (\<lambda>ss. ss_stream ss = None) (sw_streams w) \<longrightarrow>
       nt_live (sw_native w) = {})"
proof -
  have "sw_inv w" using speaker_machine.reach_inv [OF assms] .
  then have holds: "nt_ok (sw_native w)" "nt_live (sw_native w) = set_mset (id_handles (sw_id w) + streams_handles (sw_streams w))"
    by (simp_all add: sw_inv_def nt_holds_def)
  have "sp_extractor (sw_id w) = None \<and> sp_manager (sw_id w) = None" if "fst (speaker_Close (sw_id w) (sw_native w)) = sw_id w"
    using arg_cong [OF that, of sp_extractor] arg_cong [OF that, of sp_manager] by (simp add: speaker_Close_def Let_def)
  moreover have "streams_handles sss = {#}" if "list_all (\<lambda>ss. ss_stream ss = None) sss" for sss
    using that by (induction sss) (simp_all add: streams_handles_def ss_handles_def)
  ultimately show ?thesis using holds by (auto simp: id_handles_def)
qed

definition sample_speaker_native :: "(nat, string list) speaker_native" where
  "sample_speaker_native = \<lparr>sn_embed = (\<lambda>_ xs. Some (length xs)), sn_live = (\<lambda>xs. Some (length xs)), sn_empty = [],
     sn_register = (\<lambda>name _ m. Some (m @ [name])), sn_search = (\<lambda>_ _ m. if m = [] then [] else hd m), sn_read = (\<lambda>_. Some ([Fin 0], 16000))\<rparr>"

definition sample_identifier :: speaker_id_config where
  "sample_identifier = \<lparr>si_Model = ''m'', si_EmbeddingsDir = ''v'', si_MinAudioDurationSeconds = Fin 0, si_ConfidenceThreshold = Fin 0,
     si_ChallengeFailedPrompt = [], si_ChallengeInitPrompt = [], si_ChallengePrompts = []\<rparr>"

theorem speaker_objects_safe_witness:
  "\<exists>w :: string list speaker_world. sp_manager (sw_id w) = Some (1, [''ann'']) \<and>
     nt_live (sw_native w) = set_mset (id_handles (sw_id w) + streams_handles (sw_streams w))"
proof -
  let ?x = "NewSpeakerIdentifier sample_speaker_native True True [Walk_file ''v/ann.wav''] sample_identifier nt_start"
  have "case ?x of (Inr s, nt) \<Rightarrow> sp_manager s = Some (1, [''ann'']) | _ \<Rightarrow> False" by code_simp
  then obtain s nt where x: "?x = (Inr s, nt)" "sp_manager s = Some (1, [''ann''])"
    by (auto split: prod.splits sum.splits)
  let ?w = "\<lparr>sw_native = nt, sw_id = s, sw_streams = []\<rparr>"
  have "speaker_start sample_speaker_native ?w" unfolding speaker_start_def using x(1) by auto
  then have reached: "reach (speaker_start sample_speaker_native) (sw_step sample_speaker_native) ?w" by (rule reach_init)
  show ?thesis by (rule exI [of _ ?w]) (use speaker_objects_safe [OF reached] x(2) in simp)
qed

end
