(* ===== verification/Wake.thy ===== *)
theory Wake
  imports Native Config
begin

text \<open>
  Wake word detection (internal/ai/wake.go). The keyword spotter works on streams whose content is opaque;
  what it does with one is a parameter. The loops that decode while the spotter is ready may not end, so
  they are partial functions.
\<close>

text \<open>\<open>kn_fresh i\<close>: the stream that the library gives when \<open>i\<close> objects were created before, if it can.\<close>

record 's kws_native =
  kn_fresh :: "nat \<Rightarrow> 's option"
  kn_accept :: "int \<Rightarrow> f32 list \<Rightarrow> 's \<Rightarrow> 's"
  kn_finish :: "'s \<Rightarrow> 's"
  kn_ready :: "'s \<Rightarrow> bool"
  kn_decode :: "'s \<Rightarrow> 's"
  kn_keyword :: "'s \<Rightarrow> string"
  kn_reset :: "'s \<Rightarrow> 's"
  kn_read :: "string \<Rightarrow> (f32 list \<times> int) option"

record kws_engine_config =
  ke_SampleRate :: int
  ke_FeatureDim :: int
  ke_Encoder :: string
  ke_Decoder :: string
  ke_Joiner :: string
  ke_Tokens :: string
  ke_NumThreads :: int
  ke_Provider :: string
  ke_KeywordsFile :: string
  ke_KeywordsThreshold :: f32

definition kws_engine_of :: "kws_config \<Rightarrow> int \<Rightarrow> kws_engine_config" where
  "kws_engine_of cfg numThreads =
     \<lparr>ke_SampleRate = 16000, ke_FeatureDim = 80, ke_Encoder = kw_Encoder cfg, ke_Decoder = kw_Decoder cfg,
      ke_Joiner = kw_Joiner cfg, ke_Tokens = kw_Tokens cfg, ke_NumThreads = numThreads, ke_Provider = ''cpu'',
      ke_KeywordsFile = kw_KeywordsFile cfg, ke_KeywordsThreshold = kw_Threshold cfg\<rparr>"

text \<open>The detector that hears nothing, and the one that holds a spotter until it is closed.\<close>

datatype wake_detector = Wake_noop | Wake_sherpa "nat option"

definition NewSherpaONNXWakeDetector ::
  "(kws_engine_config \<Rightarrow> bool) \<Rightarrow> kws_config \<Rightarrow> int \<Rightarrow> native \<Rightarrow> wake_detector result \<times> native" where
  "NewSherpaONNXWakeDetector spotter cfg numThreads nt =
     (if \<not> kw_Enabled cfg then (Inr Wake_noop, nt)
      else if \<not> spotter (kws_engine_of cfg numThreads)
      then (Inl (Msg ''failed to initialize Sherpa-ONNX keyword spotter''), nt)
      else let (h, nt) = nt_New nt in (Inr (Wake_sherpa (Some h)), nt))"

definition NewKeywordStream :: "'s kws_native \<Rightarrow> nat \<Rightarrow> native \<Rightarrow> (nat \<times> 's) option \<times> native" where
  "NewKeywordStream kn spotter nt =
     (case kn_fresh kn (nt_next nt) of
        None \<Rightarrow> (None, nt_use spotter nt)
      | Some s \<Rightarrow> let (h, nt) = nt_New (nt_use spotter nt) in (Some (h, s), nt))"

subsection \<open>A recording\<close>

text \<open>The loop of \<open>DetectInFile\<close>, which asks for the result after every decode step.\<close>

partial_function (option) detect_loop :: "'s kws_native \<Rightarrow> 's \<Rightarrow> string option option" where
  "detect_loop kn s =
     (if kn_ready kn s
      then (let s' = kn_decode kn s in
            if kn_keyword kn s' \<noteq> [] then Some (Some (kn_keyword kn s')) else detect_loop kn s')
      else Some None)"

text \<open>
  \<open>None\<close>: the call does not return, or fails on a nil pointer (a closed detector, a stream the library
  cannot create).
\<close>

definition DetectInFile :: "'s kws_native \<Rightarrow> wake_detector \<Rightarrow> string \<Rightarrow> native \<Rightarrow> (string option result \<times> native) option" where
  "DetectInFile kn d filePath nt =
     (case d of
        Wake_noop \<Rightarrow> Some (Inr None, nt)
      | Wake_sherpa spotter \<Rightarrow>
          case kn_read kn filePath of
            None \<Rightarrow> Some (Inl (Msg ''failed to read WAV file''), nt)
          | Some (samples, rate) \<Rightarrow>
              case spotter of
                None \<Rightarrow> None
              | Some sp \<Rightarrow>
                  case NewKeywordStream kn sp nt of
                    (None, nt) \<Rightarrow> None
                  | (Some (h, s), nt) \<Rightarrow>
                      case detect_loop kn (kn_finish kn (kn_accept kn rate samples s)) of
                        None \<Rightarrow> None
                      | Some found \<Rightarrow> Some (Inr found, nt_delete h (nt_use sp (nt_use h nt))))"

subsection \<open>A live stream\<close>

partial_function (option) decode_all :: "'s kws_native \<Rightarrow> 's \<Rightarrow> 's option" where
  "decode_all kn s = (if kn_ready kn s then decode_all kn (kn_decode kn s) else Some s)"

record 's wake_stream =
  wk_spotter :: nat
  wk_stream :: "(nat \<times> 's) option"
  wk_lastReset :: int

definition wake_CreateStream :: "'s kws_native \<Rightarrow> int \<Rightarrow> nat \<Rightarrow> native \<Rightarrow> 's wake_stream result \<times> native" where
  "wake_CreateStream kn now spotter nt =
     (case NewKeywordStream kn spotter nt of
        (None, nt) \<Rightarrow> (Inl (Msg ''failed to create Sherpa-ONNX keyword stream''), nt)
      | (Some s, nt) \<Rightarrow> (Inr \<lparr>wk_spotter = spotter, wk_stream = Some s, wk_lastReset = now\<rparr>, nt))"

abbreviation hour :: duration where "hour \<equiv> 3600 * second"

text \<open>\<open>Reset\<close>, and the renewal of a stream that is more than an hour old.\<close>

definition wake_renew :: "'s kws_native \<Rightarrow> int \<Rightarrow> 's wake_stream \<Rightarrow> native \<Rightarrow> 's wake_stream \<times> native" where
  "wake_renew kn now ws nt =
     (case wk_stream ws of
        None \<Rightarrow> (ws, nt)
      | Some (h, _) \<Rightarrow>
          let (s, nt) = NewKeywordStream kn (wk_spotter ws) (nt_delete h nt)
          in (ws\<lparr>wk_stream := s, wk_lastReset := now\<rparr>, nt))"

definition wake_Reset :: "'s kws_native \<Rightarrow> int \<Rightarrow> 's wake_stream \<Rightarrow> native \<Rightarrow> 's wake_stream \<times> native" where
  "wake_Reset kn now ws nt = wake_renew kn now ws nt"

text \<open>The keyword that is reported (after the mutex is released), or the empty string.\<close>

definition wake_AcceptAudio ::
  "'s kws_native \<Rightarrow> int \<Rightarrow> f32 list \<Rightarrow> 's wake_stream \<Rightarrow> native \<Rightarrow> (string \<times> 's wake_stream \<times> native) option" where
  "wake_AcceptAudio kn now samples ws nt =
     (let (ws, nt) = (if hour < now - wk_lastReset ws then wake_renew kn now ws nt else (ws, nt)) in
      case wk_stream ws of
        None \<Rightarrow> Some ([], ws, nt)
      | Some (h, s) \<Rightarrow>
          let nt = nt_use (wk_spotter ws) (nt_use h nt) in
          case decode_all kn (kn_accept kn 16000 samples s) of
            None \<Rightarrow> None
          | Some s' \<Rightarrow>
              let keyword = kn_keyword kn s' in
              Some (keyword, ws\<lparr>wk_stream := Some (h, if keyword \<noteq> [] then kn_reset kn s' else s')\<rparr>, nt))"

definition wake_stream_Close :: "'s wake_stream \<Rightarrow> native \<Rightarrow> 's wake_stream \<times> native" where
  "wake_stream_Close ws nt =
     (case wk_stream ws of None \<Rightarrow> (ws, nt) | Some (h, _) \<Rightarrow> (ws\<lparr>wk_stream := None\<rparr>, nt_delete h nt))"

definition wake_Close :: "nat option \<Rightarrow> native \<Rightarrow> nat option \<times> native" where
  "wake_Close spotter nt = (case spotter of None \<Rightarrow> (None, nt) | Some h \<Rightarrow> (None, nt_delete h nt))"

subsection \<open>A recording is searched to the first keyword\<close>

lemma decode_all_ends:
  assumes "\<And>s. kn_ready kn s \<Longrightarrow> frames (kn_decode kn s) < (frames s :: nat)"
  shows "\<exists>s'. decode_all kn s = Some s' \<and> \<not> kn_ready kn s' \<and> (\<exists>n. s' = (kn_decode kn ^^ n) s \<and> (\<forall>i < n. kn_ready kn ((kn_decode kn ^^ i) s)))"
proof (induction "frames s" arbitrary: s rule: less_induct)
  case less
  show ?case
  proof (cases "kn_ready kn s")
    case False
    then show ?thesis by (intro exI [of _ s]) (auto simp: decode_all.simps intro: exI [of _ 0])
  next
    case True
    from less [OF assms [OF True]] obtain s' n where s': "decode_all kn (kn_decode kn s) = Some s'" "\<not> kn_ready kn s'"
        "s' = (kn_decode kn ^^ n) (kn_decode kn s)" "\<forall>i < n. kn_ready kn ((kn_decode kn ^^ i) (kn_decode kn s))" by blast
    have "s' = (kn_decode kn ^^ Suc n) s" using s'(3) by (simp add: funpow_swap1)
    moreover have "kn_ready kn ((kn_decode kn ^^ i) s)" if "i < Suc n" for i
      using that s'(4) True by (cases i) (auto simp: funpow_swap1)
    moreover have "decode_all kn s = Some s'" using s'(1) True by (subst decode_all.simps) simp
    ultimately show ?thesis using s'(2) by blast
  qed
qed

text \<open>Decode step \<open>n\<close> of a recording, when the spotter was ready for it and no keyword came before.\<close>

definition decoded_at :: "'s kws_native \<Rightarrow> 's \<Rightarrow> nat \<Rightarrow> bool" where
  "decoded_at kn s n \<longleftrightarrow> (\<forall>i \<le> n. kn_ready kn ((kn_decode kn ^^ i) s))"

lemma decoded_at_Suc: "decoded_at kn s (Suc n) \<longleftrightarrow> kn_ready kn s \<and> decoded_at kn (kn_decode kn s) n"
proof
  assume l: "decoded_at kn s (Suc n)"
  have "kn_ready kn ((kn_decode kn ^^ i) (kn_decode kn s))" if "i \<le> n" for i
    using l that unfolding decoded_at_def by (metis Suc_le_mono comp_apply funpow_Suc_right)
  moreover have "kn_ready kn s" using l unfolding decoded_at_def by (metis funpow_0 le0)
  ultimately show "kn_ready kn s \<and> decoded_at kn (kn_decode kn s) n" by (simp add: decoded_at_def)
next
  assume r: "kn_ready kn s \<and> decoded_at kn (kn_decode kn s) n"
  have "kn_ready kn ((kn_decode kn ^^ i) s)" if "i \<le> Suc n" for i
    using r that unfolding decoded_at_def by (cases i) (auto simp: funpow_swap1)
  then show "decoded_at kn s (Suc n)" by (simp add: decoded_at_def)
qed

text \<open>The answer \<open>r\<close> is the keyword of the first decode step that shows one, if any does.\<close>

definition first_keyword :: "'s kws_native \<Rightarrow> 's \<Rightarrow> string option \<Rightarrow> bool" where
  "first_keyword kn s r \<longleftrightarrow>
     (case r of
        None \<Rightarrow> \<forall>n. decoded_at kn s n \<longrightarrow> kn_keyword kn ((kn_decode kn ^^ Suc n) s) = []
      | Some kw \<Rightarrow> kw \<noteq> [] \<and> (\<exists>n. decoded_at kn s n \<and> kw = kn_keyword kn ((kn_decode kn ^^ Suc n) s) \<and>
          (\<forall>i < n. kn_keyword kn ((kn_decode kn ^^ Suc i) s) = [])))"

lemma first_keyword_later:
  assumes ready: "kn_ready kn s" and none: "kn_keyword kn (kn_decode kn s) = []" and r: "first_keyword kn (kn_decode kn s) r"
  shows "first_keyword kn s r"
proof (cases r)
  have dec: "(kn_decode kn ^^ Suc n) s = (kn_decode kn ^^ n) (kn_decode kn s)" for n by (simp add: funpow_swap1)
  have step0: "kn_keyword kn ((kn_decode kn ^^ Suc 0) s) = []" using none by simp
  {
    case None
    have "\<forall>n. decoded_at kn s n \<longrightarrow> kn_keyword kn ((kn_decode kn ^^ Suc n) s) = []"
    proof (intro allI impI)
      fix n assume that: "decoded_at kn s n"
      show "kn_keyword kn ((kn_decode kn ^^ Suc n) s) = []"
      proof (cases n)
        case 0
        show ?thesis unfolding 0 by (rule step0)
      next
        case (Suc m)
        have "decoded_at kn (kn_decode kn s) m" using that decoded_at_Suc [of kn s m] unfolding Suc by simp
        then have "kn_keyword kn ((kn_decode kn ^^ Suc m) (kn_decode kn s)) = []"
          using r [unfolded first_keyword_def None option.case] by (elim allE impE)
        then show ?thesis unfolding Suc dec .
      qed
    qed
    then show ?thesis unfolding first_keyword_def None option.case .
  next
    case (Some kw)
    obtain n where n: "kw \<noteq> []" "decoded_at kn (kn_decode kn s) n" "kw = kn_keyword kn ((kn_decode kn ^^ Suc n) (kn_decode kn s))"
        "\<forall>i < n. kn_keyword kn ((kn_decode kn ^^ Suc i) (kn_decode kn s)) = []"
      using r [unfolded first_keyword_def Some option.case] by blast
    have "\<forall>i < Suc n. kn_keyword kn ((kn_decode kn ^^ Suc i) s) = []"
    proof (intro allI impI)
      fix i assume that: "i < Suc n"
      show "kn_keyword kn ((kn_decode kn ^^ Suc i) s) = []"
      proof (cases i)
        case 0
        show ?thesis unfolding 0 by (rule step0)
      next
        case (Suc j)
        then have "j < n" using that by simp
        then have "kn_keyword kn ((kn_decode kn ^^ Suc j) (kn_decode kn s)) = []" using n(4) by (elim allE impE)
        then show ?thesis unfolding Suc dec .
      qed
    qed
    moreover have "decoded_at kn s (Suc n)" using n(2) ready by (simp only: decoded_at_Suc)
    moreover have "kw = kn_keyword kn ((kn_decode kn ^^ Suc (Suc n)) s)" unfolding n(3) dec [of "Suc n"] ..
    ultimately show ?thesis using n(1) unfolding first_keyword_def Some option.case by (intro conjI exI [of _ "Suc n"])
  }
qed

lemma detect_loop_spec:
  assumes "\<And>s. kn_ready kn s \<Longrightarrow> frames (kn_decode kn s) < (frames s :: nat)"
  shows "\<exists>r. detect_loop kn s = Some r \<and> first_keyword kn s r"
proof (induction "frames s" arbitrary: s rule: less_induct)
  case less
  consider (idle) "\<not> kn_ready kn s" | (hit) "kn_ready kn s" "kn_keyword kn (kn_decode kn s) \<noteq> []"
    | (later) "kn_ready kn s" "kn_keyword kn (kn_decode kn s) = []" by blast
  then show ?case
  proof cases
    case idle
    then have "detect_loop kn s = Some None" by (subst detect_loop.simps) simp
    moreover have "\<not> decoded_at kn s n" for n using idle unfolding decoded_at_def by (metis funpow_0 le0)
    ultimately show ?thesis by (simp add: first_keyword_def)
  next
    case hit
    then have "detect_loop kn s = Some (Some (kn_keyword kn (kn_decode kn s)))" by (subst detect_loop.simps) (simp add: Let_def)
    moreover have "decoded_at kn s 0" using hit by (simp add: decoded_at_def)
    ultimately show ?thesis using hit by (auto simp: first_keyword_def intro: exI [of _ 0])
  next
    case later
    then have loop: "detect_loop kn s = detect_loop kn (kn_decode kn s)" by (subst detect_loop.simps) (simp add: Let_def)
    from less [OF assms [OF later(1)]] obtain r where "detect_loop kn (kn_decode kn s) = Some r" "first_keyword kn (kn_decode kn s) r"
      by blast
    then show ?thesis using loop first_keyword_later [OF later] by metis
  qed
qed

text \<open>C28: When the decoding of the spotter comes to an end, searching a recording returns: it reports the
  keyword of the first decode step that shows one, and none only if no step does. The stream made for it is
  deleted again.\<close>

theorem detect_in_file_first_keyword:
  assumes "\<And>s. kn_ready kn s \<Longrightarrow> frames (kn_decode kn s) < (frames s :: nat)"
    and "kn_read kn f = Some (samples, rate)" and "kn_fresh kn (nt_next nt) = Some s" and "nt_holds hs nt" "sp \<in># hs"
  shows "\<exists>r nt'. DetectInFile kn (Wake_sherpa (Some sp)) f nt = Some (Inr r, nt') \<and>
    first_keyword kn (kn_finish kn (kn_accept kn rate samples s)) r \<and> nt_holds hs nt'"
proof -
  let ?s = "kn_finish kn (kn_accept kn rate samples s)"
  obtain r where r: "detect_loop kn ?s = Some r" "first_keyword kn ?s r" using detect_loop_spec [of kn frames ?s] assms(1) by blast
  obtain h n where new: "nt_New nt = (h, n)" by fastforce
  have n: "nt_holds (add_mset h hs) n" using nt_holds_New [OF assms(4) new] .
  have use: "nt_use sp nt = nt" "nt_use h n = n" "nt_use sp n = n"
    using nt_use_held [OF assms(4,5)] nt_use_held [OF n] assms(5) by simp_all
  have "DetectInFile kn (Wake_sherpa (Some sp)) f nt = Some (Inr r, nt_delete h n)"
    using assms(2,3) r(1) new use by (simp add: DetectInFile_def NewKeywordStream_def)
  then show ?thesis using r(2) nt_holds_delete [OF n] by blast
qed

text \<open>A spotter that counts its steps down and hears the keyword in step 2 only.\<close>

definition sample_spotter :: "nat kws_native" where
  "sample_spotter = \<lparr>kn_fresh = (\<lambda>_. Some 0), kn_accept = (\<lambda>_ xs n. n + length xs), kn_finish = id, kn_ready = (\<lambda>n. 0 < n),
     kn_decode = (\<lambda>n. n - 1), kn_keyword = (\<lambda>n. if n = 2 then ''alfred'' else []), kn_reset = id,
     kn_read = (\<lambda>_. Some (replicate 4 (Fin 0), 16000))\<rparr>"

theorem detect_in_file_first_keyword_witness:
  "\<exists>r nt'. DetectInFile sample_spotter (Wake_sherpa (Some 0)) ''f.wav'' (snd (nt_New nt_start)) = Some (Inr r, nt') \<and> first_keyword sample_spotter 4 r"
proof -
  have "nt_holds {#0#} (snd (nt_New nt_start))" by (simp add: nt_New_def nt_start_def nt_holds_def)
  then show ?thesis
    using detect_in_file_first_keyword [of sample_spotter id "''f.wav''" "replicate 4 (Fin 0)" 16000 "snd (nt_New nt_start)" 0 "{#0#}" 0]
    by (auto simp: sample_spotter_def)
qed

lemma sample_decoding:
  "decode_all sample_spotter 4 = Some 0" "detect_loop sample_spotter 4 = Some (Some ''alfred'')"
proof -
  have ready: "kn_ready sample_spotter n \<longleftrightarrow> 0 < n" "kn_decode sample_spotter n = n - 1"
      "kn_keyword sample_spotter n = (if n = 2 then ''alfred'' else [])" for n
    by (simp_all add: sample_spotter_def)
  have d: "decode_all sample_spotter 0 = Some 0" "decode_all sample_spotter (Suc n) = decode_all sample_spotter n" for n
    by (subst decode_all.simps; simp add: ready)+
  show "decode_all sample_spotter 4 = Some 0" by (simp add: eval_nat_numeral d)
  have l: "detect_loop sample_spotter (Suc n) = (if n = 2 then Some (Some ''alfred'') else detect_loop sample_spotter n)" for n
    by (subst detect_loop.simps) (simp add: ready Let_def)
  have "detect_loop sample_spotter 3 = Some (Some ''alfred'')" using l [of 2] by (simp add: eval_nat_numeral)
  then show "detect_loop sample_spotter 4 = Some (Some ''alfred'')" using l [of 3] by (simp add: eval_nat_numeral)
qed

text \<open>A live stream decodes all that is ready before it asks for the result, unlike the search of a
  recording: a keyword that only an earlier decode step shows is found in the recording and missed live.\<close>

theorem live_stream_asks_once:
  "DetectInFile sample_spotter (Wake_sherpa (Some 0)) ''f.wav'' (snd (nt_New nt_start)) =
     Some (Inr (Some ''alfred''), nt_delete 1 (snd (nt_New (snd (nt_New nt_start))))) \<and>
   map_option fst (wake_AcceptAudio sample_spotter 0 (replicate 4 (Fin 0))
     \<lparr>wk_spotter = 0, wk_stream = Some (1, 0), wk_lastReset = 0\<rparr> (snd (nt_New (snd (nt_New nt_start))))) = Some []"
proof -
  have fields: "kn_fresh sample_spotter n = Some 0" "kn_accept sample_spotter rate xs m = m + length xs" "kn_finish sample_spotter = id"
      "kn_read sample_spotter f = Some (replicate 4 (Fin 0), 16000)" "kn_keyword sample_spotter 0 = []" for n m rate xs f
    by (simp_all add: sample_spotter_def)
  show ?thesis using sample_decoding
    by (simp add: DetectInFile_def NewKeywordStream_def wake_AcceptAudio_def fields nt_New_def nt_use_def nt_start_def)
qed

end
