(* ===== verification/Stream_Resampler.thy ===== *)
theory Stream_Resampler
  imports Pcm
begin

text \<open>
  \<open>audio.PCMResampler\<close> (stream_resample.go): resampling chunk by chunk, keeping the interpolation
  phase and the samples still needed between calls. A run-time panic (an index outside
  \<open>r.input\<close>, a negative slice bound) is \<open>None\<close>, and the theorems show it never happens. The 64-bit
  counters are bounded by the two minutes of audio the callers admit, so they are HOL integers.
\<close>

record pcm_resampler =
  rs_src :: int
  rs_dst :: int
  rs_input :: "i16 list"
  rs_base :: int
  rs_total :: int
  rs_output :: int

definition NewPCMResampler :: "int \<Rightarrow> int \<Rightarrow> pcm_resampler" where
  "NewPCMResampler src dst =
     \<lparr>rs_src = src, rs_dst = dst, rs_input = [], rs_base = 0, rs_total = 0, rs_output = 0\<rparr>"

definition interpolate :: "i16 \<Rightarrow> i16 option \<Rightarrow> f64 \<Rightarrow> i16" where
  "interpolate s0 s1 fraction =
     (let value = f_of_int float64 (sint s0);
          value = (case s1 of None \<Rightarrow> value
                   | Some s \<Rightarrow> f_add float64 value
                                 (f_mul float64 (f_sub float64 (f_of_int float64 (sint s)) value) fraction))
      in word_of_int (f_to_int value))"

definition phase :: "int \<Rightarrow> int \<Rightarrow> int \<Rightarrow> f64" where
  "phase src dst output =
     f_div float64 (f_of_int float64 (go_mod (output * src) dst)) (f_of_int float64 dst)"

text \<open>The loop of \<open>emit\<close>: the samples it appends and the output counter it leaves.\<close>

function emit_loop :: "pcm_resampler \<Rightarrow> bool \<Rightarrow> int \<Rightarrow> int \<Rightarrow> (i16 list \<times> int) option" where
  "emit_loop r final limit output =
     (if output < limit
      then let index = go_div (output * rs_src r) (rs_dst r);
               fraction = phase (rs_src r) (rs_dst r) output;
               i = index - rs_base r
           in if \<not> final \<and> rs_total r \<le> index + 1 then Some ([], output)
              else if i < 0 \<or> int (length (rs_input r)) \<le> i then None
              else let value = interpolate (rs_input r ! nat i)
                         (if i + 1 < int (length (rs_input r)) then Some (rs_input r ! nat (i + 1)) else None)
                         fraction
                   in case emit_loop r final limit (output + 1) of
                        None \<Rightarrow> None
                      | Some (out, output') \<Rightarrow> Some (value # out, output')
      else Some ([], output))"
  by pat_completeness auto
termination
  by (relation "measure (\<lambda>(r, final, limit, output). nat (limit - output))") auto

declare emit_loop.simps [simp del]

definition emit :: "bool \<Rightarrow> pcm_resampler \<Rightarrow> (i16 list \<times> pcm_resampler) option" where
  "emit final r =
     (if rs_src r \<le> 0 \<or> rs_dst r \<le> 0 then Some ([], r)
      else case emit_loop r final (go_div (rs_total r * rs_dst r) (rs_src r)) (rs_output r) of
        None \<Rightarrow> None
      | Some (out, output) \<Rightarrow>
          (let next = go_div (output * rs_src r) (rs_dst r);
               n = min (next - rs_base r) (int (length (rs_input r)))
           in if n < 0 then None
              else Some (out, r\<lparr>rs_output := output, rs_input := drop (nat n) (rs_input r),
                                rs_base := rs_base r + n\<rparr>)))"

definition resampler_Push :: "i16 list \<Rightarrow> pcm_resampler \<Rightarrow> (i16 list \<times> pcm_resampler) option" where
  "resampler_Push samples r =
     emit False (r\<lparr>rs_input := rs_input r @ samples, rs_total := rs_total r + int (length samples)\<rparr>)"

definition resampler_Flush :: "pcm_resampler \<Rightarrow> (i16 list \<times> pcm_resampler) option" where
  "resampler_Flush r = emit True r"

text \<open>A client: push the chunks in order, flush, and concatenate what comes out.\<close>

fun resample_chunks :: "i16 list list \<Rightarrow> pcm_resampler \<Rightarrow> i16 list option" where
  "resample_chunks [] r = map_option fst (resampler_Flush r)"
| "resample_chunks (c # cs) r =
     (case resampler_Push c r of None \<Rightarrow> None
      | Some (out, r') \<Rightarrow> map_option (\<lambda>rest. out @ rest) (resample_chunks cs r'))"

subsection \<open>The specification: one sample as a function of the whole recording\<close>

definition resample_spec_at :: "int \<Rightarrow> int \<Rightarrow> i16 list \<Rightarrow> nat \<Rightarrow> i16" where
  "resample_spec_at src dst full k =
     (let index = nat (int k * src div dst)
      in interpolate (full ! index)
           (if index + 1 < length full then Some (full ! (index + 1)) else None)
           (phase src dst (int k)))"

definition resample_spec :: "int \<Rightarrow> int \<Rightarrow> i16 list \<Rightarrow> i16 list" where
  "resample_spec src dst full =
     map (resample_spec_at src dst full) [0..<nat (int (length full) * dst div src)]"

lemma resample_spec_at_append:
  assumes "nat (int k * src div dst) + 1 < length full"
  shows "resample_spec_at src dst (full @ rest) k = resample_spec_at src dst full k"
  using assms by (simp add: resample_spec_at_def Let_def nth_append)

subsection \<open>The resampler keeps what the specification needs\<close>

definition resampler_inv :: "int \<Rightarrow> int \<Rightarrow> i16 list \<Rightarrow> pcm_resampler \<Rightarrow> bool" where
  "resampler_inv src dst full r \<longleftrightarrow>
     rs_src r = src \<and> rs_dst r = dst \<and> rs_total r = int (length full) \<and>
     0 \<le> rs_output r \<and> rs_output r * src \<le> rs_total r * dst \<and>
     rs_base r = rs_output r * src div dst \<and>
     rs_input r = drop (nat (rs_base r)) full"

lemma resampler_inv_New [simp]:
  "resampler_inv src dst [] (NewPCMResampler src dst)"
  by (simp add: resampler_inv_def NewPCMResampler_def)

lemma div_le_of_mult_le: "0 < (d::int) \<Longrightarrow> a \<le> t * d \<Longrightarrow> a div d \<le> t"
  by (metis nonzero_mult_div_cancel_right order_less_irrefl zdiv_mono1)

lemma limit_index:
  assumes "0 < (src::int)" and "0 < dst" and "0 \<le> k" and "k < t * dst div src"
  shows "(k + 1) * src \<le> t * dst" and "k * src div dst < t"
proof -
  have "(k + 1) * src \<le> (t * dst div src) * src" using assms by (intro mult_right_mono) simp_all
  also have "\<dots> \<le> t * dst" using assms(1) by (simp add: div_mult2_eq minus_mod_eq_div_mult [symmetric])
  finally show le: "(k + 1) * src \<le> t * dst" .
  then have "k * src < t * dst" using assms(1) by (simp add: distrib_right)
  show "k * src div dst < t"
  proof (rule ccontr)
    assume "\<not> k * src div dst < t"
    then have "t * dst \<le> (k * src div dst) * dst" using assms(2) by (intro mult_right_mono) simp_all
    also have "\<dots> \<le> k * src" using assms(2) by (simp add: minus_mod_eq_div_mult [symmetric])
    finally show False using \<open>k * src < t * dst\<close> by simp
  qed
qed

lemma nat_upt_Cons: "0 \<le> a \<Longrightarrow> a + 1 \<le> b \<Longrightarrow> [nat a..<nat b] = nat a # [nat (a + 1)..<nat b]"
  by (simp add: upt_conv_Cons nat_add_distrib)

lemma emit_value:
  assumes "rs_input r = drop (nat (rs_base r)) full" and "0 \<le> rs_base r" and "rs_base r \<le> index" and "index < int (length full)"
    and index: "index = ou * src div dst" and "0 \<le> ou"
  shows "interpolate (rs_input r ! nat (index - rs_base r))
      (if index - rs_base r + 1 < int (length (rs_input r)) then Some (rs_input r ! nat (index - rs_base r + 1)) else None)
      (phase src dst ou) = resample_spec_at src dst full (nat ou)"
proof -
  have len: "int (length (rs_input r)) = int (length full) - rs_base r"
    using assms(1-4) by simp
  have e1: "rs_input r ! nat (index - rs_base r) = full ! nat index"
  proof -
    have "nat (rs_base r) + nat (index - rs_base r) = nat index" using assms(2,3) by linarith
    then show ?thesis using assms(1,3,4) by (simp add: nth_drop)
  qed
  have e2: "rs_input r ! nat (index - rs_base r + 1) = full ! (nat index + 1)" if "index + 1 < int (length full)"
  proof -
    have "nat (rs_base r) + nat (index - rs_base r + 1) = nat index + 1" using assms(2,3) by linarith
    moreover have "nat (rs_base r) \<le> length full" using assms(2,3) that by linarith
    ultimately show ?thesis using assms(1) by (simp add: nth_drop)
  qed
  have c: "(index - rs_base r + 1 < int (length (rs_input r))) = (nat index + 1 < length full)"
    using len assms(2,3) by linarith
  show ?thesis
    unfolding resample_spec_at_def using e1 e2 c assms(6) by (auto simp: Let_def index [symmetric])
qed

lemma emit_loop_spec:
  assumes pos: "0 < src" "0 < dst"
    and r: "rs_src r = src" "rs_dst r = dst" "rs_total r = int (length full)"
           "rs_input r = drop (nat (rs_base r)) full" "0 \<le> rs_base r"
    and o: "0 \<le> ou" "rs_base r \<le> ou * src div dst" "ou * src \<le> rs_total r * dst"
    and l: "limit = rs_total r * dst div src"
  shows "\<exists>out ou'. emit_loop r final limit ou = Some (out, ou') \<and>
           ou \<le> ou' \<and> ou' * src \<le> rs_total r * dst \<and>
           (final \<longrightarrow> ou' = max ou limit) \<and>
           out = map (resample_spec_at src dst full) [nat ou..<nat ou'] \<and>
           (\<not> final \<longrightarrow> (\<forall>k. nat ou \<le> k \<longrightarrow> k < nat ou' \<longrightarrow> nat (int k * src div dst) + 1 < length full))"
  using o
proof (induction "nat (limit - ou)" arbitrary: ou rule: less_induct)
  case less
  define index where "index = ou * src div dst"
  have idx0: "0 \<le> index" using pos less.prems(1) by (simp add: index_def pos_imp_zdiv_nonneg_iff)
  have gd: "go_div (ou * src) dst = index" using pos less.prems(1) by (simp add: index_def)
  show ?case
  proof (cases "ou < limit")
    case False
    then show ?thesis using less.prems by (subst emit_loop.simps) auto
  next
    case lt: True
    note li = limit_index [OF pos less.prems(1), of "rs_total r"]
    have idx: "index < int (length full)" using li(2) lt l r(3) by (simp add: index_def)
    have ge: "rs_base r \<le> index" using less.prems(2) by (simp add: index_def)
    show ?thesis
    proof (cases "\<not> final \<and> rs_total r \<le> index + 1")
      case True
      then show ?thesis using less.prems lt r gd by (subst emit_loop.simps) (auto simp: Let_def)
    next
      case go: False
      let ?i = "index - rs_base r"
      have len: "int (length (rs_input r)) = int (length full) - rs_base r"
        using r(4,5) ge idx by simp
      have i_ok: "\<not> (?i < 0 \<or> int (length (rs_input r)) \<le> ?i)" using ge idx len by linarith
      have val: "interpolate (rs_input r ! nat ?i)
            (if ?i + 1 < int (length (rs_input r)) then Some (rs_input r ! nat (?i + 1)) else None)
            (phase src dst ou) = resample_spec_at src dst full (nat ou)"
        by (rule emit_value [OF r(4,5) ge idx index_def less.prems(1)])
      have next_le: "(ou + 1) * src \<le> rs_total r * dst" using li(1) lt l by simp
      have mono: "index \<le> (ou + 1) * src div dst"
        unfolding index_def using pos by (intro zdiv_mono1) (simp_all add: distrib_right)
      have "\<exists>out ou'. emit_loop r final limit (ou + 1) = Some (out, ou') \<and>
           ou + 1 \<le> ou' \<and> ou' * src \<le> rs_total r * dst \<and>
           (final \<longrightarrow> ou' = max (ou + 1) limit) \<and>
           out = map (resample_spec_at src dst full) [nat (ou + 1)..<nat ou'] \<and>
           (\<not> final \<longrightarrow> (\<forall>k. nat (ou + 1) \<le> k \<longrightarrow> k < nat ou' \<longrightarrow> nat (int k * src div dst) + 1 < length full))"
        using less.prems(1) lt ge mono next_le by (intro less.hyps) linarith+
      then obtain out ou' where ih: "emit_loop r final limit (ou + 1) = Some (out, ou')"
          "ou + 1 \<le> ou'" "ou' * src \<le> rs_total r * dst"
          "final \<longrightarrow> ou' = max (ou + 1) limit"
          "out = map (resample_spec_at src dst full) [nat (ou + 1)..<nat ou']"
          "\<not> final \<longrightarrow> (\<forall>k. nat (ou + 1) \<le> k \<longrightarrow> k < nat ou' \<longrightarrow> nat (int k * src div dst) + 1 < length full)"
        by blast
      have "emit_loop r final limit ou = Some (resample_spec_at src dst full (nat ou) # out, ou')"
        using lt go i_ok val ih(1) r gd by (subst emit_loop.simps) (simp add: Let_def)
      moreover have "resample_spec_at src dst full (nat ou) # out = map (resample_spec_at src dst full) [nat ou..<nat ou']"
        using ih(2,5) less.prems(1) nat_upt_Cons [of ou ou'] by simp
      moreover have "nat (int k * src div dst) + 1 < length full"
        if "\<not> final" "nat ou \<le> k" "k < nat ou'" for k
      proof (cases "k = nat ou")
        case True
        then show ?thesis using go that(1) r(3) idx0 less.prems(1) by (simp add: index_def)
      next
        case False
        then show ?thesis using that ih(6) less.prems(1) by auto
      qed
      ultimately show ?thesis using ih(2-4) lt by (intro exI conjI) auto
    qed
  qed
qed

lemma emit_spec:
  assumes pos: "0 < src" "0 < dst"
    and r: "rs_src r = src" "rs_dst r = dst" "rs_total r = int (length full)"
           "rs_input r = drop (nat (rs_base r)) full" "rs_base r = rs_output r * src div dst"
           "0 \<le> rs_output r" "rs_output r * src \<le> rs_total r * dst"
  shows "\<exists>out r'. emit final r = Some (out, r') \<and> resampler_inv src dst full r' \<and>
           rs_output r \<le> rs_output r' \<and>
           (final \<longrightarrow> rs_output r' = max (rs_output r) (int (length full) * dst div src)) \<and>
           out = map (resample_spec_at src dst full) [nat (rs_output r)..<nat (rs_output r')] \<and>
           (\<not> final \<longrightarrow> (\<forall>k. nat (rs_output r) \<le> k \<longrightarrow> k < nat (rs_output r') \<longrightarrow>
              nat (int k * src div dst) + 1 < length full))"
proof -
  let ?limit = "rs_total r * dst div src"
  have b0: "0 \<le> rs_base r" using r(5,6) pos by (simp add: pos_imp_zdiv_nonneg_iff)
  obtain out ou where l: "emit_loop r final ?limit (rs_output r) = Some (out, ou)"
      "rs_output r \<le> ou" "ou * src \<le> rs_total r * dst" "final \<longrightarrow> ou = max (rs_output r) ?limit"
      "out = map (resample_spec_at src dst full) [nat (rs_output r)..<nat ou]"
      "\<not> final \<longrightarrow> (\<forall>k. nat (rs_output r) \<le> k \<longrightarrow> k < nat ou \<longrightarrow> nat (int k * src div dst) + 1 < length full)"
    using emit_loop_spec [OF pos r(1-4) b0 r(6) eq_refl [OF r(5)] r(7) refl, of final] by blast
  have o0: "0 \<le> ou" using l(2) r(6) by simp
  have next_le: "ou * src div dst \<le> int (length full)"
    using l(3) r(3) pos by (intro div_le_of_mult_le) simp_all
  have base_next: "rs_base r \<le> ou * src div dst"
    unfolding r(5) using pos l(2) by (intro zdiv_mono1 mult_right_mono) simp_all
  define n where "n = min (ou * src div dst - rs_base r) (int (length (rs_input r)))"
  have n: "n = ou * src div dst - rs_base r"
    using next_le base_next b0 r(4) by (simp add: n_def)
  have drop: "drop (nat n) (rs_input r) = drop (nat (ou * src div dst)) full"
  proof -
    have "nat n + nat (rs_base r) = nat (ou * src div dst)" using n base_next b0 by linarith
    then show ?thesis using r(4) by simp
  qed
  let ?r' = "r\<lparr>rs_output := ou, rs_input := drop (nat n) (rs_input r), rs_base := rs_base r + n\<rparr>"
  have "emit final r = Some (out, ?r')"
    using pos r(1,2,3) l(1) o0 n base_next
    by (simp add: emit_def Let_def n_def [symmetric] not_le)
  moreover have "resampler_inv src dst full ?r'"
    using r l(3) o0 drop n by (simp add: resampler_inv_def)
  ultimately show ?thesis using l r(3) by (intro exI conjI) auto
qed

lemma resampler_invD:
  assumes "resampler_inv src dst full r"
  shows "rs_src r = src" "rs_dst r = dst" "rs_total r = int (length full)"
    "rs_input r = drop (nat (rs_base r)) full" "rs_base r = rs_output r * src div dst"
    "0 \<le> rs_output r" "rs_output r * src \<le> rs_total r * dst"
  using assms by (auto simp: resampler_inv_def)

lemma Push_spec:
  assumes pos: "0 < src" "0 < dst" and inv: "resampler_inv src dst full r"
  shows "\<exists>out r'. resampler_Push c r = Some (out, r') \<and> resampler_inv src dst (full @ c) r' \<and>
           rs_output r \<le> rs_output r' \<and>
           (\<forall>rest. out = map (resample_spec_at src dst (full @ c @ rest)) [nat (rs_output r)..<nat (rs_output r')])"
proof -
  note i = resampler_invD [OF inv]
  let ?r = "r\<lparr>rs_input := rs_input r @ c, rs_total := rs_total r + int (length c)\<rparr>"
  have base_le: "nat (rs_base r) \<le> length full"
    using div_le_of_mult_le [OF pos(2) i(7)] i(3,5) by simp
  have "rs_output r * src \<le> (rs_total r + int (length c)) * dst"
    using i(7) pos by (simp add: distrib_right add_increasing2)
  then obtain out r' where e: "emit False ?r = Some (out, r')" "resampler_inv src dst (full @ c) r'"
      "rs_output r \<le> rs_output r'"
      "out = map (resample_spec_at src dst (full @ c)) [nat (rs_output r)..<nat (rs_output r')]"
      "\<forall>k. nat (rs_output r) \<le> k \<longrightarrow> k < nat (rs_output r') \<longrightarrow>
              nat (int k * src div dst) + 1 < length (full @ c)"
    using emit_spec [OF pos, of ?r "full @ c" False] i base_le by auto
  have "out = map (resample_spec_at src dst (full @ c @ rest)) [nat (rs_output r)..<nat (rs_output r')]" for rest
    using e(4,5) resample_spec_at_append [of _ src dst "full @ c" rest] by auto
  with e show ?thesis unfolding resampler_Push_def by blast
qed

lemma resample_chunks_spec:
  assumes pos: "0 < src" "0 < dst" and inv: "resampler_inv src dst full r"
  shows "resample_chunks cs r =
    Some (map (resample_spec_at src dst (full @ concat cs))
            [nat (rs_output r)..<max (nat (rs_output r)) (nat (int (length (full @ concat cs)) * dst div src))])"
  using inv
proof (induction cs arbitrary: full r)
  case Nil
  note i = resampler_invD [OF Nil]
  obtain out r' where "emit True r = Some (out, r')"
      "rs_output r' = max (rs_output r) (int (length full) * dst div src)"
      "out = map (resample_spec_at src dst full) [nat (rs_output r)..<nat (rs_output r')]"
    using emit_spec [OF pos i, of True] by auto
  moreover have "nat (max a b) = max (nat a) (nat b)" for a b :: int by (simp add: max_def)
  ultimately show ?case by (simp add: resampler_Flush_def)
next
  case (Cons c cs)
  obtain out r' where p: "resampler_Push c r = Some (out, r')" "resampler_inv src dst (full @ c) r'"
      "rs_output r \<le> rs_output r'"
      "\<forall>rest. out = map (resample_spec_at src dst (full @ c @ rest)) [nat (rs_output r)..<nat (rs_output r')]"
    using Push_spec [OF pos Cons.prems, of c] by blast
  have le: "nat (rs_output r') \<le> nat (int (length (full @ concat (c # cs))) * dst div src)"
  proof -
    note i = resampler_invD [OF p(2)]
    have "rs_output r' \<le> rs_total r' * dst div src"
      using i(7) pos by (metis nonzero_mult_div_cancel_right order_less_irrefl zdiv_mono1)
    also have "\<dots> \<le> int (length (full @ concat (c # cs))) * dst div src"
      unfolding i(3) using pos by (intro zdiv_mono1 mult_right_mono) simp_all
    finally show ?thesis by (rule nat_mono)
  qed
  have "resample_chunks cs r' = Some (map (resample_spec_at src dst (full @ concat (c # cs)))
        [nat (rs_output r')..<nat (int (length (full @ concat (c # cs))) * dst div src)])"
    using Cons.IH [OF p(2)] le by (simp add: max_def)
  moreover have "[nat (rs_output r)..<nat (int (length (full @ concat (c # cs))) * dst div src)] =
      [nat (rs_output r)..<nat (rs_output r')] @ [nat (rs_output r')..<nat (int (length (full @ concat (c # cs))) * dst div src)]"
    using le nat_mono [OF p(3)] by (metis le_add_diff_inverse upt_add_eq_append)
  ultimately show ?case using p(1) p(4) [rule_format, of "concat cs"] le nat_mono [OF p(3)]
    by (simp add: max_def)
qed

subsection \<open>Chunking does not matter\<close>

text \<open>C22: However a recording is cut into chunks, pushing them one by one and flushing gives the same samples:
  those of the interpolation of the whole recording, each once and in order.\<close>

theorem resample_chunk_independent:
  assumes "0 < src" and "0 < dst"
  shows "resample_chunks cs (NewPCMResampler src dst) = Some (resample_spec src dst (concat cs))"
proof -
  have "resampler_inv src dst [] (NewPCMResampler src dst)"
    by (simp add: resampler_inv_def NewPCMResampler_def)
  from resample_chunks_spec [OF assms this, of cs] show ?thesis
    by (simp add: resample_spec_def NewPCMResampler_def)
qed

theorem resample_chunk_independent_witness:
  "resample_chunks [[0, 100], [], [200]] (NewPCMResampler 1 2) =
   resample_chunks [[0], [100, 200]] (NewPCMResampler 1 2)"
  using resample_chunk_independent [of 1 2 "[[0, 100], [], [200]]"]
    resample_chunk_independent [of 1 2 "[[0], [100, 200]]"] by simp

end
