(* ===== verification/Playout.thy ===== *)
theory Playout
  imports Audio_Source
begin

text \<open>
  What the two playback paths of the WebRTC client share (internal/webrtc/client.go, talkback.go): audio is
  cut into frames of a fixed size, the rest is carried over to the next chunk, and the loop of
  \<open>PlayStream\<close> reads a source chunk by chunk and hands every chunk on.
\<close>

text \<open>Frames are 10 ms long: 480 samples at the 48 kHz of Opus, 80 bytes at the 8 kHz of PCMU.\<close>

abbreviation opusRate :: int where "opusRate \<equiv> 48000"
abbreviation opusFrameSize :: nat where "opusFrameSize \<equiv> 480"
abbreviation pcmuFrameBytes :: nat where "pcmuFrameBytes \<equiv> 80"

subsection \<open>Frames\<close>

function frames_of :: "nat \<Rightarrow> 'a list \<Rightarrow> 'a list list \<times> 'a list" where
  "frames_of n xs =
     (if 0 < n \<and> n \<le> length xs
      then (case frames_of n (drop n xs) of (fs, rest) \<Rightarrow> (take n xs # fs, rest))
      else ([], xs))"
  by pat_completeness auto
termination by (relation "measure (\<lambda>(n, xs). length xs)") auto

declare frames_of.simps [simp del]

text \<open>The frames of all of a recording: the last one is filled up with silence.\<close>

definition padded :: "nat \<Rightarrow> 'a \<Rightarrow> 'a list \<Rightarrow> 'a list list" where
  "padded n silence xs =
     (case frames_of n xs of (fs, rest) \<Rightarrow> if rest = [] then fs else fs @ [rest @ replicate (n - length rest) silence])"

lemma frames_step:
  "0 < n \<Longrightarrow> n \<le> length xs \<Longrightarrow>
     frames_of n xs = (take n xs # fst (frames_of n (drop n xs)), snd (frames_of n (drop n xs)))"
  by (subst frames_of.simps) (simp split: prod.splits)

lemma frames_stop: "length xs < n \<Longrightarrow> frames_of n xs = ([], xs)"
  by (subst frames_of.simps) simp

lemma frames_append:
  "0 < n \<Longrightarrow> frames_of n (xs @ ys) =
     (case frames_of n xs of (fs, rest) \<Rightarrow> case frames_of n (rest @ ys) of (gs, r) \<Rightarrow> (fs @ gs, r))"
proof (induction n xs rule: frames_of.induct)
  case (1 n xs)
  show ?case
  proof (cases "n \<le> length xs")
    case False
    then show ?thesis using frames_stop [of xs n] by simp
  next
    case True
    then have "frames_of n (xs @ ys) = (case frames_of n (drop n xs @ ys) of (fs, rest) \<Rightarrow> (take n xs # fs, rest))"
      using 1(2) by (subst frames_of.simps) simp
    then show ?thesis using 1 True by (simp add: frames_step [of n xs] split: prod.splits)
  qed
qed

lemma frames_spec:
  "0 < n \<Longrightarrow> concat (fst (frames_of n xs)) @ snd (frames_of n xs) = xs \<and> length (snd (frames_of n xs)) < n \<and>
     (\<forall>f \<in> set (fst (frames_of n xs)). length f = n)"
proof (induction n xs rule: frames_of.induct)
  case (1 n xs)
  show ?case
  proof (cases "n \<le> length xs")
    case False
    then show ?thesis using frames_stop [of xs n] by simp
  next
    case True
    then have "length (take n xs) = n" by simp
    then show ?thesis using 1(1) [OF conjI [OF 1(2) True] 1(2)] unfolding frames_step [OF 1(2) True] fst_conv snd_conv
      by (simp only: concat.simps append_assoc append_take_drop_id list.set ball_simps simp_thms) blast
  qed
qed

lemma padded_append:
  assumes "0 < n" and "frames_of n xs = (fs, rest)"
  shows "padded n z (xs @ ys) = fs @ padded n z (rest @ ys)"
proof -
  have "frames_of n (xs @ ys) = (case frames_of n (rest @ ys) of (gs, r) \<Rightarrow> (fs @ gs, r))"
    using frames_append [OF assms(1), of xs ys] unfolding assms(2) prod.case .
  then show ?thesis unfolding padded_def by (simp split: prod.splits)
qed

lemma padded_Nil [simp]: "0 < n \<Longrightarrow> padded n z [] = []"
  by (simp add: padded_def frames_stop)

text \<open>Every frame is full, and without the silence at the end the frames are the recording.\<close>

lemma padded_spec:
  assumes "0 < n"
  shows "(\<forall>f \<in> set (padded n z xs). length f = n) \<and> (\<exists>k < n. concat (padded n z xs) = xs @ replicate k z)"
proof -
  obtain fs rest where f: "frames_of n xs = (fs, rest)" by fastforce
  then have s: "concat fs @ rest = xs" "length rest < n" "\<forall>f \<in> set fs. length f = n"
    using frames_spec [OF assms, of xs] by simp_all
  show ?thesis
  proof (cases "rest = []")
    case True
    then show ?thesis using s f assms by (auto simp: padded_def intro: exI [of _ 0])
  next
    case False
    then have p: "padded n z xs = fs @ [rest @ replicate (n - length rest) z]" using f by (simp add: padded_def)
    have "concat (padded n z xs) = xs @ replicate (n - length rest) z" unfolding p using s(1) by (simp flip: append_assoc)
    moreover have "n - length rest < n" using False assms by simp
    moreover have "\<forall>f \<in> set (padded n z xs). length f = n" unfolding p using s by simp
    ultimately show ?thesis by blast
  qed
qed

subsection \<open>The loop of PlayStream\<close>

text \<open>
  \<open>push i pcm p\<close> hands the chunk of turn \<open>i\<close> on; \<open>None\<close> would be a panic. \<open>ctx i\<close> is what the context
  answers to the read of that turn.
\<close>

type_synonym 'p pusher = "nat \<Rightarrow> i16 list \<Rightarrow> 'p \<Rightarrow> (go_error option \<times> 'p) option"

partial_function (option) play_loop ::
    "'s reader \<Rightarrow> (nat \<Rightarrow> ctx_err) \<Rightarrow> 'p pusher \<Rightarrow> nat \<Rightarrow> 's \<Rightarrow> 'p \<Rightarrow> (go_error option \<times> 's \<times> 'p) option" where
  "play_loop read ctx push i src p =
     (case read (ctx i) 2048 src of
        ((pcm, e), src') \<Rightarrow>
          (case (if pcm \<noteq> [] then push i pcm p else Some (None, p)) of
             None \<Rightarrow> None
           | Some (Some err, p') \<Rightarrow> Some (Some err, src', p')
           | Some (None, p') \<Rightarrow>
               if e = Some Io_EOF then Some (None, src', p')
               else if e \<noteq> None then Some (e, src', p')
               else play_loop read ctx push (Suc i) src' p'))"

text \<open>All the chunks of a recording, handed on one after the other.\<close>

fun push_all :: "'p pusher \<Rightarrow> nat \<Rightarrow> i16 list list \<Rightarrow> 'p \<Rightarrow> 'p option" where
  "push_all push i [] p = Some p"
| "push_all push i (c # cs) p =
     (case push i c p of Some (None, p') \<Rightarrow> push_all push (Suc i) cs p' | _ \<Rightarrow> None)"

text \<open>The chunks that reading a source in pieces of 2048 samples gives, until it says EOF.\<close>

partial_function (option) source_reads :: "'s reader \<Rightarrow> 's \<Rightarrow> i16 list list option" where
  "source_reads read src =
     (case read None 2048 src of
        ((pcm, None), src') \<Rightarrow>
          Option.bind (source_reads read src') (\<lambda>cs. Some (if pcm = [] then cs else pcm # cs))
      | ((pcm, Some e), src') \<Rightarrow> Some (if pcm = [] then [] else [pcm]))"

context pcm_source begin

text \<open>
  Playing a source that keeps the contract always ends; without an error every sample of it was handed on,
  in the chunks that reading it gives, none of them empty.
\<close>

lemma play_loop_ends:
  assumes "ok s" and "\<forall>i. ctx i \<noteq> Some Io_EOF"
    and step: "\<And>j c q. Q q \<Longrightarrow> \<exists>e q'. push j c q = Some (e, q') \<and> Q q'" and "Q p"
  shows "\<exists>e s' p' cs. play_loop read ctx push i s p = Some (e, s', p') \<and> Q p' \<and> [] \<notin> set cs \<and>
    (e = None \<longrightarrow> source_reads read s = Some cs \<and> concat cs = rest s \<and> push_all push i cs p = Some p')"
  using assms(1,4)
proof (induction "length (rest s)" arbitrary: i s p rule: less_induct)
  case less
  show ?case
  proof (cases "ctx i")
    case (Some err)
    then have "read (ctx i) 2048 s = (([], Some err), s)" "err \<noteq> Io_EOF"
      using read_dead [OF less.prems(1), of err] assms(2) by auto
    then have "play_loop read ctx push i s p = Some (Some err, s, p)" using Some by (subst play_loop.simps) simp
    then show ?thesis using less.prems(2) by (intro exI [of _ "Some err"] exI [of _ s] exI [of _ p] exI [of _ "[]"]) simp
  next
    case None
    obtain c e s1 where r: "read None 2048 s = ((c, e), s1)" by (metis surj_pair)
    note l = read_live [OF less.prems(1) _ r]
    obtain f q where q: "(if c \<noteq> [] then push i c p else Some (None, p)) = Some (f, q)" "Q q"
      using step [OF less.prems(2), of i c] less.prems(2) by (cases "c = []") auto
    have unfold: "play_loop read ctx push i s p =
        (case f of Some err \<Rightarrow> Some (Some err, s1, q)
         | None \<Rightarrow> if e = Some Io_EOF then Some (None, s1, q) else if e \<noteq> None then Some (e, s1, q)
             else play_loop read ctx push (Suc i) s1 q)"
      unfolding play_loop.simps [of read ctx push i s p] None r prod.case q(1) by (auto split: option.splits)
    show ?thesis
    proof (cases f)
      case (Some err)
      then show ?thesis using unfold q(2) by (intro exI [of _ "Some err"] exI [of _ s1] exI [of _ q] exI [of _ "[]"]) simp
    next
      case f: None
      show ?thesis
      proof (cases e)
        case (Some err)
        then have eof: "e = Some Io_EOF" "rest s1 = []" using l by auto
        let ?cs = "if c = [] then [] else [c]"
        have "push_all push i ?cs p = Some q" using q(1) f by (auto split: if_splits)
        moreover have "play_loop read ctx push i s p = Some (None, s1, q)" using unfold f eof by simp
        moreover have "source_reads read s = Some ?cs" using r Some by (subst source_reads.simps) simp
        ultimately show ?thesis using q(2) l eof
          by (intro exI [of _ None] exI [of _ s1] exI [of _ q] exI [of _ ?cs]) auto
      next
        case e: None
        then have s1: "length (rest s1) < length (rest s)" "ok s1" "c \<noteq> []" using l by auto
        from less.hyps [OF this(1,2) q(2), of "Suc i"] obtain e' s' p' cs where
          ih: "play_loop read ctx push (Suc i) s1 q = Some (e', s', p')" "Q p'" "[] \<notin> set cs"
            "e' = None \<longrightarrow> source_reads read s1 = Some cs \<and> concat cs = rest s1 \<and> push_all push (Suc i) cs q = Some p'" by blast
        moreover have "push i c p = Some (None, q)" using q(1) f s1(3) by simp
        moreover have "source_reads read s = map_option (\<lambda>cs. c # cs) (source_reads read s1)"
          using r e s1(3) by (subst source_reads.simps) (cases "source_reads read s1", simp_all)
        ultimately show ?thesis using unfold f e l s1(3)
          by (intro exI [of _ e'] exI [of _ s'] exI [of _ p'] exI [of _ "c # cs"]) simp
      qed
    qed
  qed
qed

end

end
