(* ===== verification/Talkback.thy ===== *)
theory Talkback
  imports Stream_Resampler Playout "HOL-Library.Sublist"
begin

text \<open>
  The sender of the doorbell backchannel (internal/webrtc/talkback.go): speech is resampled to 48 kHz, cut
  into frames of 10 ms, encoded and queued; one goroutine paces the queue, or silence, onto the track.
  Every mutex section is one function; a wait on the condition variable is an answer. The player of an
  utterance runs against the goroutine: at each of its looks at the queue it sees what the goroutine, the
  hooks of the connection and \<open>close\<close> have done meanwhile, and while it is parked it looks again only when one
  of them broadcasts. Measurements (lateness, delay of the first frame) are left out.
\<close>

record talkback =
  tb_resampler :: "pcm_resampler option"
  tb_pcmIn :: "i16 list"
  tb_queue :: "byte list list"
  tb_closed :: bool
  tb_failure :: "go_error option"
  tb_writeFailures :: nat
  tb_routeFailures :: nat
  tb_queueHighWater :: nat
  tb_underruns :: nat
  tb_playing :: bool
  tb_firstAudioSent :: bool
  tb_inFlight :: bool

definition tb_new :: talkback where
  "tb_new = \<lparr>tb_resampler = None, tb_pcmIn = [], tb_queue = [], tb_closed = False, tb_failure = None, tb_writeFailures = 0,
     tb_routeFailures = 0, tb_queueHighWater = 0, tb_underruns = 0, tb_playing = False, tb_firstAudioSent = False, tb_inFlight = False\<rparr>"

subsection \<open>Pacing\<close>

datatype tb_enqueued = Enq_waits | Enq_fails go_error | Enq_done talkback

definition tb_closed_error :: "talkback \<Rightarrow> go_error" where
  "tb_closed_error t = (case tb_failure t of Some e \<Rightarrow> e | None \<Rightarrow> Io_ErrClosedPipe)"

definition tb_enqueue :: "ctx_err \<Rightarrow> byte list \<Rightarrow> talkback \<Rightarrow> tb_enqueued" where
  "tb_enqueue cerr frame t =
     (if 100 \<le> length (tb_queue t) \<and> \<not> tb_closed t \<and> cerr = None then Enq_waits
      else case cerr of
        Some err \<Rightarrow> Enq_fails err
      | None \<Rightarrow>
          if tb_closed t then Enq_fails (tb_closed_error t)
          else Enq_done (t\<lparr>tb_queue := tb_queue t @ [frame],
                           tb_queueHighWater := max (tb_queueHighWater t) (length (tb_queue t) + 1)\<rparr>))"

datatype tb_drained = Drain_waits | Drain_returns "go_error option"

definition tb_waitDrained :: "ctx_err \<Rightarrow> talkback \<Rightarrow> tb_drained" where
  "tb_waitDrained cerr t =
     (if (tb_queue t \<noteq> [] \<or> tb_inFlight t) \<and> \<not> tb_closed t \<and> cerr = None then Drain_waits
      else case cerr of
        Some err \<Rightarrow> Drain_returns (Some err)
      | None \<Rightarrow> Drain_returns (if tb_closed t then Some (tb_closed_error t) else None))"

text \<open>A tick of \<open>run\<close>: it ends, or writes a frame of the queue, or silence (\<open>None\<close>).\<close>

datatype tb_tick = Tick_ends | Tick_writes "byte list option" talkback

definition tb_run_tick :: "talkback \<Rightarrow> tb_tick" where
  "tb_run_tick t =
     (if tb_closed t then Tick_ends
      else case tb_queue t of
        [] \<Rightarrow> Tick_writes None (if tb_playing t \<and> tb_firstAudioSent t then t\<lparr>tb_underruns := tb_underruns t + 1\<rparr> else t)
      | frame # queue \<Rightarrow>
          Tick_writes (Some frame)
            (t\<lparr>tb_firstAudioSent := tb_firstAudioSent t \<or> tb_playing t, tb_queue := queue, tb_inFlight := True\<rparr>))"

definition tb_run_written :: "go_error option \<Rightarrow> talkback \<Rightarrow> talkback" where
  "tb_run_written err t =
     (case err of
        None \<Rightarrow> t\<lparr>tb_inFlight := False\<rparr>
      | Some e \<Rightarrow> t\<lparr>tb_writeFailures := tb_writeFailures t + 1, tb_failure := Some (Wrap ''talkback write: '' e),
                    tb_closed := True, tb_queue := [], tb_inFlight := False\<rparr>)"

text \<open>The same section serves the cancelled \<open>run\<close> and the start of \<open>close\<close>.\<close>

definition tb_shut :: "talkback \<Rightarrow> talkback" where
  "tb_shut t = t\<lparr>tb_closed := True, tb_queue := []\<rparr>"

definition tb_peer_lost :: "string \<Rightarrow> talkback \<Rightarrow> talkback" where
  "tb_peer_lost state t =
     (if \<not> tb_closed t
      then t\<lparr>tb_failure := Some (Msg (''talkback peer connection: '' @ state)), tb_closed := True, tb_queue := []\<rparr>
      else t)"

definition tb_clearPending :: "talkback \<Rightarrow> talkback" where
  "tb_clearPending t = t\<lparr>tb_queue := [], tb_playing := False, tb_pcmIn := [], tb_resampler := None\<rparr>"

definition tb_play_starts :: "talkback \<Rightarrow> talkback" where
  "tb_play_starts t = t\<lparr>tb_playing := True, tb_firstAudioSent := False\<rparr>"

definition tb_route_failed :: "talkback \<Rightarrow> talkback" where
  "tb_route_failed t = t\<lparr>tb_routeFailures := tb_routeFailures t + 1\<rparr>"

text \<open>
  The pacing goroutine, one player at a time, and the hooks. \<open>tw_flight\<close> is the frame being written,
  \<open>tw_writing\<close> that a write is going on; \<open>tw_enqueued\<close> and \<open>tw_sent\<close> are the frames of the running utterance
  (of the last \<open>clearPending\<close> on, with a frame that was in flight then).
\<close>

record tb_world =
  tw_tb :: talkback
  tw_writing :: bool
  tw_flight :: "byte list option"
  tw_ended :: bool
  tw_enqueued :: "byte list list"
  tw_sent :: "byte list list"

definition tw_start :: tb_world where
  "tw_start = \<lparr>tw_tb = tb_new, tw_writing = False, tw_flight = None, tw_ended = False, tw_enqueued = [], tw_sent = []\<rparr>"

definition flight_list :: "byte list option \<Rightarrow> byte list list" where
  "flight_list f = (case f of None \<Rightarrow> [] | Some frame \<Rightarrow> [frame])"

inductive tw_step :: "tb_world \<Rightarrow> tb_world \<Rightarrow> bool" where
  tw_enqueues: "tb_enqueue cerr frame (tw_tb w) = Enq_done t \<Longrightarrow>
    tw_step w (w\<lparr>tw_tb := t, tw_enqueued := tw_enqueued w @ [frame]\<rparr>)"
| tw_ticks: "\<not> tw_writing w \<Longrightarrow> \<not> tw_ended w \<Longrightarrow> tb_run_tick (tw_tb w) = Tick_writes frame t \<Longrightarrow>
    tw_step w (w\<lparr>tw_tb := t, tw_writing := True, tw_flight := frame\<rparr>)"
| tw_ends: "\<not> tw_writing w \<Longrightarrow> \<not> tw_ended w \<Longrightarrow> tb_run_tick (tw_tb w) = Tick_ends \<Longrightarrow> tw_step w (w\<lparr>tw_ended := True\<rparr>)"
| tw_written: "tw_writing w \<Longrightarrow>
    tw_step w (w\<lparr>tw_tb := tb_run_written None (tw_tb w), tw_writing := False, tw_flight := None,
                 tw_sent := tw_sent w @ flight_list (tw_flight w)\<rparr>)"
| tw_write_fails: "tw_writing w \<Longrightarrow>
    tw_step w (w\<lparr>tw_tb := tb_run_written (Some err) (tw_tb w), tw_writing := False, tw_flight := None, tw_ended := True\<rparr>)"
| tw_cancelled: "\<not> tw_writing w \<Longrightarrow> \<not> tw_ended w \<Longrightarrow> tw_step w (w\<lparr>tw_tb := tb_shut (tw_tb w), tw_ended := True\<rparr>)"
| tw_closes: "tw_step w (w\<lparr>tw_tb := tb_shut (tw_tb w)\<rparr>)"
| tw_peer_lost: "tw_step w (w\<lparr>tw_tb := tb_peer_lost state (tw_tb w)\<rparr>)"
| tw_starts: "tw_step w (w\<lparr>tw_tb := tb_play_starts (tw_tb w)\<rparr>)"
| tw_route_fails: "tw_step w (w\<lparr>tw_tb := tb_route_failed (tw_tb w)\<rparr>)"
| tw_clears: "tw_step w (w\<lparr>tw_tb := tb_clearPending (tw_tb w), tw_enqueued := flight_list (tw_flight w), tw_sent := []\<rparr>)"

definition tw_inv :: "tb_world \<Rightarrow> bool" where
  "tw_inv w \<longleftrightarrow>
     length (tb_queue (tw_tb w)) \<le> 100 \<and>
     (tw_flight w \<noteq> None \<longrightarrow> tw_writing w) \<and> (tb_inFlight (tw_tb w) \<longleftrightarrow> tw_flight w \<noteq> None) \<and>
     (tw_writing w \<longrightarrow> \<not> tw_ended w) \<and> (tw_ended w \<longrightarrow> tb_closed (tw_tb w)) \<and>
     prefix (tw_sent w @ flight_list (tw_flight w)) (tw_enqueued w) \<and>
     (\<not> tb_closed (tw_tb w) \<longrightarrow> tw_enqueued w = tw_sent w @ flight_list (tw_flight w) @ tb_queue (tw_tb w))"

lemma flight_list_simps [simp]: "flight_list None = []" "flight_list (Some f) = [f]"
  by (simp_all add: flight_list_def)

lemma tw_step_inv: "tw_inv w \<Longrightarrow> tw_step w w' \<Longrightarrow> tw_inv w'"
proof (erule tw_step.cases, goal_cases)
  case (1 cerr frame w0 t)
  then show ?case
    by (auto simp: tw_inv_def tb_enqueue_def split: if_splits option.splits)
next
  case (2 w0 frame t)
  then show ?case by (auto simp: tw_inv_def tb_run_tick_def split: if_splits list.splits)
next
  case (3 w0)
  then show ?case by (auto simp: tw_inv_def tb_run_tick_def split: if_splits list.splits)
next
  case (5 w0 err)
  then show ?case by (auto simp: tw_inv_def tb_run_written_def intro: append_prefixD)
qed (auto simp: tw_inv_def tb_run_written_def tb_shut_def tb_peer_lost_def tb_play_starts_def tb_route_failed_def
       tb_clearPending_def)

interpretation talkback_machine: machine "\<lambda>w. w = tw_start" tw_step tw_inv
proof unfold_locales
  show "tw_inv w" if "w = tw_start" for w
    using that by (simp add: tw_inv_def tw_start_def tb_new_def)
qed (rule tw_step_inv)

text \<open>C13: The pacing goroutine sends the frames of an utterance in the order they were queued, none twice,
  and at most a hundred wait; when the wait for the end reports success every frame was sent; and a player
  waits, for room or for the end, only while the goroutine is alive and can take its next step.\<close>

theorem talkback_sends_in_order:
  assumes "reach (\<lambda>w. w = tw_start) tw_step w"
  shows "prefix (tw_sent w) (tw_enqueued w) \<and> length (tb_queue (tw_tb w)) \<le> 100 \<and>
    (tb_waitDrained cerr (tw_tb w) = Drain_returns None \<longrightarrow> tw_sent w = tw_enqueued w) \<and>
    (tb_enqueue cerr frame (tw_tb w) = Enq_waits \<or> tb_waitDrained cerr (tw_tb w) = Drain_waits \<longrightarrow>
       \<not> tw_ended w \<and> (tw_writing w \<or> (\<exists>f t. tb_run_tick (tw_tb w) = Tick_writes f t)))"
proof -
  have inv: "tw_inv w" using talkback_machine.reach_inv [OF assms] .
  then have "prefix (tw_sent w) (tw_enqueued w)" "length (tb_queue (tw_tb w)) \<le> 100"
    by (auto simp: tw_inv_def dest: append_prefixD)
  moreover have "tw_sent w = tw_enqueued w" if "tb_waitDrained cerr (tw_tb w) = Drain_returns None"
    using that inv by (auto simp: tw_inv_def tb_waitDrained_def split: if_splits option.splits)
  moreover have "\<not> tw_ended w \<and> (tw_writing w \<or> (\<exists>f t. tb_run_tick (tw_tb w) = Tick_writes f t))"
    if "tb_enqueue cerr frame (tw_tb w) = Enq_waits \<or> tb_waitDrained cerr (tw_tb w) = Drain_waits"
  proof -
    have "\<not> tb_closed (tw_tb w)"
      using that by (auto simp: tb_enqueue_def tb_waitDrained_def split: if_splits option.splits)
    then show ?thesis using inv by (auto simp: tw_inv_def tb_run_tick_def split: list.splits)
  qed
  ultimately show ?thesis by blast
qed

theorem talkback_sends_in_order_witness:
  "\<exists>w :: tb_world. tw_sent w = [[1]] \<and> tw_enqueued w = [[1], [2]] \<and> prefix (tw_sent w) (tw_enqueued w)"
proof -
  let ?q = "\<lambda>fs n. tb_new\<lparr>tb_queue := fs, tb_queueHighWater := n\<rparr>"
  let ?w1 = "tw_start\<lparr>tw_tb := ?q [[1]] 1, tw_enqueued := [[1]]\<rparr>"
  let ?w2 = "tw_start\<lparr>tw_tb := ?q [[1], [2]] 2, tw_enqueued := [[1], [2]]\<rparr>"
  let ?w3 = "?w2\<lparr>tw_tb := (?q [[2]] 2)\<lparr>tb_inFlight := True\<rparr>, tw_writing := True, tw_flight := Some [1]\<rparr>"
  let ?w4 = "?w3\<lparr>tw_tb := ?q [[2]] 2, tw_writing := False, tw_flight := None, tw_sent := [[1]]\<rparr>"
  have s1: "tw_step tw_start ?w1"
    using tw_enqueues [of None "[1]" tw_start] by (simp add: tw_start_def tb_enqueue_def tb_new_def)
  have s2: "tw_step ?w1 ?w2"
    using tw_enqueues [of None "[2]" ?w1] by (simp add: tw_start_def tb_enqueue_def tb_new_def numeral_2_eq_2)
  have s3: "tw_step ?w2 ?w3"
    using tw_ticks [of ?w2 "Some [1]"] by (simp add: tw_start_def tb_run_tick_def tb_new_def)
  have s4: "tw_step ?w3 ?w4"
    using tw_written [of ?w3] by (simp add: tw_start_def tb_run_written_def tb_new_def)
  have reached: "reach (\<lambda>w. w = tw_start) tw_step ?w4"
    by (rule reach_step, rule reach_step, rule reach_step, rule reach_step, rule reach_init, rule refl) (fact s1 s2 s3 s4)+
  show ?thesis by (rule exI [of _ ?w4]) (use talkback_sends_in_order [OF reached] in simp)
qed

subsection \<open>A player and the pacing goroutine\<close>

text \<open>
  What happens to the sender while a player works: the next step of the goroutine (a tick, or the end of the write
  it is in, with its error), the end of its context, \<open>close\<close>, the loss of the connection. \<open>tb_act\<close> also says
  whether the section broadcasts.
\<close>

datatype tb_action = Ta_paces "go_error option" | Ta_cancelled | Ta_closes | Ta_peer_lost string

definition tb_pace :: "go_error option \<Rightarrow> tb_world \<Rightarrow> bool \<times> tb_world" where
  "tb_pace err w =
     (if tw_ended w then (False, w)
      else if tw_writing w
      then (True, case err of
          None \<Rightarrow> w\<lparr>tw_tb := tb_run_written None (tw_tb w), tw_writing := False, tw_flight := None,
                     tw_sent := tw_sent w @ flight_list (tw_flight w)\<rparr>
        | Some e \<Rightarrow> w\<lparr>tw_tb := tb_run_written (Some e) (tw_tb w), tw_writing := False, tw_flight := None, tw_ended := True\<rparr>)
      else case tb_run_tick (tw_tb w) of
        Tick_ends \<Rightarrow> (False, w\<lparr>tw_ended := True\<rparr>)
      | Tick_writes frame t \<Rightarrow> (frame \<noteq> None, w\<lparr>tw_tb := t, tw_writing := True, tw_flight := frame\<rparr>))"

definition tb_act :: "tb_action \<Rightarrow> tb_world \<Rightarrow> bool \<times> tb_world" where
  "tb_act a w =
     (case a of
        Ta_paces err \<Rightarrow> tb_pace err w
      | Ta_cancelled \<Rightarrow>
          if tw_writing w \<or> tw_ended w then (False, w) else (True, w\<lparr>tw_tb := tb_shut (tw_tb w), tw_ended := True\<rparr>)
      | Ta_closes \<Rightarrow> (True, w\<lparr>tw_tb := tb_shut (tw_tb w)\<rparr>)
      | Ta_peer_lost state \<Rightarrow> (\<not> tb_closed (tw_tb w), w\<lparr>tw_tb := tb_peer_lost state (tw_tb w)\<rparr>))"

fun tb_acts :: "tb_action list \<Rightarrow> tb_world \<Rightarrow> bool \<times> tb_world" where
  "tb_acts [] w = (False, w)"
| "tb_acts (a # as) w = (let (b, w1) = tb_act a w; (c, w2) = tb_acts as w1 in (b \<or> c, w2))"

lemma tb_act_step: "snd (tb_act a w) = w \<or> tw_step w (snd (tb_act a w))"
proof (cases a)
  case (Ta_paces err)
  show ?thesis
  proof (cases "tw_ended w \<or> tw_writing w")
    case True
    then show ?thesis using tw_written [of w] tw_write_fails [of w] Ta_paces
      by (cases err) (auto simp: tb_act_def tb_pace_def)
  next
    case False
    then show ?thesis using tw_ticks [of w] tw_ends [of w] Ta_paces
      by (cases "tb_run_tick (tw_tb w)") (auto simp: tb_act_def tb_pace_def)
  qed
qed (auto simp: tb_act_def intro: tw_cancelled tw_closes tw_peer_lost)

text \<open>What the actions leave alone, and what they only move forward.\<close>

definition tw_after :: "tb_world \<Rightarrow> tb_world \<Rightarrow> bool" where
  "tw_after w w' \<longleftrightarrow> tw_inv w' \<and> tw_enqueued w' = tw_enqueued w \<and> prefix (tw_sent w) (tw_sent w') \<and>
     (tb_closed (tw_tb w) \<longrightarrow> tb_closed (tw_tb w')) \<and> (tb_queue (tw_tb w) = [] \<longrightarrow> tb_queue (tw_tb w') = []) \<and>
     tb_pcmIn (tw_tb w') = tb_pcmIn (tw_tb w) \<and> tb_resampler (tw_tb w') = tb_resampler (tw_tb w)"

lemma tw_after_refl: "tw_inv w \<Longrightarrow> tw_after w w"
  by (simp add: tw_after_def)

lemma tw_after_trans: "tw_after u v \<Longrightarrow> tw_after v w \<Longrightarrow> tw_after u w"
  by (auto simp: tw_after_def)

lemma tb_act_after: "tw_inv w \<Longrightarrow> tw_after w (snd (tb_act a w))"
proof -
  assume inv: "tw_inv w"
  then have "tw_inv (snd (tb_act a w))" using tb_act_step [of a w] tw_step_inv by auto
  then show ?thesis unfolding tw_after_def
    by (cases a) (auto simp: tb_act_def tb_pace_def tb_run_written_def tb_run_tick_def tb_shut_def tb_peer_lost_def
        split: option.splits list.splits)
qed

lemma tb_acts_after: "tw_inv w \<Longrightarrow> tw_after w (snd (tb_acts as w))"
proof (induction as arbitrary: w)
  case (Cons a as)
  have "tw_after w (snd (tb_act a w))" by (rule tb_act_after [OF Cons.prems])
  moreover from this have "tw_after (snd (tb_act a w)) (snd (tb_acts as (snd (tb_act a w))))"
    using Cons.IH by (simp add: tw_after_def)
  ultimately show ?case using tw_after_trans by (auto simp: case_prod_unfold Let_def)
qed (simp add: tw_after_refl)

text \<open>
  While frames wait or one is being written, each step of the goroutine is progress and broadcasts; anything that does
  not broadcast changes nothing.
\<close>

definition tw_busy :: "tb_world \<Rightarrow> bool" where
  "tw_busy w \<longleftrightarrow> (tb_queue (tw_tb w) \<noteq> [] \<or> tb_inFlight (tw_tb w)) \<and> \<not> tb_closed (tw_tb w)"

definition tw_left :: "tb_world \<Rightarrow> nat" where
  "tw_left w = 2 * length (tb_queue (tw_tb w)) + (if tw_writing w then 1 else 0)"

lemma tb_act_busy:
  assumes "tw_inv w" and "tw_busy (snd (tb_act a w))"
  shows "tw_busy w \<and> (if fst (tb_act a w) then tw_left (snd (tb_act a w)) < tw_left w else snd (tb_act a w) = w \<and> (\<forall>err. a \<noteq> Ta_paces err))"
  using assms
  by (cases a) (auto simp: tb_act_def tb_pace_def tb_run_written_def tb_run_tick_def tb_shut_def tb_peer_lost_def tw_busy_def
      tw_left_def tw_inv_def split: option.splits list.splits if_splits)

lemma tb_acts_busy:
  "tw_inv w \<Longrightarrow> tw_busy (snd (tb_acts as w)) \<Longrightarrow>
     tw_busy w \<and> (if fst (tb_acts as w) then tw_left (snd (tb_acts as w)) < tw_left w
                 else snd (tb_acts as w) = w \<and> (\<forall>err. Ta_paces err \<notin> set as))"
proof (induction as arbitrary: w)
  case (Cons a as)
  let ?w = "snd (tb_act a w)"
  have inv: "tw_inv ?w" using tb_act_after [OF Cons.prems(1), of a] by (simp add: tw_after_def)
  have t: "tb_acts (a # as) w = (fst (tb_act a w) \<or> fst (tb_acts as ?w), snd (tb_acts as ?w))" by (simp add: case_prod_unfold Let_def)
  have ih: "tw_busy ?w \<and> (if fst (tb_acts as ?w) then tw_left (snd (tb_acts as ?w)) < tw_left ?w
      else snd (tb_acts as ?w) = ?w \<and> (\<forall>err. Ta_paces err \<notin> set as))"
    using Cons.IH [OF inv] Cons.prems(2) unfolding t by simp
  then show ?case using tb_act_busy [OF Cons.prems(1), of a] unfolding t by (auto split: if_splits)
qed simp

text \<open>Nothing that happens without a broadcast ends the wait.\<close>

lemma tb_act_silent: "tw_inv w \<Longrightarrow> tw_busy w \<Longrightarrow> \<not> fst (tb_act a w) \<Longrightarrow> snd (tb_act a w) = w \<and> (\<forall>err. a \<noteq> Ta_paces err)"
  by (cases a) (auto simp: tb_act_def tb_pace_def tb_run_tick_def tb_peer_lost_def tw_busy_def tw_inv_def
      split: option.splits list.splits if_splits)

lemma tb_acts_silent:
  "tw_inv w \<Longrightarrow> tw_busy w \<Longrightarrow> \<not> fst (tb_acts as w) \<Longrightarrow> snd (tb_acts as w) = w \<and> (\<forall>err. Ta_paces err \<notin> set as)"
proof (induction as arbitrary: w)
  case (Cons a as)
  then have "\<not> fst (tb_act a w)" "\<not> fst (tb_acts as (snd (tb_act a w)))" by (simp_all add: case_prod_unfold Let_def)
  moreover from this have "snd (tb_act a w) = w" "\<forall>err. a \<noteq> Ta_paces err" using tb_act_silent Cons.prems by blast+
  ultimately show ?case using Cons.IH [of w] Cons.prems by (auto simp: case_prod_unfold Let_def)
qed simp

text \<open>
  The player of an utterance: \<open>tp_frames\<close> are the frames encoded and enqueued since it began, \<open>tp_at\<close> counts its looks at
  the sender. The encoder is not modelled: \<open>te_encode\<close> gives the packet of a frame after the frames before it.
  \<open>te_acts k\<close> is what happens to the sender before the \<open>k\<close>-th look, \<open>te_ctx k\<close> the context of the playback then.
\<close>

record talk_play =
  tp_w :: tb_world
  tp_frames :: "i16 list list"
  tp_at :: nat

record talk_env =
  te_encode :: "i16 list list \<Rightarrow> i16 list \<Rightarrow> byte list result"
  te_acts :: "nat \<Rightarrow> tb_action list"
  te_ctx :: "nat \<Rightarrow> ctx_err"

abbreviation tp_tb :: "talk_play \<Rightarrow> talkback" where
  "tp_tb p \<equiv> tw_tb (tp_w p)"

abbreviation tp_pcmIn :: "talk_play \<Rightarrow> i16 list" where
  "tp_pcmIn p \<equiv> tb_pcmIn (tp_tb p)"

definition tp_set :: "talkback \<Rightarrow> talk_play \<Rightarrow> talk_play" where
  "tp_set t p = p\<lparr>tp_w := (tp_w p)\<lparr>tw_tb := t\<rparr>\<rparr>"

text \<open>
  The loop around \<open>cond.Wait\<close>: \<open>look\<close> is the section that decides (\<open>None\<close>: wait on). A parked player looks again only
  after a broadcast; the callback of its context is one.
\<close>

partial_function (option) tb_wait ::
    "talk_env \<Rightarrow> (ctx_err \<Rightarrow> talkback \<Rightarrow> 'a option) \<Rightarrow> bool \<Rightarrow> talk_play \<Rightarrow> ('a \<times> talk_play) option" where
  "tb_wait env look parked p =
     (case tb_acts (te_acts env (tp_at p)) (tp_w p) of
        (woken, w) \<Rightarrow>
          if parked \<and> \<not> woken \<and> te_ctx env (tp_at p) = None
          then tb_wait env look True (p\<lparr>tp_w := w, tp_at := Suc (tp_at p)\<rparr>)
          else (case look (te_ctx env (tp_at p)) (tw_tb w) of
                  None \<Rightarrow> tb_wait env look True (p\<lparr>tp_w := w, tp_at := Suc (tp_at p)\<rparr>)
                | Some a \<Rightarrow> Some (a, p\<lparr>tp_w := w, tp_at := Suc (tp_at p)\<rparr>)))"

definition enqueue_look :: "byte list \<Rightarrow> ctx_err \<Rightarrow> talkback \<Rightarrow> talkback result option" where
  "enqueue_look frame cerr t =
     (case tb_enqueue cerr frame t of Enq_waits \<Rightarrow> None | Enq_fails err \<Rightarrow> Some (Inl err) | Enq_done t' \<Rightarrow> Some (Inr t'))"

definition talk_enqueue :: "talk_env \<Rightarrow> byte list \<Rightarrow> talk_play \<Rightarrow> (go_error option \<times> talk_play) option" where
  "talk_enqueue env frame p =
     (case tb_wait env (enqueue_look frame) False p of
        None \<Rightarrow> None
      | Some (Inl err, p') \<Rightarrow> Some (Some err, p')
      | Some (Inr t, p') \<Rightarrow> Some (None, p'\<lparr>tp_w := (tp_w p')\<lparr>tw_tb := t, tw_enqueued := tw_enqueued (tp_w p') @ [frame]\<rparr>\<rparr>))"

definition drained_look :: "ctx_err \<Rightarrow> talkback \<Rightarrow> go_error option option" where
  "drained_look cerr t = (case tb_waitDrained cerr t of Drain_waits \<Rightarrow> None | Drain_returns e \<Rightarrow> Some e)"

definition talk_waitDrained :: "talk_env \<Rightarrow> talk_play \<Rightarrow> (go_error option \<times> talk_play) option" where
  "talk_waitDrained env p = tb_wait env drained_look False p"

text \<open>The goroutine goes on, or the context of the playback ends.\<close>

definition te_fair :: "talk_env \<Rightarrow> bool" where
  "te_fair env \<longleftrightarrow> (\<forall>k. \<exists>j \<ge> k. te_ctx env j \<noteq> None \<or> (\<exists>err. Ta_paces err \<in> set (te_acts env j)))"

text \<open>A wait that ended: the sender went on, and the decision was made on what it is now.\<close>

definition waited :: "talk_env \<Rightarrow> (ctx_err \<Rightarrow> talkback \<Rightarrow> 'a option) \<Rightarrow> talk_play \<Rightarrow> 'a \<Rightarrow> talk_play \<Rightarrow> bool" where
  "waited env look p a p' \<longleftrightarrow> tw_after (tp_w p) (tp_w p') \<and> tp_frames p' = tp_frames p \<and> (\<exists>cerr. look cerr (tp_tb p') = Some a)"

lemma waited_step: "tw_after (tp_w p) w \<Longrightarrow> waited env look (p\<lparr>tp_w := w, tp_at := k\<rparr>) a p' \<Longrightarrow> waited env look p a p'"
  by (auto simp: waited_def intro: tw_after_trans)

text \<open>A player waits only while its context lives and the goroutine has work.\<close>

definition waits_busy :: "(ctx_err \<Rightarrow> talkback \<Rightarrow> 'a option) \<Rightarrow> bool" where
  "waits_busy look \<longleftrightarrow> (\<forall>cerr w. tw_inv w \<longrightarrow> look cerr (tw_tb w) = None \<longrightarrow> cerr = None \<and> tw_busy w)"

lemma tb_wait_parked:
  assumes fair: "te_fair env" and look: "waits_busy look"
  shows "tw_inv (tp_w p) \<Longrightarrow> tw_busy (tp_w p) \<Longrightarrow> \<exists>a p'. tb_wait env look True p = Some (a, p') \<and> waited env look p a p'"
proof (induction "tw_left (tp_w p)" arbitrary: p rule: less_induct)
  case less
  note outer = less.hyps
  obtain j where j: "tp_at p \<le> j" "te_ctx env j \<noteq> None \<or> (\<exists>err. Ta_paces err \<in> set (te_acts env j))"
    using fair unfolding te_fair_def by blast
  have "\<exists>a p'. tb_wait env look True q = Some (a, p') \<and> waited env look q a p'"
    if "tp_at q \<le> j" "tw_left (tp_w q) \<le> tw_left (tp_w p)" "tw_inv (tp_w q)" "tw_busy (tp_w q)" for q
    using that
  proof (induction "j - tp_at q" arbitrary: q rule: less_induct)
    case less
    let ?as = "te_acts env (tp_at q)" and ?c = "te_ctx env (tp_at q)"
    obtain b w where t: "tb_acts ?as (tp_w q) = (b, w)" by force
    let ?q = "q\<lparr>tp_w := w, tp_at := Suc (tp_at q)\<rparr>"
    have after: "tw_after (tp_w q) w" using tb_acts_after [OF less.prems(3), of ?as] t by simp
    then have inv: "tw_inv w" by (simp add: tw_after_def)
    show ?case
    proof (cases "look ?c (tw_tb w) \<noteq> None \<and> (b \<or> ?c \<noteq> None)")
      case True
      then obtain a where "look ?c (tw_tb w) = Some a" by blast
      moreover from this have "tb_wait env look True q = Some (a, ?q)" using True t by (subst tb_wait.simps) auto
      ultimately show ?thesis using after by (auto simp: waited_def)
    next
      case False
      have on: "tb_wait env look True q = tb_wait env look True ?q" using False t by (subst tb_wait.simps) (auto split: option.splits)
      have c: "?c = None \<and> tw_busy w \<and> (if b then tw_left w < tw_left (tp_w q) else w = tp_w q \<and> (\<forall>err. Ta_paces err \<notin> set ?as))"
      proof (cases b)
        case True
        then have "look ?c (tw_tb w) = None" using False by blast
        then have "?c = None" "tw_busy w" using look inv by (auto simp: waits_busy_def)
        then show ?thesis using True tb_acts_busy [OF less.prems(3), of ?as] t by simp
      next
        case nb: False
        then have "w = tp_w q \<and> (\<forall>err. Ta_paces err \<notin> set ?as)" using tb_acts_silent [OF less.prems(3,4), of ?as] t by simp
        moreover have "?c = None" using False nb look inv unfolding waits_busy_def by blast
        ultimately show ?thesis using nb less.prems(4) by simp
      qed
      have "\<exists>a p'. tb_wait env look True ?q = Some (a, p') \<and> waited env look ?q a p'"
      proof (cases b)
        case True
        then have "tw_left (tp_w ?q) < tw_left (tp_w p)" using c less.prems(2) by simp
        then show ?thesis using outer [of ?q] inv c by simp
      next
        case nb: False
        then have "tp_at q \<noteq> j" using c j(2) by auto
        then have "j - tp_at ?q < j - tp_at q" "tp_at ?q \<le> j" using less.prems(1) by auto
        then show ?thesis using less.hyps [of ?q] c nb less.prems inv by simp
      qed
      then obtain a p' where "tb_wait env look True ?q = Some (a, p')" "waited env look ?q a p'" by blast
      then show ?thesis unfolding on using waited_step [OF after, of env look "Suc (tp_at q)" a p'] by blast
    qed
  qed
  then show ?case using j(1) less.prems by blast
qed

lemma tb_wait_returns:
  assumes "te_fair env" and look: "waits_busy look" and inv: "tw_inv (tp_w p)"
  shows "\<exists>a p'. tb_wait env look False p = Some (a, p') \<and> waited env look p a p'"
proof -
  let ?as = "te_acts env (tp_at p)" and ?c = "te_ctx env (tp_at p)"
  obtain b w where t: "tb_acts ?as (tp_w p) = (b, w)" by force
  let ?p = "p\<lparr>tp_w := w, tp_at := Suc (tp_at p)\<rparr>"
  have after: "tw_after (tp_w p) w" using tb_acts_after [OF inv, of ?as] t by simp
  show ?thesis
  proof (cases "look ?c (tw_tb w)")
    case None
    then have "tw_inv (tp_w ?p)" "tw_busy (tp_w ?p)" using look after by (auto simp: tw_after_def waits_busy_def)
    then obtain a p' where "tb_wait env look True ?p = Some (a, p')" "waited env look ?p a p'"
      using tb_wait_parked [OF assms(1,2)] by blast
    moreover have "tb_wait env look False p = tb_wait env look True ?p" using None t by (subst tb_wait.simps) simp
    ultimately show ?thesis using waited_step [OF after] by auto
  next
    case (Some a)
    then have "tb_wait env look False p = Some (a, ?p)" using t by (subst tb_wait.simps) simp
    then show ?thesis using Some after by (auto simp: waited_def)
  qed
qed

subsection \<open>From PCM to frames\<close>

text \<open>The loop over the complete frames of \<open>pcmIn\<close>; \<open>wrap\<close> is what the caller does with an encoding error.\<close>

fun tb_send_frames ::
    "talk_env \<Rightarrow> (go_error \<Rightarrow> go_error) \<Rightarrow> i16 list list \<Rightarrow> talk_play \<Rightarrow> (go_error option \<times> talk_play) option" where
  "tb_send_frames env wrap [] p = Some (None, p)"
| "tb_send_frames env wrap (f # fs) p =
     (let p1 = tp_set ((tp_tb p)\<lparr>tb_pcmIn := drop opusFrameSize (tp_pcmIn p)\<rparr>) p in
      case te_encode env (tp_frames p) f of
        Inl err \<Rightarrow> Some (Some (wrap err), p1)
      | Inr packet \<Rightarrow>
          (case talk_enqueue env packet p1 of
             None \<Rightarrow> None
           | Some (Some err, p2) \<Rightarrow> Some (Some err, p2)
           | Some (None, p2) \<Rightarrow> tb_send_frames env wrap fs (p2\<lparr>tp_frames := tp_frames p @ [f]\<rparr>)))"

text \<open>\<open>None\<close> would be a panic of the resampler, or a wait that does not end.\<close>

definition tb_pushPCM :: "talk_env \<Rightarrow> int \<Rightarrow> talk_play pusher" where
  "tb_pushPCM env srcRate i pcm p =
     (if srcRate \<le> 0 then Some (Some (Msg ''invalid sample rate''), p)
      else let r = (case tb_resampler (tp_tb p) of None \<Rightarrow> NewPCMResampler srcRate opusRate | Some r \<Rightarrow> r) in
        case resampler_Push pcm r of
          None \<Rightarrow> None
        | Some (out, r) \<Rightarrow>
            let pcmIn = tp_pcmIn p @ out in
            tb_send_frames env (Wrap ''talkback encode: '') (fst (frames_of opusFrameSize pcmIn))
              (tp_set ((tp_tb p)\<lparr>tb_resampler := Some r, tb_pcmIn := pcmIn\<rparr>) p))"

definition tb_flushPCM :: "talk_env \<Rightarrow> talk_play \<Rightarrow> (go_error option \<times> talk_play) option" where
  "tb_flushPCM env p =
     (case (case tb_resampler (tp_tb p) of None \<Rightarrow> Some [] | Some r \<Rightarrow> map_option fst (resampler_Flush r)) of
        None \<Rightarrow> None
      | Some out \<Rightarrow>
          (let pcmIn = tp_pcmIn p @ out;
               p1 = tp_set ((tp_tb p)\<lparr>tb_resampler := None, tb_pcmIn := pcmIn\<rparr>) p in
           case tb_send_frames env (\<lambda>err. err) (fst (frames_of opusFrameSize pcmIn)) p1 of
             None \<Rightarrow> None
           | Some (Some err, p2) \<Rightarrow> Some (Some err, p2)
           | Some (None, p2) \<Rightarrow>
               if tp_pcmIn p2 = [] then Some (None, p2)
               else tb_send_frames env (Wrap ''talkback flush encode: '')
                      [tp_pcmIn p2 @ replicate (opusFrameSize - length (tp_pcmIn p2)) 0] p2))"

text \<open>The section of the deferred \<open>clearPending\<close>.\<close>

definition tw_clear :: "tb_world \<Rightarrow> tb_world" where
  "tw_clear w = w\<lparr>tw_tb := tb_clearPending (tw_tb w), tw_enqueued := flight_list (tw_flight w), tw_sent := []\<rparr>"

text \<open>
  The talkback branch of \<open>PlayStream\<close>, from the moment it has the sender: \<open>route\<close> is the answer of \<open>assertRoute\<close>;
  \<open>clearPending\<close> is deferred. The result has the packets the goroutine wrote to the track while the playback ran.
\<close>

definition talk_PlayStream ::
    "'s reader \<Rightarrow> ('s \<Rightarrow> int) \<Rightarrow> (nat \<Rightarrow> ctx_err) \<Rightarrow> talk_env \<Rightarrow> go_error option \<Rightarrow> 's \<Rightarrow> tb_world
      \<Rightarrow> (go_error option \<times> 's \<times> byte list list \<times> talk_play) option" where
  "talk_PlayStream read rate ctx env route src w0 =
     (let returns = (\<lambda>e s p. (e, s, drop (length (tw_sent w0)) (tw_sent (tp_w p)), p\<lparr>tp_w := tw_clear (tp_w p)\<rparr>));
          p = \<lparr>tp_w = w0\<lparr>tw_tb := tb_play_starts (tw_tb w0)\<rparr>, tp_frames = [], tp_at = 0\<rparr> in
      case route of
        Some err \<Rightarrow> Some (returns (Some (Wrap ''talkback route: '' err)) src (tp_set (tb_route_failed (tp_tb p)) p))
      | None \<Rightarrow>
          (case play_loop read ctx (tb_pushPCM env (rate src)) 0 src p of
             None \<Rightarrow> None
           | Some (Some err, src', p') \<Rightarrow> Some (returns (Some err) src' p')
           | Some (None, src', p') \<Rightarrow>
               (case tb_flushPCM env p' of
                  None \<Rightarrow> None
                | Some (Some err, p'') \<Rightarrow> Some (returns (Some err) src' p'')
                | Some (None, p'') \<Rightarrow>
                    (case talk_waitDrained env p'' of
                       None \<Rightarrow> None
                     | Some (e, q) \<Rightarrow> Some (returns e src' q)))))"

lemma snd_frames: "0 < n \<Longrightarrow> snd (frames_of n xs) = drop (n * length (fst (frames_of n xs))) xs"
proof -
  assume n: "0 < n"
  have "length (concat fs) = n * length fs" if "\<forall>f \<in> set fs. length f = n" for fs :: "'a list list"
    using that by (induction fs) simp_all
  then show ?thesis using frames_spec [OF n, of xs] by (metis append_eq_conv_conj)
qed

lemma tp_set_simps [simp]:
  "tp_tb (tp_set t p) = t" "tp_frames (tp_set t p) = tp_frames p" "tp_at (tp_set t p) = tp_at p"
  "tw_enqueued (tp_w (tp_set t p)) = tw_enqueued (tp_w p)" "tw_sent (tp_w (tp_set t p)) = tw_sent (tp_w p)"
  by (simp_all add: tp_set_def)

text \<open>The packets of an utterance: each is what the encoder gives for its frame after the frames before it.\<close>

definition encoded_by :: "(i16 list list \<Rightarrow> i16 list \<Rightarrow> byte list result) \<Rightarrow> i16 list list \<Rightarrow> byte list list \<Rightarrow> bool" where
  "encoded_by enc fs ps \<longleftrightarrow> length ps = length fs \<and> (\<forall>k < length fs. enc (take k fs) (fs ! k) = Inr (ps ! k))"

lemma encoded_by_snoc:
  "encoded_by enc fs ps \<Longrightarrow> enc fs f = Inr packet \<Longrightarrow> encoded_by enc (fs @ [f]) (ps @ [packet])"
  by (auto simp: encoded_by_def nth_append less_Suc_eq)

text \<open>A player that began on \<open>w0\<close>: what it has queued since are the packets of its frames.\<close>

definition talk_inv :: "talk_env \<Rightarrow> tb_world \<Rightarrow> talk_play \<Rightarrow> bool" where
  "talk_inv env w0 p \<longleftrightarrow> tw_inv (tp_w p) \<and> prefix (tw_sent w0) (tw_sent (tp_w p)) \<and>
     (tb_closed (tw_tb w0) \<longrightarrow> tb_closed (tp_tb p)) \<and>
     (\<exists>ps. tw_enqueued (tp_w p) = tw_enqueued w0 @ ps \<and> encoded_by (te_encode env) (tp_frames p) ps)"

lemma talk_inv_set:
  "talk_inv env w0 p \<Longrightarrow> tb_queue t = tb_queue (tp_tb p) \<Longrightarrow> tb_closed t = tb_closed (tp_tb p) \<Longrightarrow>
   tb_inFlight t = tb_inFlight (tp_tb p) \<Longrightarrow> talk_inv env w0 (tp_set t p)"
  by (simp add: talk_inv_def tp_set_def tw_inv_def)

lemma talk_inv_after:
  "talk_inv env w0 p \<Longrightarrow> tw_after (tp_w p) (tp_w p') \<Longrightarrow> tp_frames p' = tp_frames p \<Longrightarrow> talk_inv env w0 p'"
  by (auto simp: talk_inv_def tw_after_def)

lemma enqueue_looks: "waits_busy (enqueue_look frame)"
  by (auto simp: waits_busy_def enqueue_look_def tb_enqueue_def tw_busy_def split: if_splits option.splits)

lemma drained_looks: "waits_busy drained_look"
  by (auto simp: waits_busy_def drained_look_def tb_waitDrained_def tw_busy_def split: if_splits option.splits)

lemma talk_enqueue_ends:
  assumes "te_fair env" and "talk_inv env w0 p"
  shows "\<exists>e p'. talk_enqueue env frame p = Some (e, p') \<and> tp_pcmIn p' = tp_pcmIn p \<and> tb_resampler (tp_tb p') = tb_resampler (tp_tb p) \<and>
    tp_frames p' = tp_frames p \<and>
    (case e of Some err \<Rightarrow> talk_inv env w0 p'
     | None \<Rightarrow> \<forall>f. te_encode env (tp_frames p) f = Inr frame \<longrightarrow> talk_inv env w0 (p'\<lparr>tp_frames := tp_frames p @ [f]\<rparr>))"
proof -
  have inv: "tw_inv (tp_w p)" using assms(2) by (simp add: talk_inv_def)
  obtain r q where q: "tb_wait env (enqueue_look frame) False p = Some (r, q)" "waited env (enqueue_look frame) p r q"
    using tb_wait_returns [OF assms(1) enqueue_looks inv] by blast
  then have after: "tw_after (tp_w p) (tp_w q)" "tp_frames q = tp_frames p" by (auto simp: waited_def)
  have qinv: "talk_inv env w0 q" by (rule talk_inv_after [OF assms(2) after])
  show ?thesis
  proof (cases r)
    case (Inl err)
    then show ?thesis using q(1) after qinv by (auto simp: talk_enqueue_def tw_after_def)
  next
    case (Inr t)
    then obtain cerr where "enqueue_look frame cerr (tp_tb q) = Some (Inr t)" using q(2) by (auto simp: waited_def)
    then have t: "tb_enqueue cerr frame (tp_tb q) = Enq_done t" by (auto simp: enqueue_look_def split: tb_enqueued.splits)
    let ?w = "(tp_w q)\<lparr>tw_tb := t, tw_enqueued := tw_enqueued (tp_w q) @ [frame]\<rparr>"
    have "tw_inv ?w" using tw_step_inv [OF _ tw_enqueues [OF t]] qinv by (simp add: talk_inv_def)
    moreover have "tb_pcmIn t = tp_pcmIn q" "tb_resampler t = tb_resampler (tp_tb q)" "tb_closed t = tb_closed (tp_tb q)"
      using t by (auto simp: tb_enqueue_def split: if_splits option.splits)
    ultimately show ?thesis using q(1) Inr after qinv encoded_by_snoc
      by (auto simp: talk_enqueue_def tw_after_def talk_inv_def)
  qed
qed

lemma send_frames_ends:
  assumes "te_fair env" and "talk_inv env w0 p"
  shows "\<exists>e p'. tb_send_frames env wrap fs p = Some (e, p') \<and> talk_inv env w0 p' \<and> tb_resampler (tp_tb p') = tb_resampler (tp_tb p) \<and>
    (e = None \<longrightarrow> tp_frames p' = tp_frames p @ fs \<and> tp_pcmIn p' = drop (opusFrameSize * length fs) (tp_pcmIn p))"
  using assms(2)
proof (induction fs arbitrary: p)
  case (Cons f fs)
  let ?p = "tp_set ((tp_tb p)\<lparr>tb_pcmIn := drop opusFrameSize (tp_pcmIn p)\<rparr>) p"
  have inv: "talk_inv env w0 ?p" by (rule talk_inv_set [OF Cons.prems]) simp_all
  show ?case
  proof (cases "te_encode env (tp_frames p) f")
    case (Inl err)
    then show ?thesis using inv by simp
  next
    case (Inr packet)
    obtain e p2 where e: "talk_enqueue env packet ?p = Some (e, p2)" "tp_pcmIn p2 = tp_pcmIn ?p" "tb_resampler (tp_tb p2) = tb_resampler (tp_tb ?p)"
        "tp_frames p2 = tp_frames ?p"
        "case e of Some err \<Rightarrow> talk_inv env w0 p2
         | None \<Rightarrow> \<forall>f. te_encode env (tp_frames ?p) f = Inr packet \<longrightarrow> talk_inv env w0 (p2\<lparr>tp_frames := tp_frames ?p @ [f]\<rparr>)"
      using talk_enqueue_ends [OF assms(1) inv, of packet] by blast
    show ?thesis
    proof (cases e)
      case None
      let ?q = "p2\<lparr>tp_frames := tp_frames p @ [f]\<rparr>"
      have "talk_inv env w0 ?q" using e(5) None Inr by simp
      from Cons.IH [OF this] obtain e' p' where "tb_send_frames env wrap fs ?q = Some (e', p')" "talk_inv env w0 p'"
          "tb_resampler (tp_tb p') = tb_resampler (tp_tb ?q)"
          "e' = None \<longrightarrow> tp_frames p' = tp_frames ?q @ fs \<and> tp_pcmIn p' = drop (opusFrameSize * length fs) (tp_pcmIn ?q)" by blast
      then show ?thesis using Inr e None by (simp add: Let_def add.commute)
    next
      case (Some err)
      then show ?thesis using Inr e by (simp add: Let_def)
    qed
  qed
qed simp

text \<open>A chunk that was taken: its complete frames are queued, the rest is kept.\<close>

lemma push_done:
  assumes "te_fair env" and "talk_inv env w0 p" and "0 < rate"
    and "resampler_Push c (case tb_resampler (tp_tb p) of None \<Rightarrow> NewPCMResampler rate opusRate | Some r \<Rightarrow> r) = Some (out, r)"
    and "frames_of opusFrameSize (tp_pcmIn p @ out) = (fs, rest)"
  shows "\<exists>e p'. tb_pushPCM env rate i c p = Some (e, p') \<and> talk_inv env w0 p' \<and> tb_resampler (tp_tb p') = Some r \<and>
    (e = None \<longrightarrow> tp_frames p' = tp_frames p @ fs \<and> tp_pcmIn p' = rest)"
proof -
  have rest: "rest = drop (opusFrameSize * length fs) (tp_pcmIn p @ out)"
    using snd_frames [of opusFrameSize "tp_pcmIn p @ out"] unfolding assms(5) by simp
  let ?p = "tp_set ((tp_tb p)\<lparr>tb_resampler := Some r, tb_pcmIn := tp_pcmIn p @ out\<rparr>) p"
  have "talk_inv env w0 ?p" by (rule talk_inv_set [OF assms(2)]) simp_all
  from send_frames_ends [OF assms(1) this, of "Wrap ''talkback encode: ''" fs] show ?thesis
    using assms(3-5) rest by (simp add: tb_pushPCM_def Let_def)
qed

lemma flush_done:
  assumes "te_fair env" and "talk_inv env w0 p"
    and "(case tb_resampler (tp_tb p) of None \<Rightarrow> Some [] | Some r \<Rightarrow> map_option fst (resampler_Flush r)) = Some out"
  shows "\<exists>e p'. tb_flushPCM env p = Some (e, p') \<and> talk_inv env w0 p' \<and>
    (e = None \<longrightarrow> tp_frames p' = tp_frames p @ padded opusFrameSize 0 (tp_pcmIn p @ out))"
proof -
  obtain fs rest where cut: "frames_of opusFrameSize (tp_pcmIn p @ out) = (fs, rest)" by fastforce
  have rest: "rest = drop (opusFrameSize * length fs) (tp_pcmIn p @ out)"
    using snd_frames [of opusFrameSize "tp_pcmIn p @ out"] unfolding cut by simp
  let ?p = "tp_set ((tp_tb p)\<lparr>tb_resampler := None, tb_pcmIn := tp_pcmIn p @ out\<rparr>) p"
  have "talk_inv env w0 ?p" by (rule talk_inv_set [OF assms(2)]) simp_all
  from send_frames_ends [OF assms(1) this, of "\<lambda>err. err" fs]
  obtain e p2 where p2: "tb_send_frames env (\<lambda>err. err) fs ?p = Some (e, p2)" "talk_inv env w0 p2"
      "e = None \<longrightarrow> tp_frames p2 = tp_frames p @ fs \<and> tp_pcmIn p2 = rest" using rest by auto
  show ?thesis
  proof (cases "e = None \<and> rest \<noteq> []")
    case True
    from send_frames_ends [OF assms(1) p2(2), of "Wrap ''talkback flush encode: ''" "[rest @ replicate (opusFrameSize - length rest) 0]"]
    show ?thesis using True p2 assms(3) cut by (auto simp: tb_flushPCM_def Let_def padded_def)
  next
    case False
    then show ?thesis using p2 assms(3) cut by (cases e) (auto simp: tb_flushPCM_def Let_def padded_def)
  qed
qed

text \<open>Between two chunks: the resampler has seen \<open>full\<close>; \<open>out\<close> is what it gives for the chunks to come.\<close>

lemma talk_frames_from:
  assumes "te_fair env" and "0 < rate" and "talk_inv env w0 p" and "resampler_inv rate opusRate full r" and "tb_resampler (tp_tb p) = Some r"
    and "resample_chunks cs r = Some out"
    and "push_all (tb_pushPCM env rate) i cs p = Some p1" and "tb_flushPCM env p1 = Some (None, p2)"
  shows "tp_frames p2 = tp_frames p @ padded opusFrameSize 0 (tp_pcmIn p @ out)"
  using assms(3-)
proof (induction cs arbitrary: full r p out i)
  case Nil
  then have "map_option fst (resampler_Flush r) = Some out" by simp
  then show ?case using flush_done [OF assms(1) Nil(1), of out] Nil by simp
next
  case (Cons c cs)
  obtain o1 r' where push: "resampler_Push c r = Some (o1, r')" "resampler_inv rate opusRate (full @ c) r'"
    using Push_spec [OF assms(2) _ Cons.prems(2), of c] by auto
  obtain o2 where o2: "resample_chunks cs r' = Some o2" "out = o1 @ o2" using Cons.prems(4) push(1) by auto
  obtain fs rest where cut: "frames_of opusFrameSize (tp_pcmIn p @ o1) = (fs, rest)" by fastforce
  obtain q where q: "tb_pushPCM env rate i c p = Some (None, q)" "push_all (tb_pushPCM env rate) (Suc i) cs q = Some p1"
    using Cons.prems(5) by (auto split: option.splits prod.splits)
  have pushed: "talk_inv env w0 q" "tp_frames q = tp_frames p @ fs" "tp_pcmIn q = rest" "tb_resampler (tp_tb q) = Some r'"
    using push_done [OF assms(1) Cons.prems(1) assms(2) _ cut, of c r' i] Cons.prems(3) push(1) q(1) by simp_all
  have "tp_frames p2 = tp_frames q @ padded opusFrameSize 0 (tp_pcmIn q @ o2)"
    by (rule Cons.IH [OF pushed(1) push(2) pushed(4) o2(1) q(2) Cons.prems(6)])
  moreover have "padded opusFrameSize 0 ((tp_pcmIn p @ o1) @ o2) = fs @ padded opusFrameSize 0 (rest @ o2)"
    by (rule padded_append [OF _ cut]) simp
  ultimately show ?case using pushed o2(2) by simp
qed

text \<open>No chunk makes the resampler panic, and no wait lasts for ever.\<close>

definition talk_ok :: "talk_env \<Rightarrow> tb_world \<Rightarrow> int \<Rightarrow> talk_play \<Rightarrow> bool" where
  "talk_ok env w0 rate p \<longleftrightarrow> talk_inv env w0 p \<and>
     (case tb_resampler (tp_tb p) of None \<Rightarrow> True | Some r \<Rightarrow> 0 < rate \<and> (\<exists>full. resampler_inv rate opusRate full r))"

lemma talk_push_ok:
  assumes "te_fair env" and ok: "talk_ok env w0 rate p"
  shows "\<exists>e p'. tb_pushPCM env rate i c p = Some (e, p') \<and> talk_ok env w0 rate p'"
proof (cases "rate \<le> 0")
  case False
  let ?r = "case tb_resampler (tp_tb p) of None \<Rightarrow> NewPCMResampler rate opusRate | Some r \<Rightarrow> r"
  have "\<exists>full. resampler_inv rate opusRate full ?r"
    using ok by (cases "tb_resampler (tp_tb p)") (auto simp: talk_ok_def intro: exI [of _ "[]"])
  then obtain full where "resampler_inv rate opusRate full ?r" ..
  then obtain out r' where push: "resampler_Push c ?r = Some (out, r')" "resampler_inv rate opusRate (full @ c) r'"
    using Push_spec [of rate opusRate full ?r c] False by auto
  obtain fs rest where cut: "frames_of opusFrameSize (tp_pcmIn p @ out) = (fs, rest)" by fastforce
  have "talk_inv env w0 p" "0 < rate" using ok False by (auto simp: talk_ok_def)
  from push_done [OF assms(1) this push(1) cut, of i] show ?thesis using push(2) False unfolding talk_ok_def by fastforce
qed (use ok in \<open>simp add: tb_pushPCM_def\<close>)

lemma talk_flush_ok:
  assumes "te_fair env" and ok: "talk_ok env w0 rate p"
  shows "\<exists>e p'. tb_flushPCM env p = Some (e, p') \<and> talk_inv env w0 p'"
proof -
  have "\<exists>out. (case tb_resampler (tp_tb p) of None \<Rightarrow> Some [] | Some r \<Rightarrow> map_option fst (resampler_Flush r)) = Some out"
    using ok resample_chunks_spec [of rate opusRate _ _ "[]"] by (force simp: talk_ok_def split: option.splits)
  then obtain out where "(case tb_resampler (tp_tb p) of None \<Rightarrow> Some [] | Some r \<Rightarrow> map_option fst (resampler_Flush r)) = Some out" ..
  from flush_done [OF assms(1) _ this, of w0] show ?thesis using ok unfolding talk_ok_def by blast
qed

lemma resample_spec_Nil [simp]: "resample_spec src dst [] = []"
  by (simp add: resample_spec_def)

lemma push_fresh:
  "0 < rate \<Longrightarrow> tb_resampler (tp_tb p) = None \<Longrightarrow>
     tb_pushPCM env rate i c (tp_set ((tp_tb p)\<lparr>tb_resampler := Some (NewPCMResampler rate opusRate)\<rparr>) p) = tb_pushPCM env rate i c p"
  by (cases "resampler_Push c (NewPCMResampler rate opusRate)") (auto simp: tb_pushPCM_def tp_set_def Let_def)

text \<open>The frames of a whole utterance, however it was cut into chunks.\<close>

lemma talk_frames:
  assumes "te_fair env" and "talk_inv env w0 p" and "0 < rate" and "tb_resampler (tp_tb p) = None" and "tp_pcmIn p = []"
    and "push_all (tb_pushPCM env rate) i cs p = Some p1" and "tb_flushPCM env p1 = Some (None, p2)"
  shows "tp_frames p2 = tp_frames p @ padded opusFrameSize 0 (resample_spec rate opusRate (concat cs))"
proof (cases cs)
  case Nil
  then show ?thesis using flush_done [OF assms(1,2), of "[]"] assms by simp
next
  case (Cons c cs')
  let ?r = "NewPCMResampler rate opusRate"
  let ?p = "tp_set ((tp_tb p)\<lparr>tb_resampler := Some ?r\<rparr>) p"
  have inv: "talk_inv env w0 ?p" by (rule talk_inv_set [OF assms(2)]) simp_all
  have "push_all (tb_pushPCM env rate) i cs ?p = Some p1"
    using assms(3,4,6) unfolding Cons by (simp add: push_fresh)
  moreover have "resample_chunks cs ?r = Some (resample_spec rate opusRate (concat cs))"
    using resample_chunks_spec [OF assms(3) _ resampler_inv_New, of opusRate cs] by (simp add: resample_spec_def NewPCMResampler_def)
  ultimately show ?thesis
    using talk_frames_from [OF assms(1,3) inv resampler_inv_New, of cs _ i p1 p2] assms(5,7) by simp
qed

text \<open>Between two playbacks the queue is empty, and at most one frame of the last one is still being written.\<close>

definition tw_idle :: "tb_world \<Rightarrow> bool" where
  "tw_idle w \<longleftrightarrow> tw_inv w \<and> tb_queue (tw_tb w) = [] \<and> length (tw_enqueued w) \<le> 1 \<and>
     tb_resampler (tw_tb w) = None \<and> tb_pcmIn (tw_tb w) = []"

lemma tw_clear_idle: "tw_inv w \<Longrightarrow> tw_idle (tw_clear w)"
proof -
  assume "tw_inv w"
  then have "tw_inv (tw_clear w)" using tw_step_inv [OF _ tw_clears] by (simp add: tw_clear_def)
  then show ?thesis by (simp add: tw_idle_def tw_clear_def tb_clearPending_def flight_list_def split: option.split)
qed

lemma tw_idle_after: "tw_idle w \<Longrightarrow> tw_after w w' \<Longrightarrow> tw_idle w'"
  by (simp add: tw_idle_def tw_after_def)

text \<open>Playing a source over the doorbell backchannel always ends while the pacing goroutine goes on, and whatever
  happened the sender is left clean for the next utterance. When it ends without an error, the packets that the goroutine
  wrote to the track during the playback are, after the one that was being written when it began, exactly those
  of the interpolation of the whole source at 48 kHz, cut into frames of 480 samples, the last one filled up with
  silence, however the reads cut the source into chunks; with a sample rate that is not positive no frame is queued.\<close>

lemma talk_play_written:
  assumes "talk_inv env w0 p" and "tw_idle w0" and "talk_waitDrained env p = Some (None, q)" and "te_fair env"
  shows "talk_inv env w0 q \<and>
    (\<exists>ps. encoded_by (te_encode env) (tp_frames p) ps \<and> drop (length (tw_sent w0)) (tw_sent (tp_w q)) = flight_list (tw_flight w0) @ ps)"
proof -
  have inv: "tw_inv (tp_w p)" using assms(1) by (simp add: talk_inv_def)
  have "waited env drained_look p None q"
    using tb_wait_returns [OF assms(4) drained_looks inv] assms(3) by (auto simp: talk_waitDrained_def)
  then obtain cerr where after: "tw_after (tp_w p) (tp_w q)" "tp_frames q = tp_frames p" and l: "drained_look cerr (tp_tb q) = Some None"
    by (auto simp: waited_def)
  then have d: "tb_waitDrained cerr (tp_tb q) = Drain_returns None" by (auto simp: drained_look_def split: tb_drained.splits)
  have qi: "talk_inv env w0 q" by (rule talk_inv_after [OF assms(1) after])
  then have "\<not> tb_closed (tp_tb q)" "tw_sent (tp_w q) = tw_enqueued (tp_w q)"
    using d by (auto simp: tb_waitDrained_def talk_inv_def tw_inv_def split: if_splits option.splits)
  moreover from this have "tw_enqueued w0 = tw_sent w0 @ flight_list (tw_flight w0)"
    using assms(2) qi by (auto simp: tw_idle_def tw_inv_def talk_inv_def)
  ultimately show ?thesis using qi after(2) by (auto simp: talk_inv_def)
qed

theorem talkback_play_complete:
  assumes "pcm_source read rest ok" and "ok src" and "\<forall>i. ctx i \<noteq> Some Io_EOF"
    and "tw_idle w" and "te_fair env"
  shows "\<exists>e src' written p. talk_PlayStream read rate ctx env route src w = Some (e, src', written, p) \<and> tw_idle (tp_w p) \<and>
    \<not> tb_playing (tp_tb p) \<and>
    (e = None \<and> 0 < rate src \<longrightarrow> (\<exists>ps. written = flight_list (tw_flight w) @ ps \<and>
       encoded_by (te_encode env) (padded opusFrameSize 0 (resample_spec (rate src) opusRate (rest src))) ps)) \<and>
    (rate src \<le> 0 \<longrightarrow> tp_frames p = [] \<and> length written \<le> 1)"
proof -
  let ?p = "\<lparr>tp_w = w\<lparr>tw_tb := tb_play_starts (tw_tb w)\<rparr>, tp_frames = [], tp_at = 0\<rparr>" and ?push = "tb_pushPCM env (rate src)"
  let ?out = "\<lambda>e s p. (e, s, drop (length (tw_sent w)) (tw_sent (tp_w p)), p\<lparr>tp_w := tw_clear (tp_w p)\<rparr>)"
  have pinv: "talk_inv env w ?p" using assms(4)
    by (auto simp: talk_inv_def tw_idle_def tw_inv_def tb_play_starts_def encoded_by_def)
  have clean: "tw_idle (tw_clear (tp_w q)) \<and> \<not> tb_playing (tw_tb (tw_clear (tp_w q)))" if "talk_inv env w q" for q
    using that tw_clear_idle [of "tp_w q"] by (simp add: talk_inv_def) (simp add: tw_clear_def tb_clearPending_def)
  have short: "length (drop (length (tw_sent w)) (tw_sent (tp_w q))) \<le> 1" if "talk_inv env w q" "tp_frames q = []" for q
  proof -
    have "length (tw_sent (tp_w q)) \<le> length (tw_enqueued (tp_w q))" using that(1)
      by (auto simp: talk_inv_def tw_inv_def dest!: prefix_length_le)
    moreover have "tw_enqueued (tp_w q) = tw_enqueued w" using that by (auto simp: talk_inv_def encoded_by_def)
    moreover have "length (tw_enqueued w) \<le> 1" using assms(4) by (simp add: tw_idle_def)
    ultimately show ?thesis by simp
  qed
  show ?thesis
  proof (cases route)
    case (Some err)
    have "talk_inv env w (tp_set (tb_route_failed (tp_tb ?p)) ?p)" by (rule talk_inv_set [OF pinv]) (simp_all add: tb_route_failed_def)
    then show ?thesis using Some clean short by (simp add: talk_PlayStream_def Let_def)
  next
    case None
    let ?Q = "\<lambda>p. talk_ok env w (rate src) p \<and>
      (rate src \<le> 0 \<longrightarrow> tp_frames p = [] \<and> tp_pcmIn p = [] \<and> tb_resampler (tp_tb p) = None)"
    have start: "?Q ?p" "tb_resampler (tp_tb ?p) = None" "tp_pcmIn ?p = []"
      using assms(4) pinv by (simp_all add: talk_ok_def tb_play_starts_def tw_idle_def)
    have step: "\<exists>e q'. ?push j c q = Some (e, q') \<and> ?Q q'" if "?Q q" for j c q
      using that talk_push_ok [OF assms(5), of w "rate src" q j c] by (cases "rate src \<le> 0") (auto simp: tb_pushPCM_def)
    obtain e s' p cs where run: "play_loop read ctx ?push 0 src ?p = Some (e, s', p)" "?Q p"
        "e = None \<longrightarrow> concat cs = rest src \<and> push_all ?push 0 cs ?p = Some p"
      using pcm_source.play_loop_ends [OF assms(1-3), where Q = ?Q and push = ?push and p = ?p and i = 0, OF step start(1)] by blast
    have p: "talk_inv env w p" using run(2) by (simp add: talk_ok_def)
    obtain f q where flush: "tb_flushPCM env p = Some (f, q)" "talk_inv env w q" using talk_flush_ok [OF assms(5)] run(2) by blast
    have silent: "tp_frames q = []" if "rate src \<le> 0"
      using run(2) flush(1) that by (auto simp: tb_flushPCM_def tp_set_def Let_def frames_stop)
    obtain d v where drained: "talk_waitDrained env q = Some (d, v)" "waited env drained_look q d v"
      using tb_wait_returns [OF assms(5) drained_looks, of q] flush(2) by (auto simp: talk_waitDrained_def talk_inv_def)
    have v: "talk_inv env w v" "tp_frames v = tp_frames q"
      using talk_inv_after [OF flush(2)] drained(2) by (auto simp: waited_def)
    have play: "talk_PlayStream read rate ctx env route src w =
        (case e of Some err \<Rightarrow> Some (?out (Some err) s' p)
         | None \<Rightarrow> (case f of Some err \<Rightarrow> Some (?out (Some err) s' q) | None \<Rightarrow> Some (?out d s' v)))"
      using run(1) flush(1) drained(1) by (simp add: talk_PlayStream_def None Let_def split: option.splits)
    show ?thesis
    proof (cases "e = None \<and> f = None")
      case True
      have "\<exists>ps. encoded_by (te_encode env) (padded opusFrameSize 0 (resample_spec (rate src) opusRate (rest src))) ps \<and>
          drop (length (tw_sent w)) (tw_sent (tp_w v)) = flight_list (tw_flight w) @ ps" if "d = None" "0 < rate src"
        using talk_play_written [OF flush(2) assms(4) _ assms(5)] drained(1) that(1)
          talk_frames [OF assms(5) pinv that(2) start(2,3), of 0 cs p q] run(3) flush(1) True by auto
      then show ?thesis unfolding play using True clean [OF v(1)] short [OF v(1)] v(2) silent by auto
    next
      case False
      then show ?thesis unfolding play
        using run(2) clean [OF p] clean [OF flush(2)] short [OF p] short [OF flush(2)] silent by (auto split: option.splits)
    qed
  qed
qed

text \<open>Two samples at 48 kHz, on a sender whose goroutine makes a step before every look of the player.\<close>

theorem talkback_play_complete_witness:
  "\<exists>e src' written p. talk_PlayStream slice_ReadPCM16 ss_rate (\<lambda>_. None)
      \<lparr>te_encode = \<lambda>_ _. Inr [7], te_acts = \<lambda>_. [Ta_paces None], te_ctx = \<lambda>_. None\<rparr> None (NewSliceSource [1, 2] 48000) tw_start =
        Some (e, src', written, p) \<and>
    tw_idle (tp_w p) \<and> \<not> tb_playing (tp_tb p)"
proof -
  have "slice_ok (NewSliceSource [1, 2] 48000)" by (simp add: slice_ok_def NewSliceSource_def)
  moreover have "tw_idle tw_start" by (simp add: tw_idle_def tw_inv_def tw_start_def tb_new_def)
  moreover have "te_fair \<lparr>te_encode = \<lambda>_ _. Inr [7], te_acts = \<lambda>_. [Ta_paces None], te_ctx = \<lambda>_. None\<rparr>" by (auto simp: te_fair_def)
  ultimately show ?thesis
    using talkback_play_complete [OF slice.pcm_source_axioms, of "NewSliceSource [1, 2] 48000" "\<lambda>_. None" tw_start
        "\<lparr>te_encode = \<lambda>_ _. Inr [7], te_acts = \<lambda>_. [Ta_paces None], te_ctx = \<lambda>_. None\<rparr>" ss_rate None] by auto
qed

end
