(* ===== verification/Url.thy ===== *)
theory Url
  imports Config "HOL-Library.List_Lexorder" "HOL-Library.Char_ord"
begin

text \<open>
  The go2rtc endpoints: the signaling URL of a node (internal/runtime/runtime.go) and the endpoints of the
  talkback control plane (internal/webrtc/talkback.go). \<open>url.Parse\<close> is a parameter; \<open>url.Values.Encode\<close> is
  modelled, so that what a stream name becomes in the query is a matter of proof.
\<close>

record go_endpoint = go_url +
  ur_Path :: string

subsection \<open>Query strings\<close>

text \<open>\<open>url.QueryEscape\<close>: letters, digits and \<open>-_.~\<close> stay, a space becomes a plus, any other byte \<open>%XX\<close>.\<close>

definition upper_hex :: "nat \<Rightarrow> char" where
  "upper_hex n = (if n < 10 then char_of (48 + n) else char_of (55 + n))"

definition unreserved :: "char \<Rightarrow> bool" where
  "unreserved c =
     (let n = (of_char c :: nat) in
      48 \<le> n \<and> n \<le> 57 \<or> 65 \<le> n \<and> n \<le> 90 \<or> 97 \<le> n \<and> n \<le> 122 \<or> n = 45 \<or> n = 95 \<or> n = 46 \<or> n = 126)"

definition escape_char :: "char \<Rightarrow> string" where
  "escape_char c =
     (if unreserved c then [c] else if c = CHR '' '' then ''+''
      else [CHR ''%'', upper_hex (of_char c div 16), upper_hex (of_char c mod 16)])"

definition QueryEscape :: "string \<Rightarrow> string" where
  "QueryEscape s = concat (map escape_char s)"

text \<open>\<open>Encode\<close> writes the pairs sorted by key; the sources set one value for each key.\<close>

definition Values_Set :: "string \<Rightarrow> string \<Rightarrow> (string \<times> string) list \<Rightarrow> (string \<times> string) list" where
  "Values_Set k v q = filter (\<lambda>p. fst p \<noteq> k) q @ [(k, v)]"

definition Values_Encode :: "(string \<times> string) list \<Rightarrow> string" where
  "Values_Encode q =
     join_with (CHR ''&'') (map (\<lambda>(k, v). QueryEscape k @ CHR ''='' # QueryEscape v) (sort_key fst q))"

text \<open>Reading a query back, as the server does.\<close>

definition unhex :: "char \<Rightarrow> nat option" where
  "unhex c =
     (let n = (of_char c :: nat) in
      if 48 \<le> n \<and> n \<le> 57 then Some (n - 48) else if 65 \<le> n \<and> n \<le> 70 then Some (n - 55)
      else if 97 \<le> n \<and> n \<le> 102 then Some (n - 87) else None)"

fun QueryUnescape :: "string \<Rightarrow> string option" where
  "QueryUnescape [] = Some []"
| "QueryUnescape (c # s) =
     (if c = CHR ''+'' then map_option (Cons (CHR '' '')) (QueryUnescape s)
      else if c = CHR ''%'' then
        (case s of
           a # b # s' \<Rightarrow>
             (case (unhex a, unhex b) of
                (Some x, Some y) \<Rightarrow> map_option (Cons (char_of (16 * x + y))) (QueryUnescape s')
              | _ \<Rightarrow> None)
         | _ \<Rightarrow> None)
      else map_option (Cons c) (QueryUnescape s))"

definition parse_pair :: "string \<Rightarrow> (string \<times> string) option" where
  "parse_pair p =
     (let k = takeWhile (\<lambda>c. c \<noteq> CHR ''='') p; v = drop (length k + 1) p in
      case (QueryUnescape k, QueryUnescape v) of (Some k', Some v') \<Rightarrow> Some (k', v') | _ \<Rightarrow> None)"

definition ParseQuery :: "string \<Rightarrow> (string \<times> string) option list" where
  "ParseQuery q = (if q = [] then [] else map parse_pair (split_on (CHR ''&'') q))"

lemma unhex_upper [simp]: "n < 16 \<Longrightarrow> unhex (upper_hex n) = Some n"
  by (auto simp: unhex_def upper_hex_def Let_def)

lemma unescape_hex:
  assumes "x < 16" "y < 16"
  shows "QueryUnescape (CHR ''%'' # upper_hex x # upper_hex y # s) = map_option (Cons (char_of (16 * x + y))) (QueryUnescape s)"
  using assms by simp

lemma unescape_escape_char: "QueryUnescape (escape_char c @ s) = map_option (Cons c) (QueryUnescape s)"
proof -
  have plus: "\<not> unreserved (CHR ''+'')" and percent: "\<not> unreserved (CHR ''%'')" by (simp_all add: unreserved_def)
  have lt: "(of_char c :: nat) div 16 < 16" "(of_char c :: nat) mod 16 < 16" using nat_of_char_less_256 [of c] by linarith+
  have code: "char_of (16 * (of_char c div 16) + (of_char c :: nat) mod 16) = c" by (simp add: mult.commute)
  consider "unreserved c" | "\<not> unreserved c" "c = CHR '' ''" | "\<not> unreserved c" "c \<noteq> CHR '' ''" by blast
  then show ?thesis
  proof cases
    case 1
    then have "c \<noteq> CHR ''+''" "c \<noteq> CHR ''%''" using plus percent by auto
    then show ?thesis using 1 by (simp add: escape_char_def)
  next
    case 2
    then show ?thesis by (simp add: escape_char_def)
  next
    case 3
    then have "escape_char c @ s = CHR ''%'' # upper_hex (of_char c div 16) # upper_hex (of_char c mod 16) # s"
      unfolding escape_char_def by (simp only: if_False append_Cons append_Nil)
    then show ?thesis using unescape_hex [OF lt, of s] unfolding code by (simp only:)
  qed
qed

lemma unescape_escape [simp]: "QueryUnescape (QueryEscape s) = Some s"
  by (induction s) (simp_all add: QueryEscape_def unescape_escape_char)

lemma escape_chars:
  "c \<in> set (QueryEscape s) \<Longrightarrow> c \<noteq> CHR ''&'' \<and> c \<noteq> CHR ''='' \<and> c \<noteq> CHR ''#''"
proof -
  have hex: "upper_hex n \<noteq> CHR ''&'' \<and> upper_hex n \<noteq> CHR ''='' \<and> upper_hex n \<noteq> CHR ''#''" if "n < 16" for n
  proof -
    have "unhex (CHR ''&'') = None" "unhex (CHR ''='') = None" "unhex (CHR ''#'') = None" by (simp_all add: unhex_def)
    then show ?thesis using unhex_upper [OF that] by (metis option.distinct(1))
  qed
  have un: "\<not> unreserved (CHR ''&'')" "\<not> unreserved (CHR ''='')" "\<not> unreserved (CHR ''#'')" by (simp_all add: unreserved_def)
  assume "c \<in> set (QueryEscape s)"
  then obtain d where "c \<in> set (escape_char d)" by (auto simp: QueryEscape_def)
  moreover have "(of_char d :: nat) div 16 < 16" "(of_char d :: nat) mod 16 < 16" using nat_of_char_less_256 [of d] by linarith+
  ultimately show ?thesis using hex un by (auto simp: escape_char_def split: if_splits)
qed

abbreviation query_pair :: "string \<times> string \<Rightarrow> string" where
  "query_pair p \<equiv> (case p of (k, v) \<Rightarrow> QueryEscape k @ CHR ''='' # QueryEscape v)"

lemma parse_query_pair [simp]: "parse_pair (QueryEscape k @ CHR ''='' # QueryEscape v) = Some (k, v)"
proof -
  have "takeWhile (\<lambda>c. c \<noteq> CHR ''='') (QueryEscape k @ CHR ''='' # QueryEscape v) = QueryEscape k"
    using escape_chars [of _ k] by (subst takeWhile_append2) auto
  then show ?thesis by (simp add: parse_pair_def)
qed

text \<open>Reading an encoded query gives the pairs back, in the order of their keys.\<close>

lemma parse_encoded: "ParseQuery (Values_Encode q) = map Some (sort_key fst q)"
proof (cases "q = []")
  case True
  then show ?thesis by (simp add: ParseQuery_def Values_Encode_def)
next
  case False
  let ?ws = "map query_pair (sort_key fst q)"
  have "CHR ''&'' \<notin> set (query_pair p)" for p
    using escape_chars [of "CHR ''&''" "fst p"] escape_chars [of "CHR ''&''" "snd p"] by (cases p) auto
  then have apart: "\<forall>w \<in> set ?ws. CHR ''&'' \<notin> set w" unfolding set_map by blast
  have "length ?ws = length q" by simp
  then have "?ws \<noteq> []" using False by fastforce
  then have split: "split_on (CHR ''&'') (Values_Encode q) = ?ws"
    unfolding Values_Encode_def by (rule split_join) (rule apart)
  have "Values_Encode q \<noteq> []"
  proof
    assume "Values_Encode q = []"
    then have "?ws = [[]]" using split by simp
    then show False by (cases "sort_key fst q") auto
  qed
  then show ?thesis unfolding ParseQuery_def split by (simp split: prod.splits)
qed

subsection \<open>The endpoints\<close>

text \<open>\<open>u.Query()\<close>, which drops what it cannot read.\<close>

definition u_Query :: "'a go_url_scheme \<Rightarrow> (string \<times> string) list" where
  "u_Query u = filter (\<lambda>p. fst p \<noteq> []) (List.map_filter id (ParseQuery (ur_RawQuery u)))"

definition signalingURL :: "(string \<Rightarrow> go_endpoint result) \<Rightarrow> string \<Rightarrow> string \<Rightarrow> go_endpoint result" where
  "signalingURL parse apiURL streamName =
     (case parse apiURL of
        Inl err \<Rightarrow> Inl err
      | Inr u \<Rightarrow>
          if ur_Host u = [] \<or> ur_Scheme u \<noteq> ''http'' \<and> ur_Scheme u \<noteq> ''https'' then Inl (Msg ''invalid go2rtc URL'')
          else Inr (u\<lparr>ur_Scheme := if ur_Scheme u = ''https'' then ''wss'' else ''ws'',
                      ur_Path := trim_right slash (ur_Path u) @ ''/api/ws'',
                      ur_RawQuery := Values_Encode [(''src'', streamName)]\<rparr>))"

definition webrtcInputURL :: "(string \<Rightarrow> go_endpoint result) \<Rightarrow> string \<Rightarrow> string \<Rightarrow> go_endpoint result" where
  "webrtcInputURL parse baseURL stream =
     (case parse baseURL of
        Inl err \<Rightarrow> Inl (Wrap ''parse go2rtc URL: '' err)
      | Inr u \<Rightarrow> Inr (u\<lparr>ur_Path := trim_right slash (ur_Path u) @ ''/api/webrtc'',
                      ur_RawQuery := Values_Encode (Values_Set ''dst'' stream (u_Query u))\<rparr>))"

definition streamsURL :: "(string \<Rightarrow> go_endpoint result) \<Rightarrow> string \<Rightarrow> string \<Rightarrow> string \<Rightarrow> go_endpoint result" where
  "streamsURL parse baseURL dst src =
     (case parse baseURL of
        Inl err \<Rightarrow> Inl (Wrap ''parse go2rtc URL: '' err)
      | Inr u \<Rightarrow> Inr (u\<lparr>ur_Path := trim_right slash (ur_Path u) @ ''/api/streams'',
                      ur_RawQuery := Values_Encode (Values_Set ''src'' src (Values_Set ''dst'' dst (u_Query u)))\<rparr>))"

text \<open>The signaling URL of the diagnostic modes (cmd/main.go), as text.\<close>

definition diagnosticSignalingURL :: "(string \<Rightarrow> go_endpoint result) \<Rightarrow> string \<Rightarrow> string \<Rightarrow> string result" where
  "diagnosticSignalingURL parse apiURL streamName =
     (case parse apiURL of
        Inl err \<Rightarrow> Inl err
      | Inr u \<Rightarrow> Inr ((if ur_Scheme u = ''https'' then ''wss'' else ''ws'') @ ''://'' @ ur_Host u @ ''/api/ws?src='' @ streamName))"

text \<open>C29: The go2rtc endpoints a node is given carry the configured names and nothing else: reading the query
  of the signaling URL, of the producer URL and of the route URL back gives exactly the stream names put in,
  whatever bytes they are made of; scheme and host are those of the configured URL.\<close>

theorem endpoints_carry_names:
  assumes "parse base = Inr u" and "ur_Host u \<noteq> []" and "ur_Scheme u = ''http'' \<or> ur_Scheme u = ''https''" and "ur_RawQuery u = []"
  shows "\<exists>sig input route. signalingURL parse base name = Inr sig \<and> webrtcInputURL parse base name = Inr input \<and>
    streamsURL parse base dst src = Inr route \<and>
    ur_Scheme sig = (if ur_Scheme u = ''https'' then ''wss'' else ''ws'') \<and> ur_Host sig = ur_Host u \<and>
    ur_Host input = ur_Host u \<and> ur_Host route = ur_Host u \<and>
    ParseQuery (ur_RawQuery sig) = [Some (''src'', name)] \<and> ParseQuery (ur_RawQuery input) = [Some (''dst'', name)] \<and>
    ParseQuery (ur_RawQuery route) = [Some (''dst'', dst), Some (''src'', src)]"
proof -
  have "u_Query u = []" using assms(4) by (simp add: u_Query_def ParseQuery_def map_filter_simps)
  then have query: "Values_Set ''dst'' d (u_Query u) = [(''dst'', d)]"
      "Values_Set ''src'' src [(''dst'', d)] = [(''dst'', d), (''src'', src)]" for d
    by (simp_all add: Values_Set_def)
  let ?sig = "u\<lparr>ur_Scheme := if ur_Scheme u = ''https'' then ''wss'' else ''ws'', ur_Path := trim_right slash (ur_Path u) @ ''/api/ws'',
    ur_RawQuery := Values_Encode [(''src'', name)]\<rparr>"
  let ?input = "u\<lparr>ur_Path := trim_right slash (ur_Path u) @ ''/api/webrtc'', ur_RawQuery := Values_Encode [(''dst'', name)]\<rparr>"
  let ?route = "u\<lparr>ur_Path := trim_right slash (ur_Path u) @ ''/api/streams'',
    ur_RawQuery := Values_Encode [(''dst'', dst), (''src'', src)]\<rparr>"
  have "\<not> (ur_Host u = [] \<or> ur_Scheme u \<noteq> ''http'' \<and> ur_Scheme u \<noteq> ''https'')" using assms(2,3) by blast
  then have "signalingURL parse base name = Inr ?sig"
    unfolding signalingURL_def assms(1) sum.case by (simp only: if_False)
  moreover have "webrtcInputURL parse base name = Inr ?input" unfolding webrtcInputURL_def assms(1) sum.case query ..
  moreover have "streamsURL parse base dst src = Inr ?route" unfolding streamsURL_def assms(1) sum.case query ..
  moreover have "sort_key fst [(''dst'', dst), (''src'', src)] = [(''dst'', dst), (''src'', src)]"
    by (simp add: list_less_def lexord_def)
  ultimately show ?thesis by (intro exI [of _ ?sig] exI [of _ ?input] exI [of _ ?route]) (simp add: parse_encoded)
qed

definition sample_base :: "string \<Rightarrow> go_endpoint result" where
  "sample_base _ = Inr \<lparr>ur_Scheme = ''http'', ur_Host = ''h:1984'', ur_RawQuery = [], ur_Fragment = [], ur_Hostname = ''h'', ur_Path = []\<rparr>"

theorem endpoints_carry_names_witness:
  "\<exists>sig. signalingURL sample_base ''b'' ''a&src=b'' = Inr sig \<and> ParseQuery (ur_RawQuery sig) = [Some (''src'', ''a&src=b'')]"
proof -
  let ?u = "\<lparr>ur_Scheme = ''http'', ur_Host = ''h:1984'', ur_RawQuery = [], ur_Fragment = [], ur_Hostname = ''h'', ur_Path = []\<rparr>"
  have "sample_base ''b'' = Inr ?u" "ur_Host ?u \<noteq> []" "ur_Scheme ?u = ''http'' \<or> ur_Scheme ?u = ''https''" "ur_RawQuery ?u = []"
    by (simp_all add: sample_base_def)
  from endpoints_carry_names [where parse = sample_base and base = "''b''" and u = ?u, OF this] show ?thesis by blast
qed

text \<open>The diagnostic modes do not escape: the name of a stream can add to the query.\<close>

lemma diagnostic_url_unescaped:
  "diagnosticSignalingURL sample_base ''b'' ''a&src=b'' = Inr ''ws://h:1984/api/ws?src=a&src=b'' \<and>
   ParseQuery ''src=a&src=b'' = [Some (''src'', ''a''), Some (''src'', ''b'')]"
  by (simp add: diagnosticSignalingURL_def sample_base_def ParseQuery_def parse_pair_def Let_def)

end
