(* ===== verification/Talkback_Link.thy ===== *)
theory Talkback_Link
  imports Talkback Url Native
begin

text \<open>
  The life of the talkback sender (internal/webrtc/talkback.go, \<open>ensureTalkback\<close> of internal/webrtc/client.go):
  the HTTP control plane of go2rtc, the set-up of the producer connection with its error paths, its cache in the
  client, and its closing. pion, libopus and the HTTP client are parameters (\<open>tb_external\<close>); a peer
  connection is a handle of Native, so that a connection that leaks or is closed twice shows.
\<close>

record http_reply =
  hr_Status :: string
  hr_StatusCode :: int
  hr_Body :: "string result"

datatype pc_state = PcNew | PcConnecting | PcConnected | PcDisconnected | PcFailed | PcClosed

record tb_external =
  tx_parse :: "string \<Rightarrow> go_endpoint result"
  tx_String :: "go_endpoint \<Rightarrow> string"
  tx_RegisterDefaultCodecs :: "go_error option"
  tx_NewPeerConnection :: "ice_server list \<Rightarrow> go_error option"
  tx_NewTrack :: "go_error option"
  tx_AddTransceiver :: "go_error option"
  tx_NewEncoder :: "go_error option"
  tx_SetBitrate :: "go_error option"
  tx_EncodeSilence :: "byte list result"
  tx_CreateOffer :: "go_error option"
  tx_SetLocalDescription :: "go_error option"
  tx_gathered :: bool
  tx_LocalSDP :: string
  tx_NewRequest :: "string \<Rightarrow> go_error option"
  tx_Do :: "string \<Rightarrow> string \<Rightarrow> http_reply result"
  tx_SetRemoteDescription :: "string \<Rightarrow> go_error option"
  tx_connected :: bool
  tx_lost :: "string option"
  tx_ConnectionState :: "nat \<Rightarrow> pc_state"

subsection \<open>The control plane\<close>

definition bad_status :: "http_reply \<Rightarrow> bool" where
  "bad_status res \<longleftrightarrow> hr_StatusCode res < 200 \<or> 299 < hr_StatusCode res"

definition go2rtc_returned :: "http_reply \<Rightarrow> string \<Rightarrow> go_error" where
  "go2rtc_returned res body = Msg (''go2rtc returned '' @ hr_Status res @ '': '' @ trim_space body)"

definition postStreams :: "tb_external \<Rightarrow> string \<Rightarrow> go_error option" where
  "postStreams x endpoint =
     (case tx_NewRequest x endpoint of Some err \<Rightarrow> Some err | None \<Rightarrow>
      (case tx_Do x endpoint [] of Inl err \<Rightarrow> Some err | Inr res \<Rightarrow>
      (case hr_Body res of Inl err \<Rightarrow> Some err | Inr body \<Rightarrow>
        if bad_status res then Some (go2rtc_returned res body) else None)))"

definition exchangeSDPHTTP :: "tb_external \<Rightarrow> string \<Rightarrow> string result" where
  "exchangeSDPHTTP x endpoint =
     (case tx_CreateOffer x of Some err \<Rightarrow> Inl (Wrap ''talkback create offer: '' err) | None \<Rightarrow>
      (case tx_SetLocalDescription x of Some err \<Rightarrow> Inl (Wrap ''talkback set local offer: '' err) | None \<Rightarrow>
      if \<not> tx_gathered x then Inl (Msg ''talkback: timed out while gathering ICE candidates'')
      else (case tx_NewRequest x endpoint of Some err \<Rightarrow> Inl (Wrap ''talkback SDP request: '' err) | None \<Rightarrow>
      (case tx_Do x endpoint (tx_LocalSDP x) of Inl err \<Rightarrow> Inl (Wrap ''talkback post SDP offer: '' err) | Inr res \<Rightarrow>
      (case hr_Body res of Inl err \<Rightarrow> Inl (Wrap ''talkback read SDP answer: '' err) | Inr body \<Rightarrow>
        if bad_status res then Inl (go2rtc_returned res body) else Inr body)))))"

subsection \<open>Setting the sender up\<close>

text \<open>The sender as the client holds it; \<open>sn_pc\<close> is its peer connection.\<close>

record tb_sender =
  sn_apiBaseURL :: string
  sn_inStream :: string
  sn_dstStream :: string
  sn_pc :: nat
  sn_silence :: "byte list"
  sn_closeOnce :: bool
  sn_tb :: talkback

definition assertRoute :: "tb_external \<Rightarrow> tb_sender \<Rightarrow> go_error option \<times> tb_sender" where
  "assertRoute x s =
     (case streamsURL (tx_parse x) (sn_apiBaseURL s) (sn_dstStream s) (''ffmpeg:'' @ sn_inStream s @ ''#audio=eld'') of
        Inl err \<Rightarrow> (Some err, s)
      | Inr u \<Rightarrow>
          (case postStreams x (tx_String x u) of
             None \<Rightarrow> (None, s)
           | Some err \<Rightarrow> (Some err, s\<lparr>sn_tb := tb_route_failed (sn_tb s)\<rparr>)))"

text \<open>\<open>iceServers\<close> of client.go: the servers of the configuration, or a public one.\<close>

definition iceServers :: "ice_server list option \<Rightarrow> ice_server list" where
  "iceServers servers =
     (case servers of
        None \<Rightarrow> [\<lparr>ic_URLs = [''stun:stun.l.google.com:19302''], ic_Username = [], ic_Credential = []\<rparr>]
      | Some ss \<Rightarrow> map (\<lambda>s. \<lparr>ic_URLs = ic_URLs s, ic_Username = ic_Username s, ic_Credential = ic_Credential s\<rparr>) ss)"

text \<open>The connection state hook can report the loss of the connection during the set-up (\<open>tx_lost\<close>).\<close>

definition hooked :: "tb_external \<Rightarrow> talkback" where
  "hooked x = (case tx_lost x of None \<Rightarrow> tb_new | Some state \<Rightarrow> tb_peer_lost state tb_new)"

text \<open>The steps between the new connection and the producer's connected state, and their first error.\<close>

definition talkback_track_error :: "tb_external \<Rightarrow> go_error option" where
  "talkback_track_error x =
     (case tx_NewTrack x of Some err \<Rightarrow> Some (Wrap ''talkback track: '' err) | None \<Rightarrow>
      (case tx_AddTransceiver x of Some err \<Rightarrow> Some (Wrap ''talkback transceiver: '' err) | None \<Rightarrow>
      (case tx_NewEncoder x of Some err \<Rightarrow> Some (Wrap ''talkback opus encoder: '' err) | None \<Rightarrow>
      (case tx_SetBitrate x of Some err \<Rightarrow> Some (Wrap ''talkback opus bitrate: '' err) | None \<Rightarrow> None))))"

definition talkback_handshake :: "tb_external \<Rightarrow> string \<Rightarrow> string \<Rightarrow> go_error option" where
  "talkback_handshake x apiBaseURL inStream =
     (case webrtcInputURL (tx_parse x) apiBaseURL inStream of Inl err \<Rightarrow> Some err | Inr endpoint \<Rightarrow>
      (case exchangeSDPHTTP x (tx_String x endpoint) of Inl err \<Rightarrow> Some err | Inr answer \<Rightarrow>
      (case tx_SetRemoteDescription x answer of Some err \<Rightarrow> Some (Wrap ''talkback set remote answer: '' err) | None \<Rightarrow>
       if \<not> tx_connected x then Some (Msg ''talkback: timed out before WebRTC connection reached connected state'') else None)))"

text \<open>The set-up of a sender on the connection \<open>pc\<close>.\<close>

definition talkback_on :: "tb_external \<Rightarrow> string \<Rightarrow> string \<Rightarrow> string \<Rightarrow> nat \<Rightarrow> tb_sender result" where
  "talkback_on x apiBaseURL inStream dstStream pc =
     (case talkback_track_error x of Some err \<Rightarrow> Inl err | None \<Rightarrow>
      (case tx_EncodeSilence x of Inl err \<Rightarrow> Inl (Wrap ''talkback silence encode: '' err) | Inr silence \<Rightarrow>
      (case talkback_handshake x apiBaseURL inStream of Some err \<Rightarrow> Inl err | None \<Rightarrow>
      (case assertRoute x \<lparr>sn_apiBaseURL = apiBaseURL, sn_inStream = inStream, sn_dstStream = dstStream, sn_pc = pc,
            sn_silence = silence, sn_closeOnce = False, sn_tb = hooked x\<rparr> of
          (Some err, _) \<Rightarrow> Inl (Wrap ''talkback start AAC-ELD route: '' err)
        | (None, t) \<Rightarrow> Inr t))))"

definition newTalkbackSender ::
    "tb_external \<Rightarrow> string \<Rightarrow> string \<Rightarrow> string \<Rightarrow> ice_server list option \<Rightarrow> native \<Rightarrow> tb_sender result \<times> native" where
  "newTalkbackSender x apiBaseURL inStream dstStream servers nt =
     (case tx_RegisterDefaultCodecs x of Some err \<Rightarrow> (Inl (Wrap ''talkback register codecs: '' err), nt) | None \<Rightarrow>
      let configuredICE = (if servers \<noteq> None then iceServers servers else []) in
      (case tx_NewPeerConnection x configuredICE of Some err \<Rightarrow> (Inl (Wrap ''talkback peer connection: '' err), nt) | None \<Rightarrow>
      (case nt_New nt of (pc, nt) \<Rightarrow>
      (case talkback_on x apiBaseURL inStream dstStream pc of
         Inl err \<Rightarrow> (Inl err, nt_delete pc nt)
       | Inr t \<Rightarrow> (Inr t, nt)))))"

lemma assertRoute_ok: "assertRoute x s = (None, t) \<Longrightarrow> t = s"
  by (auto simp: assertRoute_def split: sum.splits option.splits)

lemma talkback_on_sender:
  "talkback_on x base inS dst pc = Inr s \<Longrightarrow> sn_pc s = pc \<and> sn_tb s = hooked x \<and> \<not> sn_closeOnce s"
  by (auto simp: talkback_on_def split: option.splits sum.splits prod.splits dest: assertRoute_ok)

text \<open>Every error path closes the connection it opened; a sender that is returned owns one open connection.\<close>

lemma newTalkbackSender_handles:
  assumes "newTalkbackSender x base inS dst servers nt = (r, nt')" and "nt_holds hs nt"
  shows "case r of Inl _ \<Rightarrow> nt_holds hs nt'
    | Inr s \<Rightarrow> nt_holds (add_mset (sn_pc s) hs) nt' \<and> sn_tb s = hooked x \<and> \<not> sn_closeOnce s \<and> sn_pc s = nt_next nt"
proof -
  obtain pc nt1 where new: "nt_New nt = (pc, nt1)" by fastforce
  have held: "nt_holds (add_mset pc hs) nt1" using nt_holds_New [OF assms(2) new] .
  have pc: "pc = nt_next nt" using new by (simp add: nt_New_def)
  show ?thesis
  proof (cases r)
    case (Inl err)
    then have "nt' = nt \<or> nt' = nt_delete pc nt1"
      using assms(1) unfolding newTalkbackSender_def new Let_def prod.case
      by (auto split: option.splits sum.splits)
    then show ?thesis using Inl assms(2) nt_holds_delete [OF held] by auto
  next
    case (Inr s)
    then have "talkback_on x base inS dst pc = Inr s" "nt' = nt1"
      using assms(1) unfolding newTalkbackSender_def new Let_def prod.case
      by (auto split: option.splits sum.splits)
    then show ?thesis using Inr held talkback_on_sender pc by simp
  qed
qed

subsection \<open>The cache of the client\<close>

text \<open>
  The part of the client that holds the sender: \<open>tc_started\<close> are the senders, by connection, whose \<open>run\<close>
  goroutine was started, \<open>tc_running\<close> those of them whose goroutine has not ended.
\<close>

record talk_client =
  tc_apiBaseURL :: string
  tc_talkbackStream :: string
  tc_talkbackIn :: string
  tc_iceServers :: "ice_server list option"
  tc_tb :: "tb_sender option"
  tc_tbCancel :: bool
  tc_native :: native
  tc_started :: "nat set"
  tc_running :: "nat set"

definition talkbackEnabled :: "talk_client \<Rightarrow> bool" where
  "talkbackEnabled c \<longleftrightarrow> tc_apiBaseURL c \<noteq> [] \<and> tc_talkbackStream c \<noteq> []"

text \<open>
  \<open>close\<close>: a closed sender, its connection down, and the wait for the goroutine, which does not return when it
  was never started (\<open>None\<close>). The route is cleared with an empty source; the answer is ignored.
\<close>

definition tb_close :: "tb_sender \<Rightarrow> talk_client \<Rightarrow> talk_client option" where
  "tb_close s c =
     (if sn_closeOnce s then Some c
      else if sn_pc s \<notin> tc_started c then None
      else Some (c\<lparr>tc_native := nt_delete (sn_pc s) (tc_native c), tc_running := tc_running c - {sn_pc s}\<rparr>))"

definition clear_route_url :: "tb_external \<Rightarrow> tb_sender \<Rightarrow> string option" where
  "clear_route_url x s =
     (case streamsURL (tx_parse x) (sn_apiBaseURL s) (sn_dstStream s) [] of Inl _ \<Rightarrow> None | Inr u \<Rightarrow> Some (tx_String x u))"

definition sender_state :: "tb_external \<Rightarrow> tb_sender \<Rightarrow> pc_state" where
  "sender_state x s = (if tb_closed (sn_tb s) then PcClosed else tx_ConnectionState x (sn_pc s))"

definition create_talkback :: "tb_external \<Rightarrow> talk_client \<Rightarrow> tb_sender result \<times> talk_client" where
  "create_talkback x c =
     (let inS = (if tc_talkbackIn c = [] then ''talkback_in'' else tc_talkbackIn c) in
      case newTalkbackSender x (tc_apiBaseURL c) inS (tc_talkbackStream c) (tc_iceServers c) (tc_native c) of
        (Inl err, nt) \<Rightarrow> (Inl err, c\<lparr>tc_native := nt\<rparr>)
      | (Inr tb, nt) \<Rightarrow>
          (Inr tb, c\<lparr>tc_native := nt, tc_tb := Some tb, tc_tbCancel := True,
                     tc_started := insert (sn_pc tb) (tc_started c), tc_running := insert (sn_pc tb) (tc_running c)\<rparr>))"

definition ensureTalkback :: "tb_external \<Rightarrow> talk_client \<Rightarrow> (tb_sender result \<times> talk_client) option" where
  "ensureTalkback x c =
     (case tc_tb c of
        None \<Rightarrow> Some (create_talkback x c)
      | Some s \<Rightarrow>
          if sender_state x s \<in> {PcFailed, PcDisconnected, PcClosed}
          then (case tb_close s (c\<lparr>tc_tbCancel := False\<rparr>) of
                  None \<Rightarrow> None
                | Some c1 \<Rightarrow> Some (create_talkback x (c1\<lparr>tc_tb := None\<rparr>)))
          else Some (Inr s, c))"

text \<open>The part of \<open>Client.Close\<close> that ends the sender.\<close>

definition client_close_talkback :: "talk_client \<Rightarrow> talk_client option" where
  "client_close_talkback c =
     (let c1 = c\<lparr>tc_tb := None\<rparr> in
      case tc_tb c of None \<Rightarrow> Some c1 | Some s \<Rightarrow> tb_close s c1)"

text \<open>The goroutine of a sender that was closed or cancelled ends; the sender's queue changes by itself.\<close>

inductive tc_step :: "talk_client \<Rightarrow> talk_client \<Rightarrow> bool" where
  tc_ensures: "ensureTalkback x c = Some (r, c') \<Longrightarrow> tc_step c c'"
| tc_closes: "client_close_talkback c = Some c' \<Longrightarrow> tc_step c c'"
| tc_sender: "tc_tb c = Some s \<Longrightarrow> tc_step c (c\<lparr>tc_tb := Some (s\<lparr>sn_tb := t\<rparr>)\<rparr>)"
| tc_run_ends: "tc_tb c = Some s \<Longrightarrow> tb_closed (sn_tb s) \<Longrightarrow> tc_step c (c\<lparr>tc_running := tc_running c - {sn_pc s}\<rparr>)"

definition tc_new :: "string \<Rightarrow> string \<Rightarrow> string \<Rightarrow> ice_server list option \<Rightarrow> talk_client" where
  "tc_new base stream inS servers =
     \<lparr>tc_apiBaseURL = base, tc_talkbackStream = stream, tc_talkbackIn = inS, tc_iceServers = servers, tc_tb = None,
      tc_tbCancel = False, tc_native = nt_start, tc_started = {}, tc_running = {}\<rparr>"

definition tc_pcs :: "talk_client \<Rightarrow> nat multiset" where
  "tc_pcs c = (case tc_tb c of None \<Rightarrow> {#} | Some s \<Rightarrow> {#sn_pc s#})"

definition tc_inv :: "talk_client \<Rightarrow> bool" where
  "tc_inv c \<longleftrightarrow> nt_holds (tc_pcs c) (tc_native c) \<and> tc_running c \<subseteq> set_mset (tc_pcs c) \<and>
     (case tc_tb c of None \<Rightarrow> True | Some s \<Rightarrow> \<not> sn_closeOnce s \<and> sn_pc s \<in> tc_started c)"

lemma tb_close_inv:
  assumes "tc_inv c" and "tc_tb c = Some s"
  shows "\<exists>c'. tb_close s (c\<lparr>tc_tbCancel := b\<rparr>) = Some c' \<and> tc_inv (c'\<lparr>tc_tb := None\<rparr>)"
    and "\<exists>c'. tb_close s (c\<lparr>tc_tb := None\<rparr>) = Some c' \<and> tc_inv c'"
proof -
  have h: "nt_holds {#sn_pc s#} (tc_native c)" "tc_running c \<subseteq> {sn_pc s}" "\<not> sn_closeOnce s" "sn_pc s \<in> tc_started c"
    using assms by (auto simp: tc_inv_def tc_pcs_def)
  have "nt_holds {#} (nt_delete (sn_pc s) (tc_native c))" using h(1) by (rule nt_holds_delete)
  moreover have "tc_running c - {sn_pc s} = {}" using h(2) by blast
  ultimately show "\<exists>c'. tb_close s (c\<lparr>tc_tbCancel := b\<rparr>) = Some c' \<and> tc_inv (c'\<lparr>tc_tb := None\<rparr>)"
    "\<exists>c'. tb_close s (c\<lparr>tc_tb := None\<rparr>) = Some c' \<and> tc_inv c'"
    using h(3,4) by (simp_all add: tb_close_def tc_inv_def tc_pcs_def)
qed

lemma create_inv:
  assumes "tc_inv c" and "tc_tb c = None" and "create_talkback x c = (r, c')"
  shows "tc_inv c' \<and> (case r of Inl _ \<Rightarrow> tc_tb c' = None | Inr s \<Rightarrow> tc_tb c' = Some s \<and> sn_tb s = hooked x)"
proof -
  have h: "nt_holds {#} (tc_native c)" "tc_running c = {}" using assms(1,2) by (auto simp: tc_inv_def tc_pcs_def)
  obtain r1 nt where new: "newTalkbackSender x (tc_apiBaseURL c) (if tc_talkbackIn c = [] then ''talkback_in'' else tc_talkbackIn c)
      (tc_talkbackStream c) (tc_iceServers c) (tc_native c) = (r1, nt)" by fastforce
  show ?thesis
    using newTalkbackSender_handles [OF new h(1)] h(2) assms(2,3) unfolding create_talkback_def Let_def new
    by (cases r1) (auto simp: tc_inv_def tc_pcs_def)
qed

lemma ensure_inv:
  assumes "tc_inv c"
  shows "\<exists>r c'. ensureTalkback x c = Some (r, c') \<and> tc_inv c' \<and>
    (case r of Inl _ \<Rightarrow> tc_tb c' = None
     | Inr s \<Rightarrow> tc_tb c' = Some s \<and> (tc_tb c = Some s \<and> sender_state x s \<notin> {PcFailed, PcDisconnected, PcClosed} \<or> sn_tb s = hooked x))"
proof (cases "\<exists>s. tc_tb c = Some s \<and> sender_state x s \<notin> {PcFailed, PcDisconnected, PcClosed}")
  case True
  then show ?thesis using assms by (auto simp: ensureTalkback_def)
next
  case False
  have "\<exists>c1. ensureTalkback x c = Some (create_talkback x c1) \<and> tc_inv c1 \<and> tc_tb c1 = None"
  proof (cases "tc_tb c")
    case None
    then show ?thesis using assms by (intro exI [of _ c]) (simp add: ensureTalkback_def)
  next
    case (Some s)
    obtain c1 where "tb_close s (c\<lparr>tc_tbCancel := False\<rparr>) = Some c1" "tc_inv (c1\<lparr>tc_tb := None\<rparr>)"
      using tb_close_inv(1) [OF assms Some] by blast
    then show ?thesis using Some False by (intro exI [of _ "c1\<lparr>tc_tb := None\<rparr>"]) (simp add: ensureTalkback_def)
  qed
  then obtain c1 where c1: "ensureTalkback x c = Some (create_talkback x c1)" "tc_inv c1" "tc_tb c1 = None" by blast
  obtain r c' where create: "create_talkback x c1 = (r, c')" by fastforce
  show ?thesis using create_inv [OF c1(2,3) create] unfolding c1(1) create by (cases r) auto
qed

lemma tc_step_inv: "tc_inv c \<Longrightarrow> tc_step c c' \<Longrightarrow> tc_inv c'"
proof (erule tc_step.cases, goal_cases)
  case (1 x c0 r c1)
  then show ?case using ensure_inv [of c x] by auto
next
  case (2 c0 c1)
  then show ?case using tb_close_inv(2) [of c]
    by (cases "tc_tb c") (auto simp: client_close_talkback_def tc_inv_def tc_pcs_def)
qed (auto simp: tc_inv_def tc_pcs_def)

interpretation talk_machine: machine "\<lambda>c. \<exists>base stream inS servers. c = tc_new base stream inS servers" tc_step tc_inv
proof unfold_locales
  show "tc_inv c" if "\<exists>base stream inS servers. c = tc_new base stream inS servers" for c
    using that by (auto simp: tc_inv_def tc_pcs_def tc_new_def)
qed (rule tc_step_inv)

text \<open>C14: The client has at most one talkback connection. In every reachable state the connections that are open
  are exactly that of the cached sender, with its pacing goroutine started, and none was ever closed twice;
  whatever step of the set-up fails, \<open>ensureTalkback\<close> returns and leaves nothing open and nothing cached; a
  sender it gives is the cached one, not found lost or closed, or a new one; and closing the client always returns
  and leaves no connection and no goroutine.\<close>

theorem talkback_one_connection:
  assumes "reach (\<lambda>c. \<exists>base stream inS servers. c = tc_new base stream inS servers) tc_step c"
  shows "nt_ok (tc_native c) \<and> nt_live (tc_native c) = (case tc_tb c of None \<Rightarrow> {} | Some s \<Rightarrow> {sn_pc s}) \<and>
    (\<exists>r c'. ensureTalkback x c = Some (r, c') \<and>
       (case r of Inl _ \<Rightarrow> tc_tb c' = None \<and> nt_live (tc_native c') = {} \<and> tc_running c' = {}
        | Inr s \<Rightarrow> tc_tb c' = Some s \<and> nt_live (tc_native c') = {sn_pc s} \<and>
            (tc_tb c = Some s \<and> sender_state x s \<notin> {PcFailed, PcDisconnected, PcClosed} \<or> sn_tb s = hooked x))) \<and>
    (\<exists>c'. client_close_talkback c = Some c' \<and> nt_live (tc_native c') = {} \<and> tc_running c' = {})"
proof -
  have inv: "tc_inv c" using talk_machine.reach_inv [OF assms] .
  have live: "nt_ok (tc_native c) \<and> nt_live (tc_native c) = (case tc_tb c of None \<Rightarrow> {} | Some s \<Rightarrow> {sn_pc s}) \<and>
      tc_running c \<subseteq> (case tc_tb c of None \<Rightarrow> {} | Some s \<Rightarrow> {sn_pc s})" if "tc_inv c" for c
    using that by (auto simp: tc_inv_def tc_pcs_def nt_holds_def split: option.splits)
  obtain r c' where "ensureTalkback x c = Some (r, c')" "tc_inv c'"
    "case r of Inl _ \<Rightarrow> tc_tb c' = None
     | Inr s \<Rightarrow> tc_tb c' = Some s \<and> (tc_tb c = Some s \<and> sender_state x s \<notin> {PcFailed, PcDisconnected, PcClosed} \<or> sn_tb s = hooked x)"
    using ensure_inv [OF inv, of x] by blast
  then have "\<exists>r c'. ensureTalkback x c = Some (r, c') \<and>
       (case r of Inl _ \<Rightarrow> tc_tb c' = None \<and> nt_live (tc_native c') = {} \<and> tc_running c' = {}
        | Inr s \<Rightarrow> tc_tb c' = Some s \<and> nt_live (tc_native c') = {sn_pc s} \<and>
            (tc_tb c = Some s \<and> sender_state x s \<notin> {PcFailed, PcDisconnected, PcClosed} \<or> sn_tb s = hooked x))"
    using live [of c'] by (cases r) auto
  moreover have "\<exists>c'. client_close_talkback c = Some c' \<and> tc_inv c' \<and> tc_tb c' = None"
  proof (cases "tc_tb c")
    case None
    then show ?thesis using inv by (simp add: client_close_talkback_def tc_inv_def tc_pcs_def)
  next
    case (Some s)
    obtain c' where c': "tb_close s (c\<lparr>tc_tb := None\<rparr>) = Some c'" "tc_inv c'"
      using tb_close_inv(2) [OF inv Some] by blast
    moreover from c'(1) have "tc_tb c' = None" by (auto simp: tb_close_def split: if_splits)
    ultimately show ?thesis using Some by (simp add: client_close_talkback_def)
  qed
  then have "\<exists>c'. client_close_talkback c = Some c' \<and> nt_live (tc_native c') = {} \<and> tc_running c' = {}"
    using live by fastforce
  ultimately show ?thesis using live [OF inv] by blast
qed

definition sample_link :: tb_external where
  "sample_link = \<lparr>tx_parse = sample_base, tx_String = ur_Path, tx_RegisterDefaultCodecs = None, tx_NewPeerConnection = \<lambda>_. None,
     tx_NewTrack = None, tx_AddTransceiver = None, tx_NewEncoder = None, tx_SetBitrate = None, tx_EncodeSilence = Inr [0],
     tx_CreateOffer = None, tx_SetLocalDescription = None, tx_gathered = True, tx_LocalSDP = [], tx_NewRequest = \<lambda>_. None,
     tx_Do = \<lambda>_ _. Inr \<lparr>hr_Status = [], hr_StatusCode = 200, hr_Body = Inr []\<rparr>, tx_SetRemoteDescription = \<lambda>_. None,
     tx_connected = True, tx_lost = None, tx_ConnectionState = \<lambda>_. PcConnected\<rparr>"

theorem talkback_one_connection_witness:
  "\<exists>r c'. ensureTalkback sample_link (tc_new ''h'' ''d'' [] None) = Some (r, c') \<and>
     (case r of Inl _ \<Rightarrow> tc_tb c' = None | Inr s \<Rightarrow> nt_live (tc_native c') = {sn_pc s})"
proof -
  have "reach (\<lambda>c. \<exists>base stream inS servers. c = tc_new base stream inS servers) tc_step (tc_new ''h'' ''d'' [] None)"
    by (rule reach_init) (intro exI, rule refl)
  from talkback_one_connection [OF this, of sample_link] obtain r c' where
    "ensureTalkback sample_link (tc_new ''h'' ''d'' [] None) = Some (r, c')"
    "case r of Inl _ \<Rightarrow> tc_tb c' = None \<and> nt_live (tc_native c') = {} \<and> tc_running c' = {}
     | Inr s \<Rightarrow> tc_tb c' = Some s \<and> nt_live (tc_native c') = {sn_pc s} \<and>
         (tc_tb (tc_new ''h'' ''d'' [] None) = Some s \<and> sender_state sample_link s \<notin> {PcFailed, PcDisconnected, PcClosed} \<or>
          sn_tb s = hooked sample_link)" by blast
  then show ?thesis by (intro exI [of _ r] exI [of _ c']) (simp split: sum.splits)
qed

end
