(* ===== verification/Webrtc_Play.thy ===== *)
theory Webrtc_Play
  imports Talkback_Link
begin

text \<open>
  Playing over the peer connection itself (\<open>PlayStream\<close>, \<open>playSession\<close> and the pre-roll of
  internal/webrtc/client.go): the codec is PCMU or Opus, every chunk is resampled to its rate by itself, cut
  into frames of 10 ms with what the chunk before left, and each frame is written to the local track at a tick.
\<close>

text \<open>
  The encoder and the track are parameters: \<open>ro_encode\<close> is the packet of a frame after the frames encoded
  before it in this playback, \<open>ro_send\<close> the answer of \<open>send\<close> (the context's error, or that of
  \<open>WriteSample\<close>) for a payload after those written.
\<close>

record rtc_out =
  ro_codec :: string
  ro_encode :: "i16 list list \<Rightarrow> i16 list \<Rightarrow> byte list result"
  ro_send :: "byte list list \<Rightarrow> byte list \<Rightarrow> go_error option"

record play_session =
  pl_opusIn :: "i16 list"
  pl_pcmuBuf :: "byte list"
  pl_encoded :: "i16 list list"
  pl_written :: "byte list list"

abbreviation is_pcmu :: "rtc_out \<Rightarrow> bool" where
  "is_pcmu out \<equiv> ro_codec out = ''pcmu''"

definition newPlaySession :: play_session where
  "newPlaySession = \<lparr>pl_opusIn = [], pl_pcmuBuf = [], pl_encoded = [], pl_written = []\<rparr>"

definition rtc_send :: "rtc_out \<Rightarrow> byte list \<Rightarrow> play_session \<Rightarrow> go_error option \<times> play_session" where
  "rtc_send out payload s =
     (case ro_send out (pl_written s) payload of
        Some err \<Rightarrow> (Some err, s)
      | None \<Rightarrow> (None, s\<lparr>pl_written := pl_written s @ [payload]\<rparr>))"

definition encodeOpus :: "rtc_out \<Rightarrow> i16 list \<Rightarrow> play_session \<Rightarrow> byte list result \<times> play_session" where
  "encodeOpus out frame s =
     (case ro_encode out (pl_encoded s) frame of
        Inl err \<Rightarrow> (Inl (Wrap ''opus encode: '' err), s)
      | Inr packet \<Rightarrow> (Inr packet, s\<lparr>pl_encoded := pl_encoded s @ [frame]\<rparr>))"

text \<open>The two loops of \<open>push\<close> over the complete frames.\<close>

fun send_pcmu :: "rtc_out \<Rightarrow> byte list list \<Rightarrow> play_session \<Rightarrow> go_error option \<times> play_session" where
  "send_pcmu out [] s = (None, s)"
| "send_pcmu out (f # fs) s =
     (case rtc_send out f s of
        (Some err, s1) \<Rightarrow> (Some err, s1)
      | (None, s1) \<Rightarrow> send_pcmu out fs (s1\<lparr>pl_pcmuBuf := drop pcmuFrameBytes (pl_pcmuBuf s1)\<rparr>))"

fun send_opus :: "rtc_out \<Rightarrow> i16 list list \<Rightarrow> play_session \<Rightarrow> go_error option \<times> play_session" where
  "send_opus out [] s = (None, s)"
| "send_opus out (f # fs) s =
     (case encodeOpus out f s of
        (Inl err, s1) \<Rightarrow> (Some err, s1)
      | (Inr payload, s1) \<Rightarrow>
          (case rtc_send out payload s1 of
             (Some err, s2) \<Rightarrow> (Some err, s2)
           | (None, s2) \<Rightarrow> send_opus out fs (s2\<lparr>pl_opusIn := drop opusFrameSize (pl_opusIn s2)\<rparr>)))"

text \<open>\<open>None\<close> is a panic: the division by a sample rate of zero.\<close>

definition ws_push :: "rtc_out \<Rightarrow> int \<Rightarrow> play_session pusher" where
  "ws_push out srcRate i pcm s =
     (if is_pcmu out
      then (case EncodePCM16ToMuLaw pcm srcRate of
              None \<Rightarrow> None
            | Some bs \<Rightarrow>
                let buf = pl_pcmuBuf s @ bs in
                Some (send_pcmu out (fst (frames_of pcmuFrameBytes buf)) (s\<lparr>pl_pcmuBuf := buf\<rparr>)))
      else (case ResampleInt16 pcm srcRate opusRate of
              None \<Rightarrow> None
            | Some xs \<Rightarrow>
                let buf = pl_opusIn s @ xs in
                Some (send_opus out (fst (frames_of opusFrameSize buf)) (s\<lparr>pl_opusIn := buf\<rparr>))))"

definition ws_flush :: "rtc_out \<Rightarrow> play_session \<Rightarrow> go_error option \<times> play_session" where
  "ws_flush out s =
     (if is_pcmu out
      then (if pl_pcmuBuf s = [] then (None, s)
            else let frame = pl_pcmuBuf s @ replicate (pcmuFrameBytes - length (pl_pcmuBuf s)) 0xFF in
              rtc_send out frame (s\<lparr>pl_pcmuBuf := []\<rparr>))
      else if pl_opusIn s = [] then (None, s)
      else let frame = pl_opusIn s @ replicate (opusFrameSize - length (pl_opusIn s)) 0 in
        (case encodeOpus out frame (s\<lparr>pl_opusIn := []\<rparr>) of
           (Inl err, s1) \<Rightarrow> (Some err, s1)
         | (Inr payload, s1) \<Rightarrow> rtc_send out payload s1))"

text \<open>One frame of digital silence; \<open>None\<close> when the encoder fails.\<close>

definition silenceFrame :: "rtc_out \<Rightarrow> byte list option" where
  "silenceFrame out =
     (if is_pcmu out then Some (replicate pcmuFrameBytes 0xFF)
      else case ro_encode out [] (replicate opusFrameSize 0) of Inl _ \<Rightarrow> None | Inr packet \<Rightarrow> Some packet)"

text \<open>
  The wait for the connection and the pre-roll. \<open>rw_connected\<close> says that the connection came before the end of
  the context, \<open>rw_ticks\<close> how many ticks of the pre-roll came before it, \<open>rw_after\<close> what \<open>ctx.Err()\<close> answers at
  the end. The result is the error, the frames handed to the track and the used-up \<open>warmupOnce\<close>.
\<close>

record rtc_wait =
  rw_ctx :: go_error
  rw_connected :: bool
  rw_ticks :: nat
  rw_after :: ctx_err

definition waitConnectedAndPreroll :: "rtc_out \<Rightarrow> rtc_wait \<Rightarrow> bool \<Rightarrow> go_error option \<times> byte list list \<times> bool" where
  "waitConnectedAndPreroll out w warm =
     (if \<not> rw_connected w then (Some (rw_ctx w), [], warm)
      else (rw_after w,
            (if warm then [] else case silenceFrame out of None \<Rightarrow> [] | Some silence \<Rightarrow> replicate (min 75 (rw_ticks w)) silence),
            True))"

definition rtc_PlayStream ::
    "'s reader \<Rightarrow> ('s \<Rightarrow> int) \<Rightarrow> (nat \<Rightarrow> ctx_err) \<Rightarrow> rtc_out \<Rightarrow> rtc_wait \<Rightarrow> bool \<Rightarrow> 's
      \<Rightarrow> (go_error option \<times> 's \<times> byte list list \<times> play_session \<times> bool) option" where
  "rtc_PlayStream read rate ctx out w warm src =
     (case waitConnectedAndPreroll out w warm of
        (Some err, preroll, warm') \<Rightarrow> Some (Some err, src, preroll, newPlaySession, warm')
      | (None, preroll, warm') \<Rightarrow>
          (case play_loop read ctx (ws_push out (rate src)) 0 src newPlaySession of
             None \<Rightarrow> None
           | Some (Some err, src', s) \<Rightarrow> Some (Some err, src', preroll, s, warm')
           | Some (None, src', s) \<Rightarrow>
               (case ws_flush out s of (e, s') \<Rightarrow> Some (e, src', preroll, s', warm'))))"

subsection \<open>What reaches the track\<close>

lemma send_pcmu_done:
  "send_pcmu out fs s = (None, s') \<Longrightarrow>
     pl_written s' = pl_written s @ fs \<and> pl_pcmuBuf s' = drop (pcmuFrameBytes * length fs) (pl_pcmuBuf s)"
proof (induction fs arbitrary: s)
  case (Cons f fs)
  then have "ro_send out (pl_written s) f = None" by (auto simp: rtc_send_def split: option.splits)
  with Cons show ?case by (force simp: rtc_send_def add.commute)
qed simp

lemma send_opus_done:
  "send_opus out fs s = (None, s') \<Longrightarrow>
     pl_encoded s' = pl_encoded s @ fs \<and> pl_opusIn s' = drop (opusFrameSize * length fs) (pl_opusIn s) \<and>
     (encoded_by (ro_encode out) (pl_encoded s) (pl_written s) \<longrightarrow> encoded_by (ro_encode out) (pl_encoded s') (pl_written s'))"
proof (induction fs arbitrary: s)
  case (Cons f fs)
  then obtain packet where "ro_encode out (pl_encoded s) f = Inr packet" "ro_send out (pl_written s) packet = None"
    by (auto simp: rtc_send_def encodeOpus_def split: option.splits sum.splits)
  with Cons show ?case using encoded_by_snoc [of "ro_encode out" "pl_encoded s" "pl_written s" f packet]
    by (force simp: rtc_send_def encodeOpus_def add.commute)
qed simp

text \<open>What a chunk becomes at the codec's rate.\<close>

definition chunk_bytes :: "int \<Rightarrow> i16 list \<Rightarrow> byte list" where
  "chunk_bytes rate c = the (EncodePCM16ToMuLaw c rate)"

definition chunk_samples :: "int \<Rightarrow> i16 list \<Rightarrow> i16 list" where
  "chunk_samples rate c = the (ResampleInt16 c rate opusRate)"

lemma chunks_resampled:
  "0 < rate \<Longrightarrow> EncodePCM16ToMuLaw c rate = Some (chunk_bytes rate c)"
  "0 < rate \<Longrightarrow> ResampleInt16 c rate opusRate = Some (chunk_samples rate c)"
  using ResampleInt16_length [of rate 8000 c] ResampleInt16_length [of rate opusRate c]
  by (auto simp: chunk_bytes_def chunk_samples_def EncodePCM16ToMuLaw_def)

text \<open>
  A player that cuts what it has with what a chunk becomes, emits the frames and keeps the rest: after all the
  chunks, what it emitted with what a flush would add is the padded frames of everything.
\<close>

lemma push_all_frames:
  assumes "0 < n"
    and step: "\<And>i c p p'. push i c p = Some (None, p') \<Longrightarrow>
      emitted p' = emitted p @ fst (frames_of n (buf p @ f c)) \<and> buf p' = snd (frames_of n (buf p @ f c))"
    and "push_all push i cs p = Some p'"
  shows "emitted p' @ padded n z (buf p') = emitted p @ padded n z (buf p @ concat (map f cs))"
  using assms(3)
proof (induction cs arbitrary: i p)
  case (Cons c cs)
  then obtain q where q: "push i c p = Some (None, q)" "push_all push (Suc i) cs q = Some p'"
    by (auto split: option.splits prod.splits)
  have "padded n z ((buf p @ f c) @ concat (map f cs)) = fst (frames_of n (buf p @ f c)) @ padded n z (buf q @ concat (map f cs))"
    by (rule padded_append [OF assms(1)]) (use step [OF q(1)] in simp)
  then show ?case using Cons.IH [OF q(2)] step [OF q(1)] by simp
qed simp

lemma push_pcmu_step:
  assumes "0 < rate" and "is_pcmu out" and "ws_push out rate i c s = Some (None, s')"
  shows "pl_written s' = pl_written s @ fst (frames_of pcmuFrameBytes (pl_pcmuBuf s @ chunk_bytes rate c)) \<and>
    pl_pcmuBuf s' = snd (frames_of pcmuFrameBytes (pl_pcmuBuf s @ chunk_bytes rate c))"
  using assms(2,3) snd_frames [of pcmuFrameBytes "pl_pcmuBuf s @ chunk_bytes rate c"]
  by (auto simp: ws_push_def Let_def chunks_resampled [OF assms(1)] dest!: send_pcmu_done)

lemma push_opus_step:
  assumes "0 < rate" and "\<not> is_pcmu out" and "ws_push out rate i c s = Some (None, s')"
  shows "pl_encoded s' = pl_encoded s @ fst (frames_of opusFrameSize (pl_opusIn s @ chunk_samples rate c)) \<and>
    pl_opusIn s' = snd (frames_of opusFrameSize (pl_opusIn s @ chunk_samples rate c)) \<and>
    (encoded_by (ro_encode out) (pl_encoded s) (pl_written s) \<longrightarrow> encoded_by (ro_encode out) (pl_encoded s') (pl_written s'))"
  using assms(2,3) snd_frames [of opusFrameSize "pl_opusIn s @ chunk_samples rate c"]
  by (auto simp: ws_push_def Let_def chunks_resampled [OF assms(1)] dest!: send_opus_done)

lemma push_ok: "0 < rate \<Longrightarrow> \<exists>e s'. ws_push out rate i c s = Some (e, s')"
  by (cases "is_pcmu out") (simp_all add: ws_push_def chunks_resampled Let_def)

text \<open>Between two chunks less than a frame is kept, so a flush sends at most one.\<close>

definition ws_ok :: "play_session \<Rightarrow> bool" where
  "ws_ok s \<longleftrightarrow> length (pl_pcmuBuf s) < pcmuFrameBytes \<and> length (pl_opusIn s) < opusFrameSize"

lemma padded_short: "length xs < n \<Longrightarrow> padded n z xs = (if xs = [] then [] else [xs @ replicate (n - length xs) z])"
  by (simp add: padded_def frames_stop)

lemma flush_pcmu:
  "is_pcmu out \<Longrightarrow> length (pl_pcmuBuf s) < pcmuFrameBytes \<Longrightarrow> ws_flush out s = (None, s') \<Longrightarrow>
     pl_written s' = pl_written s @ padded pcmuFrameBytes 0xFF (pl_pcmuBuf s)"
  by (auto simp: ws_flush_def Let_def rtc_send_def padded_short split: if_splits option.splits)

lemma flush_opus:
  "\<not> is_pcmu out \<Longrightarrow> length (pl_opusIn s) < opusFrameSize \<Longrightarrow> ws_flush out s = (None, s') \<Longrightarrow>
     pl_encoded s' = pl_encoded s @ padded opusFrameSize 0 (pl_opusIn s) \<and>
     (encoded_by (ro_encode out) (pl_encoded s) (pl_written s) \<longrightarrow> encoded_by (ro_encode out) (pl_encoded s') (pl_written s'))"
  by (auto simp: ws_flush_def Let_def rtc_send_def encodeOpus_def padded_short encoded_by_snoc split: if_splits option.splits sum.splits)

text \<open>After the last chunk less than a frame is kept.\<close>

lemma push_all_pcmu_short:
  assumes "0 < rate" "is_pcmu out" "push_all (ws_push out rate) i cs s = Some s'" "length (pl_pcmuBuf s) < pcmuFrameBytes"
  shows "length (pl_pcmuBuf s') < pcmuFrameBytes"
  using assms(3,4)
proof (induction cs arbitrary: i s)
  case (Cons c cs)
  then obtain q where q: "ws_push out rate i c s = Some (None, q)" "push_all (ws_push out rate) (Suc i) cs q = Some s'"
    by (auto split: option.splits prod.splits)
  have "length (pl_pcmuBuf q) < pcmuFrameBytes"
    using push_pcmu_step [OF assms(1,2) q(1)] frames_spec [of pcmuFrameBytes "pl_pcmuBuf s @ chunk_bytes rate c"] by simp
  then show ?case using Cons.IH [OF q(2)] by simp
qed simp

lemma push_all_opus_short:
  assumes "0 < rate" "\<not> is_pcmu out" "push_all (ws_push out rate) i cs s = Some s'"
    "length (pl_opusIn s) < opusFrameSize" "encoded_by (ro_encode out) (pl_encoded s) (pl_written s)"
  shows "length (pl_opusIn s') < opusFrameSize \<and> encoded_by (ro_encode out) (pl_encoded s') (pl_written s')"
  using assms(3-)
proof (induction cs arbitrary: i s)
  case (Cons c cs)
  then obtain q where q: "ws_push out rate i c s = Some (None, q)" "push_all (ws_push out rate) (Suc i) cs q = Some s'"
    by (auto split: option.splits prod.splits)
  have "length (pl_opusIn q) < opusFrameSize" "encoded_by (ro_encode out) (pl_encoded q) (pl_written q)"
    using push_opus_step [OF assms(1,2) q(1)] frames_spec [of opusFrameSize "pl_opusIn s @ chunk_samples rate c"] Cons.prems(3)
    by auto
  then show ?case using Cons.IH [OF q(2)] by simp
qed simp

lemma play_frames:
  assumes "0 < rate" and "push_all (ws_push out rate) i cs newPlaySession = Some s" and "ws_flush out s = (None, s')"
  shows "if is_pcmu out then pl_written s' = padded pcmuFrameBytes 0xFF (concat (map (chunk_bytes rate) cs))
    else pl_encoded s' = padded opusFrameSize 0 (concat (map (chunk_samples rate) cs)) \<and>
      encoded_by (ro_encode out) (pl_encoded s') (pl_written s')"
proof (cases "is_pcmu out")
  case True
  have "length (pl_pcmuBuf s) < pcmuFrameBytes"
    by (rule push_all_pcmu_short [OF assms(1) True assms(2)]) (simp add: newPlaySession_def)
  moreover have "pl_written s @ padded pcmuFrameBytes 0xFF (pl_pcmuBuf s) =
      pl_written newPlaySession @ padded pcmuFrameBytes 0xFF (pl_pcmuBuf newPlaySession @ concat (map (chunk_bytes rate) cs))"
    by (rule push_all_frames [OF _ push_pcmu_step [OF assms(1) True] assms(2)]) simp_all
  ultimately show ?thesis using flush_pcmu [OF True _ assms(3)] True by (simp add: newPlaySession_def)
next
  case False
  have short: "length (pl_opusIn s) < opusFrameSize \<and> encoded_by (ro_encode out) (pl_encoded s) (pl_written s)"
    by (rule push_all_opus_short [OF assms(1) False assms(2)]) (simp_all add: newPlaySession_def encoded_by_def)
  have "pl_encoded s @ padded opusFrameSize 0 (pl_opusIn s) =
      pl_encoded newPlaySession @ padded opusFrameSize 0 (pl_opusIn newPlaySession @ concat (map (chunk_samples rate) cs))"
    by (rule push_all_frames [OF _ _ assms(2)]) (use push_opus_step [OF assms(1) False] in simp_all)
  then show ?thesis using flush_opus [OF False _ assms(3)] short False by (auto simp: newPlaySession_def)
qed

text \<open>At the codec's own rate a chunk becomes its samples, whatever the chunks are.\<close>

lemma own_rate:
  "concat (map (chunk_bytes 8000) cs) = map EncodeMuLaw (concat cs)" "concat (map (chunk_samples 48000) cs) = concat cs"
  by (induction cs) (simp_all add: chunk_bytes_def chunk_samples_def EncodePCM16ToMuLaw_def)

text \<open>C30: Playing a source with a positive sample rate over the peer connection always ends. Without an error the
  track was given exactly the audio of the source, in full frames of 10 ms and in order: the chunks that reading the source
  gives, each at the codec's rate, nothing padded between two chunks, only the last frame filled up with the codec's
  silence; the packets written are these frames in mu-law, or what the Opus encoder gives for each of them after the ones
  before it; at the codec's own rate the frames are the source sample by sample. The pre-roll comes before it, at most
  75 frames of silence, and never twice; and with a source rate of zero the resampler panics instead.\<close>

theorem rtc_play_complete:
  assumes "pcm_source read rest ok" and "ok src" and "\<forall>i. ctx i \<noteq> Some Io_EOF" and "0 < rate src"
  shows "\<exists>e src' preroll s warm'. rtc_PlayStream read rate ctx out w warm src = Some (e, src', preroll, s, warm') \<and>
    length preroll \<le> 75 \<and> (warm \<longrightarrow> preroll = [] \<and> warm') \<and> (preroll \<noteq> [] \<longrightarrow> warm') \<and>
    (e = None \<longrightarrow> (\<exists>cs. source_reads read src = Some cs \<and> concat cs = rest src \<and> [] \<notin> set cs \<and>
       (if is_pcmu out then pl_written s = padded pcmuFrameBytes 0xFF (concat (map (chunk_bytes (rate src)) cs))
        else pl_encoded s = padded opusFrameSize 0 (concat (map (chunk_samples (rate src)) cs)) \<and>
          length (pl_written s) = length (pl_encoded s) \<and>
          (\<forall>k < length (pl_encoded s). ro_encode out (take k (pl_encoded s)) (pl_encoded s ! k) = Inr (pl_written s ! k))))) \<and>
    (e = None \<and> is_pcmu out \<and> rate src = 8000 \<longrightarrow> pl_written s = padded pcmuFrameBytes 0xFF (map EncodeMuLaw (rest src))) \<and>
    (e = None \<and> \<not> is_pcmu out \<and> rate src = 48000 \<longrightarrow> pl_encoded s = padded opusFrameSize 0 (rest src)) \<and>
    ws_push out 0 i [1] newPlaySession = None"
proof -
  obtain e0 preroll warm' where wait: "waitConnectedAndPreroll out w warm = (e0, preroll, warm')" by (metis surj_pair)
  have roll: "length preroll \<le> 75" "warm \<longrightarrow> preroll = [] \<and> warm'" "preroll \<noteq> [] \<longrightarrow> warm'"
    using wait by (auto simp: waitConnectedAndPreroll_def split: if_splits option.splits)
  have zero: "ws_push out 0 i [1] newPlaySession = None"
    by (simp add: ws_push_def EncodePCM16ToMuLaw_def ResampleInt16_def resample_len_def)
  show ?thesis
  proof (cases e0)
    case (Some err)
    then show ?thesis using wait roll zero by (simp add: rtc_PlayStream_def)
  next
    case None
    have step: "\<exists>e q'. ws_push out (rate src) j c q = Some (e, q') \<and> True" for j c q
      using push_ok [OF assms(4)] by simp
    obtain e s' p cs where run: "play_loop read ctx (ws_push out (rate src)) 0 src newPlaySession = Some (e, s', p)"
        "[] \<notin> set cs" "e = None \<longrightarrow> source_reads read src = Some cs \<and> concat cs = rest src \<and> push_all (ws_push out (rate src)) 0 cs newPlaySession = Some p"
      using pcm_source.play_loop_ends [OF assms(1-3), where Q = "\<lambda>_. True" and push = "ws_push out (rate src)"
          and p = newPlaySession and i = 0, OF step TrueI] by blast
    obtain f q where flush: "ws_flush out p = (f, q)" by fastforce
    show ?thesis
    proof (cases e)
      case (Some err)
      then show ?thesis using wait roll zero None run(1) by (simp add: rtc_PlayStream_def)
    next
      case e: None
      have play: "rtc_PlayStream read rate ctx out w warm src = Some (f, s', preroll, q, warm')"
        using wait None run(1) flush e by (simp add: rtc_PlayStream_def)
      show ?thesis
      proof (cases f)
        case None
        have cs: "source_reads read src = Some cs" "concat cs = rest src" "push_all (ws_push out (rate src)) 0 cs newPlaySession = Some p"
          using run(3) e by simp_all
        note frames = play_frames [OF assms(4) cs(3) flush [unfolded None]]
        have own: "is_pcmu out \<and> rate src = 8000 \<longrightarrow> pl_written q = padded pcmuFrameBytes 0xFF (map EncodeMuLaw (rest src))"
          "\<not> is_pcmu out \<and> rate src = 48000 \<longrightarrow> pl_encoded q = padded opusFrameSize 0 (rest src)"
          using frames own_rate [of cs] cs(2) by auto
        have "\<exists>cs. source_reads read src = Some cs \<and> concat cs = rest src \<and> [] \<notin> set cs \<and>
          (if is_pcmu out then pl_written q = padded pcmuFrameBytes 0xFF (concat (map (chunk_bytes (rate src)) cs))
           else pl_encoded q = padded opusFrameSize 0 (concat (map (chunk_samples (rate src)) cs)) \<and>
             length (pl_written q) = length (pl_encoded q) \<and>
             (\<forall>k < length (pl_encoded q). ro_encode out (take k (pl_encoded q)) (pl_encoded q ! k) = Inr (pl_written q ! k)))"
          using cs(1,2) run(2) frames by (intro exI [of _ cs]) (auto simp: encoded_by_def)
        then show ?thesis using play [unfolded None] roll zero own
          by (intro exI [of _ None] exI [of _ s'] exI [of _ preroll] exI [of _ q] exI [of _ warm']) simp
      next
        case (Some err)
        then show ?thesis using play roll zero
          by (intro exI [of _ f] exI [of _ s'] exI [of _ preroll] exI [of _ q] exI [of _ warm']) simp
      qed
    qed
  qed
qed

definition sample_out :: rtc_out where
  "sample_out = \<lparr>ro_codec = ''pcmu'', ro_encode = \<lambda>_ _. Inr [], ro_send = \<lambda>_ _. None\<rparr>"

theorem rtc_play_complete_witness:
  "case rtc_PlayStream slice_ReadPCM16 ss_rate (\<lambda>_. None) sample_out
      \<lparr>rw_ctx = Canceled, rw_connected = True, rw_ticks = 100, rw_after = None\<rparr> True (NewSliceSource [1] 8000) of
     None \<Rightarrow> False | Some (e, src', preroll, s, warm') \<Rightarrow> preroll = [] \<and> warm'"
proof -
  have "slice_ok (NewSliceSource [1] 8000)" "0 < ss_rate (NewSliceSource [1] 8000)"
    by (simp_all add: slice_ok_def NewSliceSource_def)
  then obtain e src' preroll s warm' where "rtc_PlayStream slice_ReadPCM16 ss_rate (\<lambda>_. None) sample_out
      \<lparr>rw_ctx = Canceled, rw_connected = True, rw_ticks = 100, rw_after = None\<rparr> True (NewSliceSource [1] 8000) =
      Some (e, src', preroll, s, warm')" "True \<longrightarrow> preroll = [] \<and> warm'"
    using rtc_play_complete [OF slice.pcm_source_axioms, of "NewSliceSource [1] 8000" "\<lambda>_. None" ss_rate sample_out
      "\<lparr>rw_ctx = Canceled, rw_connected = True, rw_ticks = 100, rw_after = None\<rparr>" True 0] by blast
  then show ?thesis by simp
qed

end
