(* ===== verification/Webrtc_Receive.thy ===== *)
theory Webrtc_Receive
  imports Jitter Pcm
begin

text \<open>
  The receive path (\<open>readRemoteTrack\<close>, \<open>deliverEpoch\<close> and \<open>ResetCapture\<close> of internal/webrtc/client.go). The
  reader of the track never waits for the models: after reading a packet it loads the capture epoch, sends the
  packet with that tag, and drops the oldest of 32 to make room. Reading, loading and sending are steps of their own,
  so a reset may fall between any two of them. A worker takes packets through the jitter window, conceals small gaps, decodes, and
  gives the samples to the callback, unless the epoch has changed meanwhile. The decoder is a parameter with a
  state of its own; the queue holds each packet with its tag, and the window and the batch keep the tag as a ghost,
  together with the epoch in which the packet was read and its number in the order of reading.
\<close>

record rtp_packet =
  rp_SequenceNumber :: u16
  rp_Timestamp :: u32
  rp_Payload :: "byte list"

record 'd rtp_decoder =
  rd_Decode :: "'d \<Rightarrow> byte list \<Rightarrow> i16 list result \<times> 'd"
  rd_DecodePLC :: "'d \<Rightarrow> nat \<Rightarrow> i16 list result \<times> 'd"
  rd_isOpus :: bool
  rd_ClockRate :: u32

text \<open>\<open>Opus\<close> by its MIME type, whatever the case.\<close>

definition mime_is_opus :: "string \<Rightarrow> bool" where
  "mime_is_opus mime = equal_fold mime ''audio/opus''"

text \<open>
  \<open>receivedPacket\<close> carries the epoch the reader loaded, \<open>rt_epoch\<close>; as ghosts, the epoch at the moment \<open>ReadRTP\<close>
  returned the packet and the number of the packet.
\<close>

record rx_tag =
  rt_epoch :: nat
  rt_read :: nat
  rt_id :: nat

type_synonym tagged = "rtp_packet \<times> rx_tag"

text \<open>
  Where the reader stands with the packet in its hand: just read; the epoch loaded for the first send; the queue
  found full; one packet taken out of it; the epoch loaded again for the second send.
\<close>

datatype rx_sending = Taken | Loaded nat | Found_full | Made_room | Reloaded nat

record rx_hand =
  rh_packet :: rtp_packet
  rh_read :: nat
  rh_id :: nat
  rh_sending :: rx_sending

text \<open>
  \<open>rx_out\<close> are the chunks the running \<open>process\<close> still has to deliver, each with the ghost tag of the packet it
  comes from; \<open>rx_log\<close> records every call of the callback with the tag and the epoch of that moment. \<open>rx_carried\<close> is
  a ghost: for an epoch, the packet that was in the reader's hand when it began.
\<close>

record 'd receiver =
  rx_captureEpoch :: nat
  rx_carried :: "(nat \<times> nat) list"
  rx_callback :: bool
  rx_ctx :: ctx_err
  rx_reading :: "rx_hand option"
  rx_packets :: "tagged list"
  rx_window :: "tagged packet_window"
  rx_epoch :: nat
  rx_timestamp :: u32
  rx_previous :: int
  rx_decoder :: 'd
  rx_batch :: "tagged list"
  rx_out :: "(rx_tag \<times> f32 list) list"
  rx_synced :: bool
  rx_log :: "(rx_tag \<times> nat \<times> f32 list) list"
  rx_stat_packets :: nat
  rx_stat_overflow :: nat
  rx_stat_lost :: nat
  rx_stat_reordered :: nat
  rx_stat_rejected :: nat
  rx_stat_decodeErrors :: nat
  rx_stat_concealed :: nat
  rx_processed :: nat
  rx_stale :: nat

definition rx_start :: "nat \<Rightarrow> 'd \<Rightarrow> 'd receiver" where
  "rx_start epoch d =
     \<lparr>rx_captureEpoch = epoch, rx_carried = [], rx_callback = True, rx_ctx = None, rx_reading = None, rx_packets = [], rx_window = jw_zero,
      rx_epoch = epoch, rx_timestamp = 0, rx_previous = 0, rx_decoder = d, rx_batch = [], rx_out = [], rx_synced = False,
      rx_log = [], rx_stat_packets = 0, rx_stat_overflow = 0, rx_stat_lost = 0, rx_stat_reordered = 0, rx_stat_rejected = 0,
      rx_stat_decodeErrors = 0, rx_stat_concealed = 0, rx_processed = 0, rx_stale = 0\<rparr>"

subsection \<open>The reader\<close>

text \<open>\<open>ReadRTP\<close> returned a packet; \<open>None\<close>: the reader is still busy with the packet before.\<close>

definition rx_arrive :: "rtp_packet \<Rightarrow> 'd receiver \<Rightarrow> 'd receiver option" where
  "rx_arrive p r =
     (if rx_reading r = None
      then Some (r\<lparr>rx_reading := Some \<lparr>rh_packet = p, rh_read = rx_captureEpoch r, rh_id = rx_stat_packets r, rh_sending = Taken\<rparr>,
                   rx_stat_packets := rx_stat_packets r + 1\<rparr>)
      else None)"

text \<open>The packet goes into the channel of 32 with the epoch that was loaded; \<open>None\<close>: the channel is full.\<close>

definition rx_enqueue :: "rx_hand \<Rightarrow> nat \<Rightarrow> 'd receiver \<Rightarrow> 'd receiver option" where
  "rx_enqueue h loaded r =
     (if length (rx_packets r) < 32
      then Some (r\<lparr>rx_packets := rx_packets r @ [(rh_packet h, \<lparr>rt_epoch = loaded, rt_read = rh_read h, rt_id = rh_id h\<rparr>)],
                   rx_reading := None\<rparr>)
      else None)"

text \<open>The inner \<open>select\<close>: the oldest packet of the queue is taken out, when there still is one.\<close>

definition rx_overflow :: "'d receiver \<Rightarrow> 'd receiver" where
  "rx_overflow r =
     (case rx_packets r of
        [] \<Rightarrow> r
      | _ # ps \<Rightarrow> r\<lparr>rx_packets := ps, rx_stat_overflow := rx_stat_overflow r + 1\<rparr>)"

text \<open>
  The next step of the reader with its packet: load, send or find the queue full, make room, load again, send; the
  second send has no \<open>default\<close>, so the reader would wait in it (\<open>None\<close>) if the queue were full.
\<close>

definition rx_send :: "'d receiver \<Rightarrow> 'd receiver option" where
  "rx_send r =
     (case rx_reading r of
        None \<Rightarrow> None
      | Some h \<Rightarrow>
          (case rh_sending h of
             Taken \<Rightarrow> Some (r\<lparr>rx_reading := Some (h\<lparr>rh_sending := Loaded (rx_captureEpoch r)\<rparr>)\<rparr>)
           | Loaded e \<Rightarrow>
               (case rx_enqueue h e r of
                  Some r' \<Rightarrow> Some r'
                | None \<Rightarrow> Some (r\<lparr>rx_reading := Some (h\<lparr>rh_sending := Found_full\<rparr>)\<rparr>))
           | Found_full \<Rightarrow> Some ((rx_overflow r)\<lparr>rx_reading := Some (h\<lparr>rh_sending := Made_room\<rparr>)\<rparr>)
           | Made_room \<Rightarrow> Some (r\<lparr>rx_reading := Some (h\<lparr>rh_sending := Reloaded (rx_captureEpoch r)\<rparr>)\<rparr>)
           | Reloaded e \<Rightarrow> rx_enqueue h e r))"

subsection \<open>The worker\<close>

text \<open>A new window; the packets still pending in the old one are gone.\<close>

definition rx_reset_window :: "'d receiver \<Rightarrow> 'd receiver" where
  "rx_reset_window r =
     r\<lparr>rx_window := jw_zero, rx_previous := 0, rx_stale := rx_stale r + length (jw_pending (rx_window r))\<rparr>"

text \<open>\<open>if current := captureEpoch.Load(); current != epoch\<close>, at the top of the loop and at a tick.\<close>

definition rx_sync_epoch :: "'d receiver \<Rightarrow> 'd receiver" where
  "rx_sync_epoch r =
     (if rx_captureEpoch r \<noteq> rx_epoch r then (rx_reset_window r)\<lparr>rx_epoch := rx_captureEpoch r\<rparr> else r)"

text \<open>\<open>update\<close>: the counts of the window go to the statistics.\<close>

definition rx_update :: "'d receiver \<Rightarrow> 'd receiver" where
  "rx_update r =
     (let w = rx_window r in
      r\<lparr>rx_stat_lost := rx_stat_lost r + jw_lost w, rx_stat_reordered := rx_stat_reordered r + jw_reordered w,
        rx_stat_rejected := rx_stat_rejected r + jw_rejected w,
        rx_window := w\<lparr>jw_lost := 0, jw_reordered := 0, jw_rejected := 0\<rparr>\<rparr>)"

text \<open>\<open>if epoch != received.epoch\<close>: the first packet of a new epoch.\<close>

definition rx_switch :: "nat \<Rightarrow> 'd receiver \<Rightarrow> 'd receiver" where
  "rx_switch tag r = (if rx_epoch r \<noteq> tag then (rx_reset_window r)\<lparr>rx_epoch := tag\<rparr> else r)"

text \<open>A packet from the queue and a tick; the released packets are the batch to process.\<close>

definition rx_receive :: "int \<Rightarrow> 'd receiver \<Rightarrow> 'd receiver option" where
  "rx_receive now r =
     (case rx_packets r of
        [] \<Rightarrow> None
      | (p, tag) # ps \<Rightarrow>
          let r1 = r\<lparr>rx_packets := ps, rx_synced := False\<rparr> in
          if rt_epoch tag \<noteq> rx_captureEpoch r1 then Some ((rx_reset_window r1)\<lparr>rx_stale := rx_stale (rx_reset_window r1) + 1\<rparr>)
          else
            let r2 = rx_switch (rt_epoch tag) r1 in
            (case jw_push (rp_SequenceNumber p) (p, tag) now (rx_window r2) of
               (batch, w) \<Rightarrow> Some (rx_update (r2\<lparr>rx_window := w, rx_batch := map snd batch\<rparr>))))"

definition rx_tick :: "int \<Rightarrow> 'd receiver \<Rightarrow> 'd receiver" where
  "rx_tick now r =
     (let r1 = rx_sync_epoch (r\<lparr>rx_synced := False\<rparr>) in
      case jw_drain now False (rx_window r1) of
        (batch, w) \<Rightarrow> rx_update (r1\<lparr>rx_window := w, rx_batch := map snd batch\<rparr>))"

text \<open>
  How many samples are missing before a packet: the timestamps are 32-bit words and wrap, the difference is
  signed. \<open>None\<close> is the panic of a division by a clock rate of zero.
\<close>

definition missing_samples :: "u32 \<Rightarrow> u32 \<Rightarrow> int \<Rightarrow> u32 \<Rightarrow> int option" where
  "missing_samples clockRate timestamp previous current =
     (if clockRate = 0 then None
      else let expected = timestamp + word_of_int previous * clockRate div 16000;
               gap = sint (current - expected)
           in Some (go_div (gap * 16000) (uint clockRate)))"

text \<open>The concealment before a packet: the samples given for the gap, and the decoder afterwards.\<close>

definition conceal :: "'d rtp_decoder \<Rightarrow> int \<Rightarrow> 'd \<Rightarrow> f32 list option \<times> 'd" where
  "conceal dec missing d =
     (if 0 < missing \<and> missing \<le> 1920 then
        if rd_isOpus dec then
          (let n = nat (missing div 40 * 40) in
           if 0 < n then (case rd_DecodePLC dec d n of (Inl _, d') \<Rightarrow> (None, d') | (Inr pcm, d') \<Rightarrow> (Some (PCM16ToFloat pcm), d'))
           else (None, d))
        else (Some (replicate (nat missing) (Fin 0)), d)
      else (None, d))"

definition decode_packet :: "'d rtp_decoder \<Rightarrow> byte list \<Rightarrow> 'd \<Rightarrow> f32 list result \<times> 'd" where
  "decode_packet dec payload d =
     (if rd_isOpus dec
      then (case rd_Decode dec d payload of (Inl err, d') \<Rightarrow> (Inl err, d') | (Inr pcm, d') \<Rightarrow> (Inr (PCM16ToFloat pcm), d'))
      else (Inr (the (ResampleFloat32 (DecodeMuLawToFloat payload) 8000 16000)), d))"

text \<open>The body of the loop of \<open>process\<close> for the first packet of the batch, up to the deliveries.\<close>

definition rx_process :: "'d rtp_decoder \<Rightarrow> 'd receiver \<Rightarrow> 'd receiver option" where
  "rx_process dec r =
     (case rx_batch r of
        [] \<Rightarrow> None
      | (p, tag) # ps \<Rightarrow>
          (case (if 0 < rx_previous r then missing_samples (rd_ClockRate dec) (rx_timestamp r) (rx_previous r) (rp_Timestamp p) else Some 0) of
             None \<Rightarrow> None
           | Some missing \<Rightarrow>
               (case conceal dec missing (rx_decoder r) of
                  (gap, d1) \<Rightarrow>
                    (let concealed = (case gap of None \<Rightarrow> [] | Some samples \<Rightarrow> [(tag, samples)]);
                         r1 = r\<lparr>rx_batch := ps, rx_processed := rx_processed r + 1,
                           rx_stat_concealed := rx_stat_concealed r +
                             (case gap of None \<Rightarrow> 0 | Some _ \<Rightarrow> if rd_isOpus dec then nat (missing div 40 * 40) else nat missing)\<rparr> in
                     (case decode_packet dec (rp_Payload p) d1 of
                        (Inl _, d2) \<Rightarrow>
                          Some (r1\<lparr>rx_decoder := d2, rx_out := concealed, rx_stat_decodeErrors := rx_stat_decodeErrors r + 1\<rparr>)
                      | (Inr samples, d2) \<Rightarrow>
                          Some (r1\<lparr>rx_decoder := d2, rx_out := concealed @ [(tag, samples)],
                                   rx_previous := int (length samples), rx_timestamp := rp_Timestamp p\<rparr>))))))"

text \<open>\<open>deliverEpoch\<close>, under the callback mutex, which \<open>ResetCapture\<close> takes as well.\<close>

definition rx_deliver :: "'d receiver \<Rightarrow> 'd receiver option" where
  "rx_deliver r =
     (case rx_out r of
        [] \<Rightarrow> None
      | (tag, samples) # rest \<Rightarrow>
          Some (r\<lparr>rx_out := rest,
                  rx_log := rx_log r @ (if rx_callback r \<and> rx_ctx r = None \<and> rx_epoch r = rx_captureEpoch r
                    then [(tag, rx_captureEpoch r, samples)] else [])\<rparr>))"

definition ResetCapture :: "'d receiver \<Rightarrow> 'd receiver" where
  "ResetCapture r =
     r\<lparr>rx_captureEpoch := rx_captureEpoch r + 1,
       rx_carried :=
         (case rx_reading r of None \<Rightarrow> rx_carried r | Some h \<Rightarrow> (rx_captureEpoch r + 1, rh_id h) # rx_carried r)\<rparr>"

definition rx_OnAudio :: "bool \<Rightarrow> 'd receiver \<Rightarrow> 'd receiver" where
  "rx_OnAudio callback r = r\<lparr>rx_callback := callback\<rparr>"

definition rx_cancel :: "'d receiver \<Rightarrow> 'd receiver" where
  "rx_cancel r = r\<lparr>rx_ctx := Some Canceled\<rparr>"

abbreviation rx_idle :: "'d receiver \<Rightarrow> bool" where
  "rx_idle r \<equiv> rx_batch r = [] \<and> rx_out r = []"

inductive rx_step :: "'d rtp_decoder \<Rightarrow> 'd receiver \<Rightarrow> 'd receiver \<Rightarrow> bool" for dec where
  rx_arrives: "rx_arrive p r = Some r' \<Longrightarrow> rx_step dec r r'"
| rx_sends: "rx_send r = Some r' \<Longrightarrow> rx_step dec r r'"
| rx_syncs: "rx_idle r \<Longrightarrow> \<not> rx_synced r \<Longrightarrow> rx_step dec r ((rx_sync_epoch r)\<lparr>rx_synced := True\<rparr>)"
| rx_receives: "rx_idle r \<Longrightarrow> rx_synced r \<Longrightarrow> rx_receive now r = Some r' \<Longrightarrow> rx_step dec r r'"
| rx_ticks: "rx_idle r \<Longrightarrow> rx_synced r \<Longrightarrow> rx_step dec r (rx_tick now r)"
| rx_processes: "rx_out r = [] \<Longrightarrow> rx_process dec r = Some r' \<Longrightarrow> rx_step dec r r'"
| rx_delivers: "rx_deliver r = Some r' \<Longrightarrow> rx_step dec r r'"
| rx_resets: "rx_step dec r (ResetCapture r)"
| rx_registers: "rx_step dec r (rx_OnAudio callback r)"
| rx_cancels: "rx_step dec r (rx_cancel r)"

subsection \<open>Invariant\<close>

text \<open>
  A tag is sound when its packet was read in the tag's epoch, or is the one that was carried into it. Everything
  between the window and the callback carries the worker's epoch and is sound; every packet that arrived is held
  somewhere, was processed, or is counted.
\<close>

definition rx_held :: "'d receiver \<Rightarrow> nat" where
  "rx_held r = (if rx_reading r = None then 0 else 1) + length (rx_packets r) + length (jw_pending (rx_window r)) + length (rx_batch r)"

definition tag_sound :: "nat \<Rightarrow> (nat \<Rightarrow> nat option) \<Rightarrow> rx_tag \<Rightarrow> bool" where
  "tag_sound now carried t \<longleftrightarrow>
     rt_read t \<le> rt_epoch t \<and> rt_epoch t \<le> now \<and> (rt_read t = rt_epoch t \<or> carried (rt_epoch t) = Some (rt_id t))"

definition tag_of :: "nat \<Rightarrow> (nat \<Rightarrow> nat option) \<Rightarrow> nat \<Rightarrow> rx_tag \<Rightarrow> bool" where
  "tag_of now carried e t \<longleftrightarrow> rt_epoch t = e \<and> tag_sound now carried t"

definition all_tagged :: "(rx_tag \<Rightarrow> bool) \<Rightarrow> tagged list \<Rightarrow> bool" where
  "all_tagged P ts \<longleftrightarrow> (\<forall>x \<in> set ts. P (snd x))"

definition all_marked :: "(rx_tag \<Rightarrow> bool) \<Rightarrow> (rx_tag \<times> 'x) list \<Rightarrow> bool" where
  "all_marked P chunks \<longleftrightarrow> (\<forall>x \<in> set chunks. P (fst x))"

text \<open>The packet in the reader's hand would be sound with any epoch it has loaded, and with the current one.\<close>

definition hand_sound :: "nat \<Rightarrow> (nat \<Rightarrow> nat option) \<Rightarrow> rx_hand \<Rightarrow> bool" where
  "hand_sound now carried h \<longleftrightarrow>
     (\<forall>e \<in> insert now (case rh_sending h of Loaded e \<Rightarrow> {e} | Reloaded e \<Rightarrow> {e} | _ \<Rightarrow> {}).
        tag_sound now carried \<lparr>rt_epoch = e, rt_read = rh_read h, rt_id = rh_id h\<rparr>)"

definition made_room :: "rx_hand option \<Rightarrow> nat \<Rightarrow> bool" where
  "made_room hand n =
     (case hand of
        None \<Rightarrow> True
      | Some h \<Rightarrow> (case rh_sending h of Made_room \<Rightarrow> n < 32 | Reloaded _ \<Rightarrow> n < 32 | _ \<Rightarrow> True))"

lemma made_room_None [simp]: "made_room None n"
  by (simp add: made_room_def)

lemma made_room_Suc: "made_room hand (Suc n) \<Longrightarrow> made_room hand n"
  by (auto simp: made_room_def split: option.splits rx_sending.splits)

definition log_current :: "(nat \<Rightarrow> nat option) \<Rightarrow> (rx_tag \<times> nat \<times> f32 list) list \<Rightarrow> bool" where
  "log_current carried calls \<longleftrightarrow>
     (\<forall>(t, now, samples) \<in> set calls.
        rt_epoch t = now \<and> rt_read t \<le> now \<and> (rt_read t = now \<or> carried now = Some (rt_id t)))"

abbreviation rx_tags_of :: "'d receiver \<Rightarrow> rx_tag \<Rightarrow> bool" where
  "rx_tags_of r \<equiv> tag_of (rx_captureEpoch r) (map_of (rx_carried r)) (rx_epoch r)"

definition rx_inv :: "'d receiver \<Rightarrow> bool" where
  "rx_inv r \<longleftrightarrow>
     all_tagged (tag_sound (rx_captureEpoch r) (map_of (rx_carried r))) (rx_packets r) \<and>
     all_tagged (rx_tags_of r) (map snd (jw_pending (rx_window r))) \<and> all_tagged (rx_tags_of r) (rx_batch r) \<and>
     all_marked (rx_tags_of r) (rx_out r) \<and>
     all_marked (tag_sound (rx_captureEpoch r) (map_of (rx_carried r))) (rx_log r) \<and> log_current (map_of (rx_carried r)) (rx_log r) \<and>
     pred_option (hand_sound (rx_captureEpoch r) (map_of (rx_carried r))) (rx_reading r) \<and>
     made_room (rx_reading r) (length (rx_packets r)) \<and>
     length (rx_packets r) \<le> 32 \<and> jw_inv (rx_window r) \<and>
     (jw_initialized (rx_window r) \<or> jw_pending (rx_window r) = []) \<and>
     jw_rejected (rx_window r) = 0 \<and>
     rx_stat_packets r = rx_held r + rx_processed r + rx_stat_overflow r + rx_stat_rejected r + rx_stale r"

lemma all_tagged_simps [simp]:
  "all_tagged P []" "all_tagged P (t # ts) \<longleftrightarrow> P (snd t) \<and> all_tagged P ts" "all_tagged P (ts @ us) \<longleftrightarrow> all_tagged P ts \<and> all_tagged P us"
  "all_marked P []" "all_marked P (c # cs) \<longleftrightarrow> P (fst c) \<and> all_marked P cs" "all_marked P (cs @ ds) \<longleftrightarrow> all_marked P cs \<and> all_marked P ds"
  by (auto simp: all_tagged_def all_marked_def)

lemma all_tagged_mono: "(\<And>t. P t \<Longrightarrow> Q t) \<Longrightarrow> all_tagged P ts \<Longrightarrow> all_tagged Q ts"
  "(\<And>t. P t \<Longrightarrow> Q t) \<Longrightarrow> all_marked P cs \<Longrightarrow> all_marked Q cs"
  by (auto simp: all_tagged_def all_marked_def)

lemma log_current_append [simp]:
  "log_current carried []" "log_current carried (xs @ ys) \<longleftrightarrow> log_current carried xs \<and> log_current carried ys"
  by (simp_all only: log_current_def set_append ball_Un set_simps ball_empty)

text \<open>A reset keeps every sound tag sound, and makes the packet in the hand the one carried over.\<close>

definition carries :: "nat \<Rightarrow> (nat \<Rightarrow> nat option) \<Rightarrow> (nat \<Rightarrow> nat option) \<Rightarrow> bool" where
  "carries now carried carried' \<longleftrightarrow> (\<forall>e \<le> now. carried' e = carried e)"

lemma tag_sound_reset: "carries now carried carried' \<Longrightarrow> tag_sound now carried t \<Longrightarrow> tag_sound (now + 1) carried' t"
  by (auto simp: tag_sound_def carries_def)

lemma tag_of_reset: "carries now carried carried' \<Longrightarrow> tag_of now carried e t \<Longrightarrow> tag_of (now + 1) carried' e t"
  using tag_sound_reset by (simp add: tag_of_def)

lemma hand_sound_reset:
  "carries now carried carried' \<Longrightarrow> hand_sound now carried h \<Longrightarrow> carried' (now + 1) = Some (rh_id h) \<Longrightarrow>
     hand_sound (now + 1) carried' h"
  by (auto simp: hand_sound_def tag_sound_def carries_def split: rx_sending.splits)

lemma log_current_reset:
  assumes "carries now carried carried'" and "log_current carried calls" and "all_marked (tag_sound now carried) calls"
  shows "log_current carried' calls"
proof -
  have "rt_epoch t \<le> now" if "(t, n, samples) \<in> set calls" for t n samples
    using assms(3) that by (auto simp: all_marked_def tag_sound_def)
  then show ?thesis using assms(1,2) unfolding log_current_def carries_def by fastforce
qed

lemma rx_reset_capture_inv:
  assumes "rx_inv r"
  shows "rx_inv (ResetCapture r)"
proof -
  define now where "now = rx_captureEpoch r + 1"
  define c where "c = map_of (rx_carried (ResetCapture r))"
  have cs: "carries (rx_captureEpoch r) (map_of (rx_carried r)) c"
    by (auto simp: carries_def c_def ResetCapture_def split: option.splits)
  have "pred_option (hand_sound now c) (rx_reading r)"
  proof (cases "rx_reading r")
    case (Some h)
    then have "c (rx_captureEpoch r + 1) = Some (rh_id h)" by (simp add: c_def ResetCapture_def)
    then show ?thesis using Some assms hand_sound_reset [OF cs] by (auto simp: rx_inv_def now_def)
  qed simp
  moreover have "log_current c (rx_log r)" using assms log_current_reset [OF cs] by (auto simp: rx_inv_def)
  moreover have "all_tagged (tag_sound now c) (rx_packets r)" "all_marked (tag_sound now c) (rx_log r)"
    using assms all_tagged_mono [OF tag_sound_reset [OF cs]] by (auto simp: rx_inv_def now_def)
  moreover have "all_tagged (tag_of now c (rx_epoch r)) (map snd (jw_pending (rx_window r)))"
    "all_tagged (tag_of now c (rx_epoch r)) (rx_batch r)" "all_marked (tag_of now c (rx_epoch r)) (rx_out r)"
    using assms all_tagged_mono [OF tag_of_reset [OF cs]] by (auto simp: rx_inv_def now_def)
  moreover have "rx_captureEpoch (ResetCapture r) = now" by (simp add: ResetCapture_def now_def)
  ultimately show ?thesis using assms unfolding rx_inv_def c_def by (simp add: ResetCapture_def rx_held_def)
qed

text \<open>What the window keeps, and what it accounts for, at a push and at a drain.\<close>

definition window_ok :: "tagged packet_window \<Rightarrow> bool" where
  "window_ok w \<longleftrightarrow> jw_inv w \<and> (jw_initialized w \<or> jw_pending w = []) \<and> jw_rejected w = 0"

lemma window_ok_zero [simp]: "window_ok jw_zero"
  by (simp add: window_ok_def jw_inv_def jw_ok_def jw_zero_def)

lemma window_accounts:
  assumes "jw_accounts ps w out w'" and "jw_rejected w = 0"
  shows "window_ok (w'\<lparr>jw_lost := 0, jw_reordered := 0, jw_rejected := 0\<rparr>) \<and>
    length ps + length (jw_pending w) = length out + length (jw_pending w') + jw_rejected w' \<and>
    (all_tagged P (map snd ps) \<and> all_tagged P (map snd (jw_pending w)) \<longrightarrow>
       all_tagged P (map snd out) \<and> all_tagged P (map snd (jw_pending w')))"
proof -
  obtain rejected where r: "size rejected = jw_rejected w'"
      "mset ps + mset (jw_pending w) = mset out + mset (jw_pending w') + rejected"
    using assms by (auto simp: jw_accounts_def)
  have "size (mset ps + mset (jw_pending w)) = size (mset out + mset (jw_pending w') + rejected)" using r(2) by simp
  then have len: "length ps + length (jw_pending w) = length out + length (jw_pending w') + jw_rejected w'" using r(1) by simp
  have "set_mset (mset out + mset (jw_pending w')) \<subseteq> set_mset (mset ps + mset (jw_pending w))" unfolding r(2) by auto
  then have "set out \<union> set (jw_pending w') \<subseteq> set ps \<union> set (jw_pending w)" by simp
  then have "all_tagged P (map snd ps) \<and> all_tagged P (map snd (jw_pending w)) \<longrightarrow>
      all_tagged P (map snd out) \<and> all_tagged P (map snd (jw_pending w'))"
    unfolding all_tagged_def by fastforce
  moreover have "jw_inv w'" "jw_initialized w'" using assms(1) by (simp_all add: jw_accounts_def)
  ultimately show ?thesis using len by (simp add: window_ok_def jw_inv_def jw_ok_def)
qed

lemma window_push:
  assumes "window_ok w" and "jw_push s p now w = (out, w')"
  shows "window_ok (w'\<lparr>jw_lost := 0, jw_reordered := 0, jw_rejected := 0\<rparr>) \<and>
    Suc (length (jw_pending w)) = length out + length (jw_pending w') + jw_rejected w' \<and>
    (all_tagged P (map snd (jw_pending w)) \<and> P (snd p) \<longrightarrow> all_tagged P (map snd out) \<and> all_tagged P (map snd (jw_pending w')))"
proof (cases "jw_initialized w")
  case True
  then show ?thesis using window_accounts [OF jw_push_accounts [OF _ True assms(2)]] assms(1) by (simp add: window_ok_def)
next
  case False
  let ?w = "w\<lparr>jw_initialized := True, jw_next := s, jw_pending := []\<rparr>"
  have "jw_push s p now ?w = (out, w')" "jw_pending w = []" using assms False by (simp_all add: jw_push_def window_ok_def)
  moreover have "jw_inv ?w" "jw_rejected ?w = 0" using assms(1) by (simp_all add: window_ok_def jw_inv_def jw_ok_def)
  ultimately show ?thesis using window_accounts [OF jw_push_accounts [of ?w s p now out w']] by simp
qed

lemma window_drain:
  assumes "window_ok w" and "jw_drain now False w = (out, w')"
  shows "window_ok (w'\<lparr>jw_lost := 0, jw_reordered := 0, jw_rejected := 0\<rparr>) \<and>
    length (jw_pending w) = length out + length (jw_pending w') + jw_rejected w' \<and>
    (all_tagged P (map snd (jw_pending w)) \<longrightarrow> all_tagged P (map snd out) \<and> all_tagged P (map snd (jw_pending w')))"
proof (cases "jw_initialized w")
  case True
  then show ?thesis using window_accounts [OF jw_drain_accounts [OF _ True assms(2)]] assms(1) by (simp add: window_ok_def)
next
  case False
  then have "jw_pending w = []" using assms(1) by (simp add: window_ok_def)
  then show ?thesis using assms by (subst (asm) jw_drain.simps) (simp add: window_ok_def jw_inv_def jw_ok_def)
qed

lemma rx_inv_window: "rx_inv r \<Longrightarrow> window_ok (rx_window r)"
  by (simp add: rx_inv_def window_ok_def)

text \<open>A reset gives up what was pending, and counts it.\<close>

lemma rx_reset_inv: "rx_inv r \<Longrightarrow> rx_idle r \<Longrightarrow> rx_inv ((rx_reset_window r)\<lparr>rx_epoch := e\<rparr>)"
  using window_ok_zero by (auto simp: rx_inv_def rx_reset_window_def rx_held_def window_ok_def jw_zero_def)

lemma rx_sync_inv: "rx_inv r \<Longrightarrow> rx_idle r \<Longrightarrow> rx_inv (rx_sync_epoch r)"
  by (simp add: rx_sync_epoch_def rx_reset_inv)

lemma rx_sync_frame [simp]:
  "rx_batch (rx_sync_epoch r) = rx_batch r" "rx_out (rx_sync_epoch r) = rx_out r"
  "rx_packets (rx_sync_epoch r) = rx_packets r" "rx_reading (rx_sync_epoch r) = rx_reading r"
  by (simp_all add: rx_sync_epoch_def rx_reset_window_def)

lemma rx_synced_inv: "rx_inv r \<Longrightarrow> rx_inv (r\<lparr>rx_synced := b\<rparr>)"
  by (simp add: rx_inv_def rx_held_def)

lemma rx_tick_inv: "rx_inv r \<Longrightarrow> rx_idle r \<Longrightarrow> rx_inv (rx_tick now r)"
proof -
  assume inv: "rx_inv r" and idle: "rx_idle r"
  let ?r = "rx_sync_epoch (r\<lparr>rx_synced := False\<rparr>)"
  have i: "rx_inv ?r" "rx_idle ?r" using rx_sync_inv [OF rx_synced_inv [OF inv]] idle by simp_all
  obtain out w where d: "jw_drain now False (rx_window ?r) = (out, w)" by fastforce
  show ?thesis using window_drain [OF rx_inv_window [OF i(1)] d] i d
    by (auto simp: rx_tick_def rx_update_def Let_def rx_inv_def rx_held_def window_ok_def)
qed

lemma rx_receive_inv:
  assumes "rx_inv r" and "rx_idle r" and "rx_receive now r = Some r'"
  shows "rx_inv r'"
proof -
  obtain p tag ps where ps: "rx_packets r = (p, tag) # ps" using assms(3) by (cases "rx_packets r") (auto simp: rx_receive_def)
  let ?r1 = "r\<lparr>rx_packets := ps, rx_synced := False\<rparr>"
  have sound: "tag_sound (rx_captureEpoch r) (map_of (rx_carried r)) tag" using assms(1) ps by (simp add: rx_inv_def)
  show ?thesis
  proof (cases "rt_epoch tag = rx_captureEpoch r")
    case False
    then have "r' = (rx_reset_window ?r1)\<lparr>rx_stale := rx_stale (rx_reset_window ?r1) + 1\<rparr>"
      using assms(3) ps by (simp add: rx_receive_def Let_def)
    then show ?thesis using assms(1,2) ps window_ok_zero
      by (auto dest: made_room_Suc simp: rx_inv_def rx_held_def rx_reset_window_def window_ok_def jw_zero_def)
  next
    case True
    let ?r2 = "rx_switch (rt_epoch tag) ?r1"
    obtain batch w where push: "jw_push (rp_SequenceNumber p) (p, tag) now (rx_window ?r2) = (batch, w)" by fastforce
    have "rx_receive now r = Some (rx_update (?r2\<lparr>rx_window := w, rx_batch := map snd batch\<rparr>))"
      unfolding rx_receive_def Let_def ps list.case prod.case push using True by simp
    then have r': "r' = rx_update (?r2\<lparr>rx_window := w, rx_batch := map snd batch\<rparr>)" using assms(3) by simp
    have "rx_inv (?r1\<lparr>rx_packets := rx_packets r\<rparr>)" using assms(1) by (simp add: rx_inv_def rx_held_def)
    then have "rx_inv (rx_switch (rt_epoch tag) (?r1\<lparr>rx_packets := rx_packets r\<rparr>))"
      using rx_reset_inv [of "?r1\<lparr>rx_packets := rx_packets r\<rparr>" "rt_epoch tag"] assms(2) by (simp add: rx_switch_def)
    then have r2: "rx_inv (?r2\<lparr>rx_packets := (p, tag) # ps\<rparr>)"
      unfolding ps rx_switch_def rx_reset_window_def by (cases r) (simp split: if_splits)
    have frame: "rx_idle ?r2" "rx_epoch ?r2 = rt_epoch tag" "rx_packets ?r2 = ps"
      "rx_captureEpoch ?r2 = rx_captureEpoch r" "rx_carried ?r2 = rx_carried r"
      using assms(2) by (simp_all add: rx_switch_def rx_reset_window_def)
    have "window_ok (rx_window ?r2)" using rx_inv_window [OF r2] by simp
    from window_push [OF this push, of "tag_of (rx_captureEpoch r) (map_of (rx_carried r)) (rt_epoch tag)"] r2 frame sound
    show ?thesis unfolding r'
      by (auto dest: made_room_Suc simp: tag_of_def rx_update_def Let_def rx_inv_def rx_held_def window_ok_def)
  qed
qed

lemma rx_process_inv:
  assumes "rx_inv r" and "rx_out r = []" and "rx_process dec r = Some r'"
  shows "rx_inv r'"
proof -
  obtain p tag ps where ps: "rx_batch r = (p, tag) # ps" using assms(3) by (cases "rx_batch r") (auto simp: rx_process_def)
  let ?missing = "if 0 < rx_previous r then missing_samples (rd_ClockRate dec) (rx_timestamp r) (rx_previous r) (rp_Timestamp p) else Some 0"
  obtain missing where m: "?missing = Some missing"
    using assms(3) unfolding rx_process_def ps list.case prod.case by (cases ?missing) auto
  obtain gap d1 where g: "conceal dec missing (rx_decoder r) = (gap, d1)" by fastforce
  obtain res d2 where d: "decode_packet dec (rp_Payload p) d1 = (res, d2)" by fastforce
  let ?c = "case gap of None \<Rightarrow> [] | Some samples \<Rightarrow> [(tag, samples)]"
  have tag: "rx_tags_of r tag" "all_tagged (rx_tags_of r) ps" using assms(1) ps by (simp_all add: rx_inv_def)
  then have c: "all_marked (rx_tags_of r) ?c" by (simp split: option.splits)
  show ?thesis using assms(1,3) tag c unfolding rx_process_def ps list.case prod.case m option.case g Let_def d
    by (cases res; clarsimp simp: rx_inv_def rx_held_def ps)
qed

lemma rx_enqueue_inv:
  assumes "rx_inv r" and "rx_reading r = Some h" and "rx_enqueue h e r = Some r'"
    and "rh_sending h = Loaded e \<or> rh_sending h = Reloaded e"
  shows "rx_inv r'"
proof -
  have "tag_sound (rx_captureEpoch r) (map_of (rx_carried r)) \<lparr>rt_epoch = e, rt_read = rh_read h, rt_id = rh_id h\<rparr>"
    using assms(1,2,4) by (auto simp: rx_inv_def hand_sound_def)
  then show ?thesis using assms(1-3) by (auto simp: rx_inv_def rx_enqueue_def rx_held_def split: if_splits)
qed

lemma rx_send_inv:
  assumes "rx_inv r" and "rx_send r = Some r'"
  shows "rx_inv r'"
proof -
  obtain h where h: "rx_reading r = Some h" using assms(2) by (auto simp: rx_send_def split: option.splits)
  have hand: "hand_sound (rx_captureEpoch r) (map_of (rx_carried r)) h" using assms(1) h by (simp add: rx_inv_def)
  show ?thesis
  proof (cases "rh_sending h")
    case Taken
    then show ?thesis using assms h hand by (auto simp: rx_send_def rx_inv_def rx_held_def hand_sound_def made_room_def)
  next
    case (Loaded e)
    show ?thesis
    proof (cases "rx_enqueue h e r")
      case None
      then show ?thesis using Loaded assms h hand by (auto simp: rx_send_def rx_inv_def rx_held_def hand_sound_def made_room_def)
    next
      case (Some q)
      then show ?thesis using Loaded assms h rx_enqueue_inv [OF assms(1) h] by (simp add: rx_send_def)
    qed
  next
    case Found_full
    then show ?thesis using assms h hand
      by (cases "rx_packets r") (auto simp: rx_send_def rx_overflow_def rx_inv_def rx_held_def hand_sound_def made_room_def)
  next
    case Made_room
    then show ?thesis using assms h hand by (auto simp: rx_send_def rx_inv_def rx_held_def hand_sound_def made_room_def)
  next
    case (Reloaded e)
    then show ?thesis using assms(2) h rx_enqueue_inv [OF assms(1) h] by (simp add: rx_send_def)
  qed
qed

lemma rx_deliver_inv:
  assumes "rx_inv r" and "rx_deliver r = Some r'"
  shows "rx_inv r'"
proof -
  obtain t samples rest where out: "rx_out r = (t, samples) # rest" using assms(2) by (cases "rx_out r") (auto simp: rx_deliver_def)
  then have "rx_tags_of r t" using assms(1) by (simp add: rx_inv_def)
  then have "log_current (map_of (rx_carried r)) [(t, rx_captureEpoch r, samples)]" if "rx_epoch r = rx_captureEpoch r"
    using that by (auto simp: log_current_def tag_of_def tag_sound_def)
  then show ?thesis using assms out by (auto simp: rx_deliver_def rx_inv_def rx_held_def tag_of_def)
qed

lemma rx_step_inv: "rx_inv r \<Longrightarrow> rx_step dec r r' \<Longrightarrow> rx_inv r'"
proof (erule rx_step.cases, goal_cases)
  case (1 p q q')
  then show ?case
    by (auto simp: rx_arrive_def rx_inv_def rx_held_def hand_sound_def tag_sound_def made_room_def split: if_splits)
next
  case (2 q q')
  then show ?case using rx_send_inv by blast
next
  case (3 q)
  then show ?case using rx_synced_inv [OF rx_sync_inv] by simp
next
  case (4 q now q')
  then show ?case using rx_receive_inv by blast
next
  case (5 q now)
  then show ?case using rx_tick_inv by blast
next
  case (6 q q')
  then show ?case using rx_process_inv by blast
next
  case (7 q q')
  then show ?case using rx_deliver_inv by blast
next
  case (8 q)
  then show ?case using rx_reset_capture_inv by simp
qed (auto simp: rx_inv_def rx_held_def rx_OnAudio_def rx_cancel_def)

interpretation receive_machine: machine "\<lambda>r. \<exists>epoch d. r = rx_start epoch d" "rx_step dec" rx_inv for dec :: "'d rtp_decoder"
proof unfold_locales
  show "rx_inv r" if "\<exists>epoch d. r = rx_start epoch d" for r :: "'d receiver"
    using that window_ok_zero by (auto simp: rx_inv_def rx_start_def rx_held_def window_ok_def jw_zero_def)
qed (rule rx_step_inv)

text \<open>A concealment is no longer than the gap, and at most 120 ms.\<close>

lemma conceal_bound:
  assumes "conceal dec missing d = (Some samples, d')" and "\<And>d n pcm d'. rd_DecodePLC dec d n = (Inr pcm, d') \<Longrightarrow> length pcm = n"
  shows "int (length samples) \<le> missing \<and> length samples \<le> 1920"
  using assms(1) assms(2) [of d "nat (missing div 40 * 40)"]
  by (auto simp: conceal_def Let_def split: if_splits sum.splits prod.splits)


definition sample_decoder :: "unit rtp_decoder" where
  "sample_decoder = \<lparr>rd_Decode = \<lambda>d payload. (Inr [0, 0], d), rd_DecodePLC = \<lambda>d n. (Inr (replicate n 0), d), rd_isOpus = True,
     rd_ClockRate = 48000\<rparr>"

definition sample_packet :: rtp_packet where
  "sample_packet = \<lparr>rp_SequenceNumber = 7, rp_Timestamp = 100, rp_Payload = [1]\<rparr>"


end
