(* ===== verification/Webrtc_Client.thy ===== *)
theory Webrtc_Client
  imports Webrtc_Play Webrtc_Receive
begin

text \<open>
  The WebRTC client itself (internal/webrtc/client.go): the constructor and its error paths, the signaling
  connection and its read loop, the reconnection loop, and \<open>Close\<close>. pion and the WebSocket library are
  parameters; a signaling connection is a number, in the order they were dialled.
\<close>

subsection \<open>The constructor\<close>

record client_config =
  cc_ICEServers :: "ice_server list option"
  cc_SignalingURL :: string
  cc_SendCodec :: string
  cc_APIBaseURL :: string
  cc_TalkbackStream :: string
  cc_TalkbackIn :: string

record codec_capability =
  cp_MimeType :: string
  cp_ClockRate :: nat
  cp_Channels :: nat
  cp_SDPFmtpLine :: string
  cp_PayloadType :: nat

record client_external =
  cx_RegisterCodec :: "codec_capability \<Rightarrow> go_error option"
  cx_NewPeerConnection :: "ice_server list \<Rightarrow> go_error option"
  cx_NewTrack :: "codec_capability \<Rightarrow> go_error option"
  cx_AddTransceiver :: "string \<Rightarrow> go_error option"
  cx_NewEncoder :: "go_error option"
  cx_SetBitrate :: "go_error option"

record rtc_client =
  ct_signalingURL :: string
  ct_sendCodec :: string
  ct_pc :: nat
  ct_hasEncoder :: bool
  ct_talk :: talk_client

definition codec_capability_of :: "string \<Rightarrow> codec_capability" where
  "codec_capability_of sendCodec =
     (if sendCodec = ''pcmu''
      then \<lparr>cp_MimeType = ''audio/PCMU'', cp_ClockRate = 8000, cp_Channels = 1, cp_SDPFmtpLine = [], cp_PayloadType = 0\<rparr>
      else \<lparr>cp_MimeType = ''audio/opus'', cp_ClockRate = 48000, cp_Channels = 2,
             cp_SDPFmtpLine = ''minptime=10;useinbandfec=1'', cp_PayloadType = 111\<rparr>)"

text \<open>The steps after the connection was made, and their first error.\<close>

definition client_media_error :: "client_external \<Rightarrow> string \<Rightarrow> go_error option" where
  "client_media_error x sendCodec =
     (case cx_NewTrack x (codec_capability_of sendCodec) of Some err \<Rightarrow> Some err | None \<Rightarrow>
      (case cx_AddTransceiver x (if sendCodec = ''opus-sendonly'' then ''sendonly'' else ''sendrecv'') of Some err \<Rightarrow> Some err | None \<Rightarrow>
       if sendCodec \<noteq> ''pcmu'' then
         (case cx_NewEncoder x of Some err \<Rightarrow> Some (Wrap ''create opus encoder: '' err) | None \<Rightarrow>
          (case cx_SetBitrate x of Some err \<Rightarrow> Some (Wrap ''set opus bitrate: '' err) | None \<Rightarrow> None))
       else None))"

definition known_codec :: "string \<Rightarrow> bool" where
  "known_codec sendCodec \<longleftrightarrow> sendCodec \<in> {''pcmu'', ''opus'', ''opus-sendonly''}"

definition client_codec :: "client_config \<Rightarrow> string" where
  "client_codec cfg = (if cc_SendCodec cfg = [] then ''opus'' else cc_SendCodec cfg)"

definition NewClientWithConfig :: "client_external \<Rightarrow> client_config \<Rightarrow> native \<Rightarrow> rtc_client result \<times> native" where
  "NewClientWithConfig x cfg nt =
     (let sendCodec = client_codec cfg in
      if \<not> known_codec sendCodec
      then (Inl (Msg (''unsupported send codec '' @ go_quote sendCodec @ '' (want pcmu, opus, or opus-sendonly)'')), nt)
      else
        (case cx_RegisterCodec x (codec_capability_of sendCodec) of Some err \<Rightarrow> (Inl err, nt) | None \<Rightarrow>
        (case cx_NewPeerConnection x (iceServers (cc_ICEServers cfg)) of Some err \<Rightarrow> (Inl err, nt) | None \<Rightarrow>
        (case nt_New nt of (pc, nt) \<Rightarrow>
        (case client_media_error x sendCodec of Some err \<Rightarrow> (Inl err, nt_delete pc nt) | None \<Rightarrow>
           (Inr \<lparr>ct_signalingURL = cc_SignalingURL cfg, ct_sendCodec = sendCodec, ct_pc = pc, ct_hasEncoder = (sendCodec \<noteq> ''pcmu''),
                 ct_talk = tc_new (cc_APIBaseURL cfg) (cc_TalkbackStream cfg) (cc_TalkbackIn cfg) (cc_ICEServers cfg)\<rparr>, nt))))))"

definition NewClientWithSendCodec :: "client_external \<Rightarrow> string \<Rightarrow> string \<Rightarrow> native \<Rightarrow> rtc_client result \<times> native" where
  "NewClientWithSendCodec x url sendCodec =
     NewClientWithConfig x \<lparr>cc_ICEServers = None, cc_SignalingURL = url, cc_SendCodec = sendCodec, cc_APIBaseURL = [],
       cc_TalkbackStream = [], cc_TalkbackIn = []\<rparr>"

definition NewClient :: "client_external \<Rightarrow> string \<Rightarrow> native \<Rightarrow> rtc_client result \<times> native" where
  "NewClient x url = NewClientWithSendCodec x url ''opus''"

text \<open>
  A client exists only with a known codec, with an encoder exactly when it needs one, and owns its open
  connection; every failure leaves no connection open.
\<close>

lemma NewClient_handles:
  assumes "NewClientWithConfig x cfg nt = (r, nt')" and "nt_holds hs nt"
  shows "case r of
      Inl _ \<Rightarrow> nt_holds hs nt'
    | Inr c \<Rightarrow> nt_holds (add_mset (ct_pc c) hs) nt' \<and> known_codec (ct_sendCodec c) \<and>
        (ct_hasEncoder c \<longleftrightarrow> ct_sendCodec c \<noteq> ''pcmu'')"
proof -
  obtain pc nt1 where new: "nt_New nt = (pc, nt1)" by fastforce
  have held: "nt_holds (add_mset pc hs) nt1" using nt_holds_New [OF assms(2) new] .
  show ?thesis
  proof (cases r)
    case (Inl err)
    then have "nt' = nt \<or> nt' = nt_delete pc nt1"
      using assms(1) unfolding NewClientWithConfig_def new Let_def prod.case
      by (auto split: option.splits if_splits)
    then show ?thesis using Inl assms(2) nt_holds_delete [OF held] by auto
  next
    case (Inr c)
    then have "known_codec (client_codec cfg)" and
      "nt' = nt1 \<and> ct_pc c = pc \<and> ct_sendCodec c = client_codec cfg \<and> ct_hasEncoder c = (client_codec cfg \<noteq> ''pcmu'')"
      using assms(1) unfolding NewClientWithConfig_def new Let_def prod.case
      by (auto split: option.splits if_split_asm simp del: list.inject)
    then show ?thesis using Inr held by simp
  qed
qed

subsection \<open>Signaling\<close>

text \<open>A message of the read loop, as far as it can be read; a value that is not a string is \<open>None\<close>.\<close>

datatype signal_message = Ws_read_error | Ws_not_json | Ws_answer "string option" | Ws_candidate "string option" | Ws_other

datatype signal_effect = Set_remote string | Add_candidate string

text \<open>What a message does: the loop goes on, or it ends and asks for a reconnection or not.\<close>

datatype signal_next = Signal_continues | Signal_ends bool

definition signal_handle ::
    "(string \<Rightarrow> go_error option) \<Rightarrow> signal_message \<Rightarrow> signal_effect list \<times> signal_next" where
  "signal_handle setRemote m =
     (case m of
        Ws_read_error \<Rightarrow> ([], Signal_ends True)
      | Ws_not_json \<Rightarrow> ([], Signal_continues)
      | Ws_answer None \<Rightarrow> ([], Signal_continues)
      | Ws_answer (Some sdp) \<Rightarrow>
          ([Set_remote sdp], case setRemote sdp of Some _ \<Rightarrow> Signal_ends False | None \<Rightarrow> Signal_continues)
      | Ws_candidate None \<Rightarrow> ([], Signal_continues)
      | Ws_candidate (Some c) \<Rightarrow> ([Add_candidate c], Signal_continues)
      | Ws_other \<Rightarrow> ([], Signal_continues))"

fun signal_loop :: "(string \<Rightarrow> go_error option) \<Rightarrow> signal_message list \<Rightarrow> signal_effect list \<times> signal_next" where
  "signal_loop setRemote [] = ([], Signal_continues)"
| "signal_loop setRemote (m # ms) =
     (case signal_handle setRemote m of
        (es, Signal_continues) \<Rightarrow> (case signal_loop setRemote ms of (es', n) \<Rightarrow> (es @ es', n))
      | (es, Signal_ends again) \<Rightarrow> (es, Signal_ends again))"

text \<open>
  The read loop asks for a reconnection exactly when a read failed. An answer the peer connection refuses ends
  it without one: no signaling is left, and nothing brings it back.
\<close>

lemma signal_loop_ends:
  "snd (signal_loop setRemote ms) = Signal_ends again \<Longrightarrow>
     (if again then Ws_read_error \<in> set ms else \<exists>sdp. Ws_answer (Some sdp) \<in> set ms \<and> setRemote sdp \<noteq> None)"
proof (induction ms)
  case (Cons m ms)
  show ?case
  proof (cases "snd (signal_handle setRemote m)")
    case Signal_continues
    then have "snd (signal_loop setRemote ms) = Signal_ends again" using Cons.prems by (auto split: prod.splits signal_next.splits)
    then show ?thesis using Cons.IH by (auto split: if_splits)
  next
    case (Signal_ends b)
    then have "b = again" using Cons.prems by (auto split: prod.splits signal_next.splits)
    then show ?thesis using Signal_ends by (auto simp: signal_handle_def split: signal_message.splits option.splits)
  qed
qed simp

subsection \<open>The reconnection loop\<close>

text \<open>What an attempt finds: the client closing, the connection up again, the answer of \<open>Connect\<close>, the end of the lifetime.\<close>

record rtc_attempt =
  ra_closing :: bool
  ra_connected :: bool
  ra_connect :: "go_error option"
  ra_ended :: bool

datatype reconnect_end = Rc_closing | Rc_connected | Rc_succeeded | Rc_cancelled | Rc_exhausted

function reconnect_loop :: "(nat \<Rightarrow> rtc_attempt) \<Rightarrow> nat \<Rightarrow> nat list \<times> reconnect_end" where
  "reconnect_loop env attempt =
     (if 12 < attempt then ([], Rc_exhausted)
      else if ra_closing (env attempt) then ([], Rc_closing)
      else if ra_connected (env attempt) then ([], Rc_connected)
      else case ra_connect (env attempt) of
        None \<Rightarrow> ([attempt], Rc_succeeded)
      | Some _ \<Rightarrow>
          if ra_ended (env attempt) then ([attempt], Rc_cancelled)
          else (case reconnect_loop env (attempt + 1) of (as, e) \<Rightarrow> (attempt # as, e)))"
  by pat_completeness auto
termination by (relation "measure (\<lambda>(env, attempt). 13 - attempt)") auto

declare reconnect_loop.simps [simp del]

text \<open>The attempts are numbered from where the loop starts, without a gap, and none comes after the twelfth.\<close>

lemma reconnect_loop_attempts:
  assumes "n \<le> 13"
  shows "\<exists>k \<le> 13. n \<le> k \<and> fst (reconnect_loop env n) = [n..<k] \<and>
    (snd (reconnect_loop env n) = Rc_exhausted \<longrightarrow> k = 13) \<and>
    (\<forall>i \<in> {n..<k}. i + 1 < k \<longrightarrow> ra_connect (env i) \<noteq> None)"
  using assms
proof (induction env n rule: reconnect_loop.induct)
  case (1 env n)
  consider (over) "12 < n" | (stop) "n \<le> 12" "ra_closing (env n) \<or> ra_connected (env n)"
    | (last) "n \<le> 12" "\<not> ra_closing (env n)" "\<not> ra_connected (env n)" "ra_connect (env n) = None \<or> ra_ended (env n)"
    | (again) err where "n \<le> 12" "\<not> ra_closing (env n)" "\<not> ra_connected (env n)" "ra_connect (env n) = Some err" "\<not> ra_ended (env n)"
    by fastforce
  then show ?case
  proof cases
    case over
    then have "reconnect_loop env n = ([], Rc_exhausted)" by (subst reconnect_loop.simps) simp
    then show ?thesis using over 1(2) by (intro exI [of _ n]) simp
  next
    case stop
    then have "\<exists>e. e \<noteq> Rc_exhausted \<and> reconnect_loop env n = ([], e)" by (subst reconnect_loop.simps) auto
    then show ?thesis using stop by (intro exI [of _ n]) auto
  next
    case last
    then have "\<exists>e. e \<noteq> Rc_exhausted \<and> reconnect_loop env n = ([n], e)"
      by (subst reconnect_loop.simps) (cases "ra_connect (env n)"; simp)
    then show ?thesis using last(1) by (intro exI [of _ "n + 1"]) auto
  next
    case again
    then have "reconnect_loop env n = (n # fst (reconnect_loop env (n + 1)), snd (reconnect_loop env (n + 1)))"
      by (subst reconnect_loop.simps) (simp split: prod.splits)
    moreover obtain k where k: "k \<le> 13" "n + 1 \<le> k" "fst (reconnect_loop env (n + 1)) = [n + 1..<k]"
      "snd (reconnect_loop env (n + 1)) = Rc_exhausted \<longrightarrow> k = 13" "\<forall>i \<in> {n + 1..<k}. i + 1 < k \<longrightarrow> ra_connect (env i) \<noteq> None"
      using 1(1) again by fastforce
    moreover have "n # [n + 1..<k] = [n..<k]" using k(2) by (simp add: upt_conv_Cons)
    moreover have "ra_connect (env i) \<noteq> None" if "i \<in> {n..<k}" "i + 1 < k" for i
    proof (cases "i = n")
      case False
      then have "i \<in> {n + 1..<k}" using that(1) by simp
      then show ?thesis using k(5) that(2) by blast
    qed (use again(4) in simp)
    ultimately show ?thesis by (intro exI [of _ k]) simp
  qed
qed


subsection \<open>Connections, reconnection and Close together\<close>

text \<open>
  \<open>rc_dialing\<close> counts the calls of \<open>Connect\<close> that have their token and are dialling, \<open>rc_dialled\<close> are the sockets
  of those whose dial returned and that wait for \<open>signalMu\<close>, \<open>rc_connecting\<close> of those that registered theirs, \<open>rc_readers\<close> the sockets with a read loop and \<open>rc_open\<close> those that are
  open. The sections of \<open>Close\<close> are steps of their own: the flag, the cancellation, the closing of the registered
  socket and of the peer connection, the return. \<open>rc_starting\<close> is a reconnection between its mutex section and \<open>tasks.Go\<close>, \<open>rc_loops\<close> counts the loops.
\<close>

record rtc_conn =
  rc_closing :: bool
  rc_reconnecting :: bool
  rc_starting :: bool
  rc_loops :: nat
  rc_cancelled :: bool
  rc_pc_closed :: bool
  rc_next :: nat
  rc_open :: "nat set"
  rc_signalConn :: "nat option"
  rc_dialing :: nat
  rc_dialled :: "nat set"
  rc_connecting :: "nat set"
  rc_readers :: "nat set"
  rc_closed :: bool

definition rc_new :: rtc_conn where
  "rc_new = \<lparr>rc_closing = False, rc_reconnecting = False, rc_starting = False, rc_loops = 0, rc_cancelled = False,
     rc_pc_closed = False, rc_next = 0, rc_open = {}, rc_signalConn = None, rc_dialing = 0, rc_dialled = {}, rc_connecting = {},
     rc_readers = {}, rc_closed = False\<rparr>"

definition scheduleReconnect :: "rtc_conn \<Rightarrow> rtc_conn" where
  "scheduleReconnect c = (if rc_closing c \<or> rc_reconnecting c then c else c\<lparr>rc_reconnecting := True, rc_starting := True\<rparr>)"

text \<open>\<open>tasks.Go\<close> gives the loop its token or refuses; the deferred section of the loop.\<close>

definition reconnect_go :: "bool \<Rightarrow> rtc_conn \<Rightarrow> rtc_conn" where
  "reconnect_go go_ok c =
     (if go_ok then c\<lparr>rc_starting := False, rc_loops := rc_loops c + 1\<rparr>
      else c\<lparr>rc_starting := False, rc_reconnecting := False\<rparr>)"

definition reconnect_done :: "rtc_conn \<Rightarrow> rtc_conn" where
  "reconnect_done c = c\<lparr>rc_loops := rc_loops c - 1, rc_reconnecting := False\<rparr>"

text \<open>
  \<open>Connect\<close>: the token; the dial, which returns an open socket; the section of \<open>signalMu\<close>, which closes the
  registered socket and puts the new one in its place; the failure of a later step; success.
\<close>

definition connect_start :: "rtc_conn \<Rightarrow> rtc_conn option" where
  "connect_start c = (if rc_cancelled c then None else Some (c\<lparr>rc_dialing := rc_dialing c + 1\<rparr>))"

definition connect_dials :: "rtc_conn \<Rightarrow> nat \<times> rtc_conn" where
  "connect_dials c =
     (let w = rc_next c in
      (w, c\<lparr>rc_next := w + 1, rc_open := insert w (rc_open c), rc_dialing := rc_dialing c - 1, rc_dialled := insert w (rc_dialled c)\<rparr>))"

definition connect_register :: "nat \<Rightarrow> rtc_conn \<Rightarrow> rtc_conn" where
  "connect_register w c =
     c\<lparr>rc_open := (case rc_signalConn c of None \<Rightarrow> rc_open c | Some old \<Rightarrow> rc_open c - {old}), rc_signalConn := Some w,
       rc_dialled := rc_dialled c - {w}, rc_connecting := insert w (rc_connecting c)\<rparr>"

definition connect_fails :: "nat \<Rightarrow> rtc_conn \<Rightarrow> rtc_conn" where
  "connect_fails w c = c\<lparr>rc_connecting := rc_connecting c - {w}, rc_open := rc_open c - {w}\<rparr>"

definition connect_reads :: "nat \<Rightarrow> rtc_conn \<Rightarrow> rtc_conn" where
  "connect_reads w c =
     (if rc_cancelled c then connect_fails w c
      else c\<lparr>rc_connecting := rc_connecting c - {w}, rc_readers := insert w (rc_readers c)\<rparr>)"

definition reader_ends :: "nat \<Rightarrow> rtc_conn \<Rightarrow> rtc_conn" where
  "reader_ends w c = c\<lparr>rc_readers := rc_readers c - {w}, rc_open := rc_open c - {w}\<rparr>"

text \<open>\<open>Close\<close>, section by section; the wait of \<open>tasks.Close\<close> is the guard of its return.\<close>

definition close_begins :: "rtc_conn \<Rightarrow> rtc_conn" where
  "close_begins c = c\<lparr>rc_closing := True\<rparr>"

definition close_cancels :: "rtc_conn \<Rightarrow> rtc_conn option" where
  "close_cancels c = (if rc_closing c then Some (c\<lparr>rc_cancelled := True\<rparr>) else None)"

definition close_sockets :: "rtc_conn \<Rightarrow> rtc_conn option" where
  "close_sockets c =
     (if rc_cancelled c
      then Some (c\<lparr>rc_pc_closed := True,
                   rc_open := (case rc_signalConn c of None \<Rightarrow> rc_open c | Some w \<Rightarrow> rc_open c - {w})\<rparr>)
      else None)"

definition close_joined :: "rtc_conn \<Rightarrow> bool" where
  "close_joined c \<longleftrightarrow>
     rc_pc_closed c \<and> rc_loops c = 0 \<and> rc_dialing c = 0 \<and> rc_dialled c = {} \<and> rc_connecting c = {} \<and> rc_readers c = {}"

inductive rc_step :: "rtc_conn \<Rightarrow> rtc_conn \<Rightarrow> bool" where
  rc_schedules: "rc_step c (scheduleReconnect c)"
| rc_goes: "rc_starting c \<Longrightarrow> go_ok \<longrightarrow> \<not> rc_cancelled c \<Longrightarrow> rc_step c (reconnect_go go_ok c)"
| rc_loop_ends: "0 < rc_loops c \<Longrightarrow> rc_step c (reconnect_done c)"
| rc_connects: "connect_start c = Some c' \<Longrightarrow> rc_step c c'"
| rc_dial_fails: "0 < rc_dialing c \<Longrightarrow> rc_step c (c\<lparr>rc_dialing := rc_dialing c - 1\<rparr>)"
| rc_dials: "0 < rc_dialing c \<Longrightarrow> rc_step c (snd (connect_dials c))"
| rc_registers: "w \<in> rc_dialled c \<Longrightarrow> rc_step c (connect_register w c)"
| rc_connect_fails: "w \<in> rc_connecting c \<Longrightarrow> rc_step c (connect_fails w c)"
| rc_connect_reads: "w \<in> rc_connecting c \<Longrightarrow> rc_step c (connect_reads w c)"
| rc_reader_ends: "w \<in> rc_readers c \<Longrightarrow> rc_step c (reader_ends w c)"
| rc_close_begins: "rc_step c (close_begins c)"
| rc_close_cancels: "close_cancels c = Some c' \<Longrightarrow> rc_step c c'"
| rc_close_sockets: "close_sockets c = Some c' \<Longrightarrow> rc_step c c'"
| rc_close_returns: "close_joined c \<Longrightarrow> rc_step c (c\<lparr>rc_closed := True\<rparr>)"

definition rc_inv :: "rtc_conn \<Rightarrow> bool" where
  "rc_inv c \<longleftrightarrow>
     rc_loops c + (if rc_starting c then 1 else 0) = (if rc_reconnecting c then 1 else 0) \<and>
     rc_open c \<subseteq> rc_dialled c \<union> rc_connecting c \<union> rc_readers c \<and>
     (\<forall>w \<in> rc_open c - rc_dialled c. rc_signalConn c = Some w) \<and>
     (\<forall>w \<in> rc_dialled c \<union> rc_connecting c \<union> rc_readers c \<union> set_option (rc_signalConn c). w < rc_next c) \<and>
     rc_dialled c \<inter> (rc_connecting c \<union> rc_readers c \<union> set_option (rc_signalConn c)) = {} \<and>
     (rc_closed c \<longrightarrow> rc_closing c \<and> close_joined c) \<and> (rc_pc_closed c \<longrightarrow> rc_cancelled c) \<and> (rc_cancelled c \<longrightarrow> rc_closing c)"

lemmas rc_defs = scheduleReconnect_def reconnect_go_def reconnect_done_def connect_start_def connect_dials_def connect_register_def connect_fails_def
  connect_reads_def reader_ends_def close_begins_def close_cancels_def close_sockets_def close_joined_def Let_def

lemma rc_step_inv: "rc_inv c \<Longrightarrow> rc_step c c' \<Longrightarrow> rc_inv c'"
proof (erule rc_step.cases, goal_cases)
  case (1 d)
  then show ?case by (cases "rc_closing d \<or> rc_reconnecting d") (auto simp: rc_inv_def scheduleReconnect_def close_joined_def)
next
  case (2 d go_ok)
  then show ?case by (cases go_ok) (auto simp: rc_inv_def reconnect_go_def close_joined_def split: if_splits)
next
  case (3 d)
  then show ?case by (auto simp: rc_inv_def reconnect_done_def close_joined_def split: if_splits)
next
  case (4 d d')
  then show ?case by (auto simp: rc_inv_def connect_start_def close_joined_def split: if_split_asm)
next
  case (5 d)
  then show ?case by (auto simp: rc_inv_def close_joined_def)
next
  case (6 d)
  then have "\<not> rc_closed d" by (auto simp: rc_inv_def close_joined_def)
  then show ?case using 6 unfolding rc_inv_def connect_dials_def Let_def by (auto simp: less_Suc_eq)
next
  case (7 w d)
  then have "\<not> rc_closed d" by (auto simp: rc_inv_def close_joined_def)
  then show ?case using 7 unfolding rc_inv_def connect_register_def by (cases "rc_signalConn d") auto
next
  case (8 w d)
  then show ?case by (auto simp: rc_inv_def connect_fails_def close_joined_def)
next
  case (9 w d)
  then have "\<not> rc_closed d" by (auto simp: rc_inv_def close_joined_def)
  then show ?case using 9 unfolding rc_inv_def connect_reads_def connect_fails_def by (cases "rc_cancelled d") auto
next
  case (10 w d)
  then show ?case by (auto simp: rc_inv_def reader_ends_def close_joined_def)
next
  case (11 d)
  then show ?case by (simp add: rc_inv_def close_begins_def close_joined_def)
next
  case (12 d d')
  then show ?case by (auto simp: rc_inv_def close_cancels_def close_joined_def split: if_split_asm)
next
  case (13 d d')
  then have "d' = d\<lparr>rc_pc_closed := True, rc_open := (case rc_signalConn d of None \<Rightarrow> rc_open d | Some w \<Rightarrow> rc_open d - {w})\<rparr>"
    "rc_cancelled d" by (simp_all add: close_sockets_def split: if_split_asm)
  then show ?case using 13 unfolding rc_inv_def by (cases "rc_signalConn d") (auto simp: close_joined_def)
next
  case (14 d)
  then show ?case by (simp add: rc_inv_def close_joined_def)
qed

interpretation conn_machine: machine "\<lambda>c. c = rc_new" rc_step rc_inv
proof unfold_locales
  show "rc_inv c" if "c = rc_new" for c using that by (simp add: rc_inv_def rc_new_def)
qed (rule rc_step_inv)



end
