(* ===== verification/Node_Runtime.thy ===== *)
theory Node_Runtime
  imports Protocol Url
begin

text \<open>
  The orchestration of a node (internal/runtime/runtime.go): the capture callback that routes the microphone to
  the wake word detector, the voice activity detector and the sessions; the wake turn; the gate that lets one wake
  turn run at a time; and the life of what \<open>Run\<close> opens.
\<close>

subsection \<open>The capture callback\<close>

text \<open>
  A frame with what the callback finds: the state of the node, the pending flag, what the voice activity detector
  says after it and how many segments it has ready.
\<close>

record mic_frame =
  mf_samples :: "f32 list"
  mf_state :: node_state
  mf_pending :: bool
  mf_speech :: bool
  mf_segments :: nat

datatype capture_effect =
    Cap_record "f32 list"
  | Cap_vad_reset
  | Cap_wake_reset
  | Cap_wake_feed "f32 list"
  | Cap_vad_feed "f32 list"
  | Cap_sessions "f32 list" bool
  | Cap_vad_pop

record capture_state =
  cs_previous :: node_state
  cs_wakeActive :: bool

definition capture_start :: capture_state where
  "capture_start = \<lparr>cs_previous = StateIdle, cs_wakeActive = False\<rparr>"

definition rt_onAudio :: "bool \<Rightarrow> mic_frame \<Rightarrow> capture_state \<Rightarrow> capture_effect list \<times> capture_state" where
  "rt_onAudio halfDuplex f c =
     (if mf_samples f = [] then ([Cap_record []], c)
      else
        let changed = (mf_state f \<noteq> cs_previous c);
            vad_reset = (if changed then [Cap_vad_reset] else []);
            c1 = (if changed then c\<lparr>cs_previous := mf_state f\<rparr> else c)
        in if halfDuplex \<and> mf_state f = StateSpeaking then (Cap_record (mf_samples f) # vad_reset, c1)
           else
             let (wake, c2) =
               (if mf_state f = StateIdle \<and> \<not> mf_pending f
                then ((if cs_wakeActive c1 then [] else [Cap_wake_reset]) @ [Cap_wake_feed (mf_samples f)], c1\<lparr>cs_wakeActive := True\<rparr>)
                else ([], c1\<lparr>cs_wakeActive := False\<rparr>))
             in (Cap_record (mf_samples f) # vad_reset @ wake @
                   [Cap_vad_feed (mf_samples f), Cap_sessions (mf_samples f) (mf_speech f)] @ replicate (mf_segments f) Cap_vad_pop,
                 c2))"

fun capture_run :: "bool \<Rightarrow> mic_frame list \<Rightarrow> capture_state \<Rightarrow> capture_effect list \<times> capture_state" where
  "capture_run hdx [] c = ([], c)"
| "capture_run hdx (f # fs) c =
     (case rt_onAudio hdx f c of (es, c1) \<Rightarrow> case capture_run hdx fs c1 of (es', c2) \<Rightarrow> (es @ es', c2))"

text \<open>What the detector has heard since its last reset, and what the sessions were given.\<close>

fun wake_heard :: "capture_effect list \<Rightarrow> f32 list \<Rightarrow> f32 list" where
  "wake_heard [] acc = acc"
| "wake_heard (Cap_wake_reset # es) acc = wake_heard es []"
| "wake_heard (Cap_wake_feed s # es) acc = wake_heard es (acc @ s)"
| "wake_heard (_ # es) acc = wake_heard es acc"

fun session_frames :: "capture_effect list \<Rightarrow> (f32 list \<times> bool) list" where
  "session_frames [] = []"
| "session_frames (Cap_sessions s b # es) = (s, b) # session_frames es"
| "session_frames (_ # es) = session_frames es"

text \<open>
  A frame is dropped when it is empty, or half-duplex while the node speaks; it is for the detector when the node
  is idle with no wake turn pending; any other frame ends what the detector hears.
\<close>

definition mic_dropped :: "bool \<Rightarrow> mic_frame \<Rightarrow> bool" where
  "mic_dropped hdx f \<longleftrightarrow> mf_samples f = [] \<or> hdx \<and> mf_state f = StateSpeaking"

definition mic_wakes :: "mic_frame \<Rightarrow> bool" where
  "mic_wakes f \<longleftrightarrow> mf_state f = StateIdle \<and> \<not> mf_pending f"

definition heard_since_break :: "bool \<Rightarrow> mic_frame list \<Rightarrow> f32 list" where
  "heard_since_break hdx fs =
     concat (map mf_samples (rev (takeWhile mic_wakes (rev (filter (\<lambda>f. \<not> mic_dropped hdx f) fs)))))"

lemma wake_heard_append [simp]: "wake_heard (es @ es') acc = wake_heard es' (wake_heard es acc)"
proof (induction es arbitrary: acc)
  case (Cons e es)
  then show ?case by (cases e) simp_all
qed simp

lemma session_frames_append [simp]: "session_frames (es @ es') = session_frames es @ session_frames es'"
proof (induction es)
  case (Cons e es)
  then show ?case by (cases e) simp_all
qed simp

lemma pops [simp]: "wake_heard (replicate n Cap_vad_pop) acc = acc" "session_frames (replicate n Cap_vad_pop) = []"
  by (induction n) simp_all

lemma capture_run_append:
  "capture_run hdx (fs @ gs) c =
     (case capture_run hdx fs c of (es, c1) \<Rightarrow> case capture_run hdx gs c1 of (es', c2) \<Rightarrow> (es @ es', c2))"
  by (induction fs arbitrary: c) (simp_all split: prod.splits)

text \<open>One frame: what it does to the detector and the sessions.\<close>

lemma onAudio_frame:
  assumes "rt_onAudio hdx f c = (es, c')"
  shows "if mic_dropped hdx f then wake_heard es acc = acc \<and> session_frames es = [] \<and> cs_wakeActive c' = cs_wakeActive c
    else session_frames es = [(mf_samples f, mf_speech f)] \<and> cs_wakeActive c' = mic_wakes f \<and>
      wake_heard es acc = (if mic_wakes f then (if cs_wakeActive c then acc else []) @ mf_samples f else acc)"
proof (cases "mic_dropped hdx f")
  case True
  then show ?thesis using assms by (auto simp: rt_onAudio_def mic_dropped_def Let_def split: if_splits)
next
  case False
  then show ?thesis using assms by (cases "mic_wakes f") (auto simp: rt_onAudio_def mic_dropped_def mic_wakes_def Let_def split: if_splits)
qed

lemma capture_run_frames:
  assumes "capture_run hdx fs capture_start = (es, c)"
  shows "session_frames es = map (\<lambda>f. (mf_samples f, mf_speech f)) (filter (\<lambda>f. \<not> mic_dropped hdx f) fs) \<and>
    (cs_wakeActive c \<longleftrightarrow> heard_since_break hdx fs \<noteq> []) \<and> (cs_wakeActive c \<longrightarrow> wake_heard es [] = heard_since_break hdx fs)"
  using assms
proof (induction fs arbitrary: es c rule: rev_induct)
  case Nil
  then show ?case by (auto simp: capture_start_def heard_since_break_def)
next
  case (snoc f fs)
  obtain es1 c1 es2 where run: "capture_run hdx fs capture_start = (es1, c1)" "rt_onAudio hdx f c1 = (es2, c)" "es = es1 @ es2"
    using snoc.prems by (auto simp: capture_run_append split: prod.splits)
  note ih = snoc.IH [OF run(1)] and frame = onAudio_frame [OF run(2), of "wake_heard es1 []"]
  show ?case
  proof (cases "mic_dropped hdx f")
    case True
    then have "heard_since_break hdx (fs @ [f]) = heard_since_break hdx fs" by (simp add: heard_since_break_def)
    then show ?thesis using ih frame run(3) True by auto
  next
    case False
    then have ne: "mf_samples f \<noteq> []" by (simp add: mic_dropped_def)
    show ?thesis
    proof (cases "mic_wakes f")
      case wakes: True
      have "heard_since_break hdx (fs @ [f]) = heard_since_break hdx fs @ mf_samples f"
        using False wakes by (simp add: heard_since_break_def)
      then show ?thesis using False wakes ih frame run(3) ne by (cases "cs_wakeActive c1") auto
    next
      case breaks: False
      then have "heard_since_break hdx (fs @ [f]) = []" using False by (simp add: heard_since_break_def)
      then show ?thesis using False breaks ih frame run(3) by simp
    qed
  qed
qed

text \<open>C33: The capture callback routes the microphone exactly so: the sessions are given every frame that is not
  empty and not half-duplex while the node speaks, in order and once; and whenever the wake word detector is being
  fed, it has heard since its last reset exactly the frames of the current idle stretch, nothing of a turn. The
  frames that half-duplex drops do not end a stretch: after a turn in which the node only spoke, the detector is not
  reset, and what it had heard before the turn still counts.\<close>

theorem capture_gate:
  assumes "capture_run hdx fs capture_start = (es, c)"
  shows "session_frames es = map (\<lambda>f. (mf_samples f, mf_speech f)) (filter (\<lambda>f. \<not> mic_dropped hdx f) fs) \<and>
    (cs_wakeActive c \<longrightarrow> wake_heard es [] = heard_since_break hdx fs) \<and>
    (hdx \<and> mic_wakes a \<and> mf_state s = StateSpeaking \<and> mic_wakes b \<and> mf_samples a \<noteq> [] \<and> mf_samples b \<noteq> [] \<longrightarrow>
       wake_heard (fst (capture_run hdx [a, s, b] capture_start)) [] = mf_samples a @ mf_samples b)"
proof -
  have "wake_heard (fst (capture_run hdx [a, s, b] capture_start)) [] = mf_samples a @ mf_samples b"
    if p: "hdx" "mic_wakes a" "mf_state s = StateSpeaking" "mic_wakes b" "mf_samples a \<noteq> []" "mf_samples b \<noteq> []"
  proof -
    obtain es' c' where run: "capture_run hdx [a, s, b] capture_start = (es', c')" by fastforce
    have keep: "\<not> mic_dropped hdx a" "mic_dropped hdx s" "\<not> mic_dropped hdx b"
      using p by (auto simp: mic_dropped_def mic_wakes_def)
    then have "heard_since_break hdx [a, s, b] = mf_samples a @ mf_samples b" using p by (simp add: heard_since_break_def)
    then show ?thesis using capture_run_frames [OF run] run p(5) by auto
  qed
  then show ?thesis using capture_run_frames [OF assms] by blast
qed

text \<open>The witness: an idle frame, the node speaking, and an idle frame again on a half-duplex node.\<close>

definition sample_mic :: "f32 \<Rightarrow> node_state \<Rightarrow> mic_frame" where
  "sample_mic x st = \<lparr>mf_samples = [x], mf_state = st, mf_pending = False, mf_speech = False, mf_segments = 0\<rparr>"

theorem capture_gate_witness:
  "wake_heard (fst (capture_run True [sample_mic (Fin 1) StateIdle, sample_mic (Fin 2) StateSpeaking, sample_mic (Fin 3) StateIdle]
      capture_start)) [] = [Fin 1, Fin 3]"
  using capture_gate [of True "[]" "[]" capture_start "sample_mic (Fin 1) StateIdle" "sample_mic (Fin 2) StateSpeaking"
      "sample_mic (Fin 3) StateIdle"]
  by (simp add: sample_mic_def mic_wakes_def)


subsection \<open>The wake turn\<close>

text \<open>What the goroutine of a wake word publishes and drives; \<open>now\<close> is the time stamp.\<close>

definition autoask_config :: "node_config \<Rightarrow> string \<Rightarrow> ask_config" where
  "autoask_config cfg reply =
     \<lparr>ak_ContextID = ''autoask-'' @ nc_NodeID cfg, ak_NodeID = nc_NodeID cfg, ak_TTSText = reply,
      ak_BargeIn = kw_AutoAskBargeIn (nc_KWS cfg), ak_RequireSpeakerID = False,
      ak_VADTimeoutSeconds = GetAutoAskTimeoutSeconds cfg (Fin 10), ak_Priority = kw_Priority (nc_KWS cfg),
      ak_CaptureDelaySeconds = GetAutoAskCaptureDelaySeconds cfg (Fin (3 / 2)), ak_PostSpeechSilenceSeconds = Fin 0\<rparr>"

definition wake_event :: "node_config \<Rightarrow> string \<Rightarrow> int \<Rightarrow> response" where
  "wake_event cfg keyword now =
     empty_response\<lparr>rp_Event := ''wake'', rp_NodeID := nc_NodeID cfg, rp_Keyword := keyword, rp_Timestamp := now\<rparr>"

definition autoask_event :: "exec_env \<Rightarrow> node_config \<Rightarrow> string \<Rightarrow> int \<Rightarrow> ask_result \<Rightarrow> response" where
  "autoask_event env cfg keyword now r =
     (let event = (wake_event cfg keyword now)\<lparr>rp_AutoAsk := True, rp_Status := ar_Status r, rp_Text := ar_Transcription r,
            rp_Speaker := ar_Speaker r\<rparr>
      in if ar_Status r = ''success'' \<and> kw_AutoAskRecord (nc_KWS cfg) \<and> ar_Audio r \<noteq> []
         then let sr = (if ar_SampleRate r \<le> 0 then 16000 else ar_SampleRate r)
              in event\<lparr>rp_Recording := xe_base64_encode env (EncodeWAVFloat32 (ar_Audio r) sr), rp_SampleRate := sr\<rparr>
         else event)"

definition wake_turn ::
    "exec_env \<Rightarrow> speaker_id_config \<Rightarrow> brain \<times> handle_store \<Rightarrow> node_config \<Rightarrow> string \<Rightarrow> int \<Rightarrow> execution" where
  "wake_turn env sp s cfg keyword now =
     (let reply = (case kw_WakeResponses (nc_KWS cfg) of [] \<Rightarrow> [] | r # _ \<Rightarrow> r) in
      if kw_AutoAsk (nc_KWS cfg)
      then (case ask_Run (ask_env.truncate env) sp s (autoask_config cfg reply) of
              (r, t) \<Rightarrow> ([autoask_event env cfg keyword now r], [t]))
      else if reply = [] then ([wake_event cfg keyword now], [])
      else ([wake_event cfg keyword now],
            [snd (brain_Speak (turn_env.truncate env) s (nc_NodeID cfg) reply (kw_Priority (nc_KWS cfg)))]))"

lemma wake_turn_event:
  "\<exists>e. fst (wake_turn env sp s cfg keyword now) = [e] \<and> rp_Event e = ''wake'' \<and> rp_NodeID e = nc_NodeID cfg \<and>
     rp_Keyword e = keyword \<and> rp_AutoAsk e = kw_AutoAsk (nc_KWS cfg) \<and>
     (\<forall>t \<in> set (snd (wake_turn env sp s cfg keyword now)). turn_ok [] t) \<and>
     (rp_Recording e \<noteq> [] \<longrightarrow> kw_AutoAskRecord (nc_KWS cfg) \<and> rp_Status e = ''success'' \<and> 0 < rp_SampleRate e)"
proof (cases "kw_AutoAsk (nc_KWS cfg)")
  case True
  define c where "c = autoask_config cfg (case kw_WakeResponses (nc_KWS cfg) of [] \<Rightarrow> [] | r # _ \<Rightarrow> r)"
  obtain r t where run: "ask_Run (ask_env.truncate env) sp s c = (r, t)" by fastforce
  have "turn_ok [] t" using ask_Run_turn_ok [of "ask_env.truncate env" sp s c] unfolding run by simp
  moreover have "wake_turn env sp s cfg keyword now = ([autoask_event env cfg keyword now r], [t])"
    using True run unfolding c_def by (simp add: wake_turn_def Let_def)
  ultimately show ?thesis using True
    by (simp add: autoask_event_def wake_event_def empty_response_def Let_def)
next
  case False
  then show ?thesis using brain_ops_turn_ok(1)
    by (simp add: wake_turn_def wake_event_def empty_response_def Let_def)
qed

subsection \<open>One wake turn at a time\<close>

text \<open>
  \<open>wakeTasks\<close>, a group of one, and \<open>wakePending\<close>. \<open>wg_turns\<close> are the turns that run, by their token; a turn
  clears the flag and gives its token back in two steps, and \<open>wg_leaving\<close> are those in between.
\<close>

record wake_gate =
  wg_tasks :: task_group
  wg_pending :: bool
  wg_turns :: "nat list"
  wg_leaving :: "nat list"

definition wake_gate_new :: "ctx_err \<Rightarrow> wake_gate" where
  "wake_gate_new ctx = \<lparr>wg_tasks = tg_New ctx 1, wg_pending = False, wg_turns = [], wg_leaving = []\<rparr>"

text \<open>The callback of the wake stream, up to the start of the goroutine.\<close>

definition wake_callback :: "ctx_err \<Rightarrow> node_state \<Rightarrow> wake_gate \<Rightarrow> wake_gate" where
  "wake_callback ctx state g =
     (case tg_Start ctx (wg_tasks g) of
        (Inl _, tasks) \<Rightarrow> g\<lparr>wg_tasks := tasks\<rparr>
      | (Inr i, tasks) \<Rightarrow>
          if state \<noteq> StateIdle then g\<lparr>wg_tasks := tg_finish i tasks\<rparr>
          else if wg_pending g then g\<lparr>wg_tasks := tg_finish i tasks\<rparr>
          else g\<lparr>wg_tasks := tasks, wg_pending := True, wg_turns := i # wg_turns g\<rparr>)"

definition wake_turn_clears :: "nat \<Rightarrow> wake_gate \<Rightarrow> wake_gate" where
  "wake_turn_clears i g = g\<lparr>wg_pending := False, wg_turns := removeAll i (wg_turns g), wg_leaving := i # wg_leaving g\<rparr>"

definition wake_turn_leaves :: "nat \<Rightarrow> wake_gate \<Rightarrow> wake_gate" where
  "wake_turn_leaves i g = g\<lparr>wg_tasks := tg_finish i (wg_tasks g), wg_leaving := removeAll i (wg_leaving g)\<rparr>"

inductive wg_step :: "wake_gate \<Rightarrow> wake_gate \<Rightarrow> bool" where
  wg_wakes: "wg_step g (wake_callback ctx state g)"
| wg_clears: "i \<in> set (wg_turns g) \<Longrightarrow> wg_step g (wake_turn_clears i g)"
| wg_leaves: "i \<in> set (wg_leaving g) \<Longrightarrow> wg_step g (wake_turn_leaves i g)"
| wg_cancels: "wg_step g (g\<lparr>wg_tasks := tg_cancel e (wg_tasks g)\<rparr>)"
| wg_closes: "wg_step g (g\<lparr>wg_tasks := tg_Close (wg_tasks g)\<rparr>)"

text \<open>The tokens the turns hold are exactly the running ones of the group, and there is at most one.\<close>

definition wg_inv :: "wake_gate \<Rightarrow> bool" where
  "wg_inv g \<longleftrightarrow> tg_inv (wg_tasks g) \<and> tg_limit (wg_tasks g) = 1 \<and>
     (\<forall>i \<in> set (wg_turns g @ wg_leaving g). i < length (tg_tokens (wg_tasks g)) \<and> tk_phase (tg_tokens (wg_tasks g) ! i) = Tg_running) \<and>
     int (length (wg_turns g @ wg_leaving g)) = tg_active (wg_tasks g) \<and>
     (wg_pending g \<longleftrightarrow> wg_turns g \<noteq> [])"

lemma tg_finish_inv: "tg_inv g \<Longrightarrow> tg_inv (tg_finish i g)"
  by (simp add: tg_finish_def tg_done_inv tg_release_inv)

lemma tg_finish_running:
  assumes "i < length (tg_tokens g)" and "tk_phase (tg_tokens g ! i) = Tg_running"
  shows "tg_active (tg_finish i g) = tg_active g - 1 \<and> tg_limit (tg_finish i g) = tg_limit g \<and>
    length (tg_tokens (tg_finish i g)) = length (tg_tokens g) \<and>
    (\<forall>j. j \<noteq> i \<longrightarrow> tg_tokens (tg_finish i g) ! j = tg_tokens g ! j)"
  using assms by (simp add: tg_finish_def tg_finish_release_def tg_finish_done_def)

lemma wg_single: "wg_inv g \<Longrightarrow> length (wg_turns g @ wg_leaving g) \<le> 1"
  by (auto simp: wg_inv_def tg_inv_def)

lemma tg_Start_token:
  assumes "tg_Start ctx g = (Inr i, g')"
  shows "i = length (tg_tokens g) \<and> tg_tokens g' = tg_tokens g @ [\<lparr>tk_phase = Tg_running, tk_cancelled = False\<rparr>] \<and>
    tg_active g' = tg_active g + 1 \<and> tg_active g < tg_limit g \<and> tg_limit g' = tg_limit g \<and> \<not> tg_closed g \<and> tg_ctx g = None"
  using assms by (auto simp: tg_Start_def split: if_splits option.splits)

lemma wake_callback_inv:
  assumes "wg_inv g"
  shows "wg_inv (wake_callback ctx state g)"
proof (cases "tg_Start ctx (wg_tasks g)")
  case (Pair r tasks)
  show ?thesis
  proof (cases r)
    case (Inl e)
    then show ?thesis using Pair assms tg_Start_refused [of ctx "wg_tasks g" e tasks] by (simp add: wake_callback_def)
  next
    case (Inr i)
    note st = tg_Start_token [OF Pair [unfolded Inr]]
    have inv: "tg_inv tasks" using tg_Start_inv [of "wg_tasks g" ctx] assms Pair by (simp add: wg_inv_def)
    have "int (length (wg_turns g @ wg_leaving g)) = tg_active (wg_tasks g)" "tg_active (wg_tasks g) < 1"
      using assms st by (simp_all add: wg_inv_def)
    then have "length (wg_turns g @ wg_leaving g) < 1" by linarith
    then have empty: "wg_turns g = []" "wg_leaving g = []" by auto
    then have none: "wg_turns g = []" "wg_leaving g = []" "tg_active (wg_tasks g) = 0" "\<not> wg_pending g"
      using assms by (auto simp: wg_inv_def)
    have run: "i < length (tg_tokens tasks)" "tk_phase (tg_tokens tasks ! i) = Tg_running" using st by simp_all
    show ?thesis
    proof (cases "state = StateIdle")
      case False
      then show ?thesis using Pair Inr none assms tg_finish_inv [OF inv] tg_finish_running [OF run] st
        by (simp add: wake_callback_def wg_inv_def)
    next
      case True
      then show ?thesis using Pair Inr none assms inv run st by (simp add: wake_callback_def wg_inv_def)
    qed
  qed
qed

lemma wg_one_of:
  assumes "wg_inv g" and "i \<in> set (wg_turns g @ wg_leaving g)"
  shows "wg_turns g = [i] \<and> wg_leaving g = [] \<or> wg_turns g = [] \<and> wg_leaving g = [i]"
  using wg_single [OF assms(1)] assms(2) by (cases "wg_turns g"; cases "wg_leaving g") auto

lemma wg_step_inv: "wg_inv g \<Longrightarrow> wg_step g g' \<Longrightarrow> wg_inv g'"
proof (erule wg_step.cases, goal_cases)
  case (1 h ctx state)
  then show ?case using wake_callback_inv by simp
next
  case (2 i h)
  then have "wg_turns g = [i]" "wg_leaving g = []" using wg_one_of [of g i] by auto
  then show ?case using 2 by (simp add: wg_inv_def wake_turn_clears_def)
next
  case (3 i h)
  then have one: "wg_turns g = []" "wg_leaving g = [i]" using wg_one_of [of g i] by auto
  then have "i < length (tg_tokens (wg_tasks g))" "tk_phase (tg_tokens (wg_tasks g) ! i) = Tg_running"
    using 3(1) by (simp_all add: wg_inv_def)
  from tg_finish_running [OF this] one 3 show ?case
    by (simp add: wg_inv_def wake_turn_leaves_def tg_finish_inv)
next
  case (4 h e)
  then show ?case using tg_cancel_inv [of "wg_tasks g" e] by (simp add: wg_inv_def) (simp add: tg_cancel_def split: option.splits)
next
  case (5 h)
  then show ?case using tg_Close_inv [of "wg_tasks g"]
    by (simp add: wg_inv_def) (simp add: tg_Close_def tg_cancel_def split: option.splits)
qed

interpretation wake_gate_machine: machine "\<lambda>g. \<exists>ctx. g = wake_gate_new ctx" wg_step wg_inv
proof unfold_locales
  show "wg_inv g" if "\<exists>ctx. g = wake_gate_new ctx" for g
    using that by (auto simp: wg_inv_def wake_gate_new_def tg_New_def tg_inv_def)
qed (rule wg_step_inv)


text \<open>C34: On a node at most one wake turn runs at any moment, from the detection until it has given its token back;
  a detection starts one only while the node is idle, none runs, and the group is open, and is dropped otherwise.
  Once the group is closed and joined no turn runs and none will start. A turn publishes exactly one event, the
  wake event with its node and keyword, and drives nodes only within turns that it gives back; a recording is in it
  only if the node records and the ask succeeded.\<close>

theorem wake_turns_single:
  assumes "reach (\<lambda>g. \<exists>ctx. g = wake_gate_new ctx) wg_step g"
  shows "length (wg_turns g @ wg_leaving g) \<le> 1 \<and>
    (wg_turns (wake_callback ctx state g) = wg_turns g \<or>
       state = StateIdle \<and> wg_turns g = [] \<and> wg_leaving g = [] \<and> ctx = None \<and> \<not> tg_closed (wg_tasks g) \<and>
       length (wg_turns (wake_callback ctx state g)) = 1) \<and>
    (tg_closed (wg_tasks g) \<longrightarrow> wake_callback ctx state g = g) \<and>
    (tg_joined (wg_tasks g) \<longrightarrow> wg_turns g = [] \<and> wg_leaving g = []) \<and>
    (\<exists>e. fst (wake_turn env sp s cfg keyword now) = [e] \<and> rp_Event e = ''wake'' \<and> rp_NodeID e = nc_NodeID cfg \<and>
       rp_Keyword e = keyword \<and> (\<forall>t \<in> set (snd (wake_turn env sp s cfg keyword now)). turn_ok [] t) \<and>
       (rp_Recording e \<noteq> [] \<longrightarrow> kw_AutoAskRecord (nc_KWS cfg) \<and> rp_Status e = ''success''))"
proof -
  have inv: "wg_inv g" using wake_gate_machine.reach_inv [OF assms] .
  have starts: "wg_turns (wake_callback ctx state g) = wg_turns g \<or>
       state = StateIdle \<and> wg_turns g = [] \<and> wg_leaving g = [] \<and> ctx = None \<and> \<not> tg_closed (wg_tasks g) \<and>
       length (wg_turns (wake_callback ctx state g)) = 1"
  proof (cases "wg_turns (wake_callback ctx state g) = wg_turns g")
    case False
    then obtain i tasks where st: "tg_Start ctx (wg_tasks g) = (Inr i, tasks)" "state = StateIdle"
        "wg_turns (wake_callback ctx state g) = i # wg_turns g"
      by (auto simp: wake_callback_def split: prod.splits sum.splits if_splits)
    have "wg_inv (wake_callback ctx state g)" using wake_callback_inv [OF inv] .
    then have len: "length (wg_turns (wake_callback ctx state g) @ wg_leaving (wake_callback ctx state g)) \<le> 1" by (rule wg_single)
    moreover have "wg_leaving (wake_callback ctx state g) = wg_leaving g"
      by (simp add: wake_callback_def split: prod.splits sum.splits)
    ultimately have "wg_turns g = []" "wg_leaving g = []" using st(3) by simp_all
    moreover have "ctx = None" using st(1) by (auto simp: tg_Start_def split: if_splits option.splits)
    ultimately show ?thesis using st(2,3) tg_Start_token [OF st(1)] by simp
  qed simp
  have closed: "wake_callback ctx state g = g" if "tg_closed (wg_tasks g)"
    using that by (simp add: wake_callback_def tg_Start_def)
  have joined: "wg_turns g = [] \<and> wg_leaving g = []" if j: "tg_joined (wg_tasks g)"
  proof -
    have "\<forall>t \<in> set (tg_tokens (wg_tasks g)). tk_phase t = Tg_done" using j inv tg_joined_iff by (simp add: wg_inv_def)
    then have "set (wg_turns g @ wg_leaving g) = {}" using inv unfolding wg_inv_def by (metis equals0I nth_mem tg_phase.distinct(3))
    then show ?thesis by simp
  qed
  show ?thesis using wg_single [OF inv] starts closed joined wake_turn_event [of env sp s cfg keyword now] by blast
qed

text \<open>The witness: a wake word on an idle node, and one more while its turn runs.\<close>

theorem wake_turns_single_witness:
  "wg_turns (wake_callback None StateIdle (wake_callback None StateIdle (wake_gate_new None))) = [0] \<and>
   wg_turns (wake_callback None StateListening (wake_gate_new None)) = []"
proof -
  let ?g = "wake_callback None StateIdle (wake_gate_new None)"
  have start: "reach (\<lambda>g. \<exists>ctx. g = wake_gate_new ctx) wg_step (wake_gate_new None)" by (rule reach_init) blast
  then have "reach (\<lambda>g. \<exists>ctx. g = wake_gate_new ctx) wg_step ?g" by (rule reach_step) (rule wg_wakes)
  from wake_turns_single [OF this, of None StateIdle] have "wg_turns (wake_callback None StateIdle ?g) = wg_turns ?g \<or> wg_turns ?g = []"
    by blast
  moreover have g: "wg_turns ?g = [0]" by (simp add: wake_callback_def wake_gate_new_def tg_New_def tg_Start_def)
  moreover have "wg_turns (wake_callback None StateListening (wake_gate_new None)) = []"
    using wake_turns_single [OF start, of None StateListening] by (auto simp: wake_gate_new_def)
  ultimately show ?thesis by simp
qed

subsection \<open>The life of what Run opens\<close>

datatype rt_resource = Res_node | Res_vad | Res_detector | Res_audio | Res_registration | Res_stream

datatype rt_effect = Opens rt_resource | Closes rt_resource | Joins_wake | Hooks_state | Hooks_audio | Connects | Waits_ctx

text \<open>What the steps of \<open>Run\<close> answered; \<open>re_audio\<close> is the answer of the factory, which a local node does not ask.\<close>

record runtime_env =
  re_signaling :: "go_error option"
  re_vad :: bool
  re_detector :: "go_error option"
  re_audio :: "go_error option"
  re_stream :: "go_error option"
  re_connect :: "go_error option"

text \<open>Each level has its deferred calls, run in reverse order on every way out.\<close>

definition run_connected :: "runtime_env \<Rightarrow> rt_effect list" where
  "run_connected env =
     (case re_stream env of
        Some _ \<Rightarrow> [Closes Res_registration, Joins_wake, Closes Res_audio]
      | None \<Rightarrow>
          [Opens Res_stream, Hooks_audio, Connects] @ (if re_connect env = None then [Waits_ctx] else []) @
          [Closes Res_registration, Joins_wake, Closes Res_audio, Closes Res_stream])"

definition run_audio :: "runtime_env \<Rightarrow> string \<Rightarrow> rt_effect list" where
  "run_audio env kind =
     (if kind \<noteq> ''local'' \<and> re_audio env \<noteq> None then []
      else [Opens Res_audio, Opens Res_registration] @ run_connected env)"

definition run_detector :: "runtime_env \<Rightarrow> string \<Rightarrow> rt_effect list" where
  "run_detector env kind =
     (if re_detector env \<noteq> None then [] else Opens Res_detector # run_audio env kind @ [Closes Res_detector])"

definition run_vad :: "runtime_env \<Rightarrow> string \<Rightarrow> rt_effect list" where
  "run_vad env kind = (if \<not> re_vad env then [] else Opens Res_vad # run_detector env kind @ [Closes Res_vad])"

definition runtime_Run :: "runtime_env \<Rightarrow> string \<Rightarrow> rt_effect list" where
  "runtime_Run env kind =
     [Opens Res_node, Hooks_state] @
     (if kind = ''rtc_stream'' then (if re_signaling env \<noteq> None then [] else run_vad env kind)
      else if kind \<noteq> ''local'' then []
      else run_vad env kind) @
     [Closes Res_node]"

text \<open>
  The order that keeps native objects alive: the stream needs its detector, audio arrives (\<open>Hooks_audio\<close>) only with
  detector, stream and gate up, and none of the three is deleted while audio can arrive or a wake turn can run.
\<close>

fun life_ok :: "rt_resource list \<Rightarrow> rt_effect list \<Rightarrow> bool" where
  "life_ok own [] \<longleftrightarrow> own = []"
| "life_ok own (Opens r # es) \<longleftrightarrow> r \<notin> set own \<and> (r = Res_stream \<longrightarrow> Res_detector \<in> set own) \<and> life_ok (r # own) es"
| "life_ok own (Closes r # es) \<longleftrightarrow>
     r \<in> set own \<and> (r \<in> {Res_stream, Res_detector, Res_vad} \<longrightarrow> Res_audio \<notin> set own) \<and>
     (r = Res_detector \<longrightarrow> Res_stream \<notin> set own) \<and> (r = Res_audio \<longrightarrow> Res_registration \<notin> set own) \<and> life_ok (removeAll r own) es"
| "life_ok own (Joins_wake # es) \<longleftrightarrow> Res_audio \<in> set own \<and> life_ok own es"
| "life_ok own (Hooks_audio # es) \<longleftrightarrow> {Res_audio, Res_stream, Res_detector, Res_vad} \<subseteq> set own \<and> life_ok own es"
| "life_ok own (Connects # es) \<longleftrightarrow> Res_audio \<in> set own \<and> life_ok own es"
| "life_ok own (Hooks_state # es) \<longleftrightarrow> Res_node \<in> set own \<and> life_ok own es"
| "life_ok own (Waits_ctx # es) \<longleftrightarrow> life_ok own es"

text \<open>However far the start of a node gets, everything \<open>Run\<close> opened is closed when it returns, once and in an
  order that is safe: the detector, its stream and the voice activity detector are deleted only after the audio
  node is closed, the audio node only after the node was taken from the brain, and the microphone is hooked up only
  when all of them are there. A node waits for its end only if every step before succeeded.\<close>

theorem runtime_releases:
  "life_ok [] (runtime_Run env kind) \<and>
   (Waits_ctx \<in> set (runtime_Run env kind) \<longleftrightarrow>
      (kind = ''local'' \<or> kind = ''rtc_stream'' \<and> re_signaling env = None \<and> re_audio env = None) \<and>
      re_vad env \<and> re_detector env = None \<and> re_stream env = None \<and> re_connect env = None)"
proof -
  have "life_ok [] (runtime_Run env kind)"
    by (simp add: runtime_Run_def run_vad_def run_detector_def run_audio_def run_connected_def split: option.split)
  moreover have "Waits_ctx \<in> set (runtime_Run env kind) \<longleftrightarrow>
      (kind = ''local'' \<or> kind = ''rtc_stream'' \<and> re_signaling env = None \<and> re_audio env = None) \<and>
      re_vad env \<and> re_detector env = None \<and> re_stream env = None \<and> re_connect env = None"
    by (auto simp: runtime_Run_def run_vad_def run_detector_def run_audio_def run_connected_def split: option.splits if_splits)
  ultimately show ?thesis ..
qed

end
