(* ===== verification/Recording.thy ===== *)
theory Recording
  imports Wav Paths
begin

text \<open>
  The diagnostic recorder of a node (internal/diagnostics/recording.go): a bounded window of microphone samples, and
  two files per node that are replaced whole. Memory is a list of samples; the directory is a map from paths to bytes,
  and what the operating system answers to each call of a save is an environment. SHA-256 is a parameter.
\<close>

record recorder =
  rec_dir :: string
  rec_prefix :: string
  rec_mic :: "f32 list"

abbreviation recordLimit :: nat where "recordLimit \<equiv> 16000 * 120"

definition hex_bytes :: "byte list \<Rightarrow> string" where
  "hex_bytes bs = concat (map (\<lambda>b. [hex_digit (unat b div 16), hex_digit (unat b mod 16)]) bs)"

definition NewRecorder :: "(string \<Rightarrow> byte list) \<Rightarrow> string \<Rightarrow> string \<Rightarrow> recorder option" where
  "NewRecorder sha256 dir node =
     (if dir = [] then None
      else Some \<lparr>rec_dir = dir, rec_prefix = take 16 (hex_bytes (sha256 node)), rec_mic = []\<rparr>)"

text \<open>The methods work on a nil recorder too, which is how a node without diagnostics has none.\<close>

definition recorder_Add :: "f32 list \<Rightarrow> recorder option \<Rightarrow> recorder option" where
  "recorder_Add frame r =
     (case r of
        None \<Rightarrow> None
      | Some r \<Rightarrow>
          let samples = (if recordLimit < length frame then drop (length frame - recordLimit) frame else frame);
              excess = int (length (rec_mic r)) + int (length samples) - int recordLimit;
              kept = (if 0 < excess then drop (nat excess) (rec_mic r) else rec_mic r)
          in Some (r\<lparr>rec_mic := kept @ samples\<rparr>))"

subsection \<open>Saving\<close>

type_synonym files = "string \<Rightarrow> byte list option"

text \<open>
  What the calls of turn \<open>i\<close> of the loop answered: the name of the temporary file; the error of the write with how
  many bytes reached the file (all of them without an error, as \<open>os.File\<close> documents); the errors of \<open>Close\<close> and
  \<open>Rename\<close>; whether \<open>Remove\<close> worked.
\<close>

record save_env =
  se_mkdir :: "go_error option"
  se_temp :: "nat \<Rightarrow> string result"
  se_write :: "nat \<Rightarrow> (go_error \<times> nat) option"
  se_close :: "nat \<Rightarrow> go_error option"
  se_rename :: "nat \<Rightarrow> go_error option"
  se_removed :: "nat \<Rightarrow> bool"

definition save_file :: "save_env \<Rightarrow> nat \<Rightarrow> string \<Rightarrow> f32 list \<Rightarrow> files \<Rightarrow> go_error option \<times> files" where
  "save_file env i path samples fs =
     (case se_temp env i of
        Inl err \<Rightarrow> (Some err, fs)
      | Inr name \<Rightarrow>
          let bytes = EncodeWAVFloat32 samples 16000;
              written = (case se_write env i of None \<Rightarrow> bytes | Some (_, n) \<Rightarrow> take n bytes);
              f1 = fs(name \<mapsto> written);
              e1 = map_option fst (se_write env i);
              e2 = (if e1 = None then se_close env i else e1);
              e3 = (if e2 = None then se_rename env i else e2);
              f2 = (if e2 = None \<and> e3 = None then (f1(path := f1 name))(name := None) else f1);
              f3 = (if se_removed env i then f2(name := None) else f2)
          in (e3, f3))"

definition record_path :: "recorder \<Rightarrow> string \<Rightarrow> string" where
  "record_path r suffix = path_Join [rec_dir r, rec_prefix r @ ''-'' @ suffix @ ''.wav'']"

fun save_files :: "save_env \<Rightarrow> nat \<Rightarrow> (string \<times> f32 list) list \<Rightarrow> files \<Rightarrow> go_error option \<times> files" where
  "save_files env i [] fs = (None, fs)"
| "save_files env i ((path, samples) # fs') fs =
     (case save_file env i path samples fs of
        (Some err, f) \<Rightarrow> (Some err, f)
      | (None, f) \<Rightarrow> save_files env (Suc i) fs' f)"

text \<open>The two files are ranged over as a map: \<open>mic_first\<close> is the order the runtime took.\<close>

definition recorder_Save :: "save_env \<Rightarrow> bool \<Rightarrow> f32 list \<Rightarrow> recorder option \<Rightarrow> files \<Rightarrow> go_error option \<times> files" where
  "recorder_Save env mic_first submitted r fs =
     (case r of
        None \<Rightarrow> (None, fs)
      | Some r \<Rightarrow>
          let asr = (if recordLimit < length submitted then take recordLimit submitted else submitted);
              m = (record_path r ''microphone'', rec_mic r);
              a = (record_path r ''asr'', asr)
          in (case se_mkdir env of
                Some err \<Rightarrow> (Some err, fs)
              | None \<Rightarrow> save_files env 0 (if mic_first then [m, a] else [a, m]) fs))"

subsection \<open>The window\<close>

lemma last_n_append: "last_n n (xs @ ys) = (if n < length ys then last_n n ys else last_n (n - length ys) xs @ ys)"
  by (auto simp: last_n_def)

lemma recorder_Add_window:
  assumes "r = Some q" and "rec_mic q = last_n recordLimit heard"
  shows "recorder_Add frame r = Some (q\<lparr>rec_mic := last_n recordLimit (heard @ frame)\<rparr>)"
proof -
  have "last_n (N - length frame) heard = (if 0 < int (min N (length heard)) + int (length frame) - int N
      then drop (nat (int (min N (length heard)) + int (length frame) - int N)) (last_n N heard) else last_n N heard)"
    if "length frame \<le> N" for N :: nat
    using that by (auto simp: last_n_def min_def nat_diff_distrib' intro!: arg_cong2 [of _ _ _ _ drop])
  from this [of recordLimit] show ?thesis
    using assms by (auto simp: recorder_Add_def last_n_append Let_def last_n_def min_def)
qed

lemma recorder_window:
  assumes "NewRecorder sha256 dir node = Some r"
  shows "fold recorder_Add frames (Some r) = Some (r\<lparr>rec_mic := last_n recordLimit (concat frames)\<rparr>)"
proof -
  have r: "rec_mic r = last_n recordLimit []" using assms by (auto simp: NewRecorder_def last_n_def split: if_splits)
  have "fold recorder_Add frames (Some (q :: recorder)) = Some (q\<lparr>rec_mic := last_n recordLimit (heard @ concat frames)\<rparr>)"
    if "rec_mic q = last_n recordLimit heard" for heard q
    using that
  proof (induction frames arbitrary: heard q)
    case Nil
    then show ?case by simp
  next
    case (Cons frame frames)
    let ?q = "q\<lparr>rec_mic := last_n recordLimit (heard @ frame)\<rparr>"
    have "fold recorder_Add frames (Some ?q) = Some (?q\<lparr>rec_mic := last_n recordLimit ((heard @ frame) @ concat frames)\<rparr>)"
      by (rule Cons.IH) simp
    then show ?case using recorder_Add_window [OF refl Cons.prems] by simp
  qed
  from this [OF r] show ?thesis by simp
qed

subsection \<open>The files\<close>

lemma split_on_concat: "split_on d (s @ d # t) = split_on d s @ split_on d t"
  by (induction s) (auto split: list.splits)

lemma clean_comps_snoc: "comp_ok n \<Longrightarrow> n \<noteq> ''..'' \<Longrightarrow> clean_comps r acc (cs @ [n]) = clean_comps r acc cs @ [n]"
  by (induction r acc cs rule: clean_comps.induct) (auto simp: comp_ok_def split: list.splits)

lemma join_with_snoc: "join_with d (ws @ [w]) = (if ws = [] then w else join_with d ws @ d # w)"
  by (induction d ws rule: join_with.induct) auto

text \<open>A plain name joined to a directory is the last component of the path, so two names give two paths.\<close>

lemma path_Join_name:
  assumes "dir \<noteq> []" and "comp_ok n" and "n \<noteq> ''..''"
  shows "path_Join [dir, n] = path_of (path_IsAbs dir) (path_comps dir @ [n])"
proof -
  have n: "n \<noteq> []" "slash \<notin> set n" using assms(2) by (auto simp: comp_ok_def)
  have a: "path_IsAbs (dir @ slash # n) = path_IsAbs dir" using assms(1) by (cases dir) (simp_all add: path_IsAbs_def has_prefix_def)
  have "path_comps (dir @ slash # n) = path_comps dir @ [n]"
    unfolding path_comps_def a split_on_concat using n assms clean_comps_snoc by (simp add: split_on_no)
  then show ?thesis using n assms(1) a by (simp add: path_Join_def path_Clean_def)
qed

lemma path_Join_inj:
  assumes "path_Join [dir, a] = path_Join [dir, b]" and "dir \<noteq> []"
    and "comp_ok a" "a \<noteq> ''..''" and "comp_ok b" "b \<noteq> ''..''"
  shows "a = b"
  using assms(1) unfolding path_Join_name [OF assms(2-4)] path_Join_name [OF assms(2,5,6)]
  by (auto simp: path_of_def join_with_snoc split: if_splits)

lemma hex_bytes_plain: "slash \<notin> set (hex_bytes bs)"
proof -
  have d: "hex_digit n \<noteq> slash" if "n < 16" for n
  proof
    assume "hex_digit n = slash"
    then have "(of_char (hex_digit n) :: nat) = 47" by simp
    then show False using that by (simp add: hex_digit_def split: if_splits)
  qed
  have u: "unat b div 16 < 16" for b :: byte
  proof -
    have "unat b < 2 ^ LENGTH(8)" by (rule unsigned_less)
    then show ?thesis by simp
  qed
  show ?thesis unfolding hex_bytes_def by (auto simp: d [symmetric] u)
qed

lemma record_paths_differ:
  assumes "NewRecorder sha256 dir node = Some r"
  shows "record_path r ''microphone'' \<noteq> record_path r ''asr''"
proof
  assume e: "record_path r ''microphone'' = record_path r ''asr''"
  have r: "rec_dir r \<noteq> []" "slash \<notin> set (rec_prefix r)"
    using assms hex_bytes_plain [of "sha256 node"] by (auto simp: NewRecorder_def dest: in_set_takeD split: if_splits)
  have ok: "comp_ok (rec_prefix r @ ''-'' @ suffix @ ''.wav'') \<and> rec_prefix r @ ''-'' @ suffix @ ''.wav'' \<noteq> ''..''"
    if "slash \<notin> set suffix" for suffix
    using r(2) that by (auto simp: comp_ok_def append_eq_Cons_conv)
  have "rec_prefix r @ ''-'' @ ''microphone'' @ ''.wav'' = rec_prefix r @ ''-'' @ ''asr'' @ ''.wav''"
    using path_Join_inj [OF e [unfolded record_path_def] r(1)] ok [of "''microphone''"] ok [of "''asr''"] by simp
  then show False by simp
qed

text \<open>
  A file is replaced whole: it is as it was or holds the whole recording, which it does when there is no error. One
  turn of the loop does so; the temporary file is gone if it could be removed; nothing else is touched.
\<close>

abbreviation replaced :: "files \<Rightarrow> go_error option \<Rightarrow> files \<Rightarrow> string \<Rightarrow> f32 list \<Rightarrow> bool" where
  "replaced fs err fs' path samples \<equiv>
     fs' path \<in> {fs path, Some (EncodeWAVFloat32 samples 16000)} \<and> (err = None \<longrightarrow> fs' path = Some (EncodeWAVFloat32 samples 16000))"

abbreviation cleaned :: "save_env \<Rightarrow> nat \<Rightarrow> string \<Rightarrow> bool" where
  "cleaned env i p \<equiv> se_temp env i = Inr p \<longrightarrow> se_removed env i"

lemma save_file_atomic:
  assumes "save_file env i path samples fs = (err, fs')" and "\<And>t. se_temp env i = Inr t \<Longrightarrow> t \<notin> dom fs \<and> t \<noteq> path"
  shows "replaced fs err fs' path samples" and "p \<noteq> path \<Longrightarrow> cleaned env i p \<Longrightarrow> fs' p = fs p"
proof -
  have "replaced fs err fs' path samples \<and> (p \<noteq> path \<longrightarrow> cleaned env i p \<longrightarrow> fs' p = fs p)"
  proof (cases "se_temp env i")
    case (Inl e)
    then show ?thesis using assms(1) by (auto simp: save_file_def)
  next
    case (Inr t)
    then have t: "fs t = None" "t \<noteq> path" using assms(2) by (auto simp: domIff)
    show ?thesis
      using assms(1) Inr t
      by (cases "se_write env i"; cases "se_close env i"; cases "se_rename env i"; cases "se_removed env i")
         (auto simp: save_file_def)
  qed
  then show "replaced fs err fs' path samples" and "p \<noteq> path \<Longrightarrow> cleaned env i p \<Longrightarrow> fs' p = fs p" by blast+
qed

lemma save_two:
  assumes "save_files env 0 [(p0, s0), (p1, s1)] fs = (err, fs')" and "p0 \<noteq> p1"
    and t: "\<And>i t. se_temp env i = Inr t \<Longrightarrow> t \<notin> dom fs \<and> t \<notin> {p0, p1}"
    and fresh: "\<And>i j. i < j \<Longrightarrow> se_temp env i \<noteq> se_temp env j \<or> se_removed env i"
  shows "replaced fs err fs' p0 s0 \<and> replaced fs err fs' p1 s1 \<and>
    (\<forall>p. p \<notin> {p0, p1} \<and> (\<forall>i. cleaned env i p) \<longrightarrow> fs' p = fs p)"
proof -
  obtain e0 f0 where f0: "save_file env 0 p0 s0 fs = (e0, f0)" by fastforce
  have s0: "replaced fs e0 f0 p0 s0" "\<And>p. p \<noteq> p0 \<Longrightarrow> cleaned env 0 p \<Longrightarrow> f0 p = fs p"
    using save_file_atomic [OF f0] t by blast+
  have p1: "f0 p1 = fs p1" by (rule s0(2)) (use assms(2) t [of 0 p1] in auto)
  show ?thesis
  proof (cases e0)
    case (Some e)
    then have "err = Some e" "fs' = f0" using assms(1) f0 by auto
    then show ?thesis using s0 p1 by simp
  next
    case None
    obtain e1 f1 where f1: "save_file env (Suc 0) p1 s1 f0 = (e1, f1)" by fastforce
    have u: "u \<notin> dom f0 \<and> u \<noteq> p1" if "se_temp env (Suc 0) = Inr u" for u
      using s0(2) [of u] t [OF that] fresh [of 0 "Suc 0"] that by (auto simp: domIff)
    note s1 = save_file_atomic [OF f1 u]
    have "f1 p0 = f0 p0" by (rule s1(2)) (use assms(2) t [of "Suc 0" p0] in auto)
    moreover have "err = e1" "fs' = f1" using assms(1) f0 f1 None by (cases e1; simp)+
    ultimately show ?thesis using s0 s1 p1 None by auto
  qed
qed

lemma recorder_Save_replaces:
  assumes "recorder_Save env mic_first submitted (Some q) fs = (err, fs')"
    and "record_path q ''microphone'' \<noteq> record_path q ''asr''"
    and "\<And>i t. se_temp env i = Inr t \<Longrightarrow> t \<notin> dom fs \<and> t \<notin> {record_path q ''microphone'', record_path q ''asr''}"
    and "\<And>i j. i < j \<Longrightarrow> se_temp env i \<noteq> se_temp env j \<or> se_removed env i"
  shows "replaced fs err fs' (record_path q ''microphone'') (rec_mic q) \<and>
    replaced fs err fs' (record_path q ''asr'') (take recordLimit submitted) \<and>
    (\<forall>p. p \<notin> {record_path q ''microphone'', record_path q ''asr''} \<and> (\<forall>i. cleaned env i p) \<longrightarrow> fs' p = fs p)"
proof (cases "se_mkdir env")
  case (Some e)
  then show ?thesis using assms(1) by (auto simp: recorder_Save_def Let_def)
next
  case None
  have asr: "(if recordLimit < length submitted then take recordLimit submitted else submitted) = take recordLimit submitted" by simp
  note save = assms(1) [unfolded recorder_Save_def Let_def None option.case asr]
  show ?thesis
  proof (cases mic_first)
    case True
    show ?thesis
      by (rule save_two [OF _ assms(2) assms(3,4)]) (use save True in simp_all)
  next
    case False
    have "replaced fs err fs' (record_path q ''asr'') (take recordLimit submitted) \<and>
      replaced fs err fs' (record_path q ''microphone'') (rec_mic q) \<and>
      (\<forall>p. p \<notin> {record_path q ''asr'', record_path q ''microphone''} \<and> (\<forall>i. cleaned env i p) \<longrightarrow> fs' p = fs p)"
      by (rule save_two [OF _ assms(2) [symmetric] _ assms(4)]) (use save False assms(3) in auto)
    then show ?thesis unfolding insert_commute [of "record_path q ''asr''" "record_path q ''microphone''" "{}"] by blast
  qed
qed

text \<open>C36: The recorder keeps exactly the last two minutes of microphone samples, whatever the frames were, and a save
  replaces the two files of the node whole: whatever fails, each file afterwards is the one from before or the
  complete recording, an error-free save leaves both complete, in either order of the map, and no other file has
  changed unless a temporary file could not be removed. Temporary names are fresh, as \<open>os.CreateTemp\<close> documents.\<close>

theorem recording_saved:
  assumes "NewRecorder sha256 dir node = Some r" and "fold recorder_Add frames (Some r) = Some q"
    and "recorder_Save env mic_first submitted (Some q) fs = (err, fs')"
    and "\<And>i t. se_temp env i = Inr t \<Longrightarrow> t \<notin> dom fs \<and> t \<notin> {record_path r ''microphone'', record_path r ''asr''}"
    and "\<And>i j. i < j \<Longrightarrow> se_temp env i \<noteq> se_temp env j \<or> se_removed env i"
  shows "length (rec_mic q) = min 1920000 (length (concat frames)) \<and> (\<exists>old. concat frames = old @ rec_mic q) \<and>
    replaced fs err fs' (record_path r ''microphone'') (rec_mic q) \<and>
    replaced fs err fs' (record_path r ''asr'') (take 1920000 submitted) \<and>
    (\<forall>p. p \<notin> {record_path r ''microphone'', record_path r ''asr''} \<and> (\<forall>i. cleaned env i p) \<longrightarrow> fs' p = fs p)"
proof -
  have q: "q = r\<lparr>rec_mic := last_n recordLimit (concat frames)\<rparr>" using recorder_window [OF assms(1)] assms(2) by simp
  have paths: "record_path r suffix = record_path q suffix" for suffix by (simp add: q record_path_def)
  have "\<exists>old. concat frames = old @ last_n recordLimit (concat frames)"
    unfolding last_n_def by (metis append_take_drop_id)
  then show ?thesis
    using recorder_Save_replaces [OF assms(3) _ _ assms(5)] record_paths_differ [OF assms(1)] assms(4) unfolding paths
    by (simp add: q)
qed

text \<open>A save whose first rename fails leaves the old files and no temporary one.\<close>

definition sample_save :: save_env where
  "sample_save =
     \<lparr>se_mkdir = None, se_temp = (\<lambda>i. Inr (''/rec/.recording-'' @ show_nat i)), se_write = (\<lambda>_. None), se_close = (\<lambda>_. None),
      se_rename = (\<lambda>_. Some (Msg ''read-only file system'')), se_removed = (\<lambda>_. True)\<rparr>"

theorem recording_saved_witness:
  "\<exists>r q fs'. NewRecorder (\<lambda>_. []) ''/rec'' ''kitchen'' = Some r \<and> fold recorder_Add [[Fin 1], [Fin 2]] (Some r) = Some q \<and>
     recorder_Save sample_save True [Fin 1] (Some q) Map.empty = (Some (Msg ''read-only file system''), fs') \<and>
     fs' (record_path r ''asr'') \<in> {None, Some (EncodeWAVFloat32 [Fin 1] 16000)} \<and> fs' ''/rec/.recording-0'' = None"
proof -
  let ?r = "\<lparr>rec_dir = ''/rec'', rec_prefix = [], rec_mic = []\<rparr>"
  have r: "NewRecorder (\<lambda>_. []) ''/rec'' ''kitchen'' = Some ?r" by (simp add: NewRecorder_def hex_bytes_def)
  obtain q where q: "fold recorder_Add [[Fin 1], [Fin 2]] (Some ?r) = Some q" using recorder_window [OF r] by blast
  obtain err fs' where s: "recorder_Save sample_save True [Fin 1] (Some q) Map.empty = (err, fs')" by fastforce
  have e: "err = Some (Msg ''read-only file system'')"
    using s by (auto simp: recorder_Save_def sample_save_def save_file_def Let_def)
  have paths: "record_path ?r ''microphone'' = ''/rec/-microphone.wav''" "record_path ?r ''asr'' = ''/rec/-asr.wav''" by code_simp+
  have t: "t \<notin> dom (Map.empty :: files) \<and> t \<notin> {record_path ?r ''microphone'', record_path ?r ''asr''}"
    if "se_temp sample_save i = Inr t" for i t
    using that unfolding paths by (auto simp: sample_save_def)
  have c: "se_temp sample_save i \<noteq> se_temp sample_save j \<or> se_removed sample_save i" for i j by (simp add: sample_save_def)
  have "''/rec/.recording-0'' \<notin> {record_path ?r ''microphone'', record_path ?r ''asr''}" unfolding paths by simp
  moreover have "\<forall>i. cleaned sample_save i ''/rec/.recording-0''" by (simp add: sample_save_def)
  ultimately show ?thesis using recording_saved [OF r q s t c] r q s e by (intro exI [of _ ?r] exI [of _ q] exI [of _ fs']) auto
qed

end
