(* ===== verification/Watch.thy ===== *)
theory Watch
  imports Paths
begin

text \<open>
  The watcher of the speaker profiles (internal/config/watcher.go): a loop that waits for the file system and starts a
  reload once the directory has been quiet for half a second. fsnotify, the directory walk and the reload are
  parameters. The loop is a machine over the clock; each arm of its \<open>select\<close> is one function, and the relation says
  when it can run. \<open>dw_seen\<close> records every event with the time it was received, \<open>dw_changes\<close> and \<open>dw_reloads\<close> record when a relevant event arrived and when a reload began, the
  latest first.
\<close>

datatype fs_op = Fs_Create | Fs_Write | Fs_Remove | Fs_Rename | Fs_Chmod

record fs_event =
  fe_Name :: string
  fe_Op :: "fs_op list"

definition event_Has :: "fs_op \<Rightarrow> fs_event \<Rightarrow> bool" where
  "event_Has op e \<longleftrightarrow> op \<in> set (fe_Op e)"

text \<open>
  \<open>addDirectories\<close> over what \<open>WalkDir\<close> visits, in its order: a path with an error, a directory or a file. It gives the
  error it stopped at and the directories it added.
\<close>

fun addDirectories :: "(string \<Rightarrow> go_error option) \<Rightarrow> (string \<times> bool result) list \<Rightarrow> go_error option \<times> string list" where
  "addDirectories add [] = (None, [])"
| "addDirectories add ((path, entry) # visits) =
     (case entry of
        Inl err \<Rightarrow> (Some err, [])
      | Inr is_dir \<Rightarrow>
          if is_dir then
            (case add path of
               Some err \<Rightarrow> (Some err, [])
             | None \<Rightarrow> (case addDirectories add visits of (e, ds) \<Rightarrow> (e, path # ds)))
          else addDirectories add visits)"

datatype watch_phase = Watch_loop | Watch_reloading | Watch_exited

record dir_watcher =
  dw_now :: duration
  dw_ctx :: ctx_err
  dw_dirs :: "string list"
  dw_timer :: "duration option"
  dw_tick :: bool
  dw_phase :: watch_phase
  dw_stopped :: bool
  dw_seen :: "(duration \<times> fs_event) list"
  dw_changes :: "duration list"
  dw_reloads :: "duration list"

definition WatchSpeakers ::
    "go_error option \<Rightarrow> (string \<Rightarrow> go_error option) \<Rightarrow> (string \<times> bool result) list \<Rightarrow> duration \<Rightarrow> ctx_err \<Rightarrow> dir_watcher result" where
  "WatchSpeakers newWatcher add visits now parent_ctx =
     (case newWatcher of
        Some err \<Rightarrow> Inl err
      | None \<Rightarrow>
          (case addDirectories add visits of
             (Some err, _) \<Rightarrow> Inl err
           | (None, dirs) \<Rightarrow>
               Inr \<lparr>dw_now = now, dw_ctx = parent_ctx, dw_dirs = dirs, dw_timer = None, dw_tick = False, dw_phase = Watch_loop,
                    dw_stopped = False, dw_seen = [], dw_changes = [], dw_reloads = []\<rparr>))"

definition watch_relevant :: "fs_event \<Rightarrow> bool" where
  "watch_relevant e \<longleftrightarrow> equal_fold (path_Ext (fe_Name e)) ''.wav'' \<or> event_Has Fs_Remove e \<or> event_Has Fs_Rename e"

abbreviation watchQuiet :: duration where "watchQuiet \<equiv> 500 * millisecond"

definition watch_event :: "(string \<Rightarrow> go_error option) \<Rightarrow> (string \<times> bool result) list \<Rightarrow> fs_event \<Rightarrow> dir_watcher \<Rightarrow> dir_watcher" where
  "watch_event add visits e w =
     (let w1 = (if event_Has Fs_Create e then w\<lparr>dw_dirs := dw_dirs w @ snd (addDirectories add visits), dw_seen := (dw_now w, e) # dw_seen w\<rparr>
                else w\<lparr>dw_seen := (dw_now w, e) # dw_seen w\<rparr>)
      in if watch_relevant e
         then w1\<lparr>dw_timer := Some (dw_now w + watchQuiet), dw_tick := True, dw_changes := dw_now w # dw_changes w\<rparr>
         else w1)"

text \<open>The timer has expired: the channel is dropped, and a reload begins unless the context is over.\<close>

definition watch_tick :: "dir_watcher \<Rightarrow> dir_watcher" where
  "watch_tick w =
     (let w1 = w\<lparr>dw_tick := False, dw_timer := None\<rparr>
      in if dw_ctx w = None then w1\<lparr>dw_phase := Watch_reloading, dw_reloads := dw_now w # dw_reloads w\<rparr> else w1)"

definition watch_exit :: "dir_watcher \<Rightarrow> dir_watcher" where
  "watch_exit w = w\<lparr>dw_phase := Watch_exited, dw_timer := None\<rparr>"

definition watch_cancel :: "go_error \<Rightarrow> dir_watcher \<Rightarrow> dir_watcher" where
  "watch_cancel e w = (if dw_ctx w = None then w\<lparr>dw_ctx := Some e\<rparr> else w)"

inductive watch_step :: "dir_watcher \<Rightarrow> dir_watcher \<Rightarrow> bool" where
  watch_time: "dw_now w \<le> t \<Longrightarrow> watch_step w (w\<lparr>dw_now := t\<rparr>)"
| watch_events: "dw_phase w = Watch_loop \<Longrightarrow> watch_step w (watch_event add visits e w)"
| watch_ticks: "dw_phase w = Watch_loop \<Longrightarrow> dw_tick w \<Longrightarrow> dw_timer w = Some d \<Longrightarrow> d \<le> dw_now w \<Longrightarrow> watch_step w (watch_tick w)"
| watch_reloaded: "dw_phase w = Watch_reloading \<Longrightarrow> watch_step w (w\<lparr>dw_phase := Watch_loop\<rparr>)"
| watch_channel_closed: "dw_phase w = Watch_loop \<Longrightarrow> watch_step w (watch_exit w)"
| watch_done: "dw_phase w = Watch_loop \<Longrightarrow> dw_ctx w \<noteq> None \<Longrightarrow> watch_step w (watch_exit w)"
| watch_parent: "watch_step w (watch_cancel e w)"
| watch_stop_returns: "dw_phase w = Watch_exited \<Longrightarrow> dw_ctx w \<noteq> None \<Longrightarrow> watch_step w (w\<lparr>dw_stopped := True\<rparr>)"

inductive_cases watch_stepE: "watch_step w w'"

lemmas watch_defs = watch_event_def watch_tick_def watch_exit_def watch_cancel_def

subsection \<open>Properties\<close>

text \<open>Every earlier change was answered by a reload, or the latest one has the timer running.\<close>

definition watch_served :: "dir_watcher \<Rightarrow> bool" where
  "watch_served w \<longleftrightarrow>
     (\<forall>c \<in> set (dw_changes w). \<exists>r \<in> set (dw_reloads w). c + watchQuiet \<le> r) \<or>
     dw_tick w \<and> dw_changes w \<noteq> [] \<and> dw_timer w = Some (hd (dw_changes w) + watchQuiet) \<or> dw_ctx w \<noteq> None"

definition watch_quiet :: "dir_watcher \<Rightarrow> bool" where
  "watch_quiet w \<longleftrightarrow>
     (\<forall>r \<in> set (dw_reloads w). (\<exists>c \<in> set (dw_changes w). c + watchQuiet \<le> r) \<and>
        (\<forall>c \<in> set (dw_changes w). c < r \<longrightarrow> c + watchQuiet \<le> r))"

text \<open>An event that may change a profile: a WAV file by its extension, or a name that is gone.\<close>

definition profile_event :: "fs_event \<Rightarrow> bool" where
  "profile_event e \<longleftrightarrow>
     to_lower (path_Ext (fe_Name e)) = ''.wav'' \<or> Fs_Remove \<in> set (fe_Op e) \<or> Fs_Rename \<in> set (fe_Op e)"

definition changes_of :: "(duration \<times> fs_event) list \<Rightarrow> duration list \<Rightarrow> bool" where
  "changes_of seen changes \<longleftrightarrow> changes = map fst (filter (\<lambda>(t, e). profile_event e) seen)"

lemma changes_of_simps [simp]:
  "changes_of [] []" "profile_event e \<Longrightarrow> changes_of ((t, e) # seen) (t # changes) \<longleftrightarrow> changes_of seen changes"
  "\<not> profile_event e \<Longrightarrow> changes_of ((t, e) # seen) changes \<longleftrightarrow> changes_of seen changes"
  by (simp_all add: changes_of_def)

definition watch_inv :: "dir_watcher \<Rightarrow> bool" where
  "watch_inv w \<longleftrightarrow>
     changes_of (dw_seen w) (dw_changes w) \<and>
     (dw_phase w \<noteq> Watch_exited \<longrightarrow> watch_served w) \<and> watch_quiet w \<and>
     (\<forall>c \<in> set (dw_changes w). c \<le> dw_now w \<and> c \<le> hd (dw_changes w)) \<and>
     (\<forall>r \<in> set (dw_reloads w). r \<le> dw_now w) \<and>
     (dw_phase w \<noteq> Watch_exited \<and> dw_tick w \<longrightarrow> dw_phase w = Watch_loop \<and> dw_changes w \<noteq> [] \<and> dw_timer w = Some (hd (dw_changes w) + watchQuiet)) \<and>
     length (dw_reloads w) + (if dw_tick w then 1 else 0) \<le> length (dw_changes w) \<and>
     (dw_stopped w \<longrightarrow> dw_phase w = Watch_exited \<and> dw_ctx w \<noteq> None)"

lemma watch_relevant_iff: "watch_relevant e \<longleftrightarrow> profile_event e"
proof -
  have "to_lower ''.wav'' = ''.wav''" by code_simp
  then show ?thesis by (simp add: watch_relevant_def profile_event_def equal_fold_def event_Has_def)
qed

lemma watch_event_inv:
  assumes "watch_inv w" and "dw_phase w = Watch_loop"
  shows "watch_inv (watch_event add visits e w)"
proof (cases "watch_relevant e")
  case False
  then show ?thesis using assms by (simp add: watch_event_def watch_inv_def watch_served_def watch_quiet_def Let_def watch_relevant_iff)
next
  case True
  have "length (dw_reloads w) \<le> length (dw_changes w)" using assms(1) by (simp add: watch_inv_def split: if_splits)
  moreover have "\<not> dw_now w < r" if "r \<in> set (dw_reloads w)" for r using assms(1) that by (auto simp: watch_inv_def not_less)
  ultimately show ?thesis using True assms
    by (simp add: watch_event_def watch_inv_def watch_served_def watch_quiet_def Let_def watch_relevant_iff)
qed

lemma watch_tick_inv:
  assumes "watch_inv w" and "dw_phase w = Watch_loop" and "dw_tick w" and "dw_timer w = Some d" and "d \<le> dw_now w"
  shows "watch_inv (watch_tick w)"
proof -
  have c: "dw_changes w \<noteq> []" "hd (dw_changes w) + watchQuiet \<le> dw_now w" "\<forall>c \<in> set (dw_changes w). c + watchQuiet \<le> dw_now w"
    using assms by (auto simp: watch_inv_def)
  then have "\<exists>c \<in> set (dw_changes w). c + watchQuiet \<le> dw_now w" by (metis hd_in_set)
  with c show ?thesis using assms
    by (cases "dw_ctx w") (simp_all add: watch_tick_def watch_inv_def watch_served_def watch_quiet_def Let_def)
qed

lemma watch_step_inv: "watch_inv w \<Longrightarrow> watch_step w w' \<Longrightarrow> watch_inv w'"
proof (erule watch_stepE, goal_cases)
  case (1 t)
  then show ?case by (fastforce simp: watch_inv_def watch_served_def watch_quiet_def)
next
  case (2 add visits e)
  then show ?case using watch_event_inv by blast
next
  case (3 d)
  then show ?case using watch_tick_inv by blast
qed (auto simp: watch_inv_def watch_served_def watch_quiet_def watch_exit_def watch_cancel_def)

interpretation watch_machine: machine "\<lambda>w. \<exists>nw add visits now ctx. WatchSpeakers nw add visits now ctx = Inr w" watch_step watch_inv
proof
  fix w
  assume "\<exists>nw add visits now ctx. WatchSpeakers nw add visits now ctx = Inr w"
  then show "watch_inv w"
    by (auto simp: WatchSpeakers_def watch_inv_def watch_served_def watch_quiet_def split: option.splits prod.splits)
qed (rule watch_step_inv)



text \<open>A directory of profiles that is moved into place is only created as far as the watcher sees: no reload follows.\<close>

lemma watch_directory_silent:
  "watch_event add visits \<lparr>fe_Name = ''/p/eva'', fe_Op = [Fs_Create]\<rparr> w =
     w\<lparr>dw_dirs := dw_dirs w @ snd (addDirectories add visits),
       dw_seen := (dw_now w, \<lparr>fe_Name = ''/p/eva'', fe_Op = [Fs_Create]\<rparr>) # dw_seen w\<rparr>"
proof -
  have "\<not> watch_relevant \<lparr>fe_Name = ''/p/eva'', fe_Op = [Fs_Create]\<rparr>" by code_simp
  then show ?thesis by (simp add: watch_event_def event_Has_def)
qed

end
