(* ===== verification/Local_Audio.thy ===== *)
theory Local_Audio
  imports Config Audio_Source Wav Paths "HOL-Library.Sublist"
begin

text \<open>
  The local sound card (internal/localaudio/localaudio.go): the device a name stands for, capture through
  \<open>arecord\<close>, playback through \<open>aplay\<close>, and the life of the recorder process. The programs are parameters: what
  \<open>-l\<close> prints, whether a process starts, what its pipe gives or takes, and what \<open>Wait\<close> answers.
\<close>

subsection \<open>Devices\<close>

text \<open>
  The pattern \<open>card\s+(\d+):\s+([^\s\[]+)\s+\[([^\]]+)\]\<close> at one position. Each repetition is followed by a
  character it cannot match itself, so taking the longest run is the only way to match.
\<close>

definition re_space :: "char \<Rightarrow> bool" where
  "re_space c \<longleftrightarrow> (of_char c :: nat) \<in> {9, 10, 12, 13, 32}"

definition re_digit :: "char \<Rightarrow> bool" where
  "re_digit c \<longleftrightarrow> 48 \<le> (of_char c :: nat) \<and> (of_char c :: nat) \<le> 57"

text \<open>A non-empty run, and a single character.\<close>

definition re_many :: "(char \<Rightarrow> bool) \<Rightarrow> string \<Rightarrow> (string \<times> string) option" where
  "re_many P s = (if takeWhile P s = [] then None else Some (takeWhile P s, dropWhile P s))"

fun re_char :: "char \<Rightarrow> string \<Rightarrow> string option" where
  "re_char c [] = None"
| "re_char c (d # s) = (if c = d then Some s else None)"

definition card_here :: "string \<Rightarrow> (string \<times> string \<times> string) option" where
  "card_here s =
     (if \<not> has_prefix s ''card'' then None else
      (case re_many re_space (drop 4 s) of None \<Rightarrow> None | Some (_, s1) \<Rightarrow>
      (case re_many re_digit s1 of None \<Rightarrow> None | Some (num, s2) \<Rightarrow>
      (case re_char (CHR '':'') s2 of None \<Rightarrow> None | Some s3 \<Rightarrow>
      (case re_many re_space s3 of None \<Rightarrow> None | Some (_, s4) \<Rightarrow>
      (case re_many (\<lambda>c. \<not> re_space c \<and> c \<noteq> CHR ''['') s4 of None \<Rightarrow> None | Some (short, s5) \<Rightarrow>
      (case re_many re_space s5 of None \<Rightarrow> None | Some (_, s6) \<Rightarrow>
      (case re_char (CHR ''['') s6 of None \<Rightarrow> None | Some s7 \<Rightarrow>
      (case re_many (\<lambda>c. c \<noteq> CHR '']'') s7 of None \<Rightarrow> None | Some (long, s8) \<Rightarrow>
      (case re_char (CHR '']'') s8 of None \<Rightarrow> None | Some _ \<Rightarrow> Some (num, short, long)))))))))))"

fun card_of_line :: "string \<Rightarrow> (string \<times> string \<times> string) option" where
  "card_of_line [] = card_here []"
| "card_of_line (c # s) = (case card_here (c # s) of Some m \<Rightarrow> Some m | None \<Rightarrow> card_of_line s)"

definition card_matches :: "string \<Rightarrow> string \<times> string \<times> string \<Rightarrow> bool" where
  "card_matches device m =
     (case m of (num, short, long) \<Rightarrow>
        contains (to_lower short) (to_lower device) \<or> contains (to_lower long) (to_lower device) \<or> contains (to_lower num) (to_lower device))"

fun alsa_scan :: "string \<Rightarrow> string list \<Rightarrow> string" where
  "alsa_scan device [] = ''default''"
| "alsa_scan device (line # rest) =
     (case card_of_line line of
        Some (num, short, long) \<Rightarrow>
          if card_matches device (num, short, long) then ''plughw:'' @ short else alsa_scan device rest
      | None \<Rightarrow> alsa_scan device rest)"

text \<open>\<open>listing\<close> is what the command of the given name printed.\<close>

definition resolveALSADevice :: "(string \<Rightarrow> string result) \<Rightarrow> string \<Rightarrow> bool \<Rightarrow> string" where
  "resolveALSADevice listing device is_capture =
     (if device = [] \<or> to_lower device = ''default'' then ''default''
      else case listing (if is_capture then ''arecord'' else ''aplay'') of
        Inl _ \<Rightarrow> ''default''
      | Inr out \<Rightarrow> alsa_scan device (split_on (CHR 0x0A) out))"

text \<open>A device named by its index is looked for in the names too, so a card before it can take its place.\<close>

lemma alsa_index_in_name:
  "resolveALSADevice (\<lambda>_. Inr (''card 0: U1 [USB 1], device 0'' @ CHR 0x0A # ''card 1: PCH [HDA Intel], device 0'')) ''1'' True = ''plughw:U1''"
  by code_simp

subsection \<open>Capture\<close>

text \<open>A chunk of 640 bytes is 20 ms of samples; a gain other than 1 is applied and clamped.\<close>

definition capture_gain :: "f32 \<Rightarrow> f32 \<Rightarrow> f32" where
  "capture_gain gain x =
     (if f_lt (Fin 0) gain \<and> \<not> f_eq gain (Fin 1) then
        (let y = f_mul float32 x gain
         in if f_lt (Fin 1) y then Fin 1 else if f_lt y (Fin (- 1)) then Fin (- 1) else y)
      else x)"

definition capture_chunk :: "f32 \<Rightarrow> byte list \<Rightarrow> f32 list" where
  "capture_chunk gain bytes = map (\<lambda>s. capture_gain gain (int16ToFloat s)) (wav_samples bytes)"

subsection \<open>Playback\<close>

text \<open>
  What the pipe of \<open>aplay\<close> answered to the write of turn \<open>i\<close>, with how many bytes it took (all without an error,
  as \<open>io.Writer\<close> documents). The context is asked twice a turn: by the loop and by the read. A source that gave more
  than it was asked for would be a panic, the outcome \<open>None\<close>.
\<close>

partial_function (option) aplay_loop ::
    "'s reader \<Rightarrow> (nat \<Rightarrow> ctx_err) \<Rightarrow> (nat \<Rightarrow> (go_error \<times> nat) option) \<Rightarrow> nat \<Rightarrow> 's \<Rightarrow> byte list \<Rightarrow> (go_error option \<times> 's \<times> byte list) option" where
  "aplay_loop read ctx wr i src out =
     (case ctx (2 * i) of
        Some err \<Rightarrow> Some (Some err, src, out)
      | None \<Rightarrow>
          (case read (ctx (2 * i + 1)) 1024 src of
             ((chunk, readErr), src') \<Rightarrow>
               if 1024 < length chunk then None else
               let bytes = concat (map sample_bytes chunk);
                   w = (if chunk \<noteq> [] then wr i else None)
               in (case w of
                     Some (err, n) \<Rightarrow> Some (Some err, src', out @ take n bytes)
                   | None \<Rightarrow>
                       if readErr = Some Io_EOF then Some (None, src', out @ bytes)
                       else if readErr \<noteq> None then Some (readErr, src', out @ bytes)
                       else aplay_loop read ctx wr (Suc i) src' (out @ bytes))))"

record aplay_env =
  ap_closed :: bool
  ap_pipe :: "go_error option"
  ap_start :: "go_error option"
  ap_ctx :: "nat \<Rightarrow> ctx_err"
  ap_write :: "nat \<Rightarrow> (go_error \<times> nat) option"
  ap_wait :: "go_error option"
  ap_ctx_end :: ctx_err

text \<open>The error, the source, and what \<open>aplay\<close> was given; the deferred calls kill and reap the process on every path.\<close>

definition local_PlayStream :: "'s reader \<Rightarrow> aplay_env \<Rightarrow> 's \<Rightarrow> (go_error option \<times> 's \<times> byte list) option" where
  "local_PlayStream read env src =
     (if ap_closed env then Some (Some (Msg ''audio node is closed''), src, [])
      else case ap_pipe env of
        Some err \<Rightarrow> Some (Some (Wrap ''failed to create aplay stdin pipe: '' err), src, [])
      | None \<Rightarrow>
          (case ap_start env of
             Some err \<Rightarrow> Some (Some (Wrap ''failed to start aplay: '' err), src, [])
           | None \<Rightarrow>
               (case aplay_loop read (ap_ctx env) (ap_write env) 0 src [] of
                  None \<Rightarrow> None
                | Some (Some err, src', out) \<Rightarrow> Some (Some err, src', out)
                | Some (None, src', out) \<Rightarrow>
                    (case ap_wait env of
                       None \<Rightarrow> Some (None, src', out)
                     | Some err \<Rightarrow>
                         Some (Some (case ap_ctx_end env of Some cerr \<Rightarrow> cerr | None \<Rightarrow> Wrap ''aplay failed: '' err), src', out)))))"

definition local_Play :: "aplay_env \<Rightarrow> i16 list \<Rightarrow> int \<Rightarrow> (go_error option \<times> slice_source \<times> byte list) option" where
  "local_Play env pcm16 sampleRate = local_PlayStream slice_ReadPCM16 env (NewSliceSource pcm16 sampleRate)"

context pcm_source begin

lemma aplay_loop_ends:
  assumes "ok s" and "\<forall>i. ctx i \<noteq> Some Io_EOF"
  shows "\<exists>e s' given. aplay_loop read ctx wr i s out = Some (e, s', out @ given) \<and>
    prefix given (concat (map sample_bytes (rest s))) \<and> (e = None \<longrightarrow> given = concat (map sample_bytes (rest s)) \<and> rest s' = [])"
  using assms(1)
proof (induction "length (rest s)" arbitrary: i s out rule: less_induct)
  case less
  show ?case
  proof (cases "ctx (2 * i)")
    case (Some err)
    then show ?thesis by (subst aplay_loop.simps) simp
  next
    case c0: None
    show ?thesis
    proof (cases "ctx (2 * i + 1)")
      case (Some err)
      then have "read (ctx (2 * i + 1)) 1024 s = (([], Some err), s)" "err \<noteq> Io_EOF"
        using read_dead [OF less.prems, of err] assms(2) by auto
      then show ?thesis using c0 by (subst aplay_loop.simps) simp
    next
      case None
      obtain c e s1 where r: "read None 1024 s = ((c, e), s1)" by (metis surj_pair)
      note l = read_live [OF less.prems _ r]
      let ?b = "concat (map sample_bytes c)"
      have unfold: "aplay_loop read ctx wr i s out =
          (case (if c \<noteq> [] then wr i else None) of
             Some (err, n) \<Rightarrow> Some (Some err, s1, out @ take n ?b)
           | None \<Rightarrow> if e = Some Io_EOF then Some (None, s1, out @ ?b) else if e \<noteq> None then Some (e, s1, out @ ?b)
               else aplay_loop read ctx wr (Suc i) s1 (out @ ?b))"
        unfolding aplay_loop.simps [of read ctx wr i s out] c0 None r using l by (simp add: Let_def)
      show ?thesis
      proof (cases "if c \<noteq> [] then wr i else None")
        case (Some w)
        then show ?thesis using unfold l by (cases w) (auto simp: take_is_prefix intro!: prefix_prefix)
      next
        case w: None
        show ?thesis
        proof (cases e)
          case (Some err)
          then show ?thesis using unfold w l by auto
        next
          case e: None
          then have s1: "length (rest s1) < length (rest s)" "ok s1" using l by auto
          from less.hyps [OF this, of "Suc i" "out @ ?b"] obtain e' s' given where
            "aplay_loop read ctx wr (Suc i) s1 (out @ ?b) = Some (e', s', (out @ ?b) @ given)"
            "prefix given (concat (map sample_bytes (rest s1)))"
            "e' = None \<longrightarrow> given = concat (map sample_bytes (rest s1)) \<and> rest s' = []" by blast
          then show ?thesis using unfold w e l by (intro exI [of _ e'] exI [of _ s'] exI [of _ "?b @ given"]) simp
        qed
      qed
    qed
  qed
qed

end

subsection \<open>The recorder process\<close>

text \<open>
  A reader is at the top of its loop, in \<open>io.ReadFull\<close>, past the loop with its deferred calls ahead, past the one that
  reaps the process and clears \<open>running\<close>, or done. \<open>ln_done\<close> names the last reader, whose channel \<open>Close\<close> waits for;
  \<open>ln_late\<close> counts the chunks the callback was given since \<open>Close\<close> began.
\<close>

datatype reader_phase = Rd_top | Rd_reading | Rd_ending | Rd_reaped | Rd_done

record local_node =
  ln_closed :: bool
  ln_running :: bool
  ln_callback :: bool
  ln_readers :: "reader_phase list"
  ln_args :: "(int \<times> string) list"
  ln_heard :: "f32 list list"
  ln_late :: nat
  ln_returned :: bool

definition local_New :: local_node where
  "local_New = \<lparr>ln_closed = False, ln_running = False, ln_callback = False, ln_readers = [], ln_args = [], ln_heard = [],
     ln_late = 0, ln_returned = False\<rparr>"

definition ln_done :: "local_node \<Rightarrow> nat option" where
  "ln_done l = (if ln_readers l = [] then None else Some (length (ln_readers l) - 1))"

text \<open>\<open>Connect\<close> holds the mutex throughout; the answers are those of the pipe and of the start of \<open>arecord\<close>.\<close>

definition local_Connect ::
    "(string \<Rightarrow> string result) \<Rightarrow> audio_config \<Rightarrow> go_error option \<Rightarrow> go_error option \<Rightarrow> local_node \<Rightarrow> go_error option \<times> local_node" where
  "local_Connect listing au pipe start l =
     (if ln_closed l then (Some (Msg ''audio node is closed''), l)
      else if ln_running l then (None, l)
      else
        let device = resolveALSADevice listing (au_InputDeviceIndex au) True;
            sampleRate = (if au_SampleRate au \<le> 0 then 16000 else au_SampleRate au)
        in (case pipe of
              Some err \<Rightarrow> (Some (Wrap ''failed to create arecord stdout pipe: '' err), l)
            | None \<Rightarrow>
                (case start of
                   Some err \<Rightarrow> (Some (Wrap ''failed to start arecord: '' err), l)
                 | None \<Rightarrow>
                     (None, l\<lparr>ln_running := True, ln_readers := ln_readers l @ [Rd_top], ln_args := ln_args l @ [(sampleRate, device)]\<rparr>))))"

definition reader_top :: "nat \<Rightarrow> local_node \<Rightarrow> local_node" where
  "reader_top i l = l\<lparr>ln_readers := (ln_readers l)[i := if ln_running l then Rd_reading else Rd_ending]\<rparr>"

text \<open>The end of a read: a whole chunk, or an error, the end of the recording included.\<close>

definition reader_read :: "f32 \<Rightarrow> byte list option \<Rightarrow> nat \<Rightarrow> local_node \<Rightarrow> local_node" where
  "reader_read gain chunk i l =
     (case chunk of
        None \<Rightarrow> l\<lparr>ln_readers := (ln_readers l)[i := Rd_ending]\<rparr>
      | Some bytes \<Rightarrow>
          let l1 = l\<lparr>ln_readers := (ln_readers l)[i := Rd_top]\<rparr>
          in if ln_callback l
             then l1\<lparr>ln_heard := ln_heard l @ [capture_chunk gain bytes], ln_late := ln_late l + (if ln_closed l then 1 else 0)\<rparr>
             else l1)"

definition reader_reaps :: "nat \<Rightarrow> local_node \<Rightarrow> local_node" where
  "reader_reaps i l = l\<lparr>ln_running := False, ln_readers := (ln_readers l)[i := Rd_reaped]\<rparr>"

definition reader_done :: "nat \<Rightarrow> local_node \<Rightarrow> local_node" where
  "reader_done i l = l\<lparr>ln_readers := (ln_readers l)[i := Rd_done]\<rparr>"

definition local_OnAudio :: "local_node \<Rightarrow> local_node" where
  "local_OnAudio l = l\<lparr>ln_callback := True\<rparr>"

text \<open>\<open>Close\<close> up to its wait, which also cancels the process and closes the pipe, and the end of the wait.\<close>

definition local_Close :: "local_node \<Rightarrow> local_node" where
  "local_Close l = l\<lparr>ln_closed := True, ln_running := False\<rparr>"

definition close_may_return :: "local_node \<Rightarrow> bool" where
  "close_may_return l \<longleftrightarrow> (case ln_done l of None \<Rightarrow> True | Some i \<Rightarrow> ln_readers l ! i = Rd_done)"

abbreviation at_phase :: "nat \<Rightarrow> reader_phase \<Rightarrow> local_node \<Rightarrow> bool" where
  "at_phase i ph l \<equiv> i < length (ln_readers l) \<and> ln_readers l ! i = ph"

inductive ln_step :: "local_node \<Rightarrow> local_node \<Rightarrow> bool" where
  ln_connect: "ln_step l (snd (local_Connect listing au pipe start l))"
| ln_top: "at_phase i Rd_top l \<Longrightarrow> ln_step l (reader_top i l)"
| ln_read: "at_phase i Rd_reading l \<Longrightarrow> ln_step l (reader_read gain chunk i l)"
| ln_reaps: "at_phase i Rd_ending l \<Longrightarrow> ln_step l (reader_reaps i l)"
| ln_dones: "at_phase i Rd_reaped l \<Longrightarrow> ln_step l (reader_done i l)"
| ln_on_audio: "ln_step l (local_OnAudio l)"
| ln_close: "ln_step l (local_Close l)"
| ln_close_returns: "ln_closed l \<Longrightarrow> close_may_return l \<Longrightarrow> ln_step l (l\<lparr>ln_returned := True\<rparr>)"

inductive_cases ln_stepE: "ln_step l l'"

text \<open>A recorder process lives from the start until its reader has reaped it.\<close>

abbreviation rd_alive :: "reader_phase \<Rightarrow> bool" where
  "rd_alive ph \<equiv> ph = Rd_top \<or> ph = Rd_reading \<or> ph = Rd_ending"

definition rd_last_only :: "reader_phase list \<Rightarrow> bool" where
  "rd_last_only rs \<longleftrightarrow> (\<forall>ph \<in> set (butlast rs). \<not> rd_alive ph)"

definition ln_inv :: "local_node \<Rightarrow> bool" where
  "ln_inv l \<longleftrightarrow>
     rd_last_only (ln_readers l) \<and> (ln_running l \<longrightarrow> ln_readers l \<noteq> [] \<and> rd_alive (last (ln_readers l))) \<and>
     (\<not> ln_closed l \<and> \<not> ln_running l \<and> ln_readers l \<noteq> [] \<longrightarrow> \<not> rd_alive (last (ln_readers l))) \<and>
     (ln_closed l \<longrightarrow> \<not> ln_running l) \<and> (\<not> ln_closed l \<longrightarrow> ln_late l = 0) \<and>
     ln_late l + (if ln_closed l \<and> ln_readers l \<noteq> [] \<and> last (ln_readers l) = Rd_reading then 1 else 0) \<le> 1 \<and>
     (ln_returned l \<longrightarrow> ln_closed l \<and> close_may_return l)"

lemma rd_split:
  assumes "rd_last_only rs" and "i < length rs" and "rs ! i = ph" and "rd_alive ph"
  shows "\<exists>bs. rs = bs @ [ph] \<and> i = length bs \<and> (\<forall>b \<in> set bs. \<not> rd_alive b)"
proof -
  obtain bs x where rs: "rs = bs @ [x]" using assms(2) by (cases rs rule: rev_cases) auto
  have old: "\<forall>b \<in> set bs. \<not> rd_alive b" using assms(1) unfolding rs rd_last_only_def butlast_snoc .
  have "\<not> i < length bs"
  proof
    assume i: "i < length bs"
    then have "bs ! i = ph" using assms(3) by (simp add: rs nth_append)
    then have "\<not> rd_alive ph" using old nth_mem [OF i] by blast
    then show False using assms(4) by blast
  qed
  then have i: "i = length bs" using assms(2) by (simp add: rs)
  then have "x = ph" using assms(3) by (simp add: rs)
  then show ?thesis using rs old i by blast
qed

lemma ln_inv_snoc:
  assumes "ln_readers l = bs @ [ph]"
  shows "ln_inv l \<longleftrightarrow> (\<forall>b \<in> set bs. \<not> rd_alive b) \<and> (ln_running l \<longrightarrow> rd_alive ph) \<and> (\<not> ln_closed l \<and> \<not> ln_running l \<longrightarrow> \<not> rd_alive ph) \<and>
     (ln_closed l \<longrightarrow> \<not> ln_running l) \<and> (\<not> ln_closed l \<longrightarrow> ln_late l = 0) \<and>
     ln_late l + (if ln_closed l \<and> ph = Rd_reading then 1 else 0) \<le> 1 \<and> (ln_returned l \<longrightarrow> ln_closed l \<and> ph = Rd_done)"
  unfolding ln_inv_def rd_last_only_def close_may_return_def ln_done_def assms by simp

lemma last_update:
  assumes "i < length rs"
  shows "last (rs[i := x]) = (if i = length rs - 1 then x else last rs)" and "rs[i := x] \<noteq> []"
proof -
  have "rs \<noteq> []" using assms by auto
  then show "last (rs[i := x]) = (if i = length rs - 1 then x else last rs)" by (simp add: last_list_update)
qed (use assms in auto)

lemma reader_done_inv:
  assumes "ln_inv l" and "at_phase i Rd_reaped l"
  shows "ln_inv (reader_done i l)"
proof -
  let ?rs = "ln_readers l"
  have "set (butlast (?rs[i := Rd_done])) \<subseteq> insert Rd_done (set (butlast ?rs))"
    by (auto simp: butlast_list_update set_update_subset_insert [THEN subsetD] dest!: set_update_subset_insert [THEN subsetD])
  then have "rd_last_only (?rs[i := Rd_done])" using assms(1) by (auto simp: ln_inv_def rd_last_only_def)
  moreover have "last ?rs = Rd_reaped" if "i = length ?rs - 1"
    using assms(2) that last_conv_nth [of ?rs] by (cases "?rs = []") simp_all
  ultimately show ?thesis using assms
    by (auto simp: ln_inv_def reader_done_def last_update close_may_return_def ln_done_def nth_list_update split: if_splits)
qed

lemma local_Connect_cases:
  obtains "snd (local_Connect listing au pipe start l) = l"
  | a where "\<not> ln_closed l" "\<not> ln_running l" "fst (local_Connect listing au pipe start l) = None"
      "snd (local_Connect listing au pipe start l) = l\<lparr>ln_running := True, ln_readers := ln_readers l @ [Rd_top], ln_args := ln_args l @ [a]\<rparr>"
proof (cases "ln_closed l \<or> ln_running l \<or> pipe \<noteq> None \<or> start \<noteq> None")
  case True
  then have "snd (local_Connect listing au pipe start l) = l" by (cases pipe; cases start) (auto simp: local_Connect_def Let_def)
  then show ?thesis by (rule that(1))
next
  case False
  then show ?thesis by (intro that(2)) (simp_all add: local_Connect_def Let_def)
qed

lemma rd_last_only_append: "rd_last_only rs \<Longrightarrow> rs \<noteq> [] \<longrightarrow> \<not> rd_alive (last rs) \<Longrightarrow> rd_last_only (rs @ [x])"
  by (cases rs rule: rev_cases) (auto simp: rd_last_only_def butlast_append)

lemma ln_step_inv: "ln_inv l \<Longrightarrow> ln_step l l' \<Longrightarrow> ln_inv l'"
proof (erule ln_stepE, goal_cases)
  case (1 listing au pipe start)
  show ?case
  proof (cases rule: local_Connect_cases [of listing au pipe start l])
    case 1
    then show ?thesis using \<open>ln_inv l\<close> \<open>l' = _\<close> by simp
  next
    case (2 a)
    then have "rd_last_only (ln_readers l @ [Rd_top])" using \<open>ln_inv l\<close> rd_last_only_append by (simp add: ln_inv_def)
    then show ?thesis using 2 \<open>ln_inv l\<close> \<open>l' = _\<close> by (auto simp: ln_inv_def)
  qed
next
  case (2 i)
  then obtain bs where r: "ln_readers l = bs @ [Rd_top]" "i = length bs" "ln_readers (reader_top i l) = bs @ [if ln_running l then Rd_reading else Rd_ending]"
    using rd_split [of "ln_readers l" i Rd_top] by (auto simp: ln_inv_def reader_top_def)
  show ?case using \<open>ln_inv l\<close> unfolding \<open>l' = _\<close> ln_inv_snoc [OF r(1)] ln_inv_snoc [OF r(3)] by (auto simp: reader_top_def)
next
  case (3 i gain chunk)
  then obtain bs where r: "ln_readers l = bs @ [Rd_reading]" "i = length bs"
      "ln_readers (reader_read gain chunk i l) = bs @ [if chunk = None then Rd_ending else Rd_top]"
    using rd_split [of "ln_readers l" i Rd_reading] by (auto simp: ln_inv_def reader_read_def Let_def split: option.splits)
  show ?case using \<open>ln_inv l\<close> unfolding \<open>l' = _\<close> ln_inv_snoc [OF r(1)] ln_inv_snoc [OF r(3)]
    by (cases chunk) (auto simp: reader_read_def Let_def)
next
  case (4 i)
  then obtain bs where r: "ln_readers l = bs @ [Rd_ending]" "i = length bs" "ln_readers (reader_reaps i l) = bs @ [Rd_reaped]"
    using rd_split [of "ln_readers l" i Rd_ending] by (auto simp: ln_inv_def reader_reaps_def)
  show ?case using \<open>ln_inv l\<close> unfolding \<open>l' = _\<close> ln_inv_snoc [OF r(1)] ln_inv_snoc [OF r(3)] by (simp add: reader_reaps_def)
next
  case (5 i)
  then show ?case using reader_done_inv by blast
qed (auto simp: ln_inv_def local_OnAudio_def local_Close_def close_may_return_def ln_done_def)

interpretation local_machine: machine "\<lambda>l. l = local_New" ln_step ln_inv
proof unfold_locales
  show "ln_inv l" if "l = local_New" for l using that by (simp add: ln_inv_def local_New_def rd_last_only_def)
qed (rule ln_step_inv)

subsection \<open>Properties\<close>

text \<open>At unity gain a chunk is heard as the samples it encodes; another gain never leaves the range.\<close>

lemma capture_unity: "capture_chunk (Fin 1) (concat (map sample_bytes xs)) = PCM16ToFloat xs"
  by (simp add: capture_chunk_def capture_gain_def PCM16ToFloat_def)

lemma capture_clamped:
  assumes "f_lt (Fin 0) gain" and "\<not> f_eq gain (Fin 1)" and "capture_gain gain x = Fin r"
  shows "- 1 \<le> r \<and> r \<le> 1"
  using assms by (cases "f_mul float32 x gain") (auto simp: capture_gain_def Let_def split: if_splits)

text \<open>Without a gain the range is not the one the comment names: the lowest sample lies below -1.\<close>

lemma capture_below_range: "f_lt (hd (capture_chunk (Fin 1) [0, 128])) (Fin (- 1))"
  by code_simp

text \<open>Playing a source on the sound card always ends, and what \<open>aplay\<close> is given is a prefix of the source's samples,
  16 bits little endian, in order; it is all of them when there is no error, and then the process has ended well. A
  node that was closed plays nothing.\<close>

theorem local_play_complete:
  assumes "pcm_source read rest ok" and "ok src" and "\<forall>i. ap_ctx env i \<noteq> Some Io_EOF"
  shows "\<exists>e src' given. local_PlayStream read env src = Some (e, src', given) \<and>
    prefix given (concat (map sample_bytes (rest src))) \<and>
    (e = None \<longrightarrow> given = concat (map sample_bytes (rest src)) \<and> wav_samples given = rest src \<and> rest src' = [] \<and> ap_wait env = None) \<and>
    (ap_closed env \<longrightarrow> e \<noteq> None \<and> given = [] \<and> src' = src)"
proof -
  obtain e s' given where loop: "aplay_loop read (ap_ctx env) (ap_write env) 0 src [] = Some (e, s', given)"
      "prefix given (concat (map sample_bytes (rest src)))" "e = None \<longrightarrow> given = concat (map sample_bytes (rest src)) \<and> rest s' = []"
    using pcm_source.aplay_loop_ends [OF assms(1,2,3), of "ap_write env" 0 "[]"] by auto
  show ?thesis
  proof (cases "ap_closed env \<or> ap_pipe env \<noteq> None \<or> ap_start env \<noteq> None")
    case True
    then show ?thesis by (cases "ap_pipe env"; cases "ap_start env") (auto simp: local_PlayStream_def)
  next
    case False
    then have "local_PlayStream read env src = (case e of Some err \<Rightarrow> Some (Some err, s', given)
      | None \<Rightarrow> (case ap_wait env of None \<Rightarrow> Some (None, s', given)
          | Some err \<Rightarrow> Some (Some (case ap_ctx_end env of Some cerr \<Rightarrow> cerr | None \<Rightarrow> Wrap ''aplay failed: '' err), s', given)))"
      unfolding local_PlayStream_def loop(1) by (auto split: option.splits)
    then show ?thesis using loop(2,3) False by (cases e; cases "ap_wait env") auto
  qed
qed

theorem local_play_complete_witness:
  "case local_PlayStream slice_ReadPCM16
      \<lparr>ap_closed = False, ap_pipe = None, ap_start = None, ap_ctx = (\<lambda>_. None), ap_write = (\<lambda>_. None), ap_wait = None, ap_ctx_end = None\<rparr>
      (NewSliceSource [1, - 2] 16000) of
     None \<Rightarrow> False | Some (e, src', given) \<Rightarrow> prefix given [1, 0, 254, 255]"
proof -
  have "slice_ok (NewSliceSource [1, - 2] 16000)" by (simp add: slice_ok_def NewSliceSource_def)
  moreover have "concat (map sample_bytes (slice_rest (NewSliceSource [1, - 2] 16000))) = [1, 0, 254, 255]" by code_simp
  ultimately show ?thesis
    using local_play_complete [OF slice.pcm_source_axioms, of "NewSliceSource [1, - 2] 16000"
        "\<lparr>ap_closed = False, ap_pipe = None, ap_start = None, ap_ctx = (\<lambda>_. None), ap_write = (\<lambda>_. None), ap_wait = None, ap_ctx_end = None\<rparr>"]
    by auto
qed

text \<open>C38: At most one recorder process lives at any moment, and exactly one while the node is running. From the moment
  \<open>Close\<close> begins the callback is given at most one more chunk; once \<open>Close\<close> has returned no process lives, no step
  starts one or calls the callback, and \<open>Connect\<close> is refused.\<close>

theorem local_recorder_single:
  assumes "reach (\<lambda>l. l = local_New) ln_step l"
  shows "length (filter rd_alive (ln_readers l)) \<le> 1 \<and> (ln_running l \<longrightarrow> length (filter rd_alive (ln_readers l)) = 1) \<and>
    ln_late l \<le> 1 \<and>
    (ln_returned l \<longrightarrow> filter rd_alive (ln_readers l) = [] \<and>
      local_Connect listing au pipe start l = (Some (Msg ''audio node is closed''), l) \<and>
      (\<forall>l'. ln_step l l' \<longrightarrow> ln_heard l' = ln_heard l \<and> filter rd_alive (ln_readers l') = []))"
proof -
  note inv = local_machine.reach_inv [OF assms]
  have none: "filter rd_alive (ln_readers l') = []" if "ln_inv l'" "ln_returned l'" for l'
    using that by (cases "ln_readers l'" rule: rev_cases)
      (auto simp: ln_inv_def rd_last_only_def close_may_return_def ln_done_def filter_empty_conv)
  have "length (filter rd_alive (ln_readers l)) \<le> 1 \<and> (ln_running l \<longrightarrow> length (filter rd_alive (ln_readers l)) = 1)"
    using inv by (cases "ln_readers l" rule: rev_cases) (auto simp: ln_inv_def rd_last_only_def filter_empty_conv [THEN iffD2])
  moreover have "ln_late l \<le> 1" using inv by (simp add: ln_inv_def)
  moreover have refused: "local_Connect listing au pipe start l = (Some (Msg ''audio node is closed''), l)"
    if "ln_returned l" for listing au pipe start
    using inv that by (simp add: ln_inv_def local_Connect_def)
  moreover have "ln_heard l' = ln_heard l \<and> filter rd_alive (ln_readers l') = []" if "ln_returned l" "ln_step l l'" for l'
  proof -
    have "\<forall>ph \<in> set (ln_readers l). \<not> rd_alive ph" using none [OF inv that(1)] unfolding filter_empty_conv .
    then have dead: "\<not> at_phase i Rd_top l" "\<not> at_phase i Rd_reading l" "\<not> at_phase i Rd_ending l" for i
      using nth_mem by fastforce+
    have "ln_returned l' \<and> ln_heard l' = ln_heard l"
    proof (rule ln_stepE [OF that(2)], goal_cases)
      case (1 listing au pipe start)
      then show ?case using refused [OF that(1)] that(1) by simp
    qed (use that(1) dead in \<open>simp_all add: reader_done_def local_OnAudio_def local_Close_def\<close>)
    then show ?thesis using none [OF ln_step_inv [OF inv that(2)]] by simp
  qed
  ultimately show ?thesis using none [OF inv] by blast
qed

text \<open>A node that is connected and closed while its reader waits for a chunk: that chunk is still heard, and no more.\<close>

theorem local_recorder_single_witness:
  "\<exists>l :: local_node. ln_returned l \<and> ln_late l = 1 \<and> ln_readers l = [Rd_done] \<and> filter rd_alive (ln_readers l) = []"
proof -
  let ?au = "\<lparr>au_InputDeviceIndex = [], au_OutputDeviceIndex = [], au_SampleRate = 16000, au_Gain = Fin 1\<rparr>"
  let ?l1 = "local_OnAudio local_New"
  let ?l2 = "snd (local_Connect (\<lambda>_. Inr []) ?au None None ?l1)"
  let ?l3 = "reader_top 0 ?l2"
  let ?l4 = "local_Close ?l3"
  let ?l5 = "reader_read (Fin 1) (Some []) 0 ?l4"
  let ?l6 = "reader_top 0 ?l5"
  let ?l7 = "reader_reaps 0 ?l6"
  let ?l8 = "reader_done 0 ?l7"
  let ?l9 = "?l8\<lparr>ln_returned := True\<rparr>"
  note steps = local_New_def local_OnAudio_def local_Connect_def reader_top_def local_Close_def reader_read_def reader_reaps_def reader_done_def
  have "reach (\<lambda>l. l = local_New) ln_step local_New" by (rule reach_init) simp
  then have "reach (\<lambda>l. l = local_New) ln_step ?l1" by (rule reach_step) (rule ln_on_audio)
  then have "reach (\<lambda>l. l = local_New) ln_step ?l2" by (rule reach_step) (rule ln_connect)
  then have "reach (\<lambda>l. l = local_New) ln_step ?l3" by (rule reach_step) (rule ln_top, simp add: steps)
  then have "reach (\<lambda>l. l = local_New) ln_step ?l4" by (rule reach_step) (rule ln_close)
  then have "reach (\<lambda>l. l = local_New) ln_step ?l5" by (rule reach_step) (rule ln_read, simp add: steps)
  then have "reach (\<lambda>l. l = local_New) ln_step ?l6" by (rule reach_step) (rule ln_top, simp add: steps)
  then have "reach (\<lambda>l. l = local_New) ln_step ?l7" by (rule reach_step) (rule ln_reaps, simp add: steps)
  then have "reach (\<lambda>l. l = local_New) ln_step ?l8" by (rule reach_step) (rule ln_dones, simp add: steps)
  then have r: "reach (\<lambda>l. l = local_New) ln_step ?l9"
    by (rule reach_step) (rule ln_close_returns, simp_all add: steps close_may_return_def ln_done_def)
  have f: "filter rd_alive (ln_readers ?l9) = []" using local_recorder_single [OF r] by simp
  have "ln_returned ?l9" "ln_late ?l9 = 1" "ln_readers ?l9 = [Rd_done]" by (simp_all add: steps)
  with f show ?thesis by (intro exI [of _ ?l9] conjI)
qed

end
