(* ===== verification/Max_Counter.thy ===== *)
theory Max_Counter
  imports Go_Prelude
begin

text \<open>
  The maximum the receive path keeps of its delays (internal/webrtc/diagnostics.go): \<open>maxCounter\<close> is a loop of \<open>Load\<close> and
  \<open>CompareAndSwap\<close> without a lock, so each of the two is a step and any number of callers interleave.
\<close>

datatype max_caller = Mc_loads int | Mc_swaps int int | Mc_done int

fun mc_value :: "max_caller \<Rightarrow> int" where
  "mc_value (Mc_loads v) = v"
| "mc_value (Mc_swaps v old) = v"
| "mc_value (Mc_done v) = v"

record max_counter =
  mx_value :: int
  mx_callers :: "max_caller list"

definition mx_New :: max_counter where
  "mx_New = \<lparr>mx_value = 0, mx_callers = []\<rparr>"

definition mx_Load :: "max_counter \<Rightarrow> int \<Rightarrow> max_caller" where
  "mx_Load m v = (if mx_value m < v then Mc_swaps v (mx_value m) else Mc_done v)"

text \<open>The new value and where the caller goes: out of the loop, or to the next \<open>Load\<close>.\<close>

definition mx_CompareAndSwap :: "max_counter \<Rightarrow> int \<Rightarrow> int \<Rightarrow> int \<times> max_caller" where
  "mx_CompareAndSwap m old v = (if mx_value m = old then (v, Mc_done v) else (mx_value m, Mc_loads v))"

inductive mx_step :: "max_counter \<Rightarrow> max_counter \<Rightarrow> bool" where
  mx_calls: "mx_step m (m\<lparr>mx_callers := mx_callers m @ [Mc_loads v]\<rparr>)"
| mx_loads: "i < length (mx_callers m) \<Longrightarrow> mx_callers m ! i = Mc_loads v \<Longrightarrow>
    mx_step m (m\<lparr>mx_callers := (mx_callers m)[i := mx_Load m v]\<rparr>)"
| mx_swaps: "i < length (mx_callers m) \<Longrightarrow> mx_callers m ! i = Mc_swaps v old \<Longrightarrow> mx_CompareAndSwap m old v = (x, c) \<Longrightarrow>
    mx_step m (m\<lparr>mx_value := x, mx_callers := (mx_callers m)[i := c]\<rparr>)"

inductive_cases mx_stepE: "mx_step m m'"

definition mx_caller_ok :: "int \<Rightarrow> max_caller \<Rightarrow> bool" where
  "mx_caller_ok x c = (case c of Mc_loads v \<Rightarrow> True | Mc_swaps v old \<Rightarrow> old < v \<and> old \<le> x | Mc_done v \<Rightarrow> v \<le> x)"

definition mx_inv :: "max_counter \<Rightarrow> bool" where
  "mx_inv m \<longleftrightarrow> 0 \<le> mx_value m \<and> (\<forall>c \<in> set (mx_callers m). mx_caller_ok (mx_value m) c) \<and>
     mx_value m \<in> insert 0 (mc_value ` set (mx_callers m))"

lemma mx_caller_ok_mono: "mx_caller_ok x c \<Longrightarrow> x \<le> y \<Longrightarrow> mx_caller_ok y c"
  by (auto simp: mx_caller_ok_def split: max_caller.splits)

lemma mc_value_update: "i < length cs \<Longrightarrow> mc_value c = mc_value (cs ! i) \<Longrightarrow> mc_value ` set (cs[i := c]) = mc_value ` set cs"
  by (metis list_update_id map_update set_map)

text \<open>A step replaces a caller by one that asks for the same value, and the counter may only grow, to that value.\<close>

lemma mx_update_inv:
  assumes "mx_inv m" and "i < length (mx_callers m)" and "mc_value c = mc_value (mx_callers m ! i)"
    and "x = mx_value m \<or> mx_value m \<le> x \<and> x = mc_value c" and "mx_caller_ok x c"
  shows "mx_inv (m\<lparr>mx_value := x, mx_callers := (mx_callers m)[i := c]\<rparr>)"
proof -
  have le: "mx_value m \<le> x" using assms(4) by auto
  have "\<forall>d \<in> set ((mx_callers m)[i := c]). mx_caller_ok x d"
    using assms(1,5) mx_caller_ok_mono [OF _ le] set_update_subset_insert [of "mx_callers m" i c] by (auto simp: mx_inv_def)
  moreover have "mc_value c \<in> mc_value ` set (mx_callers m)" using assms(2,3) by auto
  then have "x \<in> insert 0 (mc_value ` set ((mx_callers m)[i := c]))"
    using assms(1,4) mc_value_update [OF assms(2,3)] by (auto simp: mx_inv_def)
  ultimately show ?thesis using assms(1) le by (simp add: mx_inv_def)
qed

lemma mx_step_inv: "mx_inv m \<Longrightarrow> mx_step m m' \<Longrightarrow> mx_inv m'"
proof (erule mx_stepE, goal_cases)
  case (1 v)
  then show ?case by (auto simp: mx_inv_def mx_caller_ok_def)
next
  case (2 i v)
  then have "mx_inv (m\<lparr>mx_value := mx_value m, mx_callers := (mx_callers m)[i := mx_Load m v]\<rparr>)"
    by (intro mx_update_inv) (auto simp: mx_Load_def mx_caller_ok_def)
  then show ?case using 2 by simp
next
  case (3 i v old x c)
  have "mx_caller_ok (mx_value m) (Mc_swaps v old)" using 3 by (metis mx_inv_def nth_mem)
  then show ?case unfolding 3(2) using 3
    by (intro mx_update_inv) (auto simp: mx_CompareAndSwap_def mx_caller_ok_def split: if_splits)
qed

interpretation mx_machine: machine "\<lambda>m. m = mx_New" mx_step mx_inv
proof
  show "mx_inv m" if "m = mx_New" for m using that by (simp add: mx_New_def mx_inv_def)
qed (rule mx_step_inv)

text \<open>
  No update is lost: once every caller has returned the counter is the largest value any of them had, or 0; and a swap
  fails only because another caller has raised the counter meanwhile.
\<close>

theorem max_counter_is_max:
  assumes "reach (\<lambda>m. m = mx_New) mx_step m"
  shows "((\<forall>c \<in> set (mx_callers m). \<exists>v. c = Mc_done v) \<longrightarrow> mx_value m = Max (insert 0 (mc_value ` set (mx_callers m)))) \<and>
    (\<forall>v old. Mc_swaps v old \<in> set (mx_callers m) \<and> snd (mx_CompareAndSwap m old v) \<noteq> Mc_done v \<longrightarrow> old < mx_value m)"
proof -
  have inv: "mx_inv m" by (rule mx_machine.reach_inv [OF assms])
  have "mx_value m = Max (insert 0 (mc_value ` set (mx_callers m)))" if "\<forall>c \<in> set (mx_callers m). \<exists>v. c = Mc_done v"
  proof (rule Max_eqI [symmetric])
    show "y \<le> mx_value m" if y: "y \<in> insert 0 (mc_value ` set (mx_callers m))" for y
      using inv y \<open>\<forall>c \<in> set (mx_callers m). \<exists>v. c = Mc_done v\<close> by (fastforce simp: mx_inv_def mx_caller_ok_def)
  qed (use inv in \<open>simp_all add: mx_inv_def\<close>)
  then show ?thesis using inv by (auto simp: mx_inv_def mx_caller_ok_def mx_CompareAndSwap_def split: if_splits)
qed

end
