(* ===== verification/Client_Play.thy ===== *)
theory Client_Play
  imports Webrtc_Client Audio_Stream
begin

text \<open>
  Playback of the WebRTC client as a whole (internal/webrtc/client.go): \<open>PlayStream\<close> with its two branches, \<open>Play\<close>, the
  warm-up of the backchannel after \<open>Connect\<close>, and what successive playbacks leave for one another. A playback holds
  \<open>playMu\<close> and is one step, in which the pacing goroutine and the hooks of the connection take their own steps; between
  the playbacks they go on alone.
\<close>

subsection \<open>PlayStream, Play and the warm-up\<close>

record play_env =
  px_link :: tb_external
  px_talk :: talk_env
  px_out :: rtc_out
  px_wait :: rtc_wait

text \<open>\<open>py_pace\<close> is the sender of the backchannel the client holds, with its pacing goroutine.\<close>

record play_client =
  py_talk :: talk_client
  py_pace :: tb_world
  py_warm :: bool

text \<open>What was played: the frames queued on the backchannel and the packets written meanwhile, or the pre-roll and the
  session on the track.\<close>

datatype played = Played_nothing | Played_talkback "i16 list list" "byte list list" | Played_track "byte list list" play_session

text \<open>A sender that \<open>ensureTalkback\<close> kept goes on with its goroutine; a new one starts one.\<close>

definition pace_of :: "play_client \<Rightarrow> tb_sender \<Rightarrow> tb_world" where
  "pace_of c s = (if tc_tb (py_talk c) = Some s then py_pace c else tw_start\<lparr>tw_tb := sn_tb s\<rparr>)"

definition client_PlayStream ::
    "'s reader \<Rightarrow> ('s \<Rightarrow> int) \<Rightarrow> (nat \<Rightarrow> ctx_err) \<Rightarrow> play_env \<Rightarrow> 's \<Rightarrow> play_client \<Rightarrow> (go_error option \<times> 's \<times> played \<times> play_client) option" where
  "client_PlayStream read rate ctx x src c =
     (if talkbackEnabled (py_talk c) then
        (case ensureTalkback (px_link x) (py_talk c) of
           None \<Rightarrow> None
         | Some (Inl err, t) \<Rightarrow> Some (Some err, src, Played_nothing, c\<lparr>py_talk := t\<rparr>)
         | Some (Inr s, t) \<Rightarrow>
             (case talk_PlayStream read rate ctx (px_talk x) (fst (assertRoute (px_link x) s)) src (pace_of c s) of
                None \<Rightarrow> None
              | Some (e, src', written, p) \<Rightarrow>
                  Some (e, src', Played_talkback (tp_frames p) written,
                    c\<lparr>py_talk := t\<lparr>tc_tb := Some (s\<lparr>sn_tb := tp_tb p\<rparr>)\<rparr>, py_pace := tp_w p\<rparr>)))
      else (case rtc_PlayStream read rate ctx (px_out x) (px_wait x) (py_warm c) src of
              None \<Rightarrow> None
            | Some (e, src', preroll, session, warm) \<Rightarrow> Some (e, src', Played_track preroll session, c\<lparr>py_warm := warm\<rparr>)))"

definition client_Play ::
    "(nat \<Rightarrow> ctx_err) \<Rightarrow> play_env \<Rightarrow> i16 list \<Rightarrow> int \<Rightarrow> play_client \<Rightarrow> (go_error option \<times> slice_source \<times> played \<times> play_client) option" where
  "client_Play ctx x pcm16 sourceSampleRate c = client_PlayStream slice_ReadPCM16 ss_rate ctx x (NewSliceSource pcm16 sourceSampleRate) c"

text \<open>The end of \<open>Connect\<close>: an error of the warm-up is only logged.\<close>

definition client_warm_up :: "tb_external \<Rightarrow> play_client \<Rightarrow> play_client option" where
  "client_warm_up x c =
     (if talkbackEnabled (py_talk c)
      then map_option (\<lambda>r. c\<lparr>py_talk := snd r, py_pace := (case fst r of Inl _ \<Rightarrow> py_pace c | Inr s \<Rightarrow> pace_of c s)\<rparr>)
             (ensureTalkback x (py_talk c))
      else Some c)"

subsection \<open>One playback after another\<close>

text \<open>The pacing goroutine goes on during a playback (\<open>te_fair\<close>), and takes its steps between the playbacks.\<close>

inductive client_step :: "play_client \<Rightarrow> play_client \<Rightarrow> bool" where
  cl_plays: "client_Play ctx x pcm rate c = Some (e, src, out, c') \<Longrightarrow> \<forall>i. ctx i \<noteq> Some Io_EOF \<Longrightarrow> te_fair (px_talk x) \<Longrightarrow>
    client_step c c'"
| cl_speaks: "client_PlayStream vits_ReadPCM16 vs_rate ctx x speech c = Some (e, src, out, c') \<Longrightarrow> \<forall>i. ctx i \<noteq> Some Io_EOF \<Longrightarrow>
    te_fair (px_talk x) \<Longrightarrow> client_step c c'"
| cl_warms: "client_warm_up x c = Some c' \<Longrightarrow> client_step c c'"
| cl_closes: "client_close_talkback (py_talk c) = Some t \<Longrightarrow> client_step c (c\<lparr>py_talk := t\<rparr>)"
| cl_sender: "tc_tb (py_talk c) = Some s \<Longrightarrow> tb_act a (py_pace c) = (b, w) \<Longrightarrow>
    client_step c (c\<lparr>py_talk := (py_talk c)\<lparr>tc_tb := Some (s\<lparr>sn_tb := tw_tb w\<rparr>)\<rparr>, py_pace := w\<rparr>)"
| cl_run_ends: "tc_tb (py_talk c) = Some s \<Longrightarrow> tw_ended (py_pace c) \<Longrightarrow>
    client_step c (c\<lparr>py_talk := (py_talk c)\<lparr>tc_running := tc_running (py_talk c) - {sn_pc s}\<rparr>\<rparr>)"

inductive_cases client_stepE: "client_step c c'"

definition pace_idle :: "talk_client \<Rightarrow> tb_world \<Rightarrow> bool" where
  "pace_idle t w \<longleftrightarrow> (case tc_tb t of None \<Rightarrow> True | Some s \<Rightarrow> tw_tb w = sn_tb s \<and> tw_idle w)"

definition client_inv :: "play_client \<Rightarrow> bool" where
  "client_inv c \<longleftrightarrow> tc_inv (py_talk c) \<and> pace_idle (py_talk c) (py_pace c)"

lemma hooked_idle: "tw_idle (tw_start\<lparr>tw_tb := hooked x\<rparr>)"
  by (auto simp: tw_idle_def tw_inv_def tw_start_def hooked_def tb_new_def tb_peer_lost_def split: option.splits)

lemma ensure_idle:
  assumes "client_inv c"
  shows "\<exists>r t'. ensureTalkback x (py_talk c) = Some (r, t') \<and> tc_inv t' \<and>
    (case r of Inl _ \<Rightarrow> tc_tb t' = None
     | Inr s \<Rightarrow> tc_tb t' = Some s \<and> tw_idle (pace_of c s) \<and> tw_tb (pace_of c s) = sn_tb s \<and>
         (pace_of c s = py_pace c \<or> tw_flight (pace_of c s) = None))"
proof -
  have inv: "tc_inv (py_talk c)" "pace_idle (py_talk c) (py_pace c)" using assms by (simp_all add: client_inv_def)
  obtain r t' where r: "ensureTalkback x (py_talk c) = Some (r, t')" "tc_inv t'"
    "case r of Inl _ \<Rightarrow> tc_tb t' = None
     | Inr s \<Rightarrow> tc_tb t' = Some s \<and>
         (tc_tb (py_talk c) = Some s \<and> sender_state x s \<notin> {PcFailed, PcDisconnected, PcClosed} \<or> sn_tb s = hooked x)"
    using ensure_inv [OF inv(1), of x] by blast
  then show ?thesis using inv(2) hooked_idle [of x]
    by (cases r) (auto simp: pace_of_def pace_idle_def tw_start_def)
qed

text \<open>A playback over the backchannel of a clean client: it returns, and leaves the client clean.\<close>

lemma client_talk_plays:
  assumes "pcm_source read rest ok" and "ok src" and "\<forall>i. ctx i \<noteq> Some Io_EOF" and "client_inv c" and "talkbackEnabled (py_talk c)"
    and "te_fair (px_talk x)"
  shows "\<exists>e src' out c'. client_PlayStream read rate ctx x src c = Some (e, src', out, c') \<and> client_inv c' \<and>
    (e = None \<and> 0 < rate src \<longrightarrow> (\<exists>fs stale ps. out = Played_talkback fs (stale @ ps) \<and>
       stale \<in> {[], flight_list (tw_flight (py_pace c))} \<and>
       encoded_by (te_encode (px_talk x)) (padded opusFrameSize 0 (resample_spec (rate src) opusRate (rest src))) ps)) \<and>
    (rate src \<le> 0 \<longrightarrow> (case out of Played_talkback fs written \<Rightarrow> fs = [] \<and> length written \<le> 1 | _ \<Rightarrow> out = Played_nothing))"
proof -
  obtain r t where r: "ensureTalkback (px_link x) (py_talk c) = Some (r, t)" "tc_inv t"
      "case r of Inl _ \<Rightarrow> tc_tb t = None
       | Inr s \<Rightarrow> tc_tb t = Some s \<and> tw_idle (pace_of c s) \<and> tw_tb (pace_of c s) = sn_tb s \<and>
         (pace_of c s = py_pace c \<or> tw_flight (pace_of c s) = None)"
    using ensure_idle [OF assms(4)] by blast
  show ?thesis
  proof (cases r)
    case (Inl err)
    then show ?thesis using r assms(5) by (simp add: client_PlayStream_def client_inv_def pace_idle_def)
  next
    case (Inr s)
    then have s: "tc_tb t = Some s" "tw_idle (pace_of c s)" "pace_of c s = py_pace c \<or> tw_flight (pace_of c s) = None" using r(3) by auto
    obtain e src' written p where p: "talk_PlayStream read rate ctx (px_talk x) (fst (assertRoute (px_link x) s)) src (pace_of c s) =
          Some (e, src', written, p)" "tw_idle (tp_w p)"
        "e = None \<and> 0 < rate src \<longrightarrow> (\<exists>ps. written = flight_list (tw_flight (pace_of c s)) @ ps \<and>
           encoded_by (te_encode (px_talk x)) (padded opusFrameSize 0 (resample_spec (rate src) opusRate (rest src))) ps)"
        "rate src \<le> 0 \<longrightarrow> tp_frames p = [] \<and> length written \<le> 1"
      using talkback_play_complete [OF assms(1-3) s(2) assms(6), of rate "fst (assertRoute (px_link x) s)"] by blast
    have "tc_inv (t\<lparr>tc_tb := Some (s\<lparr>sn_tb := tp_tb p\<rparr>)\<rparr>)" using r(2) s(1) by (simp add: tc_inv_def tc_pcs_def)
    moreover have "pace_idle (t\<lparr>tc_tb := Some (s\<lparr>sn_tb := tp_tb p\<rparr>)\<rparr>) (tp_w p)" using p(2) by (simp add: pace_idle_def)
    moreover have "e = None \<and> 0 < rate src \<longrightarrow> (\<exists>stale ps. written = stale @ ps \<and> stale \<in> {[], flight_list (tw_flight (py_pace c))} \<and>
        encoded_by (te_encode (px_talk x)) (padded opusFrameSize 0 (resample_spec (rate src) opusRate (rest src))) ps)"
    proof
      assume "e = None \<and> 0 < rate src"
      moreover have "flight_list (tw_flight (pace_of c s)) \<in> {[], flight_list (tw_flight (py_pace c))}" using s(3) by auto
      ultimately show "\<exists>stale ps. written = stale @ ps \<and> stale \<in> {[], flight_list (tw_flight (py_pace c))} \<and>
          encoded_by (te_encode (px_talk x)) (padded opusFrameSize 0 (resample_spec (rate src) opusRate (rest src))) ps" using p(3) by blast
    qed
    moreover have "client_PlayStream read rate ctx x src c = Some (e, src', Played_talkback (tp_frames p) written,
        c\<lparr>py_talk := t\<lparr>tc_tb := Some (s\<lparr>sn_tb := tp_tb p\<rparr>)\<rparr>, py_pace := tp_w p\<rparr>)"
      using r(1) Inr p(1) assms(5) by (simp add: client_PlayStream_def)
    ultimately show ?thesis using p(4) by (simp add: client_inv_def)
  qed
qed

lemma client_plays_inv:
  assumes "pcm_source read rest ok" and "ok src" and "\<forall>i. ctx i \<noteq> Some Io_EOF" and "client_inv c" and "te_fair (px_talk x)"
    and "client_PlayStream read rate ctx x src c = Some (e, src', out, c')"
  shows "client_inv c'"
proof (cases "talkbackEnabled (py_talk c)")
  case True
  obtain e1 s1 o1 c1 where "client_PlayStream read rate ctx x src c = Some (e1, s1, o1, c1)" "client_inv c1"
    using client_talk_plays [OF assms(1-4) True assms(5), of rate] by blast
  then show ?thesis using assms(6) by simp
next
  case False
  then show ?thesis using assms(4,6) by (auto simp: client_PlayStream_def client_inv_def split: option.splits)
qed

lemma client_step_inv: "client_inv c \<Longrightarrow> client_step c c' \<Longrightarrow> client_inv c'"
proof (erule client_stepE, goal_cases)
  case (1 ctx x pcm rate e src out)
  have "slice_ok (NewSliceSource pcm rate)" by (simp add: slice_ok_def NewSliceSource_def)
  then show ?case using client_plays_inv [OF slice.pcm_source_axioms _ 1(3,1,4)] 1(2) by (simp add: client_Play_def)
next
  case (2 ctx x speech e src out)
  then show ?case using client_plays_inv [OF vits.pcm_source_axioms _ 2(3,1,4)] by simp
next
  case (3 x)
  obtain r t where r: "ensureTalkback x (py_talk c) = Some (r, t)" "tc_inv t"
      "case r of Inl _ \<Rightarrow> tc_tb t = None | Inr s \<Rightarrow> tc_tb t = Some s \<and> tw_idle (pace_of c s) \<and> tw_tb (pace_of c s) = sn_tb s"
    using ensure_idle [OF 3(1), of x] by (elim exE conjE, intro that) (assumption | simp split: sum.splits)+
  then show ?case using 3
    by (cases r) (auto simp: client_warm_up_def client_inv_def pace_idle_def split: if_splits)
next
  case (4 t)
  then have "tc_inv t" using tc_step_inv [OF _ tc_closes] by (auto simp: client_inv_def)
  moreover have "tc_tb t = None"
    using 4 by (auto simp: client_close_talkback_def tb_close_def Let_def split: option.splits if_splits)
  ultimately show ?case using 4 by (simp add: client_inv_def pace_idle_def)
next
  case (5 s a b w)
  then have idle: "tw_idle (py_pace c)" by (simp add: client_inv_def pace_idle_def)
  then have "tw_after (py_pace c) w" using tb_act_after [of "py_pace c" a] 5(4) by (simp add: tw_idle_def)
  then have "tw_idle w" by (rule tw_idle_after [OF idle])
  then show ?case using 5 by (auto simp: client_inv_def tc_inv_def tc_pcs_def pace_idle_def)
qed (auto simp: client_inv_def tc_inv_def tc_pcs_def pace_idle_def)

definition client_new :: "play_client \<Rightarrow> bool" where
  "client_new c \<longleftrightarrow> (\<exists>base stream inS servers. c = \<lparr>py_talk = tc_new base stream inS servers, py_pace = tw_start, py_warm = False\<rparr>)"

interpretation play_machine: machine client_new client_step client_inv
proof unfold_locales
  show "client_inv c" if "client_new c" for c
    using that talk_machine.inv_init by (auto simp: client_new_def client_inv_def pace_idle_def tc_new_def)
qed (rule client_step_inv)


text \<open>A client whose backchannel is configured, playing two samples at 48 kHz.\<close>

definition sample_talk_env :: talk_env where
  "sample_talk_env = \<lparr>te_encode = \<lambda>_ _. Inr [7], te_acts = \<lambda>_. [Ta_paces None], te_ctx = \<lambda>_. None\<rparr>"

definition sample_player :: play_client where
  "sample_player = \<lparr>py_talk = tc_new ''h'' ''d'' [] None, py_pace = tw_start, py_warm = False\<rparr>"


subsection \<open>Diagnostics\<close>

text \<open>
  The counters of the transport, and the report of \<open>Diagnostics\<close>, a Go map. The two durations of the sender that are
  measured on the clock, the delay of the first audio and the greatest lateness, are arguments.
\<close>

record transport_counters =
  tn_packets :: nat
  tn_overflow :: nat
  tn_lost :: nat
  tn_reordered :: nat
  tn_rejected :: nat
  tn_decodeErrors :: nat
  tn_concealed :: nat
  tn_maxArrivalGap :: int
  tn_maxProcessing :: int

definition talkback_report :: "duration \<Rightarrow> duration \<Rightarrow> talkback \<Rightarrow> (string \<times> int) list" where
  "talkback_report firstAudioDelay maxLateness t =
     [(''talkback_queue_frames'', int (length (tb_queue t))),
      (''talkback_queue_high_water'', int (tb_queueHighWater t)),
      (''talkback_silence_ticks_during_playback'', int (tb_underruns t)),
      (''last_first_audio_delay_ns'', firstAudioDelay),
      (''talkback_write_failures'', int (tb_writeFailures t)),
      (''talkback_route_failures'', int (tb_routeFailures t)),
      (''max_pacing_lateness_ns'', maxLateness)]"

definition client_Diagnostics :: "duration \<Rightarrow> duration \<Rightarrow> transport_counters \<Rightarrow> talk_client \<Rightarrow> (string \<times> int) list" where
  "client_Diagnostics firstAudioDelay maxLateness n c =
     [(''packets'', int (tn_packets n)), (''queue_overflow'', int (tn_overflow n)),
      (''rtp_loss'', int (tn_lost n)), (''rtp_reordered'', int (tn_reordered n)), (''rtp_rejected'', int (tn_rejected n)),
      (''decode_errors'', int (tn_decodeErrors n)), (''concealed_samples'', int (tn_concealed n)),
      (''max_arrival_gap_ns'', tn_maxArrivalGap n), (''max_receive_processing_ns'', tn_maxProcessing n)] @
     (case tc_tb c of None \<Rightarrow> [] | Some s \<Rightarrow> talkback_report firstAudioDelay maxLateness (sn_tb s))"

text \<open>No entry of the report hides another, and a backchannel that was cleared shows an empty queue.\<close>

lemma diagnostics_entries:
  "distinct (map fst (client_Diagnostics d l n c))"
  "tc_tb c = Some s \<Longrightarrow> sn_tb s = tb_clearPending t \<Longrightarrow>
     map_of (client_Diagnostics d l n c) ''talkback_queue_frames'' = Some 0"
  by (cases "tc_tb c"; simp add: client_Diagnostics_def talkback_report_def tb_clearPending_def)+

end
