(* ===== verification/Node_Wiring.thy ===== *)
theory Node_Wiring
  imports Node_Runtime Webrtc_Client Audio_Stream
begin

text \<open>
  How the runtime of a node configures its parts (internal/runtime/runtime.go): the runtime itself, the client of a go2rtc
  stream, the voice activity detector, and the event of a state change. What \<open>url.Parse\<close> and \<open>URL.String\<close> answer are
  parameters.
\<close>

record node_runtime =
  rn_node :: node_config
  rn_vad :: vad_config
  rn_threads :: int

definition runtime_New :: "node_config \<Rightarrow> app_config \<Rightarrow> int \<Rightarrow> node_runtime" where
  "runtime_New nodeCfg global threads = \<lparr>rn_node = nodeCfg, rn_vad = mc_VAD (cf_Models global), rn_threads = threads\<rparr>"

definition state_event :: "node_config \<Rightarrow> node_state \<Rightarrow> response" where
  "state_event n newState =
     empty_response\<lparr>rp_Event := ''state_changed'', rp_NodeID := nc_NodeID n, rp_State := node_state_text newState\<rparr>"

text \<open>The configuration of the client; \<open>Inr None\<close> is a local node, and any other kind is skipped with the error.\<close>

definition runtime_client_config ::
    "(string \<Rightarrow> go_endpoint result) \<Rightarrow> (go_endpoint \<Rightarrow> string) \<Rightarrow> node_config \<Rightarrow> client_config option result" where
  "runtime_client_config parse url_string n =
     (let s = nc_RTCStream n in
      if nc_Type n = ''rtc_stream'' then
        (case signalingURL parse (rs_ApiURL s) (rs_StreamName s) of
           Inl e \<Rightarrow> Inl e
         | Inr u \<Rightarrow>
             Inr (Some \<lparr>cc_ICEServers = rs_ICEServers s, cc_SignalingURL = url_string u, cc_SendCodec = ''opus'',
                    cc_APIBaseURL = rs_ApiURL s, cc_TalkbackStream = rs_TalkbackStream s, cc_TalkbackIn = rs_TalkbackInStream s\<rparr>))
      else if nc_Type n \<noteq> ''local''
      then Inl (Msg (''node type '' @ nc_Type n @ '' is not supported in this version''))
      else Inr None)"

record vad_model_config =
  vm_Model :: string
  vm_Threshold :: f32
  vm_MinSilenceDuration :: f32
  vm_MinSpeechDuration :: f32
  vm_WindowSize :: int
  vm_MaxSpeechDuration :: f32
  vm_SampleRate :: int
  vm_NumThreads :: int
  vm_Provider :: string
  vm_BufferSeconds :: f32

definition runtime_vad_config :: "node_runtime \<Rightarrow> vad_model_config" where
  "runtime_vad_config r =
     \<lparr>vm_Model = vc_SileroOnnxPath (rn_vad r), vm_Threshold = vc_Threshold (rn_vad r), vm_MinSilenceDuration = fround float32 (32 / 1000),
      vm_MinSpeechDuration = Fin (1 / 4), vm_WindowSize = 512, vm_MaxSpeechDuration = Fin 120, vm_SampleRate = 16000,
      vm_NumThreads = rn_threads r, vm_Provider = ''cpu'', vm_BufferSeconds = Fin 10\<rparr>"

text \<open>
  A stream node of an accepted configuration gets a client with the codec Opus, whose constructor can fail only in the
  codec and connection libraries; and the client plays over the backchannel exactly when the node names a talkback stream.
\<close>

lemma wired_client:
  assumes "node_valid url_parse threads n" and "nc_Type n = ''rtc_stream''" and "\<And>u. url_parse [] = Some u \<Longrightarrow> ur_Host u = []"
    and "runtime_client_config parse url_string n = Inr (Some cfg)" and "NewClientWithConfig x cfg nt = (r, nt')"
  shows "case r of
      Inl err \<Rightarrow> cx_RegisterCodec x (codec_capability_of ''opus'') = Some err \<or>
        cx_NewPeerConnection x (iceServers (rs_ICEServers (nc_RTCStream n))) = Some err \<or> client_media_error x ''opus'' = Some err
    | Inr c \<Rightarrow> ct_hasEncoder c \<and> (talkbackEnabled (ct_talk c) \<longleftrightarrow> rs_TalkbackStream (nc_RTCStream n) \<noteq> [])"
proof -
  have api: "rs_ApiURL (nc_RTCStream n) \<noteq> []" using assms(1-3) by (auto simp: node_valid_def)
  have cfg: "cc_SendCodec cfg = ''opus''" "cc_APIBaseURL cfg = rs_ApiURL (nc_RTCStream n)"
      "cc_TalkbackStream cfg = rs_TalkbackStream (nc_RTCStream n)" "cc_ICEServers cfg = rs_ICEServers (nc_RTCStream n)"
    using assms(2,4) by (auto simp: runtime_client_config_def Let_def split: sum.splits)
  have codec: "client_codec cfg = ''opus''" "known_codec ''opus''" using cfg(1) by (simp_all add: client_codec_def known_codec_def)
  show ?thesis using assms(5) api cfg codec
    by (auto simp: NewClientWithConfig_def talkbackEnabled_def tc_new_def Let_def split: option.splits prod.splits)
qed

text \<open>The longest speech segment of the detector is the limit of a synthesis and of a transcription.\<close>

lemma vad_longest: "vm_MaxSpeechDuration (runtime_vad_config r) = Fin (of_int max_audio_seconds)"
  by (simp add: runtime_vad_config_def)

end
