(* ===== verification/Mqtt.thy ===== *)
theory Mqtt
  imports Protocol
begin

text \<open>
  The MQTT transport (internal/mqtt/client.go). The paho client is a parameter: whether it is connected, what its
  tokens answer, and the delivery of messages. A client keeps its settings, its group of tasks and whether \<open>Close\<close>
  ran; \<open>onMessage\<close> works on the executor and gives the events it published.
\<close>

record mqtt_settings =
  ms_Broker :: string
  ms_ClientID :: string
  ms_Username :: string
  ms_Password :: string
  ms_TopicPrefix :: string
  ms_QoS :: byte
  ms_AutoReconnect :: bool

record mqtt_client =
  mc_tasks :: task_group
  mc_closing :: bool
  mc_cfg :: mqtt_settings

text \<open>What the paho client is built with; durations in nanoseconds, the credentials when there is a user name.\<close>

record paho_options =
  po_broker :: string
  po_clientID :: string
  po_autoReconnect :: bool
  po_connectRetry :: bool
  po_connectTimeout :: duration
  po_retryInterval :: duration
  po_credentials :: "(string \<times> string) option"

definition mqtt_defaults :: "int \<Rightarrow> mqtt_settings \<Rightarrow> mqtt_settings" where
  "mqtt_defaults unix cfg =
     (let c1 = (if ms_TopicPrefix cfg = [] then cfg\<lparr>ms_TopicPrefix := ''gocalis''\<rparr> else cfg);
          c2 = (if 2 < ms_QoS c1 then c1\<lparr>ms_QoS := 1\<rparr> else c1)
      in if ms_ClientID c2 = [] then c2\<lparr>ms_ClientID := ''gocalis-'' @ show_int unix\<rparr> else c2)"

definition mqtt_NewClient :: "int \<Rightarrow> ctx_err \<Rightarrow> mqtt_settings \<Rightarrow> mqtt_client \<times> paho_options" where
  "mqtt_NewClient unix ctx settings =
     (let cfg = mqtt_defaults unix settings
      in (\<lparr>mc_tasks = tg_New ctx 64, mc_closing = False, mc_cfg = cfg\<rparr>,
          \<lparr>po_broker = ms_Broker cfg, po_clientID = ms_ClientID cfg, po_autoReconnect = ms_AutoReconnect cfg,
           po_connectRetry = False, po_connectTimeout = 10 * second, po_retryInterval = 5 * second,
           po_credentials = (if ms_Username cfg \<noteq> [] then Some (ms_Username cfg, ms_Password cfg) else None)\<rparr>))"

subsection \<open>Topics\<close>

definition cmdTopic :: "mqtt_client \<Rightarrow> string \<Rightarrow> string" where
  "cmdTopic c action = ms_TopicPrefix (mc_cfg c) @ ''/cmd/'' @ action"

definition eventTopic :: "mqtt_client \<Rightarrow> string \<Rightarrow> string" where
  "eventTopic c event = ms_TopicPrefix (mc_cfg c) @ ''/event/'' @ event"

definition actionFromTopic :: "string \<Rightarrow> string \<Rightarrow> string" where
  "actionFromTopic topic pre =
     (let expected = pre @ ''/cmd/''
      in if length expected < length topic \<and> take (length expected) topic = expected then drop (length expected) topic else [])"

text \<open>The map of the subscription, which the connect handler builds over the five actions; it is a task of the group.\<close>

definition mqtt_topics :: "mqtt_client \<Rightarrow> (string \<times> byte) list" where
  "mqtt_topics c = map (\<lambda>action. (cmdTopic c action, ms_QoS (mc_cfg c))) [''tts'', ''asr'', ''speaker_id'', ''ask'', ''play'']"

definition mqtt_onConnect :: "mqtt_client \<Rightarrow> (string \<times> byte) list option \<times> mqtt_client" where
  "mqtt_onConnect c =
     (case tg_Go (mc_tasks c) of
        (Inl _, g) \<Rightarrow> (None, c\<lparr>mc_tasks := g\<rparr>)
      | (Inr _, g) \<Rightarrow> (Some (mqtt_topics c), c\<lparr>mc_tasks := g\<rparr>))"

subsection \<open>Connecting, publishing, closing\<close>

text \<open>\<open>Close\<close> runs once: it closes the group and, when the tasks are joined, disconnects with 250 ms of grace.\<close>

definition mqtt_Close :: "mqtt_client \<Rightarrow> mqtt_client" where
  "mqtt_Close c = (if mc_closing c then c else c\<lparr>mc_closing := True, mc_tasks := tg_Close (mc_tasks c)\<rparr>)"

definition mqtt_disconnects :: "mqtt_client \<Rightarrow> nat option" where
  "mqtt_disconnects c = (if mc_closing c \<and> tg_joined (mc_tasks c) then Some 250 else None)"

text \<open>The \<open>select\<close> of \<open>Connect\<close>: the context's error, or what the token answered.\<close>

definition mqtt_Connect :: "go_error + go_error option \<Rightarrow> mqtt_client \<Rightarrow> go_error option \<times> mqtt_client" where
  "mqtt_Connect selected c =
     (case selected of Inl cerr \<Rightarrow> (Some cerr, mqtt_Close c) | Inr token \<Rightarrow> (token, c))"

text \<open>What \<open>Publish\<close> hands to paho: topic, quality of service, not retained, payload; the task is a token of the group.\<close>

record mqtt_publication =
  pb_topic :: string
  pb_QoS :: byte
  pb_retained :: bool
  pb_payload :: "byte list"

definition mqtt_Publish ::
    "bool \<Rightarrow> (response \<Rightarrow> byte list result) \<Rightarrow> response \<Rightarrow> mqtt_client \<Rightarrow> mqtt_publication option \<times> mqtt_client" where
  "mqtt_Publish up marshal event c =
     (if \<not> up then (None, c)
      else case marshal event of
        Inl _ \<Rightarrow> (None, c)
      | Inr payload \<Rightarrow>
          let topic = eventTopic c (rp_Event event)
          in (case tg_Go (mc_tasks c) of
                (Inl _, g) \<Rightarrow> (None, c\<lparr>mc_tasks := g\<rparr>)
              | (Inr _, g) \<Rightarrow>
                  (Some \<lparr>pb_topic = topic, pb_QoS = ms_QoS (mc_cfg c), pb_retained = False, pb_payload = payload\<rparr>,
                   c\<lparr>mc_tasks := g\<rparr>)))"

subsection \<open>Commands\<close>

definition mqtt_error :: "string \<Rightarrow> string \<Rightarrow> response" where
  "mqtt_error nodeID message = empty_response\<lparr>rp_Event := ''error'', rp_NodeID := nodeID, rp_Status := ''error'', rp_Message := message\<rparr>"

definition mqtt_onMessage ::
    "(byte list \<Rightarrow> request result) \<Rightarrow> mqtt_client \<Rightarrow> string \<Rightarrow> byte list \<Rightarrow> executor \<Rightarrow> response list \<times> executor" where
  "mqtt_onMessage unmarshal c topic payload e =
     (if 8388608 < length payload then ([], e)
      else case unmarshal payload of
        Inl _ \<Rightarrow> ([mqtt_error [] ''invalid JSON payload''], e)
      | Inr parsed \<Rightarrow>
          let req = (if rq_Action parsed = [] then parsed\<lparr>rq_Action := actionFromTopic topic (ms_TopicPrefix (mc_cfg c))\<rparr> else parsed)
          in (case executor_Submit req e of
                (Some err, e') \<Rightarrow> ([mqtt_error (rq_NodeID req) (err_text err)], e')
              | (None, e') \<Rightarrow> ([], e')))"

subsection \<open>Properties\<close>

lemma action_cmdTopic [simp]: "actionFromTopic (cmdTopic c a) (ms_TopicPrefix (mc_cfg c)) = a"
  by (cases a) (simp_all add: actionFromTopic_def cmdTopic_def)

lemma event_is_no_command: "actionFromTopic (eventTopic c e) (ms_TopicPrefix (mc_cfg c)) = [] \<and> eventTopic c e \<notin> fst ` set (mqtt_topics c)"
  by (simp add: actionFromTopic_def eventTopic_def cmdTopic_def mqtt_topics_def)

lemma mqtt_New_topics:
  "ms_TopicPrefix (mc_cfg (fst (mqtt_NewClient unix ctx settings))) \<noteq> [] \<and>
   ms_QoS (mc_cfg (fst (mqtt_NewClient unix ctx settings))) \<le> 2"
  by (auto simp: mqtt_NewClient_def mqtt_defaults_def Let_def)

text \<open>After \<open>Close\<close> nothing more is handed to paho, and a second \<open>Close\<close> does nothing.\<close>

lemma mqtt_closed_is_quiet:
  assumes "mc_closing c \<longrightarrow> tg_closed (mc_tasks c)"
  shows "fst (mqtt_Publish up marshal event (mqtt_Close c)) = None \<and> fst (mqtt_onConnect (mqtt_Close c)) = None \<and>
    mqtt_Close (mqtt_Close c) = mqtt_Close c"
  using assms by (auto simp: mqtt_Publish_def mqtt_onConnect_def mqtt_Close_def tg_Close_def tg_cancel_def tg_Go_def tg_Start_def Let_def
      split: sum.splits option.splits)

text \<open>
  What a submitted request does to the executor: it becomes the request of a new task, which executes it as it
  stands, or the executor is as it was.
\<close>

lemma executor_Submit_cases:
  "executor_Submit req e = (None, e') \<Longrightarrow> req_Validate req = None \<and>
     ex_submitted e' = ex_submitted e @ [(length (tg_tokens (ex_tasks e)), req)] \<and>
     length (tg_tokens (ex_tasks e')) = length (tg_tokens (ex_tasks e)) + 1 \<and>
     tg_active (ex_tasks e') = tg_active (ex_tasks e) + 1 \<and> tg_active (ex_tasks e) < tg_limit (ex_tasks e)"
  "executor_Submit req e = (Some err, e') \<Longrightarrow> e' = e"
  using tg_Start_refused [of "tg_ctx (ex_tasks e)" "ex_tasks e"]
  by (auto simp: executor_Submit_def tg_Go_def tg_Start_def split: option.splits prod.splits sum.splits if_splits)

lemma run_submitted_Submit:
  assumes "executor_Submit req e = (None, e')"
  shows "run_submitted env e' cerr (length (tg_tokens (ex_tasks e))) = Some (Execute env e cerr req)"
proof -
  have "ex_brain e' = ex_brain e \<and> ex_speaker_cfg e' = ex_speaker_cfg e \<and> ex_AudioBaseDir e' = ex_AudioBaseDir e"
    using assms by (auto simp: executor_Submit_def split: option.splits prod.splits sum.splits)
  then have "Execute env e' cerr req = Execute env e cerr req" by (simp only: Execute_def)
  then show ?thesis using executor_Submit_cases(1) [OF assms] by (simp add: run_submitted_def)
qed

text \<open>C35: A message on a command topic becomes exactly the command it states. On the topic of an action, a payload
  without an action is that action; a payload that names one keeps it; every other field is the one of the payload. A
  valid request is submitted once: one more task is admitted, the request it holds is that very request, running
  it is executing that request, and nothing is published; a request that is refused, like a payload that is no
  JSON, is answered by exactly one error event, which names the node, and starts nothing; a payload over 8 MiB is
  dropped. The client's own events are never a command: their topics are not subscribed and name no action.\<close>

theorem mqtt_message_handled:
  assumes "mqtt_onMessage unmarshal c topic payload e = (events, e')" and "(topic, q) \<in> set (mqtt_topics c)"
  shows "\<exists>a. topic = cmdTopic c a \<and> a \<in> {''tts'', ''asr'', ''speaker_id'', ''ask'', ''play''} \<and> eventTopic c ev \<noteq> topic \<and>
    (8388608 < length payload \<longrightarrow> events = [] \<and> e' = e) \<and>
    (length payload \<le> 8388608 \<longrightarrow>
      (case unmarshal payload of
         Inl _ \<Rightarrow> events = [mqtt_error [] ''invalid JSON payload''] \<and> e' = e
       | Inr parsed \<Rightarrow>
           let req = parsed\<lparr>rq_Action := if rq_Action parsed = [] then a else rq_Action parsed\<rparr>
           in (case fst (executor_Submit req e) of
                 Some err \<Rightarrow> events = [mqtt_error (rq_NodeID parsed) (err_text err)] \<and> e' = e
               | None \<Rightarrow> events = [] \<and> req_Validate req = None \<and>
                   ex_submitted e' = ex_submitted e @ [(length (tg_tokens (ex_tasks e)), req)] \<and>
                   run_submitted env e' cerr (length (tg_tokens (ex_tasks e))) = Some (Execute env e cerr req) \<and>
                   tg_active (ex_tasks e') = tg_active (ex_tasks e) + 1 \<and> tg_active (ex_tasks e) < tg_limit (ex_tasks e))))"
proof -
  from assms(2) obtain a where a: "topic = cmdTopic c a" "a \<in> {''tts'', ''asr'', ''speaker_id'', ''ask'', ''play''}"
    unfolding mqtt_topics_def by auto
  have "(topic, q) \<in> set (mqtt_topics c) \<Longrightarrow> topic \<in> fst ` set (mqtt_topics c)" by force
  then have "eventTopic c ev \<noteq> topic" using assms(2) event_is_no_command [of c ev] by metis
  moreover have "length payload \<le> 8388608 \<Longrightarrow> (case unmarshal payload of
         Inl _ \<Rightarrow> events = [mqtt_error [] ''invalid JSON payload''] \<and> e' = e
       | Inr parsed \<Rightarrow>
           let req = parsed\<lparr>rq_Action := if rq_Action parsed = [] then a else rq_Action parsed\<rparr>
           in (case fst (executor_Submit req e) of
                 Some err \<Rightarrow> events = [mqtt_error (rq_NodeID parsed) (err_text err)] \<and> e' = e
               | None \<Rightarrow> events = [] \<and> req_Validate req = None \<and>
                   ex_submitted e' = ex_submitted e @ [(length (tg_tokens (ex_tasks e)), req)] \<and>
                   run_submitted env e' cerr (length (tg_tokens (ex_tasks e))) = Some (Execute env e cerr req) \<and>
                   tg_active (ex_tasks e') = tg_active (ex_tasks e) + 1 \<and> tg_active (ex_tasks e) < tg_limit (ex_tasks e)))"
  proof (cases "unmarshal payload")
    case (Inr parsed)
    let ?req = "parsed\<lparr>rq_Action := if rq_Action parsed = [] then a else rq_Action parsed\<rparr>"
    have req: "(if rq_Action parsed = [] then parsed\<lparr>rq_Action := actionFromTopic topic (ms_TopicPrefix (mc_cfg c))\<rparr> else parsed) = ?req"
      using a(1) by (cases parsed) simp
    assume "length payload \<le> 8388608"
    then have m: "(case executor_Submit ?req e of (Some err, e') \<Rightarrow> ([mqtt_error (rq_NodeID ?req) (err_text err)], e')
        | (None, e') \<Rightarrow> ([], e')) = (events, e')"
      using assms(1) unfolding mqtt_onMessage_def Let_def Inr sum.case req by simp
    show ?thesis
      using m executor_Submit_cases [of ?req e] run_submitted_Submit [of ?req e] unfolding Inr sum.case Let_def
      by (cases "executor_Submit ?req e") (auto split: option.splits)
  qed (use assms(1) in \<open>simp add: mqtt_onMessage_def\<close>)
  moreover have "8388608 < length payload \<longrightarrow> events = [] \<and> e' = e"
    using assms(1) by (intro impI) (simp add: mqtt_onMessage_def)
  ultimately show ?thesis using a by (intro exI [of _ a] conjI impI) simp_all
qed

definition sample_mqtt :: mqtt_client where
  "sample_mqtt = fst (mqtt_NewClient 0 None
     \<lparr>ms_Broker = ''tcp://localhost:1883'', ms_ClientID = [], ms_Username = [], ms_Password = [], ms_TopicPrefix = [], ms_QoS = 7,
      ms_AutoReconnect = True\<rparr>)"

theorem mqtt_message_handled_witness:
  "ex_submitted (snd (mqtt_onMessage (\<lambda>_. Inr (sample_tts\<lparr>rq_Action := [], rq_Priority := 7, rq_BargeIn := True\<rparr>)) sample_mqtt
       ''gocalis/cmd/tts'' [] sample_executor)) = [(0, sample_tts\<lparr>rq_Priority := 7, rq_BargeIn := True\<rparr>)]"
proof -
  let ?req = "sample_tts\<lparr>rq_Priority := 7, rq_BargeIn := True\<rparr>"
  let ?un = "\<lambda>_ :: byte list. Inr (sample_tts\<lparr>rq_Action := [], rq_Priority := 7, rq_BargeIn := True\<rparr>) :: request result"
  obtain events e' where m: "mqtt_onMessage ?un sample_mqtt ''gocalis/cmd/tts'' [] sample_executor = (events, e')" by fastforce
  have t: "(''gocalis/cmd/tts'', 1) \<in> set (mqtt_topics sample_mqtt)"
    by (simp add: mqtt_topics_def sample_mqtt_def mqtt_NewClient_def mqtt_defaults_def cmdTopic_def Let_def)
  obtain a where a: "''gocalis/cmd/tts'' = cmdTopic sample_mqtt a" and
    s: "case fst (executor_Submit (?req\<lparr>rq_Action := a\<rparr>) sample_executor) of Some err \<Rightarrow> True
        | None \<Rightarrow> ex_submitted e' = ex_submitted sample_executor @ [(length (tg_tokens (ex_tasks sample_executor)), ?req\<lparr>rq_Action := a\<rparr>)]"
    using mqtt_message_handled [OF m t, where ev = "[]" and env = sample_exec_env and cerr = None]
    by (auto simp: Let_def split: option.splits)
  have "a = ''tts''" using a by (simp add: sample_mqtt_def mqtt_NewClient_def mqtt_defaults_def cmdTopic_def Let_def)
  then have q: "?req\<lparr>rq_Action := a\<rparr> = ?req" by (simp add: sample_tts_def)
  have "\<not> is_blank ''hi''" by (rule not_blank, rule list.set_intros(1)) (simp add: utf8_spaces_def)
  then have "req_Validate ?req = None" by (simp add: req_Validate_def sample_tts_def)
  then have "fst (executor_Submit ?req sample_executor) = None"
    by (simp add: executor_Submit_def sample_executor_def NewExecutor_def tg_New_def tg_Go_def tg_Start_def)
  then show ?thesis using s m unfolding q by (simp add: sample_executor_def NewExecutor_def tg_New_def)
qed

end
