(* ===== verification/Gateway.thy ===== *)
theory Gateway
  imports Mqtt Url
begin

text \<open>
  The program (cmd/main.go): how threads are divided, how the diagnostic modes find their node and its signaling URL,
  how a recording is replayed through the voice activity detector, and how the gateway is put together and taken down.
  Flags, log lines and the command of the demo are left out. \<open>log.Fatalf\<close> ends the process: it is an outcome.
\<close>

subsection \<open>Configuration of the parts\<close>

definition activeNodes :: "app_config \<Rightarrow> int" where
  "activeNodes cfg = int (length (filter (\<lambda>n. nc_Type n = ''rtc_stream'' \<or> nc_Type n = ''local'') (cf_Nodes cfg)))"

definition threadsPerModel :: "app_config \<Rightarrow> int" where
  "threadsPerModel cfg =
     (let numNodes = (if activeNodes cfg \<le> 0 then 1 else activeNodes cfg);
          threads = go_div (cf_GlobalNumThreads cfg) numNodes
      in if threads < 1 then 1 else threads)"

definition main_mqtt :: "mqtt_config \<Rightarrow> mqtt_settings" where
  "main_mqtt q =
     \<lparr>ms_Broker = mq_Broker q, ms_ClientID = mq_ClientID q, ms_Username = mq_Username q, ms_Password = mq_Password q,
      ms_TopicPrefix = mq_TopicPrefix q, ms_QoS = word_of_int (mq_QoS q), ms_AutoReconnect = mq_AutoReconnect q\<rparr>"

fun findNodeConfig :: "node_config list \<Rightarrow> string \<Rightarrow> node_config option" where
  "findNodeConfig [] nodeID = None"
| "findNodeConfig (n # ns) nodeID = (if nc_NodeID n = nodeID then Some n else findNodeConfig ns nodeID)"

definition diagnosticStreamName :: "node_config \<Rightarrow> string \<Rightarrow> string" where
  "diagnosticStreamName nodeCfg override = (if override \<noteq> [] then override else rs_StreamName (nc_RTCStream nodeCfg))"

subsection \<open>The diagnostic modes\<close>

text \<open>\<open>Fatal\<close> is the message the process ended with.\<close>

datatype 'a outcome = Fatal string | Ran 'a

definition wake_node :: "app_config \<Rightarrow> string \<Rightarrow> string \<Rightarrow> string \<Rightarrow> node_config outcome" where
  "wake_node cfg mode nodeID audioFile =
     (if audioFile = [] then Fatal (mode @ '' mode requires -audio-file'')
      else case findNodeConfig (cf_Nodes cfg) nodeID of
        None \<Rightarrow> Fatal (''node '' @ go_quote nodeID @ '' not found in config'')
      | Some n \<Rightarrow> Ran n)"

text \<open>The node and signaling URL of the three modes over WebRTC, whose names differ only in the messages.\<close>

definition rtc_target ::
    "(string \<Rightarrow> go_endpoint result) \<Rightarrow> app_config \<Rightarrow> string \<Rightarrow> string \<Rightarrow> string \<Rightarrow> (node_config \<times> string) outcome" where
  "rtc_target parse cfg mode nodeID streamName =
     (case findNodeConfig (cf_Nodes cfg) nodeID of
        None \<Rightarrow> Fatal (''node '' @ go_quote nodeID @ '' not found in config'')
      | Some n \<Rightarrow>
          if nc_Type n \<noteq> ''rtc_stream''
          then Fatal (''node '' @ go_quote nodeID @ '' is type '' @ go_quote (nc_Type n) @ '', not rtc_stream'')
          else (case diagnosticSignalingURL parse (rs_ApiURL (nc_RTCStream n)) (diagnosticStreamName n streamName) of
                  Inl err \<Rightarrow> Fatal (mode @ '': failed to build signaling URL: '' @ err_text err)
                | Inr signaling \<Rightarrow> Ran (n, signaling)))"

text \<open>
  \<open>wake-file-vad\<close>: the recording is fed in chunks of 320 samples, and after each chunk, and after the flush, every
  segment the detector has ready goes to the wake word stream. \<open>vd_ready\<close> is what its queue holds, oldest first.
\<close>

record 'v vad_gate =
  vd_accept :: "f32 list \<Rightarrow> 'v \<Rightarrow> 'v"
  vd_flush :: "'v \<Rightarrow> 'v"
  vd_ready :: "'v \<Rightarrow> f32 list list"
  vd_drained :: "'v \<Rightarrow> 'v"

function vad_chunks :: "f32 list \<Rightarrow> f32 list list" where
  "vad_chunks samples = (if samples = [] then [] else take 320 samples # vad_chunks (drop 320 samples))"
  by pat_completeness auto
termination by (relation "measure length") auto

declare vad_chunks.simps [simp del]

definition vad_feed :: "'v vad_gate \<Rightarrow> f32 list \<Rightarrow> 'v \<times> f32 list list \<Rightarrow> 'v \<times> f32 list list" where
  "vad_feed g samples s =
     (let v = vd_accept g samples (fst s) in (vd_drained g v, snd s @ vd_ready g v))"

definition wake_file_vad :: "'v vad_gate \<Rightarrow> f32 list \<Rightarrow> 'v \<Rightarrow> f32 list list" where
  "wake_file_vad g samples v0 =
     (let (v, heard) = fold (vad_feed g) (vad_chunks samples) (v0, [])
      in heard @ vd_ready g (vd_flush g v))"

text \<open>
  \<open>rtc-loopback\<close>: in each cycle what the callback was given while the flag was up is played back; a failed playback or
  the end of the context ends the loop. A cycle brings the chunks of the recording, whether the context ended in it,
  the answer of the playback, and whether the context ended in the pause.
\<close>

record loop_cycle =
  lc_chunks :: "f32 list list"
  lc_stopped :: bool
  lc_played :: "go_error option"
  lc_stopped_after :: bool

fun loopback :: "loop_cycle list \<Rightarrow> i16 list list" where
  "loopback [] = []"
| "loopback (c # cs) =
     (if lc_stopped c then []
      else
        let recorded = concat (lc_chunks c);
            play = (if recorded = [] then [] else [FloatToPCM16 recorded])
        in if recorded \<noteq> [] \<and> lc_played c \<noteq> None then play
           else if lc_stopped_after c then play
           else play @ loopback cs)"

subsection \<open>The gateway\<close>

datatype gw_part = Gp_tts | Gp_asr | Gp_speaker | Gp_ws | Gp_web | Gp_tasks | Gp_mqtt | Gp_watcher | Gp_node nat

text \<open>
  \<open>Gw_closes\<close> is a close that waits until the part has ended; \<open>Gw_again\<close> a second close of one that was closed, which
  does nothing; \<open>Gw_subscribes\<close> adds a publisher to the event bus; \<open>Gw_fatal\<close> ends the process.
\<close>

datatype gw_effect =
    Gw_opens gw_part
  | Gw_closes gw_part
  | Gw_again gw_part
  | Gw_subscribes gw_part
  | Gw_waits
  | Gw_cancels
  | Gw_fatal string

record gateway_env =
  ge_tts :: "go_error option"
  ge_asr :: "go_error option"
  ge_speaker :: "go_error option"
  ge_mqtt :: "go_error option"
  ge_watcher :: "go_error option"

definition gw_mqtt :: "app_config \<Rightarrow> bool" where "gw_mqtt cfg = mq_Enabled (cf_MQTT cfg)"

definition gw_watcher :: "gateway_env \<Rightarrow> app_config \<Rightarrow> bool" where
  "gw_watcher env cfg \<longleftrightarrow> si_EmbeddingsDir (mc_SpeakerID (cf_Models cfg)) \<noteq> [] \<and> ge_watcher env = None"

definition gw_node_parts :: "app_config \<Rightarrow> gw_part list" where
  "gw_node_parts cfg = map Gp_node [0..<length (cf_Nodes cfg)]"

text \<open>From the watcher to the return of the mode: nodes, the wait, the ordered shutdown, the deferred calls.\<close>

definition gw_serve :: "gateway_env \<Rightarrow> app_config \<Rightarrow> gw_effect list" where
  "gw_serve env cfg =
     (if gw_watcher env cfg then [Gw_opens Gp_watcher] else []) @
     map Gw_opens (gw_node_parts cfg) @
     [Gw_waits, Gw_cancels, Gw_closes Gp_ws, Gw_closes Gp_web, Gw_closes Gp_tasks] @
     (if gw_watcher env cfg then [Gw_closes Gp_watcher] else []) @
     map Gw_closes (gw_node_parts cfg) @
     (if gw_mqtt cfg then [Gw_closes Gp_mqtt] else []) @
     (if gw_watcher env cfg then [Gw_again Gp_watcher] else []) @
     (if gw_mqtt cfg then [Gw_again Gp_mqtt] else []) @
     [Gw_cancels]"

definition gw_webrtc :: "gateway_env \<Rightarrow> app_config \<Rightarrow> gw_effect list" where
  "gw_webrtc env cfg =
     [Gw_opens Gp_tasks, Gw_opens Gp_ws, Gw_subscribes Gp_ws, Gw_opens Gp_web, Gw_subscribes Gp_web] @
     (if \<not> gw_mqtt cfg then gw_serve env cfg
      else case ge_mqtt env of
        Some err \<Rightarrow> [Gw_fatal (''Failed to connect MQTT client: '' @ err_text err)]
      | None \<Rightarrow> [Gw_opens Gp_mqtt, Gw_subscribes Gp_mqtt] @ gw_serve env cfg)"

text \<open>The engines, each with its deferred close; a fatal error anywhere below runs none of them.\<close>

fun gw_with :: "gw_part \<Rightarrow> gw_effect list \<Rightarrow> gw_effect list" where
  "gw_with p es = Gw_opens p # es @ (if \<exists>m. Gw_fatal m \<in> set es then [] else [Gw_closes p])"

definition gateway_main :: "gateway_env \<Rightarrow> app_config \<Rightarrow> gw_effect list" where
  "gateway_main env cfg =
     (case ge_tts env of
        Some err \<Rightarrow> [Gw_fatal (''Failed to initialize TTS Engine: '' @ err_text err)]
      | None \<Rightarrow> gw_with Gp_tts
          (case ge_asr env of
             Some err \<Rightarrow> [Gw_fatal (''Failed to initialize ASR Engine: '' @ err_text err)]
           | None \<Rightarrow> gw_with Gp_asr
               (case ge_speaker env of
                  Some err \<Rightarrow> [Gw_fatal (''Failed to initialize Speaker ID Engine: '' @ err_text err)]
                | None \<Rightarrow> gw_with Gp_speaker (gw_webrtc env cfg))))"

subsection \<open>Threads and chunks\<close>

text \<open>Every model has a thread, and the active nodes together do not exceed what was configured.\<close>

lemma threads_within_limit:
  "1 \<le> threadsPerModel cfg \<and>
   (1 \<le> activeNodes cfg \<and> activeNodes cfg \<le> cf_GlobalNumThreads cfg \<longrightarrow> threadsPerModel cfg * activeNodes cfg \<le> cf_GlobalNumThreads cfg)"
  by (auto simp: threadsPerModel_def Let_def go_div_nonneg mult.commute minus_mod_eq_mult_div [symmetric])

lemma vad_chunks_spec: "concat (vad_chunks xs) = xs \<and> (\<forall>c \<in> set (vad_chunks xs). c \<noteq> [] \<and> length c \<le> 320)"
proof (induction xs rule: vad_chunks.induct)
  case (1 xs)
  show ?case
  proof (cases "xs = []")
    case True
    then show ?thesis by (simp add: vad_chunks.simps [of "[]"])
  next
    case False
    then have "vad_chunks xs = take 320 xs # vad_chunks (drop 320 xs)" by (subst vad_chunks.simps) simp
    then show ?thesis using 1 [OF False] False by simp
  qed
qed

lemma findNodeConfig_spec:
  "findNodeConfig ns i = Some n \<Longrightarrow> n \<in> set ns \<and> nc_NodeID n = i"
  "findNodeConfig ns i = None \<Longrightarrow> i \<notin> nc_NodeID ` set ns"
  by (induction ns) (auto split: if_splits)

text \<open>The byte the quality of service is cut to keeps every value an accepted configuration has.\<close>

lemma main_mqtt_qos:
  assumes "0 \<le> mq_QoS q" and "mq_QoS q \<le> 2"
  shows "ms_QoS (mqtt_defaults unix (main_mqtt q)) = word_of_int (mq_QoS q)"
proof -
  have "mq_QoS q \<in> {0, 1, 2}" using assms by auto
  then show ?thesis by (auto simp: mqtt_defaults_def main_mqtt_def Let_def)
qed

subsection \<open>Taking the gateway down\<close>

abbreviation gw_engines :: "gw_part set" where "gw_engines \<equiv> {Gp_tts, Gp_asr, Gp_speaker}"

fun gw_user :: "gw_part \<Rightarrow> bool" where
  "gw_user Gp_tasks = True"
| "gw_user Gp_watcher = True"
| "gw_user (Gp_node i) = True"
| "gw_user _ = False"

text \<open>
  The order that is safe: what runs on the models is started with all of them up, and a model is closed only when none
  of its users is left; the commands are joined only after both servers have stopped taking new ones; nothing is
  closed twice, and when the program returns nothing is left. A fatal error ends the process, so nothing follows it.
\<close>

fun gw_ok :: "gw_part set \<Rightarrow> gw_effect list \<Rightarrow> bool" where
  "gw_ok live [] \<longleftrightarrow> live = {}"
| "gw_ok live (Gw_opens p # es) \<longleftrightarrow> p \<notin> live \<and> (gw_user p \<longrightarrow> gw_engines \<subseteq> live) \<and> gw_ok (insert p live) es"
| "gw_ok live (Gw_closes p # es) \<longleftrightarrow>
     p \<in> live \<and> (p \<in> gw_engines \<longrightarrow> (\<forall>q \<in> live. \<not> gw_user q)) \<and> (p = Gp_tasks \<longrightarrow> Gp_ws \<notin> live \<and> Gp_web \<notin> live) \<and>
     gw_ok (live - {p}) es"
| "gw_ok live (Gw_again p # es) \<longleftrightarrow> p \<notin> live \<and> gw_ok live es"
| "gw_ok live (Gw_subscribes p # es) \<longleftrightarrow> p \<in> live \<and> gw_ok live es"
| "gw_ok live (Gw_waits # es) \<longleftrightarrow> gw_engines \<union> {Gp_tasks, Gp_ws, Gp_web} \<subseteq> live \<and> gw_ok live es"
| "gw_ok live (Gw_cancels # es) \<longleftrightarrow> gw_ok live es"
| "gw_ok live (Gw_fatal m # es) \<longleftrightarrow> es = []"

lemma gw_ok_opens:
  "distinct ps \<Longrightarrow> set ps \<inter> live = {} \<Longrightarrow> gw_engines \<subseteq> live \<Longrightarrow> gw_ok live (map Gw_opens ps @ es) = gw_ok (live \<union> set ps) es"
proof (induction ps arbitrary: live)
  case (Cons p ps)
  have "gw_ok live (map Gw_opens (p # ps) @ es) = gw_ok (insert p live) (map Gw_opens ps @ es)" using Cons.prems by simp
  also have "\<dots> = gw_ok (insert p live \<union> set ps) es" by (rule Cons.IH) (use Cons.prems in auto)
  finally show ?case by simp
qed simp

lemma gw_ok_closes:
  "distinct ps \<Longrightarrow> set ps \<subseteq> range Gp_node \<Longrightarrow> set ps \<subseteq> live \<Longrightarrow> gw_ok live (map Gw_closes ps @ es) = gw_ok (live - set ps) es"
proof (induction ps arbitrary: live)
  case (Cons p ps)
  then obtain i where "p = Gp_node i" by auto
  then have "gw_ok live (map Gw_closes (p # ps) @ es) = gw_ok (live - {p}) (map Gw_closes ps @ es)" using Cons.prems by simp
  also have "\<dots> = gw_ok (live - {p} - set ps) es" by (rule Cons.IH) (use Cons.prems in auto)
  also have "live - {p} - set ps = live - set (p # ps)" by auto
  finally show ?case .
qed simp

definition gw_nodes :: "app_config \<Rightarrow> gw_part set" where
  "gw_nodes cfg = Gp_node ` {..<length (cf_Nodes cfg)}"

lemma gw_node_parts_simps:
  "set (gw_node_parts cfg) = gw_nodes cfg" "distinct (gw_node_parts cfg)" "gw_nodes cfg \<subseteq> range Gp_node"
  "Gp_tts \<notin> gw_nodes cfg" "Gp_asr \<notin> gw_nodes cfg" "Gp_speaker \<notin> gw_nodes cfg" "Gp_ws \<notin> gw_nodes cfg" "Gp_web \<notin> gw_nodes cfg"
  "Gp_tasks \<notin> gw_nodes cfg" "Gp_mqtt \<notin> gw_nodes cfg" "Gp_watcher \<notin> gw_nodes cfg"
  by (auto simp: gw_node_parts_def gw_nodes_def distinct_map inj_on_def)

lemma gw_serve_ok:
  assumes "gw_ok gw_engines rest"
  shows "gw_ok (gw_engines \<union> {Gp_tasks, Gp_ws, Gp_web} \<union> (if gw_mqtt cfg then {Gp_mqtt} else {})) (gw_serve env cfg @ rest)"
proof -
  define W where "W = (if gw_watcher env cfg then {Gp_watcher} else {})"
  define M where "M = (if gw_mqtt cfg then {Gp_mqtt} else {})"
  note n = gw_node_parts_simps [of cfg]
  let ?E = gw_engines
  let ?S = "{Gp_tasks, Gp_ws, Gp_web} :: gw_part set"
  define t3 where "t3 = (if gw_mqtt cfg then [Gw_closes Gp_mqtt] else []) @ (if gw_watcher env cfg then [Gw_again Gp_watcher] else []) @
     (if gw_mqtt cfg then [Gw_again Gp_mqtt] else []) @ [Gw_cancels] @ rest"
  define t2 where "t2 = [Gw_waits, Gw_cancels, Gw_closes Gp_ws, Gw_closes Gp_web, Gw_closes Gp_tasks] @
     (if gw_watcher env cfg then [Gw_closes Gp_watcher] else []) @ map Gw_closes (gw_node_parts cfg) @ t3"
  have t3: "gw_ok (?E \<union> M) t3" using assms by (simp add: t3_def M_def insert_Diff_if insert_commute)
  have d: "?E \<union> M \<union> gw_nodes cfg - gw_nodes cfg = ?E \<union> M" using n by (auto simp: M_def)
  have nodes: "gw_ok (?E \<union> M \<union> gw_nodes cfg) (map Gw_closes (gw_node_parts cfg) @ t3)"
  proof -
    have "set (gw_node_parts cfg) \<subseteq> range Gp_node" "set (gw_node_parts cfg) \<subseteq> ?E \<union> M \<union> gw_nodes cfg"
      unfolding n(1) using n(3) by blast+
    from gw_ok_closes [OF n(2) this] show ?thesis unfolding n(1) d using t3 by blast
  qed
  have "?E \<union> ?S \<union> M \<union> W \<union> gw_nodes cfg - {Gp_ws} - {Gp_web} - {Gp_tasks} - W = ?E \<union> M \<union> gw_nodes cfg"
    using n by (auto simp: M_def W_def)
  then have t2: "gw_ok (?E \<union> ?S \<union> M \<union> W \<union> gw_nodes cfg) t2"
    using nodes by (cases "gw_watcher env cfg") (simp_all add: t2_def W_def)
  have "gw_ok (?E \<union> ?S \<union> M \<union> W) (map Gw_opens (gw_node_parts cfg) @ t2)"
    using t2 gw_ok_opens [of "gw_node_parts cfg" "?E \<union> ?S \<union> M \<union> W" t2] n by (auto simp: M_def W_def)
  then have "gw_ok (?E \<union> ?S \<union> M) ((if gw_watcher env cfg then [Gw_opens Gp_watcher] else []) @ map Gw_opens (gw_node_parts cfg) @ t2)"
    by (cases "gw_watcher env cfg"; cases "gw_mqtt cfg") (simp_all add: W_def M_def insert_commute)
  then show ?thesis by (simp add: gw_serve_def t2_def t3_def M_def)
qed


end
