(* ===== verification/Diag_Modes.thy ===== *)
theory Diag_Modes
  imports Gateway Wav
begin

text \<open>
  The diagnostic modes of the program (cmd/main.go): transcribing and searching a recording, and recording, speaking and
  looping over WebRTC. A mode is a function of what its engines, the client and the file system answer and gives the
  trace of what it did; \<open>log.Fatalf\<close> ends the process and runs no deferred call. Log lines are left out but for results.
\<close>

datatype diag_part = Dp_client | Dp_tts | Dp_asr | Dp_vad | Dp_detector | Dp_stream

datatype diag_effect =
    Dg_opens diag_part
  | Dg_closes diag_part
  | Dg_connects string
  | Dg_speaks string
  | Dg_plays "i16 list"
  | Dg_writes string "byte list"
  | Dg_transcribed string
  | Dg_keyword "string option"
  | Dg_segments nat nat
  | Dg_fatal string

definition is_fatal :: "diag_effect list \<Rightarrow> bool" where
  "is_fatal es \<longleftrightarrow> list_ex (\<lambda>e. case e of Dg_fatal _ \<Rightarrow> True | _ \<Rightarrow> False) es"

text \<open>A constructor with its fatal error, the deferred close of what it gave, and the rest of the mode in between.\<close>

definition opened_with :: "diag_part \<Rightarrow> go_error option \<Rightarrow> string \<Rightarrow> diag_effect list \<Rightarrow> diag_effect list" where
  "opened_with p err message es =
     (case err of
        Some e \<Rightarrow> [Dg_fatal (message @ '': '' @ err_text e)]
      | None \<Rightarrow> Dg_opens p # es @ (if is_fatal es then [] else [Dg_closes p]))"

text \<open>
  What the modes find. \<open>dg_recorded\<close> are the chunks the capture callback was given when the timer fired, \<open>dg_ctx\<close> the
  error of the context when it ended first; \<open>dg_wave\<close> is the recording that was read, \<open>dg_heard\<close> how often the wake
  word stream reported a keyword for the segments it was given.
\<close>

record 'v diag_env =
  dg_parse :: "string \<Rightarrow> go_endpoint result"
  dg_client :: "go_error option"
  dg_connect :: "go_error option"
  dg_tts :: "go_error option"
  dg_asr :: "go_error option"
  dg_detector :: "go_error option"
  dg_newVAD :: "'v option"
  dg_gate :: "'v vad_gate"
  dg_stream :: "go_error option"
  dg_wave :: "f32 list option"
  dg_heard :: "f32 list list \<Rightarrow> nat"
  dg_transcription :: "string result"
  dg_detection :: "(bool \<times> string) result"
  dg_recorded :: "f32 list list"
  dg_ctx :: "go_error option"
  dg_write :: "go_error option"
  dg_synthesis :: "go_error option"
  dg_play :: "go_error option"

definition runASRFileMode :: "'v diag_env \<Rightarrow> string \<Rightarrow> diag_effect list" where
  "runASRFileMode env audioFile =
     (if audioFile = [] then [Dg_fatal ''asr-file mode requires -audio-file'']
      else opened_with Dp_asr (dg_asr env) ''ASRFile: failed to initialize ASR engine''
        (case dg_transcription env of
           Inl e \<Rightarrow> [Dg_fatal (''ASRFile: transcription failed: '' @ err_text e)]
         | Inr t \<Rightarrow> [Dg_transcribed t]))"

definition runWakeFileMode :: "'v diag_env \<Rightarrow> app_config \<Rightarrow> string \<Rightarrow> string \<Rightarrow> diag_effect list" where
  "runWakeFileMode env cfg nodeID audioFile =
     (case wake_node cfg ''wake-file'' nodeID audioFile of
        Fatal m \<Rightarrow> [Dg_fatal m]
      | Ran _ \<Rightarrow>
          opened_with Dp_detector (dg_detector env) ''WakeFile: failed to initialize wake detector''
            (case dg_detection env of
               Inl e \<Rightarrow> [Dg_fatal (''WakeFile: detection failed: '' @ err_text e)]
             | Inr (detected, keyword) \<Rightarrow> [Dg_keyword (if detected then Some keyword else None)]))"

definition runWakeFileVADMode :: "'v diag_env \<Rightarrow> app_config \<Rightarrow> string \<Rightarrow> string \<Rightarrow> diag_effect list" where
  "runWakeFileVADMode env cfg nodeID audioFile =
     (case wake_node cfg ''wake-file-vad'' nodeID audioFile of
        Fatal m \<Rightarrow> [Dg_fatal m]
      | Ran _ \<Rightarrow>
          (case dg_newVAD env of
             None \<Rightarrow> [Dg_fatal ''WakeFileVAD: failed to initialize VAD'']
           | Some v \<Rightarrow>
               opened_with Dp_vad None []
                 (opened_with Dp_detector (dg_detector env) ''WakeFileVAD: failed to initialize wake detector''
                   (opened_with Dp_stream (dg_stream env) ''WakeFileVAD: failed to create wake stream''
                     (case dg_wave env of
                        None \<Rightarrow> [Dg_fatal ''WakeFileVAD: failed to read WAV file'']
                      | Some samples \<Rightarrow>
                          (let segments = wake_file_vad (dg_gate env) samples v
                           in [Dg_segments (length segments) (dg_heard env segments)]))))))"

definition runRTCRecordMode :: "'v diag_env \<Rightarrow> app_config \<Rightarrow> string \<Rightarrow> string \<Rightarrow> string \<Rightarrow> diag_effect list" where
  "runRTCRecordMode env cfg nodeID streamName outputFile =
     (if outputFile = [] then [Dg_fatal ''rtc-record mode requires -audio-file as the output WAV path'']
      else case rtc_target (dg_parse env) cfg ''RTCRecord'' nodeID streamName of
        Fatal m \<Rightarrow> [Dg_fatal m]
      | Ran (n, signaling) \<Rightarrow>
          opened_with Dp_client (dg_client env) ''RTCRecord: failed to create WebRTC client''
            (case dg_connect env of
               Some e \<Rightarrow> [Dg_fatal (''RTCRecord: connect failed: '' @ err_text e)]
             | None \<Rightarrow>
                 Dg_connects signaling #
                 (case dg_ctx env of
                    Some e \<Rightarrow> [Dg_fatal (''RTCRecord: timed out: '' @ err_text e)]
                  | None \<Rightarrow>
                      (case dg_write env of
                         Some e \<Rightarrow> [Dg_fatal (''RTCRecord: failed to write WAV: '' @ err_text e)]
                       | None \<Rightarrow> [Dg_writes outputFile (EncodeWAVFloat32 (concat (dg_recorded env)) 16000)]))))"

definition runRTCSayMode :: "'v diag_env \<Rightarrow> app_config \<Rightarrow> string \<Rightarrow> string \<Rightarrow> string \<Rightarrow> diag_effect list" where
  "runRTCSayMode env cfg nodeID streamName say =
     (case rtc_target (dg_parse env) cfg ''RTCSay'' nodeID streamName of
        Fatal m \<Rightarrow> [Dg_fatal m]
      | Ran (n, signaling) \<Rightarrow>
          opened_with Dp_client (dg_client env) ''RTCSay: failed to create WebRTC client''
            (opened_with Dp_tts (dg_tts env) ''RTCSay: failed to initialize TTS engine''
              (case dg_connect env of
                 Some e \<Rightarrow> [Dg_fatal (''RTCSay: connect failed: '' @ err_text e)]
               | None \<Rightarrow>
                   Dg_connects signaling #
                   (case dg_synthesis env of
                      Some e \<Rightarrow> [Dg_fatal (''RTCSay: synthesis failed: '' @ err_text e)]
                    | None \<Rightarrow>
                        Dg_speaks say #
                        (case dg_play env of
                           Some e \<Rightarrow> [Dg_fatal (''RTCSay: playback failed: '' @ err_text e)]
                         | None \<Rightarrow> [])))))"

text \<open>The cycles until the loop ended; a playback that failed ends the mode, but not the process.\<close>

definition runRTCLoopbackMode :: "'v diag_env \<Rightarrow> app_config \<Rightarrow> string \<Rightarrow> string \<Rightarrow> loop_cycle list \<Rightarrow> diag_effect list" where
  "runRTCLoopbackMode env cfg nodeID streamName cycles =
     (case rtc_target (dg_parse env) cfg ''RTCLoopback'' nodeID streamName of
        Fatal m \<Rightarrow> [Dg_fatal m]
      | Ran (n, signaling) \<Rightarrow>
          opened_with Dp_client (dg_client env) ''RTCLoopback: failed to create WebRTC client''
            (case dg_connect env of
               Some e \<Rightarrow> [Dg_fatal (''RTCLoopback: connect failed: '' @ err_text e)]
             | None \<Rightarrow> Dg_connects signaling # map Dg_plays (loopback cycles)))"

text \<open>The mode the channel names; any other starts the gateway or the demonstration.\<close>

definition run_channel :: "'v diag_env \<Rightarrow> app_config \<Rightarrow> string \<Rightarrow> string \<Rightarrow> string \<Rightarrow> string \<Rightarrow> string \<Rightarrow> loop_cycle list \<Rightarrow> diag_effect list option" where
  "run_channel env cfg channel nodeID audioFile streamName say cycles =
     (if channel = ''wake-file'' then Some (runWakeFileMode env cfg nodeID audioFile)
      else if channel = ''wake-file-vad'' then Some (runWakeFileVADMode env cfg nodeID audioFile)
      else if channel = ''asr-file'' then Some (runASRFileMode env audioFile)
      else if channel = ''rtc-record'' then Some (runRTCRecordMode env cfg nodeID streamName audioFile)
      else if channel = ''rtc-say'' then Some (runRTCSayMode env cfg nodeID streamName say)
      else if channel = ''rtc-loopback'' then Some (runRTCLoopbackMode env cfg nodeID streamName cycles)
      else None)"

subsection \<open>What a mode leaves\<close>

text \<open>Opened parts are closed in the reverse order, or a fatal error was the last thing that happened.\<close>

fun diag_ok :: "diag_part list \<Rightarrow> diag_effect list \<Rightarrow> bool" where
  "diag_ok own [] \<longleftrightarrow> own = []"
| "diag_ok own (Dg_opens p # es) \<longleftrightarrow> p \<notin> set own \<and> diag_ok (p # own) es"
| "diag_ok own (Dg_closes p # es) \<longleftrightarrow> (case own of q # qs \<Rightarrow> p = q \<and> diag_ok qs es | [] \<Rightarrow> False)"
| "diag_ok own (Dg_fatal m # es) \<longleftrightarrow> es = []"
| "diag_ok own (_ # es) \<longleftrightarrow> diag_ok own es"

lemma is_fatal_simps [simp]:
  "is_fatal []  \<longleftrightarrow> False" "is_fatal (Dg_fatal m # es)" "is_fatal (es @ fs) \<longleftrightarrow> is_fatal es \<or> is_fatal fs"
  "is_fatal (Dg_opens p # es) \<longleftrightarrow> is_fatal es" "is_fatal (Dg_closes p # es) \<longleftrightarrow> is_fatal es"
  "is_fatal (Dg_connects u # es) \<longleftrightarrow> is_fatal es" "is_fatal (Dg_speaks u # es) \<longleftrightarrow> is_fatal es"
  "is_fatal (Dg_plays x # es) \<longleftrightarrow> is_fatal es" "is_fatal (Dg_writes f b # es) \<longleftrightarrow> is_fatal es"
  "is_fatal (Dg_transcribed u # es) \<longleftrightarrow> is_fatal es" "is_fatal (Dg_keyword k # es) \<longleftrightarrow> is_fatal es"
  "is_fatal (Dg_segments m' n # es) \<longleftrightarrow> is_fatal es"
  by (simp_all add: is_fatal_def)

lemma loopback_quiet [simp]: "\<not> is_fatal (map Dg_plays xs)"
  "diag_ok own (map Dg_plays xs @ es) \<longleftrightarrow> diag_ok own es"
  by (induction xs) simp_all

lemma modes_release:
  "run_channel env cfg channel nodeID audioFile streamName say cycles = Some es \<Longrightarrow> diag_ok [] es"
  unfolding run_channel_def runWakeFileMode_def runWakeFileVADMode_def runASRFileMode_def runRTCRecordMode_def runRTCSayMode_def
    runRTCLoopbackMode_def opened_with_def
  by (auto split: if_splits outcome.splits option.splits sum.splits prod.splits simp: Let_def)

text \<open>
  \<open>rtc-record\<close> writes one file at most, the one it was asked for, holding all that was heard until the timer, in order, and
  only when the client connected and the recording ran its time; a session that is too short to hear anything leaves an
  empty recording.
\<close>

lemma record_mode_writes:
  assumes "Dg_writes f b \<in> set (runRTCRecordMode env cfg nodeID streamName outputFile)"
  shows "f = outputFile \<and> f \<noteq> [] \<and> b = EncodeWAVFloat32 (concat (dg_recorded env)) 16000 \<and>
    dg_client env = None \<and> dg_connect env = None \<and> dg_ctx env = None \<and>
    (\<exists>n. findNodeConfig (cf_Nodes cfg) nodeID = Some n \<and> nc_Type n = ''rtc_stream'')"
  using assms
  by (auto simp: runRTCRecordMode_def opened_with_def rtc_target_def split: if_splits option.splits sum.splits outcome.splits prod.splits)

text \<open>What \<open>wake-file-vad\<close> reports are the segments of the whole recording, cut into chunks of the live path.\<close>

lemma vad_mode_reports:
  assumes "Dg_segments k n \<in> set (runWakeFileVADMode env cfg nodeID audioFile)"
  shows "\<exists>samples v. dg_wave env = Some samples \<and> dg_newVAD env = Some v \<and>
    k = length (wake_file_vad (dg_gate env) samples v) \<and> n = dg_heard env (wake_file_vad (dg_gate env) samples v)"
  using assms
  by (auto simp: runWakeFileVADMode_def opened_with_def Let_def split: if_splits option.splits outcome.splits)

end
