(* ===== verification/Demo_Mode.thy ===== *)
theory Demo_Mode
  imports Diag_Modes Audio_Stream
begin

text \<open>
  The demonstration mode (\<open>runDemoMode\<close>, cmd/main.go) and the program as a whole: the flags, the configuration, and the
  choice between the diagnostic modes, the demonstration and the gateway. What the engines answer and what \<open>aplay\<close> does are
  parameters.
\<close>

subsection \<open>Feeding a synthesis to the recogniser\<close>

text \<open>
  The chunks of floats the transcription stream was given until the end of the source, or until the error that ends the
  process. What a read gives together with the end is not fed.
\<close>

partial_function (option) demo_feed :: "'s reader \<Rightarrow> f32 list list \<Rightarrow> 's \<Rightarrow> (f32 list list \<times> go_error option) option" where
  "demo_feed read fed s =
     (case read None 1024 s of
        ((pcm, e), s') \<Rightarrow>
          if e \<noteq> None then (if err_is (the e) Io_EOF then Some (fed, None) else Some (fed, e))
          else demo_feed read (fed @ [map int16ToFloat pcm]) s')"

text \<open>A source that gives no samples together with its end, as both streams of the synthesizer are.\<close>

locale clean_source = pcm_source +
  assumes end_empty: "ok s \<Longrightarrow> read None n s = ((c, Some e), s') \<Longrightarrow> c = []"
begin

text \<open>The loop ends, and what was fed is the audio of the source: quantised again it is the same samples.\<close>

lemma demo_feed_all:
  "ok s \<Longrightarrow> \<exists>chunks. demo_feed read fed s = Some (fed @ chunks, None) \<and> concat chunks = PCM16ToFloat (rest s) \<and>
     (\<forall>c \<in> set chunks. c \<noteq> [] \<and> length c \<le> 1024)"
proof (induction "length (rest s)" arbitrary: s fed rule: less_induct)
  case less
  obtain pcm e s' where r: "read None 1024 s = ((pcm, e), s')" by (cases "read None 1024 s") auto
  have live: "ok s'" "rest s = pcm @ rest s'" "int (length pcm) \<le> 1024" "e = None \<and> pcm \<noteq> [] \<or> e = Some Io_EOF \<and> rest s' = []"
    using read_live [OF less.prems _ r] by simp_all
  show ?case
  proof (cases e)
    case None
    then have "length (rest s') < length (rest s)" using live by auto
    from less.hyps [OF this live(1)] obtain chunks where
      c: "demo_feed read (fed @ [map int16ToFloat pcm]) s' = Some ((fed @ [map int16ToFloat pcm]) @ chunks, None)"
         "concat chunks = PCM16ToFloat (rest s')" "\<forall>c \<in> set chunks. c \<noteq> [] \<and> length c \<le> 1024" by blast
    have "demo_feed read fed s = Some (fed @ map int16ToFloat pcm # chunks, None)"
      using r None c(1) by (simp add: demo_feed.simps [of read fed s])
    then show ?thesis using c live None by (intro exI [of _ "map int16ToFloat pcm # chunks"]) (auto simp: PCM16ToFloat_def)
  next
    case (Some err)
    then have "pcm = []" "err = Io_EOF" "rest s' = []" using end_empty [OF less.prems] r live by auto
    then show ?thesis using r Some live
      by (intro exI [of _ "[]"]) (simp add: demo_feed.simps [of read fed s] PCM16ToFloat_def)
  qed
qed

end

interpretation vits_clean: clean_source vits_ReadPCM16 vits_rest "\<lambda>_. True"
  by unfold_locales (auto simp: vits_ReadPCM16_def Let_def split: option.splits if_splits)

interpretation slice_clean: clean_source slice_ReadPCM16 slice_rest slice_ok
  by unfold_locales (auto simp: slice_ReadPCM16_def Let_def split: option.splits if_splits)

lemma streaming_end_empty: "as_ReadPCM16 cerr n s = Read_gives c (Some e) s' \<Longrightarrow> c = []"
  by (auto simp: as_ReadPCM16_def Let_def split: option.splits if_splits)

subsection \<open>The mode\<close>

definition spanishPhrase :: string where
  "spanishPhrase = ''Hola, esta es su c'' @ [CHR 0xC3, CHR 0xA1] @ ''mara de timbre inteligente llamando. '' @ [CHR 0xC2, CHR 0xBF] @
     ''C'' @ [CHR 0xC3, CHR 0xB3] @ ''mo puedo ayudarle hoy?''"

definition outputWav :: string where
  "outputWav = ''generated_es.wav''"

datatype demo_effect =
    Dm_part gw_effect
  | Dm_synthesized string string
  | Dm_transcribed string string
  | Dm_identified string string
  | Dm_stream_opened
  | Dm_fed "f32 list"
  | Dm_result "string \<times> go_error option"
  | Dm_plays string
  | Dm_stream_closed
  | Dm_fatal string

record 's demo_env =
  dm_to_file :: "string \<Rightarrow> string \<Rightarrow> go_error option"
  dm_transcribe :: "string \<Rightarrow> string result"
  dm_identify :: "string \<Rightarrow> string result"
  dm_stream :: "string \<Rightarrow> 's result"
  dm_read :: "'s reader"
  dm_newStream :: "go_error option"
  dm_Result :: "f32 list \<Rightarrow> string \<times> go_error option"

text \<open>A failure of \<open>aplay\<close> is only logged; the deferred close of the stream runs when the mode returns.\<close>

definition demo_streaming :: "'s demo_env \<Rightarrow> demo_effect list option" where
  "demo_streaming env =
     (case dm_stream env spanishPhrase of
        Inl e \<Rightarrow> Some [Dm_fatal (''Failed to synthesize to stream: '' @ err_text e)]
      | Inr src \<Rightarrow>
          (case dm_newStream env of
             Some e \<Rightarrow> Some [Dm_fatal (''Failed to create transcription stream: '' @ err_text e)]
           | None \<Rightarrow>
               (case demo_feed (dm_read env) [] src of
                  None \<Rightarrow> None
                | Some (fed, Some e) \<Rightarrow> Some (Dm_stream_opened # map Dm_fed fed @ [Dm_fatal (''Failed to read PCM chunk: '' @ err_text e)])
                | Some (fed, None) \<Rightarrow>
                    Some (Dm_stream_opened # map Dm_fed fed @
                      [Dm_result (dm_Result env (concat fed)), Dm_plays outputWav, Dm_stream_closed]))))"

definition runDemoMode :: "'s demo_env \<Rightarrow> demo_effect list option" where
  "runDemoMode env =
     (case dm_to_file env spanishPhrase outputWav of
        Some e \<Rightarrow> Some [Dm_fatal (''Failed to synthesize to file: '' @ err_text e)]
      | None \<Rightarrow>
          (case dm_transcribe env outputWav of
             Inl e \<Rightarrow> Some [Dm_synthesized spanishPhrase outputWav, Dm_fatal (''Failed to transcribe file: '' @ err_text e)]
           | Inr t \<Rightarrow>
               (case dm_identify env outputWav of
                  Inl e \<Rightarrow> Some [Dm_synthesized spanishPhrase outputWav, Dm_transcribed outputWav t,
                                   Dm_fatal (''Failed to run Speaker ID: '' @ err_text e)]
                | Inr who \<Rightarrow>
                    (case demo_streaming env of
                       None \<Rightarrow> None
                     | Some es \<Rightarrow> Some ([Dm_synthesized spanishPhrase outputWav, Dm_transcribed outputWav t, Dm_identified outputWav who] @ es)))))"

subsection \<open>The program\<close>

text \<open>The engines are opened as for the gateway; a fatal error below runs none of their deferred closes.\<close>

definition demo_with :: "gw_part \<Rightarrow> demo_effect list option \<Rightarrow> demo_effect list option" where
  "demo_with p mode =
     (case mode of
        None \<Rightarrow> None
      | Some es \<Rightarrow> Some (Dm_part (Gw_opens p) # es @ (if \<exists>m. Dm_fatal m \<in> set es then [] else [Dm_part (Gw_closes p)])))"

definition with_engines :: "gateway_env \<Rightarrow> demo_effect list option \<Rightarrow> demo_effect list option" where
  "with_engines env mode =
     (case ge_tts env of
        Some err \<Rightarrow> Some [Dm_fatal (''Failed to initialize TTS Engine: '' @ err_text err)]
      | None \<Rightarrow> demo_with Gp_tts
          (case ge_asr env of
             Some err \<Rightarrow> Some [Dm_fatal (''Failed to initialize ASR Engine: '' @ err_text err)]
           | None \<Rightarrow> demo_with Gp_asr
               (case ge_speaker env of
                  Some err \<Rightarrow> Some [Dm_fatal (''Failed to initialize Speaker ID Engine: '' @ err_text err)]
                | None \<Rightarrow> demo_with Gp_speaker mode)))"

record program_flags =
  fl_channel :: string
  fl_config :: string
  fl_audioFile :: string
  fl_nodeID :: string
  fl_streamName :: string
  fl_sendCodec :: string
  fl_duration :: duration
  fl_text :: string
  fl_wsAddr :: string
  fl_httpAddr :: string

definition default_flags :: program_flags where
  "default_flags =
     \<lparr>fl_channel = ''webrtc'', fl_config = ''config.yaml'', fl_audioFile = [], fl_nodeID = ''front_door'', fl_streamName = [],
      fl_sendCodec = ''pcmu'', fl_duration = 10 * second, fl_text = ''Prueba de audio del timbre.'', fl_wsAddr = '':9090'',
      fl_httpAddr = '':8080''\<rparr>"

text \<open>What the process did: the message it ended with before any engine was opened, or the trace of its mode.\<close>

datatype program_run =
    Ended string
  | Diagnosed "diag_effect list"
  | Served "gw_effect list"
  | Demonstrated "demo_effect list option"

definition unknown_channel :: "string \<Rightarrow> string" where
  "unknown_channel channel = ''Unknown channel mode: '' @ channel @
     ''. Supported modes: webrtc, demo, wake-file, asr-file, rtc-record, rtc-say, rtc-loopback''"

record ('v, 's) program_env =
  pe_load :: "string \<Rightarrow> app_config result"
  pe_stat :: "string \<Rightarrow> file_kind result"
  pe_diag :: "'v diag_env"
  pe_cycles :: "loop_cycle list"
  pe_gateway :: gateway_env
  pe_demo :: "'s demo_env"

definition main_program :: "('v, 's) program_env \<Rightarrow> program_flags \<Rightarrow> program_run" where
  "main_program env f =
     (case pe_load env (fl_config f) of
        Inl e \<Rightarrow> Ended (''Failed to load configuration: '' @ err_text e)
      | Inr cfg \<Rightarrow>
          (case ValidateModelFiles (pe_stat env) (fl_channel f) (fl_nodeID f) cfg of
             Some e \<Rightarrow> Ended (''Invalid model paths: '' @ err_text e)
           | None \<Rightarrow>
               (case run_channel (pe_diag env) cfg (fl_channel f) (fl_nodeID f) (fl_audioFile f) (fl_streamName f) (fl_text f) (pe_cycles env) of
                  Some es \<Rightarrow> Diagnosed es
                | None \<Rightarrow>
                    if fl_channel f = ''webrtc'' then Served (gateway_main (pe_gateway env) cfg)
                    else if fl_channel f = ''demo'' then Demonstrated (with_engines (pe_gateway env) (runDemoMode (pe_demo env)))
                    else Demonstrated (with_engines (pe_gateway env) (Some [Dm_fatal (unknown_channel (fl_channel f))])))))"

text \<open>
  Nothing is opened with an unknown channel or with a model file missing: the last branch of the switch is never reached,
  since the validation of the model files has refused the channel before.
\<close>

lemma channel_modes:
  "mode_needs channel = Some needs \<Longrightarrow>
     run_channel env cfg channel nodeID audioFile streamName say cycles = None \<longleftrightarrow> channel = ''webrtc'' \<or> channel = ''demo''"
  by (auto simp: mode_needs_def run_channel_def split: if_splits)

lemma program_mode:
  "case main_program env f of
     Ended _ \<Rightarrow> True
   | Diagnosed es \<Rightarrow> fl_channel f \<notin> {''webrtc'', ''demo''} \<and> diag_ok [] es
   | Served es \<Rightarrow> fl_channel f = ''webrtc''
   | Demonstrated es \<Rightarrow> fl_channel f = ''demo''"
proof (cases "pe_load env (fl_config f)")
  case (Inr cfg)
  let ?d = "run_channel (pe_diag env) cfg (fl_channel f) (fl_nodeID f) (fl_audioFile f) (fl_streamName f) (fl_text f) (pe_cycles env)"
  show ?thesis
  proof (cases "ValidateModelFiles (pe_stat env) (fl_channel f) (fl_nodeID f) cfg")
    case None
    then obtain needs where "mode_needs (fl_channel f) = Some needs"
      by (auto simp: ValidateModelFiles_def split: option.splits)
    note modes = channel_modes [OF this]
    show ?thesis
    proof (cases ?d)
      case d: None
      then have "fl_channel f = ''webrtc'' \<or> fl_channel f = ''demo''" using modes by blast
      then show ?thesis using Inr None d by (auto simp: main_program_def)
    next
      case (Some es)
      then have "\<not> (fl_channel f = ''webrtc'' \<or> fl_channel f = ''demo'')" using modes by (metis option.distinct(1))
      then show ?thesis using Inr None Some modes_release [OF Some] by (simp add: main_program_def)
    qed
  qed (use Inr in \<open>simp add: main_program_def\<close>)
qed (simp add: main_program_def)

subsection \<open>What the demonstration leaves\<close>

text \<open>
  With a synthesis from the cache the mode ends, and the recogniser was given, in chunks of at most 1024, samples that are
  the synthesis itself when quantised.
\<close>

lemma demo_returns:
  assumes "dm_read env = vits_ReadPCM16"
  shows "\<exists>es. runDemoMode env = Some es"
proof -
  have ends: "demo_feed vits_ReadPCM16 [] src \<noteq> None" for src
    using vits_clean.demo_feed_all [of "[]" src] by auto
  have "\<exists>es. demo_streaming env = Some es"
    using assms by (auto simp: demo_streaming_def ends split: sum.splits option.splits)
  then show ?thesis by (auto simp: runDemoMode_def split: option.splits sum.splits)
qed

lemma demo_hears_synthesis:
  assumes "dm_read env = vits_ReadPCM16" and "dm_stream env spanishPhrase = Inr src" and "dm_newStream env = None"
  shows "\<exists>chunks. demo_streaming env =
      Some (Dm_stream_opened # map Dm_fed chunks @ [Dm_result (dm_Result env (concat chunks)), Dm_plays outputWav, Dm_stream_closed]) \<and>
    FloatToPCM16 (concat chunks) = vits_rest src \<and> (\<forall>c \<in> set chunks. c \<noteq> [] \<and> length c \<le> 1024)"
proof -
  obtain chunks where "demo_feed vits_ReadPCM16 [] src = Some (chunks, None)" "concat chunks = PCM16ToFloat (vits_rest src)"
      "\<forall>c \<in> set chunks. c \<noteq> [] \<and> length c \<le> 1024"
    using vits_clean.demo_feed_all [of "[]" src] by auto
  then show ?thesis using assms by (auto simp: demo_streaming_def pcm_float_round_trip)
qed

text \<open>Whatever fails, the engines and the stream are closed in the reverse order, or the process has ended.\<close>

lemma demo_closes:
  assumes "with_engines env (runDemoMode dm) = Some es"
  shows "(\<exists>m. Dm_fatal m \<in> set es) \<or>
    (\<exists>mid. es = map (\<lambda>p. Dm_part (Gw_opens p)) [Gp_tts, Gp_asr, Gp_speaker] @ mid @ map (\<lambda>p. Dm_part (Gw_closes p)) [Gp_speaker, Gp_asr, Gp_tts] \<and>
       Dm_stream_opened \<in> set mid \<and> last mid = Dm_stream_closed)"
  using assms
  by (auto simp: with_engines_def demo_with_def runDemoMode_def demo_streaming_def split: option.splits sum.splits prod.splits if_splits)

end
