(* ===== verification/Sim_Audio.thy ===== *)
theory Sim_Audio
  imports Wav
begin

text \<open>
  The audio of the doorbell simulator (tools/simulator/audio.go): the WAV files it writes and accepts, and its
  measurements. \<open>math.Sin\<close>, \<open>math.Cos\<close> and \<open>math.Sqrt\<close> are parameters. The probe of the installed codecs runs external
  programs and is left out.
\<close>

abbreviation simRate :: int where "simRate \<equiv> 16000"
abbreviation simMaxSamples :: nat where "simMaxSamples \<equiv> 16000 * 300"

definition sim_wav :: "i16 list \<Rightarrow> byte list" where
  "sim_wav pcm =
     ascii ''RIFF'' @ putUint32LE (word_of_int (36 + int (length pcm) * 2)) @ ascii ''WAVEfmt '' @
     putUint32LE 16 @ putUint16LE 1 @ putUint16LE 1 @ putUint32LE (word_of_int simRate) @ putUint32LE (word_of_int (simRate * 2)) @
     putUint16LE 2 @ putUint16LE 16 @ ascii ''data'' @ putUint32LE (word_of_int (int (length pcm) * 2)) @
     concat (map sample_bytes pcm)"

text \<open>The fields of a format chunk that begins at \<open>i\<close> and is \<open>n\<close> bytes long.\<close>

definition sim_fmt_valid :: "byte list \<Rightarrow> nat \<Rightarrow> nat \<Rightarrow> bool" where
  "sim_fmt_valid b i n \<longleftrightarrow>
     16 \<le> n \<and> uint16LE (slice i 2 b) = 1 \<and> uint16LE (slice (i + 2) 2 b) = 1 \<and>
     int (unat (uint32LE (slice (i + 4) 4 b))) = simRate \<and> uint16LE (slice (i + 14) 2 b) = 16"

function sim_chunks :: "byte list \<Rightarrow> nat \<Rightarrow> bool \<Rightarrow> i16 list result" where
  "sim_chunks b i valid =
     (if length b < i + 8 then Inl (Msg ''missing WAV data'')
      else
        let n = unat (uint32LE (slice (i + 4) 4 b));
            tag = slice i 4 b
        in if length b - (i + 8) < n then Inl (Msg ''truncated WAV chunk'')
           else
             let valid' = (if tag = ascii ''fmt '' then sim_fmt_valid b (i + 8) n else valid)
             in if tag = ascii ''data'' then
                  (if \<not> valid' \<or> n mod 2 \<noteq> 0 \<or> simMaxSamples < n div 2 \<or> n = 0
                   then Inl (Msg ''unsupported or oversized WAV'') else Inr (wav_samples (slice (i + 8) n b)))
                else sim_chunks b (i + 8 + n + n mod 2) valid')"
  by pat_completeness auto
termination by (relation "measure (\<lambda>(b, i, v). length b - i)") auto

declare sim_chunks.simps [simp del]

definition parseWAV :: "byte list \<Rightarrow> i16 list result" where
  "parseWAV b =
     (if 8 \<le> length b \<and> unat (uint32LE (slice 4 4 b)) \<noteq> length b - 8 then Inl (Msg ''invalid RIFF length'')
      else if length b < 12 \<or> slice 0 4 b \<noteq> ascii ''RIFF'' \<or> slice 8 4 b \<noteq> ascii ''WAVE''
      then Inl (Msg ''expected PCM16 mono 16 kHz WAV'')
      else sim_chunks b 12 False)"

subsection \<open>Measurements\<close>

abbreviation f64mul :: "f64 \<Rightarrow> f64 \<Rightarrow> f64" where "f64mul \<equiv> f_mul float64"
abbreviation f64add :: "f64 \<Rightarrow> f64 \<Rightarrow> f64" where "f64add \<equiv> f_add float64"
abbreviation f64div :: "f64 \<Rightarrow> f64 \<Rightarrow> f64" where "f64div \<equiv> f_div float64"
abbreviation f64int :: "int \<Rightarrow> f64" where "f64int \<equiv> f_of_int float64"

text \<open>The constant \<open>2 * math.Pi\<close> as a float64, and the phase of sample \<open>i\<close>.\<close>

definition two_pi :: f64 where
  "two_pi = Fin (884279719003555 / 140737488355328)"

definition sim_phase :: "f64 \<Rightarrow> nat \<Rightarrow> f64" where
  "sim_phase hz i = f64div (f64mul (f64mul two_pi hz) (f64int (int i))) (f64int simRate)"

definition tone :: "(f64 \<Rightarrow> f64) \<Rightarrow> f64 \<Rightarrow> f64 \<Rightarrow> i16 list" where
  "tone sine hz seconds =
     map (\<lambda>i. word_of_int (f_to_int (f64mul (Fin 10000) (sine (sim_phase hz i)))))
       [0..<nat (f_to_int (f64mul seconds (f64int simRate)))]"

definition energy :: "i16 list \<Rightarrow> f64" where
  "energy p = fold (\<lambda>s v. f64add v (f64mul (f64int (sint s)) (f64int (sint s)))) p (Fin 0)"

definition level :: "(f64 \<Rightarrow> f64) \<Rightarrow> i16 list \<Rightarrow> f64" where
  "level sqroot p =
     (if p = [] then Fin 0 else f64div (sqroot (f64div (energy p) (f64int (int (length p))))) (Fin 32768))"

text \<open>The correlation of the samples with a function of the phase.\<close>

definition correlation :: "(f64 \<Rightarrow> f64) \<Rightarrow> f64 \<Rightarrow> i16 list \<Rightarrow> f64" where
  "correlation f hz p = fold (\<lambda>(i, v) s. f64add s (f64mul (f64int (sint v)) (f (sim_phase hz i)))) (enumerate 0 p) (Fin 0)"

definition marker :: "(f64 \<Rightarrow> f64) \<Rightarrow> (f64 \<Rightarrow> f64) \<Rightarrow> i16 list \<Rightarrow> f64 \<Rightarrow> f64" where
  "marker sine cosine p hz =
     (if p = [] then Fin 0
      else if f_eq (energy p) (Fin 0) then Fin 0
      else
        let s = correlation sine hz p;
            c = correlation cosine hz p
        in f64div (f64mul (Fin 2) (f64add (f64mul s s) (f64mul c c))) (f64mul (f64int (int (length p))) (energy p)))"

subsection \<open>Properties\<close>

lemma sim_wav_encodes: "sim_wav pcm = EncodeWAVPCM16 pcm simRate"
  by (simp add: sim_wav_def EncodeWAVPCM16_def ascii_def Let_def mult.commute)

text \<open>What the simulator writes it reads back; an empty recording it writes but refuses.\<close>

lemma sim_wav_round_trip:
  assumes "0 < length pcm" and "length pcm \<le> simMaxSamples"
  shows "parseWAV (sim_wav pcm) = Inr pcm"
proof -
  let ?d = "EncodeWAVPCM16 pcm simRate"
  have u: "unat (word_of_int (int m) :: u32) = m" if "m < 2 ^ 32" for m
    using that by (simp add: unat_of_nat)
  have sizes: "unat (uint32LE (slice 40 4 ?d)) = 2 * length pcm" "unat (uint32LE (slice 4 4 ?d)) = length ?d - 8"
  proof -
    show "unat (uint32LE (slice 40 4 ?d)) = 2 * length pcm"
      using u [of "2 * length pcm"] assms(2) by (simp add: encoded_slices)
    have "slice 4 4 ?d = putUint32LE (word_of_int (int (36 + 2 * length pcm)))"
      by (simp add: EncodeWAVPCM16_def Let_def)
    then show "unat (uint32LE (slice 4 4 ?d)) = length ?d - 8"
      using u [of "36 + 2 * length pcm"] assms(2) by simp
  qed
  have chunk36: "sim_chunks ?d 36 True = Inr pcm"
    using assms sizes(1) by (subst sim_chunks.simps) (simp add: encoded_slices Let_def)
  have "sim_fmt_valid ?d 20 16" by (simp add: sim_fmt_valid_def encoded_slices)
  then have "sim_chunks ?d 12 False = Inr pcm"
    using chunk36 by (subst sim_chunks.simps) (simp add: encoded_slices Let_def)
  moreover have "slice 0 4 ?d = ascii ''RIFF''" "slice 8 4 ?d = ascii ''WAVE''" by (simp_all add: EncodeWAVPCM16_def Let_def)
  ultimately show ?thesis unfolding sim_wav_encodes parseWAV_def sizes(2) by simp
qed

end
