(* ===== verification/Sim_Device.thy ===== *)
theory Sim_Device
  imports Sim_Audio
begin

text \<open>
  A simulated doorbell (tools/simulator/engine.go): its microphone input, which is silence, a fixture or a browser
  microphone, its speaker recording, and the browser session of tools/simulator/http.go that owns the live input.
  Every method holds the device's mutex, so it is one function. Time stamps of events are left out; \<open>level\<close> needs the
  square root, which is a parameter. Codecs and sockets are not modelled.
\<close>

datatype sim_input = In_silence | In_fixture | In_live

datatype sim_event = Ev_play nat | Ev_stop | Ev_online bool | Ev_complete | Ev_app string | Ev_step string

record sim_device =
  sd_ID :: string
  sd_online :: bool
  sd_input :: sim_input
  sd_input_level :: f64
  sd_output_level :: f64
  sd_mic_packets :: nat
  sd_speaker_packets :: nat
  sd_overruns :: nat
  sd_decode_errors :: nat
  sd_last_error :: string
  sd_fixture :: "i16 list"
  sd_pos :: nat
  sd_epoch :: nat
  sd_live :: "i16 list"
  sd_recording :: "i16 list"
  sd_lastCapture :: duration
  sd_sessions :: nat
  sd_events :: "sim_event list"

definition newDevice :: "string \<Rightarrow> sim_device" where
  "newDevice i =
     \<lparr>sd_ID = i, sd_online = True, sd_input = In_silence, sd_input_level = Fin 0, sd_output_level = Fin 0, sd_mic_packets = 0,
      sd_speaker_packets = 0, sd_overruns = 0, sd_decode_errors = 0, sd_last_error = [], sd_fixture = [], sd_pos = 0, sd_epoch = 0,
      sd_live = [], sd_recording = [], sd_lastCapture = 0, sd_sessions = 0, sd_events = []\<rparr>"

definition dev_event :: "sim_event \<Rightarrow> sim_device \<Rightarrow> sim_device" where
  "dev_event e d = (if length (sd_events d) < 10000 then d\<lparr>sd_events := sd_events d @ [e]\<rparr> else d)"

text \<open>The reported output level falls to 0 when nothing was captured for 100 ms.\<close>

definition dev_snapshot :: "duration \<Rightarrow> sim_device \<Rightarrow> sim_device" where
  "dev_snapshot now d = (if 100 * millisecond < now - sd_lastCapture d then d\<lparr>sd_output_level := Fin 0\<rparr> else d)"

definition dev_seconds :: "sim_device \<Rightarrow> f64" where
  "dev_seconds d = f64div (f64int (int (length (sd_recording d)))) (f64int simRate)"

definition dev_play :: "i16 list \<Rightarrow> sim_device \<Rightarrow> go_error option \<times> sim_device" where
  "dev_play p d =
     (if sd_input d = In_live then (Some (Msg ''live microphone owns this device''), d)
      else (None, dev_event (Ev_play (length p)) (d\<lparr>sd_fixture := p, sd_pos := 0, sd_input := In_fixture\<rparr>)))"

definition dev_stop :: "sim_device \<Rightarrow> sim_device" where
  "dev_stop d =
     dev_event Ev_stop (d\<lparr>sd_epoch := sd_epoch d + 1, sd_fixture := [], sd_live := [], sd_pos := 0, sd_input := In_silence\<rparr>)"

text \<open>Going offline also closes the connections; their handlers then leave.\<close>

definition dev_online :: "bool \<Rightarrow> sim_device \<Rightarrow> sim_device" where
  "dev_online on d = dev_event (Ev_online on) (d\<lparr>sd_online := on\<rparr>)"

definition copied :: "i16 list \<Rightarrow> i16 list" where
  "copied xs = take 320 xs @ replicate (320 - length xs) 0"

definition dev_next :: "(f64 \<Rightarrow> f64) \<Rightarrow> sim_device \<Rightarrow> i16 list \<times> sim_device" where
  "dev_next sqroot d =
     (let (p, d1) =
        (if sd_input d = In_fixture then
           (let rest = drop (sd_pos d) (sd_fixture d);
                d0 = d\<lparr>sd_pos := sd_pos d + min 320 (length rest)\<rparr>
            in (copied rest,
                if sd_pos d0 = length (sd_fixture d0)
                then dev_event Ev_complete (d0\<lparr>sd_fixture := [], sd_pos := 0, sd_input := In_silence\<rparr>) else d0))
         else (replicate 320 0, d));
          (q, d2) = (if sd_input d1 = In_live then (copied (sd_live d1), d1\<lparr>sd_live := drop 320 (sd_live d1)\<rparr>) else (p, d1))
      in (q, d2\<lparr>sd_input_level := level sqroot q, sd_mic_packets := sd_mic_packets d2 + 1\<rparr>))"

definition dev_capture :: "(f64 \<Rightarrow> f64) \<Rightarrow> duration \<Rightarrow> i16 list \<Rightarrow> go_error option \<Rightarrow> sim_device \<Rightarrow> sim_device" where
  "dev_capture sqroot now p err d =
     (let d1 = d\<lparr>sd_speaker_packets := sd_speaker_packets d + 1, sd_lastCapture := now\<rparr>
      in case err of
           Some e \<Rightarrow> d1\<lparr>sd_decode_errors := sd_decode_errors d1 + 1, sd_last_error := err_text e\<rparr>
         | None \<Rightarrow>
             let d2 = d1\<lparr>sd_output_level := level sqroot p\<rparr>
             in if length (sd_recording d2) + length p \<le> simMaxSamples then d2\<lparr>sd_recording := sd_recording d2 @ p\<rparr>
                else d2\<lparr>sd_overruns := sd_overruns d2 + 1\<rparr>)"

definition dev_reset :: "sim_device \<Rightarrow> sim_device" where
  "dev_reset d = d\<lparr>sd_recording := [], sd_events := [], sd_decode_errors := 0, sd_overruns := 0, sd_output_level := Fin 0,
     sd_last_error := []\<rparr>"

subsection \<open>The live microphone\<close>

text \<open>
  A browser session takes the input when it is silent and remembers the epoch; its chunks count while the input is
  live in that epoch, and what it gives back at the end is only its own. \<open>None\<close> in place of the epoch is the reply 409;
  a chunk's flag says whether the session goes on.
\<close>

definition live_begin :: "sim_device \<Rightarrow> nat option \<times> sim_device" where
  "live_begin d =
     (if sd_input d \<noteq> In_silence then (None, d)
      else (Some (sd_epoch d + 1), d\<lparr>sd_input := In_live, sd_epoch := sd_epoch d + 1\<rparr>))"

definition live_chunk :: "nat \<Rightarrow> byte list \<Rightarrow> bool \<Rightarrow> sim_device \<Rightarrow> bool \<times> sim_device" where
  "live_chunk epoch b binary d =
     (if \<not> binary \<or> length b mod 2 \<noteq> 0 \<or> length b = 0 then (False, d)
      else
        let p = wav_samples b
        in if sd_input d \<noteq> In_live \<or> sd_epoch d \<noteq> epoch then (False, d)
           else if int (length (sd_live d) + length p) > simRate * 2 then (True, d\<lparr>sd_overruns := sd_overruns d + 1\<rparr>)
           else (True, d\<lparr>sd_live := sd_live d @ p\<rparr>))"

definition live_end :: "nat \<Rightarrow> sim_device \<Rightarrow> sim_device" where
  "live_end epoch d =
     (if sd_epoch d = epoch \<and> sd_input d = In_live then d\<lparr>sd_live := [], sd_input := In_silence\<rparr> else d)"

subsection \<open>The AAC payload\<close>

text \<open>
  The packet handler of the doorbell profile: big-endian header length in bits, one header per unit, the units. It
  gives what it hands to the decoder or the error it captures. \<open>None\<close> would be a slice out of range.
\<close>

definition be16 :: "byte list \<Rightarrow> nat \<Rightarrow> nat option" where
  "be16 b i = (if i + 2 \<le> length b then Some (256 * unat (b ! i) + unat (b ! (i + 1))) else None)"

function au_units :: "byte list \<Rightarrow> nat \<Rightarrow> nat \<Rightarrow> byte list \<Rightarrow> byte list result list option" where
  "au_units b n h units =
     (if 2 + n \<le> h then Some []
      else case be16 b h of
        None \<Rightarrow> None
      | Some v \<Rightarrow>
          let unit_size = v div 8
          in if length units < unit_size then Some [Inl (Msg ''truncated AU'')]
             else map_option ((#) (Inr (take unit_size units))) (au_units b n (h + 2) (drop unit_size units)))"
  by pat_completeness auto
termination by (relation "measure (\<lambda>(b, n, h, u). 2 + n - h)") auto

declare au_units.simps [simp del]

definition au_payload :: "byte list \<Rightarrow> byte list result list option" where
  "au_payload b =
     (if length b < 4 then Some [Inl (Msg ''short AAC RTP'')]
      else case be16 b 0 of
        None \<Rightarrow> None
      | Some v \<Rightarrow>
          let n = v div 8
          in if n < 2 \<or> n mod 2 \<noteq> 0 \<or> length b < 2 + n then Some [Inl (Msg ''invalid AU header'')]
             else au_units b n 2 (drop (2 + n) b))"

subsection \<open>Payloads\<close>

text \<open>No payload makes the handler read outside the packet; the units it decodes follow each other in the payload.\<close>

lemma au_units_total:
  "2 + n \<le> length b \<Longrightarrow> n mod 2 = 0 \<Longrightarrow> h mod 2 = 0 \<Longrightarrow>
     \<exists>us. au_units b n h units = Some us \<and> (\<exists>rest. units = concat (map (\<lambda>u. case u of Inr x \<Rightarrow> x | Inl _ \<Rightarrow> []) us) @ rest)"
proof (induction b n h units rule: au_units.induct)
  case (1 b n h units)
  show ?case
  proof (cases "2 + n \<le> h")
    case True
    then show ?thesis by (simp add: au_units.simps [of b n h units])
  next
    case False
    then have "h + 2 \<le> 2 + n" using 1(3,4) by presburger
    then obtain v where v: "be16 b h = Some v" using 1(2) by (simp add: be16_def)
    show ?thesis
    proof (cases "length units < v div 8")
      case True
      then show ?thesis using False v by (simp add: au_units.simps [of b n h units])
    next
      case f: False
      have "(h + 2) mod 2 = 0" using 1(4) by presburger
      from 1(1) [OF False v refl f 1(2,3) this] obtain us rest where
        us: "au_units b n (h + 2) (drop (v div 8) units) = Some us"
        "drop (v div 8) units = concat (map (\<lambda>u. case u of Inr x \<Rightarrow> x | Inl _ \<Rightarrow> []) us) @ rest" by blast
      have "au_units b n h units = Some (Inr (take (v div 8) units) # us)"
        using False v f us(1) by (subst au_units.simps) (simp add: Let_def)
      moreover have "units = take (v div 8) units @ concat (map (\<lambda>u. case u of Inr x \<Rightarrow> x | Inl _ \<Rightarrow> []) us) @ rest"
        unfolding us(2) [symmetric] by simp
      ultimately show ?thesis by (intro exI [of _ "Inr (take (v div 8) units) # us"]) auto
    qed
  qed
qed

lemma au_payload_total: "\<exists>us. au_payload b = Some us"
proof (cases "length b < 4")
  case False
  then obtain v where v: "be16 b 0 = Some v" by (simp add: be16_def)
  then show ?thesis
    using False au_units_total [of "v div 8" b 2 "drop (2 + v div 8) b"] by (auto simp: au_payload_def Let_def not_less)
qed (simp add: au_payload_def)

subsection \<open>Replaying a fixture\<close>

fun dev_frames :: "(f64 \<Rightarrow> f64) \<Rightarrow> nat \<Rightarrow> sim_device \<Rightarrow> i16 list list \<times> sim_device" where
  "dev_frames sqroot 0 d = ([], d)"
| "dev_frames sqroot (Suc n) d =
     (case dev_next sqroot d of (p, d1) \<Rightarrow> case dev_frames sqroot n d1 of (ps, d2) \<Rightarrow> (p # ps, d2))"

lemma dev_event_simps [simp]:
  "sd_input (dev_event e d) = sd_input d" "sd_fixture (dev_event e d) = sd_fixture d" "sd_pos (dev_event e d) = sd_pos d"
  "sd_epoch (dev_event e d) = sd_epoch d" "sd_live (dev_event e d) = sd_live d" "sd_recording (dev_event e d) = sd_recording d"
  "sd_online (dev_event e d) = sd_online d" "sd_mic_packets (dev_event e d) = sd_mic_packets d"
  by (simp_all add: dev_event_def)

lemma length_dev_event: "length (sd_events d) \<le> 10000 \<Longrightarrow> length (sd_events (dev_event e d)) \<le> 10000"
  by (simp add: dev_event_def)

text \<open>What is left of the fixture.\<close>

definition dev_rest :: "sim_device \<Rightarrow> i16 list" where
  "dev_rest d = (if sd_input d = In_fixture then drop (sd_pos d) (sd_fixture d) else [])"

lemma dev_next_silent:
  assumes "sd_input d = In_silence"
  shows "fst (dev_next sqroot d) = replicate 320 0" and "sd_input (snd (dev_next sqroot d)) = In_silence"
  using assms by (simp_all add: dev_next_def)

lemma dev_next_fixture:
  assumes "sd_input d = In_fixture" and "sd_pos d \<le> length (sd_fixture d)"
  shows "fst (dev_next sqroot d) = copied (dev_rest d)" and "dev_rest (snd (dev_next sqroot d)) = drop 320 (dev_rest d)"
    and "sd_input (snd (dev_next sqroot d)) = (if length (dev_rest d) \<le> 320 then In_silence else In_fixture)"
    and "sd_pos (snd (dev_next sqroot d)) \<le> length (sd_fixture (snd (dev_next sqroot d)))"
  using assms by (auto simp: dev_next_def dev_rest_def Let_def min_def add.commute split: if_splits)

lemma dev_frames_fixture:
  "sd_input d = In_silence \<or> sd_input d = In_fixture \<and> sd_pos d \<le> length (sd_fixture d) \<Longrightarrow>
   length (dev_rest d) \<le> 320 * n \<Longrightarrow>
     concat (fst (dev_frames sqroot n d)) = dev_rest d @ replicate (320 * n - length (dev_rest d)) 0 \<and>
     (0 < n \<or> sd_input d = In_silence \<longrightarrow> sd_input (snd (dev_frames sqroot n d)) = In_silence)"
proof (induction n arbitrary: d)
  case 0
  then show ?case by simp
next
  case (Suc n)
  define p d1 where "p = fst (dev_next sqroot d)" and "d1 = snd (dev_next sqroot d)"
  have run: "fst (dev_frames sqroot (Suc n) d) = p # fst (dev_frames sqroot n d1)"
    "snd (dev_frames sqroot (Suc n) d) = snd (dev_frames sqroot n d1)"
    by (simp_all add: p_def d1_def split: prod.splits)
  show ?case
  proof (cases "sd_input d = In_silence")
    case True
    then have "p = replicate 320 0" "sd_input d1 = In_silence" "dev_rest d = []" "dev_rest d1 = []"
      using dev_next_silent [OF True] by (simp_all add: p_def d1_def dev_rest_def)
    then show ?thesis using Suc.IH [of d1] run by (simp add: replicate_add [symmetric])
  next
    case False
    then have d: "sd_input d = In_fixture" "sd_pos d \<le> length (sd_fixture d)" using Suc.prems(1) by auto
    note n = dev_next_fixture [OF d, of sqroot, folded p_def d1_def]
    have ih: "concat (fst (dev_frames sqroot n d1)) = drop 320 (dev_rest d) @ replicate (320 * n - (length (dev_rest d) - 320)) 0 \<and>
        (0 < n \<or> sd_input d1 = In_silence \<longrightarrow> sd_input (snd (dev_frames sqroot n d1)) = In_silence)"
      using Suc.IH [of d1] n Suc.prems(2) by (auto split: if_splits)
    have "0 < n \<or> sd_input d1 = In_silence" using n(3) Suc.prems(2) by (cases n) auto
    moreover have "copied (dev_rest d) @ drop 320 (dev_rest d) @ replicate (320 * n - (length (dev_rest d) - 320)) 0 =
        dev_rest d @ replicate (320 * Suc n - length (dev_rest d)) 0"
    proof (cases "length (dev_rest d) \<le> 320")
      case True
      then show ?thesis by (simp add: copied_def replicate_add [symmetric])
    next
      case False
      then show ?thesis by (simp add: copied_def flip: append_assoc)
    qed
    ultimately show ?thesis using ih n(1) run by simp
  qed
qed

subsection \<open>One owner of the live input\<close>

text \<open>The device with the epochs of the browser sessions that run.\<close>

record live_world =
  lw_dev :: sim_device
  lw_active :: "nat set"

abbreviation on_dev :: "(sim_device \<Rightarrow> sim_device) \<Rightarrow> live_world \<Rightarrow> live_world" where
  "on_dev f w \<equiv> w\<lparr>lw_dev := f (lw_dev w)\<rparr>"

inductive live_step :: "live_world \<Rightarrow> live_world \<Rightarrow> bool" where
  live_play: "live_step w (on_dev (\<lambda>d. snd (dev_play p d)) w)"
| live_stop: "live_step w (on_dev dev_stop w)"
| live_online: "live_step w (on_dev (dev_online on) w)"
| live_next: "live_step w (on_dev (\<lambda>d. snd (dev_next sqroot d)) w)"
| live_capture: "live_step w (on_dev (dev_capture sqroot now p err) w)"
| live_reset: "live_step w (on_dev dev_reset w)"
| live_event: "live_step w (on_dev (dev_event e) w)"
| live_begins: "live_begin (lw_dev w) = (Some e, d) \<Longrightarrow> live_step w (w\<lparr>lw_dev := d, lw_active := insert e (lw_active w)\<rparr>)"
| live_chunks: "e \<in> lw_active w \<Longrightarrow> live_step w (on_dev (\<lambda>d. snd (live_chunk e b binary d)) w)"
| live_ends: "e \<in> lw_active w \<Longrightarrow> live_step w (w\<lparr>lw_dev := live_end e (lw_dev w), lw_active := lw_active w - {e}\<rparr>)"

inductive_cases live_stepE: "live_step w w'"

definition dev_bounded :: "sim_device \<Rightarrow> bool" where
  "dev_bounded d \<longleftrightarrow>
     length (sd_recording d) \<le> simMaxSamples \<and> int (length (sd_live d)) \<le> simRate * 2 \<and> length (sd_events d) \<le> 10000 \<and>
     sd_pos d \<le> length (sd_fixture d) \<and> (sd_input d \<noteq> In_live \<longrightarrow> sd_live d = [])"

definition live_inv :: "live_world \<Rightarrow> bool" where
  "live_inv w \<longleftrightarrow>
     dev_bounded (lw_dev w) \<and> (\<forall>e \<in> lw_active w. e \<le> sd_epoch (lw_dev w)) \<and>
     (sd_input (lw_dev w) = In_live \<longrightarrow> sd_epoch (lw_dev w) \<in> lw_active w)"

lemma dev_bounded_ops:
  assumes "dev_bounded d"
  shows "dev_bounded (snd (dev_play p d))" "dev_bounded (dev_stop d)" "dev_bounded (dev_online on d)" "dev_bounded (snd (dev_next sqroot d))"
    "dev_bounded (dev_capture sqroot now p err d)" "dev_bounded (dev_reset d)" "dev_bounded (dev_event e d)"
    "dev_bounded (snd (live_begin d))" "dev_bounded (snd (live_chunk k b binary d))" "dev_bounded (live_end k d)"
  using assms length_dev_event
  by (auto simp: dev_bounded_def dev_play_def dev_stop_def dev_online_def dev_next_def dev_capture_def dev_reset_def
      live_begin_def live_chunk_def live_end_def Let_def min_def split: option.splits if_splits)

lemma dev_next_owner:
  "sd_epoch (snd (dev_next sqroot d)) = sd_epoch d" "sd_input (snd (dev_next sqroot d)) = In_live \<longleftrightarrow> sd_input d = In_live"
  by (cases "sd_input d"; simp add: dev_next_def Let_def)+

lemma live_step_inv: "live_inv w \<Longrightarrow> live_step w w' \<Longrightarrow> live_inv w'"
proof (erule live_stepE, goal_cases)
  case (1 p)
  then show ?case using dev_bounded_ops(1) by (auto simp: live_inv_def dev_play_def)
next
  case 2
  then show ?case using dev_bounded_ops(2) by (auto simp: live_inv_def dev_stop_def intro: le_SucI)
next
  case (3 on)
  then show ?case using dev_bounded_ops(3) by (auto simp: live_inv_def dev_online_def)
next
  case (4 sqroot)
  then show ?case using dev_bounded_ops(4) [of "lw_dev w" sqroot] by (simp add: live_inv_def dev_next_owner)
next
  case (5 sqroot now p err)
  then show ?case using dev_bounded_ops(5) [of "lw_dev w" sqroot now p err]
    by (cases err) (auto simp: live_inv_def dev_capture_def Let_def)
next
  case 6
  then show ?case using dev_bounded_ops(6) by (auto simp: live_inv_def dev_reset_def)
next
  case (7 e)
  then show ?case using dev_bounded_ops(7) by (auto simp: live_inv_def)
next
  case (8 e d)
  then show ?case using dev_bounded_ops(8) [of "lw_dev w"] by (auto simp: live_inv_def live_begin_def split: if_splits intro: le_SucI)
next
  case (9 e b binary)
  then show ?case using dev_bounded_ops(9) [of "lw_dev w" e b binary] by (auto simp: live_inv_def live_chunk_def Let_def)
next
  case (10 e)
  then show ?case using dev_bounded_ops(10) [of "lw_dev w" e] by (auto simp: live_inv_def live_end_def split: if_splits)
qed

interpretation live_machine: machine "\<lambda>w. \<exists>i. w = \<lparr>lw_dev = newDevice i, lw_active = {}\<rparr>" live_step live_inv
proof unfold_locales
  show "live_inv w" if "\<exists>i. w = \<lparr>lw_dev = newDevice i, lw_active = {}\<rparr>" for w
    using that by (auto simp: live_inv_def dev_bounded_def newDevice_def)
qed (rule live_step_inv)

text \<open>Whatever is played, stopped, captured and spoken into a simulated device, its memory stays bounded and its live
  input has one owner. While the input is live the session of the current epoch runs, no other session begins and no
  fixture is played; a chunk or an end of any other session changes nothing; and when the input is not live no live
  sample is left over for the next session. A fixture that is played is sent exactly, in frames of 20 ms filled up with
  silence, and then the input is silent again.\<close>

theorem device_input_owner:
  assumes "reach (\<lambda>w. \<exists>i. w = \<lparr>lw_dev = newDevice i, lw_active = {}\<rparr>) live_step w" and "d = lw_dev w"
  shows "length (sd_recording d) \<le> 4800000 \<and> length (sd_live d) \<le> 32000 \<and> length (sd_events d) \<le> 10000 \<and>
    (\<forall>e b binary. e \<noteq> sd_epoch d \<longrightarrow> live_chunk e b binary d = (False, d) \<and> live_end e d = d) \<and>
    (if sd_input d = In_live
     then sd_epoch d \<in> lw_active w \<and> live_begin d = (None, d) \<and> (\<forall>p. dev_play p d = (Some (Msg ''live microphone owns this device''), d))
     else sd_live d = [] \<and>
       (\<forall>p n. 0 < n \<and> length p \<le> 320 * n \<longrightarrow>
          (case dev_frames sqroot n (snd (dev_play p d)) of
             (fs, d') \<Rightarrow> concat fs = p @ replicate (320 * n - length p) 0 \<and> sd_input d' = In_silence)))"
proof -
  note inv = live_machine.reach_inv [OF assms(1)]
  have "length (sd_recording d) \<le> 4800000 \<and> length (sd_live d) \<le> 32000 \<and> length (sd_events d) \<le> 10000"
    using inv assms(2) by (simp add: live_inv_def dev_bounded_def)
  moreover have "live_chunk e b binary d = (False, d) \<and> live_end e d = d" if "e \<noteq> sd_epoch d" for e b binary
    using that by (simp add: live_chunk_def live_end_def Let_def)
  moreover have "sd_epoch d \<in> lw_active w \<and> live_begin d = (None, d) \<and> (\<forall>p. dev_play p d = (Some (Msg ''live microphone owns this device''), d))"
    if "sd_input d = In_live" using inv assms(2) that by (simp add: live_inv_def live_begin_def dev_play_def)
  moreover have "sd_live d = []" if "sd_input d \<noteq> In_live" using inv assms(2) that by (simp add: live_inv_def dev_bounded_def)
  moreover have "case dev_frames sqroot n (snd (dev_play p d)) of
      (fs, d') \<Rightarrow> concat fs = p @ replicate (320 * n - length p) 0 \<and> sd_input d' = In_silence"
    if "sd_input d \<noteq> In_live" "0 < n" "length p \<le> 320 * n" for p n
  proof -
    have "dev_rest (snd (dev_play p d)) = p" "sd_input (snd (dev_play p d)) = In_fixture" "sd_pos (snd (dev_play p d)) = 0"
      using that(1) by (simp_all add: dev_play_def dev_rest_def)
    then show ?thesis using dev_frames_fixture [of "snd (dev_play p d)" n sqroot] that(2,3) by (simp add: case_prod_beta)
  qed
  ultimately show ?thesis by simp
qed

text \<open>A session that was stopped speaks on, and is not heard.\<close>

theorem device_input_owner_witness:
  "\<exists>w :: live_world. sd_epoch (lw_dev w) = 2 \<and> 1 \<in> lw_active w \<and> live_chunk 1 [1, 0] True (lw_dev w) = (False, lw_dev w)"
proof -
  let ?start = "\<lambda>w. \<exists>i. w = \<lparr>lw_dev = newDevice i, lw_active = {}\<rparr>"
  let ?w0 = "\<lparr>lw_dev = newDevice ''bell'', lw_active = {}\<rparr>"
  obtain d where b: "live_begin (lw_dev ?w0) = (Some 1, d)" and d: "sd_epoch d = 1" by (simp add: live_begin_def newDevice_def)
  let ?w1 = "?w0\<lparr>lw_dev := d, lw_active := insert 1 (lw_active ?w0)\<rparr>"
  let ?w2 = "on_dev dev_stop ?w1"
  have "reach ?start live_step ?w0" by (intro reach_init) blast
  then have "reach ?start live_step ?w1" by (rule reach_step) (rule live_begins [OF b])
  then have r: "reach ?start live_step ?w2" by (rule reach_step) (rule live_stop)
  have e: "sd_epoch (lw_dev ?w2) = 2" using d by (simp add: dev_stop_def)
  then have "live_chunk 1 [1, 0] True (lw_dev ?w2) = (False, lw_dev ?w2)"
    using device_input_owner [OF r refl, of "\<lambda>x. x"] by simp
  with e show ?thesis by (intro exI [of _ ?w2] conjI) simp_all
qed

end
