(* ===== verification/Sim_Scenario.thy ===== *)
theory Sim_Scenario
  imports Sim_Device
begin

text \<open>
  Scenarios of the simulator (tools/simulator/scenario.go): what is accepted, what a step does, the wait for an event of
  the gateway, a sequence with the command it still has to wait for, and the report. YAML, \<open>time.ParseDuration\<close>, base64,
  the file system, the HTTP client and the event socket are parameters, and so are the texts of floats in messages.
\<close>

text \<open>A command is a JSON object: its action and its node when they are strings, and the rest.\<close>

record 'c app_command =
  cm_action :: "string option"
  cm_node :: "string option"
  cm_rest :: 'c

record 'c sim_step =
  st_action :: string
  st_timeout :: string
  st_replay :: string
  st_audio :: string
  st_seconds :: f64
  st_hz :: f64
  st_command :: "'c app_command"
  st_event :: string
  st_field :: string
  st_contains :: string
  st_direction :: string
  st_minActive :: f64
  st_maxSeconds :: f64
  st_minRMS :: f64
  st_minMarker :: f64

record 'c scenario =
  sn_name :: string
  sn_sequences :: "(string \<times> 'c sim_step list) list"
  sn_requires :: "string list"

subsection \<open>What is accepted\<close>

abbreviation minute :: duration where "minute \<equiv> 60 * second"

definition stepDeadline :: "(string \<Rightarrow> duration result) \<Rightarrow> 'c sim_step \<Rightarrow> duration result" where
  "stepDeadline parse step =
     (case parse (st_timeout step) of
        Inl _ \<Rightarrow> Inl (Msg (st_action step @ '' requires timeout in (0,5m]''))
      | Inr d \<Rightarrow> if d \<le> 0 \<or> 5 * minute < d then Inl (Msg (st_action step @ '' requires timeout in (0,5m]'')) else Inr d)"

definition value_ok :: "f64 \<Rightarrow> bool" where
  "value_ok v \<longleftrightarrow> \<not> (f_is_nan v \<or> f_is_inf v \<or> f_lt v (Fin 0))"

definition check_step :: "(string \<Rightarrow> duration result) \<Rightarrow> 'c sim_step \<Rightarrow> go_error option" where
  "check_step parse step =
     (if \<not> list_all value_ok [st_hz step, st_seconds step, st_minActive step, st_maxSeconds step, st_minRMS step, st_minMarker step]
      then Some (Msg ''scenario values must be finite and nonnegative'')
      else if st_action step \<in> {''replay'', ''tone'', ''stop'', ''reset'', ''disconnect'', ''reconnect'', ''assert_output''} then None
      else if st_action step \<in> {''wait'', ''wait_input_idle'', ''wait_activity'', ''wait_event'', ''command''}
      then (case stepDeadline parse step of Inl err \<Rightarrow> Some err | Inr _ \<Rightarrow> None)
      else Some (Msg (''unknown action '' @ go_quote (st_action step))))"

fun first_error :: "('a \<Rightarrow> go_error option) \<Rightarrow> 'a list \<Rightarrow> go_error option" where
  "first_error f [] = None"
| "first_error f (x # xs) = (case f x of Some err \<Rightarrow> Some err | None \<Rightarrow> first_error f xs)"

definition sim_dash :: string where
  "sim_dash = [CHR 0xE2, CHR 0x80, CHR 0x93]"

definition check_sequence :: "(string \<Rightarrow> duration result) \<Rightarrow> string \<times> 'c sim_step list \<Rightarrow> go_error option" where
  "check_sequence parse s =
     (case s of (i, steps) \<Rightarrow>
        if steps = [] \<or> 100 < length steps then Some (Msg (i @ '': needs 1'' @ sim_dash @ ''100 steps''))
        else first_error (check_step parse) steps)"

text \<open>The sequences are a map: the list is the order in which it was ranged over.\<close>

definition parseScenario :: "(string \<Rightarrow> duration result) \<Rightarrow> ('c scenario \<times> bool) result \<Rightarrow> 'c scenario result" where
  "parseScenario parse decoded =
     (case decoded of
        Inl err \<Rightarrow> Inl err
      | Inr (sc, more_documents) \<Rightarrow>
          if more_documents then Inl (Msg ''one scenario document required'')
          else if sn_name sc = [] \<or> sn_sequences sc = [] \<or> 16 < length (sn_sequences sc)
          then Inl (Msg (''name and 1'' @ sim_dash @ ''16 sequences required''))
          else case first_error (check_sequence parse) (sn_sequences sc) of Some err \<Rightarrow> Inl err | None \<Rightarrow> Inr sc)"

subsection \<open>Events of the gateway\<close>

text \<open>The members that are compared, when they are strings; any other field reads as empty when it is no string.\<close>

record app_event =
  ae_event :: "string option"
  ae_status :: "string option"
  ae_field :: "string \<Rightarrow> string"

text \<open>
  \<open>av_queue\<close> is the channel, which holds 128 events. The history: \<open>av_logged\<close> is what the reader noted for the device,
  \<open>av_taken\<close> what left the channel, to a wait or by \<open>clear\<close>.
\<close>

record app_events =
  av_id :: string
  av_queue :: "app_event list"
  av_err :: "go_error option"
  av_ended :: bool
  av_open :: bool
  av_logged :: "app_event list"
  av_taken :: "app_event list"

definition events_new :: "string \<Rightarrow> app_events" where
  "events_new i = \<lparr>av_id = i, av_queue = [], av_err = None, av_ended = False, av_open = True, av_logged = [], av_taken = []\<rparr>"

definition av_mine :: "string \<Rightarrow> app_event \<Rightarrow> bool" where
  "av_mine i e \<longleftrightarrow> ae_field e ''node_id'' = i \<or> ae_field e ''node_id'' = ''all''"

definition events_overrun :: go_error where
  "events_overrun = Msg ''app event queue overrun''"

definition events_receive :: "app_event \<Rightarrow> app_events \<Rightarrow> app_events" where
  "events_receive e a =
     (if \<not> av_mine (av_id a) e then a
      else let a1 = a\<lparr>av_logged := av_logged a @ [e]\<rparr>
           in if length (av_queue a1) < 128 then a1\<lparr>av_queue := av_queue a1 @ [e]\<rparr>
              else a1\<lparr>av_err := Some events_overrun, av_open := False, av_ended := True\<rparr>)"

definition events_fail :: "go_error \<Rightarrow> app_events \<Rightarrow> app_events" where
  "events_fail err a = a\<lparr>av_err := Some err, av_ended := True\<rparr>"

definition events_clear :: "app_events \<Rightarrow> app_events" where
  "events_clear a = a\<lparr>av_queue := [], av_taken := av_taken a @ av_queue a\<rparr>"

definition events_close :: "app_events \<Rightarrow> app_events" where
  "events_close a = a\<lparr>av_open := False\<rparr>"

text \<open>The goroutine of the socket: an event it read, or the error that ends it; after its end it does nothing.\<close>

datatype reader_action = Reads app_event | Read_fails go_error

definition reader_act :: "reader_action \<Rightarrow> app_events \<Rightarrow> app_events" where
  "reader_act x a = (if av_ended a then a else case x of Reads e \<Rightarrow> events_receive e a | Read_fails err \<Rightarrow> events_fail err a)"

definition reader_acts :: "reader_action list \<Rightarrow> app_events \<Rightarrow> app_events" where
  "reader_acts xs a = fold reader_act xs a"

text \<open>
  \<open>wait\<close>: the reader goes on while it waits, and each time its \<open>select\<close> takes from the queue it takes the oldest event;
  in the end it takes the error of the context or of the socket. The third part is the event that ended the wait with
  success, with its number in the order in which events left the queue.
\<close>

datatype wait_action = While_waiting reader_action | Takes

fun events_wait ::
    "(app_event \<Rightarrow> string) \<Rightarrow> 'c sim_step \<Rightarrow> wait_action list \<Rightarrow> go_error \<Rightarrow> app_events \<Rightarrow>
     go_error option \<times> app_events \<times> (nat \<times> app_event) option" where
  "events_wait show_event step [] ended a = (Some ended, a, None)"
| "events_wait show_event step (While_waiting x # acts) ended a = events_wait show_event step acts ended (reader_act x a)"
| "events_wait show_event step (Takes # acts) ended a =
     (case av_queue a of
        [] \<Rightarrow> events_wait show_event step acts ended a
      | e # q \<Rightarrow>
          let a' = a\<lparr>av_queue := q, av_taken := av_taken a @ [e]\<rparr>
          in if ae_event e = Some ''error'' \<or> ae_status e = Some ''error'' then (Some (Msg (''app error: '' @ show_event e)), a', None)
             else if ae_event e \<noteq> Some (st_event step) then events_wait show_event step acts ended a'
             else
               let field = (if st_field step = [] then ''text'' else st_field step);
                   value = ae_field e field
               in if st_contains step \<noteq> [] \<and> \<not> contains (to_lower value) (to_lower (st_contains step))
                  then (Some (Msg (st_event step @ '' event '' @ field @ '' does not contain '' @ go_quote (st_contains step))), a', None)
                  else (None, a', Some (length (av_taken a), e)))"

subsection \<open>The recording\<close>

function chunks_320 :: "i16 list \<Rightarrow> i16 list list" where
  "chunks_320 p = (if p = [] then [] else take 320 p # chunks_320 (drop 320 p))"
  by pat_completeness auto
termination by (relation "measure length") auto

declare chunks_320.simps [simp del]

record float_texts =
  tx_3 :: "f64 \<Rightarrow> string"
  tx_0 :: "f64 \<Rightarrow> string"
  tx_status :: "sim_device \<Rightarrow> string"

record float_maths =
  fm_sin :: "f64 \<Rightarrow> f64"
  fm_cos :: "f64 \<Rightarrow> f64"
  fm_sqrt :: "f64 \<Rightarrow> f64"

definition rms_threshold :: "'c sim_step \<Rightarrow> f64" where
  "rms_threshold step = (if f_le (st_minRMS step) (Fin 0) then fround float64 (2 / 100) else st_minRMS step)"

definition active_samples :: "float_maths \<Rightarrow> f64 \<Rightarrow> i16 list \<Rightarrow> nat" where
  "active_samples m threshold p =
     sum_list (map (\<lambda>c. if f_le threshold (level (fm_sqrt m) c) then length c else 0) (chunks_320 p))"

definition assertOutput :: "float_texts \<Rightarrow> float_maths \<Rightarrow> i16 list \<Rightarrow> 'c sim_step \<Rightarrow> sim_device \<Rightarrow> go_error option" where
  "assertOutput tx m p step d =
     (if 0 < sd_decode_errors d \<or> 0 < sd_overruns d then Some (Msg (''codec or buffer errors: '' @ tx_status tx d))
      else if f_le (st_minActive step) (Fin 0) then Some (Msg ''assert_output requires min_active_seconds'')
      else
        let seconds = f64div (f64int (int (active_samples m (rms_threshold step) p))) (f64int simRate)
        in if f_lt seconds (st_minActive step)
           then Some (Msg (''active output '' @ tx_3 tx seconds @ ''s < '' @ tx_3 tx (st_minActive step) @ ''s''))
           else if f_lt (Fin 0) (st_maxSeconds step) \<and> f_lt (st_maxSeconds step) (f64div (f64int (int (length p))) (f64int simRate))
           then Some (Msg (''recording duration exceeds '' @ tx_3 tx (st_maxSeconds step) @ ''s''))
           else if f_lt (Fin 0) (st_hz step) then
             (let minimum = (if f_le (st_minMarker step) (Fin 0) then fround float64 (5 / 100) else st_minMarker step);
                  score = marker (fm_sin m) (fm_cos m) p (st_hz step)
              in if f_lt score minimum
                 then Some (Msg (''decoded '' @ tx_0 tx (st_hz step) @ '' Hz marker score '' @ tx_3 tx score @ '' < '' @ tx_3 tx minimum))
                 else None)
           else None)"

subsection \<open>A step\<close>

text \<open>
  What a step finds: its context, the device, the answers of base64, fixture files and the JSON and HTTP libraries, the
  events that are read from the socket before the step acts and while a command is posted, what happens during its wait
  for an event and how that wait ends, how a plain wait ends, and the state of the device at each poll.
\<close>

record step_env =
  sv_ctx :: ctx_err
  sv_dev :: sim_device
  sv_base64 :: "string \<Rightarrow> byte list result"
  sv_fixture :: "string \<Rightarrow> i16 list result"
  sv_parse :: "string \<Rightarrow> duration result"
  sv_request :: "go_error option"
  sv_answer :: "(int \<times> string) result"
  sv_arrivals :: "reader_action list"
  sv_posting :: "reader_action list"
  sv_waiting :: "wait_action list"
  sv_wait_end :: go_error
  sv_timer :: ctx_err
  sv_polls :: "sim_device list"
  sv_poll_end :: go_error
  sv_show :: "app_event \<Rightarrow> string"
  sv_texts :: float_texts
  sv_maths :: float_maths

text \<open>
  The error, the device, the command still to wait for and the socket after the step, and its trace: what was posted
  (action and node), how many events had been read when the queue was cleared, and the event that ended a wait.
\<close>

record step_trace =
  tr_post :: "(string \<times> string) option"
  tr_cleared :: "nat option"
  tr_taken :: "(nat \<times> app_event) option"

definition quiet :: step_trace where
  "quiet = \<lparr>tr_post = None, tr_cleared = None, tr_taken = None\<rparr>"

type_synonym step_outcome = "go_error option \<times> sim_device \<times> string \<times> app_events option \<times> step_trace"

definition step_replay :: "step_env \<Rightarrow> 'c sim_step \<Rightarrow> go_error option \<times> sim_device" where
  "step_replay env step =
     (let p = (if st_audio step \<noteq> [] then (case sv_base64 env (st_audio step) of Inl e \<Rightarrow> Inl e | Inr b \<Rightarrow> parseWAV b)
               else sv_fixture env (st_replay step))
      in case p of Inl e \<Rightarrow> (Some e, sv_dev env) | Inr pcm \<Rightarrow> dev_play pcm (sv_dev env))"

definition tone_ok :: "f64 \<Rightarrow> f64 \<Rightarrow> bool" where
  "tone_ok hz seconds \<longleftrightarrow> \<not> (f_lt hz (Fin 100) \<or> f_lt (Fin 7000) hz \<or> f_le seconds (Fin 0) \<or> f_lt (Fin 300) seconds)"

definition step_tone :: "step_env \<Rightarrow> 'c sim_step \<Rightarrow> go_error option \<times> sim_device" where
  "step_tone env step =
     (if \<not> tone_ok (st_hz step) (st_seconds step) then (Some (Msg ''invalid tone''), sv_dev env)
      else dev_play (tone (fm_sin (sv_maths env)) (st_hz step) (st_seconds step)) (sv_dev env))"

text \<open>
  The command of a step and its node; the queue is cleared before it is posted. A sequence with a command has a
  socket (\<open>needs_app\<close>): without one, \<open>clear\<close> would be called on nil.
\<close>

definition command_target :: "step_env \<Rightarrow> 'c sim_step \<Rightarrow> string \<Rightarrow> (string \<times> string) result" where
  "command_target env step pending =
     (if pending \<noteq> [] then Inl (Msg (''wait for '' @ pending @ '' before issuing another command''))
      else case cm_action (st_command step) of
        None \<Rightarrow> Inl (Msg ''command action required'')
      | Some action \<Rightarrow>
          if action = [] then Inl (Msg ''command action required'')
          else
            let target = (case cm_node (st_command step) of None \<Rightarrow> sd_ID (sv_dev env) | Some n \<Rightarrow> n)
            in if target \<noteq> sd_ID (sv_dev env) \<and> target \<noteq> ''all''
               then Inl (Msg ''command node must match sequence device or all'') else Inr (action, target))"

definition step_post :: "step_env \<Rightarrow> string \<Rightarrow> go_error option \<times> string" where
  "step_post env action =
     (case sv_request env of
        Some e \<Rightarrow> (Some e, [])
      | None \<Rightarrow>
          (case sv_answer env of
             Inl e \<Rightarrow> (Some e, [])
           | Inr (status, body) \<Rightarrow>
               if status \<noteq> 202 then (Some (Msg (''app command HTTP '' @ show_int status @ '': '' @ body)), [])
               else (None, action @ ''_completed'')))"

definition step_command ::
    "step_env \<Rightarrow> 'c sim_step \<Rightarrow> string \<Rightarrow> app_events option \<Rightarrow> go_error option \<times> string \<times> app_events option \<times> step_trace" where
  "step_command env step pending events =
     (case command_target env step pending of
        Inl e \<Rightarrow> (Some e, pending, events, quiet)
      | Inr (action, target) \<Rightarrow>
          (case events of
             None \<Rightarrow> (Some (Msg ''nil event socket''), pending, events, quiet)
           | Some a \<Rightarrow>
               (case step_post env action of
                  (err, pending') \<Rightarrow>
                    (err, pending', Some (reader_acts (sv_posting env) (events_clear a)),
                     quiet\<lparr>tr_post := if sv_request env = None then Some (action, target) else None,
                           tr_cleared := Some (length (av_logged a))\<rparr>))))"

definition step_wait_event ::
    "step_env \<Rightarrow> 'c sim_step \<Rightarrow> string \<Rightarrow> app_events option \<Rightarrow> go_error option \<times> string \<times> app_events option \<times> step_trace" where
  "step_wait_event env step pending events =
     (case events of
        None \<Rightarrow> (Some (Msg ''event socket unavailable''), pending, None, quiet)
      | Some a \<Rightarrow>
          (case events_wait (sv_show env) step (sv_waiting env) (sv_wait_end env) a of
             (e, a', taken) \<Rightarrow>
               (e, if e = None \<and> st_event step = pending then [] else pending, Some a', quiet\<lparr>tr_taken := taken\<rparr>)))"

text \<open>A plain wait; the range check stands after the timer was made.\<close>

definition step_wait :: "step_env \<Rightarrow> 'c sim_step \<Rightarrow> go_error option" where
  "step_wait env step =
     (if f_lt (st_seconds step) (Fin 0) \<or> f_lt (Fin 300) (st_seconds step) then Some (Msg ''invalid wait duration'') else sv_timer env)"

definition poll_done :: "'c sim_step \<Rightarrow> sim_device \<Rightarrow> bool" where
  "poll_done step d \<longleftrightarrow>
     st_action step = ''wait_input_idle'' \<and> sd_input d = In_silence \<or>
     st_action step = ''wait_activity'' \<and>
       f_le (rms_threshold step) (if st_direction step = ''input'' then sd_input_level d else sd_output_level d)"

definition executeStep :: "step_env \<Rightarrow> 'c sim_step \<Rightarrow> string \<Rightarrow> app_events option \<Rightarrow> step_outcome" where
  "executeStep env step pending socket =
     (let d = sv_dev env; a = st_action step; s = map_option (reader_acts (sv_arrivals env)) socket in
      case sv_ctx env of
        Some err \<Rightarrow> (Some err, d, pending, s, quiet)
      | None \<Rightarrow>
          if a = ''replay'' then (case step_replay env step of (e, d') \<Rightarrow> (e, d', pending, s, quiet))
          else if a = ''tone'' then (case step_tone env step of (e, d') \<Rightarrow> (e, d', pending, s, quiet))
          else if a = ''stop'' then (None, dev_stop d, pending, s, quiet)
          else if a = ''reset'' then (None, dev_reset d, pending, s, quiet)
          else if a = ''disconnect'' then (None, dev_online False d, pending, s, quiet)
          else if a = ''reconnect'' then (None, dev_online True d, pending, s, quiet)
          else if a = ''assert_output'' then (assertOutput (sv_texts env) (sv_maths env) (sd_recording d) step d, d, pending, s, quiet)
          else case stepDeadline (sv_parse env) step of
            Inl e \<Rightarrow> (Some e, d, pending, s, quiet)
          | Inr _ \<Rightarrow>
              if a = ''command'' then (case step_command env step pending s of (e, p, s', t) \<Rightarrow> (e, d, p, s', t))
              else if a = ''wait_event'' then (case step_wait_event env step pending s of (e, p, s', t) \<Rightarrow> (e, d, p, s', t))
              else if a = ''wait'' then (step_wait env step, d, pending, s, quiet)
              else if a = ''wait_input_idle'' \<or> a = ''wait_activity''
              then (if list_ex (poll_done step) (sv_polls env) then None else Some (Wrap (a @ '': '') (sv_poll_end env)), d, pending, s, quiet)
              else (Some (Msg ''unsupported action''), d, pending, s, quiet))"

subsection \<open>Sequences and the report\<close>

record step_result =
  sr_device :: string
  sr_index :: nat
  sr_action :: string
  sr_error :: "go_error option"
  sr_cleared :: "nat option"
  sr_taken :: "(nat \<times> app_event) option"

text \<open>
  The steps of a sequence from index \<open>i\<close>, with the command that is outstanding and the socket; \<open>sr_cleared\<close> and
  \<open>sr_taken\<close> are ghosts of the trace of a step. The second part is the error left when a command was not waited for.
\<close>

fun run_steps ::
    "string \<Rightarrow> (nat \<Rightarrow> step_env) \<Rightarrow> nat \<Rightarrow> string \<Rightarrow> app_events option \<Rightarrow> 'c sim_step list \<Rightarrow> step_result list \<times> go_error option" where
  "run_steps dev env i pending socket [] =
     ([], if pending \<noteq> [] then Some (Msg (''sequence '' @ dev @ '' ended without waiting for '' @ pending)) else None)"
| "run_steps dev env i pending socket (step # steps) =
     (case executeStep (env i) step pending socket of
        (err, d, pending', socket', trace) \<Rightarrow>
          let r = \<lparr>sr_device = dev, sr_index = i, sr_action = st_action step, sr_error = err, sr_cleared = tr_cleared trace,
                   sr_taken = tr_taken trace\<rparr>
          in if err \<noteq> None then ([r], None)
             else (case run_steps dev env (Suc i) pending' socket' steps of (rs, e) \<Rightarrow> (r # rs, e)))"

definition needs_app :: "'c sim_step list \<Rightarrow> bool" where
  "needs_app steps \<longleftrightarrow> list_ex (\<lambda>s. st_action s = ''command'' \<or> st_action s = ''wait_event'') steps"

text \<open>One socket per sequence, and only for a sequence that needs it.\<close>

definition run_sequence :: "(string \<Rightarrow> go_error option) \<Rightarrow> (string \<Rightarrow> nat \<Rightarrow> step_env) \<Rightarrow> string \<times> 'c sim_step list \<Rightarrow> step_result list \<times> go_error option" where
  "run_sequence app_connect env s =
     (case s of (dev, steps) \<Rightarrow>
        if needs_app steps then
          (case app_connect dev of
             Some e \<Rightarrow> ([], Some (Wrap ''Gocalis prerequisite unavailable: '' e))
           | None \<Rightarrow> run_steps dev (env dev) 0 [] (Some (events_new dev)) steps)
        else run_steps dev (env dev) 0 [] None steps)"

record report =
  rt_name :: string
  rt_passed :: bool
  rt_error :: "go_error option"
  rt_steps :: "step_result list"

text \<open>What the executor finds: the devices, the fixtures, the sockets, the steps, and whether the artifacts were written.\<close>

record scenario_env =
  sx_devices :: "(string \<times> sim_device) list"
  sx_fixture :: "string \<Rightarrow> i16 list result"
  sx_connect :: "string \<Rightarrow> go_error option"
  sx_steps :: "string \<Rightarrow> nat \<Rightarrow> step_env"
  sx_save :: "go_error option"

definition scenario_refused :: "scenario_env \<Rightarrow> 'c scenario \<Rightarrow> go_error option" where
  "scenario_refused env sc =
     (case find (\<lambda>s. fst s \<notin> fst ` set (sx_devices env)) (sn_sequences sc) of
        Some s \<Rightarrow> Some (Msg (''unknown device '' @ fst s))
      | None \<Rightarrow>
          (case first_error (\<lambda>p. case sx_fixture env p of Inl e \<Rightarrow> Some (Wrap ''missing prerequisite: '' e) | Inr _ \<Rightarrow> None) (sn_requires sc) of
             Some e \<Rightarrow> Some e
           | None \<Rightarrow>
               if list_ex (\<lambda>d. sd_input (snd d) = In_live) (sx_devices env)
               then Some (Msg ''stop browser microphone before running scenarios'') else None))"

definition save_report :: "scenario_env \<Rightarrow> report \<Rightarrow> report" where
  "save_report env r =
     (case sx_save env of None \<Rightarrow> r | Some e \<Rightarrow> r\<lparr>rt_passed := False, rt_error := Some (Wrap ''write artifacts: '' e)\<rparr>)"

text \<open>
  The sequences run side by side; the list of results keeps those of one sequence together. Before they start every
  device is stopped and reset; the state a step finds its device in is a part of that step's environment, since the
  audio clock runs between the steps.
\<close>

definition executeScenario :: "scenario_env \<Rightarrow> 'c scenario \<Rightarrow> report" where
  "executeScenario env sc =
     save_report env
       (case scenario_refused env sc of
          Some e \<Rightarrow> \<lparr>rt_name = sn_name sc, rt_passed = False, rt_error = Some e, rt_steps = []\<rparr>
        | None \<Rightarrow>
            let runs = map (run_sequence (sx_connect env) (sx_steps env)) (sn_sequences sc);
                results = concat (map fst runs);
                errors = filter (\<lambda>e. e \<noteq> None) (map snd runs)
            in \<lparr>rt_name = sn_name sc, rt_passed = list_all (\<lambda>r. sr_error r = None) results \<and> errors = [],
                rt_error = (if errors = [] then None else last errors), rt_steps = results\<rparr>)"

text \<open>\<open>/api/scenarios\<close>: the status, the report, and the lock on scenarios, which is free again afterwards.\<close>

definition scenarioHTTP ::
    "(string \<Rightarrow> duration result) \<Rightarrow> ('c scenario \<times> bool) result \<Rightarrow> scenario_env \<Rightarrow> bool \<Rightarrow> int \<times> report option" where
  "scenarioHTTP parse decoded env running =
     (case parseScenario parse decoded of
        Inl e \<Rightarrow> (400, None)
      | Inr sc \<Rightarrow> if running then (409, None) else (200, Some (executeScenario env sc)))"

subsection \<open>What a pass means\<close>

lemma first_error_None: "first_error f xs = None \<longleftrightarrow> (\<forall>x \<in> set xs. f x = None)"
  by (induction xs) (auto split: option.splits)

text \<open>
  Every event that was read left the queue, is in it, or overran it, which ends the reader. \<open>fresh n\<close>: whatever leaves
  the queue from now on is not one of the first \<open>n\<close> events that were read.
\<close>

definition socket_ok :: "app_events \<Rightarrow> bool" where
  "socket_ok a \<longleftrightarrow> (\<exists>over. av_logged a = av_taken a @ av_queue a @ over \<and> (over \<noteq> [] \<longrightarrow> av_ended a))"

definition fresh :: "nat \<Rightarrow> app_events \<Rightarrow> bool" where
  "fresh n a \<longleftrightarrow> n \<le> length (av_taken a) \<or> av_ended a \<and> av_queue a = []"

lemma reader_act_ok: "socket_ok a \<Longrightarrow> socket_ok (reader_act x a)"
  by (cases x) (auto simp: socket_ok_def reader_act_def events_receive_def events_fail_def Let_def)

lemma reader_act_fresh: "fresh n a \<Longrightarrow> fresh n (reader_act x a)"
  by (cases x) (auto simp: fresh_def reader_act_def events_receive_def events_fail_def Let_def)

lemma reader_acts_ok: "socket_ok a \<Longrightarrow> socket_ok (reader_acts xs a)"
  unfolding reader_acts_def by (induction xs arbitrary: a) (simp_all add: reader_act_ok)

lemma reader_acts_fresh: "fresh n a \<Longrightarrow> fresh n (reader_acts xs a)"
  unfolding reader_acts_def by (induction xs arbitrary: a) (simp_all add: reader_act_fresh)

lemma events_new_ok [simp]: "socket_ok (events_new i)"
  by (simp add: socket_ok_def events_new_def)

text \<open>After \<open>clear\<close>, nothing that had been read before can be taken.\<close>

lemma events_clear_ok: "socket_ok a \<Longrightarrow> socket_ok (events_clear a) \<and> fresh (length (av_logged a)) (events_clear a)"
  by (auto simp: socket_ok_def fresh_def events_clear_def)

text \<open>The event that ends a wait: the one of its number in the order of reading, the one waited for, and no old one.\<close>

lemma events_wait_taken:
  assumes "events_wait show_event step acts ended a = (err, a', taken)" and "socket_ok a"
  shows "socket_ok a' \<and> (fresh n a \<longrightarrow> fresh n a') \<and>
    (err = None \<longrightarrow> (\<exists>p e. taken = Some (p, e) \<and> ae_event e = Some (st_event step) \<and> ae_status e \<noteq> Some ''error'' \<and>
       p < length (av_logged a') \<and> av_logged a' ! p = e \<and> (fresh n a \<longrightarrow> n \<le> p)))"
  using assms
proof (induction show_event step acts ended a rule: events_wait.induct)
  case (2 show_event step x acts ended a)
  then show ?case using reader_act_ok reader_act_fresh by (metis events_wait.simps(2))
next
  case (3 show_event step acts ended a)
  show ?case
  proof (cases "av_queue a")
    case Nil
    then show ?thesis using 3 by simp
  next
    case (Cons e q)
    define b where "b = a\<lparr>av_queue := q, av_taken := av_taken a @ [e]\<rparr>"
    have b: "socket_ok b" "fresh n a \<longrightarrow> fresh n b" "fresh n a \<longrightarrow> n \<le> length (av_taken a)"
      "length (av_taken a) < length (av_logged b)" "av_logged b ! length (av_taken a) = e"
      using 3(4) Cons by (auto simp: socket_ok_def fresh_def b_def)
    consider (failed) "ae_event e = Some ''error'' \<or> ae_status e = Some ''error''"
      | (other) "\<not> (ae_event e = Some ''error'' \<or> ae_status e = Some ''error'')" "ae_event e \<noteq> Some (st_event step)"
      | (found) "\<not> (ae_event e = Some ''error'' \<or> ae_status e = Some ''error'')" "ae_event e = Some (st_event step)" by blast
    then show ?thesis
    proof cases
      case failed
      then have "err \<noteq> None \<and> a' = b" using 3(3) Cons by (auto simp: b_def Let_def)
      then show ?thesis using b by auto
    next
      case other
      then have "events_wait show_event step acts ended b = (err, a', taken)" using 3(3) Cons by (simp add: b_def Let_def)
      moreover have "\<not> (ae_event e = Some ''error'' \<or> ae_status e = Some ''error'')" using other by simp
      ultimately show ?thesis using 3(2) [OF Cons b_def _ other(2)] b by blast
    next
      case found
      then have "a' = b \<and> (err = None \<longrightarrow> taken = Some (length (av_taken a), e))"
        using 3(3) Cons by (auto simp: b_def Let_def split: if_splits)
      then show ?thesis using b found by auto
    qed
  qed
qed auto

text \<open>A step that was done: what it does to the command that is still to be waited for, and to the socket.\<close>

lemma events_wait_step:
  assumes "step_wait_event env step pending socket = (None, pending', socket', trace)" and "pred_option socket_ok socket"
  shows "pred_option socket_ok socket' \<and> (\<forall>n. pred_option (fresh n) socket \<longrightarrow> pred_option (fresh n) socket') \<and>
    pending' = (if st_event step = pending then [] else pending) \<and>
    (\<exists>p e. tr_taken trace = Some (p, e) \<and> ae_event e = Some (st_event step) \<and> ae_status e \<noteq> Some ''error'' \<and>
       (\<forall>n. pred_option (fresh n) socket \<longrightarrow> n \<le> p))"
proof -
  obtain a where a: "socket = Some a" using assms(1) by (cases socket) (simp_all add: step_wait_event_def)
  obtain err b taken where w: "events_wait (sv_show env) step (sv_waiting env) (sv_wait_end env) a = (err, b, taken)"
    by (metis prod_cases3)
  then have r: "err = None" "socket' = Some b" "trace = quiet\<lparr>tr_taken := taken\<rparr>" "pending' = (if st_event step = pending then [] else pending)"
    using assms(1) a by (auto simp: step_wait_event_def)
  have ok: "socket_ok a" using assms(2) a by simp
  note p = events_wait_taken [OF w ok]
  obtain q e where "taken = Some (q, e)" "ae_event e = Some (st_event step)" "ae_status e \<noteq> Some ''error''" using p r(1) by blast
  then show ?thesis using p r a by auto
qed

lemma step_command_done:
  assumes "step_command env step pending socket = (None, pending', socket', trace)" and "pred_option socket_ok socket"
  shows "pending = [] \<and> pred_option socket_ok socket' \<and>
    (\<exists>a body n. a \<noteq> [] \<and> pending' = a @ ''_completed'' \<and> cm_action (st_command step) = Some a \<and>
       sv_answer env = Inr (202, body) \<and> tr_cleared trace = Some n \<and> pred_option (fresh n) socket')"
proof -
  obtain a t where c: "command_target env step pending = Inr (a, t)"
    using assms(1) by (auto simp: step_command_def split: sum.splits)
  then have target: "pending = []" "a \<noteq> []" "cm_action (st_command step) = Some a"
    by (auto simp: command_target_def Let_def split: option.splits if_splits)
  obtain b where b: "socket = Some b" using assms(1) c by (cases socket) (simp_all add: step_command_def)
  have post: "step_post env a = (None, pending')" and
    r: "socket' = Some (reader_acts (sv_posting env) (events_clear b))" "tr_cleared trace = Some (length (av_logged b))"
    using assms(1) c b by (auto simp: step_command_def split: prod.splits)
  have "\<exists>body. sv_answer env = Inr (202, body)" "pending' = a @ ''_completed''"
    using post by (auto simp: step_post_def split: option.splits sum.splits if_splits)
  moreover have "socket_ok (reader_acts (sv_posting env) (events_clear b))"
    "fresh (length (av_logged b)) (reader_acts (sv_posting env) (events_clear b))"
    using assms(2) b events_clear_ok reader_acts_ok reader_acts_fresh by simp_all
  ultimately show ?thesis using target r by auto
qed

lemma executeStep_pending:
  assumes "executeStep env step pending socket = (None, d, pending', socket', trace)" and "pred_option socket_ok socket"
  shows "pred_option socket_ok socket' \<and>
    (if st_action step = ''command''
     then pending = [] \<and> (\<exists>a body n. a \<noteq> [] \<and> pending' = a @ ''_completed'' \<and> cm_action (st_command step) = Some a \<and>
        sv_answer env = Inr (202, body) \<and> tr_cleared trace = Some n \<and> pred_option (fresh n) socket')
     else (\<forall>n. pred_option (fresh n) socket \<longrightarrow> pred_option (fresh n) socket') \<and>
       (pending' = pending \<or>
        pending' = [] \<and> st_action step = ''wait_event'' \<and> st_event step = pending \<and>
          (\<exists>p e. tr_taken trace = Some (p, e) \<and> ae_event e = Some pending \<and> ae_status e \<noteq> Some ''error'' \<and>
             (\<forall>n. pred_option (fresh n) socket \<longrightarrow> n \<le> p))))"
proof -
  have ctx: "sv_ctx env = None" using assms by (auto simp: executeStep_def Let_def split: option.splits)
  define s where "s = map_option (reader_acts (sv_arrivals env)) socket"
  have s: "pred_option socket_ok s" "\<And>n. pred_option (fresh n) socket \<Longrightarrow> pred_option (fresh n) s"
    using assms(2) by (cases socket; simp add: s_def reader_acts_ok reader_acts_fresh)+
  show ?thesis
  proof (cases "st_action step = ''command''")
    case True
    then have "step_command env step pending s = (None, pending', socket', trace)"
      using assms(1) ctx by (auto simp: executeStep_def s_def Let_def split: sum.splits prod.splits)
    from step_command_done [OF this s(1)] show ?thesis using True by simp
  next
    case command: False
    show ?thesis
    proof (cases "st_action step = ''wait_event''")
      case True
      then have "step_wait_event env step pending s = (None, pending', socket', trace)"
        using assms(1) ctx by (auto simp: executeStep_def s_def Let_def split: sum.splits prod.splits)
      from events_wait_step [OF this s(1)] show ?thesis using True command s(2) by (auto split: if_splits)
    next
      case False
      then have "pending' = pending \<and> socket' = s"
        using assms(1) command unfolding executeStep_def Let_def ctx option.case s_def
        by (simp split: if_splits sum.splits prod.splits)
      then show ?thesis using command s by simp
    qed
  qed
qed

text \<open>A sequence that passes with a command outstanding waits for its completion before any other command.\<close>

lemma run_steps_waits:
  assumes "run_steps dev env i pending socket steps = (rs, None)" and "\<forall>r \<in> set rs. sr_error r = None" and "pending \<noteq> []"
    and "pred_option socket_ok socket" and "pred_option (fresh n) socket"
  shows "\<exists>j < length steps. st_action (steps ! j) = ''wait_event'' \<and> st_event (steps ! j) = pending \<and>
    (\<forall>k < j. st_action (steps ! k) \<noteq> ''command'') \<and>
    (\<exists>p e. sr_taken (rs ! j) = Some (p, e) \<and> n \<le> p \<and> ae_event e = Some pending \<and> ae_status e \<noteq> Some ''error'')"
  using assms
proof (induction steps arbitrary: i rs socket)
  case (Cons step steps)
  obtain err d pending' socket' trace where x: "executeStep (env i) step pending socket = (err, d, pending', socket', trace)"
    by (metis prod_cases5)
  have err: "err = None" using Cons.prems(1,2) x by (cases err) (auto simp: Let_def)
  obtain r rs' where rs': "run_steps dev env (Suc i) pending' socket' steps = (rs', None)" "\<forall>r \<in> set rs'. sr_error r = None"
    and rs: "rs = r # rs'" "sr_taken r = tr_taken trace"
    using Cons.prems(1,2) x err by (auto simp: Let_def split: prod.splits)
  note p = executeStep_pending [OF x [unfolded err] Cons.prems(4)]
  have nc: "st_action step \<noteq> ''command''" using p Cons.prems(3) by (auto split: if_splits)
  then have f: "pred_option (fresh n) socket'" "pred_option socket_ok socket'" using p Cons.prems(5) by auto
  show ?case
  proof (cases "pending' = pending")
    case False
    then have "st_action step = ''wait_event''" "st_event step = pending"
      "\<exists>p e. tr_taken trace = Some (p, e) \<and> n \<le> p \<and> ae_event e = Some pending \<and> ae_status e \<noteq> Some ''error''"
      using p nc Cons.prems(5) by auto
    then show ?thesis using rs by (intro exI [of _ 0]) simp
  next
    case True
    from Cons.IH [OF rs' [unfolded True] Cons.prems(3) f(2,1)] obtain j where j: "j < length steps" "st_action (steps ! j) = ''wait_event''"
      "st_event (steps ! j) = pending" "\<forall>k < j. st_action (steps ! k) \<noteq> ''command''"
      "\<exists>p e. sr_taken (rs' ! j) = Some (p, e) \<and> n \<le> p \<and> ae_event e = Some pending \<and> ae_status e \<noteq> Some ''error''" by blast
    have "\<forall>k < Suc j. st_action ((step # steps) ! k) \<noteq> ''command''" using j(4) nc by (auto simp: nth_Cons split: nat.split)
    then show ?thesis using j rs by (intro exI [of _ "Suc j"]) simp
  qed
qed simp

text \<open>
  A command of a sequence was accepted, and its completion event was taken by a later step that waited for it, before
  the next command; the event was read from the socket after the queue had been cleared for the command.
\<close>

definition answered :: "(nat \<Rightarrow> step_env) \<Rightarrow> nat \<Rightarrow> 'c sim_step list \<Rightarrow> step_result list \<Rightarrow> nat \<Rightarrow> bool" where
  "answered env i steps rs k \<longleftrightarrow>
     (\<exists>a body j n p e. cm_action (st_command (steps ! k)) = Some a \<and> sv_answer (env (i + k)) = Inr (202, body) \<and>
        k < j \<and> j < length steps \<and> st_action (steps ! j) = ''wait_event'' \<and> st_event (steps ! j) = a @ ''_completed'' \<and>
        (\<forall>l. k < l \<and> l < j \<longrightarrow> st_action (steps ! l) \<noteq> ''command'') \<and>
        sr_cleared (rs ! k) = Some n \<and> sr_taken (rs ! j) = Some (p, e) \<and> n \<le> p \<and>
        ae_event e = Some (a @ ''_completed'') \<and> ae_status e \<noteq> Some ''error'')"

lemma answered_later: "answered env (Suc i) steps rs k \<Longrightarrow> answered env i (step # steps) (r # rs) (Suc k)"
  unfolding answered_def
  by (elim exE conjE) (rule exI, rule exI, rule_tac x = "Suc j" in exI, auto simp: nth_Cons split: nat.splits)

lemma run_steps_passed:
  assumes "run_steps dev env i pending socket steps = (rs, None)" and "\<forall>r \<in> set rs. sr_error r = None"
    and "pred_option socket_ok socket"
  shows "length rs = length steps \<and> (\<forall>k < length steps. sr_device (rs ! k) = dev \<and> sr_index (rs ! k) = i + k \<and> sr_action (rs ! k) = st_action (steps ! k)) \<and>
    (\<forall>k < length steps. st_action (steps ! k) = ''command'' \<longrightarrow> answered env i steps rs k)"
  using assms
proof (induction steps arbitrary: i pending rs socket)
  case (Cons step steps)
  obtain err d pending' socket' trace where x: "executeStep (env i) step pending socket = (err, d, pending', socket', trace)"
    by (metis prod_cases5)
  have err: "err = None" using Cons.prems x by (cases err) (auto simp: Let_def)
  obtain r rs' where rs': "run_steps dev env (Suc i) pending' socket' steps = (rs', None)" "\<forall>r \<in> set rs'. sr_error r = None"
    and rs: "rs = r # rs'" and r: "sr_device r = dev" "sr_index r = i" "sr_action r = st_action step" "sr_cleared r = tr_cleared trace"
    using Cons.prems x err by (auto simp: Let_def split: prod.splits)
  note p = executeStep_pending [OF x [unfolded err] Cons.prems(3)]
  then have ok: "pred_option socket_ok socket'" by simp
  note ih = Cons.IH [OF rs' ok]
  have later: "answered env i (step # steps) (r # rs') (Suc k)" if "answered env (Suc i) steps rs' k" for k
    using answered_later [OF that] .
  have first: "answered env i (step # steps) rs 0" if c: "st_action step = ''command''"
  proof -
    obtain a body n where a: "a \<noteq> []" "pending' = a @ ''_completed''" "cm_action (st_command step) = Some a" "sv_answer (env i) = Inr (202, body)"
      "tr_cleared trace = Some n" "pred_option (fresh n) socket'"
      using p c by auto
    from run_steps_waits [OF rs' _ ok a(6)] a(2) obtain j where j: "j < length steps" "st_action (steps ! j) = ''wait_event''"
      "st_event (steps ! j) = pending'" "\<forall>k < j. st_action (steps ! k) \<noteq> ''command''"
      "\<exists>p e. sr_taken (rs' ! j) = Some (p, e) \<and> n \<le> p \<and> ae_event e = Some pending' \<and> ae_status e \<noteq> Some ''error''" by auto
    obtain q e where e: "sr_taken (rs' ! j) = Some (q, e)" "n \<le> q" "ae_event e = Some pending'" "ae_status e \<noteq> Some ''error''"
      using j(5) by blast
    have "\<forall>l. 0 < l \<and> l < Suc j \<longrightarrow> st_action ((step # steps) ! l) \<noteq> ''command''" using j(4) by (auto simp: nth_Cons split: nat.splits)
    then show ?thesis unfolding answered_def using a j e r rs
      by (intro exI [of _ a] exI [of _ body] exI [of _ "Suc j"] exI [of _ n] exI [of _ q] exI [of _ e]) simp
  qed
  have "\<forall>k < length (step # steps). st_action ((step # steps) ! k) = ''command'' \<longrightarrow> answered env i (step # steps) rs k"
    using ih later first unfolding rs by (auto simp: nth_Cons split: nat.splits)
  moreover have "\<forall>k < length (step # steps). sr_device (rs ! k) = dev \<and> sr_index (rs ! k) = i + k \<and> sr_action (rs ! k) = st_action ((step # steps) ! k)"
    using ih r unfolding rs by (auto simp: nth_Cons split: nat.splits)
  ultimately show ?case using ih unfolding rs by simp
qed simp

lemma run_sequence_passed:
  assumes "run_sequence conn env (dev, steps) = (rs, None)" and "\<forall>r \<in> set rs. sr_error r = None"
  shows "map sr_action rs = map st_action steps \<and> (\<forall>r \<in> set rs. sr_device r = dev) \<and>
    (\<forall>k < length steps. st_action (steps ! k) = ''command'' \<longrightarrow> answered (env dev) 0 steps rs k)"
proof -
  obtain socket where x: "run_steps dev (env dev) 0 [] socket steps = (rs, None)" and "pred_option socket_ok socket"
  proof (cases "needs_app steps")
    case True
    then have "run_steps dev (env dev) 0 [] (Some (events_new dev)) steps = (rs, None)"
      using assms(1) by (auto simp: run_sequence_def split: option.splits)
    then show ?thesis using that by fastforce
  next
    case False
    then have "run_steps dev (env dev) 0 [] None steps = (rs, None)" using assms(1) by (simp add: run_sequence_def)
    then show ?thesis using that by fastforce
  qed
  note p = run_steps_passed [OF x assms(2) this(2)]
  then show ?thesis by (auto simp: in_set_conv_nth intro!: nth_equalityI)
qed

lemma executeScenario_passed:
  assumes "rt_passed (executeScenario env sc)"
  shows "scenario_refused env sc = None \<and> sx_save env = None \<and>
    (\<forall>s \<in> set (sn_sequences sc). snd (run_sequence (sx_connect env) (sx_steps env) s) = None \<and>
       (\<forall>r \<in> set (fst (run_sequence (sx_connect env) (sx_steps env) s)). sr_error r = None))"
proof -
  have save: "sx_save env = None"
    using assms by (cases "sx_save env") (simp_all add: executeScenario_def save_report_def)
  have ref: "scenario_refused env sc = None"
    using assms save by (cases "scenario_refused env sc") (simp_all add: executeScenario_def save_report_def)
  show ?thesis using assms unfolding executeScenario_def save_report_def save ref
    by (auto simp: Let_def list_all_iff filter_empty_conv)
qed

lemma fixture_there: "(case x of Inl e \<Rightarrow> Some (Wrap m e) | Inr y \<Rightarrow> None) = None \<longleftrightarrow> (\<exists>y. x = Inr y)"
  by (cases x) simp_all

lemma scenario_refused_None:
  "scenario_refused env sc = None \<longleftrightarrow>
     (\<forall>s \<in> set (sn_sequences sc). fst s \<in> fst ` set (sx_devices env)) \<and>
     (\<forall>p \<in> set (sn_requires sc). \<exists>pcm. sx_fixture env p = Inr pcm) \<and>
     (\<forall>d \<in> set (sx_devices env). sd_input (snd d) \<noteq> In_live)"
proof (cases "find (\<lambda>s. fst s \<notin> fst ` set (sx_devices env)) (sn_sequences sc)")
  case None
  then have known: "\<forall>s \<in> set (sn_sequences sc). fst s \<in> fst ` set (sx_devices env)" unfolding find_None_iff by fast
  let ?f = "\<lambda>p. case sx_fixture env p of Inl e \<Rightarrow> Some (Wrap ''missing prerequisite: '' e) | Inr _ \<Rightarrow> None"
  have fixtures: "first_error ?f (sn_requires sc) = None \<longleftrightarrow> (\<forall>p \<in> set (sn_requires sc). \<exists>pcm. sx_fixture env p = Inr pcm)"
    by (simp only: first_error_None fixture_there)
  show ?thesis
  proof (cases "first_error ?f (sn_requires sc)")
    case no_error: None
    then show ?thesis using None known fixtures by (simp add: scenario_refused_def list_ex_iff)
  next
    case (Some e)
    then show ?thesis using None fixtures unfolding scenario_refused_def by simp
  qed
next
  case (Some s)
  then have "s \<in> set (sn_sequences sc) \<and> fst s \<notin> fst ` set (sx_devices env)" by (auto simp: find_Some_iff)
  then show ?thesis using Some by (auto simp: scenario_refused_def)
qed

text \<open>C40: What a passed scenario means. When the report of a run says passed, the scenario was not refused - every
  sequence names a device, every fixture it requires is there, and no browser microphone was open - and its artifacts
  were written; for every sequence the report holds one result for each of its steps, in order, without an error; and
  every command of a sequence was accepted with 202 and followed, before the next command, by a step that waited for
  its completion event and took one from the queue of the sequence's socket that carries no error and that was read
  after the queue had been cleared for this command: an event that was already there when the command was posted does
  not count. (An event carries no number of the command it answers, so the theorem does not say whose command of the
  same action completed.)\<close>

theorem scenario_pass_sound:
  assumes "rt_passed (executeScenario env sc)"
  shows "rt_error (executeScenario env sc) = None \<and> sx_save env = None \<and>
    (\<forall>s \<in> set (sn_sequences sc). fst s \<in> fst ` set (sx_devices env)) \<and>
    (\<forall>p \<in> set (sn_requires sc). \<exists>pcm. sx_fixture env p = Inr pcm) \<and>
    (\<forall>d \<in> set (sx_devices env). sd_input (snd d) \<noteq> In_live) \<and>
    (\<forall>dev steps. (dev, steps) \<in> set (sn_sequences sc) \<longrightarrow>
       (\<exists>before rs later. rt_steps (executeScenario env sc) = before @ rs @ later \<and>
          map sr_action rs = map st_action steps \<and> (\<forall>r \<in> set rs. sr_device r = dev \<and> sr_error r = None) \<and>
          (\<forall>k < length steps. st_action (steps ! k) = ''command'' \<longrightarrow> answered (sx_steps env dev) 0 steps rs k)))"
proof -
  note p = executeScenario_passed [OF assms]
  let ?run = "run_sequence (sx_connect env) (sx_steps env)"
  have steps: "rt_steps (executeScenario env sc) = concat (map fst (map ?run (sn_sequences sc)))"
    and err: "rt_error (executeScenario env sc) = None"
    using p by (auto simp: executeScenario_def save_report_def Let_def filter_empty_conv)
  have seqs: "(\<exists>before rs later. rt_steps (executeScenario env sc) = before @ rs @ later \<and>
          map sr_action rs = map st_action steps \<and> (\<forall>r \<in> set rs. sr_device r = dev \<and> sr_error r = None) \<and>
          (\<forall>k < length steps. st_action (steps ! k) = ''command'' \<longrightarrow> answered (sx_steps env dev) 0 steps rs k))"
    if m: "(dev, steps) \<in> set (sn_sequences sc)" for dev steps
  proof -
    obtain xs ys where xs: "sn_sequences sc = xs @ (dev, steps) # ys" using m by (meson split_list)
    obtain rs where rs: "?run (dev, steps) = (rs, None)" "\<forall>r \<in> set rs. sr_error r = None"
      using p m by (metis fst_conv snd_conv surj_pair)
    have "rt_steps (executeScenario env sc) = concat (map fst (map ?run xs)) @ rs @ concat (map fst (map ?run ys))"
      unfolding steps xs using rs(1) by simp
    then show ?thesis using run_sequence_passed [OF rs] rs(2) by blast
  qed
  have "scenario_refused env sc = None" using p by simp
  then show ?thesis using err seqs p unfolding scenario_refused_None by simp
qed

text \<open>
  A completion event is already waiting when the command is posted; it is cleared away, and the wait takes the one
  that is read afterwards.
\<close>

theorem scenario_pass_sound_witness:
  "\<exists>(env :: scenario_env) (sc :: unit scenario). rt_passed (executeScenario env sc) \<and>
     (\<exists>rs x y. rt_steps (executeScenario env sc) = x @ rs @ y \<and> map sr_action rs = [''command'', ''wait_event''] \<and>
        answered (sx_steps env ''bell'') 0 (snd (hd (sn_sequences sc))) rs 0)"
proof -
  let ?cmd = "\<lparr>cm_action = Some ''play'', cm_node = None, cm_rest = ()\<rparr>"
  let ?step = "\<lambda>a e. \<lparr>st_action = a, st_timeout = ''1s'', st_replay = [], st_audio = [], st_seconds = Fin 0, st_hz = Fin 0,
    st_command = ?cmd, st_event = e, st_field = [], st_contains = [], st_direction = [], st_minActive = Fin 0,
    st_maxSeconds = Fin 0, st_minRMS = Fin 0, st_minMarker = Fin 0\<rparr> :: unit sim_step"
  let ?steps = "[?step ''command'' [], ?step ''wait_event'' ''play_completed'']"
  let ?sc = "\<lparr>sn_name = ''bell'', sn_sequences = [(''bell'', ?steps)], sn_requires = []\<rparr>"
  define e where "e = \<lparr>ae_event = Some ''play_completed'', ae_status = Some ''success'', ae_field = (\<lambda>_. ''bell'')\<rparr>"
  let ?v = "\<lparr>sv_ctx = None, sv_dev = newDevice ''bell'', sv_base64 = (\<lambda>_. Inr []), sv_fixture = (\<lambda>_. Inr []), sv_parse = (\<lambda>_. Inr second),
    sv_request = None, sv_answer = Inr (202, []), sv_arrivals = [Reads e], sv_posting = [], sv_waiting = [While_waiting (Reads e), Takes],
    sv_wait_end = Msg [], sv_timer = None, sv_polls = [],
    sv_poll_end = Msg [], sv_show = (\<lambda>_. []), sv_texts = \<lparr>tx_3 = (\<lambda>_. []), tx_0 = (\<lambda>_. []), tx_status = (\<lambda>_. [])\<rparr>,
    sv_maths = \<lparr>fm_sin = id, fm_cos = id, fm_sqrt = id\<rparr>\<rparr>"
  let ?env = "\<lparr>sx_devices = [(''bell'', newDevice ''bell'')], sx_fixture = (\<lambda>_. Inr []), sx_connect = (\<lambda>_. None),
    sx_steps = (\<lambda>_ _. ?v), sx_save = None\<rparr>"
  define a where "a = (events_new ''bell'')\<lparr>av_logged := [e], av_taken := [e]\<rparr>"
  define b where "b = a\<lparr>av_logged := [e, e, e], av_taken := [e, e], av_queue := [e]\<rparr>"
  have x: "executeStep ?v (?step ''command'' []) [] (Some (events_new ''bell'')) =
      (None, newDevice ''bell'', ''play_completed'', Some a, quiet\<lparr>tr_post := Some (''play'', ''bell''), tr_cleared := Some 1\<rparr>)"
    by (simp add: executeStep_def stepDeadline_def step_command_def command_target_def step_post_def newDevice_def reader_acts_def
        reader_act_def events_receive_def events_clear_def events_new_def av_mine_def e_def a_def)
  have y: "executeStep ?v (?step ''wait_event'' ''play_completed'') ''play_completed'' (Some a) =
      (None, newDevice ''bell'', [], Some b, quiet\<lparr>tr_taken := Some (1, e)\<rparr>)"
    by (simp add: executeStep_def stepDeadline_def step_wait_event_def reader_acts_def reader_act_def events_receive_def
        events_new_def av_mine_def e_def a_def b_def Let_def)
  have run: "run_steps ''bell'' (\<lambda>_. ?v) 0 [] (Some (events_new ''bell'')) ?steps =
      ([\<lparr>sr_device = ''bell'', sr_index = 0, sr_action = ''command'', sr_error = None, sr_cleared = Some 1, sr_taken = None\<rparr>,
        \<lparr>sr_device = ''bell'', sr_index = Suc 0, sr_action = ''wait_event'', sr_error = None, sr_cleared = None, sr_taken = Some (1, e)\<rparr>], None)"
    by (simp add: x y quiet_def)
  have idle: "sd_input (newDevice ''bell'') \<noteq> In_live" by (simp add: newDevice_def)
  have passed: "rt_passed (executeScenario ?env ?sc)"
    using idle run by (simp add: executeScenario_def save_report_def scenario_refused_def run_sequence_def needs_app_def Let_def)
  have "(''bell'', ?steps) \<in> set (sn_sequences ?sc)" "0 < length ?steps" "st_action (?steps ! 0) = ''command''" by simp_all
  then obtain u rs w where "rt_steps (executeScenario ?env ?sc) = u @ rs @ w" "map sr_action rs = map st_action ?steps"
    "answered (sx_steps ?env ''bell'') 0 ?steps rs 0"
    using scenario_pass_sound [OF passed] by blast
  then have "\<exists>rs x y. rt_steps (executeScenario ?env ?sc) = x @ rs @ y \<and> map sr_action rs = [''command'', ''wait_event''] \<and>
      answered (sx_steps ?env ''bell'') 0 (snd (hd (sn_sequences ?sc))) rs 0"
    by (intro exI [of _ rs] conjI exI [of _ u] exI [of _ w]) simp_all
  then show ?thesis using passed by (intro exI [of _ ?env] exI [of _ ?sc] conjI)
qed

end
