(* ===== verification/Sim_Server.thy ===== *)
theory Sim_Server
  imports Sim_Scenario
begin

text \<open>
  The HTTP interface of the simulator (tools/simulator/http.go): the guard on the origin, the routing, the operations on
  a device, and the artifacts of a run (tools/simulator/main.go). A request is a function of the devices, which are a list
  with the device ids; \<open>url.Parse\<close>, the JSON codec, the upgrade to a WebSocket and the file system are parameters.
\<close>

type_synonym sim_devices = "(string \<times> sim_device) list"

text \<open>Applied to the device of that id alone.\<close>

definition on_id :: "string \<Rightarrow> (sim_device \<Rightarrow> sim_device) \<Rightarrow> sim_devices \<Rightarrow> sim_devices" where
  "on_id i f ds = map (\<lambda>(j, d). (j, if j = i then f d else d)) ds"

fun split_parts :: "string \<Rightarrow> string \<Rightarrow> string list" where
  "split_parts part [] = (if part = [] then [] else [part])"
| "split_parts part (c # p) =
     (if c = CHR ''/'' then (if part = [] then [] else [part]) @ split_parts [] p else split_parts (part @ [c]) p)"

definition splitPath :: "string \<Rightarrow> string list" where
  "splitPath p = split_parts [] (drop 1 p)"

record sim_request =
  sq_Origin :: string
  sq_Host :: string
  sq_Method :: string
  sq_Path :: string

text \<open>
  What the handlers find: the host of an origin, the decoded bodies, what saving the artifacts answers, the scenario with
  its environment and the devices as its steps left them, the upgrade, and whether the server is closing.
\<close>

record 'c http_env =
  hx_host :: "string \<Rightarrow> string option"
  hx_report :: "report result"
  hx_save :: "go_error option"
  hx_parse :: "string \<Rightarrow> duration result"
  hx_scenario :: "('c scenario \<times> bool) result"
  hx_run :: scenario_env
  hx_running :: bool
  hx_left :: sim_devices
  hx_body :: "byte list result"
  hx_tone :: "(f64 \<times> f64) result"
  hx_sin :: "f64 \<Rightarrow> f64"
  hx_now :: duration
  hx_page :: "string \<Rightarrow> string option"
  hx_upgrade :: "go_error option"
  hx_closing :: bool

datatype sim_reply =
  Sr_error int string
| Sr_devices "sim_device list"
| Sr_device sim_device
| Sr_report report
| Sr_recording "byte list"
| Sr_page string
| Sr_live nat
| Sr_dropped

definition same_origin :: "(string \<Rightarrow> string option) \<Rightarrow> sim_request \<Rightarrow> bool" where
  "same_origin host r \<longleftrightarrow> sq_Origin r = [] \<or> host (sq_Origin r) = Some (sq_Host r)"

definition export_report :: "go_error option \<Rightarrow> report result \<Rightarrow> sim_reply" where
  "export_report save decoded =
     (case decoded of
        Inl e \<Rightarrow> Sr_error 400 (err_text e)
      | Inr r \<Rightarrow> (case save of Some e \<Rightarrow> Sr_error 500 (err_text e) | None \<Rightarrow> Sr_report r))"

text \<open>A browser microphone: the input is taken first, and given back when the upgrade fails or the server is closing.\<close>

definition serve_live :: "go_error option \<Rightarrow> bool \<Rightarrow> sim_device \<Rightarrow> sim_reply \<times> sim_device" where
  "serve_live upgrade closing d =
     (case live_begin d of
        (None, d1) \<Rightarrow> (Sr_error 409 ''device input is busy'', d1)
      | (Some epoch, d1) \<Rightarrow> if upgrade \<noteq> None \<or> closing then (Sr_dropped, live_end epoch d1) else (Sr_live epoch, d1))"

text \<open>The POST actions of a device. \<open>None\<close> is an action that is not there.\<close>

definition device_action :: "'c http_env \<Rightarrow> string \<Rightarrow> sim_device \<Rightarrow> (go_error option \<times> sim_device) option" where
  "device_action env action d =
     (if action = ''play'' then
        Some (case hx_body env of
                Inl e \<Rightarrow> (Some e, d)
              | Inr b \<Rightarrow> (case parseWAV b of Inl e \<Rightarrow> (Some e, d) | Inr p \<Rightarrow> dev_play p d))
      else if action = ''tone'' then
        Some (case hx_tone env of
                Inl e \<Rightarrow> (Some e, d)
              | Inr (hz, seconds) \<Rightarrow>
                  if \<not> tone_ok hz seconds then (Some (Msg ''invalid tone''), d) else dev_play (tone (hx_sin env) hz seconds) d)
      else if action = ''stop'' then Some (None, dev_stop d)
      else if action = ''disconnect'' then Some (None, dev_online False d)
      else if action = ''reconnect'' then Some (None, dev_online True d)
      else if action = ''reset'' then Some (None, dev_reset d)
      else None)"

definition not_found :: sim_reply where
  "not_found = Sr_error 404 ''404 page not found''"

definition serve_device :: "'c http_env \<Rightarrow> string \<Rightarrow> string \<Rightarrow> sim_device \<Rightarrow> sim_reply \<times> sim_device" where
  "serve_device env rmethod action d =
     (if action = ''recording'' \<and> rmethod = ''GET'' then (Sr_recording (sim_wav (sd_recording d)), d)
      else if action = ''live'' \<and> rmethod = ''GET'' then serve_live (hx_upgrade env) (hx_closing env) d
      else if rmethod \<noteq> ''POST'' then (Sr_error 405 ''POST required'', d)
      else case device_action env action d of
        None \<Rightarrow> (not_found, d)
      | Some (Some e, d1) \<Rightarrow> (Sr_error 400 (err_text e), d1)
      | Some (None, d1) \<Rightarrow> (Sr_device (dev_snapshot (hx_now env) d1), d1))"

text \<open>A scenario runs with every device stopped and reset, and stops them all in the end.\<close>

definition serve_scenario :: "'c http_env \<Rightarrow> sim_devices \<Rightarrow> sim_reply \<times> sim_devices" where
  "serve_scenario env ds =
     (case scenarioHTTP (hx_parse env) (hx_scenario env) (hx_run env) (hx_running env) of
        (status, None) \<Rightarrow> (Sr_error status [], ds)
      | (_, Some r) \<Rightarrow>
          (case hx_scenario env of
             Inl _ \<Rightarrow> (Sr_report r, ds)
           | Inr (sc, _) \<Rightarrow>
               (Sr_report r, if scenario_refused (hx_run env) sc \<noteq> None then ds else map (\<lambda>(i, d). (i, dev_stop d)) (hx_left env))))"

definition serve_path :: "'c http_env \<Rightarrow> string \<Rightarrow> string list \<Rightarrow> sim_devices \<Rightarrow> sim_reply \<times> sim_devices" where
  "serve_path env rmethod parts ds =
     (case parts of
        [a, b, i, action] \<Rightarrow>
          (if a \<noteq> ''api'' \<or> b \<noteq> ''devices'' then (not_found, ds)
           else case map_of ds i of
             None \<Rightarrow> (not_found, ds)
           | Some d \<Rightarrow> (case serve_device env rmethod action d of (reply, d1) \<Rightarrow> (reply, on_id i (\<lambda>_. d1) ds)))
      | _ \<Rightarrow> (not_found, ds))"

definition sim_serve :: "'c http_env \<Rightarrow> sim_request \<Rightarrow> sim_devices \<Rightarrow> sim_reply \<times> sim_devices" where
  "sim_serve env r ds =
     (let path = sq_Path r; rmethod = sq_Method r in
      if \<not> same_origin (hx_host env) r then (Sr_error 403 ''same origin required'', ds)
      else if path = ''/api/devices'' \<and> rmethod = ''GET'' then (Sr_devices (map (\<lambda>x. dev_snapshot (hx_now env) (snd x)) ds), ds)
      else if path = ''/api/export'' \<and> rmethod = ''POST'' then (export_report (hx_save env) (hx_report env), ds)
      else if path = ''/api/scenarios'' \<and> rmethod = ''POST'' then serve_scenario env ds
      else if path \<in> {''/'', ''/app.js'', ''/worklet.js''}
      then (case hx_page env path of None \<Rightarrow> not_found | Some p \<Rightarrow> Sr_page p, ds)
      else serve_path env rmethod (splitPath path) ds)"

subsection \<open>What a request can change\<close>

lemma map_of_on_id: "map_of (on_id i f ds) j = (if j = i then map_option f (map_of ds j) else map_of ds j)"
  by (induction ds) (auto simp: on_id_def)

lemma on_id_same [simp]: "map_of ds i = Some d \<Longrightarrow> distinct (map fst ds) \<Longrightarrow> on_id i (\<lambda>_. d) ds = ds"
  unfolding on_id_def by (rule map_idI) (auto dest: eq_key_imp_eq_value map_of_SomeD)

text \<open>A refused operation left the device as it was.\<close>

lemma serve_device_error:
  assumes "serve_device env rmethod action d = (Sr_error status m, d1)"
  shows "d1 = d"
  using assms
  by (auto simp: serve_device_def serve_live_def device_action_def dev_play_def live_begin_def not_found_def Let_def
      split: if_splits option.splits sum.splits prod.splits)

lemma serve_device_bounded: "dev_bounded d \<Longrightarrow> dev_bounded (snd (serve_device env rmethod action d))"
proof -
  assume d: "dev_bounded d"
  have act: "device_action env action d = Some (e, d1) \<Longrightarrow> dev_bounded d1" for e d1
    using d dev_bounded_ops [OF d]
    by (auto simp: device_action_def split: if_splits sum.splits prod.splits) (metis snd_conv)+
  have live: "dev_bounded (snd (serve_live u c d))" for u c
    using dev_bounded_ops(8,10) d dev_bounded_ops(8) [OF d]
    by (auto simp: serve_live_def split: option.splits prod.splits) (metis dev_bounded_ops(10) snd_conv)+
  show ?thesis using d act live
    by (auto simp: serve_device_def split: option.splits prod.splits)
qed

lemma serve_path_cases:
  assumes "serve_path env rmethod parts ds = (reply, ds')"
  obtains "ds' = ds" "(\<exists>m. reply = Sr_error 404 m)"
  | i action d d1 where "parts = [''api'', ''devices'', i, action]" "map_of ds i = Some d"
      "serve_device env rmethod action d = (reply, d1)" "ds' = on_id i (\<lambda>_. d1) ds"
proof (cases "\<exists>i action d. parts = [''api'', ''devices'', i, action] \<and> map_of ds i = Some d")
  case True
  then show ?thesis using assms that(2) by (auto simp: serve_path_def split: prod.splits)
next
  case False
  then have "serve_path env rmethod parts ds = (not_found, ds)"
    unfolding serve_path_def by (auto split: list.split option.split)
  then show ?thesis using assms that(1) by (simp add: not_found_def)
qed

lemma serve_device_confined:
  assumes "distinct (map fst ds)" and "map_of ds i = Some d" and "serve_device env rmethod action d = (reply, d1)"
    and "ds' = on_id i (\<lambda>_. d1) ds"
  shows "((\<exists>status m. reply = Sr_error status m) \<longrightarrow> ds' = ds) \<and> map fst ds' = map fst ds \<and>
    (\<forall>j. map_of ds' j \<noteq> map_of ds j \<longrightarrow> j = i) \<and> ((\<forall>d \<in> snd ` set ds. dev_bounded d) \<longrightarrow> (\<forall>d \<in> snd ` set ds'. dev_bounded d))"
proof -
  have "(\<exists>status m. reply = Sr_error status m) \<longrightarrow> ds' = ds"
    using serve_device_error assms by (metis on_id_same)
  moreover have "map fst ds' = map fst ds" by (simp add: assms(4) on_id_def comp_def case_prod_beta)
  moreover have "dev_bounded d \<Longrightarrow> dev_bounded d1" using serve_device_bounded assms(3) by (metis snd_conv)
  then have "(\<forall>d \<in> snd ` set ds. dev_bounded d) \<longrightarrow> (\<forall>d \<in> snd ` set ds'. dev_bounded d)"
    using map_of_SomeD [OF assms(2)] by (force simp: assms(4) on_id_def split: if_splits)
  ultimately show ?thesis by (simp add: assms(4) map_of_on_id)
qed

text \<open>
  The interface is confined. A request whose origin is another host changes nothing and is refused; a request that is
  answered with an error changes nothing; every request that is not a scenario changes at most the device its path
  names, and no request makes a device unbounded or a device appear or go away.
\<close>

theorem sim_request_confined:
  assumes "distinct (map fst ds)" and "sim_serve env r ds = (reply, ds')" and "\<not> (sq_Path r = ''/api/scenarios'' \<and> sq_Method r = ''POST'')"
  shows "(\<not> same_origin (hx_host env) r \<longrightarrow> reply = Sr_error 403 ''same origin required'') \<and>
    ((\<exists>status m. reply = Sr_error status m) \<longrightarrow> ds' = ds) \<and>
    map fst ds' = map fst ds \<and>
    (\<forall>i. map_of ds' i \<noteq> map_of ds i \<longrightarrow> (\<exists>action. splitPath (sq_Path r) = [''api'', ''devices'', i, action])) \<and>
    ((\<forall>d \<in> snd ` set ds. dev_bounded d) \<longrightarrow> (\<forall>d \<in> snd ` set ds'. dev_bounded d))"
proof (cases "same_origin (hx_host env) r \<and> serve_path env (sq_Method r) (splitPath (sq_Path r)) ds = (reply, ds')")
  case True
  then have origin: "same_origin (hx_host env) r"
    and path: "serve_path env (sq_Method r) (splitPath (sq_Path r)) ds = (reply, ds')" by simp_all
  from path show ?thesis
  proof (cases rule: serve_path_cases)
    case (2 i action d d1)
    note c = serve_device_confined [OF assms(1) 2(2,3,4)]
    have "\<exists>action. splitPath (sq_Path r) = [''api'', ''devices'', j, action]" if "map_of ds' j \<noteq> map_of ds j" for j
      using c that 2(1) by blast
    then show ?thesis using c origin by blast
  qed (use origin in simp)
next
  case False
  then have "ds' = ds \<and> (\<not> same_origin (hx_host env) r \<longrightarrow> reply = Sr_error 403 ''same origin required'')"
    using assms(2,3) unfolding sim_serve_def Let_def by (simp split: if_splits)
  then show ?thesis by simp
qed

text \<open>A page of another host cannot start the bell.\<close>

lemma foreign_origin_inert:
  "sq_Origin r \<noteq> [] \<Longrightarrow> hx_host env (sq_Origin r) \<noteq> Some (sq_Host r) \<Longrightarrow> sim_serve env r ds = (Sr_error 403 ''same origin required'', ds)"
  by (simp add: sim_serve_def same_origin_def)

subsection \<open>Artifacts\<close>

text \<open>
  What \<open>saveArtifacts\<close> wrote, in order, and its error: the directory, a recording per device, three JSON files whose
  order is that of a map. \<open>wr\<close> is what the file system answers for a name.
\<close>

fun artifact_files :: "(string \<Rightarrow> go_error option) \<Rightarrow> (string \<times> byte list result) list \<Rightarrow> (string \<times> byte list) list \<times> go_error option" where
  "artifact_files wr [] = ([], None)"
| "artifact_files wr ((name, content) # fs) =
     (case content of
        Inl e \<Rightarrow> ([], Some e)
      | Inr b \<Rightarrow>
          (case wr name of
             Some e \<Rightarrow> ([], Some e)
           | None \<Rightarrow> (case artifact_files wr fs of (ws, e) \<Rightarrow> ((name, b) # ws, e))))"

definition saveArtifacts :: "go_error option \<Rightarrow> (string \<Rightarrow> go_error option) \<Rightarrow> (string \<times> byte list result) list \<Rightarrow> sim_devices \<Rightarrow>
    (string \<times> byte list) list \<times> go_error option" where
  "saveArtifacts mk wr json ds =
     (case mk of
        Some e \<Rightarrow> ([], Some e)
      | None \<Rightarrow> artifact_files wr (map (\<lambda>(i, d). (i @ ''.wav'', Inr (sim_wav (sd_recording d)))) ds @ json))"

lemma artifact_files_all: "artifact_files wr fs = (ws, None) \<Longrightarrow> map (\<lambda>(n, b). (n, Inr b)) ws = fs"
  by (induction fs arbitrary: ws) (auto split: sum.splits option.splits prod.splits)

text \<open>Artifacts that were written hold every device's recording, which the simulator's own reader reads back.\<close>

lemma saved_recordings:
  assumes "saveArtifacts mk wr json ds = (ws, None)" and "(i, d) \<in> set ds" and "dev_bounded d" and "sd_recording d \<noteq> []"
  shows "\<exists>b. (i @ ''.wav'', b) \<in> set ws \<and> parseWAV b = Inr (sd_recording d)"
proof -
  have "map (\<lambda>(n, b). (n, Inr b)) ws = map (\<lambda>(i, d). (i @ ''.wav'', Inr (sim_wav (sd_recording d)))) ds @ json"
    using assms(1) artifact_files_all by (auto simp: saveArtifacts_def split: option.splits)
  then have "(i @ ''.wav'', Inr (sim_wav (sd_recording d)) :: byte list result) \<in> set (map (\<lambda>(n, b). (n, Inr b)) ws)"
    using assms(2) by force
  then have "(i @ ''.wav'', sim_wav (sd_recording d)) \<in> set ws" by auto
  moreover have "parseWAV (sim_wav (sd_recording d)) = Inr (sd_recording d)"
    using assms(3,4) by (intro sim_wav_round_trip) (simp_all add: dev_bounded_def)
  ultimately show ?thesis by blast
qed

end
