(* ===== verification/Sim_Faults.thy ===== *)
theory Sim_Faults
  imports Go_Prelude
begin

text \<open>
  The transport faults of the doorbell simulator (tools/simulator/faults.go): every so many packets one is dropped,
  held back for two ticks, or starts a burst in which packets are held until its end. Packets are opaque.
\<close>

record fault_spec =
  ft_DropEvery :: int
  ft_ReorderEvery :: int
  ft_BurstEvery :: int
  ft_BurstFrames :: int

record 'p fault_injector =
  fi_spec :: fault_spec
  fi_tick :: int
  fi_burstEnd :: int
  fi_pending :: "(int \<times> 'p) list"

definition fault_New :: "fault_spec \<Rightarrow> 'p fault_injector" where
  "fault_New spec = \<lparr>fi_spec = spec, fi_tick = 0, fi_burstEnd = 0, fi_pending = []\<rparr>"

definition fault_push :: "'p \<Rightarrow> 'p fault_injector \<Rightarrow> 'p list \<times> 'p fault_injector" where
  "fault_push packet f =
     (let spec = fi_spec f;
          tick = fi_tick f + 1;
          ready = map snd (filter (\<lambda>q. fst q \<le> tick) (fi_pending f));
          kept = filter (\<lambda>q. \<not> fst q \<le> tick) (fi_pending f);
          f1 = f\<lparr>fi_tick := tick, fi_pending := kept\<rparr>
      in if 0 < ft_DropEvery spec \<and> go_mod tick (ft_DropEvery spec) = 0 then (ready, f1)
         else
           let f2 = (if 0 < ft_BurstEvery spec \<and> go_mod tick (ft_BurstEvery spec) = 0
                     then f1\<lparr>fi_burstEnd := tick + ft_BurstFrames spec\<rparr> else f1);
               due1 = (if tick < fi_burstEnd f2 then fi_burstEnd f2 else tick);
               due2 = (if 0 < ft_ReorderEvery spec \<and> go_mod tick (ft_ReorderEvery spec) = 0 then max due1 (tick + 2) else due1)
           in if tick < due2 then (ready, f2\<lparr>fi_pending := kept @ [(due2, packet)]\<rparr>) else (ready @ [packet], f2))"

text \<open>What each tick of the device's clock sent.\<close>

fun fault_run :: "'p list \<Rightarrow> 'p fault_injector \<Rightarrow> 'p list list \<times> 'p fault_injector" where
  "fault_run [] f = ([], f)"
| "fault_run (p # ps) f = (case fault_push p f of (out, f1) \<Rightarrow> case fault_run ps f1 of (outs, f2) \<Rightarrow> (out # outs, f2))"

subsection \<open>The schedule\<close>

text \<open>
  The reference: tick \<open>k\<close> drops its packet, or sends it at the tick \<open>fault_due\<close> says. The end of the last burst that
  began is found by looking back; a burst that falls on a dropped packet does not begin.
\<close>

definition every :: "int \<Rightarrow> nat \<Rightarrow> bool" where
  "every n k \<longleftrightarrow> 0 < n \<and> int k mod n = 0"

fun burst_end :: "fault_spec \<Rightarrow> nat \<Rightarrow> int" where
  "burst_end spec 0 = 0"
| "burst_end spec (Suc k) =
     (if \<not> every (ft_DropEvery spec) (Suc k) \<and> every (ft_BurstEvery spec) (Suc k) then int (Suc k) + ft_BurstFrames spec
      else burst_end spec k)"

definition fault_due :: "fault_spec \<Rightarrow> nat \<Rightarrow> int" where
  "fault_due spec k =
     (let d = max (int k) (burst_end spec k)
      in if every (ft_ReorderEvery spec) k then max d (int k + 2) else d)"

text \<open>Of the packets of ticks 1 to \<open>n\<close>, those that are sent at a tick that satisfies \<open>P\<close>, with their tick.\<close>

definition scheduled :: "fault_spec \<Rightarrow> (int \<Rightarrow> bool) \<Rightarrow> 'p list \<Rightarrow> (int \<times> 'p) list" where
  "scheduled spec P ps =
     map (\<lambda>k. (fault_due spec (Suc k), ps ! k))
       (filter (\<lambda>k. \<not> every (ft_DropEvery spec) (Suc k) \<and> P (fault_due spec (Suc k))) [0..<length ps])"

lemma scheduled_snoc:
  "scheduled spec P (ps @ [p]) =
     scheduled spec P ps @ (if \<not> every (ft_DropEvery spec) (Suc (length ps)) \<and> P (fault_due spec (Suc (length ps)))
                            then [(fault_due spec (Suc (length ps)), p)] else [])"
proof -
  have "map (\<lambda>k. (fault_due spec (Suc k), (ps @ [p]) ! k)) (filter Q [0..<length ps]) =
      map (\<lambda>k. (fault_due spec (Suc k), ps ! k)) (filter Q [0..<length ps])" for Q
    by (rule map_cong) (auto simp: nth_append)
  then show ?thesis by (simp add: scheduled_def)
qed

lemma fault_due_ge: "int k \<le> fault_due spec k"
  by (auto simp: fault_due_def Let_def)

lemma fault_push_schedule:
  assumes "fi_spec f = spec" and "fi_tick f = int (length ps)" and "fi_burstEnd f = burst_end spec (length ps)"
    and "fi_pending f = scheduled spec (\<lambda>d. int (length ps) < d) ps"
  shows "\<exists>out f'. fault_push p f = (out, f') \<and> out = map snd (scheduled spec (\<lambda>d. d = int (Suc (length ps))) (ps @ [p])) \<and>
    fi_spec f' = spec \<and> fi_tick f' = int (length (ps @ [p])) \<and> fi_burstEnd f' = burst_end spec (length (ps @ [p])) \<and>
    fi_pending f' = scheduled spec (\<lambda>d. int (length (ps @ [p])) < d) (ps @ [p])"
proof -
  let ?k = "Suc (length ps)"
  have tick: "fi_tick f + 1 = int ?k" using assms(2) by simp
  have every: "(0 < n \<and> go_mod (int ?k) n = 0) = every n ?k" for n
    by (auto simp: every_def go_mod_nonneg)
  have ready: "filter (\<lambda>q. fst q \<le> int ?k) (fi_pending f) = scheduled spec (\<lambda>d. d = int ?k) ps"
    and kept: "filter (\<lambda>q. \<not> fst q \<le> int ?k) (fi_pending f) = scheduled spec (\<lambda>d. int ?k < d) ps"
    unfolding assms(4) scheduled_def filter_map comp_def filter_filter
    by (auto intro!: arg_cong [of _ _ "map _"] filter_cong)
  show ?thesis
  proof (cases "every (ft_DropEvery spec) ?k")
    case True
    then show ?thesis
      unfolding fault_push_def Let_def assms(1) tick every ready kept scheduled_snoc by (simp add: assms)
  next
    case False
    let ?b = "burst_end spec ?k"
    let ?d = "if int ?k < ?b then ?b else int ?k"
    let ?f = "f\<lparr>fi_tick := int ?k, fi_pending := scheduled spec (\<lambda>d. int ?k < d) ps, fi_burstEnd := ?b\<rparr>"
    have due: "(if every (ft_ReorderEvery spec) ?k then max ?d (int ?k + 2) else ?d) = fault_due spec ?k"
      by (simp add: fault_due_def Let_def max_def)
    have burst: "(if every (ft_BurstEvery spec) ?k then g\<lparr>fi_burstEnd := int ?k + ft_BurstFrames spec\<rparr> else g) = g\<lparr>fi_burstEnd := ?b\<rparr>"
      if "fi_burstEnd g = burst_end spec (length ps)" for g :: "'a fault_injector"
      using that False by (cases g) simp
    have "fault_push p f =
        (if int ?k < fault_due spec ?k
         then (map snd (scheduled spec (\<lambda>d. d = int ?k) ps), ?f\<lparr>fi_pending := scheduled spec (\<lambda>d. int ?k < d) ps @ [(fault_due spec ?k, p)]\<rparr>)
         else (map snd (scheduled spec (\<lambda>d. d = int ?k) ps) @ [p], ?f))"
    proof -
      have "fi_burstEnd (f\<lparr>fi_tick := int ?k, fi_pending := scheduled spec (\<lambda>d. int ?k < d) ps\<rparr>) = burst_end spec (length ps)"
        by (simp add: assms(3))
      moreover have "fi_burstEnd (g\<lparr>fi_burstEnd := b\<rparr>) = b" for g :: "'a fault_injector" and b by simp
      ultimately show ?thesis
        unfolding fault_push_def Let_def assms(1) tick every ready kept by (simp only: burst False if_False due)
    qed
    then show ?thesis using fault_due_ge [of ?k spec] False unfolding scheduled_snoc by (auto simp: assms)
  qed
qed

lemma fault_run_snoc:
  "fault_run (ps @ [p]) f =
     (case fault_run ps f of (outs, f1) \<Rightarrow> case fault_push p f1 of (out, f2) \<Rightarrow> (outs @ [out], f2))"
  by (induction ps arbitrary: f) (simp_all split: prod.splits)

lemma fault_run_schedule:
  "\<exists>outs f. fault_run ps (fault_New spec) = (outs, f) \<and> length outs = length ps \<and>
     (\<forall>n < length ps. outs ! n = map snd (scheduled spec (\<lambda>d. d = int (Suc n)) (take (Suc n) ps))) \<and>
     fi_spec f = spec \<and> fi_tick f = int (length ps) \<and> fi_burstEnd f = burst_end spec (length ps) \<and>
     fi_pending f = scheduled spec (\<lambda>d. int (length ps) < d) ps"
proof (induction ps rule: rev_induct)
  case Nil
  show ?case by (simp add: fault_New_def scheduled_def)
next
  case (snoc p ps)
  then obtain outs f where ih: "fault_run ps (fault_New spec) = (outs, f)" "length outs = length ps"
      "\<forall>n < length ps. outs ! n = map snd (scheduled spec (\<lambda>d. d = int (Suc n)) (take (Suc n) ps))"
      "fi_spec f = spec" "fi_tick f = int (length ps)" "fi_burstEnd f = burst_end spec (length ps)"
      "fi_pending f = scheduled spec (\<lambda>d. int (length ps) < d) ps" by blast
  obtain out f' where push: "fault_push p f = (out, f')"
      "out = map snd (scheduled spec (\<lambda>d. d = int (Suc (length ps))) (ps @ [p]))" and
    f': "fi_spec f' = spec \<and> fi_tick f' = int (length (ps @ [p])) \<and> fi_burstEnd f' = burst_end spec (length (ps @ [p])) \<and>
      fi_pending f' = scheduled spec (\<lambda>d. int (length (ps @ [p])) < d) (ps @ [p])"
    using fault_push_schedule [OF ih(4-7), of p] by blast
  have "fault_run (ps @ [p]) (fault_New spec) = (outs @ [out], f')" using ih(1) push(1) by (simp add: fault_run_snoc)
  moreover have "(outs @ [out]) ! n = map snd (scheduled spec (\<lambda>d. d = int (Suc n)) (take (Suc n) (ps @ [p])))"
    if "n < length (ps @ [p])" for n
    using that ih(2,3) push(2) by (cases "n = length ps") (auto simp: nth_append)
  moreover have "length (outs @ [out]) = length (ps @ [p])" using ih(2) by simp
  ultimately show ?case using f' by (intro exI [of _ "outs @ [out]"] exI [of _ f'] conjI) blast+
qed

lemma burst_end_le:
  assumes "0 \<le> m" and "ft_BurstFrames spec \<le> m"
  shows "burst_end spec k \<le> int k + m"
  using assms by (induction k) auto

text \<open>The fault injector is the schedule it describes. At tick \<open>n\<close> the device sends, in the order they were made,
  exactly the packets whose time is \<open>n\<close>: every packet is dropped or sent once, a packet of a faultless tick at once,
  one of a reordering tick two ticks later, one inside a burst at its end, and what is still held is what is due later.
  With the limits the manifest enforces no packet is held for more than 50 ticks.\<close>

theorem faults_follow_schedule:
  assumes "0 \<le> ft_BurstFrames spec" and "ft_BurstFrames spec \<le> 50"
  shows "\<exists>outs f. fault_run ps (fault_New spec) = (outs, f) \<and> length outs = length ps \<and>
    fi_pending f = scheduled spec (\<lambda>d. int (length ps) < d) ps \<and>
    (\<forall>n < length ps. outs ! n = map snd (scheduled spec (\<lambda>d. d = int (Suc n)) (take (Suc n) ps))) \<and>
    (\<forall>k. int k \<le> fault_due spec k \<and> fault_due spec k \<le> int k + 50) \<and>
    (\<forall>k. \<not> every (ft_ReorderEvery spec) k \<and> burst_end spec k \<le> int k \<longrightarrow> fault_due spec k = int k)"
proof -
  have "fault_due spec k \<le> int k + 50" for k
    using burst_end_le [of 50 spec k] assms by (auto simp: fault_due_def Let_def)
  then show ?thesis using fault_run_schedule [of ps spec] fault_due_ge by (auto simp: fault_due_def Let_def max_def)
qed

text \<open>Every third packet two ticks late, every fourth dropped: packet 3 is sent with packet 5.\<close>

theorem faults_follow_schedule_witness:
  "fault_run [1, 2, 3, 4, 5, 6 :: nat] (fault_New \<lparr>ft_DropEvery = 4, ft_ReorderEvery = 3, ft_BurstEvery = 0, ft_BurstFrames = 0\<rparr>)
     = ([[1], [2], [], [], [3, 5], []], \<lparr>fi_spec = \<lparr>ft_DropEvery = 4, ft_ReorderEvery = 3, ft_BurstEvery = 0, ft_BurstFrames = 0\<rparr>,
          fi_tick = 6, fi_burstEnd = 0, fi_pending = [(8, 6)]\<rparr>) \<and>
   fault_due \<lparr>ft_DropEvery = 4, ft_ReorderEvery = 3, ft_BurstEvery = 0, ft_BurstFrames = 0\<rparr> 3 \<le> 53"
proof
  show "fault_run [1, 2, 3, 4, 5, 6 :: nat] (fault_New \<lparr>ft_DropEvery = 4, ft_ReorderEvery = 3, ft_BurstEvery = 0, ft_BurstFrames = 0\<rparr>)
     = ([[1], [2], [], [], [3, 5], []], \<lparr>fi_spec = \<lparr>ft_DropEvery = 4, ft_ReorderEvery = 3, ft_BurstEvery = 0, ft_BurstFrames = 0\<rparr>,
          fi_tick = 6, fi_burstEnd = 0, fi_pending = [(8, 6)]\<rparr>)"
    by (simp add: fault_New_def fault_push_def go_mod_nonneg Let_def)
  let ?s = "\<lparr>ft_DropEvery = 4, ft_ReorderEvery = 3, ft_BurstEvery = 0, ft_BurstFrames = 0\<rparr>"
  have "\<forall>k. int k \<le> fault_due ?s k \<and> fault_due ?s k \<le> int k + 50"
    using faults_follow_schedule [of ?s "[] :: nat list"] by auto
  then show "fault_due ?s 3 \<le> 53" by (metis of_nat_numeral numeral_plus_numeral semiring_norm(2,3,4,5,6,7,8,9))
qed

end
