(* ===== verification/Sim_Manifest.thy ===== *)
theory Sim_Manifest
  imports Sim_Faults
begin

text \<open>
  The simulator's device manifest (tools/simulator/manifest.go): what is accepted, and the configuration of go2rtc and
  of the gateway that is generated from it. Decoding and encoding of YAML, \<open>net.SplitHostPort\<close> and \<open>url.Parse\<close> are
  parameters, as is the text of a device in an error message; the wake word settings of a device are opaque.
\<close>

record 'k device_spec =
  ds_Faults :: fault_spec
  ds_KWS :: "'k option"
  ds_EchoCancellation :: "bool option"
  ds_ID :: string
  ds_Profile :: string

record 'k manifest =
  mf_Go2RTCRTSP :: string
  mf_Go2RTCWebRTC :: string
  mf_Devices :: "'k device_spec list"
  mf_HTTP :: string
  mf_RTSP :: string
  mf_Go2RTC :: string
  mf_App :: string
  mf_Token :: string

text \<open>What the checks ask of a parsed URL.\<close>

record api_url =
  au_Scheme :: string
  au_Port :: string
  au_Hostname :: string
  au_RawQuery :: string
  au_Fragment :: string
  au_hasUser :: bool
  au_Path :: string

record 'k manifest_env =
  me_show :: "'k device_spec \<Rightarrow> string"
  me_split :: "string \<Rightarrow> (string \<times> string) option"
  me_parse :: "string \<Rightarrow> api_url option"

definition id_char :: "char \<Rightarrow> bool" where
  "id_char c \<longleftrightarrow> (let n = (of_char c :: nat) in 48 \<le> n \<and> n \<le> 57 \<or> 65 \<le> n \<and> n \<le> 90 \<or> 97 \<le> n \<and> n \<le> 122 \<or> n = 95 \<or> n = 45)"

definition id_ok :: "string \<Rightarrow> bool" where
  "id_ok s \<longleftrightarrow> 1 \<le> length s \<and> length s \<le> 40 \<and> list_all id_char s"

definition faults_bad :: "fault_spec \<Rightarrow> bool" where
  "faults_bad f \<longleftrightarrow>
     ft_DropEvery f < 0 \<or> ft_ReorderEvery f < 0 \<or> ft_BurstEvery f < 0 \<or> ft_BurstFrames f < 0 \<or> 50 < ft_BurstFrames f \<or>
     0 < ft_BurstEvery f \<and> ft_BurstEvery f \<le> ft_BurstFrames f"

fun check_devices :: "('k device_spec \<Rightarrow> string) \<Rightarrow> string list \<Rightarrow> 'k device_spec list \<Rightarrow> go_error option" where
  "check_devices show_spec seen [] = None"
| "check_devices show_spec seen (v # vs) =
     (if \<not> id_ok (ds_ID v) \<or> ds_ID v \<in> set seen \<or> ds_Profile v \<noteq> ''bidirectional'' \<and> ds_Profile v \<noteq> ''doorbell''
      then Some (Msg (''invalid or duplicate device: '' @ show_spec v))
      else if faults_bad (ds_Faults v) then Some (Msg (''invalid transport faults for '' @ ds_ID v))
      else check_devices show_spec (ds_ID v # seen) vs)"

definition or_default :: "string \<Rightarrow> string \<Rightarrow> string" where
  "or_default d s = (if s = [] then d else s)"

definition manifest_defaults :: "'k manifest \<Rightarrow> 'k manifest" where
  "manifest_defaults m = m\<lparr>
     mf_HTTP := or_default ''127.0.0.1:18080'' (mf_HTTP m),
     mf_RTSP := or_default ''127.0.0.1:18554'' (mf_RTSP m),
     mf_Go2RTC := or_default ''http://127.0.0.1:11984'' (mf_Go2RTC m),
     mf_App := or_default ''http://127.0.0.1:18081'' (mf_App m),
     mf_Go2RTCRTSP := or_default ''127.0.0.1:18555'' (mf_Go2RTCRTSP m),
     mf_Go2RTCWebRTC := or_default ''127.0.0.1:18556'' (mf_Go2RTCWebRTC m)\<rparr>"

definition local_host :: "string \<Rightarrow> bool" where
  "local_host h \<longleftrightarrow> h = ''127.0.0.1'' \<or> h = ''::1'' \<or> h = ''localhost''"

definition address_ok :: "(string \<Rightarrow> (string \<times> string) option) \<Rightarrow> string \<Rightarrow> bool" where
  "address_ok split addr \<longleftrightarrow> (case split addr of None \<Rightarrow> False | Some (host, port) \<Rightarrow> port \<noteq> [] \<and> local_host host)"

definition api_ok :: "(string \<Rightarrow> api_url option) \<Rightarrow> string \<Rightarrow> bool" where
  "api_ok parse base \<longleftrightarrow>
     (case parse base of
        None \<Rightarrow> False
      | Some u \<Rightarrow> au_Scheme u = ''http'' \<and> au_Port u \<noteq> [] \<and> local_host (au_Hostname u) \<and> au_RawQuery u = [] \<and>
          au_Fragment u = [] \<and> \<not> au_hasUser u \<and> trim_char (CHR ''/'') (au_Path u) = [])"

text \<open>The first entry that fails a check.\<close>

fun first_bad :: "(string \<Rightarrow> bool) \<Rightarrow> string \<Rightarrow> string list \<Rightarrow> go_error option" where
  "first_bad P message [] = None"
| "first_bad P message (x # xs) = (if P x then first_bad P message xs else Some (Msg (message @ x)))"

text \<open>The UTF-8 bytes of the en dash in the messages.\<close>

definition en_dash :: string where
  "en_dash = [CHR 0xE2, CHR 0x80, CHR 0x93]"

text \<open>\<open>decoded\<close> is what reading and decoding the file gave, and whether a second document follows.\<close>

definition loadManifest :: "'k manifest_env \<Rightarrow> ('k manifest \<times> bool) result \<Rightarrow> 'k manifest result" where
  "loadManifest env decoded =
     (case decoded of
        Inl err \<Rightarrow> Inl err
      | Inr (m, more_documents) \<Rightarrow>
          if more_documents then Inl (Msg ''one manifest document required'')
          else if length (mf_Devices m) < 1 \<or> 16 < length (mf_Devices m) then Inl (Msg (''manifest needs 1'' @ en_dash @ ''16 devices''))
          else case check_devices (me_show env) [] (mf_Devices m) of
            Some err \<Rightarrow> Inl err
          | None \<Rightarrow>
              let d = manifest_defaults m
              in (case first_bad (address_ok (me_split env)) ''listen address must be localhost with a port: ''
                         [mf_HTTP d, mf_RTSP d, mf_Go2RTCRTSP d, mf_Go2RTCWebRTC d] of
                    Some err \<Rightarrow> Inl err
                  | None \<Rightarrow>
                      (case first_bad (api_ok (me_parse env)) ''API URL must be local HTTP with a port: '' [mf_Go2RTC d, mf_App d] of
                         Some err \<Rightarrow> Inl err
                       | None \<Rightarrow> Inr d)))"

subsection \<open>Generated configuration\<close>

text \<open>The streams of go2rtc are a map: a device's RTSP source, and for a doorbell an empty stream for its back channel.\<close>

definition device_streams :: "'k manifest \<Rightarrow> 'k device_spec \<Rightarrow> (string \<rightharpoonup> string option) \<Rightarrow> (string \<rightharpoonup> string option)" where
  "device_streams m d streams =
     (let s1 = streams(ds_ID d \<mapsto> Some (''rtsp://'' @ mf_RTSP m @ ''/'' @ ds_ID d))
      in if ds_Profile d = ''doorbell'' then s1(ds_ID d @ ''_in'' \<mapsto> None) else s1)"

definition gen_streams :: "'k manifest \<Rightarrow> (string \<rightharpoonup> string option)" where
  "gen_streams m = fold (device_streams m) (mf_Devices m) Map.empty"

record 'k gen_node =
  gn_node_id :: string
  gn_api_url :: string
  gn_stream_name :: string
  gn_echo_cancellation :: bool
  gn_talkback :: "(string \<times> string) option"
  gn_kws :: "'k option"

definition gen_node_of :: "'k manifest \<Rightarrow> 'k device_spec \<Rightarrow> 'k gen_node" where
  "gen_node_of m d =
     \<lparr>gn_node_id = ds_ID d, gn_api_url = mf_Go2RTC m, gn_stream_name = ds_ID d,
      gn_echo_cancellation = (case ds_EchoCancellation d of None \<Rightarrow> True | Some e \<Rightarrow> e),
      gn_talkback = (if ds_Profile d = ''doorbell'' then Some (ds_ID d, ds_ID d @ ''_in'') else None), gn_kws = ds_KWS d\<rparr>"

definition gen_nodes :: "'k manifest \<Rightarrow> 'k gen_node list" where
  "gen_nodes m = map (gen_node_of m) (mf_Devices m)"

subsection \<open>What is accepted\<close>

lemma check_devices_spec:
  "check_devices show_spec seen vs = None \<Longrightarrow>
     distinct (map ds_ID vs) \<and> set (map ds_ID vs) \<inter> set seen = {} \<and>
     (\<forall>v \<in> set vs. id_ok (ds_ID v) \<and> (ds_Profile v = ''bidirectional'' \<or> ds_Profile v = ''doorbell'') \<and> \<not> faults_bad (ds_Faults v))"
proof (induction vs arbitrary: seen)
  case (Cons v vs)
  then show ?case using Cons.IH [of "ds_ID v # seen"] by (auto split: if_splits)
qed simp

lemma first_bad_spec: "first_bad P message xs = None \<Longrightarrow> \<forall>x \<in> set xs. P x"
  by (induction xs) (auto split: if_splits)

text \<open>A manifest that is accepted has 1 to 16 devices with distinct plain names and known profiles, listens and calls
  out on this machine only, and its faults are within the limits that bound the delay of every packet: no packet of any
  device is held for more than 50 ticks, and a burst ends before the next begins. Every device becomes one node.\<close>

theorem manifest_accepted:
  assumes "loadManifest env decoded = Inr m"
  shows "1 \<le> length (mf_Devices m) \<and> length (mf_Devices m) \<le> 16 \<and> distinct (map ds_ID (mf_Devices m)) \<and>
    (\<forall>d \<in> set (mf_Devices m). id_ok (ds_ID d) \<and> ds_Profile d \<in> {''bidirectional'', ''doorbell''} \<and>
       (\<forall>k. int k \<le> fault_due (ds_Faults d) k \<and> fault_due (ds_Faults d) k \<le> int k + 50) \<and>
       (0 < ft_BurstEvery (ds_Faults d) \<longrightarrow> ft_BurstFrames (ds_Faults d) < ft_BurstEvery (ds_Faults d))) \<and>
    (\<forall>a \<in> {mf_HTTP m, mf_RTSP m, mf_Go2RTCRTSP m, mf_Go2RTCWebRTC m}. address_ok (me_split env) a) \<and>
    (\<forall>u \<in> {mf_Go2RTC m, mf_App m}. api_ok (me_parse env) u) \<and>
    map gn_node_id (gen_nodes m) = map ds_ID (mf_Devices m)"
proof -
  obtain m0 where m0: "decoded = Inr (m0, False)" "1 \<le> length (mf_Devices m0)" "length (mf_Devices m0) \<le> 16"
      "check_devices (me_show env) [] (mf_Devices m0) = None" "m = manifest_defaults m0"
      "first_bad (address_ok (me_split env)) ''listen address must be localhost with a port: ''
         [mf_HTTP m, mf_RTSP m, mf_Go2RTCRTSP m, mf_Go2RTCWebRTC m] = None"
      "first_bad (api_ok (me_parse env)) ''API URL must be local HTTP with a port: '' [mf_Go2RTC m, mf_App m] = None"
    using assms by (auto simp: loadManifest_def Let_def Suc_le_eq split: sum.splits prod.splits option.splits if_splits)
  have devs: "mf_Devices m = mf_Devices m0" using m0(5) by (simp add: manifest_defaults_def)
  have due: "fault_due f k \<le> int k + 50" if "\<not> faults_bad f" for f k
    using burst_end_le [of 50 f k] that by (auto simp: faults_bad_def fault_due_def Let_def)
  have "map gn_node_id (gen_nodes m) = map ds_ID (mf_Devices m)" by (simp add: gen_nodes_def gen_node_of_def)
  then show ?thesis
    using m0(2,3) check_devices_spec [OF m0(4)] first_bad_spec [OF m0(6)] first_bad_spec [OF m0(7)] due fault_due_ge
    unfolding devs by (auto simp: faults_bad_def)
qed

definition sample_device :: "string \<Rightarrow> string \<Rightarrow> unit device_spec" where
  "sample_device i profile =
     \<lparr>ds_Faults = \<lparr>ft_DropEvery = 0, ft_ReorderEvery = 3, ft_BurstEvery = 20, ft_BurstFrames = 5\<rparr>, ds_KWS = None,
      ds_EchoCancellation = None, ds_ID = i, ds_Profile = profile\<rparr>"

definition sample_manifest :: "unit manifest" where
  "sample_manifest =
     \<lparr>mf_Go2RTCRTSP = [], mf_Go2RTCWebRTC = [], mf_Devices = [sample_device ''bell_in'' ''bidirectional'', sample_device ''bell'' ''doorbell''],
      mf_HTTP = [], mf_RTSP = [], mf_Go2RTC = [], mf_App = [], mf_Token = []\<rparr>"

definition sample_manifest_env :: "unit manifest_env" where
  "sample_manifest_env =
     \<lparr>me_show = ds_ID, me_split = (\<lambda>a. Some (takeWhile (\<lambda>c. c \<noteq> CHR '':'') a, drop 1 (dropWhile (\<lambda>c. c \<noteq> CHR '':'') a))),
      me_parse = (\<lambda>_. Some \<lparr>au_Scheme = ''http'', au_Port = ''18081'', au_Hostname = ''127.0.0.1'', au_RawQuery = [], au_Fragment = [],
        au_hasUser = False, au_Path = []\<rparr>)\<rparr>"

lemma sample_manifest_loads:
  "loadManifest sample_manifest_env (Inr (sample_manifest, False)) = Inr (manifest_defaults sample_manifest)"
  by (simp add: loadManifest_def sample_manifest_env_def sample_manifest_def sample_device_def manifest_defaults_def or_default_def id_ok_def
      id_char_def faults_bad_def address_ok_def api_ok_def local_host_def trim_char_def trim_right_def Let_def)

theorem manifest_accepted_witness:
  "map gn_node_id (gen_nodes (manifest_defaults sample_manifest)) = [''bell_in'', ''bell'']"
proof -
  have "map ds_ID (mf_Devices (manifest_defaults sample_manifest)) = [''bell_in'', ''bell'']"
    by (simp add: manifest_defaults_def sample_manifest_def sample_device_def)
  then show ?thesis using manifest_accepted [OF sample_manifest_loads] by simp
qed

text \<open>
  The names of the back channels are not checked against the names of devices: this accepted manifest gives the device
  \<open>bell_in\<close> the empty stream of the doorbell \<open>bell\<close> in place of its own source.
\<close>

lemma back_channel_takes_stream:
  "gen_streams (manifest_defaults sample_manifest) ''bell_in'' = Some None"
  by (simp add: gen_streams_def device_streams_def manifest_defaults_def sample_manifest_def sample_device_def Let_def)

text \<open>Without such a name every device keeps its source.\<close>

lemma device_keeps_stream:
  assumes "d \<in> set (mf_Devices m)" and "\<forall>e \<in> set (mf_Devices m). ds_ID d \<noteq> ds_ID e @ ''_in''"
  shows "gen_streams m (ds_ID d) = Some (Some (''rtsp://'' @ mf_RTSP m @ ''/'' @ ds_ID d))"
proof -
  have keep: "fold (device_streams m) ds s (ds_ID d) = (if ds_ID d \<in> set (map ds_ID ds) then Some (Some (''rtsp://'' @ mf_RTSP m @ ''/'' @ ds_ID d)) else s (ds_ID d))"
    if "set ds \<subseteq> set (mf_Devices m)" for ds s
    using that
  proof (induction ds arbitrary: s)
    case (Cons e ds)
    have "device_streams m e s (ds_ID d) = (if ds_ID d = ds_ID e then Some (Some (''rtsp://'' @ mf_RTSP m @ ''/'' @ ds_ID d)) else s (ds_ID d))"
      using assms(2) Cons.prems by (auto simp: device_streams_def Let_def)
    then show ?case using Cons by auto
  qed simp
  then show ?thesis using assms(1) by (simp add: gen_streams_def)
qed

end
