(* ===== verification/Sim_Engine.thy ===== *)
theory Sim_Engine
  imports Sim_Server Sim_Faults Sim_Manifest
begin

text \<open>
  The engine of the simulator (tools/simulator/engine.go): the clock that turns a device's input into packets, and the
  life of an RTSP session; the program's modes (tools/simulator/main.go) and the command that sends a scenario to a
  running simulator (\<open>scenarioCLI\<close>, tools/simulator/scenario.go). The codecs, the RTSP library, the file system and HTTP
  are parameters.
\<close>

definition newEngine :: "'k manifest \<Rightarrow> sim_devices" where
  "newEngine m = map (\<lambda>s. (ds_ID s, newDevice (ds_ID s))) (mf_Devices m)"

subsection \<open>The clock of a device\<close>

record 'b sim_packet =
  pk_seq :: u16
  pk_ts :: u32
  pk_payload :: 'b

record 'b dev_clock =
  ck_seq :: u16
  ck_ts :: u32
  ck_faults :: "'b sim_packet fault_injector"

definition clock_New :: "fault_spec \<Rightarrow> 'b dev_clock" where
  "clock_New spec = \<lparr>ck_seq = 0, ck_ts = 0, ck_faults = fault_New spec\<rparr>"

text \<open>A tick: what is written to every source; a frame that cannot be encoded takes no number. The encoder is a parameter.\<close>

definition dev_tick :: "(f64 \<Rightarrow> f64) \<Rightarrow> (i16 list \<Rightarrow> 'b result) \<Rightarrow> sim_device \<Rightarrow> 'b dev_clock \<Rightarrow> 'b sim_packet list \<times> sim_device \<times> 'b dev_clock" where
  "dev_tick sqroot encode d c =
     (case dev_next sqroot d of
        (p, d1) \<Rightarrow>
          (case encode p of
             Inl _ \<Rightarrow> ([], d1, c)
           | Inr b \<Rightarrow>
               (case fault_push \<lparr>pk_seq = ck_seq c, pk_ts = ck_ts c, pk_payload = b\<rparr> (ck_faults c) of
                  (ready, f) \<Rightarrow> (ready, d1, \<lparr>ck_seq = ck_seq c + 1, ck_ts = ck_ts c + 960, ck_faults = f\<rparr>))))"

fun dev_ticks :: "(f64 \<Rightarrow> f64) \<Rightarrow> (i16 list \<Rightarrow> 'b result) list \<Rightarrow> sim_device \<Rightarrow> 'b dev_clock \<Rightarrow> 'b sim_packet list list \<times> sim_device \<times> 'b dev_clock" where
  "dev_ticks sqroot [] d c = ([], d, c)"
| "dev_ticks sqroot (e # es) d c =
     (case dev_tick sqroot e d c of
        (ready, d1, c1) \<Rightarrow> (case dev_ticks sqroot es d1 c1 of (outs, d2, c2) \<Rightarrow> (ready # outs, d2, c2)))"

text \<open>
  The packets of a device are numbered without a gap, the time stamps advance by a frame, wrap-around included, and what
  is sent is what the fault schedule makes of them: every frame that could be encoded is one packet.
\<close>

fun encoded :: "(i16 list \<Rightarrow> 'b result) list \<Rightarrow> i16 list list \<Rightarrow> 'b list" where
  "encoded (e # es) (p # ps) = (case e p of Inl _ \<Rightarrow> encoded es ps | Inr b \<Rightarrow> b # encoded es ps)"
| "encoded _ _ = []"

definition numbered :: "u16 \<Rightarrow> u32 \<Rightarrow> 'b list \<Rightarrow> 'b sim_packet list" where
  "numbered s t bs = map (\<lambda>k. \<lparr>pk_seq = s + of_nat k, pk_ts = t + 960 * of_nat k, pk_payload = bs ! k\<rparr>) [0 ..< length bs]"

lemma numbered_Cons: "numbered s t (b # bs) = \<lparr>pk_seq = s, pk_ts = t, pk_payload = b\<rparr> # numbered (s + 1) (t + 960) bs"
  unfolding numbered_def by (simp add: upt_conv_Cons map_Suc_upt [symmetric] comp_def algebra_simps del: upt_Suc)

lemma dev_ticks_packets:
  "dev_ticks sqroot es d c = (outs, d', c') \<Longrightarrow>
     (\<exists>sent. fault_run (numbered (ck_seq c) (ck_ts c) (encoded es (fst (dev_frames sqroot (length es) d)))) (ck_faults c) = (sent, ck_faults c') \<and>
        concat sent = concat outs) \<and> d' = snd (dev_frames sqroot (length es) d)"
proof (induction es arbitrary: d c outs)
  case Nil
  then show ?case by (simp add: numbered_def)
next
  case (Cons e es)
  obtain p d1 where n: "dev_next sqroot d = (p, d1)" by force
  obtain ready c1 where t: "dev_tick sqroot e d c = (ready, d1, c1)"
    using n by (cases "e p"; cases "fault_push \<lparr>pk_seq = ck_seq c, pk_ts = ck_ts c, pk_payload = projr (e p)\<rparr> (ck_faults c)")
      (simp_all add: dev_tick_def)
  obtain outs1 where r: "dev_ticks sqroot es d1 c1 = (outs1, d', c')" "outs = ready # outs1"
    using Cons.prems t by (auto split: prod.splits)
  from Cons.IH [OF r(1)] obtain sent where
    sent: "fault_run (numbered (ck_seq c1) (ck_ts c1) (encoded es (fst (dev_frames sqroot (length es) d1)))) (ck_faults c1) = (sent, ck_faults c')"
      "concat sent = concat outs1" and d': "d' = snd (dev_frames sqroot (length es) d1)" by blast
  have frames: "dev_frames sqroot (length (e # es)) d = (p # fst (dev_frames sqroot (length es) d1), snd (dev_frames sqroot (length es) d1))"
    using n by (simp split: prod.splits)
  show ?case
  proof (cases "e p")
    case (Inl err)
    then have "ready = []" "c1 = c" using t n by (simp_all add: dev_tick_def)
    then show ?thesis using sent d' frames Inl r(2) by auto
  next
    case (Inr b)
    then obtain f where f: "fault_push \<lparr>pk_seq = ck_seq c, pk_ts = ck_ts c, pk_payload = b\<rparr> (ck_faults c) = (ready, f)"
      and c1: "c1 = \<lparr>ck_seq = ck_seq c + 1, ck_ts = ck_ts c + 960, ck_faults = f\<rparr>"
      using t n by (auto simp: dev_tick_def split: prod.splits)
    then show ?thesis using sent d' frames Inr r(2) by (auto simp: numbered_Cons split: prod.splits)
  qed
qed

subsection \<open>An RTSP session\<close>

text \<open>
  What opens and closes while a connection is served. Sources and decoders are numbered by the DESCRIBE that made them;
  the RTSP library hands every DESCRIBE of the connection to the same handler.
\<close>

datatype serve_event =
  Sv_session | Sv_source nat | Sv_eld nat | Sv_listed nat | Sv_unlisted nat | Sv_source_closed nat | Sv_eld_closed nat
| Sv_session_gone | Sv_conn_closed

record describe_env =
  dc_path :: string
  dc_AddTrack :: "go_error option"
  dc_newELD :: "go_error option"
  dc_GetTrack :: "go_error option"
  dc_newOpus :: "go_error option"

record serve_setup =
  ss_source :: "nat option"
  ss_eld :: "nat option"
  ss_err :: "go_error option"
  ss_trace :: "serve_event list"

definition serve_describe :: "string \<Rightarrow> bool \<Rightarrow> nat \<Rightarrow> describe_env \<Rightarrow> serve_setup \<Rightarrow> serve_setup" where
  "serve_describe i doorbell k x s =
     (if trim_char (CHR ''/'') (dc_path x) \<noteq> i then s\<lparr>ss_err := Some (Msg ''wrong device path'')\<rparr>
      else
        let s1 = s\<lparr>ss_source := Some k, ss_trace := ss_trace s @ [Sv_source k], ss_err := dc_AddTrack x\<rparr>
        in if dc_AddTrack x \<noteq> None then s1
           else if doorbell \<and> dc_newELD x \<noteq> None then s1\<lparr>ss_eld := None, ss_err := dc_newELD x\<rparr>
           else
             let s2 = (if doorbell then s1\<lparr>ss_eld := Some k, ss_trace := ss_trace s1 @ [Sv_eld k]\<rparr> else s1)
             in if dc_GetTrack x \<noteq> None then s2\<lparr>ss_err := dc_GetTrack x\<rparr>
                else if ss_eld s2 = None \<and> dc_newOpus x \<noteq> None then s2\<lparr>ss_err := dc_newOpus x\<rparr> else s2)"

fun serve_describes :: "string \<Rightarrow> bool \<Rightarrow> nat \<Rightarrow> describe_env list \<Rightarrow> serve_setup \<Rightarrow> serve_setup" where
  "serve_describes i doorbell k [] s = s"
| "serve_describes i doorbell k (x # xs) s = serve_describes i doorbell (Suc k) xs (serve_describe i doorbell k x s)"

definition dev_serve :: "sim_device \<Rightarrow> bool \<Rightarrow> describe_env list \<Rightarrow> go_error option \<Rightarrow> serve_event list" where
  "dev_serve d doorbell describes accept =
     (if \<not> sd_online d then [Sv_conn_closed]
      else
        let s = serve_describes (sd_ID d) doorbell 0 describes \<lparr>ss_source = None, ss_eld = None, ss_err = None, ss_trace = []\<rparr>;
            served = (case ss_source s of
                        Some k \<Rightarrow> if accept = None \<and> ss_err s = None then [Sv_listed k, Sv_unlisted k] else []
                      | None \<Rightarrow> [])
        in Sv_session # ss_trace s @ served @
           (case ss_source s of Some k \<Rightarrow> [Sv_source_closed k] | None \<Rightarrow> []) @
           (case ss_eld s of Some k \<Rightarrow> [Sv_eld_closed k] | None \<Rightarrow> []) @ [Sv_session_gone, Sv_conn_closed])"

text \<open>With one DESCRIBE everything that was opened is closed, whatever fails; a second one loses what the first opened.\<close>

lemma dev_serve_one_describe:
  assumes "length describes \<le> 1"
  shows "(Sv_session \<in> set (dev_serve d doorbell describes accept) \<longleftrightarrow> Sv_session_gone \<in> set (dev_serve d doorbell describes accept)) \<and>
    (\<forall>k. (Sv_source k \<in> set (dev_serve d doorbell describes accept) \<longleftrightarrow> Sv_source_closed k \<in> set (dev_serve d doorbell describes accept)) \<and>
         (Sv_eld k \<in> set (dev_serve d doorbell describes accept) \<longleftrightarrow> Sv_eld_closed k \<in> set (dev_serve d doorbell describes accept)) \<and>
         (Sv_listed k \<in> set (dev_serve d doorbell describes accept) \<longleftrightarrow> Sv_unlisted k \<in> set (dev_serve d doorbell describes accept))) \<and>
    last (dev_serve d doorbell describes accept) = Sv_conn_closed"
proof (cases describes)
  case Nil
  then show ?thesis by (simp add: dev_serve_def)
next
  case (Cons x xs)
  then have "describes = [x]" using assms by simp
  then show ?thesis
    by (cases "dc_AddTrack x"; cases "dc_newELD x"; cases "dc_GetTrack x"; cases "dc_newOpus x"; cases doorbell)
       (auto simp: dev_serve_def serve_describe_def Let_def)
qed

lemma second_describe_leaks:
  "\<exists>x. let t = dev_serve (newDevice ''bell'') True [x, x] None in Sv_eld 0 \<in> set t \<and> Sv_eld_closed 0 \<notin> set t"
  by (rule exI [of _ "\<lparr>dc_path = ''/bell'', dc_AddTrack = None, dc_newELD = None, dc_GetTrack = None, dc_newOpus = None\<rparr>"]) code_simp

subsection \<open>Sending a scenario\<close>

text \<open>
  What the command finds: the file, the fixtures next to it, what the server answers to the scenario it sends (a status,
  the text of the body, the decoded report), and the output directory.
\<close>

record 'c cli_env =
  cl_read :: "go_error option"
  cl_parse :: "string \<Rightarrow> duration result"
  cl_decoded :: "('c scenario \<times> bool) result"
  cl_fixture :: "string \<Rightarrow> byte list result"
  cl_encode :: "byte list \<Rightarrow> string"
  cl_stat :: "string \<Rightarrow> go_error option"
  cl_request :: "'c scenario \<Rightarrow> go_error option"
  cl_response :: "'c scenario \<Rightarrow> (int \<times> string \<times> report result) result"
  cl_mkdir :: "go_error option"
  cl_write :: "go_error option"
  cl_base :: string
  cl_artifacts :: string

definition inline_step :: "(string \<Rightarrow> byte list result) \<Rightarrow> (byte list \<Rightarrow> string) \<Rightarrow> 'c sim_step \<Rightarrow> 'c sim_step result" where
  "inline_step fixture encode step =
     (if st_action step = ''replay'' \<and> st_replay step \<noteq> [] then
        (case fixture (st_replay step) of
           Inl e \<Rightarrow> Inl (Wrap ''missing speech fixture: '' e)
         | Inr b \<Rightarrow> (case parseWAV b of Inl e \<Rightarrow> Inl e | Inr _ \<Rightarrow> Inr (step\<lparr>st_audio := encode b, st_replay := []\<rparr>)))
      else Inr step)"

fun each_result :: "('a \<Rightarrow> 'b result) \<Rightarrow> 'a list \<Rightarrow> 'b list result" where
  "each_result f [] = Inr []"
| "each_result f (x # xs) =
     (case f x of Inl e \<Rightarrow> Inl e | Inr y \<Rightarrow> (case each_result f xs of Inl e \<Rightarrow> Inl e | Inr ys \<Rightarrow> Inr (y # ys)))"

definition inline_scenario :: "(string \<Rightarrow> byte list result) \<Rightarrow> (byte list \<Rightarrow> string) \<Rightarrow> 'c scenario \<Rightarrow> 'c scenario result" where
  "inline_scenario fixture encode sc =
     (case each_result (\<lambda>(i, steps). case each_result (inline_step fixture encode) steps of Inl e \<Rightarrow> Inl e | Inr ss \<Rightarrow> Inr (i, ss))
             (sn_sequences sc) of
        Inl e \<Rightarrow> Inl e
      | Inr seqs \<Rightarrow> Inr (sc\<lparr>sn_sequences := seqs\<rparr>))"

text \<open>What is sent: the fixtures inlined, nothing left to require.\<close>

definition cli_scenario :: "'c cli_env \<Rightarrow> 'c scenario result" where
  "cli_scenario env =
     (case cl_read env of
        Some e \<Rightarrow> Inl e
      | None \<Rightarrow>
          (case parseScenario (cl_parse env) (cl_decoded env) of
             Inl e \<Rightarrow> Inl e
           | Inr sc \<Rightarrow>
               (case inline_scenario (cl_fixture env) (cl_encode env) sc of
                  Inl e \<Rightarrow> Inl e
                | Inr sc1 \<Rightarrow>
                    (case first_error (\<lambda>p. case cl_stat env p of None \<Rightarrow> None
                                                | Some e \<Rightarrow> Some (Wrap (''missing prerequisite '' @ p @ '': '') e)) (sn_requires sc1) of
                       Some e \<Rightarrow> Inl e
                     | None \<Rightarrow> Inr (sc1\<lparr>sn_requires := []\<rparr>)))))"

text \<open>The report of the server, decoded.\<close>

definition cli_report :: "'c cli_env \<Rightarrow> report result" where
  "cli_report env =
     (case cli_scenario env of
        Inl e \<Rightarrow> Inl e
      | Inr sc \<Rightarrow>
          (case cl_request env sc of
             Some e \<Rightarrow> Inl e
           | None \<Rightarrow>
               (case cl_response env sc of
                  Inl e \<Rightarrow> Inl e
                | Inr (status, body, decoded) \<Rightarrow>
                    if status \<noteq> 200 then Inl (Msg (''scenario HTTP '' @ show_int status @ '': '' @ body)) else decoded)))"

text \<open>The error of the command, and the report that is in \<open>report.json\<close> if it could be written.\<close>

definition scenarioCLI :: "'c cli_env \<Rightarrow> go_error option \<times> report option" where
  "scenarioCLI env =
     (let failed = (\<lambda>e. (Some e, if cl_mkdir env = None \<and> cl_write env = None
                          then Some \<lparr>rt_name = cl_base env, rt_passed = False, rt_error = Some e, rt_steps = []\<rparr> else None))
      in case cli_report env of
           Inl e \<Rightarrow> failed e
         | Inr r \<Rightarrow>
             (case cl_mkdir env of
                Some e \<Rightarrow> failed e
              | None \<Rightarrow>
                  (case cl_write env of
                     Some e \<Rightarrow> failed e
                   | None \<Rightarrow>
                       (if rt_passed r then None else Some (Msg (''scenario failed; artifacts: '' @ cl_artifacts env)), Some r))))"

text \<open>
  The command succeeds exactly when the report it leaves says passed, and that report is the server's answer to the
  scenario it sent; when it fails it leaves a report that says so, provided the directory can be written.
\<close>

theorem cli_verdict:
  assumes "scenarioCLI env = (err, file)"
  shows "(err = None \<longrightarrow> (\<exists>r sc body. file = Some r \<and> rt_passed r \<and> cli_scenario env = Inr sc \<and>
            cl_response env sc = Inr (200, body, Inr r))) \<and>
    (err \<noteq> None \<and> cl_mkdir env = None \<and> cl_write env = None \<longrightarrow> (\<exists>r. file = Some r \<and> \<not> rt_passed r))"
proof (cases "cli_report env")
  case (Inl e)
  then show ?thesis using assms by (auto simp: scenarioCLI_def)
next
  case (Inr r)
  then have r: "\<exists>sc body. cli_scenario env = Inr sc \<and> cl_response env sc = Inr (200, body, Inr r)"
    by (auto simp: cli_report_def split: sum.splits option.splits prod.splits if_splits)
  show ?thesis
  proof (cases "cl_mkdir env = None \<and> cl_write env = None")
    case True
    then show ?thesis using assms Inr r by (auto simp: scenarioCLI_def split: if_splits)
  next
    case False
    then have "err \<noteq> None"
      using assms Inr by (cases "cl_mkdir env"; cases "cl_write env") (simp_all add: scenarioCLI_def, blast+)
    then show ?thesis using False by blast
  qed
qed

text \<open>An inlined replay plays on the server what the file holds.\<close>

lemma inlined_replay:
  assumes "inline_step fixture encode step = Inr step'" and "st_action step = ''replay''" and "st_replay step \<noteq> []"
    and "fixture (st_replay step) = Inr b" and "sv_base64 env (encode b) = Inr b" and "encode b \<noteq> []"
  shows "\<exists>pcm. parseWAV b = Inr pcm \<and> step_replay env step' = dev_play pcm (sv_dev env)"
  using assms by (auto simp: inline_step_def step_replay_def split: sum.splits)

subsection \<open>The program\<close>

datatype sim_life = Sl_engine | Sl_http | Sl_cancelled | Sl_sockets_closed | Sl_http_stopped | Sl_sockets_joined | Sl_engine_closed

text \<open>What the modes answer, whether a signal ended the program, and the errors of the server.\<close>

record main_env =
  me_probe :: "go_error option"
  me_scenario :: "go_error option"
  me_manifest :: "go_error option"
  me_generate :: "go_error option"
  me_start :: "go_error option"
  me_signal :: bool
  me_shutdown :: "go_error option"
  me_listen :: "go_error option"

definition sim_run :: "main_env \<Rightarrow> string \<Rightarrow> sim_life list \<times> go_error option" where
  "sim_run env mode =
     (if mode = ''probe'' then ([], me_probe env)
      else if mode = ''scenario'' then ([], me_scenario env)
      else if me_manifest env \<noteq> None then ([], me_manifest env)
      else if mode = ''generate'' then ([], me_generate env)
      else if mode \<noteq> ''serve'' then ([], Some (Msg (''unknown mode '' @ mode)))
      else if me_probe env \<noteq> None then ([], me_probe env)
      else if me_start env \<noteq> None then ([], me_start env)
      else if me_signal env
      then ([Sl_engine, Sl_http, Sl_cancelled, Sl_sockets_closed, Sl_http_stopped, Sl_sockets_joined, Sl_engine_closed], me_shutdown env)
      else ([Sl_engine, Sl_http, Sl_engine_closed], me_listen env))"

text \<open>The engine runs only with working codecs and a valid manifest, and is closed whenever it was started.\<close>

lemma sim_run_closes:
  "Sl_engine \<in> set (fst (sim_run env mode)) \<longleftrightarrow> mode = ''serve'' \<and> me_manifest env = None \<and> me_probe env = None \<and> me_start env = None"
  "Sl_engine \<in> set (fst (sim_run env mode)) \<longleftrightarrow> Sl_engine_closed \<in> set (fst (sim_run env mode))"
  by (simp_all add: sim_run_def)

subsection \<open>The devices of a manifest\<close>

text \<open>A manifest that is accepted gives every device an id of its own, as the routing of requests needs.\<close>

lemma engine_devices:
  assumes "loadManifest env decoded = Inr m"
  shows "distinct (map fst (newEngine m)) \<and> (\<forall>d \<in> snd ` set (newEngine m). dev_bounded d)"
proof -
  obtain m0 where "check_devices (me_show env) [] (mf_Devices m0) = None" "m = manifest_defaults m0"
    using assms by (auto simp: loadManifest_def Let_def split: sum.splits prod.splits option.splits if_splits)
  then have "distinct (map ds_ID (mf_Devices m))" using check_devices_spec by (simp add: manifest_defaults_def) blast
  then show ?thesis by (auto simp: newEngine_def comp_def newDevice_def dev_bounded_def)
qed

end
