(* ===== verification/Sim_Wire.thy ===== *)
theory Sim_Wire
  imports Sim_Engine Protocol Native
begin

text \<open>
  What stands between the simulator's engine and its connections: the first line of a connection, read without consuming
  it (tools/simulator/peek.go), the dispatch to a device and the life of the engine's goroutines (engine.go), the AAC-ELD
  decoder (eld.go), the speech fixtures (scenario.go), the codec probe (audio.go) and the page (ui.go). \<open>net/url\<close>, fdk-aac,
  ffmpeg and the file system are parameters.
\<close>

subsection \<open>strings.Fields\<close>

text \<open>The length of the space a string begins with; 0 when it begins with none.\<close>

definition space_len :: "string \<Rightarrow> nat" where
  "space_len s = (case find (has_prefix s) utf8_spaces of None \<Rightarrow> 0 | Some p \<Rightarrow> length p)"

function fields_from :: "string \<Rightarrow> string \<Rightarrow> string list" where
  "fields_from w [] = (if w = [] then [] else [w])"
| "fields_from w (c # s) =
     (if space_len (c # s) = 0 then fields_from (w @ [c]) s
      else (if w = [] then [] else [w]) @ fields_from [] (drop (space_len (c # s)) (c # s)))"
  by pat_completeness auto
termination by (relation "measure (\<lambda>(w, s). length s)") auto

definition strings_Fields :: "string \<Rightarrow> string list" where
  "strings_Fields s = fields_from [] s"

text \<open>A byte that no space holds does not begin one.\<close>

definition plain_char :: "char \<Rightarrow> bool" where
  "plain_char c \<longleftrightarrow> (\<forall>p \<in> set utf8_spaces. c \<notin> set p)"

lemma plain_no_space:
  assumes "plain_char c"
  shows "space_len (c # s) = 0"
proof -
  have "\<not> has_prefix (c # s) p" if "p \<in> set utf8_spaces" for p
  proof -
    have "p \<noteq> []" "c \<notin> set p" using that assms by (auto simp: utf8_spaces_def plain_char_def)
    then show ?thesis by (cases p) (auto simp: has_prefix_def)
  qed
  then have "find (has_prefix (c # s)) utf8_spaces = None" by (auto simp: find_None_iff)
  then show ?thesis by (simp add: space_len_def)
qed

lemma fields_plain: "\<forall>c \<in> set v. plain_char c \<Longrightarrow> fields_from w (v @ s) = fields_from (w @ v) s"
proof (induction v arbitrary: w)
  case (Cons c v)
  then show ?case by (simp add: plain_no_space)
qed simp

lemma space_len_blank [simp]: "space_len (CHR '' '' # s) = 1"
  by (simp add: space_len_def utf8_spaces_def has_prefix_def)

lemma fields_blank: "fields_from w (CHR '' '' # s) = (if w = [] then [] else [w]) @ fields_from [] s"
  by simp

subsection \<open>The first line of a connection\<close>

text \<open>
  \<open>Peek(n)\<close> gives the first \<open>n\<close> bytes as soon as they are there and leaves them in the buffer. \<open>arrived\<close> is what the
  connection sent before it ended or the deadline passed, with the error \<open>ended\<close>. \<open>url_path\<close> is the path that \<open>url.Parse\<close>
  finds.
\<close>

definition request_device :: "(string \<Rightarrow> string result) \<Rightarrow> string \<Rightarrow> string result" where
  "request_device url_path line =
     (case strings_Fields line of
        _ # target # _ \<Rightarrow> (case url_path target of Inl e \<Rightarrow> Inl e | Inr p \<Rightarrow> Inr (trim_char (CHR ''/'') p))
      | _ \<Rightarrow> Inl (Msg ''malformed RTSP''))"

fun peek_from :: "(string \<Rightarrow> string result) \<Rightarrow> string \<Rightarrow> go_error \<Rightarrow> nat \<Rightarrow> nat \<Rightarrow> string result" where
  "peek_from url_path arrived ended 0 n = Inl (Msg ''oversized RTSP request'')"
| "peek_from url_path arrived ended (Suc k) n =
     (if length arrived < n then Inl ended
      else if arrived ! (n - 1) = CHR 0x0A then request_device url_path (take n arrived)
      else peek_from url_path arrived ended k (Suc n))"

definition peek_device :: "(string \<Rightarrow> string result) \<Rightarrow> string \<Rightarrow> go_error \<Rightarrow> string result" where
  "peek_device url_path arrived ended = peek_from url_path arrived ended 8192 1"

text \<open>The first newline decides, when it is among the first 8192 bytes.\<close>

lemma peek_from_line:
  assumes "arrived = l @ CHR 0x0A # more_bytes" and "CHR 0x0A \<notin> set l" and "0 < n" and "n \<le> Suc (length l)"
  shows "peek_from url_path arrived ended k n =
    (if Suc (length l) < n + k then request_device url_path (l @ [CHR 0x0A]) else Inl (Msg ''oversized RTSP request''))"
  using assms(3,4)
proof (induction k arbitrary: n)
  case (Suc k)
  show ?case
  proof (cases "n = Suc (length l)")
    case True
    then show ?thesis using assms(1) by simp
  next
    case False
    then have n: "n - 1 < length l" "n \<le> length l" "n \<le> length arrived" using Suc.prems assms(1) by auto
    then have "arrived ! (n - 1) = l ! (n - 1)" using assms(1) by (simp add: nth_append)
    then have "arrived ! (n - 1) \<noteq> CHR 0x0A" using n(1) assms(2) by (metis nth_mem)
    then show ?thesis using n Suc by (auto simp: not_less)
  qed
qed simp

lemma peek_from_no_line:
  assumes "CHR 0x0A \<notin> set arrived" and "0 < n" and "n \<le> Suc (length arrived)"
  shows "peek_from url_path arrived ended k n = (if n + k \<le> Suc (length arrived) then Inl (Msg ''oversized RTSP request'') else Inl ended)"
  using assms(2,3)
proof (induction k arbitrary: n)
  case (Suc k)
  show ?case
  proof (cases "length arrived < n")
    case False
    then have "n - 1 < length arrived" using Suc.prems by auto
    then have "arrived ! (n - 1) \<noteq> CHR 0x0A" using assms(1) by (metis nth_mem)
    then show ?thesis using False Suc by simp
  qed (use Suc.prems in simp)
qed simp

lemma peek_device_line:
  "CHR 0x0A \<notin> set l \<Longrightarrow>
     peek_device url_path (l @ CHR 0x0A # more_bytes) ended =
       (if length l < 8192 then request_device url_path (l @ [CHR 0x0A]) else Inl (Msg ''oversized RTSP request''))"
  "CHR 0x0A \<notin> set l \<Longrightarrow> peek_device url_path l ended = (if 8192 \<le> length l then Inl (Msg ''oversized RTSP request'') else Inl ended)"
  using peek_from_line [of "l @ CHR 0x0A # more_bytes" l more_bytes 1 url_path ended 8192]
    peek_from_no_line [of l 1 url_path ended 8192]
  by (simp_all add: peek_device_def)

text \<open>A request line names the device by the path of its second word, whatever follows it.\<close>

lemma peek_device_request:
  assumes "\<forall>c \<in> set method. plain_char c" and "\<forall>c \<in> set target. plain_char c" and "method \<noteq> []" and "target \<noteq> []"
    and "CHR 0x0A \<notin> set version" and "length method + length target + length version + 2 < 8192"
  shows "peek_device url_path (method @ CHR '' '' # target @ CHR '' '' # version @ CHR 0x0A # more_bytes) ended =
    (case url_path target of Inl e \<Rightarrow> Inl e | Inr p \<Rightarrow> Inr (trim_char (CHR ''/'') p))"
proof -
  let ?l = "method @ CHR '' '' # target @ CHR '' '' # version"
  have nl: "\<not> plain_char (CHR 0x0A)" by (auto simp: plain_char_def utf8_spaces_def)
  then have l: "CHR 0x0A \<notin> set ?l" using assms(1,2,5) by auto
  have f: "strings_Fields (?l @ [CHR 0x0A]) = method # target # fields_from [] (version @ [CHR 0x0A])"
    using fields_plain [OF assms(1)] fields_plain [OF assms(2)] assms(3,4) by (simp add: strings_Fields_def)
  have len: "length ?l < 8192" using assms(6) by simp
  have "peek_device url_path (?l @ CHR 0x0A # more_bytes) ended = request_device url_path (?l @ [CHR 0x0A])"
    using peek_device_line(1) [OF l] len by simp
  then show ?thesis using f by (simp add: request_device_def)
qed

subsection \<open>Dispatch\<close>

text \<open>A connection goes to the device its first line names, and is closed when there is none. \<open>doorbell\<close> is the profile.\<close>

definition engine_serve ::
    "(string \<Rightarrow> string result) \<Rightarrow> sim_devices \<Rightarrow> (string \<Rightarrow> bool) \<Rightarrow> string \<Rightarrow> go_error \<Rightarrow> describe_env list \<Rightarrow> go_error option \<Rightarrow>
     string option \<times> serve_event list" where
  "engine_serve url_path devices doorbell arrived ended describes accept =
     (case peek_device url_path arrived ended of
        Inl _ \<Rightarrow> (None, [Sv_conn_closed])
      | Inr i \<Rightarrow>
          (case map_of devices i of
             None \<Rightarrow> (None, [Sv_conn_closed])
           | Some d \<Rightarrow> (Some i, dev_serve d (doorbell i) describes accept)))"

lemma serve_describe_keeps: "Sv_conn_closed \<notin> set (ss_trace s) \<Longrightarrow> Sv_conn_closed \<notin> set (ss_trace (serve_describe i doorbell k x s))"
  by (simp add: serve_describe_def Let_def)

lemma serve_describes_keeps: "Sv_conn_closed \<notin> set (ss_trace s) \<Longrightarrow> Sv_conn_closed \<notin> set (ss_trace (serve_describes i doorbell k xs s))"
  by (induction xs arbitrary: k s) (simp_all add: serve_describe_keeps)

lemma dev_serve_closes:
  "\<exists>t. dev_serve d doorbell describes accept = t @ [Sv_conn_closed] \<and> Sv_conn_closed \<notin> set t"
proof (cases "sd_online d")
  case True
  let ?s = "serve_describes (sd_ID d) doorbell 0 describes \<lparr>ss_source = None, ss_eld = None, ss_err = None, ss_trace = []\<rparr>"
  have "Sv_conn_closed \<notin> set (ss_trace ?s)" by (rule serve_describes_keeps) simp
  then show ?thesis using True by (auto simp: dev_serve_def Let_def split: option.splits)
qed (simp add: dev_serve_def)

text \<open>Every connection is closed exactly once and last, and only an online device of the requested name serves it.\<close>

lemma engine_serve_closes:
  assumes "engine_serve url_path devices doorbell arrived ended describes accept = (served, t)"
  shows "\<exists>t'. t = t' @ [Sv_conn_closed] \<and> Sv_conn_closed \<notin> set t'"
    and "t \<noteq> [Sv_conn_closed] \<Longrightarrow>
      \<exists>i d. peek_device url_path arrived ended = Inr i \<and> served = Some i \<and> map_of devices i = Some d \<and> sd_online d"
proof -
  show "\<exists>t'. t = t' @ [Sv_conn_closed] \<and> Sv_conn_closed \<notin> set t'"
    using assms dev_serve_closes by (auto simp: engine_serve_def split: sum.splits option.splits)
  have "dev_serve d b describes accept = [Sv_conn_closed]" if "\<not> sd_online d" for d b
    using that by (simp add: dev_serve_def)
  then show "t \<noteq> [Sv_conn_closed] \<Longrightarrow>
      \<exists>i d. peek_device url_path arrived ended = Inr i \<and> served = Some i \<and> map_of devices i = Some d \<and> sd_online d"
    using assms by (auto simp: engine_serve_def split: sum.splits option.splits)
qed

subsection \<open>The goroutine of a device\<close>

text \<open>A device whose encoder cannot be made only notes the error; the others tick until the context ends.\<close>

definition dev_run ::
    "(f64 \<Rightarrow> f64) \<Rightarrow> go_error option \<Rightarrow> fault_spec \<Rightarrow> (i16 list \<Rightarrow> 'b result) list \<Rightarrow> sim_device \<Rightarrow> 'b sim_packet list list \<times> sim_device" where
  "dev_run sqroot newEncoder spec es d =
     (case newEncoder of
        Some err \<Rightarrow> ([], d\<lparr>sd_last_error := err_text err\<rparr>)
      | None \<Rightarrow> (case dev_ticks sqroot es d (clock_New spec) of (outs, d', c) \<Rightarrow> (outs, d')))"

text \<open>What a device sends is what its faults make of its encoded frames, numbered from 0.\<close>

lemma dev_run_sends:
  "concat (fst (dev_run sqroot None spec es d)) =
     concat (fst (fault_run (numbered 0 0 (encoded es (fst (dev_frames sqroot (length es) d)))) (fault_New spec)))"
proof -
  obtain outs d' c' where t: "dev_ticks sqroot es d (clock_New spec) = (outs, d', c')" by (metis surj_pair)
  then show ?thesis using dev_ticks_packets [OF t] by (auto simp: dev_run_def clock_New_def)
qed

subsection \<open>The engine's goroutines\<close>

text \<open>
  The wait group counts a clock for every device, the accepting loop and a handler for every connection; \<open>eg_open\<close> are the
  sockets not closed yet. A cancelled context closes the sockets (\<open>context.AfterFunc\<close>), which ends their handlers.
\<close>

record engine_life =
  eg_wg :: nat
  eg_cancelled :: bool
  eg_listening :: bool
  eg_clocks :: "string list"
  eg_accepting :: bool
  eg_serving :: "nat list"
  eg_open :: "nat list"
  eg_next :: nat
  eg_closed :: bool

definition engine_New :: engine_life where
  "engine_New = \<lparr>eg_wg = 0, eg_cancelled = False, eg_listening = False, eg_clocks = [], eg_accepting = False, eg_serving = [],
     eg_open = [], eg_next = 0, eg_closed = False\<rparr>"

definition engine_start :: "go_error option \<Rightarrow> sim_devices \<Rightarrow> engine_life \<Rightarrow> go_error option \<times> engine_life" where
  "engine_start listen devices e =
     (case listen of
        Some err \<Rightarrow> (Some err, e)
      | None \<Rightarrow> (None, e\<lparr>eg_listening := True, eg_clocks := map fst devices, eg_accepting := True,
                          eg_wg := eg_wg e + length devices + 1\<rparr>))"

definition engine_Accept :: "engine_life \<Rightarrow> engine_life" where
  "engine_Accept e = e\<lparr>eg_wg := eg_wg e + 1, eg_serving := eg_next e # eg_serving e, eg_open := eg_next e # eg_open e,
     eg_next := Suc (eg_next e)\<rparr>"

inductive engine_step :: "engine_life \<Rightarrow> engine_life \<Rightarrow> bool" where
  en_accepts: "eg_accepting e \<Longrightarrow> eg_listening e \<Longrightarrow> engine_step e (engine_Accept e)"
| en_accept_fails: "eg_accepting e \<Longrightarrow> engine_step e (e\<lparr>eg_accepting := False, eg_wg := eg_wg e - 1\<rparr>)"
| en_socket_closed: "engine_step e (e\<lparr>eg_open := removeAll i (eg_open e)\<rparr>)"
| en_served: "i \<in> set (eg_serving e) \<Longrightarrow>
    engine_step e (e\<lparr>eg_serving := removeAll i (eg_serving e), eg_open := removeAll i (eg_open e), eg_wg := eg_wg e - 1\<rparr>)"
| en_clock_ends: "i \<in> set (eg_clocks e) \<Longrightarrow> engine_step e (e\<lparr>eg_clocks := remove1 i (eg_clocks e), eg_wg := eg_wg e - 1\<rparr>)"
| en_cancelled: "engine_step e (e\<lparr>eg_cancelled := True\<rparr>)"
| en_listener_closed: "eg_cancelled e \<Longrightarrow> engine_step e (e\<lparr>eg_listening := False\<rparr>)"
| en_closed: "eg_cancelled e \<Longrightarrow> \<not> eg_listening e \<Longrightarrow> eg_wg e = 0 \<Longrightarrow> engine_step e (e\<lparr>eg_closed := True\<rparr>)"

inductive_cases engine_stepE: "engine_step e e'"

definition engine_inv :: "engine_life \<Rightarrow> bool" where
  "engine_inv e \<longleftrightarrow> eg_wg e = length (eg_clocks e) + (if eg_accepting e then 1 else 0) + length (eg_serving e) \<and>
     distinct (eg_serving e) \<and> set (eg_open e) \<subseteq> set (eg_serving e) \<and> (\<forall>i \<in> set (eg_serving e). i < eg_next e) \<and>
     (eg_closed e \<longrightarrow> eg_wg e = 0 \<and> \<not> eg_listening e)"

lemma length_removeAll_distinct: "distinct xs \<Longrightarrow> x \<in> set xs \<Longrightarrow> length (removeAll x xs) = length xs - 1"
  by (simp add: distinct_remove1_removeAll [symmetric] length_remove1)

lemma engine_step_inv: "engine_inv e \<Longrightarrow> engine_step e e' \<Longrightarrow> engine_inv e'"
proof (erule engine_stepE, goal_cases)
  case 1
  then show ?case by (auto simp: engine_inv_def engine_Accept_def)
next
  case (4 i)
  then obtain n where "length (eg_serving e) = Suc n" by (metis length_pos_if_in_set gr0_conv_Suc)
  then show ?case using 4 by (auto simp: engine_inv_def length_removeAll_distinct distinct_removeAll)
next
  case (5 i)
  then obtain n where "length (eg_clocks e) = Suc n" by (metis length_pos_if_in_set gr0_conv_Suc)
  then show ?case using 5 by (auto simp: engine_inv_def length_remove1)
qed (auto simp: engine_inv_def)

interpretation engine_machine: machine "\<lambda>e. \<exists>devices. e = snd (engine_start None devices engine_New)" engine_step engine_inv
proof unfold_locales
  fix e
  assume "\<exists>devices. e = snd (engine_start None devices engine_New)"
  then show "engine_inv e" by (auto simp: engine_inv_def engine_start_def engine_New_def)
qed (rule engine_step_inv)

text \<open>When \<open>close\<close> has returned, no clock, handler or socket of the engine is left and none is started again.\<close>

lemma engine_close_final:
  assumes "reach (\<lambda>e. \<exists>devices. e = snd (engine_start None devices engine_New)) engine_step e" and "eg_closed e"
  shows "eg_clocks e = [] \<and> \<not> eg_accepting e \<and> eg_serving e = [] \<and> eg_open e = []"
    and "engine_step\<^sup>*\<^sup>* e e' \<Longrightarrow> eg_clocks e' = [] \<and> \<not> eg_accepting e' \<and> eg_serving e' = [] \<and> eg_open e' = []"
proof -
  have inv: "engine_inv e" by (rule engine_machine.reach_inv [OF assms(1)])
  have quiet: "eg_clocks e = [] \<and> \<not> eg_accepting e \<and> eg_serving e = [] \<and> eg_open e = []" if "engine_inv e" "eg_closed e" for e
    using that by (auto simp: engine_inv_def split: if_splits)
  show "eg_clocks e = [] \<and> \<not> eg_accepting e \<and> eg_serving e = [] \<and> eg_open e = []" by (rule quiet [OF inv assms(2)])
  have kept: "eg_closed e2" if "engine_step e1 e2" "eg_closed e1" for e1 e2
    using that by (auto elim!: engine_stepE simp: engine_Accept_def)
  show "eg_clocks e' = [] \<and> \<not> eg_accepting e' \<and> eg_serving e' = [] \<and> eg_open e' = []" if "engine_step\<^sup>*\<^sup>* e e'"
  proof -
    from that have "engine_inv e' \<and> eg_closed e'"
      by (induction) (use inv assms(2) kept engine_step_inv in blast)+
    then show ?thesis using quiet by blast
  qed
qed

subsection \<open>The AAC-ELD decoder\<close>

text \<open>
  The handle is a \<open>native\<close> object. What fdk-aac answers to a packet: whether filling and decoding went well, the bytes it
  did not take, the format it found, the size of a frame and the samples it wrote.
\<close>

record eld_answer =
  el_fill :: bool
  el_valid :: nat
  el_decoded :: bool
  el_rate :: int
  el_channels :: int
  el_aot :: int
  el_frame :: int
  el_pcm :: "i16 list"

definition eld_open :: "bool \<Rightarrow> native \<Rightarrow> nat option \<times> native" where
  "eld_open configured nt =
     (case nt_New nt of (h, nt') \<Rightarrow> if configured then (Some h, nt') else (None, nt_delete h nt'))"

definition newELDDecoder :: "(string \<Rightarrow> byte list result) \<Rightarrow> (byte list \<Rightarrow> bool) \<Rightarrow> string \<Rightarrow> native \<Rightarrow> nat result \<times> native" where
  "newELDDecoder hex_decode configures config nt =
     (case hex_decode config of
        Inl _ \<Rightarrow> (Inl (Msg ''invalid ELD config''), nt)
      | Inr b \<Rightarrow>
          if b = [] then (Inl (Msg ''invalid ELD config''), nt)
          else (case eld_open (configures b) nt of
                  (None, nt') \<Rightarrow> (Inl (Msg ''FDK cannot configure ELD decoder''), nt')
                | (Some h, nt') \<Rightarrow> (Inr h, nt')))"

definition eld_close :: "nat \<Rightarrow> native \<Rightarrow> native" where
  "eld_close h nt = nt_delete h nt"

definition eld_decode :: "eld_answer \<Rightarrow> int" where
  "eld_decode a =
     (if \<not> el_fill a \<or> el_valid a \<noteq> 0 then - 1
      else if \<not> el_decoded a then - 2
      else if el_rate a \<noteq> 16000 \<or> el_channels a \<noteq> 1 \<or> el_aot a \<noteq> 39 then - 3
      else el_frame a)"

text \<open>The buffer of 2048 samples after the call, and \<open>pcm[:n]\<close>, which panics (\<open>None\<close>) when the frame is larger.\<close>

definition eld_buffer :: "eld_answer \<Rightarrow> i16 list" where
  "eld_buffer a = take 2048 (el_pcm a @ replicate 2048 0)"

definition eld_packet :: "nat \<Rightarrow> byte list \<Rightarrow> eld_answer \<Rightarrow> native \<Rightarrow> i16 list result option \<times> native" where
  "eld_packet h b a nt =
     (if b = [] then (Some (Inl (Msg ''empty ELD packet'')), nt)
      else let n = eld_decode a; nt' = nt_use h nt
           in if n < 0 then (Some (Inl (Msg (''ELD decode error '' @ show_int n))), nt')
              else if 2048 < n then (None, nt')
              else (Some (Inr (take (nat n) (eld_buffer a))), nt'))"

fun eld_packets :: "nat \<Rightarrow> (byte list \<times> eld_answer) list \<Rightarrow> native \<Rightarrow> native" where
  "eld_packets h [] nt = nt"
| "eld_packets h ((b, a) # ps) nt = eld_packets h ps (snd (eld_packet h b a nt))"

text \<open>Only mono 16 kHz AAC-ELD is passed on; a frame has the samples the decoder says, and none is read beyond the buffer.\<close>

lemma eld_packet_frame:
  assumes "eld_packet h b a nt = (Some (Inr pcm), nt')"
  shows "el_rate a = 16000 \<and> el_channels a = 1 \<and> el_aot a = 39 \<and> el_valid a = 0 \<and> int (length pcm) = el_frame a \<and> length pcm \<le> 2048"
  using assms by (auto simp: eld_packet_def eld_decode_def eld_buffer_def Let_def split: if_splits)

text \<open>A decoder is never used after it was closed, closed twice or left open, also when fdk-aac refuses the configuration.\<close>

lemma eld_packets_held: "nt_holds (add_mset h hs) nt \<Longrightarrow> nt_holds (add_mset h hs) (eld_packets h ps nt)"
  by (induction h ps nt rule: eld_packets.induct) (simp_all add: eld_packet_def Let_def nt_use_held)

lemma eld_life:
  assumes "nt_holds hs nt" and "newELDDecoder hex_decode configures config nt = (r, nt')"
  shows "case r of Inl _ \<Rightarrow> nt_holds hs nt' | Inr h \<Rightarrow> nt_holds hs (eld_close h (eld_packets h ps nt'))"
proof -
  obtain h nt1 where new: "nt_New nt = (h, nt1)" by force
  have held: "nt_holds (add_mset h hs) nt1" by (rule nt_holds_New [OF assms(1) new])
  have "nt_holds hs (nt_delete h nt1)" by (rule nt_holds_delete [OF held])
  moreover have "nt_holds hs (eld_close h (eld_packets h ps nt1))"
    unfolding eld_close_def by (rule nt_holds_delete [OF eld_packets_held [OF held]])
  ultimately show ?thesis using assms new
    by (auto simp: newELDDecoder_def eld_open_def split: sum.splits if_splits)
qed

subsection \<open>Speech fixtures\<close>

text \<open>
  The working directory, \<open>filepath.EvalSymlinks\<close>, and opening and reading a file. The first part of the result is the file
  that was opened.
\<close>

record fixture_env =
  fx_getwd :: "string result"
  fx_links :: "string \<Rightarrow> string result"
  fx_open :: "string \<Rightarrow> go_error option"
  fx_read :: "string \<Rightarrow> byte list result"

definition fixture :: "fixture_env \<Rightarrow> string \<Rightarrow> string option \<times> i16 list result" where
  "fixture env path =
     (case path_Abs (fx_getwd env) ''fixtures'' of
        Inl e \<Rightarrow> (None, Inl e)
      | Inr base \<Rightarrow>
          (case fx_links env (path_Join [base, path]) of
             Inl e \<Rightarrow> (None, Inl (Wrap (''missing speech fixture '' @ path @ '': '') e))
           | Inr target \<Rightarrow>
               (case path_Rel base target of
                  None \<Rightarrow> (None, Inl (Msg ''fixture must be inside fixtures directory''))
                | Some rel \<Rightarrow>
                    if rel = ''..'' \<or> has_prefix rel ''../''
                    then (None, Inl (Msg ''fixture must be inside fixtures directory''))
                    else (case fx_open env target of
                            Some e \<Rightarrow> (None, Inl e)
                          | None \<Rightarrow>
                              (case fx_read env target of
                                 Inl e \<Rightarrow> (Some target, Inl e)
                               | Inr b \<Rightarrow> (Some target, parseWAV (take (simMaxSamples * 2 + 65537) b)))))))"

text \<open>Whatever a scenario names, and wherever links lead, only files under \<open>fixtures\<close> are opened.\<close>

lemma fixture_confined:
  assumes "\<And>wd. fx_getwd env = Inr wd \<Longrightarrow> path_IsAbs wd"
    and "\<And>p t. path_IsAbs p \<Longrightarrow> fx_links env p = Inr t \<Longrightarrow> path_IsAbs t"
    and "fst (fixture env path) = Some f"
  shows "\<exists>base t. path_Abs (fx_getwd env) ''fixtures'' = Inr base \<and> path_comps f = path_comps base @ t \<and> ''..'' \<notin> set (path_comps f)"
proof -
  obtain base rel where base: "path_Abs (fx_getwd env) ''fixtures'' = Inr base"
    and links: "fx_links env (path_Join [base, path]) = Inr f"
    and rel: "path_Rel base f = Some rel" "\<not> (rel = ''..'' \<or> has_prefix rel ''../'')"
    using assms(3) by (auto simp: fixture_def split: sum.splits option.splits if_splits)
  have b: "path_IsAbs base" using path_Abs_abs [OF assms(1) base] by simp
  have "path_IsAbs (path_Join [base, path])"
  proof (cases "path = []")
    case True
    have "base \<noteq> []" using b by (auto simp: path_IsAbs_def has_prefix_def)
    then show ?thesis using path_Clean_abs [OF b] True by (simp add: path_Join_def)
  qed (use path_Join_abs [OF b] in blast)
  then have f: "path_IsAbs f" using assms(2) links by blast
  then show ?thesis using path_Rel_inside [OF b f] rel base path_comps_no_up [OF f] by fastforce
qed

subsection \<open>The page\<close>

definition serveUI :: "(string \<Rightarrow> byte list option) \<Rightarrow> string \<Rightarrow> int \<times> string \<times> byte list" where
  "serveUI assets url =
     (let path = (if url = ''/'' then ''/index.html'' else url)
      in case assets (''ui'' @ path) of
           None \<Rightarrow> (404, ''text/plain; charset=utf-8'', ascii ''404 page not found'' @ [10])
         | Some b \<Rightarrow> (200, if path = ''/index.html'' then ''text/html; charset=utf-8'' else ''text/javascript; charset=utf-8'', b))"

subsection \<open>The codec probe\<close>

record probe_stream =
  ps_Profile :: string
  ps_Rate :: string
  ps_Channels :: int

text \<open>What the commands and the JSON decoder answer; \<open>pb_encode\<close> has the output of the command beside its error.\<close>

record probe_env =
  pb_version :: "string result"
  pb_tempdir :: "string result"
  pb_encode :: "(go_error \<times> string) option"
  pb_probe :: "string result"
  pb_json :: "string \<Rightarrow> probe_stream list result"
  pb_decode :: "byte list result"
  pb_maths :: float_maths

definition probe_ok :: "probe_stream list result \<Rightarrow> bool" where
  "probe_ok info = (info = Inr [\<lparr>ps_Profile = ''ELD'', ps_Rate = ''16000'', ps_Channels = 1\<rparr>])"

definition probe_content :: "float_maths \<Rightarrow> byte list \<Rightarrow> bool" where
  "probe_content m b \<longleftrightarrow>
     (let p = wav_samples b
      in simRate div 3 \<le> int (length p) \<and> \<not> f_lt (marker (fm_sin m) (fm_cos m) p (Fin 700)) (fround float64 (4 / 10)))"

text \<open>The first part is the temporary directory that was made, which is removed on every way out.\<close>

definition codecProbe :: "probe_env \<Rightarrow> string option \<times> go_error option" where
  "codecProbe env =
     (case pb_version env of
        Inl _ \<Rightarrow> (None, Some (Msg ''FFmpeg 7.1.1 is required''))
      | Inr v \<Rightarrow>
          if \<not> has_prefix v ''ffmpeg version 7.1.1'' then (None, Some (Msg ''FFmpeg 7.1.1 is required''))
          else case pb_tempdir env of
            Inl e \<Rightarrow> (None, Some e)
          | Inr dir \<Rightarrow>
              (Some dir,
               case pb_encode env of
                 Some (e, b) \<Rightarrow> Some (Msg (''ELD encode: '' @ err_text e @ '': '' @ b))
               | None \<Rightarrow>
                   (case pb_probe env of
                      Inl e \<Rightarrow> Some (Wrap ''ELD profile probe: '' e)
                    | Inr probe \<Rightarrow>
                        if \<not> probe_ok (pb_json env probe) then Some (Msg (''expected mono 16 kHz ELD, got '' @ probe))
                        else (case pb_decode env of
                                Inl e \<Rightarrow> Some (Wrap ''ELD decode: '' e)
                              | Inr b \<Rightarrow> if probe_content (pb_maths env) b then None else Some (Msg ''ELD roundtrip content failed'')))))"

end
