(* ===== verification/Sim_Sockets.thy ===== *)
theory Sim_Sockets
  imports Go_Prelude
begin

text \<open>
  The browser sockets of the simulator's server (tools/simulator/http.go, main.go): a handler upgrades its connection,
  registers it under the mutex, and leaves; the shutdown marks the server as closing, closes what is registered and waits
  for the group. \<open>wk_open\<close> are the sockets that are not closed, \<open>wk_upgraded\<close> those not registered yet, \<open>wk_leaving\<close> those
  of handlers that left the group and have not closed their socket yet, which is the last of the deferred calls.
\<close>

record sim_sockets =
  wk_closing :: bool
  wk_sockets :: "nat set"
  wk_wg :: nat
  wk_open :: "nat set"
  wk_upgraded :: "nat set"
  wk_leaving :: "nat set"
  wk_next :: nat
  wk_joined :: bool

definition newServer :: sim_sockets where
  "newServer = \<lparr>wk_closing = False, wk_sockets = {}, wk_wg = 0, wk_open = {}, wk_upgraded = {}, wk_leaving = {}, wk_next = 0, wk_joined = False\<rparr>"

definition closeSockets :: "sim_sockets \<Rightarrow> sim_sockets" where
  "closeSockets w = w\<lparr>wk_closing := True, wk_open := wk_open w - wk_sockets w\<rparr>"

definition live_upgrade :: "sim_sockets \<Rightarrow> sim_sockets" where
  "live_upgrade w = w\<lparr>wk_next := Suc (wk_next w), wk_open := insert (wk_next w) (wk_open w), wk_upgraded := insert (wk_next w) (wk_upgraded w)\<rparr>"

definition live_register :: "nat \<Rightarrow> sim_sockets \<Rightarrow> sim_sockets" where
  "live_register c w =
     (if wk_closing w then w\<lparr>wk_upgraded := wk_upgraded w - {c}, wk_leaving := insert c (wk_leaving w)\<rparr>
      else w\<lparr>wk_upgraded := wk_upgraded w - {c}, wk_wg := wk_wg w + 1, wk_sockets := insert c (wk_sockets w)\<rparr>)"

definition live_leave :: "nat \<Rightarrow> sim_sockets \<Rightarrow> sim_sockets" where
  "live_leave c w = w\<lparr>wk_sockets := wk_sockets w - {c}, wk_wg := wk_wg w - 1, wk_leaving := insert c (wk_leaving w)\<rparr>"

inductive wk_step :: "sim_sockets \<Rightarrow> sim_sockets \<Rightarrow> bool" where
  wk_upgrades: "wk_step w (live_upgrade w)"
| wk_registers: "c \<in> wk_upgraded w \<Longrightarrow> wk_step w (live_register c w)"
| wk_lost: "wk_step w (w\<lparr>wk_open := wk_open w - {c}\<rparr>)"
| wk_leaves: "c \<in> wk_sockets w \<Longrightarrow> wk_step w (live_leave c w)"
| wk_closes: "c \<in> wk_leaving w \<Longrightarrow> wk_step w (w\<lparr>wk_leaving := wk_leaving w - {c}, wk_open := wk_open w - {c}\<rparr>)"
| wk_shuts: "wk_step w (closeSockets w)"
| wk_joins: "wk_closing w \<Longrightarrow> wk_wg w = 0 \<Longrightarrow> wk_step w (w\<lparr>wk_joined := True\<rparr>)"

inductive_cases wk_stepE: "wk_step w w'"

definition wk_inv :: "sim_sockets \<Rightarrow> bool" where
  "wk_inv w \<longleftrightarrow> finite (wk_sockets w) \<and> wk_wg w = card (wk_sockets w) \<and> wk_sockets w \<inter> wk_upgraded w = {} \<and>
     (\<forall>c \<in> wk_sockets w \<union> wk_upgraded w. c < wk_next w) \<and>
     wk_open w \<subseteq> wk_sockets w \<union> wk_upgraded w \<union> wk_leaving w \<and>
     (wk_closing w \<longrightarrow> wk_open w \<inter> wk_sockets w = {}) \<and> (wk_joined w \<longrightarrow> wk_closing w \<and> wk_sockets w = {})"

lemmas wk_defs = newServer_def closeSockets_def live_upgrade_def live_register_def live_leave_def

lemma wk_step_inv: "wk_inv w \<Longrightarrow> wk_step w w' \<Longrightarrow> wk_inv w'"
proof (erule wk_stepE, goal_cases)
  case 1
  then show ?case by (auto simp: wk_inv_def wk_defs less_Suc_eq)
next
  case (2 c)
  then have "c \<notin> wk_sockets w" by (auto simp: wk_inv_def)
  then show ?case using 2 by (auto simp: wk_inv_def wk_defs)
next
  case (4 c)
  then have "card (wk_sockets w - {c}) = card (wk_sockets w) - 1" by (simp add: wk_inv_def)
  then show ?case using 4 by (auto simp: wk_inv_def wk_defs)
qed (auto simp: wk_inv_def wk_defs)

interpretation wk_machine: machine "\<lambda>w. w = newServer" wk_step wk_inv
proof unfold_locales
  show "wk_inv w" if "w = newServer" for w using that by (simp add: wk_inv_def newServer_def)
qed (rule wk_step_inv)

text \<open>
  From the shutdown on no registered socket is open, so every handler of the group leaves; once the wait has returned no
  handler is in the group and none joins it, and a socket that is still open belongs to a handler whose next step refuses
  or closes it.
\<close>

lemma sockets_closed:
  assumes "reach (\<lambda>w. w = newServer) wk_step w"
  shows "(wk_closing w \<longrightarrow> wk_open w \<inter> wk_sockets w = {}) \<and>
    (wk_joined w \<longrightarrow> wk_sockets w = {} \<and> wk_wg w = 0 \<and> wk_open w \<subseteq> wk_upgraded w \<union> wk_leaving w \<and>
       (\<forall>w'. wk_step w w' \<longrightarrow> wk_sockets w' = {} \<and> wk_wg w' = 0))"
proof -
  have inv: "wk_inv w" by (rule wk_machine.reach_inv [OF assms])
  have "wk_sockets w' = {} \<and> wk_wg w' = 0" if "wk_step w w'" "wk_joined w" for w'
  proof -
    have "wk_inv w'" by (rule wk_step_inv [OF inv that(1)])
    moreover have "wk_joined w'" using that by (auto elim!: wk_stepE simp: wk_defs)
    ultimately show ?thesis by (simp add: wk_inv_def)
  qed
  then show ?thesis using inv by (auto simp: wk_inv_def)
qed

end
