(* ===== verification/Sim_Generate.thy ===== *)
theory Sim_Generate
  imports Sim_Manifest Paths
begin

text \<open>
  The files that \<open>generate\<close> (tools/simulator/manifest.go) writes: the configuration of go2rtc and that of the gateway, which
  is a base configuration with the entries for MQTT, security and nodes replaced. YAML, \<open>url.Parse\<close>, \<open>net.SplitHostPort\<close>
  and the file system are parameters; a file is what was handed to the encoder.
\<close>

record go2rtc_config =
  gc_api_listen :: string
  gc_rtsp_listen :: string
  gc_webrtc_listen :: string
  gc_candidates :: "string list"
  gc_streams :: "string \<rightharpoonup> string option"
  gc_eld :: string

text \<open>An entry of the gateway's configuration: one of those that are set, or one of the base (\<open>'v\<close>).\<close>

datatype ('k, 'v) app_entry = Ge_mqtt_off | Ge_token string | Ge_nodes "'k gen_node list" | Ge_base 'v

datatype ('k, 'v) gen_file = Gf_go2rtc string go2rtc_config | Gf_gocalis string "string \<rightharpoonup> ('k, 'v) app_entry"

text \<open>
  \<open>ge_host\<close> is the host of the parsed URL, which the code uses without looking at the error; \<open>ge_decode\<close> is the map after
  \<open>yaml.Unmarshal\<close>, which a null document leaves nil.
\<close>

record ('k, 'v) generate_env =
  ge_mkdir :: "go_error option"
  ge_host :: "string \<Rightarrow> string option"
  ge_split :: "string \<Rightarrow> (string \<times> string) option"
  ge_marshal :: "('k, 'v) gen_file \<Rightarrow> go_error option"
  ge_write :: "string \<Rightarrow> go_error option"
  ge_read :: "string \<Rightarrow> byte list result"
  ge_decode :: "byte list \<Rightarrow> (string \<rightharpoonup> 'v) option result"

definition gen_defaults :: "'k manifest \<Rightarrow> 'k manifest" where
  "gen_defaults m = m\<lparr>mf_Go2RTCRTSP := or_default (mf_Go2RTCRTSP m) ''127.0.0.1:18555'',
     mf_Go2RTCWebRTC := or_default (mf_Go2RTCWebRTC m) ''127.0.0.1:18556''\<rparr>"

definition go2rtc_of :: "('k, 'v) generate_env \<Rightarrow> 'k manifest \<Rightarrow> go2rtc_config option" where
  "go2rtc_of env m =
     (case ge_host env (mf_Go2RTC m) of
        None \<Rightarrow> None
      | Some host \<Rightarrow>
          Some \<lparr>gc_api_listen = host, gc_rtsp_listen = mf_Go2RTCRTSP m,
            gc_webrtc_listen = '':'' @ (case ge_split env (mf_Go2RTCWebRTC m) of None \<Rightarrow> [] | Some (_, port) \<Rightarrow> port),
            gc_candidates = [mf_Go2RTCWebRTC m], gc_streams = gen_streams m,
            gc_eld = ''-c:a libfdk_aac -profile:a aac_eld -ar:a 16000 -ac:a 1''\<rparr>)"

text \<open>The base configuration; a nil map is the inner \<open>None\<close>.\<close>

definition gen_base :: "('k, 'v) generate_env \<Rightarrow> string \<Rightarrow> (string \<rightharpoonup> 'v) option result" where
  "gen_base env base =
     (if base = [] then Inr (Some Map.empty)
      else case ge_read env base of Inl e \<Rightarrow> Inl e | Inr b \<Rightarrow> ge_decode env b)"

definition gocalis_of :: "'k manifest \<Rightarrow> (string \<rightharpoonup> 'v) \<Rightarrow> (string \<rightharpoonup> ('k, 'v) app_entry)" where
  "gocalis_of m app =
     (\<lambda>k. map_option Ge_base (app k))
       (''mqtt'' \<mapsto> Ge_mqtt_off, ''security'' \<mapsto> Ge_token (mf_Token m), ''nodes'' \<mapsto> Ge_nodes (gen_nodes m))"

definition gen_write :: "('k, 'v) generate_env \<Rightarrow> ('k, 'v) gen_file \<Rightarrow> string \<Rightarrow> (('k, 'v) gen_file list \<times> go_error option)" where
  "gen_write env f path =
     (case ge_marshal env f of
        Some e \<Rightarrow> ([], Some e)
      | None \<Rightarrow> (case ge_write env path of Some e \<Rightarrow> ([], Some e) | None \<Rightarrow> ([f], None)))"

text \<open>The files that were written and the error; \<open>None\<close> is a panic.\<close>

definition generate :: "('k, 'v) generate_env \<Rightarrow> 'k manifest \<Rightarrow> string \<Rightarrow> string \<Rightarrow> (('k, 'v) gen_file list \<times> go_error option) option" where
  "generate env m0 dir base =
     (if ge_mkdir env \<noteq> None then Some ([], ge_mkdir env)
      else
        let m = gen_defaults m0; rtc = path_Join [dir, ''go2rtc.yaml''] in
        case go2rtc_of env m of
          None \<Rightarrow> None
        | Some cfg \<Rightarrow>
            (case gen_write env (Gf_go2rtc rtc cfg) rtc of
               (fs, Some e) \<Rightarrow> Some (fs, Some e)
             | (fs, None) \<Rightarrow>
                 (case gen_base env base of
                    Inl e \<Rightarrow> Some (fs, Some e)
                  | Inr None \<Rightarrow> None
                  | Inr (Some app) \<Rightarrow>
                      (let path = path_Join [dir, ''gocalis.yaml''] in
                       case gen_write env (Gf_gocalis path (gocalis_of m app)) path of (gs, e) \<Rightarrow> Some (fs @ gs, e)))))"

text \<open>
  Without an error exactly the two files were written, into the directory that was asked for. The gateway's file keeps every
  entry of the base but three: MQTT is off, the token is the manifest's, and there is one node for each device.
\<close>

lemma generate_files:
  assumes "generate env m dir base = Some (fs, None)"
  shows "\<exists>cfg app. fs = [Gf_go2rtc (path_Join [dir, ''go2rtc.yaml'']) cfg, Gf_gocalis (path_Join [dir, ''gocalis.yaml'']) app] \<and>
    gc_streams cfg = gen_streams m \<and>
    app ''mqtt'' = Some Ge_mqtt_off \<and> app ''security'' = Some (Ge_token (mf_Token m)) \<and> app ''nodes'' = Some (Ge_nodes (gen_nodes m)) \<and>
    (\<exists>b. gen_base env base = Inr (Some b) \<and> (\<forall>k. k \<notin> {''mqtt'', ''security'', ''nodes''} \<longrightarrow> app k = map_option Ge_base (b k)))"
proof -
  have keep: "gen_streams (gen_defaults m) = gen_streams m" "gen_nodes (gen_defaults m) = gen_nodes m" "mf_Token (gen_defaults m) = mf_Token m"
    by (simp_all add: gen_defaults_def gen_streams_def gen_nodes_def device_streams_def [abs_def] gen_node_of_def [abs_def])
  obtain cfg where cfg: "go2rtc_of env (gen_defaults m) = Some cfg"
    using assms by (cases "go2rtc_of env (gen_defaults m)") (auto simp: generate_def Let_def split: if_splits)
  obtain b where b: "gen_base env base = Inr (Some b)"
      "fs = [Gf_go2rtc (path_Join [dir, ''go2rtc.yaml'']) cfg, Gf_gocalis (path_Join [dir, ''gocalis.yaml'']) (gocalis_of (gen_defaults m) b)]"
    using assms cfg
    by (auto simp: generate_def Let_def gen_write_def split: if_splits sum.splits option.splits prod.splits)
  have "gc_streams cfg = gen_streams m" using cfg keep by (auto simp: go2rtc_of_def split: option.splits)
  then show ?thesis using b keep by (simp add: gocalis_of_def)
qed

text \<open>After an error the files are a prefix of these: the gateway's file is never written without go2rtc's.\<close>

lemma generate_partial:
  assumes "generate env m dir base = Some (fs, Some e)"
  shows "fs = [] \<or> (\<exists>cfg. fs = [Gf_go2rtc (path_Join [dir, ''go2rtc.yaml'']) cfg])"
  using assms by (auto simp: generate_def Let_def gen_write_def split: if_splits option.splits sum.splits prod.splits)

text \<open>A base configuration that is a null document makes the program panic.\<close>

lemma generate_null_base:
  assumes "ge_mkdir env = None" and "go2rtc_of env (gen_defaults m) = Some cfg"
    and "ge_marshal env (Gf_go2rtc (path_Join [dir, ''go2rtc.yaml'']) cfg) = None" and "ge_write env (path_Join [dir, ''go2rtc.yaml'']) = None"
    and "gen_base env base = Inr None"
  shows "generate env m dir base = None"
  using assms by (simp add: generate_def gen_write_def Let_def)

end
