(* ===== verification/Event_Clients.thy ===== *)
theory Event_Clients
  imports Sim_Scenario Protocol
begin

text \<open>
  The two programs that listen to the gateway's events: the simulator's reader of the event socket (\<open>appEvents\<close>,
  tools/simulator/scenario.go) and the script that sends one command and waits for its completion (scripts/wsask/main.go).
  The sockets and the JSON codec are parameters.
\<close>

subsection \<open>The event socket of the simulator\<close>

text \<open>The endpoint with its scheme and the header; \<open>url_parse\<close> gives the scheme and what follows it.\<close>

definition events_endpoint :: "(string \<Rightarrow> (string \<times> string) result) \<Rightarrow> string \<Rightarrow> string \<Rightarrow> ((string \<times> string) \<times> (string \<times> string) list) result" where
  "events_endpoint url_parse App Token =
     (case url_parse (trim_right (CHR ''/'') App @ ''/api/events'') of
        Inl e \<Rightarrow> Inl e
      | Inr (scheme, address) \<Rightarrow>
          Inr ((if scheme = ''https'' then ''wss'' else ''ws'', address),
               if Token \<noteq> [] then [(''Authorization'', ''Bearer '' @ Token)] else []))"

definition connectEvents ::
    "(string \<Rightarrow> (string \<times> string) result) \<Rightarrow> ((string \<times> string) \<Rightarrow> (string \<times> string) list \<Rightarrow> go_error option) \<Rightarrow> string \<Rightarrow> string \<Rightarrow> string \<Rightarrow>
     app_events result" where
  "connectEvents url_parse dial App Token i =
     (case events_endpoint url_parse App Token of
        Inl e \<Rightarrow> Inl e
      | Inr (u, header) \<Rightarrow>
          (case dial u header of
             Some e \<Rightarrow> Inl e
           | None \<Rightarrow> Inr (events_new i)))"

inductive events_step :: "app_events \<Rightarrow> app_events \<Rightarrow> bool" where
  av_receives: "\<not> av_ended a \<Longrightarrow> events_step a (events_receive e a)"
| av_fails: "\<not> av_ended a \<Longrightarrow> err \<noteq> events_overrun \<Longrightarrow> events_step a (events_fail err a)"
| av_clears: "events_step a (events_clear a)"
| av_gives: "av_queue a = e # q \<Longrightarrow> events_step a (a\<lparr>av_queue := q, av_taken := av_taken a @ [e]\<rparr>)"
| av_closes: "events_step a (events_close a)"

inductive_cases events_stepE: "events_step a a'"

definition events_inv :: "string \<Rightarrow> app_events \<Rightarrow> bool" where
  "events_inv i a \<longleftrightarrow> av_id a = i \<and> length (av_queue a) \<le> 128 \<and> (\<forall>e \<in> set (av_logged a). av_mine i e) \<and>
     (av_ended a \<longleftrightarrow> av_err a \<noteq> None) \<and>
     (if av_err a = Some events_overrun then \<exists>e. av_logged a = av_taken a @ av_queue a @ [e] else av_logged a = av_taken a @ av_queue a)"

lemma events_step_inv: "events_inv i a \<Longrightarrow> events_step a a' \<Longrightarrow> events_inv i a'"
proof (erule events_stepE, goal_cases)
  case (1 e)
  then show ?case by (auto simp: events_inv_def events_receive_def Let_def)
next
  case (3)
  then show ?case by (auto simp: events_inv_def events_clear_def split: if_splits)
next
  case (4 e q)
  then show ?case by (auto simp: events_inv_def split: if_splits)
qed (auto simp: events_inv_def events_fail_def events_close_def split: if_splits)

definition events_connected :: "string \<Rightarrow> app_events \<Rightarrow> bool" where
  "events_connected i a \<longleftrightarrow> (\<exists>url_parse dial App Token. connectEvents url_parse dial App Token i = Inr a)"

lemma events_connected_new:
  assumes "events_connected i a"
  shows "a = \<lparr>av_id = i, av_queue = [], av_err = None, av_ended = False, av_open = True, av_logged = [], av_taken = []\<rparr>"
proof -
  obtain url_parse dial App Token where c: "connectEvents url_parse dial App Token i = Inr a"
    using assms by (auto simp: events_connected_def)
  then obtain u header where "events_endpoint url_parse App Token = Inr (u, header)"
    by (cases "events_endpoint url_parse App Token") (auto simp: connectEvents_def)
  then show ?thesis using c by (cases "dial u header") (simp_all add: connectEvents_def events_new_def)
qed

interpretation events_machine: machine "events_connected i" events_step "events_inv i" for i
proof unfold_locales
  show "events_inv i a" if "events_connected i a" for a
    using events_connected_new [OF that] by (simp add: events_inv_def)
qed (rule events_step_inv)

text \<open>
  At most 128 events wait. The waits and \<open>clear\<close> took, in order, events for the device or for all nodes, and every such
  event that arrived was taken, is waiting, or is the one that overran the queue, which ends the socket with that error.
\<close>

lemma events_in_order:
  assumes "reach (events_connected i) events_step a"
  shows "length (av_queue a) \<le> 128 \<and> (\<forall>e \<in> set (av_taken a @ av_queue a). av_mine i e) \<and>
    (av_logged a = av_taken a @ av_queue a \<or>
     av_ended a \<and> av_err a = Some events_overrun \<and> (\<exists>e. av_logged a = av_taken a @ av_queue a @ [e]))"
proof -
  have inv: "events_inv i a" by (rule events_machine.reach_inv [OF assms])
  then have "set (av_taken a @ av_queue a) \<subseteq> set (av_logged a)" by (auto simp: events_inv_def split: if_splits)
  then show ?thesis using inv by (auto simp: events_inv_def split: if_splits)
qed

subsection \<open>The script wsask\<close>

record wsask_flags =
  wf_addr :: string
  wf_action :: string
  wf_node :: string
  wf_tts :: string
  wf_vadTimeout :: f64
  wf_priority :: int
  wf_bargeIn :: bool
  wf_timeout :: duration

definition wsask_defaults :: wsask_flags where
  "wsask_defaults = \<lparr>wf_addr = ''ws://localhost:9090/ws'', wf_action = ''ask'', wf_node = ''front_door'', wf_tts = [],
     wf_vadTimeout = Fin 6, wf_priority = 10, wf_bargeIn = False, wf_timeout = 30 * second\<rparr>"

text \<open>The request the gateway decodes: the six members that are sent, the others as they are when absent.\<close>

definition wsask_request :: "wsask_flags \<Rightarrow> request" where
  "wsask_request f =
     \<lparr>rq_Action = wf_action f, rq_NodeID = wf_node f, rq_Text = wf_tts f, rq_AudioFile = [], rq_Priority = wf_priority f,
      rq_AudioWavBase64 = [], rq_ContextID = [], rq_BargeIn = wf_bargeIn f, rq_RequireSpeakerID = False, rq_OutputFormat = [],
      rq_VADTimeoutSeconds = wf_vadTimeout f, rq_CaptureDelaySeconds = Fin 0, rq_PostSpeechSilenceSeconds = Fin 0\<rparr>"

text \<open>
  The messages that arrive before the socket fails or the deadline passes, as the event they hold (\<open>None\<close> when a message
  is not JSON), and the error that ends them. \<open>Inr\<close> is the number of messages read up to the terminal event.
\<close>

fun wsask_wait :: "string \<Rightarrow> string option list \<Rightarrow> go_error \<Rightarrow> nat result" where
  "wsask_wait terminal [] ended = Inl ended"
| "wsask_wait terminal (e # es) ended =
     (if e = Some terminal then Inr 1 else case wsask_wait terminal es ended of Inl err \<Rightarrow> Inl err | Inr n \<Rightarrow> Inr (Suc n))"

datatype wsask_end = Ask_fatal string | Ask_done nat

record wsask_env =
  wa_dial :: "string \<Rightarrow> go_error option"
  wa_send :: "request \<Rightarrow> go_error option"
  wa_events :: "string option list"
  wa_ended :: go_error

text \<open>The request that was sent, if any, and how the process ended.\<close>

definition wsask_main :: "wsask_env \<Rightarrow> wsask_flags \<Rightarrow> request option \<times> wsask_end" where
  "wsask_main env f =
     (case wa_dial env (wf_addr f) of
        Some e \<Rightarrow> (None, Ask_fatal (''dial '' @ wf_addr f @ '': '' @ err_text e))
      | None \<Rightarrow>
          (case wa_send env (wsask_request f) of
             Some e \<Rightarrow> (None, Ask_fatal (''send: '' @ err_text e))
           | None \<Rightarrow>
               (Some (wsask_request f),
                case wsask_wait (wf_action f @ ''_completed'') (wa_events env) (wa_ended env) of
                  Inl e \<Rightarrow> Ask_fatal (''read (or timeout): '' @ err_text e)
                | Inr n \<Rightarrow> Ask_done n)))"

lemma wsask_wait_spec:
  "wsask_wait terminal es ended =
     (if Some terminal \<in> set es then Inr (Suc (length (takeWhile (\<lambda>e. e \<noteq> Some terminal) es))) else Inl ended)"
  by (induction es) auto

text \<open>
  The script succeeds exactly when the completion event arrives. The actions \<open>asr\<close> and \<open>speaker_id\<close>, which its flag offers,
  cannot complete: the request names no file, so the gateway answers with an error and the script waits until it gives up.
\<close>

lemma wsask_done:
  "snd (wsask_main env f) = Ask_done n \<longleftrightarrow>
     wa_dial env (wf_addr f) = None \<and> wa_send env (wsask_request f) = None \<and> Some (wf_action f @ ''_completed'') \<in> set (wa_events env) \<and>
     n = Suc (length (takeWhile (\<lambda>e. e \<noteq> Some (wf_action f @ ''_completed'')) (wa_events env)))"
  by (auto simp: wsask_main_def wsask_wait_spec split: option.splits)

lemma wsask_file_actions_fail:
  assumes "wf_action f = ''asr'' \<or> wf_action f = ''speaker_id''"
  shows "\<exists>r. fst (Execute env e cerr (wsask_request f)) = [r] \<and> rp_Event r = ''error'' \<and> rp_Event r \<noteq> wf_action f @ ''_completed''"
proof -
  have "req_Validate (wsask_request f) \<noteq> None" using assms by (auto simp: req_Validate_def wsask_request_def)
  then obtain err where "req_Validate (wsask_request f) = Some err" by blast
  then show ?thesis using assms by (auto simp: Execute_def publishError_def empty_response_def)
qed

text \<open>An \<open>ask\<close> the gateway answers ends the script, whatever else was broadcast before.\<close>

lemma wsask_ask_completes:
  assumes "wf_action f = ''ask''" and "wa_dial env (wf_addr f) = None" and "wa_send env (wsask_request f) = None"
    and "executeAsk xenv sp s (wsask_request f) = (rs, t)" and "wf_node f \<noteq> []"
    and "map (\<lambda>r. Some (rp_Event r)) rs = es" and "wa_events env = before @ es @ later"
  shows "\<exists>n. snd (wsask_main env f) = Ask_done n"
proof -
  have "\<exists>r. rs = [r] \<and> rp_Event r = ''ask_completed''"
    using assms(4,5) by (auto simp: executeAsk_def wsask_request_def ask_response_def empty_response_def Let_def split: prod.splits if_splits)
  then have "Some (wf_action f @ ''_completed'') \<in> set (wa_events env)" using assms(1,6,7) by auto
  then show ?thesis using assms(2,3) wsask_done by blast
qed

end
