(* ===== verification/Spec2Isabelle.thy ===== *)
theory Spec2Isabelle
  imports Contracts Webserver Server_Life Jitter Speech Speaker Wake Webrtc_Client Node_Runtime Recording Watch Local_Audio Max_Counter Client_Play Node_Wiring Demo_Mode Sim_Wire Sim_Sockets Sim_Generate
    Event_Clients
begin

text \<open>
  Gocalis is a voice gateway written in Go. A \<^emph>\<open>node\<close> is an audio endpoint: the local sound card or a go2rtc stream
  reached over WebRTC, with an optional backchannel to a doorbell. Its microphone feeds a wake word detector, a voice
  activity detector and the sessions of running questions; its loudspeaker is driven by the \<^emph>\<open>brain\<close>, which grants
  turns on every node, and by the \<^emph>\<open>ask engine\<close>, which within one turn speaks a prompt, listens, transcribes and may
  verify the speaker. Commands arrive over HTTP, a WebSocket and MQTT and go through one executor; what happened is
  published to all three. The development follows that structure.

  \<^bold>\<open>Foundations.\<close> \<open>Go_Prelude\<close>: widths of integers, errors, observed contexts, package \<open>strings\<close>, reachability and the
  locale \<open>machine\<close> (an invariant of a step relation), which every state machine below instantiates. \<open>Go_Float\<close>: IEEE
  \<open>float32\<close> and \<open>float64\<close> as rationals with rounding. \<open>Go_Heap\<close>: \<open>container/heap\<close> as a locale over the client's \<open>Less\<close>
  and \<open>Swap\<close>. \<open>Paths\<close>: the lexical part of \<open>path/filepath\<close>. \<open>Native\<close>: handles of foreign libraries, with use after
  deletion, double deletion and leaks visible. \<open>Turn_Effects\<close>: traces of what drives a node, and their discipline.
  \<open>Contracts\<close>: what three concurrent components promise, as machines of their own, and the simulations (locale \<open>simulation\<close>,
  over \<open>machine\<close>) that take the code's steps to theirs: the turn queue is a lock with priorities, the stream of a synthesis a
  bounded pipe, the task group a counting semaphore that can be closed.

  \<^bold>\<open>Audio.\<close> \<open>Pcm\<close> (internal/audio/convert.go, gain.go, resample.go, mulaw.go), \<open>Wav\<close> (wav.go), \<open>Stream_Resampler\<close>
  (stream_resample.go), \<open>Audio_Source\<close> (internal/audionode, internal/ask/prompt.go, the gain of internal/brain/brain.go;
  the locale \<open>pcm_source\<close> is the contract of a pull source, and wrapping a source is a sublocale of it). Shown:
  encoding and decoding are inverse up to the one byte the code gets wrong, resampling in chunks is resampling of the
  whole, a player that drains a source has played exactly what the source held.

  \<^bold>\<open>Turns.\<close> \<open>Node_Queue\<close> (internal/brain/queue.go, with the heap, the condition variable and the parked waiters),
  \<open>Workqueue\<close> (internal/workqueue/queue.go; the locale \<open>stable_queue\<close> says what serving by priority means, and both
  queues interpret it), \<open>Taskgroup\<close> (internal/taskgroup/group.go), \<open>Node_State\<close> (internal/node/node.go), \<open>Session\<close> and
  \<open>Registry\<close> (internal/session), \<open>Brain\<close> (internal/brain/brain.go), \<open>Ask\<close> (internal/ask/ask.go, chime.go). Shown: one
  owner of a node, no lost wakeup, the order of turns, what a capture holds, that every way of driving a node stays
  within a turn and gives it back on every path, and that a required speaker was really identified.

  \<^bold>\<open>Models.\<close> \<open>Job_Engine\<close> is the worker that recogniser and synthesizer share, \<open>Speech\<close> and \<open>Audio_Stream\<close> are
  internal/ai/speech.go on top of it, \<open>Speaker\<close> internal/ai/speaker.go, \<open>Wake\<close> internal/ai/wake.go. Shown: every admitted job is
  answered, a stream delivers a prefix of what was pushed within its bound and never deadlocks, no native object is
  misused or leaked.

  \<^bold>\<open>WebRTC.\<close> \<open>Jitter\<close> (internal/webrtc/jitter.go), \<open>Playout\<close> (framing and the play loop both paths share), \<open>Talkback\<close> and
  \<open>Talkback_Link\<close> (talkback.go), \<open>Webrtc_Play\<close>, \<open>Webrtc_Receive\<close>, \<open>Webrtc_Client\<close> and \<open>Client_Play\<close> (client.go), \<open>Max_Counter\<close>
  (diagnostics.go), \<open>Url\<close> (the endpoints of client and runtime). Shown: the window accounts for every packet, playing ends
  and sends exactly the frames of the source whatever was played before, samples reach the callback only in their epoch,
  one connection and a bounded number of reconnections.

  \<^bold>\<open>Interfaces.\<close> \<open>Config\<close> (internal/config/config.go), \<open>Watch\<close> (watcher.go), \<open>Httpsec\<close> (internal/httpsec), \<open>Hub\<close>
  (internal/wshub), \<open>Protocol\<close> (internal/protocol), \<open>Webserver\<close> and \<open>Server_Life\<close> (internal/webserver, internal/server), \<open>Mqtt\<close> (internal/mqtt),
  \<open>Recording\<close> (internal/diagnostics), \<open>Local_Audio\<close> (internal/localaudio). Shown: what an accepted configuration satisfies, which
  origins and tokens are admitted, that an unauthenticated request is inert, that files stay in their directories, that
  a command has one response, and that bursts of changes are one reload.

  \<^bold>\<open>The program.\<close> \<open>Node_Runtime\<close> and \<open>Node_Wiring\<close> (internal/runtime/runtime.go) connect microphone, detector, client and
  sessions; \<open>Gateway\<close>, \<open>Diag_Modes\<close> and \<open>Demo_Mode\<close> (cmd/main.go) start and stop everything, as a service, in the diagnostic
  modes and as a demonstration. Shown: which frame goes where, one wake turn at a time, and that what was opened is closed once and in a safe order however far the
  start got.

  \<^bold>\<open>The simulator.\<close> tools/simulator tests the gateway against simulated doorbells: \<open>Sim_Audio\<close>, \<open>Sim_Faults\<close>,
  \<open>Sim_Device\<close>, \<open>Sim_Manifest\<close> and \<open>Sim_Generate\<close> (the manifest and the files made from it), \<open>Sim_Scenario\<close>, \<open>Sim_Server\<close> and
  \<open>Sim_Sockets\<close> (its HTTP interface), \<open>Sim_Engine\<close> (clock, sessions, modes), \<open>Sim_Wire\<close> (the first line of a connection and its
  dispatch, the decoder, fixtures and codec probe). \<open>Event_Clients\<close> is the simulator's reader of events and the script
  scripts/wsask. Shown: the schedule of the faults, who owns a device's input, what a manifest guarantees, which device a
  connection reaches, that fixtures stay in their directory, that closing leaves nothing running, what a request can
  change, and what a passed scenario means.

  \<^bold>\<open>How the code is read.\<close> A section under a mutex is one function of the state it guards, and one step of a machine
  where goroutines interleave; a wait on a condition variable or a channel is a step that is enabled later, or an
  outcome of its own. A Go error is a value of \<open>go_error\<close> and a fallible function gives a sum; a panic is \<open>None\<close>. What the
  outside answers (sockets, files, native models, the clock, a context's \<open>Err\<close>) is a parameter: a field of an environment
  record, or an argument. What the code does to the outside is a trace. PCM samples, bytes, RTP sequence numbers and
  timestamps keep their width; counters that cannot reach 2^63 in the life of the process are \<open>nat\<close> or \<open>int\<close>. A Go map is a
  list with distinct keys, and no claim rests on the order of a \<open>range\<close> over it.

  \<^bold>\<open>Bounds and loops.\<close> There is no fuel. Loops over data are structural or have a measure; loops that depend on the
  outside (a source, the spotter, a pipe) are \<open>partial_function (option)\<close>, so that not returning is \<open>None\<close>, and the claims
  about them say that they return. The bounds are the code's own: 32 messages per client, 32 packets in the receive
  queue, 100 frames in the talkback queue, two seconds of a synthesis, two minutes of a capture and of a recording.

  \<^bold>\<open>Not modelled.\<close> Third-party code (sherpa-onnx, pion, libopus, fdk-aac, go2rtc's RTSP library, paho, fsnotify, gorilla,
  YAML and JSON codecs, \<open>net/url\<close> parsing, the parser of flags) and programs that are run (ffmpeg, arecord, aplay): parameters
  only. Log lines, the measured durations and the places that count packets for the diagnostics. Listening sockets and
  the contents of the embedded web pages. The Node-RED package, the web page and the deployment files.
\<close>

end
